(* ===== verification/VT_Prelude.thy ===== *)
theory VT_Prelude
  imports Main "HOL-Library.Word"
begin

text \<open>
  Shared vocabulary of the development. It holds the names of the fixed-width integers of
  \<^verbatim>\<open>common/types.hpp\<close>, the status codes of \<^verbatim>\<open>common/status.hpp\<close>, the result type of
  \<^verbatim>\<open>common/result.hpp\<close> extended with the value \<open>Fault\<close> (an access outside a buffer, undefined
  behaviour in the source), raw byte buffers with the reads and writes every component performs on
  them, and the little- and big-endian views of a word as a list of bytes.
  An object representation of a \<^verbatim>\<open>T*\<close>/length pair is a byte list; a \<^verbatim>\<open>usize\<close> that measures such a
  list is a \<open>nat\<close> (no list of the model reaches \<open>2 ^ 64\<close> entries), while integers that are read from
  a file or a packet keep their width.
\<close>

unbundle bit_operations_syntax

named_theorems vt_simps \<open>equations that unfold small helper operations of the model\<close>
named_theorems buf_simps \<open>reads and writes of byte buffers\<close>

section \<open>Fixed-width integers\<close>

type_synonym u8 = "8 word"
type_synonym u16 = "16 word"
type_synonym u32 = "32 word"
type_synonym u64 = "64 word"

text \<open>A signed integer is the same word, read with \<^const>\<open>sint\<close>.\<close>

type_synonym i32 = "32 word"
type_synonym i64 = "64 word"

type_synonym bytes = "u8 list"

section \<open>Status codes and results\<close>

text \<open>
  \<^verbatim>\<open>enum class StatusCode : i32\<close> is kept with its numeric values. The message of a
  \<^verbatim>\<open>Status\<close> only serves diagnostics and is left out.
\<close>

datatype status_code = StatusCode int

abbreviation OK :: status_code where "OK \<equiv> StatusCode 0"
abbreviation Unknown :: status_code where "Unknown \<equiv> StatusCode 1"
abbreviation InvalidArgument :: status_code where "InvalidArgument \<equiv> StatusCode 2"
abbreviation OutOfRange :: status_code where "OutOfRange \<equiv> StatusCode 3"
abbreviation BufferTooSmall :: status_code where "BufferTooSmall \<equiv> StatusCode 4"
abbreviation NotImplemented :: status_code where "NotImplemented \<equiv> StatusCode 5"
abbreviation InternalError :: status_code where "InternalError \<equiv> StatusCode 6"
abbreviation AllocationFailed :: status_code where "AllocationFailed \<equiv> StatusCode 100"
abbreviation OutOfMemory :: status_code where "OutOfMemory \<equiv> StatusCode 101"
abbreviation InvalidAlignment :: status_code where "InvalidAlignment \<equiv> StatusCode 102"
abbreviation FileNotFound :: status_code where "FileNotFound \<equiv> StatusCode 200"
abbreviation FileOpenFailed :: status_code where "FileOpenFailed \<equiv> StatusCode 201"
abbreviation FileReadFailed :: status_code where "FileReadFailed \<equiv> StatusCode 202"
abbreviation FileWriteFailed :: status_code where "FileWriteFailed \<equiv> StatusCode 203"
abbreviation FileSeekFailed :: status_code where "FileSeekFailed \<equiv> StatusCode 204"
abbreviation FileStatFailed :: status_code where "FileStatFailed \<equiv> StatusCode 205"
abbreviation FileSyncFailed :: status_code where "FileSyncFailed \<equiv> StatusCode 206"
abbreviation FileRenameFailed :: status_code where "FileRenameFailed \<equiv> StatusCode 207"
abbreviation FileRemoveFailed :: status_code where "FileRemoveFailed \<equiv> StatusCode 208"
abbreviation DirectoryCreateFailed :: status_code where "DirectoryCreateFailed \<equiv> StatusCode 209"
abbreviation MmapFailed :: status_code where "MmapFailed \<equiv> StatusCode 210"
abbreviation MunmapFailed :: status_code where "MunmapFailed \<equiv> StatusCode 211"
abbreviation MprotectFailed :: status_code where "MprotectFailed \<equiv> StatusCode 212"
abbreviation MsyncFailed :: status_code where "MsyncFailed \<equiv> StatusCode 213"
abbreviation InvalidMapping :: status_code where "InvalidMapping \<equiv> StatusCode 214"
abbreviation InvalidMagic :: status_code where "InvalidMagic \<equiv> StatusCode 300"
abbreviation InvalidVersion :: status_code where "InvalidVersion \<equiv> StatusCode 301"
abbreviation InvalidChecksum :: status_code where "InvalidChecksum \<equiv> StatusCode 302"
abbreviation InvalidLength :: status_code where "InvalidLength \<equiv> StatusCode 303"
abbreviation InvalidMessageType :: status_code where "InvalidMessageType \<equiv> StatusCode 304"
abbreviation InvalidFlags :: status_code where "InvalidFlags \<equiv> StatusCode 305"
abbreviation InvalidPayload :: status_code where "InvalidPayload \<equiv> StatusCode 306"
abbreviation TruncatedFrame :: status_code where "TruncatedFrame \<equiv> StatusCode 307"
abbreviation ReservedFieldNotZero :: status_code where "ReservedFieldNotZero \<equiv> StatusCode 308"
abbreviation SequenceNotMonotonic :: status_code where "SequenceNotMonotonic \<equiv> StatusCode 309"
abbreviation InvalidTimestamp :: status_code where "InvalidTimestamp \<equiv> StatusCode 310"
abbreviation PcapInvalidHeader :: status_code where "PcapInvalidHeader \<equiv> StatusCode 320"
abbreviation PcapTruncatedRecord :: status_code where "PcapTruncatedRecord \<equiv> StatusCode 321"
abbreviation PcapUnsupportedLinkType :: status_code where "PcapUnsupportedLinkType \<equiv> StatusCode 322"
abbreviation PcapInvalidIPv4Header :: status_code where "PcapInvalidIPv4Header \<equiv> StatusCode 323"
abbreviation PcapInvalidUDPHeader :: status_code where "PcapInvalidUDPHeader \<equiv> StatusCode 324"
abbreviation PcapFragmentedPacket :: status_code where "PcapFragmentedPacket \<equiv> StatusCode 325"
abbreviation PcapInvalidVlan :: status_code where "PcapInvalidVlan \<equiv> StatusCode 326"
abbreviation SegmentInvalidHeader :: status_code where "SegmentInvalidHeader \<equiv> StatusCode 400"
abbreviation SegmentInvalidBlock :: status_code where "SegmentInvalidBlock \<equiv> StatusCode 401"
abbreviation SegmentInvalidFooter :: status_code where "SegmentInvalidFooter \<equiv> StatusCode 402"
abbreviation SegmentSchemaMismatch :: status_code where "SegmentSchemaMismatch \<equiv> StatusCode 403"
abbreviation SegmentChecksumFailed :: status_code where "SegmentChecksumFailed \<equiv> StatusCode 404"
abbreviation SegmentCorrupted :: status_code where "SegmentCorrupted \<equiv> StatusCode 405"
abbreviation ManifestInvalid :: status_code where "ManifestInvalid \<equiv> StatusCode 420"
abbreviation ManifestCorrupted :: status_code where "ManifestCorrupted \<equiv> StatusCode 421"
abbreviation ManifestGenerationGap :: status_code where "ManifestGenerationGap \<equiv> StatusCode 422"
abbreviation JournalInvalid :: status_code where "JournalInvalid \<equiv> StatusCode 440"
abbreviation JournalCorrupted :: status_code where "JournalCorrupted \<equiv> StatusCode 441"
abbreviation JournalReplayFailed :: status_code where "JournalReplayFailed \<equiv> StatusCode 442"
abbreviation RecoveryFailed :: status_code where "RecoveryFailed \<equiv> StatusCode 450"
abbreviation RecoveryInconsistent :: status_code where "RecoveryInconsistent \<equiv> StatusCode 451"
abbreviation LexerError :: status_code where "LexerError \<equiv> StatusCode 500"
abbreviation ParserError :: status_code where "ParserError \<equiv> StatusCode 501"
abbreviation BinderError :: status_code where "BinderError \<equiv> StatusCode 502"
abbreviation TypeError :: status_code where "TypeError \<equiv> StatusCode 503"
abbreviation SemanticError :: status_code where "SemanticError \<equiv> StatusCode 504"
abbreviation InvalidQuery :: status_code where "InvalidQuery \<equiv> StatusCode 505"
abbreviation QueryTooComplex :: status_code where "QueryTooComplex \<equiv> StatusCode 506"
abbreviation UnknownColumn :: status_code where "UnknownColumn \<equiv> StatusCode 507"
abbreviation UnknownTable :: status_code where "UnknownTable \<equiv> StatusCode 508"
abbreviation IRVerificationFailed :: status_code where "IRVerificationFailed \<equiv> StatusCode 600"
abbreviation IRInvalidOpcode :: status_code where "IRInvalidOpcode \<equiv> StatusCode 601"
abbreviation IRTypeMismatch :: status_code where "IRTypeMismatch \<equiv> StatusCode 602"
abbreviation IRInvalidBlock :: status_code where "IRInvalidBlock \<equiv> StatusCode 603"
abbreviation IRInvalidFunction :: status_code where "IRInvalidFunction \<equiv> StatusCode 604"
abbreviation JITCompilationFailed :: status_code where "JITCompilationFailed \<equiv> StatusCode 700"
abbreviation JITCodeTooLarge :: status_code where "JITCodeTooLarge \<equiv> StatusCode 701"
abbreviation JITRelocationFailed :: status_code where "JITRelocationFailed \<equiv> StatusCode 702"
abbreviation JITRegisterAllocationFailed :: status_code where "JITRegisterAllocationFailed \<equiv> StatusCode 703"
abbreviation JITMemoryAllocationFailed :: status_code where "JITMemoryAllocationFailed \<equiv> StatusCode 704"
abbreviation JITFeatureNotSupported :: status_code where "JITFeatureNotSupported \<equiv> StatusCode 705"
abbreviation SocketCreateFailed :: status_code where "SocketCreateFailed \<equiv> StatusCode 800"
abbreviation SocketBindFailed :: status_code where "SocketBindFailed \<equiv> StatusCode 801"
abbreviation SocketRecvFailed :: status_code where "SocketRecvFailed \<equiv> StatusCode 802"
abbreviation SocketSendFailed :: status_code where "SocketSendFailed \<equiv> StatusCode 803"
abbreviation SocketTimeout :: status_code where "SocketTimeout \<equiv> StatusCode 804"
abbreviation QueueFull :: status_code where "QueueFull \<equiv> StatusCode 900"
abbreviation QueueEmpty :: status_code where "QueueEmpty \<equiv> StatusCode 901"
abbreviation WorkerFailed :: status_code where "WorkerFailed \<equiv> StatusCode 902"
abbreviation CancellationRequested :: status_code where "CancellationRequested \<equiv> StatusCode 903"
abbreviation LimitExceeded :: status_code where "LimitExceeded \<equiv> StatusCode 1000"
abbreviation MaxRowsExceeded :: status_code where "MaxRowsExceeded \<equiv> StatusCode 1001"
abbreviation MaxSegmentsExceeded :: status_code where "MaxSegmentsExceeded \<equiv> StatusCode 1002"
abbreviation MaxFileSizeExceeded :: status_code where "MaxFileSizeExceeded \<equiv> StatusCode 1003"

text \<open>
  \<^verbatim>\<open>Result<T>\<close> holds a value or an error status. \<open>Fault\<close> marks an execution that left the
  defined behaviour of the source (a read or write outside a buffer, a division that traps), so
  that memory safety is the statement that an operation never returns \<open>Fault\<close>.
\<close>

datatype 'a outcome = Ok 'a | Err status_code | Fault

definition is_ok :: "'a outcome \<Rightarrow> bool" where
  "is_ok r = (case r of Ok _ \<Rightarrow> True | _ \<Rightarrow> False)"

definition value_or :: "'a outcome \<Rightarrow> 'a \<Rightarrow> 'a" where
  "value_or r d = (case r of Ok v \<Rightarrow> v | _ \<Rightarrow> d)"

definition map_result :: "('a \<Rightarrow> 'b) \<Rightarrow> 'a outcome \<Rightarrow> 'b outcome" where
  "map_result f r = (case r of Ok v \<Rightarrow> Ok (f v) | Err c \<Rightarrow> Err c | Fault \<Rightarrow> Fault)"

text \<open>\<^verbatim>\<open>VT_RETURN_IF_ERROR\<close> and \<^verbatim>\<open>VT_ASSIGN_OR_RETURN\<close>: go on with the value or return the error.\<close>

definition obind :: "'a outcome \<Rightarrow> ('a \<Rightarrow> 'b outcome) \<Rightarrow> 'b outcome" where
  "obind r f = (case r of Ok v \<Rightarrow> f v | Err c \<Rightarrow> Err c | Fault \<Rightarrow> Fault)"

lemma obind_simps [simp]:
  "obind (Ok v) f = f v" "obind (Err c) f = Err c" "obind Fault f = Fault"
  by (simp_all add: obind_def)

lemma is_ok_simps [simp]:
  "is_ok (Ok v)" "\<not> is_ok (Err c)" "\<not> is_ok Fault"
  by (simp_all add: is_ok_def)

lemma obind_eq_Ok: "obind r f = Ok v \<longleftrightarrow> (\<exists>x. r = Ok x \<and> f x = Ok v)"
  by (cases r) simp_all

lemma obind_not_Fault:
  "r \<noteq> Fault \<Longrightarrow> (\<And>x. r = Ok x \<Longrightarrow> f x \<noteq> Fault) \<Longrightarrow> obind r f \<noteq> Fault"
  by (cases r) simp_all

section \<open>Byte buffers\<close>

text \<open>\<^verbatim>\<open>memcpy\<close> out of and into a buffer; a caller is responsible for staying inside it.\<close>

definition get_bytes :: "nat \<Rightarrow> nat \<Rightarrow> bytes \<Rightarrow> bytes" where
  "get_bytes off n buf = take n (drop off buf)"

definition put_bytes :: "nat \<Rightarrow> bytes \<Rightarrow> bytes \<Rightarrow> bytes" where
  "put_bytes off bs buf = take off buf @ bs @ drop (off + length bs) buf"

text \<open>The checked read: \<open>Fault\<close> when it touches a byte outside the buffer.\<close>

definition load :: "nat \<Rightarrow> nat \<Rightarrow> bytes \<Rightarrow> bytes outcome" where
  "load off n buf = (if off + n \<le> length buf then Ok (get_bytes off n buf) else Fault)"

text \<open>The checked write.\<close>

definition store :: "nat \<Rightarrow> bytes \<Rightarrow> bytes \<Rightarrow> bytes outcome" where
  "store off bs buf = (if off + length bs \<le> length buf then Ok (put_bytes off bs buf) else Fault)"

lemma store_in_range [simp]: "off + length bs \<le> length buf \<Longrightarrow> store off bs buf = Ok (put_bytes off bs buf)"
  by (simp add: store_def)

lemma put_bytes_append [buf_simps]:
  "off \<le> length buf \<Longrightarrow> put_bytes (off + length a) b (put_bytes off a buf) = put_bytes off (a @ b) buf"
  by (simp add: put_bytes_def ac_simps)

lemma put_bytes_Nil [simp]: "put_bytes off [] buf = buf"
  by (simp add: put_bytes_def)

lemma length_get_bytes [simp]: "off + n \<le> length buf \<Longrightarrow> length (get_bytes off n buf) = n"
  by (simp add: get_bytes_def)

lemma length_put_bytes [simp]:
  "off + length bs \<le> length buf \<Longrightarrow> length (put_bytes off bs buf) = length buf"
  by (simp add: put_bytes_def)

lemma get_put_same [buf_simps]:
  "off \<le> length buf \<Longrightarrow> n = length bs \<Longrightarrow> get_bytes off n (put_bytes off bs buf) = bs"
  by (simp add: get_bytes_def put_bytes_def)

lemma get_put_before [buf_simps]:
  "off + n \<le> p \<Longrightarrow> p \<le> length buf \<Longrightarrow> get_bytes off n (put_bytes p bs buf) = get_bytes off n buf"
  by (simp add: get_bytes_def put_bytes_def drop_take)

lemma get_put_after [buf_simps]:
  assumes "p + length bs \<le> off" "p \<le> length buf"
  shows "get_bytes off n (put_bytes p bs buf) = get_bytes off n buf"
proof -
  have "drop off (take p buf @ bs @ drop (p + length bs) buf)
      = drop (off - (p + length bs)) (drop (p + length bs) buf)"
    using assms by simp
  also have "\<dots> = drop off buf"
    using assms by (simp only: drop_drop) simp
  finally show ?thesis by (simp add: get_bytes_def put_bytes_def)
qed

lemma get_bytes_all: "n = length buf \<Longrightarrow> get_bytes 0 n buf = buf"
  by (simp add: get_bytes_def)

lemma load_eq_Ok [simp]: "load off n buf = Ok bs \<longleftrightarrow> off + n \<le> length buf \<and> bs = get_bytes off n buf"
  by (auto simp: load_def)

lemma load_in_range: "off + n \<le> length buf \<Longrightarrow> load off n buf = Ok (get_bytes off n buf)"
  by simp

section \<open>Words as byte sequences\<close>

definition le_bytes :: "nat \<Rightarrow> 'a::len word \<Rightarrow> bytes" where
  "le_bytes n w = map (\<lambda>i. ucast (drop_bit (8 * i) w)) [0..<n]"

fun le_word :: "bytes \<Rightarrow> 'a::len word" where
  "le_word [] = 0"
| "le_word (b # bs) = ucast b OR push_bit 8 (le_word bs)"

definition be_bytes :: "nat \<Rightarrow> 'a::len word \<Rightarrow> bytes" where
  "be_bytes n w = rev (le_bytes n w)"

definition be_word :: "bytes \<Rightarrow> 'a::len word" where
  "be_word bs = le_word (rev bs)"

lemma length_le_bytes [simp]: "length (le_bytes n w) = n"
  by (simp add: le_bytes_def)

lemma length_be_bytes [simp]: "length (be_bytes n w) = n"
  by (simp add: be_bytes_def)

lemma le_bytes_eq_Nil [simp]: "le_bytes n w = [] \<longleftrightarrow> n = 0" "be_bytes n w = [] \<longleftrightarrow> n = 0"
  by (simp_all flip: length_0_conv)

lemma be_bytes_2: "be_bytes 2 w = [ucast (drop_bit 8 w), ucast w]"
  by (simp add: be_bytes_def le_bytes_def numeral_2_eq_2)

lemma le_bytes_Suc: "le_bytes (Suc n) w = ucast w # le_bytes n (drop_bit 8 w)"
  unfolding le_bytes_def upt_conv_Cons [OF zero_less_Suc] map_Suc_upt [symmetric] list.map
  by (simp add: drop_bit_drop_bit add.commute)

lemma le_bytes_0 [simp]: "le_bytes 0 w = []"
  by (simp add: le_bytes_def)

lemma bit_le_word:
  "bit (le_word bs :: 'a::len word) k \<longleftrightarrow>
     k < LENGTH('a) \<and> k < 8 * length bs \<and> bit (bs ! (k div 8)) (k mod 8)"
proof (induction bs arbitrary: k)
  case Nil
  then show ?case by simp
next
  case (Cons b bs)
  show ?case
  proof (cases "k < 8")
    case True
    then show ?thesis by (auto simp: bit_simps)
  next
    case False
    have b: "\<not> bit b k" using False bit_imp_le_length [of b k] by auto
    have q: "k div 8 = Suc ((k - 8) div 8)" "k mod 8 = (k - 8) mod 8"
      using False by (simp_all add: le_div_geq le_mod_geq)
    have "bit (le_word (b # bs) :: 'a word) k \<longleftrightarrow> k < LENGTH('a) \<and> bit (le_word bs :: 'a word) (k - 8)"
      using False b by (auto simp: bit_simps)
    also have "\<dots> \<longleftrightarrow> k < LENGTH('a) \<and> k < 8 * length (b # bs) \<and> bit ((b # bs) ! (k div 8)) (k mod 8)"
      using False Cons.IH [of "k - 8"] q by auto
    finally show ?thesis .
  qed
qed

lemma nth_le_bytes: "i < n \<Longrightarrow> le_bytes n w ! i = ucast (drop_bit (8 * i) w)"
  by (simp add: le_bytes_def)

lemma le_word_le_bytes: "le_word (le_bytes n (w :: 'a::len word)) = take_bit (8 * n) w"
proof (rule bit_word_eqI)
  fix k assume k: "k < LENGTH('a)"
  have "8 * (k div 8) + k mod 8 = k" by simp
  moreover have "k < 8 * n \<Longrightarrow> k div 8 < n" by (simp add: less_mult_imp_div_less)
  ultimately show "bit (le_word (le_bytes n w) :: 'a word) k = bit (take_bit (8 * n) w) k"
    using k by (auto simp: bit_le_word nth_le_bytes bit_simps)
qed

lemma le_word_le_bytes_full [simp]:
  "LENGTH('a) = 8 * n \<Longrightarrow> le_word (le_bytes n (w :: 'a::len word)) = w"
  by (simp add: le_word_le_bytes take_bit_word_eq_self)

lemma le_bytes_le_word [simp]:
  assumes "length bs = n" and "8 * n \<le> LENGTH('a)"
  shows "le_bytes n (le_word bs :: 'a::len word) = bs"
proof (rule nth_equalityI)
  show "length (le_bytes n (le_word bs :: 'a word)) = length bs" using assms by simp
  fix i assume "i < length (le_bytes n (le_word bs :: 'a word))"
  then have i: "i < n" by simp
  show "le_bytes n (le_word bs :: 'a word) ! i = bs ! i"
  proof (rule bit_word_eqI)
    fix k assume "k < LENGTH(8)"
    then have k: "k < 8" by simp
    have "8 * i + k < 8 * n" using i k by linarith
    then show "bit (le_bytes n (le_word bs :: 'a word) ! i) k = bit (bs ! i) k"
      using assms i k by (auto simp: nth_le_bytes bit_le_word bit_simps)
  qed
qed

lemma be_word_be_bytes_full [simp]:
  "LENGTH('a) = 8 * n \<Longrightarrow> be_word (be_bytes n (w :: 'a::len word)) = w"
  by (simp add: be_word_def be_bytes_def)

lemma be_bytes_be_word [simp]:
  "length bs = n \<Longrightarrow> 8 * n \<le> LENGTH('a) \<Longrightarrow> be_bytes n (be_word bs :: 'a::len word) = bs"
  by (simp add: be_word_def be_bytes_def)

section \<open>Generic facts on lists and words\<close>

lemma foldl_append_step: "foldl f a (xs @ [x]) = f (foldl f a xs) x"
  by simp

lemma unat_lt_pow: "unat (w :: 'a::len word) < 2 ^ LENGTH('a)"
  by simp

lemma take_bit_unat_self: "n = LENGTH('a) \<Longrightarrow> take_bit n (unat (w :: 'a::len word)) = unat w"
  by (simp add: take_bit_nat_eq_self)

text \<open>Right shifts halve, and the masks the codecs use select a range of bits.\<close>

lemma unat_drop_bit: "unat (drop_bit n (w :: 'a::len word)) = unat w div 2 ^ n"
  by (simp only: unsigned_drop_bit_eq) (simp add: drop_bit_eq_div take_bit_unat_self)

lemma bit_0x80_u8: "bit (0x80 :: u8) n \<longleftrightarrow> n = 7"
proof -
  have "(0x80 :: u8) = push_bit 7 1" by simp
  then show ?thesis by (simp only: bit_simps) auto
qed

lemma mask_0x7F: "(0x7F :: 'a::len word) = mask 7"
  by (simp add: mask_eq_exp_minus_1)

lemma mask_0xFF: "(0xFF :: 'a::len word) = mask 8"
  by (simp add: mask_eq_exp_minus_1)

lemma unat_lt_bits: "unat (w :: 'a::len word) < 2 ^ n \<Longrightarrow> bit w k \<Longrightarrow> k < n"
  by (metis bit_take_bit_iff take_bit_nat_eq_self_iff unsigned_take_bit_eq unsigned_word_eqI)

lemma word_leD: "(a :: 'a::len word) \<le> b \<Longrightarrow> unat a \<le> unat b"
  by (simp add: word_le_nat_alt)

end
