(* ===== verification/Endian.thy ===== *)
theory Endian
  imports VT_Prelude
begin

text \<open>
  Model of \<^verbatim>\<open>include/vectortick/common/endian.hpp\<close>. Every conversion takes the host byte
  order as its first argument (\<open>True\<close> for little-endian, \<^verbatim>\<open>detail::is_little_endian\<close>), because the
  source copies the object representation of an integer and then swaps its bytes depending on the
  host. The theorems show that the byte order of the host cancels out. The locale
  \<open>byte_codec\<close> is the interface the wire formats use: a fixed-width encoding with its inverse.
\<close>

section \<open>Byte swapping\<close>

definition bswap16 :: "u16 \<Rightarrow> u16" where
  "bswap16 v = drop_bit 8 v OR push_bit 8 v"

definition bswap32 :: "u32 \<Rightarrow> u32" where
  "bswap32 v = (drop_bit 24 v AND 0x000000FF) OR (drop_bit 8 v AND 0x0000FF00)
     OR (push_bit 8 v AND 0x00FF0000) OR (push_bit 24 v AND 0xFF000000)"

definition bswap64 :: "u64 \<Rightarrow> u64" where
  "bswap64 v = (drop_bit 56 v AND 0x00000000000000FF) OR (drop_bit 40 v AND 0x000000000000FF00)
     OR (drop_bit 24 v AND 0x0000000000FF0000) OR (drop_bit 8 v AND 0x00000000FF000000)
     OR (push_bit 8 v AND 0x000000FF00000000) OR (push_bit 24 v AND 0x0000FF0000000000)
     OR (push_bit 40 v AND 0x00FF000000000000) OR (push_bit 56 v AND 0xFF00000000000000)"

text \<open>\<^verbatim>\<open>host_to_network\<close>; the signed overloads convert through the unsigned ones.\<close>

definition host_to_network_u16 :: "bool \<Rightarrow> u16 \<Rightarrow> u16" where
  "host_to_network_u16 le v = (if le then bswap16 v else v)"

definition host_to_network_u32 :: "bool \<Rightarrow> u32 \<Rightarrow> u32" where
  "host_to_network_u32 le v = (if le then bswap32 v else v)"

definition host_to_network_u64 :: "bool \<Rightarrow> u64 \<Rightarrow> u64" where
  "host_to_network_u64 le v = (if le then bswap64 v else v)"

section \<open>Unaligned reads and writes\<close>

text \<open>The object representation of an integer on the host, and back.\<close>

definition host_bytes :: "bool \<Rightarrow> nat \<Rightarrow> 'a::len word \<Rightarrow> bytes" where
  "host_bytes le n v = (if le then le_bytes n v else be_bytes n v)"

definition host_word :: "bool \<Rightarrow> bytes \<Rightarrow> 'a::len word" where
  "host_word le bs = (if le then le_word bs else be_word bs)"

definition read_be_u16 :: "bool \<Rightarrow> bytes \<Rightarrow> u16" where
  "read_be_u16 le p = host_to_network_u16 le (host_word le p)"

definition read_be_u32 :: "bool \<Rightarrow> bytes \<Rightarrow> u32" where
  "read_be_u32 le p = host_to_network_u32 le (host_word le p)"

definition read_be_u64 :: "bool \<Rightarrow> bytes \<Rightarrow> u64" where
  "read_be_u64 le p = host_to_network_u64 le (host_word le p)"

definition write_be_u16 :: "bool \<Rightarrow> u16 \<Rightarrow> bytes" where
  "write_be_u16 le v = host_bytes le 2 (host_to_network_u16 le v)"

definition write_be_u32 :: "bool \<Rightarrow> u32 \<Rightarrow> bytes" where
  "write_be_u32 le v = host_bytes le 4 (host_to_network_u32 le v)"

definition write_be_u64 :: "bool \<Rightarrow> u64 \<Rightarrow> bytes" where
  "write_be_u64 le v = host_bytes le 8 (host_to_network_u64 le v)"

definition read_le_u16 :: "bool \<Rightarrow> bytes \<Rightarrow> u16" where
  "read_le_u16 le p = (if le then host_word le p else bswap16 (host_word le p))"

definition read_le_u32 :: "bool \<Rightarrow> bytes \<Rightarrow> u32" where
  "read_le_u32 le p = (if le then host_word le p else bswap32 (host_word le p))"

definition read_le_u64 :: "bool \<Rightarrow> bytes \<Rightarrow> u64" where
  "read_le_u64 le p = (if le then host_word le p else bswap64 (host_word le p))"

definition write_le_u16 :: "bool \<Rightarrow> u16 \<Rightarrow> bytes" where
  "write_le_u16 le v = host_bytes le 2 (if le then v else bswap16 v)"

definition write_le_u32 :: "bool \<Rightarrow> u32 \<Rightarrow> bytes" where
  "write_le_u32 le v = host_bytes le 4 (if le then v else bswap32 v)"

definition write_le_u64 :: "bool \<Rightarrow> u64 \<Rightarrow> bytes" where
  "write_le_u64 le v = host_bytes le 8 (if le then v else bswap64 v)"

section \<open>Swapping is reversal of the byte sequence\<close>

lemma bit_be_word:
  "bit (be_word bs :: 'a::len word) k \<longleftrightarrow>
     k < LENGTH('a) \<and> k < 8 * length bs \<and> bit (bs ! (length bs - Suc (k div 8))) (k mod 8)"
proof -
  have "k < 8 * length bs \<Longrightarrow> k div 8 < length bs" by (simp add: less_mult_imp_div_less)
  then show ?thesis by (auto simp: be_word_def bit_le_word rev_nth)
qed

text \<open>A byte mask selects one group of eight bits.\<close>

lemma byte_masks:
  "(0x000000FF :: 'a::len word) = push_bit 0 (mask 8)"
  "(0x0000FF00 :: 'a::len word) = push_bit 8 (mask 8)"
  "(0x00FF0000 :: 'a::len word) = push_bit 16 (mask 8)"
  "(0xFF000000 :: 'a::len word) = push_bit 24 (mask 8)"
  "(0x000000FF00000000 :: 'a::len word) = push_bit 32 (mask 8)"
  "(0x0000FF0000000000 :: 'a::len word) = push_bit 40 (mask 8)"
  "(0x00FF000000000000 :: 'a::len word) = push_bit 48 (mask 8)"
  "(0xFF00000000000000 :: 'a::len word) = push_bit 56 (mask 8)"
  by (simp_all add: mask_eq_exp_minus_1 push_bit_eq_mult)

lemma byte_index_cases:
  fixes k :: nat
  assumes "k < 8 * n"
  obtains q r where "k = 8 * q + r" "r < 8" "q < n"
  using assms by (metis less_mult_imp_div_less mod_less_divisor mult.commute mult_div_mod_eq zero_less_numeral)

lemma byte_number_cases: "(q::nat) < 8 \<Longrightarrow> q = 0 \<or> q = 1 \<or> q = 2 \<or> q = 3 \<or> q = 4 \<or> q = 5 \<or> q = 6 \<or> q = 7"
  by arith

lemma byte_offset_mod:
  "(16 + r) mod 8 = r mod (8::nat)" "(24 + r) mod 8 = r mod (8::nat)" "(32 + r) mod 8 = r mod (8::nat)"
  "(40 + r) mod 8 = r mod (8::nat)" "(48 + r) mod 8 = r mod (8::nat)" "(56 + r) mod 8 = r mod (8::nat)"
  using mod_mult_self4 [of 8 2 r] mod_mult_self4 [of 8 3 r] mod_mult_self4 [of 8 4 r]
    mod_mult_self4 [of 8 5 r] mod_mult_self4 [of 8 6 r] mod_mult_self4 [of 8 7 r]
  by simp_all

lemma byte_offset_div:
  assumes "r < (8::nat)"
  shows "(8 + r) div 8 = 1" "(16 + r) div 8 = 2" "(24 + r) div 8 = 3" "(32 + r) div 8 = 4"
    "(40 + r) div 8 = 5" "(48 + r) div 8 = 6" "(56 + r) div 8 = 7"
  using assms div_mult_self4 [of 8 1 r] div_mult_self4 [of 8 2 r] div_mult_self4 [of 8 3 r] div_mult_self4 [of 8 4 r]
    div_mult_self4 [of 8 5 r] div_mult_self4 [of 8 6 r] div_mult_self4 [of 8 7 r]
  by simp_all

lemmas byte_bit_simps = bit_simps bit_le_word bit_be_word byte_offset_mod byte_offset_div

lemma bswap16_le_word: "length bs = 2 \<Longrightarrow> bswap16 (le_word bs) = be_word bs"
proof (rule bit_word_eqI)
  fix k assume bs: "length bs = 2" and "k < LENGTH(16)"
  then have "k < 8 * 2" by simp
  then obtain q r where k: "k = 8 * q + r" "r < 8" "q < 2" by (rule byte_index_cases)
  then have "q = 0 \<or> q = 1" by arith
  then show "bit (bswap16 (le_word bs)) k = bit (be_word bs :: u16) k"
    unfolding bswap16_def using k bs
    by (elim disjE) (simp_all add: byte_bit_simps)
qed

lemma bswap32_le_word: "length bs = 4 \<Longrightarrow> bswap32 (le_word bs) = be_word bs"
proof (rule bit_word_eqI)
  fix k assume bs: "length bs = 4" and "k < LENGTH(32)"
  then have "k < 8 * 4" by simp
  then obtain q r where k: "k = 8 * q + r" "r < 8" "q < 4" by (rule byte_index_cases)
  then have "q = 0 \<or> q = 1 \<or> q = 2 \<or> q = 3" by arith
  then show "bit (bswap32 (le_word bs)) k = bit (be_word bs :: u32) k"
    unfolding bswap32_def byte_masks using k bs
    by (elim disjE) (simp_all add: byte_bit_simps)
qed

lemma bswap64_le_word: "length bs = 8 \<Longrightarrow> bswap64 (le_word bs) = be_word bs"
proof (rule bit_word_eqI)
  fix k assume bs: "length bs = 8" and "k < LENGTH(64)"
  then have "k < 8 * 8" by simp
  then obtain q r where k: "k = 8 * q + r" "r < 8" "q < 8" by (rule byte_index_cases)
  from k(3) have "q = 0 \<or> q = 1 \<or> q = 2 \<or> q = 3 \<or> q = 4 \<or> q = 5 \<or> q = 6 \<or> q = 7"
    by (rule byte_number_cases)
  then show "bit (bswap64 (le_word bs)) k = bit (be_word bs :: u64) k"
    unfolding bswap64_def byte_masks using k bs
    by (elim disjE) (simp_all add: byte_bit_simps)
qed

lemma bswap_be_word:
  "length bs = 2 \<Longrightarrow> bswap16 (be_word bs) = le_word bs"
  "length bs = 4 \<Longrightarrow> bswap32 (be_word bs) = le_word bs"
  "length bs = 8 \<Longrightarrow> bswap64 (be_word bs) = le_word bs"
  using bswap16_le_word [of "rev bs"] bswap32_le_word [of "rev bs"] bswap64_le_word [of "rev bs"]
  by (simp_all add: be_word_def)

lemma le_bytes_bswap:
  "le_bytes 2 (bswap16 v) = be_bytes 2 v"
  "le_bytes 4 (bswap32 w) = be_bytes 4 w"
  "le_bytes 8 (bswap64 x) = be_bytes 8 x"
  using bswap_be_word(1) [of "be_bytes 2 v"] bswap_be_word(2) [of "be_bytes 4 w"]
    bswap_be_word(3) [of "be_bytes 8 x"]
  by (simp_all del: le_word_le_bytes_full)

lemma be_bytes_bswap:
  "be_bytes 2 (bswap16 v) = le_bytes 2 v"
  "be_bytes 4 (bswap32 w) = le_bytes 4 w"
  "be_bytes 8 (bswap64 x) = le_bytes 8 x"
  by (simp_all add: be_bytes_def le_bytes_bswap)

section \<open>The host byte order cancels out\<close>

lemma read_be_eq [simp]:
  "length p = 2 \<Longrightarrow> read_be_u16 le p = be_word p"
  "length q = 4 \<Longrightarrow> read_be_u32 le q = be_word q"
  "length r = 8 \<Longrightarrow> read_be_u64 le r = be_word r"
  by (simp_all add: read_be_u16_def read_be_u32_def read_be_u64_def host_word_def
      host_to_network_u16_def host_to_network_u32_def host_to_network_u64_def
      bswap16_le_word bswap32_le_word bswap64_le_word)

lemma read_le_eq [simp]:
  "length p = 2 \<Longrightarrow> read_le_u16 le p = le_word p"
  "length q = 4 \<Longrightarrow> read_le_u32 le q = le_word q"
  "length r = 8 \<Longrightarrow> read_le_u64 le r = le_word r"
  by (simp_all add: read_le_u16_def read_le_u32_def read_le_u64_def host_word_def bswap_be_word)

lemma write_be_eq [simp]:
  "write_be_u16 le v = be_bytes 2 v"
  "write_be_u32 le w = be_bytes 4 w"
  "write_be_u64 le x = be_bytes 8 x"
  by (simp_all add: write_be_u16_def write_be_u32_def write_be_u64_def host_bytes_def
      host_to_network_u16_def host_to_network_u32_def host_to_network_u64_def le_bytes_bswap)

lemma write_le_eq [simp]:
  "write_le_u16 le v = le_bytes 2 v"
  "write_le_u32 le w = le_bytes 4 w"
  "write_le_u64 le x = le_bytes 8 x"
  by (simp_all add: write_le_u16_def write_le_u32_def write_le_u64_def host_bytes_def be_bytes_bswap)

section \<open>Fixed-width byte codecs\<close>

text \<open>
  The interface of a fixed-width field: \<open>enc\<close> produces \<open>width\<close> bytes and \<open>dec\<close> inverts it. Its
  clients are the frame header, the message payloads, the segment structures and the raw columns.
\<close>

locale byte_codec =
  fixes width :: nat and enc :: "'a \<Rightarrow> bytes" and dec :: "bytes \<Rightarrow> 'a"
  assumes length_enc: "length (enc v) = width"
    and dec_enc: "dec (enc v) = v"
begin

lemma enc_inject: "enc v = enc w \<longleftrightarrow> v = w"
  by (metis dec_enc)

lemma dec_get_put_same:
  "off \<le> length buf \<Longrightarrow> dec (get_bytes off width (put_bytes off (enc v) buf)) = v"
  by (simp add: get_put_same length_enc dec_enc)

lemma length_concat_enc: "length (concat (map enc vs)) = width * length vs"
  by (induction vs) (simp_all add: length_enc)

text \<open>An array of fields is laid out without gaps, so its element \<open>i\<close> is found at \<open>width * i\<close>.\<close>

lemma dec_nth_concat:
  "i < length vs \<Longrightarrow> dec (get_bytes (width * i) width (concat (map enc vs) @ rest)) = vs ! i"
proof (induction vs arbitrary: i)
  case Nil
  then show ?case by simp
next
  case (Cons v vs)
  show ?case
  proof (cases i)
    case 0
    then show ?thesis by (simp add: get_bytes_def length_enc dec_enc)
  next
    case (Suc j)
    then show ?thesis
      using Cons by (simp add: get_bytes_def length_enc)
  qed
qed

end

interpretation be16: byte_codec 2 "write_be_u16 le" "read_be_u16 le"
  by unfold_locales simp_all

interpretation be32: byte_codec 4 "write_be_u32 le" "read_be_u32 le"
  by unfold_locales simp_all

interpretation be64: byte_codec 8 "write_be_u64 le" "read_be_u64 le"
  by unfold_locales simp_all

interpretation le16: byte_codec 2 "write_le_u16 le" "read_le_u16 le"
  by unfold_locales simp_all

interpretation le32: byte_codec 4 "write_le_u32 le" "read_le_u32 le"
  by unfold_locales simp_all

interpretation le64: byte_codec 8 "write_le_u64 le" "read_le_u64 le"
  by unfold_locales simp_all

section \<open>Properties\<close>

text \<open>
  Host independence of the wire format: on a host of either byte order, reading a 64-bit field
  yields the big-endian value of the eight bytes, writing produces exactly those bytes, and a value
  written on one host is read back unchanged on a host of the other byte order.
\<close>

theorem read_be_u64_host_independent:
  assumes "length p = 8"
  shows "read_be_u64 h p = be_word p \<and> write_be_u64 h (be_word p) = p
    \<and> read_be_u64 h (write_be_u64 h' v) = v"
  using assms by simp

theorem read_be_u64_host_independent_witness:
  "read_be_u64 True [0, 0, 0, 0, 0, 0, 1, 2] = 258
    \<and> write_be_u64 False 258 = [0, 0, 0, 0, 0, 0, 1, 2]"
proof -
  let ?p = "[0, 0, 0, 0, 0, 0, 1, 2] :: bytes"
  have "(be_word ?p :: u64) = 258" by (simp add: be_word_def)
  then show ?thesis
    using read_be_u64_host_independent [of ?p True] read_be_u64_host_independent [of ?p False] by simp
qed

end
