(* ===== verification/Checked_Math.thy ===== *)
theory Checked_Math
  imports VT_Prelude "HOL-Library.Signed_Division"
begin

text \<open>
  Model of \<^verbatim>\<open>include/vectortick/common/checked_math.hpp\<close>. The templates are instantiated at
  signed and unsigned integral types; the \<^verbatim>\<open>if constexpr\<close> branches become two definitions, over a
  word of any width. \<open>smin_of\<close> and \<open>smax_of\<close> are the signed \<^verbatim>\<open>numeric_limits\<close>; C++ division
  truncates, so it is \<open>sdiv\<close> on integers.
\<close>

section \<open>Numeric limits\<close>

definition smax_of :: "'a::len itself \<Rightarrow> int" where
  "smax_of _ = 2 ^ (LENGTH('a) - 1) - 1"

definition smin_of :: "'a::len itself \<Rightarrow> int" where
  "smin_of _ = - (2 ^ (LENGTH('a) - 1))"

abbreviation umax :: "'a::len word" where
  "umax \<equiv> - 1"

section \<open>Checked operations\<close>

definition checked_add_u :: "'a::len word \<Rightarrow> 'a word \<Rightarrow> 'a word option" where
  "checked_add_u a b = (if umax - b < a then None else Some (a + b))"

definition checked_add_s :: "'a::len word \<Rightarrow> 'a word \<Rightarrow> 'a word option" where
  "checked_add_s a b =
     (if 0 < sint b \<and> smax_of TYPE('a) - sint b < sint a then None
      else if sint b < 0 \<and> sint a < smin_of TYPE('a) - sint b then None
      else Some (a + b))"

definition checked_sub_u :: "'a::len word \<Rightarrow> 'a word \<Rightarrow> 'a word option" where
  "checked_sub_u a b = (if a < b then None else Some (a - b))"

definition checked_sub_s :: "'a::len word \<Rightarrow> 'a word \<Rightarrow> 'a word option" where
  "checked_sub_s a b =
     (if 0 < sint b \<and> sint a < smin_of TYPE('a) + sint b then None
      else if sint b < 0 \<and> smax_of TYPE('a) + sint b < sint a then None
      else Some (a - b))"

definition checked_mul_u :: "'a::len word \<Rightarrow> 'a word \<Rightarrow> 'a word option" where
  "checked_mul_u a b =
     (if a = 0 \<or> b = 0 then Some 0
      else if umax div b < a then None
      else Some (a * b))"

definition checked_mul_s :: "'a::len word \<Rightarrow> 'a word \<Rightarrow> 'a word option" where
  "checked_mul_s a b =
     (let x = sint a; y = sint b; mx = smax_of TYPE('a); mn = smin_of TYPE('a) in
      if a = 0 \<or> b = 0 then Some 0
      else if 0 < x then
        (if 0 < y then (if mx sdiv y < x then None else Some (a * b))
         else (if y < mn sdiv x then None else Some (a * b)))
      else
        (if 0 < y then (if x < mn sdiv y then None else Some (a * b))
         else (if y < mx sdiv x then None else Some (a * b))))"

definition checked_div_u :: "'a::len word \<Rightarrow> 'a word \<Rightarrow> 'a word option" where
  "checked_div_u a b = (if b = 0 then None else Some (a div b))"

definition checked_div_s :: "'a::len word \<Rightarrow> 'a word \<Rightarrow> 'a word option" where
  "checked_div_s a b =
     (if b = 0 then None
      else if sint a = smin_of TYPE('a) \<and> sint b = - 1 then None
      else Some (word_of_int (sint a sdiv sint b)))"

text \<open>
  \<^verbatim>\<open>checked_narrow<Dest>(Src)\<close>, one definition per combination of signedness. The limits of the
  destination are cast to the source type first, as the code does.
\<close>

definition checked_narrow_uu :: "'s::len word \<Rightarrow> 'd::len word option" where
  "checked_narrow_uu v = (if v < 0 \<or> ucast (umax :: 'd word) < v then None else Some (ucast v))"

definition checked_narrow_ss :: "'s::len word \<Rightarrow> 'd::len word option" where
  "checked_narrow_ss v =
     (if sint v < sint (word_of_int (smin_of TYPE('d)) :: 's word)
       \<or> sint (word_of_int (smax_of TYPE('d)) :: 's word) < sint v
      then None else Some (word_of_int (sint v)))"

definition checked_narrow_su :: "'s::len word \<Rightarrow> 'd::len word option" where
  "checked_narrow_su v =
     (if sint v < 0 then None
      else if uint (umax :: 'd word) < uint (word_of_int (sint v) :: u64) then None
      else Some (word_of_int (sint v)))"

definition checked_narrow_us :: "'s::len word \<Rightarrow> 'd::len word option" where
  "checked_narrow_us v =
     (if uint (word_of_int (smax_of TYPE('d)) :: u64) < uint v then None else Some (ucast v))"

definition checked_abs :: "'a::len word \<Rightarrow> 'a word option" where
  "checked_abs v = (if sint v = smin_of TYPE('a) then None else Some (if sint v < 0 then - v else v))"

definition checked_neg :: "'a::len word \<Rightarrow> 'a word option" where
  "checked_neg v = (if sint v = smin_of TYPE('a) then None else Some (- v))"

section \<open>Saturating operations\<close>

definition saturating_add_u :: "'a::len word \<Rightarrow> 'a word \<Rightarrow> 'a word" where
  "saturating_add_u a b = (case checked_add_u a b of Some r \<Rightarrow> r | None \<Rightarrow> umax)"

definition saturating_add_s :: "'a::len word \<Rightarrow> 'a word \<Rightarrow> 'a word" where
  "saturating_add_s a b = (case checked_add_s a b of Some r \<Rightarrow> r
     | None \<Rightarrow> word_of_int (if sint b < 0 then smin_of TYPE('a) else smax_of TYPE('a)))"

definition saturating_sub_u :: "'a::len word \<Rightarrow> 'a word \<Rightarrow> 'a word" where
  "saturating_sub_u a b = (case checked_sub_u a b of Some r \<Rightarrow> r | None \<Rightarrow> umax)"

definition saturating_sub_s :: "'a::len word \<Rightarrow> 'a word \<Rightarrow> 'a word" where
  "saturating_sub_s a b = (case checked_sub_s a b of Some r \<Rightarrow> r
     | None \<Rightarrow> word_of_int (if 0 < sint b then smin_of TYPE('a) else smax_of TYPE('a)))"

definition saturating_mul_u :: "'a::len word \<Rightarrow> 'a word \<Rightarrow> 'a word" where
  "saturating_mul_u a b = (case checked_mul_u a b of Some r \<Rightarrow> r | None \<Rightarrow> umax)"

definition saturating_mul_s :: "'a::len word \<Rightarrow> 'a word \<Rightarrow> 'a word" where
  "saturating_mul_s a b = (case checked_mul_s a b of Some r \<Rightarrow> r
     | None \<Rightarrow> word_of_int (if (sint a < 0) \<noteq> (sint b < 0) then smin_of TYPE('a) else smax_of TYPE('a)))"

section \<open>Alignment\<close>

definition align_up :: "u64 \<Rightarrow> u64 \<Rightarrow> u64" where
  "align_up v alignment = (let m = alignment - 1 in (v + m) AND NOT m)"

definition is_aligned :: "u64 \<Rightarrow> u64 \<Rightarrow> bool" where
  "is_aligned v alignment \<longleftrightarrow> v AND (alignment - 1) = 0"

section \<open>Range facts\<close>

lemma sint_bounds: "smin_of TYPE('a) \<le> sint (w :: 'a::len word)" "sint (w :: 'a::len word) \<le> smax_of TYPE('a)"
  using sint_greater_eq [of w] sint_less [of w] by (simp_all add: smin_of_def smax_of_def)

lemma sint_word_of_int_in_range:
  assumes "smin_of TYPE('a) \<le> x" "x \<le> smax_of TYPE('a)"
  shows "sint (word_of_int x :: 'a::len word) = x"
  using assms by (simp add: sint_sbintrunc' smin_of_def smax_of_def signed_take_bit_int_eq_self)

lemma word_of_int_sint_ring:
  "a + b = word_of_int (sint a + sint (b :: 'a::len word))"
  "a - b = word_of_int (sint a - sint (b :: 'a::len word))"
  "a * b = word_of_int (sint a * sint (b :: 'a::len word))"
  "- a = word_of_int (- sint (a :: 'a::len word))"
  by (simp_all add: wi_hom_syms)

text \<open>
  The shape of every signed check: the guard decides whether the exact result is representable.
\<close>

lemma guarded_sint:
  assumes "ok \<longleftrightarrow> smin_of TYPE('a) \<le> x \<and> x \<le> smax_of TYPE('a)"
  shows "(if ok then Some (word_of_int x :: 'a::len word) else None) = Some r \<longleftrightarrow> sint r = x"
proof
  assume "(if ok then Some (word_of_int x :: 'a word) else None) = Some r"
  then show "sint r = x" using assms by (auto simp: sint_word_of_int_in_range split: if_splits)
next
  assume "sint r = x"
  then show "(if ok then Some (word_of_int x :: 'a word) else None) = Some r"
    using assms sint_bounds [of r] by auto
qed

lemma guarded_unat:
  assumes "ok \<longleftrightarrow> x < 2 ^ LENGTH('a)"
  shows "(if ok then Some (of_nat x :: 'a::len word) else None) = Some r \<longleftrightarrow> unat r = x"
proof
  assume "(if ok then Some (of_nat x :: 'a word) else None) = Some r"
  then show "unat r = x" using assms by (auto simp: unat_of_nat split: if_splits)
next
  assume "unat r = x"
  then show "(if ok then Some (of_nat x :: 'a word) else None) = Some r"
    using assms unsigned_less [of r] by auto
qed

lemma pos_div_less_iff:
  fixes x y m :: int
  assumes "0 < y"
  shows "m div y < x \<longleftrightarrow> m < x * y"
proof -
  have "x \<le> m div y \<longleftrightarrow> x * y \<le> m"
  proof
    assume "x \<le> m div y"
    then have "x * y \<le> (m div y) * y" using assms by simp
    also have "\<dots> \<le> m" using assms by (simp add: minus_mod_eq_div_mult [symmetric])
    finally show "x * y \<le> m" .
  next
    assume "x * y \<le> m"
    then have "x * y div y \<le> m div y" using assms by (rule zdiv_mono1)
    then show "x \<le> m div y" using assms by simp
  qed
  then show ?thesis by linarith
qed

lemma checked_mul_guards:
  fixes x y m :: int
  assumes "0 < m"
  shows "0 < x \<Longrightarrow> 0 < y \<Longrightarrow> m sdiv y < x \<longleftrightarrow> m < x * y"
    and "0 < x \<Longrightarrow> y < 0 \<Longrightarrow> y < (- m) sdiv x \<longleftrightarrow> x * y < - m"
    and "x < 0 \<Longrightarrow> 0 < y \<Longrightarrow> x < (- m) sdiv y \<longleftrightarrow> x * y < - m"
    and "x < 0 \<Longrightarrow> y < 0 \<Longrightarrow> y < m sdiv x \<longleftrightarrow> m < x * y"
  using assms pos_div_less_iff [of y m x] pos_div_less_iff [of x m "- y"]
    pos_div_less_iff [of y m "- x"] pos_div_less_iff [of "- x" m "- y"]
  by (auto simp: signed_divide_int_def sgn_if algebra_simps)

section \<open>The checked operations are exact\<close>

lemma checked_add_u_eq: "checked_add_u a b = Some r \<longleftrightarrow> unat r = unat a + unat (b :: 'a::len word)"
proof -
  have "\<not> (umax - b < a) \<longleftrightarrow> unat a + unat b < 2 ^ LENGTH('a)"
  proof -
    have "unat (umax - b) = 2 ^ LENGTH('a) - 1 - unat b"
      by (simp add: unat_sub unsigned_minus_1_eq_mask mask_eq_exp_minus_1)
    moreover have "unat b < 2 ^ LENGTH('a)" by simp
    ultimately show ?thesis unfolding word_less_nat_alt by linarith
  qed
  then show ?thesis
    using guarded_unat [where 'a='a, of "\<not> (umax - b < a)" "unat a + unat b" r]
    by (auto simp: checked_add_u_def split: if_splits)
qed

lemma checked_sub_u_eq: "checked_sub_u a b = Some r \<longleftrightarrow> b \<le> a \<and> unat r = unat a - unat (b :: 'a::len word)"
  by (auto simp: checked_sub_u_def word_le_nat_alt word_less_nat_alt unat_sub_if' split: if_splits
      intro: word_unat_eq_iff [THEN iffD2])

lemma checked_add_s_eq: "checked_add_s a b = Some r \<longleftrightarrow> sint r = sint a + sint (b :: 'a::len word)"
proof -
  define ok where "ok \<longleftrightarrow> \<not> (0 < sint b \<and> smax_of TYPE('a) - sint b < sint a)
    \<and> \<not> (sint b < 0 \<and> sint a < smin_of TYPE('a) - sint b)"
  have "ok \<longleftrightarrow> smin_of TYPE('a) \<le> sint a + sint b \<and> sint a + sint b \<le> smax_of TYPE('a)"
    using sint_bounds [of a] sint_bounds [of b] unfolding ok_def by linarith
  moreover have "checked_add_s a b = (if ok then Some (word_of_int (sint a + sint b)) else None)"
    unfolding word_of_int_sint_ring [symmetric] by (auto simp: checked_add_s_def ok_def)
  ultimately show ?thesis using guarded_sint [of ok "sint a + sint b" r] by simp
qed

lemma checked_sub_s_eq: "checked_sub_s a b = Some r \<longleftrightarrow> sint r = sint a - sint (b :: 'a::len word)"
proof -
  define ok where "ok \<longleftrightarrow> \<not> (0 < sint b \<and> sint a < smin_of TYPE('a) + sint b)
    \<and> \<not> (sint b < 0 \<and> smax_of TYPE('a) + sint b < sint a)"
  have "ok \<longleftrightarrow> smin_of TYPE('a) \<le> sint a - sint b \<and> sint a - sint b \<le> smax_of TYPE('a)"
    using sint_bounds [of a] sint_bounds [of b] unfolding ok_def by linarith
  moreover have "checked_sub_s a b = (if ok then Some (word_of_int (sint a - sint b)) else None)"
    unfolding word_of_int_sint_ring [symmetric] by (auto simp: checked_sub_s_def ok_def)
  ultimately show ?thesis using guarded_sint [of ok "sint a - sint b" r] by simp
qed

lemma sint_eq_0_iff [simp]: "sint (w :: 'a::len word) = 0 \<longleftrightarrow> w = 0"
  by (fact signed_eq_0_iff)

text \<open>The multiplication guard of the source, as a single condition.\<close>

definition mul_guard :: "int \<Rightarrow> int \<Rightarrow> int \<Rightarrow> int \<Rightarrow> bool" where
  "mul_guard mx mn x y \<longleftrightarrow>
     (if 0 < x then (if 0 < y then \<not> mx sdiv y < x else \<not> y < mn sdiv x)
      else (if 0 < y then \<not> x < mn sdiv y else \<not> y < mx sdiv x))"

lemma mul_guard_iff:
  assumes "0 < mx" "mn = - mx - 1" "x \<noteq> 0" "y \<noteq> 0"
  shows "mul_guard mx mn x y \<longleftrightarrow> mn \<le> x * y \<and> x * y \<le> mx"
proof -
  have m: "0 < - mn" "0 < mx" using assms by linarith+
  consider "0 < x" "0 < y" | "0 < x" "y < 0" | "x < 0" "0 < y" | "x < 0" "y < 0"
    using assms by linarith
  then show ?thesis
  proof cases
    case 1
    have "mul_guard mx mn x y \<longleftrightarrow> \<not> mx < x * y"
      using 1 by (simp add: mul_guard_def checked_mul_guards(1) [OF m(2)])
    moreover have "0 < x * y" using 1 by simp
    ultimately show ?thesis using m by linarith
  next
    case 2
    have "mul_guard mx mn x y \<longleftrightarrow> \<not> x * y < mn"
      using 2 checked_mul_guards(2) [OF m(1), of x y] by (simp add: mul_guard_def)
    moreover have "x * y < 0" using 2 by (simp add: mult_pos_neg)
    ultimately show ?thesis using m by linarith
  next
    case 3
    have "mul_guard mx mn x y \<longleftrightarrow> \<not> x * y < mn"
      using 3 checked_mul_guards(3) [OF m(1), of x y] by (simp add: mul_guard_def)
    moreover have "x * y < 0" using 3 by (simp add: mult_neg_pos)
    ultimately show ?thesis using m by linarith
  next
    case 4
    have "mul_guard mx mn x y \<longleftrightarrow> \<not> mx < x * y"
      using 4 checked_mul_guards(4) [OF m(2), of x y] by (simp add: mul_guard_def)
    moreover have "0 < x * y" using 4 by (simp add: mult_neg_neg)
    ultimately show ?thesis using m by linarith
  qed
qed

text \<open>The limits of a one-bit signed type are degenerate; every integral type has at least eight bits.\<close>

lemma checked_mul_s_eq:
  assumes "1 < LENGTH('a)"
  shows "checked_mul_s a b = Some r \<longleftrightarrow> sint r = sint a * sint (b :: 'a::len word)"
proof (cases "a = 0 \<or> b = 0")
  case True
  then show ?thesis by (auto simp: checked_mul_s_def Let_def)
next
  case False
  have "(1::int) < 2 ^ (LENGTH('a) - 1)" using assms by (simp add: one_less_power)
  then have lim: "0 < smax_of TYPE('a)" "smin_of TYPE('a) = - smax_of TYPE('a) - 1"
    by (simp_all add: smax_of_def smin_of_def)
  have "mul_guard (smax_of TYPE('a)) (smin_of TYPE('a)) (sint a) (sint b) \<longleftrightarrow>
      smin_of TYPE('a) \<le> sint a * sint b \<and> sint a * sint b \<le> smax_of TYPE('a)"
    using False by (intro mul_guard_iff [OF lim]) simp_all
  from guarded_sint [OF this, of r]
  have "(if mul_guard (smax_of TYPE('a)) (smin_of TYPE('a)) (sint a) (sint b)
        then Some (a * b) else None) = Some r \<longleftrightarrow> sint r = sint a * sint b"
    by (simp only: word_of_int_sint_ring(3) [symmetric])
  moreover have "checked_mul_s a b = (if mul_guard (smax_of TYPE('a)) (smin_of TYPE('a)) (sint a) (sint b)
      then Some (a * b) else None)"
    using False by (simp add: checked_mul_s_def mul_guard_def Let_def)
  ultimately show ?thesis by simp
qed

lemma checked_mul_u_eq: "checked_mul_u a b = Some r \<longleftrightarrow> unat r = unat a * unat (b :: 'a::len word)"
proof (cases "a = 0 \<or> b = 0")
  case True
  then show ?thesis by (auto simp: checked_mul_u_def unsigned_eq_0_iff)
next
  case False
  then have b: "0 < unat b" by (simp add: unat_gt_0)
  have "unat (umax div b) = (2 ^ LENGTH('a) - 1) div unat b"
    by (simp add: unat_div unsigned_minus_1_eq_mask mask_eq_exp_minus_1)
  then have "\<not> (umax div b < a) \<longleftrightarrow> unat a * unat b < 2 ^ LENGTH('a)"
    unfolding word_less_nat_alt not_less using b
    by (simp add: less_eq_div_iff_mult_less_eq Suc_le_eq [symmetric] le_diff_conv2 add.commute)
  then show ?thesis
    using guarded_unat [where 'a='a, of "\<not> (umax div b < a)" "unat a * unat b" r] False
    by (auto simp: checked_mul_u_def split: if_splits)
qed

text \<open>When a checked operation refuses, the exact result lies outside the range of the type.\<close>

lemma checked_None_range:
  assumes "\<And>r :: 'a::len word. f = Some r \<longleftrightarrow> sint r = x" and "f = None"
  shows "x < smin_of TYPE('a) \<or> smax_of TYPE('a) < x"
  using assms sint_word_of_int_in_range [where 'a='a, of x] by force

lemma limits_in_range:
  "sint (word_of_int (smin_of TYPE('a)) :: 'a::len word) = smin_of TYPE('a)"
  "sint (word_of_int (smax_of TYPE('a)) :: 'a::len word) = smax_of TYPE('a)"
  by (rule sint_word_of_int_in_range; simp add: smin_of_def smax_of_def)+

lemma saturating_add_s_clamps:
  "sint (saturating_add_s a b) = max (smin_of TYPE('a)) (min (smax_of TYPE('a)) (sint a + sint (b :: 'a::len word)))"
proof (cases "checked_add_s a b")
  case None
  then have "sint a + sint b < smin_of TYPE('a) \<or> smax_of TYPE('a) < sint a + sint b"
    by (rule checked_None_range [OF checked_add_s_eq])
  then show ?thesis
    using None sint_bounds [of a] sint_bounds [of b] limits_in_range [where 'a='a]
    by (auto simp: saturating_add_s_def)
next
  case (Some r)
  then have "sint r = sint a + sint b" by (simp add: checked_add_s_eq)
  then show ?thesis using Some sint_bounds [of r] by (simp add: saturating_add_s_def)
qed

lemma unsigned_clamps:
  fixes f :: "'a::len word option"
  assumes "\<And>r. f = Some r \<longleftrightarrow> unat r = x"
  shows "unat (case f of Some r \<Rightarrow> r | None \<Rightarrow> umax) = min (2 ^ LENGTH('a) - 1) x"
proof (cases f)
  case None
  have "\<not> x < 2 ^ LENGTH('a)"
    using assms [of "of_nat x"] None by (auto simp: unat_of_nat)
  then show ?thesis
    using None by (simp add: unsigned_minus_1_eq_mask mask_eq_exp_minus_1)
next
  case (Some r)
  then have "x = unat r" using assms by simp
  moreover have "unat r \<le> 2 ^ LENGTH('a) - 1" using unsigned_less [of r, where 'a = nat] by linarith
  ultimately show ?thesis using Some by (simp add: min_absorb2)
qed

lemma saturating_mul_s_clamps:
  assumes "1 < LENGTH('a)"
  shows "sint (saturating_mul_s a b) = max (smin_of TYPE('a)) (min (smax_of TYPE('a)) (sint a * sint (b :: 'a::len word)))"
proof (cases "checked_mul_s a b")
  case None
  then have out: "sint a * sint b < smin_of TYPE('a) \<or> smax_of TYPE('a) < sint a * sint b"
    by (rule checked_None_range [OF checked_mul_s_eq [OF assms]])
  have r: "smin_of TYPE('a) \<le> 0" "0 \<le> smax_of TYPE('a)" by (simp_all add: smin_of_def smax_of_def)
  show ?thesis
  proof (cases "(sint a < 0) \<noteq> (sint b < 0)")
    case True
    then have "sint a * sint b \<le> 0" by (auto simp: mult_le_0_iff)
    then show ?thesis using True None out r limits_in_range [where 'a='a] by (simp add: saturating_mul_s_def)
  next
    case False
    then have "0 \<le> sint a * sint b" by (auto simp: zero_le_mult_iff)
    then show ?thesis using False None out r limits_in_range [where 'a='a] by (simp add: saturating_mul_s_def)
  qed
next
  case (Some r)
  then have "sint r = sint a * sint b" by (simp add: checked_mul_s_eq [OF assms])
  then show ?thesis using Some sint_bounds [of r] by (simp add: saturating_mul_s_def)
qed

lemma saturating_sub_s_clamps:
  "sint (saturating_sub_s a b) = max (smin_of TYPE('a)) (min (smax_of TYPE('a)) (sint a - sint (b :: 'a::len word)))"
proof (cases "checked_sub_s a b")
  case None
  then have "sint a - sint b < smin_of TYPE('a) \<or> smax_of TYPE('a) < sint a - sint b"
    by (rule checked_None_range [OF checked_sub_s_eq])
  then show ?thesis
    using None sint_bounds [of a] sint_bounds [of b] limits_in_range [where 'a='a]
    by (auto simp: saturating_sub_s_def)
next
  case (Some r)
  then have "sint r = sint a - sint b" by (simp add: checked_sub_s_eq)
  then show ?thesis using Some sint_bounds [of r] by (simp add: saturating_sub_s_def)
qed

lemma and_not_mask_eq: "(x :: 'a::len word) AND NOT (mask k) = push_bit k (drop_bit k x)"
  by (rule bit_word_eqI) (auto simp: bit_simps)

lemma align_up_eq:
  assumes "k < 64" and "unat v + (2 ^ k - 1) < 2 ^ 64"
  shows "unat (align_up v (2 ^ k)) = (unat v + (2 ^ k - 1)) div 2 ^ k * 2 ^ k"
proof -
  have m: "(2 ^ k - 1 :: u64) = mask k" by (simp add: mask_eq_exp_minus_1)
  have "(2::nat) ^ k - 1 < 2 ^ LENGTH(64)" using assms(2) by simp
  moreover have "(mask k :: u64) = of_nat (2 ^ k - 1)" by (simp add: mask_eq_exp_minus_1 of_nat_diff)
  ultimately have "unat (mask k :: u64) = 2 ^ k - 1" by (simp only: unat_of_nat mod_less)
  then have s: "unat (v + mask k) = unat v + (2 ^ k - 1)"
    using assms(2) by (simp add: unat_word_ariths)
  have "unat (align_up v (2 ^ k)) = unat (push_bit k (drop_bit k (v + mask k)))"
    by (simp add: align_up_def m and_not_mask_eq)
  also have "\<dots> = take_bit 64 (unat (v + mask k) div 2 ^ k * 2 ^ k)"
    by (simp only: unsigned_push_bit_eq unsigned_drop_bit_eq)
      (simp add: push_bit_eq_mult drop_bit_eq_div take_bit_unat_self)
  also have "\<dots> = unat (v + mask k) div 2 ^ k * 2 ^ k"
    using unsigned_less [of "v + mask k"]
    by (intro take_bit_nat_eq_self) (auto intro: le_less_trans [OF div_times_less_eq_dividend])
  finally show ?thesis by (simp add: s)
qed

section \<open>Properties\<close>

text \<open>
  C39. Checked signed arithmetic is exact at every width above one bit: addition, subtraction and
  multiplication return a value precisely when the mathematical result is representable, and then
  return that result. In particular no path of the multiplication guard lets an overflow through.
\<close>

theorem checked_signed_exact:
  fixes a b :: "'a::len word"
  assumes "1 < LENGTH('a)"
  shows "(checked_add_s a b = Some r \<longleftrightarrow> sint r = sint a + sint b)
    \<and> (checked_sub_s a b = Some r \<longleftrightarrow> sint r = sint a - sint b)
    \<and> (checked_mul_s a b = Some r \<longleftrightarrow> sint r = sint a * sint b)"
  using assms by (simp add: checked_add_s_eq checked_sub_s_eq checked_mul_s_eq)

theorem checked_signed_exact_witness:
  "checked_mul_s (- 9223372036854775808 :: i64) (- 1) = None
    \<and> checked_mul_s (- 3 :: i64) 7 = Some (- 21)"
proof -
  have "checked_mul_s (- 9223372036854775808 :: i64) (- 1) \<noteq> Some r" for r
  proof
    assume "checked_mul_s (- 9223372036854775808 :: i64) (- 1) = Some r"
    then have "sint r = 9223372036854775808"
      using checked_signed_exact [of "- 9223372036854775808 :: i64" "- 1" r] by simp
    then show False using sint_bounds(2) [of r] by (simp add: smax_of_def)
  qed
  moreover have "checked_mul_s (- 3 :: i64) 7 = Some (- 21)"
    using checked_signed_exact [of "- 3 :: i64" 7 "- 21"] by simp
  ultimately show ?thesis by auto
qed

text \<open>
  C40. Saturating arithmetic clamps: the signed operations return the exact sum or difference clamped
  to the range of the type, and the unsigned sum and product are clamped to the largest value. The unsigned
  subtraction does not clamp: where the difference is negative it returns the largest value of the type
  instead of zero.
\<close>

theorem saturating_clamps:
  fixes a b :: "'a::len word"
  shows "sint (saturating_add_s a b) = max (smin_of TYPE('a)) (min (smax_of TYPE('a)) (sint a + sint b))
    \<and> sint (saturating_sub_s a b) = max (smin_of TYPE('a)) (min (smax_of TYPE('a)) (sint a - sint b))
    \<and> unat (saturating_add_u a b) = min (2 ^ LENGTH('a) - 1) (unat a + unat b)
    \<and> unat (saturating_mul_u a b) = min (2 ^ LENGTH('a) - 1) (unat a * unat b)
    \<and> saturating_sub_u a b = (if a < b then umax else a - b)"
  unfolding saturating_add_u_def saturating_mul_u_def unsigned_clamps [OF checked_add_u_eq] unsigned_clamps [OF checked_mul_u_eq]
  by (simp add: saturating_add_s_clamps saturating_sub_s_clamps saturating_sub_u_def checked_sub_u_def)

text \<open>
  Aligning up to a power of two that does not overflow returns the least multiple of the
  alignment that is not below the value.
\<close>

theorem align_up_least:
  assumes "k < 64" and "unat v + 2 ^ k \<le> 2 ^ 64"
  shows "2 ^ k dvd unat (align_up v (2 ^ k)) \<and> unat v \<le> unat (align_up v (2 ^ k))
    \<and> (\<forall>n. 2 ^ k dvd n \<and> unat v \<le> n \<longrightarrow> unat (align_up v (2 ^ k)) \<le> n)"
proof -
  let ?p = "2 ^ k :: nat"
  have p: "0 < ?p" by simp
  have e: "unat (align_up v (2 ^ k)) = (unat v + (?p - 1)) div ?p * ?p"
    using assms by (intro align_up_eq) simp_all
  have "unat v + (?p - 1) = (unat v + (?p - 1)) div ?p * ?p + (unat v + (?p - 1)) mod ?p"
    by (rule div_mult_mod_eq [symmetric])
  moreover have "(unat v + (?p - 1)) mod ?p < ?p" using p by simp
  ultimately have "unat v \<le> (unat v + (?p - 1)) div ?p * ?p" by linarith
  moreover have "(unat v + (?p - 1)) div ?p * ?p \<le> n" if "?p dvd n" "unat v \<le> n" for n
  proof -
    from that(1) obtain q where q: "n = q * ?p" by (auto simp: dvd_def mult.commute)
    have "(unat v + (?p - 1)) div ?p \<le> (q * ?p + (?p - 1)) div ?p"
      using that(2) q by (intro div_le_mono) simp
    also have "\<dots> = q" by (subst div_mult_self3) simp_all
    finally show ?thesis using q by simp
  qed
  ultimately show ?thesis using e by auto
qed

theorem align_up_least_witness:
  "2 ^ 6 dvd unat (align_up 897 64) \<and> 897 \<le> unat (align_up 897 64) \<and> unat (align_up 897 64) \<le> 960"
  using align_up_least [of 6 897] by simp

end
