(* ===== verification/Varint.thy ===== *)
theory Varint
  imports VT_Prelude
begin

text \<open>
  Model of \<^verbatim>\<open>include/vectortick/codec/varint.hpp\<close> and of the \<^verbatim>\<open>ZigZag\<close> class of
  \<^verbatim>\<open>codec/bitpack.hpp\<close>. An encoder of the source writes into \<^verbatim>\<open>output\<close> and returns the number of
  bytes, or 0 when they do not fit; here it returns the bytes, or \<open>None\<close>. A decoder returns the
  number of consumed bytes with the value, or \<open>None\<close> where the source returns 0.
\<close>

section \<open>VarIntU\<close>

definition varint_MaxSize :: nat where
  "varint_MaxSize = 10"

text \<open>The \<^verbatim>\<open>do ... while\<close> loop; \<open>out\<close> holds the bytes written so far.\<close>

function VarIntU_encode_loop :: "u64 \<Rightarrow> nat \<Rightarrow> bytes \<Rightarrow> bytes option" where
  "VarIntU_encode_loop value output_size out =
     (if output_size \<le> length out then None
      else let b = ucast (value AND 0x7F); value' = drop_bit 7 value in
        if value' \<noteq> 0 then VarIntU_encode_loop value' output_size (out @ [b OR 0x80])
        else Some (out @ [b]))"
  by pat_completeness auto
termination
  by (relation "measure (\<lambda>(_, size, out). size - length out)") auto

definition VarIntU_encode :: "u64 \<Rightarrow> nat \<Rightarrow> bytes option" where
  "VarIntU_encode value output_size = VarIntU_encode_loop value output_size []"

fun VarIntU_decode_loop :: "nat \<Rightarrow> u64 \<Rightarrow> bytes \<Rightarrow> (nat \<times> u64) option" where
  "VarIntU_decode_loop i value [] = None"
| "VarIntU_decode_loop i value (b # input) =
     (if i < varint_MaxSize then
        let value' = value OR push_bit (7 * i) (ucast (b AND 0x7F)) in
        if (b AND 0x80) = 0 then Some (Suc i, value') else VarIntU_decode_loop (Suc i) value' input
      else None)"

definition VarIntU_decode :: "bytes \<Rightarrow> (nat \<times> u64) option" where
  "VarIntU_decode input = VarIntU_decode_loop 0 0 input"

section \<open>ZigZag and VarIntI\<close>

definition ZigZag_encode :: "'a::len word \<Rightarrow> 'a word" where
  "ZigZag_encode value = push_bit 1 value XOR signed_drop_bit (LENGTH('a) - 1) value"

definition ZigZag_decode :: "'a::len word \<Rightarrow> 'a word" where
  "ZigZag_decode value = drop_bit 1 value XOR - (value AND 1)"

definition VarIntI_encode :: "i64 \<Rightarrow> nat \<Rightarrow> bytes option" where
  "VarIntI_encode value output_size = VarIntU_encode (ZigZag_encode value) output_size"

definition VarIntI_decode :: "bytes \<Rightarrow> (nat \<times> i64) option" where
  "VarIntI_decode input = (case VarIntU_decode input of None \<Rightarrow> None
     | Some (consumed, zigzag) \<Rightarrow> Some (consumed, ZigZag_decode zigzag))"

section \<open>GroupVarIntU32\<close>

definition gv_length :: "u32 \<Rightarrow> nat" where
  "gv_length v = (if v < 0x100 then 1 else if v < 0x10000 then 2 else if v < 0x1000000 then 3 else 4)"

text \<open>The inner loop: the low bytes of a value, least significant first.\<close>

fun gv_emit :: "u32 \<Rightarrow> nat \<Rightarrow> bytes" where
  "gv_emit v 0 = []"
| "gv_emit v (Suc n) = ucast v # gv_emit (drop_bit 8 v) n"

fun gv_header :: "nat \<Rightarrow> nat list \<Rightarrow> u8" where
  "gv_header i [] = 0"
| "gv_header i (l # ls) = push_bit (2 * i) (of_nat (l - 1)) OR gv_header (Suc i) ls"

definition GroupVarIntU32_encode :: "u32 list \<Rightarrow> nat \<Rightarrow> bytes option" where
  "GroupVarIntU32_encode values output_size =
     (let lengths = map gv_length values; total_bytes = 1 + sum_list lengths in
      if output_size < total_bytes then None
      else Some (gv_header 0 lengths # concat (map (\<lambda>v. gv_emit v (gv_length v)) values)))"

definition gv_lengths_of :: "u8 \<Rightarrow> nat list" where
  "gv_lengths_of lengths_byte = map (\<lambda>i. unat (drop_bit (2 * i) lengths_byte AND 0x03) + 1) [0..<4]"

fun gv_read :: "nat list \<Rightarrow> bytes \<Rightarrow> u32 list" where
  "gv_read [] input = []"
| "gv_read (l # ls) input = le_word (take l input) # gv_read ls (drop l input)"

definition GroupVarIntU32_decode :: "bytes \<Rightarrow> (nat \<times> u32 list) option" where
  "GroupVarIntU32_decode input =
     (case input of [] \<Rightarrow> None
      | lengths_byte # data \<Rightarrow>
          let lengths = gv_lengths_of lengths_byte; total_data_bytes = sum_list lengths in
          if length input < 1 + total_data_bytes then None
          else Some (1 + total_data_bytes, gv_read lengths data))"

section \<open>The bytes of a varint\<close>

declare VarIntU_encode_loop.simps [simp del]

text \<open>The specification: groups of seven bits, least significant first, with continuation bits.\<close>

function varint_bytes :: "u64 \<Rightarrow> bytes" where
  "varint_bytes v = (if drop_bit 7 v = 0 then [ucast (v AND 0x7F)]
     else (ucast (v AND 0x7F) OR 0x80) # varint_bytes (drop_bit 7 v))"
  by pat_completeness auto
termination
proof (relation "measure unat")
  fix v :: u64
  assume "drop_bit 7 v \<noteq> 0"
  then have "v \<noteq> 0" by auto
  then have "0 < unat v" by (simp add: unat_gt_0)
  then show "(drop_bit 7 v, v) \<in> measure unat" by (simp only: in_measure unat_drop_bit) simp
qed simp

declare varint_bytes.simps [simp del]

lemma varint_bytes_nonempty [simp]: "varint_bytes v \<noteq> []"
  by (subst varint_bytes.simps) simp

lemma length_varint_bytes: "unat v < 2 ^ (7 * Suc n) \<Longrightarrow> length (varint_bytes v) \<le> Suc n"
proof (induction n arbitrary: v)
  case 0
  then have "unat (drop_bit 7 v) = 0" by (simp only: unat_drop_bit) simp
  then have "drop_bit 7 v = 0" by (simp add: unsigned_eq_0_iff)
  then show ?case by (subst varint_bytes.simps) simp
next
  case (Suc n)
  have "unat (drop_bit 7 v) = unat v div 2 ^ 7" by (rule unat_drop_bit)
  moreover have "unat v < 2 ^ 7 * 2 ^ (7 * Suc n)"
    using Suc.prems by (simp only: power_add [symmetric]) (simp add: algebra_simps)
  ultimately have "unat (drop_bit 7 v) < 2 ^ (7 * Suc n)"
    by (simp add: less_mult_imp_div_less mult.commute)
  from Suc.IH [OF this] show ?case by (subst varint_bytes.simps) simp
qed

lemma length_varint_bytes_le_10: "length (varint_bytes v) \<le> 10"
proof -
  have "unat v < 2 ^ 64" using unsigned_less [of v] by simp
  then have "unat v < 2 ^ (7 * Suc 9)" by simp
  then show ?thesis using length_varint_bytes [of v 9] by simp
qed

lemma encode_loop_eq:
  "VarIntU_encode_loop v sz out =
     (if length out + length (varint_bytes v) \<le> sz then Some (out @ varint_bytes v) else None)"
proof (induction v sz out rule: VarIntU_encode_loop.induct)
  case (1 v sz out)
  have ne: "1 \<le> length (varint_bytes v)" by (simp add: Suc_le_eq)
  show ?case
  proof (cases "sz \<le> length out")
    case True
    then show ?thesis using ne by (simp add: VarIntU_encode_loop.simps [of v])
  next
    case False
    show ?thesis
    proof (cases "drop_bit 7 v = 0")
      case True
      then show ?thesis
        using False by (simp add: VarIntU_encode_loop.simps [of v] varint_bytes.simps [of v])
    next
      case next': False
      have "VarIntU_encode_loop v sz out
          = VarIntU_encode_loop (drop_bit 7 v) sz (out @ [ucast (v AND 0x7F) OR 0x80])"
        using False next' by (simp add: VarIntU_encode_loop.simps [of v] Let_def)
      also have "\<dots> = (if length out + length (varint_bytes v) \<le> sz then Some (out @ varint_bytes v) else None)"
        using 1 [OF False refl refl next'] next' by (simp add: varint_bytes.simps [of v])
      finally show ?thesis .
    qed
  qed
qed

lemma VarIntU_encode_eq:
  "VarIntU_encode v sz = (if length (varint_bytes v) \<le> sz then Some (varint_bytes v) else None)"
  by (simp add: VarIntU_encode_def encode_loop_eq)

text \<open>One decoding step joins a group of seven bits with the remaining, shifted groups.\<close>

lemma varint_low_bits:
  "ucast (ucast (v AND 0x7F) AND 0x7F :: u8) = (v AND 0x7F :: u64)"
  "ucast ((ucast (v AND 0x7F) OR 0x80) AND 0x7F :: u8) = (v AND 0x7F :: u64)"
  unfolding mask_0x7F
  by (rule bit_word_eqI; auto simp only: bit_simps bit_0x80_u8 simp_thms; simp)+

lemma varint_stop_bits: "(ucast ((v::u64) AND 0x7F) :: u8) AND 0x80 = 0"
  "((ucast ((v::u64) AND 0x7F) :: u8) OR 0x80) AND 0x80 \<noteq> 0"
proof -
  show "(ucast (v AND 0x7F) :: u8) AND 0x80 = 0"
    unfolding mask_0x7F by (rule bit_word_eqI) (simp only: bit_simps bit_0x80_u8, simp)
  have "bit ((ucast (v AND 0x7F) OR 0x80) AND 0x80 :: u8) 7" by (simp only: bit_simps bit_0x80_u8) simp
  then show "((ucast (v AND 0x7F) :: u8) OR 0x80) AND 0x80 \<noteq> 0" by (metis bit_0_eq bot_apply bot_bool_def)
qed

lemma push_bit_split: "push_bit n (v AND 0x7F) OR push_bit (n + 7) (drop_bit 7 v) = push_bit n (v :: u64)"
  unfolding mask_0x7F
proof (rule bit_word_eqI)
  fix k assume "k < LENGTH(64)"
  then show "bit (push_bit n (v AND mask 7) OR push_bit (n + 7) (drop_bit 7 v)) k = bit (push_bit n v) k"
    by (cases "n + 7 \<le> k") (auto simp: bit_simps)
qed

lemma decode_loop_varint_bytes:
  "i + length (varint_bytes v) \<le> 10 \<Longrightarrow>
   VarIntU_decode_loop i acc (varint_bytes v @ rest)
     = Some (i + length (varint_bytes v), acc OR push_bit (7 * i) v)"
proof (induction v arbitrary: i acc rule: varint_bytes.induct)
  case (1 v)
  show ?case
  proof (cases "drop_bit 7 v = 0")
    case True
    have "push_bit (7 * i) (v AND 0x7F) = push_bit (7 * i) v"
      using push_bit_split [of "7 * i" v] True by simp
    then show ?thesis
      using "1.prems" True
      by (simp add: varint_bytes.simps [of v] varint_MaxSize_def varint_low_bits varint_stop_bits)
  next
    case False
    have "push_bit (7 * i) (v AND 0x7F) OR push_bit (7 * Suc i) (drop_bit 7 v) = push_bit (7 * i) v"
      using push_bit_split [of "7 * i" v] by (simp add: algebra_simps)
    then show ?thesis
      using "1.prems" False "1.IH" [OF False, of "Suc i" "acc OR push_bit (7 * i) (v AND 0x7F)"]
      by (simp add: varint_bytes.simps [of v] varint_MaxSize_def varint_low_bits varint_stop_bits
          or.assoc)
  qed
qed

lemma VarIntU_decode_varint_bytes:
  "VarIntU_decode (varint_bytes v @ rest) = Some (length (varint_bytes v), v)"
  using decode_loop_varint_bytes [of 0 v 0 rest] length_varint_bytes_le_10 [of v]
  by (simp add: VarIntU_decode_def)

lemma decode_loop_consumed:
  "VarIntU_decode_loop i acc input = Some (n, v) \<Longrightarrow> i < n \<and> n \<le> i + length input \<and> n \<le> 10"
  by (induction i acc input rule: VarIntU_decode_loop.induct)
    (auto simp: varint_MaxSize_def Let_def split: if_splits)

lemma VarIntU_decode_consumed: "VarIntU_decode input = Some (n, v) \<Longrightarrow> 0 < n \<and> n \<le> length input"
  using decode_loop_consumed [of 0 0 input n v] by (simp add: VarIntU_decode_def)

section \<open>ZigZag\<close>

lemma neg_and_1: "- (w AND 1) = (if bit w 0 then - 1 else 0 :: 'a::len word)"
  by (simp add: and_one_eq bit_0 mod_2_eq_odd)

lemma bit_zigzag: "k < LENGTH('a) \<Longrightarrow> bit (ZigZag_encode (v :: 'a::len word)) k
    \<longleftrightarrow> (0 < k \<and> bit v (k - 1)) \<noteq> bit v (LENGTH('a) - 1)"
  by (simp only: ZigZag_encode_def bit_simps bit_signed_drop_bit_iff) (auto simp: not_le)

lemma ZigZag_decode_encode [simp]: "ZigZag_decode (ZigZag_encode v) = (v :: 'a::len word)"
proof (rule bit_word_eqI)
  fix k assume k: "k < LENGTH('a)"
  have s: "bit (ZigZag_encode v) 0 = bit v (LENGTH('a) - 1)" by (simp add: bit_zigzag)
  show "bit (ZigZag_decode (ZigZag_encode v)) k = bit v k"
  proof (cases "Suc k < LENGTH('a)")
    case True
    then show ?thesis using s bit_zigzag [of "Suc k" v]
      by (simp add: ZigZag_decode_def neg_and_1 bit_simps)
  next
    case False
    then have "k = LENGTH('a) - 1" using k by simp
    moreover have "\<not> bit (ZigZag_encode v) (Suc k)" using False by (simp add: bit_word.rep_eq) 
    ultimately show ?thesis using s k by (simp add: ZigZag_decode_def neg_and_1 bit_simps)
  qed
qed

text \<open>The meaning of the encoding: \<open>0, -1, 1, -2, 2, ...\<close> are numbered consecutively.\<close>

definition zigzag_number :: "int \<Rightarrow> int" where
  "zigzag_number x = (if 0 \<le> x then 2 * x else - 2 * x - 1)"

lemma signed_drop_bit_sign:
  "signed_drop_bit (LENGTH('a) - 1) (v :: 'a::len word) = (if bit v (LENGTH('a) - 1) then - 1 else 0)"
  by (rule bit_word_eqI) (auto simp: bit_simps bit_signed_drop_bit_iff not_le)

lemma ZigZag_encode_int: "ZigZag_encode v = word_of_int (zigzag_number (sint (v :: 'a::len word)))"
proof -
  have s: "bit v (LENGTH('a) - 1) \<longleftrightarrow> sint v < 0" by (simp add: bit_last_iff)
  have d: "push_bit 1 v = word_of_int (2 * sint v)" by simp
  have n: "NOT (word_of_int x :: 'a word) = word_of_int (- x - 1)" for x
    by (simp add: not_eq_complement)
  show ?thesis
    unfolding ZigZag_encode_def signed_drop_bit_sign s zigzag_number_def
    using n [of "2 * sint v"] by (simp only: d) (simp add: bit.xor_one_right)
qed

lemma uint_ZigZag_encode: "uint (ZigZag_encode v) = zigzag_number (sint (v :: 'a::len word))"
proof -
  have p: "(2::int) ^ LENGTH('a) = 2 * 2 ^ (LENGTH('a) - 1)" by (simp add: power_eq_if)
  have "0 \<le> zigzag_number (sint v)" "zigzag_number (sint v) < 2 ^ LENGTH('a)"
    using sint_greater_eq [of v] sint_less [of v] p by (auto simp: zigzag_number_def)
  then show ?thesis by (simp add: ZigZag_encode_int unsigned_of_int take_bit_int_eq_self)
qed

section \<open>GroupVarIntU32\<close>

lemma gv_emit_eq: "gv_emit v n = le_bytes n v"
  by (induction n arbitrary: v) (simp_all add: le_bytes_Suc)

lemma gv_length_bounds: "1 \<le> gv_length v \<and> gv_length v \<le> 4"
  by (simp add: gv_length_def)

lemma unat_lt_gv_length: "unat v < 2 ^ (8 * gv_length v)"
  using unsigned_less [of v] by (auto simp: gv_length_def word_less_nat_alt)

lemma le_word_gv_bytes: "le_word (le_bytes (gv_length v) v) = v"
proof -
  have "take_bit (8 * gv_length v) (unat v) = unat v"
    using unat_lt_gv_length [of v] by (simp add: take_bit_nat_eq_self_iff)
  then have "take_bit (8 * gv_length v) v = v"
    by (metis unsigned_take_bit_eq unsigned_word_eqI)
  then show ?thesis by (simp add: le_word_le_bytes)
qed

lemma gv_read_append:
  "gv_read (map gv_length vs) (concat (map (\<lambda>v. le_bytes (gv_length v) v) vs) @ rest) = vs"
  by (induction vs) (simp_all add: le_word_gv_bytes)

lemma sum_list_gv_length:
  "length (concat (map (\<lambda>v. le_bytes (gv_length v) v) vs)) = sum_list (map gv_length vs)"
  by (induction vs) simp_all

lemma gv_header_four: "gv_lengths_of (gv_header 0 [a, b, c, d]) = [a, b, c, d]"
  if "a \<in> {1..4}" "b \<in> {1..4}" "c \<in> {1..4}" "d \<in> {1..4}"
proof -
  have "\<forall>a\<in>set [1..<5]. \<forall>b\<in>set [1..<5]. \<forall>c\<in>set [1..<5]. \<forall>d\<in>set [1..<5].
      gv_lengths_of (gv_header 0 [a, b, c, d]) = [a, b, c, d]" by code_simp
  moreover have "set [1..<5] = {1..4::nat}" by auto
  ultimately show ?thesis using that by blast
qed

lemma GroupVarIntU32_roundtrip:
  assumes "length vs = 4"
  shows "GroupVarIntU32_encode vs sz = Some out \<Longrightarrow>
    GroupVarIntU32_decode (out @ rest) = Some (length out, vs)"
proof -
  assume enc: "GroupVarIntU32_encode vs sz = Some out"
  obtain a b c d where vs: "vs = [a, b, c, d]"
    using assms by (auto simp: length_Suc_conv numeral_eq_Suc)
  have "gv_length v \<in> {1..4}" for v using gv_length_bounds [of v] by simp
  then have hd: "gv_lengths_of (gv_header 0 (map gv_length vs)) = map gv_length vs"
    unfolding vs list.map by (intro gv_header_four)
  have out: "out = gv_header 0 (map gv_length vs) # concat (map (\<lambda>v. le_bytes (gv_length v) v) vs)"
    using enc by (auto simp: GroupVarIntU32_encode_def Let_def gv_emit_eq split: if_splits)
  show ?thesis
    unfolding out GroupVarIntU32_decode_def append_Cons list.case hd Let_def
    using sum_list_gv_length [of vs] gv_read_append [of vs rest]
    by (simp del: length_concat)
qed

section \<open>Properties\<close>

text \<open>
  C38. Varint round trip: the encoder succeeds exactly when the buffer holds the encoded bytes, never
  needs more than ten, and decoding the bytes, whatever follows them, consumes precisely them and
  returns the value; a decoder that succeeds never reads past its input.
\<close>

theorem varint_roundtrip:
  "(VarIntU_encode v sz = Some out \<longrightarrow>
      length out \<le> min sz varint_MaxSize \<and> VarIntU_decode (out @ rest) = Some (length out, v))
   \<and> (varint_MaxSize \<le> sz \<longrightarrow> VarIntU_encode v sz \<noteq> None)
   \<and> (VarIntU_decode input = Some (n, w) \<longrightarrow> 0 < n \<and> n \<le> length input)"
  using length_varint_bytes_le_10 [of v] VarIntU_decode_consumed [of input n w]
  by (auto simp: VarIntU_encode_eq VarIntU_decode_varint_bytes varint_MaxSize_def)

theorem varint_roundtrip_witness:
  "VarIntU_encode 300 2 = Some [0xAC, 2] \<and> VarIntU_decode [0xAC, 2, 7] = Some (2, 300)
    \<and> VarIntU_encode 300 10 \<noteq> None"
proof -
  have e: "VarIntU_encode 300 2 = Some [0xAC, 2]"
    by (simp add: VarIntU_encode_def VarIntU_encode_loop.simps Let_def)
  then show ?thesis
    using varint_roundtrip [of 300 2 "[0xAC, 2]" "[7]" "[0xAC, 2, 7]" 2 300]
      varint_roundtrip [of 300 10 "[0xAC, 2]" "[7]" "[0xAC, 2, 7]" 2 300]
    by (simp add: varint_MaxSize_def)
qed

text \<open>
  ZigZag numbers the integers \<open>0, -1, 1, -2, ...\<close> consecutively at every width, so values of small
  magnitude get small codes, and decoding inverts it; the signed varint inherits the round trip.
\<close>

theorem zigzag_roundtrip:
  fixes v :: "'a::len word" and x :: i64
  shows "uint (ZigZag_encode v) = (if 0 \<le> sint v then 2 * sint v else - 2 * sint v - 1)
    \<and> ZigZag_decode (ZigZag_encode v) = v
    \<and> (VarIntI_encode x sz = Some out \<longrightarrow> VarIntI_decode (out @ rest) = Some (length out, x))"
  using uint_ZigZag_encode [of v]
  by (auto simp: zigzag_number_def VarIntI_encode_def VarIntI_decode_def VarIntU_encode_eq
      VarIntU_decode_varint_bytes)

theorem zigzag_roundtrip_witness:
  "VarIntI_encode (- 2) 1 = Some [3] \<and> VarIntI_decode [3] = Some (1, - 2)"
proof -
  have "VarIntI_encode (- 2) 1 = Some [3]"
    by (simp add: VarIntI_encode_def VarIntU_encode_def VarIntU_encode_loop.simps ZigZag_encode_int
        zigzag_number_def)
  then show ?thesis
    using zigzag_roundtrip [where 'a=64, of 0 "- 2" 1 "[3]" "[]"] by simp
qed

text \<open>
  Group varint round trip: four values are stored in one length byte and the significant bytes of
  each; at most 17 bytes are needed, and decoding returns the values and the number of bytes.
\<close>

theorem group_varint_roundtrip:
  assumes "length vs = 4"
  shows "(GroupVarIntU32_encode vs sz = Some out \<longrightarrow>
      length out \<le> min sz 17 \<and> GroupVarIntU32_decode (out @ rest) = Some (length out, vs))
    \<and> (17 \<le> sz \<longrightarrow> GroupVarIntU32_encode vs sz \<noteq> None)"
proof -
  have "sum_list (map gv_length vs) \<le> 4 * length vs"
    using gv_length_bounds by (induction vs) (simp_all add: add_le_mono)
  then show ?thesis
    using GroupVarIntU32_roundtrip [OF assms, of sz out rest] sum_list_gv_length [of vs] assms
    by (auto simp: GroupVarIntU32_encode_def gv_emit_eq Let_def split: if_splits simp del: length_concat)
qed

theorem group_varint_roundtrip_witness:
  "GroupVarIntU32_decode [4, 1, 0, 1, 3, 4] = Some (6, [1, 256, 3, 4])"
proof -
  have "GroupVarIntU32_encode [1, 256, 3, 4] 6 = Some [4, 1, 0, 1, 3, 4]"
    by code_simp
  then show ?thesis
    using group_varint_roundtrip [of "[1, 256, 3, 4]" 6 "[4, 1, 0, 1, 3, 4]" "[]"] by simp
qed

end
