(* ===== verification/Bitpack.thy ===== *)
theory Bitpack
  imports VT_Prelude
begin

text \<open>
  Model of \<^verbatim>\<open>include/vectortick/codec/bitpack.hpp\<close>: \<^verbatim>\<open>BitPackU32\<close> and \<^verbatim>\<open>DeltaBitPackU32\<close> (the
  \<^verbatim>\<open>ZigZag\<close> class of the same header is in \<open>Varint\<close>). An encoder updates the output buffer in place,
  so the loops pass the buffer along. A packed buffer is understood as a stream of bits
  (\<open>stream_bit\<close>); the locale \<open>bit_writer\<close> is what the two encoders need of the code that stores one
  value, and both are interpretations of it. Counts and bit widths are natural numbers: the products
  \<^verbatim>\<open>num_values * bits\<close> of the source are taken not to exceed 64 bits.
\<close>

section \<open>BitPackU32\<close>

function bits_required_loop :: "u32 \<Rightarrow> nat \<Rightarrow> nat" where
  "bits_required_loop max_value bits =
     (if 0 < max_value then bits_required_loop (drop_bit 1 max_value) (bits + 1) else bits)"
  by pat_completeness auto
termination
proof (relation "measure (\<lambda>(v, _). unat v)")
  fix v :: u32 and bits :: nat
  assume "0 < v"
  then have "0 < unat v" by (simp add: word_less_nat_alt)
  then show "((drop_bit 1 v, bits + 1), (v, bits)) \<in> measure (\<lambda>(v, _). unat v)"
    by (simp only: in_measure unat_drop_bit prod.case) simp
qed simp

definition bits_required :: "u32 \<Rightarrow> nat" where
  "bits_required max_value = (if max_value = 0 then 1 else bits_required_loop max_value 0)"

definition bp_max_encoded_size :: "nat \<Rightarrow> nat \<Rightarrow> nat" where
  "bp_max_encoded_size num_values bits = (if bits = 0 then 0 else (num_values * bits + 7) div 8)"

definition bp_mask :: "nat \<Rightarrow> u32" where
  "bp_mask bits = (if bits = 32 then 0xFFFFFFFF else push_bit bits 1 - 1)"

text \<open>The inner loop: byte \<open>b\<close> of the shifted value is or-ed into the output.\<close>

definition bp_or_byte :: "nat \<Rightarrow> nat \<Rightarrow> u64 \<Rightarrow> nat \<Rightarrow> bytes \<Rightarrow> bytes" where
  "bp_or_byte required byte_offset shifted b out =
     (if byte_offset + b < required
      then out[byte_offset + b := out ! (byte_offset + b) OR ucast (drop_bit (b * 8) shifted AND 0xFF)]
      else out)"

definition bp_put :: "nat \<Rightarrow> nat \<Rightarrow> nat \<Rightarrow> u32 \<Rightarrow> bytes \<Rightarrow> bytes" where
  "bp_put required bits bit_offset value out =
     (let byte_offset = bit_offset div 8; bit_pos = bit_offset mod 8;
          shifted = push_bit bit_pos (ucast value :: u64);
          bytes_to_write = (bit_pos + bits + 7) div 8
      in fold (bp_or_byte required byte_offset shifted) [0..<bytes_to_write] out)"

text \<open>The outer loop of both encoders, over what stores one value of \<open>bits\<close> bits at a bit offset.\<close>

fun put_all :: "(nat \<Rightarrow> nat \<Rightarrow> u32 \<Rightarrow> bytes \<Rightarrow> bytes) \<Rightarrow> nat \<Rightarrow> nat \<Rightarrow> u32 list \<Rightarrow> bytes \<Rightarrow> bytes" where
  "put_all put bits bit_offset [] out = out"
| "put_all put bits bit_offset (v # vs) out =
     put_all put bits (bit_offset + bits) vs (put bits bit_offset v out)"

definition BitPackU32_encode :: "u32 list \<Rightarrow> nat \<Rightarrow> nat \<Rightarrow> bytes option" where
  "BitPackU32_encode values bits output_size =
     (let required = bp_max_encoded_size (length values) bits in
      if output_size < required then None
      else if bits = 0 \<or> 32 < bits then None
      else Some (put_all (bp_put required) bits 0 (map (\<lambda>v. v AND bp_mask bits) values)
             (replicate required 0)))"

definition bp_window :: "bytes \<Rightarrow> nat \<Rightarrow> u64" where
  "bp_window input byte_offset = le_word (take 8 (drop byte_offset input))"

fun bp_decode_loop :: "bytes \<Rightarrow> nat \<Rightarrow> nat \<Rightarrow> nat \<Rightarrow> u32 list" where
  "bp_decode_loop input bits bit_offset 0 = []"
| "bp_decode_loop input bits bit_offset (Suc n) =
     ucast (drop_bit (bit_offset mod 8) (bp_window input (bit_offset div 8)) AND ucast (bp_mask bits))
       # bp_decode_loop input bits (bit_offset + bits) n"

definition BitPackU32_decode :: "bytes \<Rightarrow> nat \<Rightarrow> nat \<Rightarrow> (nat \<times> u32 list) option" where
  "BitPackU32_decode input bits num_values =
     (let required_bytes = (num_values * bits + 7) div 8 in
      if length input < required_bytes then None
      else if bits = 0 \<or> 32 < bits then None
      else Some (required_bytes, bp_decode_loop input bits 0 num_values))"

section \<open>DeltaBitPackU32\<close>

definition dbp_max_encoded_size :: "nat \<Rightarrow> nat \<Rightarrow> nat" where
  "dbp_max_encoded_size num_values bits =
     4 + bp_max_encoded_size (if 0 < num_values then num_values - 1 else 0) bits"

fun deltas :: "u32 \<Rightarrow> u32 list \<Rightarrow> u32 list" where
  "deltas prev [] = []"
| "deltas prev (v # vs) = (v - prev) # deltas v vs"

text \<open>
  The delta encoder reads four bytes, ors the value in and writes them back, but only where the
  four bytes fit into the output buffer; \<open>delta_out\<close> is the buffer behind the first value.
\<close>

definition dbp_put :: "nat \<Rightarrow> nat \<Rightarrow> u32 \<Rightarrow> bytes \<Rightarrow> bytes" where
  "dbp_put bits bit_offset value delta_out =
     (let byte_offset = bit_offset div 8; bit_pos = bit_offset mod 8 in
      if byte_offset + 4 \<le> length delta_out
      then let window = le_word (get_bytes byte_offset 4 delta_out) :: u32;
               window' = window OR push_bit bit_pos value
           in put_bytes byte_offset (le_bytes 4 window') delta_out
      else delta_out)"

text \<open>
  The output buffer is an argument, because the encoder keeps what it held: the deltas are or-ed
  into it. The result is the buffer and the number of bytes the encoder reports.
\<close>

definition DeltaBitPackU32_encode :: "u32 list \<Rightarrow> nat \<Rightarrow> bytes \<Rightarrow> (nat \<times> bytes) option" where
  "DeltaBitPackU32_encode values bits output =
     (case values of [] \<Rightarrow> None
      | v0 # vs \<Rightarrow>
          if length output < 4 then None
          else let output' = put_bytes 0 (le_bytes 4 v0) output in
          if vs = [] then Some (4, output')
          else let delta_size = bp_max_encoded_size (length vs) bits in
          if length output < 4 + delta_size then None
          else Some (4 + delta_size, take 4 output' @
            put_all dbp_put bits 0 (map (\<lambda>d. d AND bp_mask bits) (deltas v0 vs)) (drop 4 output')))"

definition dbp_get :: "bytes \<Rightarrow> nat \<Rightarrow> nat \<Rightarrow> u32" where
  "dbp_get delta_in bits bit_offset =
     (let byte_offset = bit_offset div 8; bit_pos = bit_offset mod 8 in
      if byte_offset + 4 \<le> length delta_in
      then drop_bit bit_pos (le_word (get_bytes byte_offset 4 delta_in) :: u32) AND bp_mask bits
      else 0)"

fun dbp_decode_loop :: "bytes \<Rightarrow> nat \<Rightarrow> nat \<Rightarrow> u32 \<Rightarrow> nat \<Rightarrow> u32 list" where
  "dbp_decode_loop delta_in bits bit_offset prev 0 = []"
| "dbp_decode_loop delta_in bits bit_offset prev (Suc n) =
     (let v = prev + dbp_get delta_in bits bit_offset in v # dbp_decode_loop delta_in bits (bit_offset + bits) v n)"

definition DeltaBitPackU32_decode :: "bytes \<Rightarrow> nat \<Rightarrow> nat \<Rightarrow> (nat \<times> u32 list) option" where
  "DeltaBitPackU32_decode input bits num_values =
     (if num_values = 0 then None
      else if length input < 4 then None
      else let v0 = le_word (get_bytes 0 4 input) in
      if num_values = 1 then Some (4, [v0])
      else let delta_size = bp_max_encoded_size (num_values - 1) bits in
      if length input < 4 + delta_size then None
      else Some (4 + delta_size, v0 # dbp_decode_loop (drop 4 input) bits 0 v0 (num_values - 1)))"

section \<open>The buffer as a stream of bits\<close>

definition stream_bit :: "bytes \<Rightarrow> nat \<Rightarrow> bool" where
  "stream_bit buf p = bit (buf ! (p div 8)) (p mod 8)"

text \<open>
  What an encoder needs of the code that stores one value: it sets the bits of the value at its
  position, touches no other bit of the stream, and keeps the length of the buffer, as long as the
  value \<open>fits\<close> at that position.
\<close>

locale bit_writer =
  fixes put :: "nat \<Rightarrow> nat \<Rightarrow> u32 \<Rightarrow> bytes \<Rightarrow> bytes" and fits :: "nat \<Rightarrow> nat \<Rightarrow> nat \<Rightarrow> bool"
  assumes length_put: "length (put bits q v buf) = length buf"
    and put_bits: "fits bits q (length buf) \<Longrightarrow> (\<forall>k. bit v k \<longrightarrow> k < bits) \<Longrightarrow> p < 8 * length buf \<Longrightarrow>
      stream_bit (put bits q v buf) p \<longleftrightarrow> stream_bit buf p \<or> (q \<le> p \<and> p < q + bits \<and> bit v (p - q))"
begin

lemma length_put_all: "length (put_all put bits q vs buf) = length buf"
  by (induction vs arbitrary: q buf) (simp_all add: length_put)

lemma put_all_below:
  assumes "\<forall>j < length vs. fits bits (q + j * bits) (length buf)" "\<forall>v\<in>set vs. \<forall>k. bit v k \<longrightarrow> k < bits"
    and "p < q" "p < 8 * length buf"
  shows "stream_bit (put_all put bits q vs buf) p = stream_bit buf p"
  using assms
proof (induction vs arbitrary: q buf)
  case Nil
  then show ?case by simp
next
  case (Cons v vs)
  have "fits bits (q + bits + j * bits) (length buf)" if "j < length vs" for j
    using Cons.prems(1) that by (auto dest: spec [of _ "Suc j"] simp: algebra_simps)
  then have "stream_bit (put_all put bits (q + bits) vs (put bits q v buf)) p = stream_bit (put bits q v buf) p"
    using Cons.prems by (intro Cons.IH) (simp_all add: length_put)
  moreover have "fits bits q (length buf)" using Cons.prems(1) by force
  ultimately show ?case using put_bits [of bits q buf v p] Cons.prems by simp
qed

text \<open>Value \<open>j\<close> ends up at bits \<open>q + j * bits\<close> and following; later writes leave it alone.\<close>

lemma put_all_at:
  assumes "\<forall>j < length vs. fits bits (q + j * bits) (length buf)" "\<forall>v\<in>set vs. \<forall>k. bit v k \<longrightarrow> k < bits"
    and "j < length vs" "k < bits" "q + j * bits + k < 8 * length buf"
    and "\<forall>p. q \<le> p \<longrightarrow> p < 8 * length buf \<longrightarrow> \<not> stream_bit buf p"
  shows "stream_bit (put_all put bits q vs buf) (q + j * bits + k) = bit (vs ! j) k"
  using assms
proof (induction vs arbitrary: q buf j)
  case Nil
  then show ?case by simp
next
  case (Cons v vs)
  let ?b = "put bits q v buf"
  have f: "fits bits q (length buf)" using Cons.prems(1) by force
  have fs: "\<forall>j < length vs. fits bits (q + bits + j * bits) (length ?b)"
    using Cons.prems(1) by (auto dest: spec [of _ "Suc _"] simp: algebra_simps length_put)
  have v: "\<forall>k. bit v k \<longrightarrow> k < bits" and vs: "\<forall>v\<in>set vs. \<forall>k. bit v k \<longrightarrow> k < bits"
    using Cons.prems(2) by auto
  show ?case
  proof (cases j)
    case 0
    then have "stream_bit (put_all put bits (q + bits) vs ?b) (q + k) = stream_bit ?b (q + k)"
      using Cons.prems by (intro put_all_below [OF fs vs]) (simp_all add: length_put)
    also have "\<dots> = bit v k"
      using put_bits [OF f v, of "q + k"] Cons.prems 0 by simp
    finally show ?thesis using 0 by simp
  next
    case (Suc i)
    have "\<forall>p. q + bits \<le> p \<longrightarrow> p < 8 * length ?b \<longrightarrow> \<not> stream_bit ?b p"
      using put_bits [OF f v] Cons.prems(6) by (simp add: length_put)
    then have "stream_bit (put_all put bits (q + bits) vs ?b) (q + bits + i * bits + k) = bit (vs ! i) k"
      using Cons.prems Suc by (intro Cons.IH [OF fs vs]) (simp_all add: length_put algebra_simps)
    then show ?thesis using Suc by (simp add: algebra_simps)
  qed
qed

end

section \<open>The two encoders as bit writers\<close>

lemma length_bp_or_byte [simp]: "length (bp_or_byte r bo sh b out) = length out"
  by (simp add: bp_or_byte_def)

lemma length_bp_or_bytes: "length (fold (bp_or_byte r bo sh) bs out) = length out"
  by (induction bs arbitrary: out) simp_all

lemma nth_bp_or_byte:
  assumes "i < length out" "r = length out"
  shows "bp_or_byte r bo sh b out ! i =
    (if i = bo + b then out ! i OR ucast (drop_bit (8 * b) sh) else out ! i)"
proof -
  have m: "ucast (x AND 0xFF) = (ucast x :: u8)" for x :: u64
    unfolding mask_0xFF by (rule bit_word_eqI) (simp add: bit_simps)
  show ?thesis using assms by (auto simp: bp_or_byte_def m mult.commute)
qed

lemma nth_bp_or_bytes:
  assumes "i < length out" "r = length out"
  shows "fold (bp_or_byte r bo sh) [0..<n] out ! i =
    (if bo \<le> i \<and> i < bo + n then out ! i OR ucast (drop_bit (8 * (i - bo)) sh) else out ! i)"
proof (induction n)
  case 0
  then show ?case by auto
next
  case (Suc n)
  let ?f = "fold (bp_or_byte r bo sh) [0..<n] out"
  have step: "fold (bp_or_byte r bo sh) [0..<Suc n] out = bp_or_byte r bo sh n ?f" by simp
  have len: "length ?f = length out" by (rule length_bp_or_bytes)
  consider "i < bo + n" | "i = bo + n" | "bo + n < i" by linarith
  then show ?case
    unfolding step using Suc assms len by cases (simp_all add: nth_bp_or_byte)
qed

lemma rel_bit_offset:
  assumes "q div 8 \<le> p div (8::nat)"
  shows "8 * (p div 8 - q div 8) + p mod 8 - q mod 8 = p - q"
    and "q mod 8 \<le> 8 * (p div 8 - q div 8) + p mod 8 \<longleftrightarrow> q \<le> p"
proof -
  obtain d where d: "p div 8 = q div 8 + d" using assms le_Suc_ex by blast
  have "p = 8 * (p div 8) + p mod 8" "q = 8 * (q div 8) + q mod 8" by simp_all
  then have "p = 8 * (q div 8) + 8 * d + p mod 8" "q = 8 * (q div 8) + q mod 8" by (simp_all add: d)
  moreover have "8 * (p div 8 - q div 8) = 8 * d" using d by simp
  ultimately show "8 * (p div 8 - q div 8) + p mod 8 - q mod 8 = p - q"
    and "q mod 8 \<le> 8 * (p div 8 - q div 8) + p mod 8 \<longleftrightarrow> q \<le> p" by linarith+
qed

lemma byte_below:
  "q = 8 * a + r \<Longrightarrow> p = 8 * i + k \<Longrightarrow> p < q + n \<Longrightarrow> r + n \<le> 8 * m \<Longrightarrow> i < a + (m :: nat)"
  by linarith

text \<open>A 32-bit value shifted by less than a byte fits into 64 bits.\<close>

lemma bit_shifted:
  "s < 8 \<Longrightarrow> bit (push_bit s (ucast (v :: u32)) :: u64) k \<longleftrightarrow> s \<le> k \<and> bit v (k - s)"
  using bit_imp_le_length [of v "k - s"] by (auto simp: bit_push_bit_iff bit_ucast_iff)

lemma bp_put_bits:
  assumes "32 \<ge> bits" "required = length buf" "\<forall>k. bit v k \<longrightarrow> k < bits" "p < 8 * length buf"
  shows "stream_bit (bp_put required bits q v buf) p
    \<longleftrightarrow> stream_bit buf p \<or> (q \<le> p \<and> p < q + bits \<and> bit v (p - q))"
proof -
  let ?bo = "q div 8" and ?bp = "q mod 8" and ?i = "p div 8" and ?k = "p mod 8"
  let ?n = "(?bp + bits + 7) div 8"
  have q: "q = 8 * ?bo + ?bp" and p: "p = 8 * ?i + ?k" by simp_all
  have lt: "?bp < 8" "?k < 8" by simp_all
  have i: "?i < length buf" using assms(4) by (simp add: less_mult_imp_div_less)
  have n: "?bp + bits \<le> 8 * ?n" by simp
  have b: "stream_bit (bp_put required bits q v buf) p \<longleftrightarrow> stream_bit buf p \<or>
      (?bo \<le> ?i \<and> ?i < ?bo + ?n \<and> bit (push_bit ?bp (ucast v :: u64)) (8 * (?i - ?bo) + ?k))"
    using lt by (auto simp: stream_bit_def bp_put_def nth_bp_or_bytes [OF i assms(2)] Let_def
        bit_or_iff bit_ucast_iff bit_drop_bit_eq)
  show ?thesis
  proof (cases "?bo \<le> ?i \<and> ?i < ?bo + ?n")
    case True
    note e = rel_bit_offset [OF conjunct1 [OF True]]
    have "bit (push_bit ?bp (ucast v :: u64)) (8 * (?i - ?bo) + ?k) \<longleftrightarrow> q \<le> p \<and> p < q + bits \<and> bit v (p - q)"
      using assms(1,3) bit_shifted [of ?bp v "8 * (?i - ?bo) + ?k"] lt(1) unfolding e by auto
    then show ?thesis using b True by simp
  next
    case False
    have "\<not> (q \<le> p \<and> p < q + bits)"
    proof
      assume a: "q \<le> p \<and> p < q + bits"
      then have "?bo \<le> ?i" by (simp add: div_le_mono)
      moreover have "?i < ?bo + ?n" by (rule byte_below [OF q p conjunct2 [OF a] n])
      ultimately show False using False by simp
    qed
    then show ?thesis using b False by auto
  qed
qed

interpretation bp: bit_writer "bp_put required"
    "\<lambda>bits q len. bits \<le> 32 \<and> len = required \<and> q + bits \<le> 8 * len"
  by unfold_locales (simp add: bp_put_def length_bp_or_bytes Let_def, simp add: bp_put_bits)

lemma dbp_put_bits:
  assumes "bits \<le> 25" "q div 8 + 4 \<le> length buf" "\<forall>k. bit v k \<longrightarrow> k < bits" "p < 8 * length buf"
  shows "stream_bit (dbp_put bits q v buf) p
    \<longleftrightarrow> stream_bit buf p \<or> (q \<le> p \<and> p < q + bits \<and> bit v (p - q))"
proof -
  let ?bo = "q div 8" and ?bp = "q mod 8" and ?i = "p div 8" and ?k = "p mod 8"
  let ?w = "le_word (get_bytes ?bo 4 buf) OR push_bit ?bp v :: u32"
  have q: "q = 8 * ?bo + ?bp" and p: "p = 8 * ?i + ?k" by simp_all
  have lt: "?bp < 8" "?k < 8" by simp_all
  have i: "?i < length buf" using assms(4) by (simp add: less_mult_imp_div_less)
  have nth: "dbp_put bits q v buf ! ?i = (if ?bo \<le> ?i \<and> ?i < ?bo + 4
      then ucast (drop_bit (8 * (?i - ?bo)) ?w) else buf ! ?i)"
    using assms(2) i by (auto simp: dbp_put_def put_bytes_def Let_def nth_append nth_le_bytes not_less)
  show ?thesis
  proof (cases "?bo \<le> ?i \<and> ?i < ?bo + 4")
    case True
    then have j: "8 * (?i - ?bo) + ?k < 32" "(8 * (?i - ?bo) + ?k) div 8 = ?i - ?bo" using lt by (linarith, simp)
    note e = rel_bit_offset [OF conjunct1 [OF True]]
    have "stream_bit (dbp_put bits q v buf) p \<longleftrightarrow> bit ?w (8 * (?i - ?bo) + ?k)"
      using nth True lt by (simp add: stream_bit_def bit_ucast_iff bit_drop_bit_eq bit_or_iff)
    also have "\<dots> \<longleftrightarrow> stream_bit buf p \<or> bit (push_bit ?bp v) (8 * (?i - ?bo) + ?k)"
      using True j assms(2) i lt by (simp add: bit_or_iff bit_le_word stream_bit_def get_bytes_def)
    also have "bit (push_bit ?bp v) (8 * (?i - ?bo) + ?k) \<longleftrightarrow> q \<le> p \<and> p < q + bits \<and> bit v (p - q)"
      using assms(3) j(1) unfolding bit_push_bit_iff e by auto
    finally show ?thesis .
  next
    case False
    have "\<not> (q \<le> p \<and> p < q + bits)"
    proof
      assume a: "q \<le> p \<and> p < q + bits"
      then have "?bo \<le> ?i" by (simp add: div_le_mono)
      moreover have "?i < ?bo + 4"
        using assms(1) lt by (intro byte_below [OF q p conjunct2 [OF a]]) simp
      ultimately show False using False by simp
    qed
    moreover have "dbp_put bits q v buf ! ?i = buf ! ?i" using nth False by auto
    ultimately show ?thesis by (auto simp: stream_bit_def)
  qed
qed

interpretation dbp: bit_writer dbp_put "\<lambda>bits q len. bits \<le> 25 \<and> q div 8 + 4 \<le> len"
  by unfold_locales (simp add: dbp_put_def Let_def, simp add: dbp_put_bits)

section \<open>Decoding reads the stream back\<close>

lemma bp_mask_eq: "bits \<le> 32 \<Longrightarrow> bp_mask bits = mask bits"
  by (auto simp: bp_mask_def mask_eq_exp_minus_1 push_bit_eq_mult)

lemma bp_decode_loop_nth:
  assumes "j < n"
  shows "bp_decode_loop input bits q n ! j =
    ucast (drop_bit ((q + j * bits) mod 8) (bp_window input ((q + j * bits) div 8)) AND ucast (bp_mask bits))"
  using assms
proof (induction n arbitrary: q j)
  case 0
  then show ?case by simp
next
  case (Suc n)
  then show ?case by (cases j) (simp_all add: algebra_simps)
qed

lemma length_bp_decode_loop [simp]: "length (bp_decode_loop input bits q n) = n"
  by (induction n arbitrary: q) simp_all

lemma bit_bp_window:
  assumes "k < 64" "8 * bo + k < 8 * length input"
  shows "bit (bp_window input bo) k \<longleftrightarrow> stream_bit input (8 * bo + k)"
proof -
  have "k div 8 < 8" "bo + k div 8 < length input" using assms by linarith+
  moreover have "k < 8 * length (take 8 (drop bo input))" using assms by (simp add: min_def, arith)
  ultimately show ?thesis
    using assms by (simp add: bp_window_def bit_le_word stream_bit_def del: length_take)
qed

text \<open>The window that starts at a byte boundary holds every bit of the value.\<close>

lemma bp_decode_bit:
  assumes "bits \<le> 32" "p + bits \<le> 8 * length input" "k < bits"
  shows "bit (ucast (drop_bit (p mod 8) (bp_window input (p div 8)) AND ucast (bp_mask bits)) :: u32) k
    \<longleftrightarrow> stream_bit input (p + k)"
proof -
  have "p mod 8 < 8" by simp
  then have "p mod 8 + k < 64" "8 * (p div 8) + (p mod 8 + k) < 8 * length input"
    using assms by (linarith, simp add: mult_div_mod_eq add.assoc [symmetric])
  then have "bit (bp_window input (p div 8)) (p mod 8 + k) \<longleftrightarrow> stream_bit input (p + k)"
    by (simp add: bit_bp_window add.assoc [symmetric])
  then show ?thesis using assms by (simp add: bp_mask_eq bit_simps)
qed

lemma bp_decode_high:
  "bits \<le> 32 \<Longrightarrow> bits \<le> k \<Longrightarrow> \<not> bit (ucast (w AND ucast (bp_mask bits) :: u64) :: u32) k"
  by (simp add: bp_mask_eq bit_simps)

lemma and_bp_mask_bits: "bits \<le> 32 \<Longrightarrow> bit (v AND bp_mask bits) k \<longleftrightarrow> bit v k \<and> k < bits"
  using bit_imp_le_length [of v k] by (auto simp: bp_mask_eq bit_simps)

lemma stream_bit_replicate [simp]: "p < 8 * n \<Longrightarrow> \<not> stream_bit (replicate n 0) p"
  by (simp add: stream_bit_def less_mult_imp_div_less)

lemma value_end: "j < n \<Longrightarrow> j * bits + bits \<le> n * (bits :: nat)"
  by (metis Suc_leI add.commute mult_Suc mult_le_mono1)

lemma BitPackU32_roundtrip:
  assumes "0 < bits" "bits \<le> 32" "bp_max_encoded_size (length vs) bits \<le> sz"
  obtains out where "BitPackU32_encode vs bits sz = Some out" "length out = bp_max_encoded_size (length vs) bits"
    "BitPackU32_decode (out @ rest) bits (length vs) = Some (length out, map (\<lambda>v. v AND bp_mask bits) vs)"
proof -
  let ?r = "bp_max_encoded_size (length vs) bits" and ?ms = "map (\<lambda>v. v AND bp_mask bits) vs"
  let ?out = "put_all (bp_put ?r) bits 0 ?ms (replicate ?r 0)"
  have r: "?r = (length vs * bits + 7) div 8" "length vs * bits \<le> 8 * ?r"
    using assms(1) by (simp_all add: bp_max_encoded_size_def)
  have len: "length ?out = ?r" using bp.length_put_all by simp
  have fits: "\<forall>j < length ?ms. bits \<le> 32 \<and> length (replicate ?r (0::u8)) = ?r
      \<and> (0 + j * bits) + bits \<le> 8 * length (replicate ?r (0::u8))"
    using assms(2) value_end [of _ "length vs" bits] r(2) by (auto intro: order_trans)
  have small: "\<forall>v\<in>set ?ms. \<forall>k. bit v k \<longrightarrow> k < bits" using assms(2) by (simp add: and_bp_mask_bits)
  have at: "stream_bit ?out (j * bits + k) = bit (?ms ! j) k" if "j < length vs" "k < bits" for j k
    using bp.put_all_at [OF fits small, of j k] value_end [OF that(1), of bits] that r(2) by simp
  have "bp_decode_loop (?out @ rest) bits 0 (length vs) = ?ms"
  proof (rule nth_equalityI)
    show "length (bp_decode_loop (?out @ rest) bits 0 (length vs)) = length ?ms" by simp
    fix j assume "j < length (bp_decode_loop (?out @ rest) bits 0 (length vs))"
    then have j: "j < length vs" by simp
    have e: "j * bits + bits \<le> 8 * length ?out" using value_end [OF j, of bits] r(2) len by linarith
    show "bp_decode_loop (?out @ rest) bits 0 (length vs) ! j = ?ms ! j"
    proof (rule bit_word_eqI)
      fix k :: nat
      have s: "stream_bit (?out @ rest) (j * bits + k) = stream_bit ?out (j * bits + k)" if "k < bits"
        using e that by (simp add: stream_bit_def nth_append less_mult_imp_div_less)
      have "bit (bp_decode_loop (?out @ rest) bits 0 (length vs) ! j) k \<longleftrightarrow> bit (?ms ! j) k" if "k < bits"
        using bp_decode_bit [of bits "j * bits" "?out @ rest" k] that j e assms(2) s at [OF j that]
        by (simp add: bp_decode_loop_nth)
      moreover have "\<not> bit (bp_decode_loop (?out @ rest) bits 0 (length vs) ! j) k" "\<not> bit (?ms ! j) k"
        if "bits \<le> k"
        using that j assms(2) by (simp_all add: bp_decode_loop_nth bp_decode_high and_bp_mask_bits)
      ultimately show "bit (bp_decode_loop (?out @ rest) bits 0 (length vs) ! j) k = bit (?ms ! j) k"
        by (cases "k < bits") simp_all
    qed
  qed
  then show ?thesis
    using that [of ?out] assms len r by (simp add: BitPackU32_encode_def BitPackU32_decode_def Let_def)
qed

section \<open>Delta packing\<close>

lemma length_deltas [simp]: "length (deltas prev vs) = length vs"
  by (induction vs arbitrary: prev) simp_all

lemma dbp_decode_loop_deltas:
  "\<forall>j < length vs. dbp_get din bits (q + j * bits) = deltas prev vs ! j \<Longrightarrow>
   dbp_decode_loop din bits q prev (length vs) = vs"
proof (induction vs arbitrary: q prev)
  case Nil
  then show ?case by simp
next
  case (Cons v vs)
  have "dbp_get din bits q = v - prev" using Cons.prems by force
  moreover have "dbp_get din bits (q + bits + j * bits) = deltas v vs ! j" if "j < length vs" for j
    using Cons.prems that by (auto dest: spec [of _ "Suc j"] simp: algebra_simps)
  ultimately show ?case using Cons.IH [of "q + bits" v] by simp
qed

lemma dbp_get_bit:
  assumes "bits \<le> 25" "p div 8 + 4 \<le> length din"
  shows "bit (dbp_get din bits p) k \<longleftrightarrow> k < bits \<and> stream_bit din (p + k)"
proof (cases "k < bits")
  case True
  have lt: "p mod 8 < 8" by simp
  then have w: "p mod 8 + k < 32" using assms(1) True by linarith
  have "(p mod 8 + k) div 8 < 4" using w by linarith
  moreover have "p div 8 + (p mod 8 + k) div 8 = (p + k) div 8" "(p mod 8 + k) mod 8 = (p + k) mod 8"
    by (simp_all add: div_add1_eq [of p k 8] div_add1_eq [of "p mod 8" k 8] mod_add_left_eq)
  ultimately have "bit (le_word (get_bytes (p div 8) 4 din) :: u32) (p mod 8 + k) \<longleftrightarrow> stream_bit din (p + k)"
    using assms(2) w length_get_bytes [of "p div 8" 4 din]
    by (simp add: bit_le_word stream_bit_def) (simp add: get_bytes_def)
  then show ?thesis using assms True by (simp add: dbp_get_def Let_def and_bp_mask_bits bit_drop_bit_eq)
next
  case False
  then show ?thesis using assms by (simp add: dbp_get_def Let_def and_bp_mask_bits)
qed

lemma DeltaBitPackU32_roundtrip:
  assumes "0 < bits" "bits \<le> 25" "dbp_max_encoded_size (length (v0 # vs)) bits + 3 \<le> sz"
    and small: "\<forall>d\<in>set (deltas v0 vs). \<forall>k. bit d k \<longrightarrow> k < bits"
  obtains out where "DeltaBitPackU32_encode (v0 # vs) bits (replicate sz 0)
      = Some (dbp_max_encoded_size (length (v0 # vs)) bits, out)" "length out = sz"
    "map_option snd (DeltaBitPackU32_decode out bits (length (v0 # vs))) = Some (v0 # vs)"
proof (cases "vs = []")
  case True
  then show ?thesis
    using that [of "put_bytes 0 (le_bytes 4 v0) (replicate sz 0)"] assms(3)
    by (simp add: DeltaBitPackU32_encode_def DeltaBitPackU32_decode_def dbp_max_encoded_size_def
        bp_max_encoded_size_def get_put_same Let_def)
next
  case False
  let ?n = "bp_max_encoded_size (length vs) bits" and ?ds = "deltas v0 vs"
  let ?z = "replicate (sz - 4) (0::u8)"
  let ?d = "put_all dbp_put bits 0 ?ds ?z"
  have n: "length vs * bits \<le> 8 * ?n" "?n + 7 \<le> sz"
    using assms(1,3) by (simp_all add: bp_max_encoded_size_def dbp_max_encoded_size_def)
  have m: "map (\<lambda>d. d AND bp_mask bits) ?ds = ?ds"
    using small assms(2) by (intro map_idI bit_word_eqI) (auto simp: and_bp_mask_bits)
  have fits: "\<forall>j < length ?ds. bits \<le> 25 \<and> (0 + j * bits) div 8 + 4 \<le> length ?z"
  proof (intro allI impI conjI)
    fix j assume "j < length ?ds"
    then have "j * bits < 8 * ?n" using value_end [of j "length vs" bits] n(1) assms(1) by simp
    then have "j * bits div 8 < ?n" by (simp add: less_mult_imp_div_less)
    then show "(0 + j * bits) div 8 + 4 \<le> length ?z" using n(2) by simp
  qed (rule assms(2))
  have at: "dbp_get ?d bits (0 + j * bits) = ?ds ! j" if j: "j < length vs" for j
  proof (rule bit_word_eqI)
    fix k :: nat
    have "stream_bit ?d (j * bits + k) = bit (?ds ! j) k" if "k < bits"
      using dbp.put_all_at [OF fits small, of j k] value_end [OF j, of bits] j that n by simp
    moreover have "bit (dbp_get ?d bits (0 + j * bits)) k \<longleftrightarrow> k < bits \<and> stream_bit ?d (j * bits + k)"
      using dbp_get_bit [of bits "j * bits" ?d k] fits j by (simp add: dbp.length_put_all)
    moreover have "bit (?ds ! j) k \<Longrightarrow> k < bits" using small j by auto
    ultimately show "bit (dbp_get ?d bits (0 + j * bits)) k = bit (?ds ! j) k" by blast
  qed
  then have dec: "dbp_decode_loop ?d bits 0 v0 (length vs) = vs" by (intro dbp_decode_loop_deltas) simp
  have "DeltaBitPackU32_encode (v0 # vs) bits (replicate sz 0)
      = Some (dbp_max_encoded_size (length (v0 # vs)) bits, le_bytes 4 v0 @ ?d)"
    using n False m by (simp add: DeltaBitPackU32_encode_def dbp_max_encoded_size_def Let_def put_bytes_def)
  then show ?thesis
    using that [of "le_bytes 4 v0 @ ?d"] n False dec
    by (simp add: DeltaBitPackU32_decode_def Let_def dbp.length_put_all get_bytes_def)
qed

text \<open>Without spare bytes behind the packed deltas, the encoder silently drops a delta.\<close>

lemma DeltaBitPackU32_drops_delta:
  "DeltaBitPackU32_encode [0, 1] 1 (replicate (dbp_max_encoded_size 2 1) 0) = Some (5, [0, 0, 0, 0, 0])
    \<and> DeltaBitPackU32_decode [0, 0, 0, 0, 0] 1 2 = Some (5, [0, 0])"
  by code_simp

section \<open>Properties\<close>

text \<open>
  C35. Bit packing round trip: for every width from 1 to 32 the encoder needs exactly
  \<open>ceil (n * bits / 8)\<close> bytes, and decoding them, whatever follows, returns every value reduced to its
  low \<open>bits\<close> bits; values that fit the width are returned unchanged.
\<close>

theorem bitpack_roundtrip:
  assumes "0 < bits" "bits \<le> 32" "bp_max_encoded_size (length vs) bits \<le> sz"
  shows "\<exists>out. BitPackU32_encode vs bits sz = Some out
    \<and> length out = (length vs * bits + 7) div 8
    \<and> BitPackU32_decode (out @ rest) bits (length vs) = Some (length out, map (take_bit bits) vs)"
proof -
  have "map (\<lambda>v. v AND bp_mask bits) vs = map (take_bit bits) vs"
    using assms(2) by (simp add: bp_mask_eq take_bit_eq_mask)
  then show ?thesis
    using BitPackU32_roundtrip [OF assms, of rest] assms(1) by (metis bp_max_encoded_size_def not_gr_zero)
qed

theorem bitpack_roundtrip_witness:
  "\<exists>out. BitPackU32_encode [5, 2, 7] 3 2 = Some out \<and> length out = 2
    \<and> BitPackU32_decode (out @ [0xFF]) 3 3 = Some (2, [5, 2, 7])"
proof -
  have t: "map (take_bit 3) [5, 2, 7 :: u32] = [5, 2, 7]" by code_simp
  have l: "length [5, 2, 7 :: u32] = 3" by simp
  show ?thesis
    using bitpack_roundtrip [of 3 "[5, 2, 7]" 2 "[0xFF]", unfolded l t]
    by (auto simp: bp_max_encoded_size_def)
qed

text \<open>
  Delta packing round trip, under the conditions the code needs: a zeroed output buffer with three
  bytes more than \<open>max_encoded_size\<close> promises, a width of at most 25 bits and differences that fit
  it. Each condition is necessary for the four-byte windows of the code.
\<close>

theorem delta_bitpack_roundtrip:
  assumes "0 < bits" "bits \<le> 25" "dbp_max_encoded_size (length (v0 # vs)) bits + 3 \<le> sz"
    and "\<forall>d\<in>set (deltas v0 vs). unat d < 2 ^ bits"
  shows "\<exists>n out. DeltaBitPackU32_encode (v0 # vs) bits (replicate sz 0) = Some (n, out)
    \<and> n \<le> length out
    \<and> map_option snd (DeltaBitPackU32_decode out bits (length (v0 # vs))) = Some (v0 # vs)"
proof -
  have "\<forall>d\<in>set (deltas v0 vs). \<forall>k. bit d k \<longrightarrow> k < bits"
    using assms(4) unat_lt_bits by blast
  then show ?thesis
    using DeltaBitPackU32_roundtrip [OF assms(1-3)] assms(3)
    by (metis add_leD1)
qed

theorem delta_bitpack_roundtrip_witness:
  "\<exists>n out. DeltaBitPackU32_encode [10, 13, 20] 3 (replicate 8 0) = Some (n, out)
    \<and> map_option snd (DeltaBitPackU32_decode out 3 3) = Some [10, 13, 20]"
proof -
  have l: "length [10, 13, 20 :: u32] = 3" by simp
  show ?thesis
    using delta_bitpack_roundtrip [of 3 10 "[13, 20]" 8, unfolded l]
    by (auto simp: dbp_max_encoded_size_def bp_max_encoded_size_def)
qed

end
