(* ===== verification/Rle.thy ===== *)
theory Rle
  imports Endian
begin

text \<open>
  Model of \<^verbatim>\<open>include/vectortick/codec/rle.hpp\<close>. The template parameter \<open>T\<close> enters as the size of the
  type with its object representation \<open>enc\<close> and the inverse \<open>dec\<close>; the theorems are stated for every
  \<open>byte_codec\<close> and so hold at \<^verbatim>\<open>u8\<close>, the type the segment writer uses, and at the wider integers.
  The loops advance through the list of remaining values (or bytes) instead of an index.
\<close>

section \<open>Encoder\<close>

definition MaxRunLength :: nat where
  "MaxRunLength = 32767"

definition LiteralMarker :: u16 where
  "LiteralMarker = 0"

definition rle_max_encoded_size :: "nat \<Rightarrow> nat \<Rightarrow> nat" where
  "rle_max_encoded_size sizeof_T num_values = num_values * (2 + sizeof_T)"

fun rle_run :: "'a \<Rightarrow> 'a list \<Rightarrow> nat \<Rightarrow> nat" where
  "rle_run run_value [] run_length = run_length"
| "rle_run run_value (v # vs) run_length =
     (if v = run_value \<and> run_length < MaxRunLength then rle_run run_value vs (run_length + 1)
      else run_length)"

definition starts_run :: "'a list \<Rightarrow> bool" where
  "starts_run vs = (3 < length vs \<and> vs ! 0 = vs ! 1 \<and> vs ! 0 = vs ! 2 \<and> vs ! 0 = vs ! 3)"

fun rle_literals :: "'a list \<Rightarrow> nat \<Rightarrow> nat" where
  "rle_literals [] literal_count = literal_count"
| "rle_literals (v # vs) literal_count =
     (if literal_count < MaxRunLength then
        if starts_run (v # vs) then literal_count else rle_literals vs (literal_count + 1)
      else literal_count)"

definition literal_run :: "'a list \<Rightarrow> nat" where
  "literal_run values = (let literal_count = rle_literals values 0 in
     if literal_count = 0 then 1 else literal_count)"

lemma rle_run_ge: "n \<le> rle_run v vs n"
  by (induction vs arbitrary: n) (auto intro: Suc_leD)

function rle_encode_loop :: "nat \<Rightarrow> ('a \<Rightarrow> bytes) \<Rightarrow> nat \<Rightarrow> 'a list \<Rightarrow> bytes \<Rightarrow> bytes option" where
  "rle_encode_loop sizeof_T enc output_size values out =
     (case values of [] \<Rightarrow> Some out
      | v # vs \<Rightarrow>
          let run_length = rle_run v vs 1 in
          if 4 \<le> run_length then
            if output_size < length out + 2 + sizeof_T then None
            else rle_encode_loop sizeof_T enc output_size (drop run_length values)
                   (out @ write_be_u16 True (of_nat run_length) @ enc v)
          else
            let literal_count = literal_run values in
            if output_size < length out + 2 * 2 + literal_count * sizeof_T then None
            else rle_encode_loop sizeof_T enc output_size (drop literal_count values)
                   (out @ write_be_u16 True LiteralMarker @ write_be_u16 True (of_nat literal_count)
                    @ concat (map enc (take literal_count values))))"
  by pat_completeness auto
termination
proof (relation "measure (\<lambda>(_, _, _, values, _). length values)")
  fix v :: 'a and vs xs :: "'a list" and n sz osz :: nat and f :: "'a \<Rightarrow> bytes" and out
  assume "xs = v # vs" "n = rle_run v vs 1"
  then show "((sz, f, osz, drop n xs, out @ write_be_u16 True (of_nat n) @ f v), (sz, f, osz, xs, out))
      \<in> measure (\<lambda>(_, _, _, values, _). length values)"
    using rle_run_ge [of 1 v vs] by simp
qed (simp_all add: literal_run_def Let_def)

text \<open>
  The encoder returns the number of bytes written. The option is \<open>None\<close> exactly where that number is
  zero: when the output does not fit, and when there are no values.
\<close>

definition RLE_encode :: "nat \<Rightarrow> ('a \<Rightarrow> bytes) \<Rightarrow> 'a list \<Rightarrow> nat \<Rightarrow> bytes option" where
  "RLE_encode sizeof_T enc values output_size =
     (if values = [] then None else rle_encode_loop sizeof_T enc output_size values [])"

section \<open>Decoder\<close>

fun chunks :: "nat \<Rightarrow> (bytes \<Rightarrow> 'a) \<Rightarrow> nat \<Rightarrow> bytes \<Rightarrow> 'a list" where
  "chunks sizeof_T dec 0 input = []"
| "chunks sizeof_T dec (Suc n) input = dec (take sizeof_T input) # chunks sizeof_T dec n (drop sizeof_T input)"

function rle_decode_loop ::
    "nat \<Rightarrow> (bytes \<Rightarrow> 'a) \<Rightarrow> nat \<Rightarrow> nat \<Rightarrow> bytes \<Rightarrow> 'a list \<Rightarrow> (nat \<times> 'a list) option" where
  "rle_decode_loop sizeof_T dec num_values in_offset input out =
     (if length out < num_values \<and> input \<noteq> [] then
        if length input < 2 then None
        else let count = read_be_u16 True (take 2 input); input1 = drop 2 input in
          if count = LiteralMarker then
            if length input1 < 2 then None
            else let literal_count = unat (read_be_u16 True (take 2 input1)); input2 = drop 2 input1 in
              if num_values < length out + literal_count then None
              else if length input2 < literal_count * sizeof_T then None
              else rle_decode_loop sizeof_T dec num_values (in_offset + 4 + literal_count * sizeof_T)
                     (drop (literal_count * sizeof_T) input2)
                     (out @ chunks sizeof_T dec literal_count input2)
          else
            if length input1 < sizeof_T then None
            else if num_values < length out + unat count then None
            else rle_decode_loop sizeof_T dec num_values (in_offset + 2 + sizeof_T) (drop sizeof_T input1)
                   (out @ replicate (unat count) (dec (take sizeof_T input1)))
      else if length out = num_values then Some (in_offset, out) else None)"
  by pat_completeness auto
termination
  by (relation "measure (\<lambda>(_, _, _, _, input, _). length input)") auto

definition RLE_decode :: "nat \<Rightarrow> (bytes \<Rightarrow> 'a) \<Rightarrow> bytes \<Rightarrow> nat \<Rightarrow> (nat \<times> 'a list) option" where
  "RLE_decode sizeof_T dec input num_values = rle_decode_loop sizeof_T dec num_values 0 input []"

declare rle_encode_loop.simps [simp del] rle_decode_loop.simps [simp del]

section \<open>Runs and literals\<close>

lemma rle_encode_loop_Nil [simp]: "rle_encode_loop w e sz [] out = Some out"
  by (subst rle_encode_loop.simps) simp

lemma rle_encode_loop_run:
  "4 \<le> rle_run v vs 1 \<Longrightarrow> rle_encode_loop w e sz (v # vs) out =
     (if sz < length out + 2 + w then None
      else rle_encode_loop w e sz (drop (rle_run v vs 1) (v # vs))
             (out @ write_be_u16 True (of_nat (rle_run v vs 1)) @ e v))"
  by (subst rle_encode_loop.simps) (simp add: Let_def)

lemma rle_encode_loop_literals:
  "\<not> 4 \<le> rle_run v vs 1 \<Longrightarrow> l = literal_run (v # vs) \<Longrightarrow> rle_encode_loop w e sz (v # vs) out =
     (if sz < length out + 2 * 2 + l * w then None
      else rle_encode_loop w e sz (drop l (v # vs))
             (out @ write_be_u16 True LiteralMarker @ write_be_u16 True (of_nat l)
              @ concat (map e (take l (v # vs)))))"
  by (subst rle_encode_loop.simps) (simp add: Let_def)

lemma rle_run_bound: "n \<le> MaxRunLength \<Longrightarrow> rle_run v vs n \<le> MaxRunLength"
  by (induction vs arbitrary: n) simp_all

lemma take_rle_run: "take (rle_run v vs n - n) vs = replicate (rle_run v vs n - n) v \<and> rle_run v vs n - n \<le> length vs"
proof (induction vs arbitrary: n)
  case Nil
  then show ?case by simp
next
  case (Cons x vs)
  show ?case
  proof (cases "x = v \<and> n < MaxRunLength")
    case True
    have "rle_run v vs (n + 1) - n = Suc (rle_run v vs (n + 1) - (n + 1))"
      using rle_run_ge [of "n + 1" v vs] by linarith
    then show ?thesis using True Cons [of "n + 1"] by simp
  qed auto
qed

lemma rle_run_split:
  assumes "r = rle_run v vs 1"
  shows "v # vs = replicate r v @ drop r (v # vs)" "1 \<le> r" "r \<le> MaxRunLength" "r \<le> length (v # vs)"
proof -
  show "1 \<le> r" unfolding assms by (rule rle_run_ge)
  then obtain m where m: "r = Suc m" using Suc_le_D by auto
  have "take m vs = replicate m v \<and> m \<le> length vs"
    using take_rle_run [of v vs 1] m assms by simp
  then show "v # vs = replicate r v @ drop r (v # vs)" "r \<le> length (v # vs)"
    using append_take_drop_id [of m vs] by (simp_all add: m)
  show "r \<le> MaxRunLength" unfolding assms by (rule rle_run_bound) (simp add: MaxRunLength_def)
qed

lemma rle_literals_bound:
  "n \<le> MaxRunLength \<Longrightarrow> n \<le> rle_literals vs n \<and> rle_literals vs n \<le> MaxRunLength \<and> rle_literals vs n \<le> n + length vs"
  by (induction vs n rule: rle_literals.induct) auto

lemma literal_run_bound:
  "vs \<noteq> [] \<Longrightarrow> 1 \<le> literal_run vs \<and> literal_run vs \<le> MaxRunLength \<and> literal_run vs \<le> length vs"
  using rle_literals_bound [of 0 vs]
  by (cases vs) (auto simp: literal_run_def Let_def MaxRunLength_def)

lemma unat_count: "n \<le> MaxRunLength \<Longrightarrow> unat (of_nat n :: u16) = n"
  by (simp add: MaxRunLength_def unat_of_nat)

section \<open>Round trip over a byte codec\<close>

context byte_codec
begin

lemma chunks_concat: "chunks width dec (length vs) (concat (map enc vs) @ rest) = vs"
  by (induction vs) (simp_all add: length_enc dec_enc)

lemma rle_decode_run:
  assumes "1 \<le> r" "r \<le> MaxRunLength" "length out + r \<le> num"
  shows "rle_decode_loop width dec num off (write_be_u16 True (of_nat r) @ enc v @ rest) out
    = rle_decode_loop width dec num (off + 2 + width) rest (out @ replicate r v)"
proof -
  have "(of_nat r :: u16) \<noteq> 0" using unat_count [OF assms(2)] assms(1) by (metis not_one_le_zero unat_0)
  then show ?thesis
    using assms unat_count [OF assms(2)]
    by (subst rle_decode_loop.simps) (simp add: length_enc dec_enc LiteralMarker_def Let_def)
qed

lemma rle_decode_literals:
  assumes "vs \<noteq> []" "length vs \<le> MaxRunLength" "length out + length vs \<le> num"
  shows "rle_decode_loop width dec num off
      (write_be_u16 True LiteralMarker @ write_be_u16 True (of_nat (length vs)) @ concat (map enc vs) @ rest) out
    = rle_decode_loop width dec num (off + 4 + length vs * width) rest (out @ vs)"
proof -
  have "length out < num" using assms by (cases vs) simp_all
  then show ?thesis
    using assms unat_count [OF assms(2)] length_concat_enc [of vs] chunks_concat [of vs rest]
    by (subst rle_decode_loop.simps) (simp add: LiteralMarker_def Let_def mult.commute)
qed

lemma rle_decode_done: "rle_decode_loop width dec (length out) off rest out = Some (off, out)"
  by (subst rle_decode_loop.simps) simp

lemma rle_encode_loop_roundtrip:
  "rle_encode_loop width enc sz vs out = Some out' \<Longrightarrow>
   \<exists>tail. out' = out @ tail \<and> (length out \<le> sz \<longrightarrow> length out' \<le> sz) \<and>
     (\<forall>pre off. rle_decode_loop width dec (length pre + length vs) off (tail @ rest) pre
        = Some (off + length tail, pre @ vs))"
proof (induction vs arbitrary: out rule: length_induct)
  case (1 vs)
  show ?case
  proof (cases vs)
    case Nil
    then show ?thesis using "1.prems" rle_decode_done by (simp add: rle_encode_loop.simps)
  next
    case (Cons v ws)
    let ?r = "rle_run v ws 1" and ?l = "literal_run vs"
    show ?thesis
    proof (cases "4 \<le> ?r")
      case True
      let ?b = "write_be_u16 True (of_nat ?r) @ enc v"
      have enc: "rle_encode_loop width enc sz (drop ?r vs) (out @ ?b) = Some out'"
        and fit: "length (out @ ?b) \<le> sz"
        using "1.prems" rle_encode_loop_run [OF True, folded Cons]
        by (auto simp: length_enc split: if_splits)
      note r = rle_run_split [OF refl, of v ws, folded Cons]
      have "length (drop ?r vs) < length vs" using r(2) Cons by simp
      from "1.IH" [rule_format, OF this enc] obtain tail where t: "out' = (out @ ?b) @ tail"
        "length (out @ ?b) \<le> sz \<longrightarrow> length out' \<le> sz"
        "\<And>pre off. rle_decode_loop width dec (length pre + length (drop ?r vs)) off (tail @ rest) pre
          = Some (off + length tail, pre @ drop ?r vs)" by blast
      have "rle_decode_loop width dec (length pre + length vs) off ((?b @ tail) @ rest) pre
          = Some (off + length (?b @ tail), pre @ vs)" for pre off
        using rle_decode_run [OF r(2,3), of pre "length pre + length vs" off v "tail @ rest"]
          t(3) [of "pre @ replicate ?r v" "off + 2 + width"] r(1,4)
        by (simp add: length_enc)
      then show ?thesis using t fit by (intro exI [of _ "?b @ tail"]) simp
    next
      case False
      let ?b = "write_be_u16 True LiteralMarker @ write_be_u16 True (of_nat ?l) @ concat (map enc (take ?l vs))"
      have lb: "1 \<le> ?l" "?l \<le> MaxRunLength" "?l \<le> length vs" using literal_run_bound [of vs] Cons by auto
      have len: "length (concat (map enc (take ?l vs))) = ?l * width"
        using length_concat_enc [of "take ?l vs"] lb by (simp add: mult.commute)
      have enc: "rle_encode_loop width enc sz (drop ?l vs) (out @ ?b) = Some out'"
        and fit: "length (out @ ?b) \<le> sz"
        using "1.prems" rle_encode_loop_literals [OF False refl, folded Cons] len
        by (auto split: if_splits)
      have "length (drop ?l vs) < length vs" using lb by simp
      from "1.IH" [rule_format, OF this enc] obtain tail where t: "out' = (out @ ?b) @ tail"
        "length (out @ ?b) \<le> sz \<longrightarrow> length out' \<le> sz"
        "\<And>pre off. rle_decode_loop width dec (length pre + length (drop ?l vs)) off (tail @ rest) pre
          = Some (off + length tail, pre @ drop ?l vs)" by blast
      have "take ?l vs \<noteq> []" using lb Cons by auto
      then have "rle_decode_loop width dec (length pre + length vs) off ((?b @ tail) @ rest) pre
          = Some (off + length (?b @ tail), pre @ vs)" for pre off
        using rle_decode_literals [of "take ?l vs" pre "length pre + length vs" off "tail @ rest"]
          t(3) [of "pre @ take ?l vs" "off + 4 + ?l * width"] lb len
        by simp
      then show ?thesis using t fit by (intro exI [of _ "?b @ tail"]) simp
    qed
  qed
qed

lemma rle_roundtrip_codec:
  "RLE_encode width enc vs sz = Some out \<Longrightarrow>
   length out \<le> sz \<and> RLE_decode width dec (out @ rest) (length vs) = Some (length out, vs)"
  using rle_encode_loop_roundtrip [of sz vs "[]" out rest] unfolding RLE_encode_def RLE_decode_def
  by (auto dest: spec [of _ "[]"] split: if_splits)

text \<open>A buffer of four bytes and one value per input value is always large enough.\<close>

lemma rle_encode_loop_fits:
  "length out + length vs * (4 + width) \<le> sz \<Longrightarrow> rle_encode_loop width enc sz vs out \<noteq> None"
proof (induction vs arbitrary: out rule: length_induct)
  case (1 vs)
  show ?case
  proof (cases vs)
    case Nil
    then show ?thesis by (simp add: rle_encode_loop.simps)
  next
    case (Cons v ws)
    let ?r = "rle_run v ws 1" and ?l = "literal_run vs"
    note r = rle_run_split [OF refl, of v ws, folded Cons]
    have lb: "1 \<le> ?l" "?l \<le> length vs" using literal_run_bound [of vs] Cons by auto
    have len: "length (concat (map enc (take ?l vs))) = ?l * width"
      using length_concat_enc [of "take ?l vs"] lb by (simp add: mult.commute)
    have split: "length vs * (4 + width) = n * (4 + width) + length (drop n vs) * (4 + width)"
      if "n \<le> length vs" for n using that by (simp add: add_mult_distrib [symmetric])
    have n: "4 + n * width \<le> n * (4 + width)" if "1 \<le> n" for n :: nat using that by (simp add: algebra_simps)
    have "2 + width \<le> ?r * (4 + width)"
      using mult_le_mono1 [OF r(2), of "4 + width"] by (rule order_trans [rotated]) simp
    then have fr: "length out + 2 + width \<le> sz"
      "length (out @ write_be_u16 True (of_nat ?r) @ enc v) + length (drop ?r vs) * (4 + width) \<le> sz"
      using "1.prems" split [OF r(4)] by (simp_all add: length_enc)
    have fl: "length out + 2 * 2 + ?l * width \<le> sz"
      "length (out @ write_be_u16 True LiteralMarker @ write_be_u16 True (of_nat ?l)
        @ concat (map enc (take ?l vs))) + length (drop ?l vs) * (4 + width) \<le> sz"
      using "1.prems" split [OF lb(2)] n [OF lb(1)] len by simp_all
    have d: "length (drop ?r vs) < length vs" "length (drop ?l vs) < length vs" using r(2) lb Cons by simp_all
    show ?thesis
      using "1.IH" [rule_format, OF d(1) fr(2)] "1.IH" [rule_format, OF d(2) fl(2)] fr(1) fl(1) Cons
        rle_encode_loop_run [of v ws, folded Cons] rle_encode_loop_literals [OF _ refl, of v ws, folded Cons]
      by (cases "4 \<le> ?r") simp_all
  qed
qed

end

text \<open>The object representations of the integer types on a little-endian host.\<close>

definition u8_bytes :: "u8 \<Rightarrow> bytes" where
  "u8_bytes b = [b]"

definition u8_of_bytes :: "bytes \<Rightarrow> u8" where
  "u8_of_bytes bs = (case bs of [] \<Rightarrow> 0 | b # _ \<Rightarrow> b)"

interpretation u8c: byte_codec 1 u8_bytes u8_of_bytes
  by unfold_locales (simp_all add: u8_bytes_def u8_of_bytes_def)

section \<open>Properties\<close>

text \<open>
  C36. RLE round trip for the byte columns of a segment and for 64-bit values: whenever encoding
  succeeds its output fits the buffer, and decoding it, whatever follows, consumes exactly the
  encoded bytes and returns the values. For no values the encoder answers zero bytes, as it does for a
  failure, and the decoder reads nothing.
\<close>

theorem rle_roundtrip:
  "(RLE_encode 1 u8_bytes bs sz = Some out \<longrightarrow>
      length out \<le> sz \<and> RLE_decode 1 u8_of_bytes (out @ rest) (length bs) = Some (length out, bs))
   \<and> (RLE_encode 8 (write_le_u64 True) vs sz' = Some out' \<longrightarrow>
      length out' \<le> sz' \<and> RLE_decode 8 (read_le_u64 True) (out' @ rest') (length vs) = Some (length out', vs))
   \<and> RLE_encode 1 u8_bytes [] sz = None \<and> RLE_decode 1 u8_of_bytes rest 0 = Some (0, [])"
  using u8c.rle_roundtrip_codec [of bs sz out rest] le64.rle_roundtrip_codec [of True vs sz' out' rest']
  by (simp add: RLE_encode_def RLE_decode_def rle_decode_loop.simps)

theorem rle_roundtrip_witness:
  "RLE_encode 1 u8_bytes [7, 7, 7, 7, 7, 1, 2] 9 = Some [0, 5, 7, 0, 0, 0, 2, 1, 2]
    \<and> RLE_decode 1 u8_of_bytes [0, 5, 7, 0, 0, 0, 2, 1, 2] 7 = Some (9, [7, 7, 7, 7, 7, 1, 2])"
proof -
  have e: "RLE_encode 1 u8_bytes [7, 7, 7, 7, 7, 1, 2] 9 = Some [0, 5, 7, 0, 0, 0, 2, 1, 2]"
    by (simp add: RLE_encode_def rle_encode_loop.simps MaxRunLength_def literal_run_def starts_run_def
        u8_bytes_def LiteralMarker_def be_bytes_2)
  have l: "length [7, 7, 7, 7, 7, 1, 2 :: u8] = 7" "length [0, 5, 7, 0, 0, 0, 2, 1, 2 :: u8] = 9" by simp_all
  show ?thesis
    using e conjunct1 [OF rle_roundtrip [of "[7, 7, 7, 7, 7, 1, 2]" 9 "[0, 5, 7, 0, 0, 0, 2, 1, 2]" "[]"], unfolded l]
    by simp
qed

text \<open>
  The size bound: a buffer with room for four bytes of header and one value per input value is
  always enough for the byte encoder, while \<open>max_encoded_size\<close> is not: a single value does not fit
  the buffer it promises to be enough.
\<close>

theorem rle_size_bound:
  "(bs \<noteq> [] \<longrightarrow> 5 * length bs \<le> sz \<longrightarrow> RLE_encode 1 u8_bytes bs sz \<noteq> None)
    \<and> RLE_encode 1 u8_bytes [b] (rle_max_encoded_size 1 1) = None"
proof
  show "bs \<noteq> [] \<longrightarrow> 5 * length bs \<le> sz \<longrightarrow> RLE_encode 1 u8_bytes bs sz \<noteq> None"
    using u8c.rle_encode_loop_fits [of "[]" bs sz] by (simp add: RLE_encode_def mult.commute)
  show "RLE_encode 1 u8_bytes [b] (rle_max_encoded_size 1 1) = None"
    by (simp add: RLE_encode_def rle_encode_loop.simps rle_max_encoded_size_def literal_run_def
        starts_run_def MaxRunLength_def)
qed

theorem rle_size_bound_witness:
  "RLE_encode 1 u8_bytes [1, 2, 3] 15 \<noteq> None"
  using rle_size_bound [of "[1, 2, 3]" 15] by simp

end
