(* ===== verification/Dictionary.thy ===== *)
theory Dictionary
  imports Endian
begin

text \<open>
  Model of \<^verbatim>\<open>include/vectortick/codec/dictionary.hpp\<close>. The encoder is a record with the three members
  of \<^verbatim>\<open>DictionaryEncoder\<close>; the hash map is an association list, whose length is \<^verbatim>\<open>dict_map.size()\<close>. The
  type \<^verbatim>\<open>T\<close> enters as its size and its object representation. A write that does not fit makes the
  encoder return 0, here \<open>None\<close>; looking up an index outside the dictionary is a \<open>Fault\<close>.
\<close>

section \<open>DictionaryEncoder\<close>

record 'a DictionaryEncoder =
  dict_map :: "('a \<times> u32) list"
  dict_indices :: "u32 list"
  reverse_map :: "'a list"

definition dict_empty :: "'a DictionaryEncoder" where
  "dict_empty = \<lparr>dict_map = [], dict_indices = [], reverse_map = []\<rparr>"

definition dict_add :: "'a \<Rightarrow> 'a DictionaryEncoder \<Rightarrow> 'a DictionaryEncoder" where
  "dict_add v s =
     (let s1 = (case map_of (dict_map s) v of
                  None \<Rightarrow> s\<lparr>dict_map := (v, of_nat (length (dict_map s))) # dict_map s,
                            reverse_map := reverse_map s @ [v]\<rparr>
                | Some _ \<Rightarrow> s)
      in s1\<lparr>dict_indices := dict_indices s1 @ [the (map_of (dict_map s1) v)]\<rparr>)"

definition dict_build :: "'a list \<Rightarrow> 'a DictionaryEncoder" where
  "dict_build vs = fold dict_add vs dict_empty"

definition append_checked :: "nat \<Rightarrow> bytes \<Rightarrow> bytes \<Rightarrow> bytes option" where
  "append_checked output_size bs out =
     (if output_size < length out + length bs then None else Some (out @ bs))"

fun append_fields :: "nat \<Rightarrow> bytes list \<Rightarrow> bytes \<Rightarrow> bytes option" where
  "append_fields output_size [] out = Some out"
| "append_fields output_size (f # fs) out =
     Option.bind (append_checked output_size f out) (append_fields output_size fs)"

definition dict_encode :: "('a \<Rightarrow> bytes) \<Rightarrow> 'a DictionaryEncoder \<Rightarrow> nat \<Rightarrow> bytes option" where
  "dict_encode enc s output_size =
     Option.bind (append_checked output_size (write_be_u32 True (of_nat (length (reverse_map s)))) [])
      (\<lambda>out. Option.bind (append_fields output_size (map enc (reverse_map s)) out)
      (\<lambda>out. Option.bind (append_checked output_size (write_be_u32 True (of_nat (length (dict_indices s)))) out)
      (append_fields output_size (map (write_be_u32 True) (dict_indices s)))))"

section \<open>DictionaryDecoder\<close>

record 'a DictionaryDecoder =
  dec_dict :: "'a list"
  dec_indices :: "u32 list"

fun read_fields :: "nat \<Rightarrow> (bytes \<Rightarrow> 'a) \<Rightarrow> nat \<Rightarrow> nat \<Rightarrow> bytes \<Rightarrow> ('a list \<times> nat) option" where
  "read_fields sz dec 0 offset input = Some ([], offset)"
| "read_fields sz dec (Suc n) offset input =
     (if length input < offset + sz then None
      else Option.bind (read_fields sz dec n (offset + sz) input)
             (\<lambda>(vs, off). Some (dec (get_bytes offset sz input) # vs, off)))"

definition dict_decode :: "nat \<Rightarrow> (bytes \<Rightarrow> 'a) \<Rightarrow> bytes \<Rightarrow> (nat \<times> nat \<times> 'a DictionaryDecoder) option" where
  "dict_decode sz dec input =
     (if length input < 4 then None
      else let dict_size = unat (read_be_u32 True (get_bytes 0 4 input)) in
      Option.bind (read_fields sz dec dict_size 4 input) (\<lambda>(dict, offset).
        if length input < offset + 4 then None
        else let num_values = unat (read_be_u32 True (get_bytes offset 4 input)) in
        Option.bind (read_fields 4 (read_be_u32 True) num_values (offset + 4) input) (\<lambda>(ixs, offset).
          Some (offset, num_values, \<lparr>dec_dict = dict, dec_indices = ixs\<rparr>))))"

fun lookup_all :: "'a list \<Rightarrow> u32 list \<Rightarrow> 'a list outcome" where
  "lookup_all dict [] = Ok []"
| "lookup_all dict (i # ixs) =
     (if unat i < length dict
      then obind (lookup_all dict ixs) (\<lambda>vs. Ok (dict ! unat i # vs)) else Fault)"

definition dict_get_values :: "'a DictionaryDecoder \<Rightarrow> 'a list outcome" where
  "dict_get_values d = lookup_all (dec_dict d) (dec_indices d)"

section \<open>The dictionary invariant\<close>

definition dict_inv :: "'a list \<Rightarrow> 'a DictionaryEncoder \<Rightarrow> bool" where
  "dict_inv vs s \<longleftrightarrow> distinct (reverse_map s) \<and> length (dict_map s) = length (reverse_map s)
     \<and> length (reverse_map s) \<le> length vs
     \<and> set (reverse_map s) = set vs
     \<and> (\<forall>v i. map_of (dict_map s) v = Some i \<longleftrightarrow> unat i < length (reverse_map s) \<and> reverse_map s ! unat i = v)
     \<and> (\<forall>i\<in>set (dict_indices s). unat i < length (reverse_map s))
     \<and> map (\<lambda>i. reverse_map s ! unat i) (dict_indices s) = vs"

lemma dict_inv_empty: "dict_inv [] dict_empty"
  by (simp add: dict_inv_def dict_empty_def)

lemma dict_add_known:
  assumes "dict_inv vs s" "map_of (dict_map s) v = Some i"
  shows "dict_inv (vs @ [v]) (dict_add v s)"
proof -
  have "unat i < length (reverse_map s)" "reverse_map s ! unat i = v"
    using assms by (auto simp: dict_inv_def)
  moreover from this have "v \<in> set vs" using assms(1) by (metis dict_inv_def nth_mem)
  moreover have "dict_add v s = s\<lparr>dict_indices := dict_indices s @ [i]\<rparr>"
    using assms(2) by (simp add: dict_add_def)
  ultimately show ?thesis using assms(1) by (simp add: dict_inv_def insert_absorb)
qed

lemma dict_add_new:
  assumes inv: "dict_inv vs s" and new: "map_of (dict_map s) v = None" and n: "length vs + 1 < 2 ^ 32"
  shows "dict_inv (vs @ [v]) (dict_add v s)"
proof -
  let ?r = "reverse_map s" and ?n = "length (reverse_map s)"
  have len: "length (dict_map s) = ?n" "?n \<le> length vs" and map: "map (\<lambda>i. ?r ! unat i) (dict_indices s) = vs"
    using inv by (simp_all add: dict_inv_def)
  have dict: "map_of (dict_map s) w = Some i \<longleftrightarrow> unat i < ?n \<and> ?r ! unat i = w" for w i
    using inv by (simp add: dict_inv_def)
  have ixs: "unat i < ?n" if "i \<in> set (dict_indices s)" for i using inv that by (simp add: dict_inv_def)
  have u: "unat (of_nat ?n :: u32) = ?n" using len n by (simp add: unat_of_nat)
  have u': "unat i = ?n \<longleftrightarrow> i = of_nat ?n" for i :: u32 using u by (simp add: word_unat_eq_iff)
  have "v \<notin> set ?r"
  proof
    assume "v \<in> set ?r"
    then obtain k where k: "k < ?n" "?r ! k = v" by (auto simp: in_set_conv_nth)
    have "unat (of_nat k :: u32) = k" using k(1) len n by (simp add: unat_of_nat)
    then show False using dict [of v "of_nat k"] k new by simp
  qed
  moreover have "map_of ((v, of_nat ?n) # dict_map s) w = Some i \<longleftrightarrow>
      unat i < Suc ?n \<and> (?r @ [v]) ! unat i = w" for w i
    using dict [of w i] dict [of v i] new u u' [of i] \<open>v \<notin> set ?r\<close>
    by (auto simp: nth_append less_Suc_eq)
  moreover have "map (\<lambda>i. (?r @ [v]) ! unat i) (dict_indices s) = vs"
    using ixs by (subst map [symmetric]) (simp add: nth_append)
  ultimately show ?thesis
    using inv new len u ixs by (auto simp: dict_add_def dict_inv_def nth_append less_Suc_eq Let_def)
qed

lemma dict_inv_fold:
  "dict_inv vs s \<Longrightarrow> length vs + length ws < 2 ^ 32 \<Longrightarrow> dict_inv (vs @ ws) (fold dict_add ws s)"
proof (induction ws arbitrary: vs s)
  case Nil
  then show ?case by simp
next
  case (Cons w ws)
  have "dict_inv (vs @ [w]) (dict_add w s)"
    using Cons.prems dict_add_known [of vs s w] dict_add_new [of vs s w]
    by (cases "map_of (dict_map s) w") auto
  then show ?case using Cons.IH [of "vs @ [w]" "dict_add w s"] Cons.prems by simp
qed

lemma dict_build_inv: "length vs < 2 ^ 32 \<Longrightarrow> dict_inv vs (dict_build vs)"
  using dict_inv_fold [OF dict_inv_empty, of vs] by (simp add: dict_build_def)

lemma lookup_all_eq:
  "\<forall>i\<in>set ixs. unat i < length dict \<Longrightarrow> lookup_all dict ixs = Ok (map (\<lambda>i. dict ! unat i) ixs)"
  by (induction ixs) simp_all

section \<open>Encoding and decoding the dictionary\<close>

lemma append_fields_eq:
  "length out \<le> sz \<Longrightarrow> append_fields sz fs out =
     (if length out + length (concat fs) \<le> sz then Some (out @ concat fs) else None)"
  by (induction fs arbitrary: out) (auto simp: append_checked_def)

lemma dict_encode_eq:
  "dict_encode enc s sz = Some out \<Longrightarrow> length out \<le> sz \<and>
     out = write_be_u32 True (of_nat (length (reverse_map s))) @ concat (map enc (reverse_map s))
       @ write_be_u32 True (of_nat (length (dict_indices s))) @ concat (map (write_be_u32 True) (dict_indices s))"
  by (auto simp: dict_encode_def append_checked_def append_fields_eq bind_eq_Some_conv
      simp del: length_concat split: if_splits)

context byte_codec
begin

lemma read_fields_concat:
  "read_fields width dec (length vs) (length pre) (pre @ concat (map enc vs) @ rest)
     = Some (vs, length pre + width * length vs)"
proof (induction vs arbitrary: pre)
  case Nil
  then show ?case by simp
next
  case (Cons v vs)
  have "read_fields width dec (length vs) (length (pre @ enc v)) ((pre @ enc v) @ concat (map enc vs) @ rest)
      = Some (vs, length (pre @ enc v) + width * length vs)" by (rule Cons)
  then show ?case by (simp add: length_enc dec_enc get_bytes_def)
qed

end

context byte_codec
begin

lemma dict_decode_encode:
  assumes "dict_encode enc s sz = Some out"
    and "length (reverse_map s) < 2 ^ 32" "length (dict_indices s) < 2 ^ 32"
  shows "dict_decode width dec (out @ rest) = Some (length out, length (dict_indices s),
    \<lparr>dec_dict = reverse_map s, dec_indices = dict_indices s\<rparr>)"
proof -
  let ?h = "write_be_u32 True (of_nat (length (reverse_map s)))" and ?d = "concat (map enc (reverse_map s))"
  let ?m = "write_be_u32 True (of_nat (length (dict_indices s)))"
  let ?x = "concat (map (write_be_u32 True) (dict_indices s))"
  have out: "out = ?h @ ?d @ ?m @ ?x" using dict_encode_eq [OF assms(1)] by blast
  have u: "unat (of_nat (length (reverse_map s)) :: u32) = length (reverse_map s)"
    "unat (of_nat (length (dict_indices s)) :: u32) = length (dict_indices s)"
    using assms(2,3) by (simp_all add: unat_of_nat)
  have ld: "length ?d = width * length (reverse_map s)" by (rule length_concat_enc)
  have lx: "length ?x = 4 * length (dict_indices s)" by (rule be32.length_concat_enc)
  have r1: "read_fields width dec (length (reverse_map s)) 4 (out @ rest)
      = Some (reverse_map s, 4 + width * length (reverse_map s))"
    using read_fields_concat [of "reverse_map s" ?h "?m @ ?x @ rest"] out by simp
  have r2: "read_fields 4 (read_be_u32 True) (length (dict_indices s))
      (4 + width * length (reverse_map s) + 4) (out @ rest)
      = Some (dict_indices s, 4 + width * length (reverse_map s) + 4 + 4 * length (dict_indices s))"
    using be32.read_fields_concat [of True "dict_indices s" "?h @ ?d @ ?m" rest] out ld
    by (simp add: add.assoc be32.length_enc del: length_concat write_be_eq)
  have g1: "unat (read_be_u32 True (get_bytes 0 4 (out @ rest))) = length (reverse_map s)"
    using u out by (simp add: get_bytes_def del: length_concat)
  have g2: "unat (read_be_u32 True (get_bytes (4 + width * length (reverse_map s)) 4 (out @ rest)))
      = length (dict_indices s)"
    using u out ld by (simp add: get_bytes_def del: length_concat)
  have l: "length out = 4 + width * length (reverse_map s) + 4 + 4 * length (dict_indices s)"
    using out ld lx by (simp del: length_concat)
  show ?thesis
    by (simp only: dict_decode_def Let_def g1 r1 Option.bind.simps prod.case g2 r2) (simp add: l)
qed

end

section \<open>Properties\<close>

text \<open>
  C37. Dictionary round trip for 64-bit values: building, encoding and decoding returns every value
  in order without an index outside the dictionary, and the dictionary holds each distinct value
  exactly once.
\<close>

theorem dictionary_roundtrip:
  assumes "length vs < 2 ^ 32" and "dict_encode (write_le_u64 True) (dict_build vs) sz = Some out"
  shows "length out \<le> sz \<and> distinct (reverse_map (dict_build vs))
    \<and> set (reverse_map (dict_build vs)) = set vs
    \<and> (\<exists>d. dict_decode 8 (read_le_u64 True) (out @ rest) = Some (length out, length vs, d)
         \<and> dict_get_values d = Ok vs)"
proof -
  let ?s = "dict_build vs"
  have inv: "dict_inv vs ?s" by (rule dict_build_inv [OF assms(1)])
  then have ix: "\<forall>i\<in>set (dict_indices ?s). unat i < length (reverse_map ?s)"
    and map: "map (\<lambda>i. reverse_map ?s ! unat i) (dict_indices ?s) = vs"
    and len: "length (reverse_map ?s) \<le> length vs" by (simp_all add: dict_inv_def)
  have "length (dict_indices ?s) = length vs" by (subst map [symmetric]) simp
  then show ?thesis
    using le64.dict_decode_encode [OF assms(2), of rest] assms(1) len inv conjunct1 [OF dict_encode_eq [OF assms(2)]]
      lookup_all_eq [OF ix] map
    by (simp add: dict_get_values_def dict_inv_def)
qed

theorem dictionary_roundtrip_witness:
  "\<exists>out d. dict_encode (write_le_u64 True) (dict_build [9, 9, 4]) 40 = Some out
    \<and> dict_decode 8 (read_le_u64 True) (out @ []) = Some (length out, 3, d)
    \<and> dict_get_values d = Ok [9, 9, 4]"
proof -
  have e: "dict_encode (write_le_u64 True) (dict_build [9, 9, 4]) 40 \<noteq> None"
    by (simp add: dict_build_def dict_add_def dict_empty_def dict_encode_def append_checked_def)
  then obtain out where "dict_encode (write_le_u64 True) (dict_build [9, 9, 4]) 40 = Some out" by blast
  then show ?thesis
    using dictionary_roundtrip [of "[9, 9, 4]" 40 out "[]"] by (auto simp: numeral_3_eq_3)
qed

end
