(* ===== verification/Crc32c.thy ===== *)
theory Crc32c
  imports VT_Prelude
begin

text \<open>
  Model of \<^verbatim>\<open>include/vectortick/common/crc32c.hpp\<close> and \<^verbatim>\<open>src/common/crc32c.cpp\<close>. The static table and
  its flag are the record \<open>crc_state\<close>, passed through the functions that initialise it. The CRC
  instructions of the processor are outside the repository, so the accelerated paths
  \<^verbatim>\<open>compute_sse42\<close> and \<^verbatim>\<open>compute_arm\<close>, which have the same body, take them as arguments. The
  reference is the bitwise definition of the CRC (\<open>crc_bit\<close>).
\<close>

section \<open>Table and software implementation\<close>

record crc_state =
  crc_table :: "u32 list"
  crc_initialized :: bool

definition crc_uninit :: crc_state where
  "crc_uninit = \<lparr>crc_table = replicate 256 0, crc_initialized = False\<rparr>"

definition crc_bit :: "u32 \<Rightarrow> u32" where
  "crc_bit crc = (if crc AND 1 \<noteq> 0 then drop_bit 1 crc XOR 0x82F63B78 else drop_bit 1 crc)"

definition crc_init :: "crc_state \<Rightarrow> crc_state" where
  "crc_init s = (if crc_initialized s then s
     else s\<lparr>crc_table := map (\<lambda>i. (crc_bit ^^ 8) (of_nat i)) [0..<256], crc_initialized := True\<rparr>)"

definition crc_table_step :: "u32 list \<Rightarrow> u32 \<Rightarrow> u8 \<Rightarrow> u32" where
  "crc_table_step table crc b = table ! unat ((crc XOR ucast b) AND 0xFF) XOR drop_bit 8 crc"

definition compute_sw :: "crc_state \<Rightarrow> u32 \<Rightarrow> bytes \<Rightarrow> u32 \<times> crc_state" where
  "compute_sw s init_crc data =
     (let s' = (if crc_initialized s then s else crc_init s)
      in (foldl (crc_table_step (crc_table s')) init_crc data, s'))"

section \<open>Hardware paths\<close>

record crc_hw =
  hw_u64 :: "u32 \<Rightarrow> u64 \<Rightarrow> u32"
  hw_u32 :: "u32 \<Rightarrow> u32 \<Rightarrow> u32"
  hw_u16 :: "u32 \<Rightarrow> u16 \<Rightarrow> u32"
  hw_u8 :: "u32 \<Rightarrow> u8 \<Rightarrow> u32"

function compute_hw64 :: "crc_hw \<Rightarrow> u32 \<Rightarrow> bytes \<Rightarrow> u32 \<times> bytes" where
  "compute_hw64 hw crc data =
     (if 8 \<le> length data then compute_hw64 hw (hw_u64 hw crc (le_word (take 8 data))) (drop 8 data)
      else (crc, data))"
  by pat_completeness auto
termination
  by (relation "measure (\<lambda>(_, _, data). length data)") auto

definition compute_sse42 :: "crc_hw \<Rightarrow> u32 \<Rightarrow> bytes \<Rightarrow> u32" where
  "compute_sse42 hw init_crc data =
     (let (crc, data) = compute_hw64 hw init_crc data;
          (crc, data) = (if 4 \<le> length data then (hw_u32 hw crc (le_word (take 4 data)), drop 4 data)
                         else (crc, data));
          (crc, data) = (if 2 \<le> length data then (hw_u16 hw crc (le_word (take 2 data)), drop 2 data)
                         else (crc, data))
      in if 1 \<le> length data then hw_u8 hw crc (data ! 0) else crc)"

declare compute_hw64.simps [simp del]

section \<open>Dispatch\<close>

text \<open>\<open>hw\<close> is \<open>None\<close> where \<^verbatim>\<open>is_hw_supported()\<close> is false.\<close>

definition Crc32C_compute :: "crc_hw option \<Rightarrow> crc_state \<Rightarrow> u32 \<Rightarrow> bytes \<Rightarrow> u32 \<times> crc_state" where
  "Crc32C_compute hw s init_crc data =
     (if data = [] then (init_crc, s)
      else let acc = init_crc XOR 0xFFFFFFFF in
        case hw of Some h \<Rightarrow> (compute_sse42 h acc data XOR 0xFFFFFFFF, s)
        | None \<Rightarrow> (let (acc, s') = compute_sw s acc data in (acc XOR 0xFFFFFFFF, s')))"

fun crc_combine_loop :: "u32 list \<Rightarrow> nat \<Rightarrow> u32 \<Rightarrow> u32" where
  "crc_combine_loop table 0 result = result"
| "crc_combine_loop table (Suc n) result =
     crc_combine_loop table n (drop_bit 8 result XOR table ! unat (result AND 0xFF))"

definition Crc32C_combine :: "crc_state \<Rightarrow> u32 \<Rightarrow> u32 \<Rightarrow> nat \<Rightarrow> u32" where
  "Crc32C_combine s crc_a crc_b len_b =
     (if len_b = 0 then crc_a else crc_combine_loop (crc_table s) len_b crc_a XOR crc_b)"

text \<open>The value every caller of \<^verbatim>\<open>crc32c(init, data, length)\<close> obtains.\<close>

definition crc32c_from :: "u32 \<Rightarrow> bytes \<Rightarrow> u32" where
  "crc32c_from init_crc data = fst (Crc32C_compute None crc_uninit init_crc data)"

definition crc32c :: "bytes \<Rightarrow> u32" where
  "crc32c data = crc32c_from 0 data"

section \<open>The bitwise reference\<close>

definition crc_byte :: "u32 \<Rightarrow> u8 \<Rightarrow> u32" where
  "crc_byte crc b = (crc_bit ^^ 8) (crc XOR ucast b)"

definition crc_ref :: "u32 \<Rightarrow> bytes \<Rightarrow> u32" where
  "crc_ref crc data = foldl crc_byte crc data"

lemma xor_cancel_left: "(a :: 'a::len word) XOR b = a XOR c \<longleftrightarrow> b = c"
  by (metis xor.assoc xor_self_eq xor.left_neutral)

lemma xor_cancel_right: "(a :: 'a::len word) XOR c = b XOR c \<longleftrightarrow> a = b"
  by (metis xor.commute xor_cancel_left)

lemma xor_twice [simp]: "((a :: 'a::len word) XOR c) XOR c = a"
  by (simp add: xor.assoc)

lemma and_1_eq: "(w :: 'a::len word) AND 1 = (if bit w 0 then 1 else 0)"
  by (simp add: and_one_eq bit_0 mod_2_eq_odd)

lemma crc_bit_eq: "crc_bit c = drop_bit 1 c XOR (if bit c 0 then 0x82F63B78 else 0)"
  by (simp add: crc_bit_def and_1_eq)

lemma crc_bit_xor: "crc_bit (a XOR b) = crc_bit a XOR crc_bit b"
proof -
  have "drop_bit 1 (a XOR b) = drop_bit 1 a XOR drop_bit 1 b"
    by (rule bit_word_eqI) (simp add: bit_simps)
  then show ?thesis unfolding crc_bit_eq by (simp add: bit_xor_iff xor.assoc xor.left_commute xor.commute)
qed

lemma crc_bits_xor: "(crc_bit ^^ n) (a XOR b) = (crc_bit ^^ n) a XOR (crc_bit ^^ n) b"
  by (induction n) (simp_all add: crc_bit_xor)

lemma crc_bits_high: "take_bit n h = 0 \<Longrightarrow> (crc_bit ^^ n) h = drop_bit n h"
proof (induction n)
  case 0
  then show ?case by simp
next
  case (Suc n)
  have "take_bit n (take_bit (Suc n) h) = 0" using Suc.prems by simp
  then have "take_bit n h = 0" by simp
  moreover have "\<not> bit h n"
  proof
    assume "bit h n"
    then have "bit (take_bit (Suc n) h) n" by (simp add: bit_take_bit_iff)
    then show False using Suc.prems by simp
  qed
  ultimately show ?case using Suc.IH by (simp add: crc_bit_eq bit_drop_bit_eq del: drop_bit_Suc)
qed

lemma crc_bits_table: "(crc_bit ^^ 8) c = (crc_bit ^^ 8) (c AND 0xFF) XOR drop_bit 8 c"
proof -
  have c: "c = (c AND 0xFF) XOR push_bit 8 (drop_bit 8 c)"
    unfolding mask_0xFF by (rule bit_word_eqI) (auto simp: bit_simps)
  have "(crc_bit ^^ 8) (push_bit 8 (drop_bit 8 c)) = drop_bit 8 (push_bit 8 (drop_bit 8 c))"
    by (rule crc_bits_high) (rule bit_word_eqI, simp add: bit_simps)
  also have "\<dots> = drop_bit 8 c" by (rule bit_word_eqI) (auto simp: bit_simps dest: bit_imp_le_length)
  finally show ?thesis using crc_bits_xor [of 8 "c AND 0xFF" "push_bit 8 (drop_bit 8 c)"] c by simp
qed

text \<open>The invariant of the static state: a set flag means the table is filled in.\<close>

definition crc_ok :: "crc_state \<Rightarrow> bool" where
  "crc_ok s \<longleftrightarrow> (crc_initialized s \<longrightarrow> crc_table s = map (\<lambda>i. (crc_bit ^^ 8) (of_nat i)) [0..<256])"

lemma crc_ok_uninit [simp]: "crc_ok crc_uninit"
  by (simp add: crc_ok_def crc_uninit_def)

lemma crc_ok_init: "crc_ok s \<Longrightarrow> crc_ok (crc_init s) \<and> crc_initialized (crc_init s)"
  by (simp add: crc_ok_def crc_init_def)

lemma unat_and_0xFF: "unat (c AND 0xFF :: u32) < 256"
  using word_and_le1 [of c "0xFF"] by (simp add: word_le_nat_alt and.commute)

lemma crc_table_lookup:
  assumes "crc_ok s" "crc_initialized s"
  shows "crc_table s ! unat (c AND 0xFF) = (crc_bit ^^ 8) (c AND 0xFF)"
proof -
  show ?thesis using assms unat_and_0xFF [of c] by (simp add: crc_ok_def)
qed

lemma crc_table_step_eq:
  assumes "crc_ok s" "crc_initialized s"
  shows "crc_table_step (crc_table s) c b = crc_byte c b"
proof -
  have "drop_bit 8 (c XOR ucast b) = drop_bit 8 c"
    by (rule bit_word_eqI) (auto simp: bit_simps dest: bit_imp_le_length)
  then show ?thesis
    unfolding crc_table_step_def crc_table_lookup [OF assms] crc_byte_def
    by (subst (2) crc_bits_table) simp
qed

lemma compute_sw_eq:
  assumes "crc_ok s"
  shows "fst (compute_sw s c data) = crc_ref c data \<and> crc_ok (snd (compute_sw s c data))
    \<and> crc_initialized (snd (compute_sw s c data))"
proof -
  define s' where "s' = (if crc_initialized s then s else crc_init s)"
  have s': "crc_ok s'" "crc_initialized s'" using assms crc_ok_init by (auto simp: s'_def)
  have "crc_table_step (crc_table s') = crc_byte"
    by (intro ext) (rule crc_table_step_eq [OF s'])
  then show ?thesis using s' by (simp add: compute_sw_def s'_def [symmetric] crc_ref_def Let_def)
qed

section \<open>Bytes at a time and words at a time\<close>

lemma crc_ref_simps [simp]: "crc_ref c [] = c" "crc_ref c (b # bs) = crc_ref (crc_byte c b) bs"
  "crc_ref c (xs @ ys) = crc_ref (crc_ref c xs) ys"
  by (simp_all add: crc_ref_def)

text \<open>Up to four bytes are absorbed at once, by one exclusive or and one step per bit.\<close>

lemma crc_ref_le_word:
  "length bs \<le> 4 \<Longrightarrow> crc_ref c bs = (crc_bit ^^ (8 * length bs)) (c XOR le_word bs)"
proof (induction bs arbitrary: c)
  case Nil
  then show ?case by simp
next
  case (Cons b bs)
  have "(crc_bit ^^ 8) (push_bit 8 (le_word bs)) = drop_bit 8 (push_bit 8 (le_word bs :: u32))"
    by (rule crc_bits_high) (rule bit_word_eqI, simp add: bit_simps)
  also have "\<dots> = le_word bs"
    using Cons.prems by (intro bit_word_eqI) (auto simp: bit_simps bit_le_word)
  finally have h: "(crc_bit ^^ 8) (push_bit 8 (le_word bs)) = (le_word bs :: u32)" .
  have w: "c XOR le_word (b # bs) = (c XOR ucast b) XOR push_bit 8 (le_word bs)"
    by (rule bit_word_eqI) (auto simp: bit_simps dest: bit_imp_le_length)
  have "crc_ref c (b # bs) = (crc_bit ^^ (8 * length bs)) ((crc_bit ^^ 8) (c XOR ucast b) XOR le_word bs)"
    using Cons by (simp add: crc_byte_def)
  also have "\<dots> = (crc_bit ^^ (8 * length bs)) ((crc_bit ^^ 8) (c XOR le_word (b # bs)))"
    unfolding w crc_bits_xor [of 8 "c XOR ucast b"] h ..
  also have "\<dots> = (crc_bit ^^ (8 * length bs + 8)) (c XOR le_word (b # bs))"
    by (simp only: funpow_add o_apply)
  finally show ?case by (simp add: add.commute)
qed

section \<open>Linearity and injectivity\<close>

lemma crc_byte_xor: "crc_byte (a XOR d) b = crc_byte a b XOR (crc_bit ^^ 8) d"
  by (simp add: crc_byte_def crc_bits_xor ac_simps)

lemma crc_ref_xor: "crc_ref (a XOR d) bs = crc_ref a bs XOR (crc_bit ^^ (8 * length bs)) d"
proof (induction bs arbitrary: a d)
  case Nil
  then show ?case by simp
next
  case (Cons b bs)
  have "8 * length (b # bs) = 8 * length bs + 8" by simp
  then have "(crc_bit ^^ (8 * length (b # bs))) d = (crc_bit ^^ (8 * length bs)) ((crc_bit ^^ 8) d)"
    by (simp only: funpow_add o_apply)
  then show ?case by (simp only: crc_ref_simps crc_byte_xor Cons)
qed

lemma bit_poly_31: "bit (0x82F63B78 :: u32) 31"
  by code_simp

lemma crc_bit_inject: "crc_bit a = crc_bit b \<Longrightarrow> a = b"
proof -
  assume e: "crc_bit a = crc_bit b"
  have top: "bit (crc_bit c) 31 = bit c 0" for c
    using bit_poly_31 bit_imp_le_length [of c 32] by (auto simp: crc_bit_eq bit_xor_iff bit_drop_bit_eq)
  have 0: "bit a 0 = bit b 0" using top [of a] top [of b] e by simp
  then have d: "drop_bit 1 a = drop_bit 1 b" using e by (simp add: crc_bit_eq xor_cancel_right)
  show ?thesis
  proof (rule bit_word_eqI)
    fix k show "bit a k = bit b k"
      using 0 arg_cong [OF d, of "\<lambda>w. bit w (k - 1)"] by (cases k) (simp_all add: bit_simps)
  qed
qed

lemma crc_bits_inject: "(crc_bit ^^ n) a = (crc_bit ^^ n) b \<Longrightarrow> a = b"
  by (induction n) (auto dest: crc_bit_inject)

lemma crc_ref_inject_state: "crc_ref a bs = crc_ref b bs \<Longrightarrow> a = b"
  unfolding crc_ref_def crc_byte_def
proof (induction bs arbitrary: a b)
  case (Cons x bs)
  then have "(crc_bit ^^ 8) (a XOR ucast x) = (crc_bit ^^ 8) (b XOR ucast x)" by simp
  then show ?case by (metis crc_bits_inject xor.commute xor_cancel_left)
qed simp

lemma crc_ref_inject_burst:
  assumes "crc_ref a xs = crc_ref a ys" "length xs = length ys" "length xs \<le> 4"
  shows "xs = ys"
proof -
  have "(crc_bit ^^ (8 * length xs)) (a XOR le_word xs) = (crc_bit ^^ (8 * length xs)) (a XOR le_word ys)"
    using assms by (simp add: crc_ref_le_word)
  then have "(le_word xs :: u32) = le_word ys" using crc_bits_inject xor_cancel_left by metis
  then have "le_bytes (length xs) (le_word xs :: u32) = le_bytes (length xs) (le_word ys :: u32)" by simp
  then show ?thesis using assms(2,3) by simp
qed

section \<open>The checksum interface\<close>

text \<open>
  What the frame, segment and journal formats rely on: the checksum can be computed piecewise, and
  a change confined to four consecutive bytes never goes unnoticed.
\<close>

locale checksum =
  fixes update :: "u32 \<Rightarrow> bytes \<Rightarrow> u32"
  assumes update_append: "update c (xs @ ys) = update (update c xs) ys"
    and update_inject_state: "update a xs = update b xs \<Longrightarrow> a = b"
    and update_inject_burst: "update a xs = update a ys \<Longrightarrow> length xs = length ys \<Longrightarrow> length xs \<le> 4 \<Longrightarrow> xs = ys"
begin

lemma detects_burst:
  assumes "length xs = length ys" "length xs \<le> 4" "xs \<noteq> ys"
  shows "update c (pre @ xs @ post) \<noteq> update c (pre @ ys @ post)"
  using assms update_inject_state update_inject_burst by (metis update_append)

lemma update_Nil: "update c [] = c"
  using update_append [of c "[]" "[]"] update_inject_state by fastforce

lemma piecewise: "foldl update c parts = update c (concat parts)"
  by (induction parts arbitrary: c) (simp_all add: update_append update_Nil)

end

lemma crc32c_from_eq: "crc32c_from c data = crc_ref (c XOR 0xFFFFFFFF) data XOR 0xFFFFFFFF"
  using compute_sw_eq [of crc_uninit "c XOR 0xFFFFFFFF" data]
  by (auto simp: crc32c_from_def Crc32C_compute_def Let_def xor.assoc split: prod.split)

interpretation crc: checksum crc32c_from
proof
  show "crc32c_from c (xs @ ys) = crc32c_from (crc32c_from c xs) ys" for c xs ys
    by (simp add: crc32c_from_eq)
  show "crc32c_from a xs = crc32c_from b xs \<Longrightarrow> a = b" for a b xs
    unfolding crc32c_from_eq xor_cancel_right by (drule crc_ref_inject_state) (simp add: xor_cancel_right)
  show "crc32c_from a xs = crc32c_from a ys \<Longrightarrow> length xs = length ys \<Longrightarrow> length xs \<le> 4 \<Longrightarrow> xs = ys"
    for a xs ys unfolding crc32c_from_eq xor_cancel_right by (rule crc_ref_inject_burst)
qed

section \<open>Hardware acceleration\<close>

text \<open>
  The documented behaviour of the CRC instructions: one instruction absorbs the bytes of its operand,
  least significant first.
\<close>

definition crc_hw_ok :: "crc_hw \<Rightarrow> bool" where
  "crc_hw_ok hw \<longleftrightarrow> (\<forall>c v. hw_u64 hw c v = crc_ref c (le_bytes 8 v)) \<and> (\<forall>c v. hw_u32 hw c v = crc_ref c (le_bytes 4 v))
     \<and> (\<forall>c v. hw_u16 hw c v = crc_ref c (le_bytes 2 v)) \<and> (\<forall>c v. hw_u8 hw c v = crc_ref c [v])"

lemma compute_hw64_eq:
  "crc_hw_ok hw \<Longrightarrow> crc_ref (fst (compute_hw64 hw c data)) (snd (compute_hw64 hw c data)) = crc_ref c data
     \<and> length (snd (compute_hw64 hw c data)) < 8"
proof (induction hw c data rule: compute_hw64.induct)
  case (1 hw c data)
  show ?case
  proof (cases "8 \<le> length data")
    case True
    have "crc_ref (hw_u64 hw c (le_word (take 8 data))) (drop 8 data) = crc_ref c (take 8 data @ drop 8 data)"
      unfolding crc_ref_simps using 1(2) True by (simp add: crc_hw_ok_def del: append_take_drop_id)
    then show ?thesis using 1 True by (subst (1 2 3) compute_hw64.simps) simp
  next
    case False
    then show ?thesis by (subst (1 2 3) compute_hw64.simps) simp
  qed
qed

lemma crc_ref_absorb:
  "n \<le> length data \<Longrightarrow> crc_ref (crc_ref c (take n data)) (drop n data) = crc_ref c data"
  by (metis append_take_drop_id crc_ref_simps(3))

lemma compute_sse42_eq:
  assumes "crc_hw_ok hw"
  shows "compute_sse42 hw c data = crc_ref c data"
proof -
  obtain c1 d1 where e: "compute_hw64 hw c data = (c1, d1)" by fastforce
  have 1: "crc_ref c1 d1 = crc_ref c data" "length d1 < 8"
    using compute_hw64_eq [OF assms, of c data] e by simp_all
  define c2 d2 where "c2 = (if 4 \<le> length d1 then hw_u32 hw c1 (le_word (take 4 d1)) else c1)"
    and "d2 = (if 4 \<le> length d1 then drop 4 d1 else d1)"
  have 2: "crc_ref c2 d2 = crc_ref c data" "length d2 < 4"
    using 1 assms by (auto simp: c2_def d2_def crc_hw_ok_def crc_ref_absorb)
  define c3 d3 where "c3 = (if 2 \<le> length d2 then hw_u16 hw c2 (le_word (take 2 d2)) else c2)"
    and "d3 = (if 2 \<le> length d2 then drop 2 d2 else d2)"
  have 3: "crc_ref c3 d3 = crc_ref c data" "length d3 < 2"
    using 2 assms by (auto simp: c3_def d3_def crc_hw_ok_def crc_ref_absorb)
  have "compute_sse42 hw c data = (if 1 \<le> length d3 then hw_u8 hw c3 (d3 ! 0) else c3)"
    by (simp add: compute_sse42_def e c2_def d2_def c3_def d3_def)
  also have "\<dots> = crc_ref c3 d3"
    using 3(2) assms by (cases d3) (auto simp: crc_hw_ok_def less_Suc_eq)
  finally show ?thesis using 3(1) by simp
qed

lemma crc_combine_loop_eq:
  assumes "crc_ok s" "crc_initialized s"
  shows "crc_combine_loop (crc_table s) n c = (crc_bit ^^ (8 * n)) c"
proof (induction n arbitrary: c)
  case 0
  then show ?case by simp
next
  case (Suc n)
  have "drop_bit 8 c XOR crc_table s ! unat (c AND 0xFF) = (crc_bit ^^ 8) c"
    unfolding crc_table_lookup [OF assms] by (subst (2) crc_bits_table) (rule xor.commute)
  moreover have "8 * Suc n = 8 * n + 8" by simp
  ultimately show ?case using Suc by (simp only: crc_combine_loop.simps funpow_add o_apply)
qed

section \<open>Properties\<close>

text \<open>
  C32. Every implementation computes the same CRC32C: started in a consistent state, the table-driven
  software path and the accelerated path, on instructions that behave as documented, both return the
  bitwise reference value; the static table stays consistent.
\<close>

theorem crc_compute_reference:
  assumes "crc_ok s" "\<forall>h. hw = Some h \<longrightarrow> crc_hw_ok h"
  shows "fst (Crc32C_compute hw s c data) = crc_ref (c XOR 0xFFFFFFFF) data XOR 0xFFFFFFFF
    \<and> crc_ok (snd (Crc32C_compute hw s c data))"
  using assms compute_sw_eq [OF assms(1), of "c XOR 0xFFFFFFFF" data]
  by (cases hw) (auto simp: Crc32C_compute_def compute_sse42_eq Let_def split: prod.split)

theorem crc_compute_reference_witness:
  "fst (Crc32C_compute (Some \<lparr>hw_u64 = \<lambda>c v. crc_ref c (le_bytes 8 v), hw_u32 = \<lambda>c v. crc_ref c (le_bytes 4 v),
      hw_u16 = \<lambda>c v. crc_ref c (le_bytes 2 v), hw_u8 = \<lambda>c v. crc_ref c [v]\<rparr>) crc_uninit 0 [1, 2, 3])
    = fst (Crc32C_compute None crc_uninit 0 [1, 2, 3])"
proof -
  let ?h = "\<lparr>hw_u64 = \<lambda>c v. crc_ref c (le_bytes 8 v), hw_u32 = \<lambda>c v. crc_ref c (le_bytes 4 v),
      hw_u16 = \<lambda>c v. crc_ref c (le_bytes 2 v), hw_u8 = \<lambda>c v. crc_ref c [v]\<rparr>"
  have "crc_hw_ok ?h" by (simp add: crc_hw_ok_def)
  then show ?thesis
    using crc_compute_reference [of crc_uninit "Some ?h" 0 "[1, 2, 3]"]
      crc_compute_reference [of crc_uninit None 0 "[1, 2, 3]"] by simp
qed

text \<open>
  C33. Error detection: replacing up to four consecutive bytes anywhere in the data changes the
  CRC32C, and the CRC of a concatenation is computed piecewise.
\<close>

theorem crc_detects_burst:
  "(length xs = length ys \<and> length xs \<le> 4 \<and> xs \<noteq> ys \<longrightarrow>
      crc32c (pre @ xs @ post) \<noteq> crc32c (pre @ ys @ post))
   \<and> crc32c (pre @ post) = crc32c_from (crc32c pre) post"
  using crc.detects_burst [of xs ys 0 pre post] crc.update_append [of 0 pre post]
  by (simp add: crc32c_def)

theorem crc_detects_burst_witness:
  "crc32c ([1, 2] @ [3] @ [4]) \<noteq> crc32c ([1, 2] @ [7] @ [4])"
proof -
  have "length [3::u8] = length [7::u8] \<and> length [3::u8] \<le> 4 \<and> [3::u8] \<noteq> [7]" by simp
  then show ?thesis using crc_detects_burst [of "[3]" "[7]" "[1, 2]" "[4]"] by blast
qed

text \<open>
  Combining checksums: once the table is initialised, \<open>combine\<close> computes the CRC of a
  concatenation from the CRCs of its parts and the length of the second one.
\<close>

theorem crc_combine_correct:
  assumes "crc_ok s" "crc_initialized s"
  shows "Crc32C_combine s (crc32c xs) (crc32c ys) (length ys) = crc32c (xs @ ys)"
proof -
  have "crc_ref (crc32c xs XOR 0xFFFFFFFF) ys
      = crc_ref 0xFFFFFFFF ys XOR (crc_bit ^^ (8 * length ys)) (crc32c xs)"
    using crc_ref_xor [of "0xFFFFFFFF" "crc32c xs" ys] by (simp add: xor.commute)
  then show ?thesis
    using crc_combine_loop_eq [OF assms, of "length ys" "crc32c xs"] crc.update_append [of 0 xs ys]
    by (auto simp: Crc32C_combine_def crc32c_def crc32c_from_eq ac_simps)
qed

theorem crc_combine_correct_witness:
  "Crc32C_combine (crc_init crc_uninit) (crc32c [1]) (crc32c [2, 3]) 2 = crc32c [1, 2, 3]"
  using crc_combine_correct [of "crc_init crc_uninit" "[1]" "[2, 3]"] crc_ok_init [of crc_uninit]
  by (simp add: numeral_2_eq_2)

text \<open>Before the first checksum the table is zero, and combining then ignores the first operand.\<close>

lemma crc_combine_uninit: "Crc32C_combine crc_uninit a b 4 = b"
proof -
  have "replicate 256 (0::u32) ! unat (c AND 0xFF) = 0" for c :: u32
    using unat_and_0xFF [of c] by simp
  then have "crc_combine_loop (replicate 256 0) n c = drop_bit (8 * n) c" for n c
    by (induction n arbitrary: c) (simp_all add: drop_bit_drop_bit add.commute)
  moreover have "drop_bit 32 a = 0" by (rule bit_word_eqI) (auto simp: bit_simps dest: bit_imp_le_length)
  ultimately show ?thesis by (simp add: Crc32C_combine_def crc_uninit_def)
qed

end
