(* ===== verification/Event_Model.thy ===== *)
theory Event_Model
  imports VT_Prelude
begin

text \<open>
  Model of the canonical event of \<^verbatim>\<open>include/vectortick/common/types.hpp\<close> and of the helpers of
  \<^verbatim>\<open>include/vectortick/model/event.hpp\<close>. \<^verbatim>\<open>EventType\<close> and \<^verbatim>\<open>Side\<close> are enumerations over a byte that the
  code obtains by casting raw bytes, so they are bytes here, with a name for each enumerator.
\<close>

section \<open>Types and limits\<close>

abbreviation Quote :: u8 where "Quote \<equiv> 0"
abbreviation Trade :: u8 where "Trade \<equiv> 1"
abbreviation BookDelta :: u8 where "BookDelta \<equiv> 2"
abbreviation StatusEvent :: u8 where "StatusEvent \<equiv> 3"
abbreviation Heartbeat :: u8 where "Heartbeat \<equiv> 4"
abbreviation InvalidEvent :: u8 where "InvalidEvent \<equiv> 255"

abbreviation Bid :: u8 where "Bid \<equiv> 0"
abbreviation Ask :: u8 where "Ask \<equiv> 1"
abbreviation InvalidSide :: u8 where "InvalidSide \<equiv> 255"

record CanonicalEvent =
  exchange_ts_ns :: u64
  receive_ts_ns :: u64
  sequence :: u64
  instrument_id :: u32
  event_type :: u8
  side :: u8
  flags :: u16
  price_ticks :: i64
  quantity :: u32
  venue_id :: u16
  source_id :: u16
  trade_or_order_id :: u64

definition is_valid :: "CanonicalEvent \<Rightarrow> bool" where
  "is_valid e =
     (if event_type e = InvalidEvent then False
      else if side e = InvalidSide \<and> event_type e \<noteq> Heartbeat then False else True)"

definition MaxPayloadLength :: nat where "MaxPayloadLength = 65535"
definition MaxInstruments :: nat where "MaxInstruments = 16384"
definition MaxVenues :: nat where "MaxVenues = 256"
definition MaxSources :: nat where "MaxSources = 256"
definition MaxTimestamp :: u64 where "MaxTimestamp = 2534023007990000000"
definition MaxPrice :: int where "MaxPrice = 1000000000000"
definition MaxQuantity :: u32 where "MaxQuantity = 1000000000"

section \<open>Validation\<close>

definition event_validate :: "CanonicalEvent \<Rightarrow> unit outcome" where
  "event_validate e =
     (if Heartbeat < event_type e then Err InvalidPayload
      else if event_type e \<noteq> Heartbeat \<and> Ask < side e then Err InvalidPayload
      else if MaxTimestamp < exchange_ts_ns e then Err InvalidTimestamp
      else if MaxTimestamp < receive_ts_ns e then Err InvalidTimestamp
      else if MaxInstruments \<le> unat (instrument_id e) then Err InvalidPayload
      else if sint (price_ticks e) < - MaxPrice \<or> MaxPrice < sint (price_ticks e) then Err InvalidPayload
      else if MaxQuantity < quantity e then Err InvalidPayload
      else if MaxVenues \<le> unat (venue_id e) then Err InvalidPayload
      else if MaxSources \<le> unat (source_id e) then Err InvalidPayload
      else Ok ())"

section \<open>Constructors, comparison and hash\<close>

definition event_equal :: "CanonicalEvent \<Rightarrow> CanonicalEvent \<Rightarrow> bool" where
  "event_equal a b = (a = b)"

definition make_empty_event :: CanonicalEvent where
  "make_empty_event = \<lparr>exchange_ts_ns = 0, receive_ts_ns = 0, sequence = 0, instrument_id = 0,
     event_type = InvalidEvent, side = InvalidSide, flags = 0, price_ticks = 0, quantity = 0,
     venue_id = 0, source_id = 0, trade_or_order_id = 0\<rparr>"

definition make_heartbeat :: "u64 \<Rightarrow> u32 \<Rightarrow> CanonicalEvent" where
  "make_heartbeat ts_ns source = \<lparr>exchange_ts_ns = ts_ns, receive_ts_ns = ts_ns, sequence = 0,
     instrument_id = 0, event_type = Heartbeat, side = InvalidSide, flags = 0, price_ticks = 0,
     quantity = 0, venue_id = 0, source_id = ucast source, trade_or_order_id = 0\<rparr>"

definition make_trade :: "u64 \<Rightarrow> u64 \<Rightarrow> u64 \<Rightarrow> u32 \<Rightarrow> u8 \<Rightarrow> i64 \<Rightarrow> u32 \<Rightarrow> u64 \<Rightarrow> u16 \<Rightarrow> u16 \<Rightarrow> CanonicalEvent" where
  "make_trade exchange_ts receive_ts seq inst sd price qty trade_id venue source =
     \<lparr>exchange_ts_ns = exchange_ts, receive_ts_ns = receive_ts, sequence = seq, instrument_id = inst,
      event_type = Trade, side = sd, flags = 0, price_ticks = price, quantity = qty, venue_id = venue,
      source_id = source, trade_or_order_id = trade_id\<rparr>"

definition make_quote :: "u64 \<Rightarrow> u64 \<Rightarrow> u64 \<Rightarrow> u32 \<Rightarrow> u8 \<Rightarrow> i64 \<Rightarrow> u32 \<Rightarrow> u64 \<Rightarrow> u16 \<Rightarrow> u16 \<Rightarrow> CanonicalEvent" where
  "make_quote exchange_ts receive_ts seq inst sd price qty order_id venue source =
     \<lparr>exchange_ts_ns = exchange_ts, receive_ts_ns = receive_ts, sequence = seq, instrument_id = inst,
      event_type = Quote, side = sd, flags = 0, price_ticks = price, quantity = qty, venue_id = venue,
      source_id = source, trade_or_order_id = order_id\<rparr>"

text \<open>
  \<^verbatim>\<open>compute_hash\<close> mixes the values of \<^verbatim>\<open>std::hash\<close>, which the standard library leaves to the
  implementation; its instances at 64 and 32 bits are arguments.
\<close>

definition hash_mix :: "u64 \<Rightarrow> u64 \<Rightarrow> u64" where
  "hash_mix h x = h XOR (x + 0x9e3779b9 + push_bit 6 h + drop_bit 2 h)"

definition compute_hash :: "(u64 \<Rightarrow> u64) \<Rightarrow> (u32 \<Rightarrow> u64) \<Rightarrow> CanonicalEvent \<Rightarrow> bytes" where
  "compute_hash hash64 hash32 e =
     (let h1 = hash64 (exchange_ts_ns e);
          h1 = hash_mix h1 (hash64 (receive_ts_ns e));
          h1 = hash_mix h1 (hash64 (sequence e));
          h1 = hash_mix h1 (hash32 (instrument_id e));
          h2 = hash64 (price_ticks e);
          h2 = hash_mix h2 (hash32 (quantity e));
          h2 = hash_mix h2 (hash64 (trade_or_order_id e))
      in le_bytes 8 h1 @ le_bytes 8 h2 @ le_bytes 8 h1 @ le_bytes 8 h2)"

section \<open>What validation guarantees\<close>

lemmas event_limits = MaxPayloadLength_def MaxInstruments_def MaxVenues_def MaxSources_def
  MaxTimestamp_def MaxPrice_def MaxQuantity_def

definition event_ok :: "CanonicalEvent \<Rightarrow> bool" where
  "event_ok e \<longleftrightarrow> event_type e \<le> Heartbeat \<and> (event_type e = Heartbeat \<or> side e \<le> Ask)
     \<and> exchange_ts_ns e \<le> MaxTimestamp \<and> receive_ts_ns e \<le> MaxTimestamp
     \<and> unat (instrument_id e) < MaxInstruments \<and> \<bar>sint (price_ticks e)\<bar> \<le> MaxPrice
     \<and> quantity e \<le> MaxQuantity \<and> unat (venue_id e) < MaxVenues \<and> unat (source_id e) < MaxSources"

lemma event_validate_iff: "event_validate e = Ok () \<longleftrightarrow> event_ok e"
  by (auto simp: event_validate_def event_ok_def not_less abs_le_iff)

lemma event_validate_not_Fault [simp]: "event_validate e \<noteq> Fault"
  by (simp add: event_validate_def)

lemma byte_le_cases:
  "(b :: u8) \<le> 4 \<longleftrightarrow> b = 0 \<or> b = 1 \<or> b = 2 \<or> b = 3 \<or> b = 4" "b \<le> 1 \<longleftrightarrow> b = 0 \<or> b = 1"
  by (auto simp: word_le_nat_alt word_unat_eq_iff)

lemma event_ok_is_valid: "event_ok e \<Longrightarrow> is_valid e"
  unfolding event_ok_def is_valid_def byte_le_cases by auto

section \<open>Properties\<close>

text \<open>
  Validation accepts exactly the events within the documented limits: a known type, a side except
  for heartbeats, timestamps, instrument, price, quantity, venue and source in range. An accepted
  event passes the basic check too, the constructed heartbeat is accepted for every timestamp and
  source in range, and the empty event is rejected.
\<close>

theorem event_validate_exact:
  "(event_validate e = Ok () \<longleftrightarrow> event_type e \<in> {Quote, Trade, BookDelta, StatusEvent, Heartbeat}
      \<and> (event_type e \<noteq> Heartbeat \<longrightarrow> side e \<in> {Bid, Ask})
      \<and> exchange_ts_ns e \<le> MaxTimestamp \<and> receive_ts_ns e \<le> MaxTimestamp
      \<and> unat (instrument_id e) < 16384 \<and> \<bar>sint (price_ticks e)\<bar> \<le> 10 ^ 12
      \<and> unat (quantity e) \<le> 10 ^ 9 \<and> unat (venue_id e) < 256 \<and> unat (source_id e) < 256)
   \<and> (event_validate e = Ok () \<longrightarrow> is_valid e)
   \<and> (ts \<le> MaxTimestamp \<and> src < 256 \<longrightarrow> event_validate (make_heartbeat ts src) = Ok ())
   \<and> event_validate make_empty_event = Err InvalidPayload"
proof (intro conjI)
  show "event_validate e = Ok () \<longleftrightarrow> event_type e \<in> {Quote, Trade, BookDelta, StatusEvent, Heartbeat}
      \<and> (event_type e \<noteq> Heartbeat \<longrightarrow> side e \<in> {Bid, Ask})
      \<and> exchange_ts_ns e \<le> MaxTimestamp \<and> receive_ts_ns e \<le> MaxTimestamp
      \<and> unat (instrument_id e) < 16384 \<and> \<bar>sint (price_ticks e)\<bar> \<le> 10 ^ 12
      \<and> unat (quantity e) \<le> 10 ^ 9 \<and> unat (venue_id e) < 256 \<and> unat (source_id e) < 256"
    unfolding event_validate_iff event_ok_def byte_le_cases
    by (auto simp: MaxInstruments_def MaxPrice_def MaxQuantity_def MaxVenues_def MaxSources_def word_le_nat_alt)
  show "event_validate e = Ok () \<longrightarrow> is_valid e" by (simp add: event_validate_iff event_ok_is_valid)
  have "unat (ucast src :: u16) < 256" if "src < 256"
    using that by (simp add: unsigned_ucast_eq word_less_nat_alt take_bit_nat_eq_self)
  then show "ts \<le> MaxTimestamp \<and> src < 256 \<longrightarrow> event_validate (make_heartbeat ts src) = Ok ()"
    by (simp add: event_validate_iff event_ok_def make_heartbeat_def event_limits)
  show "event_validate make_empty_event = Err InvalidPayload"
    by (simp add: event_validate_def make_empty_event_def)
qed

theorem event_validate_exact_witness:
  "event_validate (make_heartbeat 5 7) = Ok ()
    \<and> is_valid (make_trade 1 2 3 4 Ask (- 5) 6 7 8 9)"
proof -
  have v: "event_validate (make_trade 1 2 3 4 Ask (- 5) 6 7 8 9) = Ok ()"
    by (simp add: event_validate_def make_trade_def event_limits)
  have "(5::u64) \<le> MaxTimestamp \<and> (7::u32) < 256" by (simp add: MaxTimestamp_def)
  then show ?thesis
    using v event_validate_exact [of "make_trade 1 2 3 4 Ask (- 5) 6 7 8 9" 5 7] by blast
qed

end
