(* ===== verification/Frame.thy ===== *)
theory Frame
  imports Endian Crc32c Event_Model
begin

text \<open>
  Model of the VTP1 wire format: \<^verbatim>\<open>include/vectortick/protocol/frame.hpp\<close> (header, checksum, validation,
  reading and writing a frame, the stream metadata) and \<^verbatim>\<open>protocol/messages.hpp\<close> (the payloads). A
  writer of the source fills consecutive fields of a buffer, so it is the concatenation of the fields;
  a reader that touches a byte outside its buffer returns \<open>Fault\<close>. A payload pointer is the list of the
  bytes behind it, or \<open>None\<close> for \<^verbatim>\<open>nullptr\<close>.
\<close>

section \<open>Frame header\<close>

abbreviation MT_StreamMetadata :: u8 where "MT_StreamMetadata \<equiv> 0"
abbreviation MT_Quote :: u8 where "MT_Quote \<equiv> 1"
abbreviation MT_Trade :: u8 where "MT_Trade \<equiv> 2"
abbreviation MT_BookDelta :: u8 where "MT_BookDelta \<equiv> 3"
abbreviation MT_Status :: u8 where "MT_Status \<equiv> 4"
abbreviation MT_Heartbeat :: u8 where "MT_Heartbeat \<equiv> 5"
abbreviation MT_EndOfStream :: u8 where "MT_EndOfStream \<equiv> 255"

record FrameHeader =
  fh_magic :: u32
  fh_version :: u8
  fh_message_type :: u8
  fh_flags :: u16
  fh_payload_length :: u32
  fh_session_id :: u32
  fh_sequence :: u64
  fh_send_timestamp_ns :: u64
  fh_crc32c :: u32
  fh_reserved :: u32

definition Magic_VTP1 :: u32 where "Magic_VTP1 = 0x56545031"
definition Version_VTP1 :: u8 where "Version_VTP1 = 1"
definition FrameHeader_Size :: nat where "FrameHeader_Size = 40"

definition is_valid_magic :: "FrameHeader \<Rightarrow> bool" where
  "is_valid_magic h = (fh_magic h = Magic_VTP1)"

definition is_valid_version :: "FrameHeader \<Rightarrow> bool" where
  "is_valid_version h = (fh_version h = Version_VTP1)"

definition is_valid_reserved :: "FrameHeader \<Rightarrow> bool" where
  "is_valid_reserved h = (fh_reserved h = 0)"

text \<open>A structure of \<open>n\<close> bytes is read from the start of a buffer that has to hold it.\<close>

definition read_struct :: "nat \<Rightarrow> (bytes \<Rightarrow> 'a) \<Rightarrow> bytes \<Rightarrow> 'a outcome" where
  "read_struct n f buffer = (if n \<le> length buffer then Ok (f buffer) else Fault)"

definition be16_at :: "nat \<Rightarrow> bytes \<Rightarrow> u16" where "be16_at off buf = read_be_u16 True (get_bytes off 2 buf)"
definition be32_at :: "nat \<Rightarrow> bytes \<Rightarrow> u32" where "be32_at off buf = read_be_u32 True (get_bytes off 4 buf)"
definition be64_at :: "nat \<Rightarrow> bytes \<Rightarrow> u64" where "be64_at off buf = read_be_u64 True (get_bytes off 8 buf)"

definition read_header :: "bytes \<Rightarrow> FrameHeader outcome" where
  "read_header = read_struct FrameHeader_Size (\<lambda>buffer.
     \<lparr>fh_magic = be32_at 0 buffer, fh_version = buffer ! 4, fh_message_type = buffer ! 5,
      fh_flags = be16_at 6 buffer, fh_payload_length = be32_at 8 buffer,
      fh_session_id = be32_at 12 buffer, fh_sequence = be64_at 16 buffer,
      fh_send_timestamp_ns = be64_at 24 buffer, fh_crc32c = be32_at 32 buffer,
      fh_reserved = be32_at 36 buffer\<rparr>)"

definition write_header :: "FrameHeader \<Rightarrow> bytes" where
  "write_header h = write_be_u32 True (fh_magic h) @ [fh_version h, fh_message_type h]
     @ write_be_u16 True (fh_flags h) @ write_be_u32 True (fh_payload_length h)
     @ write_be_u32 True (fh_session_id h) @ write_be_u64 True (fh_sequence h)
     @ write_be_u64 True (fh_send_timestamp_ns h) @ write_be_u32 True (fh_crc32c h)
     @ write_be_u32 True (fh_reserved h)"

section \<open>Checksum and validation\<close>

definition compute_crc :: "FrameHeader \<Rightarrow> bytes option \<Rightarrow> u32 outcome" where
  "compute_crc h payload =
     (let crc = Crc32c.crc32c (write_header (h\<lparr>fh_crc32c := 0\<rparr>)) in
      case payload of
        Some p \<Rightarrow> if 0 < fh_payload_length h
                  then obind (load 0 (unat (fh_payload_length h)) p) (\<lambda>bs. Ok (crc32c_from crc bs))
                  else Ok crc
      | None \<Rightarrow> Ok crc)"

definition Frame_validate :: "FrameHeader \<Rightarrow> bytes option \<Rightarrow> nat \<Rightarrow> unit outcome" where
  "Frame_validate h payload available_bytes =
     (if \<not> is_valid_magic h then Err InvalidMagic
      else if \<not> is_valid_version h then Err InvalidVersion
      else if \<not> is_valid_reserved h then Err ReservedFieldNotZero
      else if MaxPayloadLength < unat (fh_payload_length h) then Err InvalidLength
      else if available_bytes < FrameHeader_Size + unat (fh_payload_length h) then Err TruncatedFrame
      else if MT_Heartbeat < fh_message_type h \<and> fh_message_type h \<noteq> MT_EndOfStream then Err InvalidMessageType
      else obind (compute_crc h payload) (\<lambda>computed_crc.
        if computed_crc \<noteq> fh_crc32c h then Err InvalidChecksum else Ok ()))"

section \<open>Reading and writing frames\<close>

text \<open>\<open>Ok None\<close> is the return value 0 (not enough data).\<close>

definition read_frame :: "bytes \<Rightarrow> (nat \<times> FrameHeader \<times> bytes) option outcome" where
  "read_frame buffer =
     (if length buffer < FrameHeader_Size then Ok None
      else obind (read_header buffer) (\<lambda>h.
        let total_size = FrameHeader_Size + unat (fh_payload_length h) in
        if length buffer < total_size then Ok None
        else Ok (Some (total_size, h, drop FrameHeader_Size buffer))))"

definition write_frame ::
    "bytes \<Rightarrow> u8 \<Rightarrow> u16 \<Rightarrow> u32 \<Rightarrow> u64 \<Rightarrow> u64 \<Rightarrow> bytes option \<Rightarrow> u32 \<Rightarrow> bytes outcome" where
  "write_frame buffer ty fl session_id seq timestamp payload payload_length =
     (let h = \<lparr>fh_magic = Magic_VTP1, fh_version = Version_VTP1, fh_message_type = ty, fh_flags = fl,
               fh_payload_length = payload_length, fh_session_id = session_id, fh_sequence = seq,
               fh_send_timestamp_ns = timestamp, fh_crc32c = 0, fh_reserved = 0\<rparr>
      in obind (compute_crc h payload) (\<lambda>crc.
           if length buffer < FrameHeader_Size then Fault
           else let buffer = put_bytes 0 (write_header (h\<lparr>fh_crc32c := crc\<rparr>)) buffer in
             case payload of
               Some p \<Rightarrow> if 0 < payload_length then
                   obind (load 0 (unat payload_length) p) (\<lambda>bs.
                     if length buffer < FrameHeader_Size + unat payload_length then Fault
                     else Ok (put_bytes FrameHeader_Size bs buffer))
                 else Ok buffer
             | None \<Rightarrow> Ok buffer))"

section \<open>Payloads\<close>

record StreamMetadata =
  sm_start_time_ns :: u64
  sm_end_time_ns :: u64
  sm_source_id :: u32
  sm_instrument_count :: u32
  sm_event_count_hint :: u32
  sm_flags :: u16
  sm_time_resolution :: u8
  sm_reserved :: u8

definition StreamMetadata_Size :: nat where "StreamMetadata_Size = 32"

definition StreamMetadata_read_from :: "bytes \<Rightarrow> StreamMetadata outcome" where
  "StreamMetadata_read_from = read_struct StreamMetadata_Size (\<lambda>b.
     \<lparr>sm_start_time_ns = be64_at 0 b, sm_end_time_ns = be64_at 8 b, sm_source_id = be32_at 16 b,
      sm_instrument_count = be32_at 20 b, sm_event_count_hint = be32_at 24 b, sm_flags = be16_at 28 b,
      sm_time_resolution = b ! 30, sm_reserved = b ! 31\<rparr>)"

definition StreamMetadata_write_to :: "StreamMetadata \<Rightarrow> bytes" where
  "StreamMetadata_write_to m = write_be_u64 True (sm_start_time_ns m) @ write_be_u64 True (sm_end_time_ns m)
     @ write_be_u32 True (sm_source_id m) @ write_be_u32 True (sm_instrument_count m)
     @ write_be_u32 True (sm_event_count_hint m) @ write_be_u16 True (sm_flags m)
     @ [sm_time_resolution m, sm_reserved m]"

record QuotePayload =
  qp_exchange_ts_ns :: u64
  qp_instrument_id :: u32
  qp_side :: u8
  qp_reserved :: "u8 \<times> u8 \<times> u8"
  qp_bid_price_ticks :: i64
  qp_bid_quantity :: u32
  qp_ask_price_ticks :: i64
  qp_ask_quantity :: u32

definition QuotePayload_Size :: nat where "QuotePayload_Size = 40"

definition QuotePayload_read_from :: "bytes \<Rightarrow> QuotePayload outcome" where
  "QuotePayload_read_from = read_struct QuotePayload_Size (\<lambda>b.
     \<lparr>qp_exchange_ts_ns = be64_at 0 b, qp_instrument_id = be32_at 8 b, qp_side = b ! 12,
      qp_reserved = (b ! 13, b ! 14, b ! 15), qp_bid_price_ticks = be64_at 16 b,
      qp_bid_quantity = be32_at 24 b, qp_ask_price_ticks = be64_at 28 b, qp_ask_quantity = be32_at 36 b\<rparr>)"

definition QuotePayload_write_to :: "QuotePayload \<Rightarrow> bytes" where
  "QuotePayload_write_to q = write_be_u64 True (qp_exchange_ts_ns q) @ write_be_u32 True (qp_instrument_id q)
     @ [qp_side q, fst (qp_reserved q), fst (snd (qp_reserved q)), snd (snd (qp_reserved q))]
     @ write_be_u64 True (qp_bid_price_ticks q) @ write_be_u32 True (qp_bid_quantity q)
     @ write_be_u64 True (qp_ask_price_ticks q) @ write_be_u32 True (qp_ask_quantity q)"

record TradePayload =
  tp_exchange_ts_ns :: u64
  tp_instrument_id :: u32
  tp_side :: u8
  tp_reserved :: "u8 \<times> u8 \<times> u8"
  tp_price_ticks :: i64
  tp_quantity :: u32
  tp_trade_id :: u64
  tp_venue_id :: u16
  tp_source_id :: u16

definition TradePayload_Size :: nat where "TradePayload_Size = 40"

definition TradePayload_read_from :: "bytes \<Rightarrow> TradePayload outcome" where
  "TradePayload_read_from = read_struct TradePayload_Size (\<lambda>b.
     \<lparr>tp_exchange_ts_ns = be64_at 0 b, tp_instrument_id = be32_at 8 b, tp_side = b ! 12,
      tp_reserved = (b ! 13, b ! 14, b ! 15), tp_price_ticks = be64_at 16 b, tp_quantity = be32_at 24 b,
      tp_trade_id = be64_at 28 b, tp_venue_id = be16_at 36 b, tp_source_id = be16_at 38 b\<rparr>)"

definition TradePayload_write_to :: "TradePayload \<Rightarrow> bytes" where
  "TradePayload_write_to t = write_be_u64 True (tp_exchange_ts_ns t) @ write_be_u32 True (tp_instrument_id t)
     @ [tp_side t, fst (tp_reserved t), fst (snd (tp_reserved t)), snd (snd (tp_reserved t))]
     @ write_be_u64 True (tp_price_ticks t) @ write_be_u32 True (tp_quantity t)
     @ write_be_u64 True (tp_trade_id t) @ write_be_u16 True (tp_venue_id t) @ write_be_u16 True (tp_source_id t)"

record BookDeltaPayload =
  bd_exchange_ts_ns :: u64
  bd_instrument_id :: u32
  bd_side :: u8
  bd_level :: u8
  bd_operation :: u8
  bd_reserved :: u8
  bd_price_ticks :: i64
  bd_quantity :: u32
  bd_order_id :: u64
  bd_venue_id :: u16
  bd_source_id :: u16
  bd_flags :: u32

text \<open>The payload has 48 bytes, of which the code reads and writes the first 44.\<close>

definition BookDeltaPayload_Size :: nat where "BookDeltaPayload_Size = 48"

definition BookDeltaPayload_read_from :: "bytes \<Rightarrow> BookDeltaPayload outcome" where
  "BookDeltaPayload_read_from = read_struct 44 (\<lambda>b.
     \<lparr>bd_exchange_ts_ns = be64_at 0 b, bd_instrument_id = be32_at 8 b, bd_side = b ! 12, bd_level = b ! 13,
      bd_operation = b ! 14, bd_reserved = b ! 15, bd_price_ticks = be64_at 16 b, bd_quantity = be32_at 24 b,
      bd_order_id = be64_at 28 b, bd_venue_id = be16_at 36 b, bd_source_id = be16_at 38 b,
      bd_flags = be32_at 40 b\<rparr>)"

definition BookDeltaPayload_write_to :: "BookDeltaPayload \<Rightarrow> bytes" where
  "BookDeltaPayload_write_to d = write_be_u64 True (bd_exchange_ts_ns d) @ write_be_u32 True (bd_instrument_id d)
     @ [bd_side d, bd_level d, bd_operation d, bd_reserved d]
     @ write_be_u64 True (bd_price_ticks d) @ write_be_u32 True (bd_quantity d)
     @ write_be_u64 True (bd_order_id d) @ write_be_u16 True (bd_venue_id d) @ write_be_u16 True (bd_source_id d)
     @ write_be_u32 True (bd_flags d)"

record StatusPayload =
  sp_exchange_ts_ns :: u64
  sp_instrument_id :: u32
  sp_status :: u8
  sp_reason :: u8
  sp_reserved :: u16

definition StatusPayload_Size :: nat where "StatusPayload_Size = 16"

definition StatusPayload_read_from :: "bytes \<Rightarrow> StatusPayload outcome" where
  "StatusPayload_read_from = read_struct StatusPayload_Size (\<lambda>b.
     \<lparr>sp_exchange_ts_ns = be64_at 0 b, sp_instrument_id = be32_at 8 b, sp_status = b ! 12,
      sp_reason = b ! 13, sp_reserved = be16_at 14 b\<rparr>)"

definition StatusPayload_write_to :: "StatusPayload \<Rightarrow> bytes" where
  "StatusPayload_write_to s = write_be_u64 True (sp_exchange_ts_ns s) @ write_be_u32 True (sp_instrument_id s)
     @ [sp_status s, sp_reason s] @ write_be_u16 True (sp_reserved s)"

definition HeartbeatPayload_Size :: nat where "HeartbeatPayload_Size = 8"

definition HeartbeatPayload_read_from :: "bytes \<Rightarrow> u64 outcome" where
  "HeartbeatPayload_read_from = read_struct HeartbeatPayload_Size (be64_at 0)"

definition HeartbeatPayload_write_to :: "u64 \<Rightarrow> bytes" where
  "HeartbeatPayload_write_to ts = write_be_u64 True ts"

section \<open>Structures are read back\<close>

lemmas frame_sizes = FrameHeader_Size_def StreamMetadata_Size_def QuotePayload_Size_def
  TradePayload_Size_def BookDeltaPayload_Size_def StatusPayload_Size_def HeartbeatPayload_Size_def

lemmas field_at = be16_at_def be32_at_def be64_at_def get_bytes_def

lemma length_write [simp]:
  "length (write_header h) = 40" "length (StreamMetadata_write_to m) = 32"
  "length (QuotePayload_write_to q) = 40" "length (TradePayload_write_to t) = 40"
  "length (BookDeltaPayload_write_to d) = 44" "length (StatusPayload_write_to s) = 16"
  "length (HeartbeatPayload_write_to ts) = 8"
  by (simp_all add: write_header_def StreamMetadata_write_to_def QuotePayload_write_to_def
      TradePayload_write_to_def BookDeltaPayload_write_to_def StatusPayload_write_to_def
      HeartbeatPayload_write_to_def)

text \<open>The interface of a wire structure: reading inverts writing, whatever bytes follow.\<close>

locale wire_struct =
  fixes sz :: nat and put_s :: "'a \<Rightarrow> bytes" and get_s :: "bytes \<Rightarrow> 'a outcome"
  assumes get_put_s: "get_s (put_s v @ rest) = Ok v"
    and get_safe: "sz \<le> length buffer \<Longrightarrow> get_s buffer \<noteq> Fault"
begin

lemma put_s_inject: "put_s v = put_s w \<longleftrightarrow> v = w"
  by (metis outcome.inject(1) get_put_s)

lemma get_drop_put: "off \<le> length buf \<Longrightarrow> get_s (drop off (put_bytes off (put_s v) buf)) = Ok v"
  by (simp add: put_bytes_def get_put_s)

end

interpretation frame_header: wire_struct 40 write_header read_header
  by unfold_locales (simp_all add: write_header_def read_header_def read_struct_def frame_sizes field_at nth_append)

interpretation metadata: wire_struct 32 StreamMetadata_write_to StreamMetadata_read_from
  by unfold_locales (simp_all add: StreamMetadata_write_to_def StreamMetadata_read_from_def read_struct_def
      frame_sizes field_at nth_append)

interpretation quote: wire_struct 40 QuotePayload_write_to QuotePayload_read_from
  by unfold_locales (simp_all add: QuotePayload_write_to_def QuotePayload_read_from_def read_struct_def
      frame_sizes field_at nth_append)

interpretation trade: wire_struct 40 TradePayload_write_to TradePayload_read_from
  by unfold_locales (simp_all add: TradePayload_write_to_def TradePayload_read_from_def read_struct_def
      frame_sizes field_at nth_append)

interpretation book_delta: wire_struct 44 BookDeltaPayload_write_to BookDeltaPayload_read_from
  by unfold_locales (simp_all add: BookDeltaPayload_write_to_def BookDeltaPayload_read_from_def read_struct_def
      frame_sizes field_at nth_append)

interpretation status_msg: wire_struct 16 StatusPayload_write_to StatusPayload_read_from
  by unfold_locales (simp_all add: StatusPayload_write_to_def StatusPayload_read_from_def read_struct_def
      frame_sizes field_at nth_append)

interpretation heartbeat_msg: wire_struct 8 HeartbeatPayload_write_to HeartbeatPayload_read_from
  by unfold_locales (simp_all add: HeartbeatPayload_write_to_def HeartbeatPayload_read_from_def read_struct_def
      frame_sizes field_at)

section \<open>Frames\<close>

lemma compute_crc_Ok:
  assumes "unat (fh_payload_length h) \<le> length p"
  shows "compute_crc h (Some p) = Ok (crc32c_from (Crc32c.crc32c (write_header (h\<lparr>fh_crc32c := 0\<rparr>)))
    (take (unat (fh_payload_length h)) p))"
proof (cases "fh_payload_length h = 0")
  case True
  then show ?thesis by (simp add: compute_crc_def crc.update_Nil)
next
  case False
  then have "0 < fh_payload_length h" by (simp add: word_neq_0_conv)
  then show ?thesis using assms by (simp add: compute_crc_def load_def get_bytes_def)
qed

lemma compute_crc_None: "compute_crc h None = Ok (Crc32c.crc32c (write_header (h\<lparr>fh_crc32c := 0\<rparr>)))"
  by (simp add: compute_crc_def)

text \<open>Validation never reads past the bytes that are available.\<close>

lemma Frame_validate_safe:
  "FrameHeader_Size \<le> length buffer \<Longrightarrow> Frame_validate h (Some (drop FrameHeader_Size buffer)) (length buffer) \<noteq> Fault"
  by (auto simp: Frame_validate_def not_less compute_crc_Ok split: if_splits)

definition frame_of :: "u8 \<Rightarrow> u16 \<Rightarrow> u32 \<Rightarrow> u64 \<Rightarrow> u64 \<Rightarrow> bytes \<Rightarrow> FrameHeader" where
  "frame_of ty fl session seq ts p =
     (let h = \<lparr>fh_magic = Magic_VTP1, fh_version = Version_VTP1, fh_message_type = ty, fh_flags = fl,
               fh_payload_length = of_nat (length p), fh_session_id = session, fh_sequence = seq,
               fh_send_timestamp_ns = ts, fh_crc32c = 0, fh_reserved = 0\<rparr>
      in h\<lparr>fh_crc32c := crc32c_from (Crc32c.crc32c (write_header h)) p\<rparr>)"

lemma frame_of_sel [simp]:
  "fh_message_type (frame_of ty fl session seq ts p) = ty" "fh_sequence (frame_of ty fl session seq ts p) = seq"
  "fh_session_id (frame_of ty fl session seq ts p) = session"
  "fh_send_timestamp_ns (frame_of ty fl session seq ts p) = ts"
  "fh_payload_length (frame_of ty fl session seq ts p) = of_nat (length p)"
  "fh_flags (frame_of ty fl session seq ts p) = fl"
  by (simp_all add: frame_of_def Let_def)

lemma unat_payload_length: "length p \<le> MaxPayloadLength \<Longrightarrow> unat (of_nat (length p) :: u32) = length p"
  by (simp add: MaxPayloadLength_def unat_of_nat)

lemma write_frame_eq:
  assumes "length p \<le> MaxPayloadLength" "length p \<le> length q" "p = take (length p) q"
    and "FrameHeader_Size + length p \<le> length buffer"
  shows "write_frame buffer ty fl session seq ts (Some q) (of_nat (length p))
    = Ok (write_header (frame_of ty fl session seq ts p) @ p @ drop (FrameHeader_Size + length p) buffer)"
proof -
  note u = unat_payload_length [OF assms(1)]
  show ?thesis
  proof (cases "p = []")
    case True
    then show ?thesis
      using assms by (simp add: write_frame_def compute_crc_Ok frame_of_def Let_def put_bytes_def frame_sizes
          crc.update_Nil)
  next
    case False
    then have "(0::u32) < of_nat (length p)" using u by (simp add: word_less_nat_alt)
    then show ?thesis
      using assms u by (simp add: write_frame_def compute_crc_Ok frame_of_def Let_def load_def get_bytes_def
          put_bytes_def frame_sizes add.commute)
  qed
qed

lemma write_frame_control:
  assumes "FrameHeader_Size \<le> length buffer"
  shows "write_frame buffer ty fl session seq ts None 0
    = Ok (write_header (frame_of ty fl session seq ts []) @ drop FrameHeader_Size buffer)"
  using assms by (simp add: write_frame_def compute_crc_None frame_of_def Let_def put_bytes_def frame_sizes
      crc.update_Nil)

lemma read_frame_of:
  "length p \<le> MaxPayloadLength \<Longrightarrow>
   read_frame (write_header (frame_of ty fl session seq ts p) @ p @ rest)
     = Ok (Some (40 + length p, frame_of ty fl session seq ts p, p @ rest))"
  by (simp add: read_frame_def frame_header.get_put_s frame_sizes unat_payload_length)

lemma validate_frame_of:
  assumes "length p \<le> MaxPayloadLength" "ty \<le> MT_Heartbeat \<or> ty = MT_EndOfStream" "40 + length p \<le> n"
  shows "Frame_validate (frame_of ty fl session seq ts p) (Some (p @ rest)) n = Ok ()"
proof -
  let ?h = "frame_of ty fl session seq ts p"
  have u: "unat (fh_payload_length ?h) = length p" using unat_payload_length [OF assms(1)] by simp
  have "compute_crc ?h (Some (p @ rest)) = Ok (fh_crc32c ?h)"
    using u by (simp add: compute_crc_Ok) (simp add: frame_of_def Let_def)
  moreover have "is_valid_magic ?h" "is_valid_version ?h" "is_valid_reserved ?h"
    by (simp_all add: is_valid_magic_def is_valid_version_def is_valid_reserved_def frame_of_def Let_def)
  ultimately show ?thesis
    using assms u by (auto simp: Frame_validate_def frame_sizes not_less)
qed

lemma Frame_validate_Ok_crc:
  assumes "Frame_validate h (Some p) n = Ok ()"
  shows "compute_crc h (Some p) = Ok (fh_crc32c h)"
  using assms by (auto simp: Frame_validate_def obind_eq_Ok split: if_splits)

text \<open>Once the header is acceptable, the outcome of validation is decided by the checksum.\<close>

lemma Frame_validate_crc_mismatch:
  assumes "Frame_validate h (Some p) n = Ok ()" "compute_crc h' (Some p') = Ok c" "c \<noteq> fh_crc32c h'"
    and "fh_magic h' = fh_magic h" "fh_version h' = fh_version h" "fh_reserved h' = fh_reserved h"
    "fh_payload_length h' = fh_payload_length h" "fh_message_type h' = fh_message_type h"
  shows "Frame_validate h' (Some p') n = Err InvalidChecksum"
  using assms by (auto simp: Frame_validate_def is_valid_magic_def is_valid_version_def is_valid_reserved_def
      split: if_splits)

section \<open>Properties\<close>

text \<open>
  C26. Frame round trip: writing a payload into a large enough buffer produces a frame that reads
  back with the same type, flags, session, sequence, timestamp and payload, validates, and is
  consumed exactly; the buffer behind it is left as it was.
\<close>

theorem frame_roundtrip:
  assumes "length p \<le> MaxPayloadLength" "ty \<le> MT_Heartbeat \<or> ty = MT_EndOfStream"
    and "FrameHeader_Size + length p \<le> length buffer"
  shows "\<exists>frame h rest.
      write_frame buffer ty fl session seq ts (Some p) (of_nat (length p)) = Ok frame
    \<and> length frame = length buffer \<and> drop (40 + length p) frame = drop (40 + length p) buffer
    \<and> read_frame frame = Ok (Some (40 + length p, h, p @ rest))
    \<and> Frame_validate h (Some (p @ rest)) (length frame) = Ok ()
    \<and> fh_message_type h = ty \<and> fh_flags h = fl \<and> fh_session_id h = session
    \<and> fh_sequence h = seq \<and> fh_send_timestamp_ns h = ts"
proof -
  let ?h = "frame_of ty fl session seq ts p" and ?rest = "drop (FrameHeader_Size + length p) buffer"
  have "write_frame buffer ty fl session seq ts (Some p) (of_nat (length p)) = Ok (write_header ?h @ p @ ?rest)"
    using assms by (intro write_frame_eq) simp_all
  moreover have "read_frame (write_header ?h @ p @ ?rest) = Ok (Some (40 + length p, ?h, p @ ?rest))"
    by (rule read_frame_of [OF assms(1)])
  moreover have "Frame_validate ?h (Some (p @ ?rest)) (length (write_header ?h @ p @ ?rest)) = Ok ()"
    by (rule validate_frame_of [OF assms(1,2)]) simp
  ultimately show ?thesis
    using assms(3) by (intro exI [of _ "write_header ?h @ p @ ?rest"] exI [of _ ?h] exI [of _ ?rest])
      (simp add: frame_sizes)
qed

theorem frame_roundtrip_witness:
  "\<exists>frame h rest. write_frame (replicate 50 0) MT_Heartbeat 0 7 9 5 (Some [1, 2, 3]) 3 = Ok frame
    \<and> read_frame frame = Ok (Some (43, h, [1, 2, 3] @ rest)) \<and> fh_session_id h = 7"
  using frame_roundtrip [of "[1, 2, 3]" MT_Heartbeat "replicate 50 0" 0 7 9 5]
  by (fastforce simp: MaxPayloadLength_def FrameHeader_Size_def)

text \<open>
  C27. Corruption is detected: in a frame that validates, changing up to four consecutive payload
  bytes, the session identifier, or the stored checksum makes validation fail with a checksum error.
\<close>

theorem frame_corruption_detected:
  assumes "Frame_validate h (Some (pre @ xs @ post)) n = Ok ()"
    and "length xs = length ys" "length xs \<le> 4" "xs \<noteq> ys"
    and "unat (fh_payload_length h) = length (pre @ xs @ post)"
  shows "Frame_validate h (Some (pre @ ys @ post)) n = Err InvalidChecksum
    \<and> (s \<noteq> fh_session_id h \<longrightarrow>
        Frame_validate (h\<lparr>fh_session_id := s\<rparr>) (Some (pre @ xs @ post)) n = Err InvalidChecksum)
    \<and> (c \<noteq> fh_crc32c h \<longrightarrow>
        Frame_validate (h\<lparr>fh_crc32c := c\<rparr>) (Some (pre @ xs @ post)) n = Err InvalidChecksum)"
proof (intro conjI impI)
  let ?p = "pre @ xs @ post" and ?c = "\<lambda>h. Crc32c.crc32c (write_header (h\<lparr>fh_crc32c := 0\<rparr>))"
  note ok = assms(1) and ok' = Frame_validate_Ok_crc [OF assms(1)]
  have crc: "crc32c_from (?c h) ?p = fh_crc32c h"
    using ok' assms(5) by (simp add: compute_crc_Ok)
  show "Frame_validate h (Some (pre @ ys @ post)) n = Err InvalidChecksum"
  proof (rule Frame_validate_crc_mismatch [OF ok])
    show "compute_crc h (Some (pre @ ys @ post)) = Ok (crc32c_from (?c h) (pre @ ys @ post))"
      using assms(2,5) by (simp add: compute_crc_Ok)
    show "crc32c_from (?c h) (pre @ ys @ post) \<noteq> fh_crc32c h"
      using crc.detects_burst [OF assms(2-4), of "?c h" pre post] crc by simp
  qed simp_all
  show "Frame_validate (h\<lparr>fh_session_id := s\<rparr>) (Some ?p) n = Err InvalidChecksum" if "s \<noteq> fh_session_id h"
  proof (rule Frame_validate_crc_mismatch [OF ok])
    let ?h = "h\<lparr>fh_session_id := s\<rparr>"
    show "compute_crc ?h (Some ?p) = Ok (crc32c_from (?c ?h) ?p)"
      using assms(5) by (simp add: compute_crc_Ok)
    have "write_be_u32 True (fh_session_id h) \<noteq> write_be_u32 True s" using that be32.enc_inject by metis
    then have "?c h \<noteq> ?c ?h"
      using crc.detects_burst [of "write_be_u32 True (fh_session_id h)" "write_be_u32 True s" 0
          "write_be_u32 True (fh_magic h) @ [fh_version h, fh_message_type h]
            @ write_be_u16 True (fh_flags h) @ write_be_u32 True (fh_payload_length h)"]
      by (simp add: Crc32c.crc32c_def write_header_def)
    then show "crc32c_from (?c ?h) ?p \<noteq> fh_crc32c ?h"
      using crc crc.update_inject_state [of "?c ?h" ?p "?c h"] by auto
  qed simp_all
  show "Frame_validate (h\<lparr>fh_crc32c := c\<rparr>) (Some ?p) n = Err InvalidChecksum" if "c \<noteq> fh_crc32c h"
    using Frame_validate_crc_mismatch [OF ok, of "h\<lparr>fh_crc32c := c\<rparr>" ?p "fh_crc32c h"] that assms(5) crc
    by (simp add: compute_crc_Ok)
qed

theorem frame_corruption_detected_witness:
  "Frame_validate (frame_of MT_Heartbeat 0 7 9 5 [1, 2, 3]) (Some ([1] @ [9] @ [3])) 43 = Err InvalidChecksum"
proof -
  let ?h = "frame_of MT_Heartbeat 0 7 9 5 [1, 2, 3]"
  have "Frame_validate ?h (Some ([1, 2, 3] @ [])) 43 = Ok ()"
    by (rule validate_frame_of) (simp_all add: MaxPayloadLength_def)
  then show ?thesis
    using frame_corruption_detected [of ?h "[1]" "[2]" "[3]" 43 "[9]" 0 0] by simp
qed

end
