(* ===== verification/Decoder.thy ===== *)
theory Decoder
  imports Frame
begin

text \<open>
  Model of \<^verbatim>\<open>include/vectortick/protocol/decoder.hpp\<close> and \<^verbatim>\<open>src/protocol/decoder.cpp\<close>. The decoder and
  the encoder are records with the members of the classes; an operation returns its result, the event
  or buffer it wrote (also on an error path, where the code leaves it partly filled) and the new state.
\<close>

section \<open>Decoder\<close>

record Decoder =
  last_session_id :: u32
  last_sequence :: u64
  frames_decoded :: u64
  decode_errors :: u64

definition Decoder_init :: Decoder where
  "Decoder_init = \<lparr>last_session_id = 0, last_sequence = 0, frames_decoded = 0, decode_errors = 0\<rparr>"

definition Decoder_reset :: "Decoder \<Rightarrow> Decoder" where
  "Decoder_reset d = d\<lparr>last_session_id := 0, last_sequence := 0\<rparr>"

text \<open>Fill the event from a payload structure and return the status of \<open>check\<close>.\<close>

definition fill_event ::
    "'a outcome \<Rightarrow> ('a \<Rightarrow> CanonicalEvent) \<Rightarrow> (CanonicalEvent \<Rightarrow> unit outcome) \<Rightarrow> CanonicalEvent
      \<Rightarrow> unit outcome \<times> CanonicalEvent" where
  "fill_event r f check e =
     (case r of Ok p \<Rightarrow> (check (f p), f p) | Err c \<Rightarrow> (Err c, e) | Fault \<Rightarrow> (Fault, e))"

definition decode_quote :: "bytes \<Rightarrow> u32 \<Rightarrow> CanonicalEvent \<Rightarrow> unit outcome \<times> CanonicalEvent" where
  "decode_quote payload len e =
     (if unat len < QuotePayload_Size then (Err InvalidPayload, e)
      else fill_event (QuotePayload_read_from payload) (\<lambda>q.
        let e = e\<lparr>exchange_ts_ns := qp_exchange_ts_ns q, instrument_id := qp_instrument_id q,
                  event_type := Quote, flags := 0, venue_id := 0, source_id := 0, trade_or_order_id := 0\<rparr>
        in if qp_side q = Ask
           then e\<lparr>side := Ask, price_ticks := qp_ask_price_ticks q, quantity := qp_ask_quantity q\<rparr>
           else e\<lparr>side := Bid, price_ticks := qp_bid_price_ticks q, quantity := qp_bid_quantity q\<rparr>)
        event_validate e)"

definition decode_trade :: "bytes \<Rightarrow> u32 \<Rightarrow> CanonicalEvent \<Rightarrow> unit outcome \<times> CanonicalEvent" where
  "decode_trade payload len e =
     (if unat len < TradePayload_Size then (Err InvalidPayload, e)
      else fill_event (TradePayload_read_from payload) (\<lambda>t.
        e\<lparr>exchange_ts_ns := tp_exchange_ts_ns t, instrument_id := tp_instrument_id t, event_type := Trade,
          side := tp_side t, flags := 0, price_ticks := tp_price_ticks t, quantity := tp_quantity t,
          venue_id := tp_venue_id t, source_id := tp_source_id t, trade_or_order_id := tp_trade_id t\<rparr>)
        event_validate e)"

definition decode_book_delta :: "bytes \<Rightarrow> u32 \<Rightarrow> CanonicalEvent \<Rightarrow> unit outcome \<times> CanonicalEvent" where
  "decode_book_delta payload len e =
     (if unat len < BookDeltaPayload_Size then (Err InvalidPayload, e)
      else fill_event (BookDeltaPayload_read_from payload) (\<lambda>d.
        e\<lparr>exchange_ts_ns := bd_exchange_ts_ns d, instrument_id := bd_instrument_id d, event_type := BookDelta,
          side := bd_side d, flags := ucast (bd_flags d), price_ticks := bd_price_ticks d,
          quantity := bd_quantity d, venue_id := bd_venue_id d, source_id := bd_source_id d,
          trade_or_order_id := bd_order_id d\<rparr>)
        event_validate e)"

definition decode_status :: "bytes \<Rightarrow> u32 \<Rightarrow> CanonicalEvent \<Rightarrow> unit outcome \<times> CanonicalEvent" where
  "decode_status payload len e =
     (if unat len < StatusPayload_Size then (Err InvalidPayload, e)
      else fill_event (StatusPayload_read_from payload) (\<lambda>s.
        e\<lparr>exchange_ts_ns := sp_exchange_ts_ns s, instrument_id := sp_instrument_id s,
          event_type := StatusEvent, side := Bid, flags := push_bit 8 (ucast (sp_status s)) OR ucast (sp_reason s),
          price_ticks := 0, quantity := 0, venue_id := 0, source_id := 0, trade_or_order_id := 0\<rparr>)
        event_validate e)"

definition decode_heartbeat :: "bytes \<Rightarrow> u32 \<Rightarrow> CanonicalEvent \<Rightarrow> unit outcome \<times> CanonicalEvent" where
  "decode_heartbeat payload len e =
     (if unat len < HeartbeatPayload_Size then (Err InvalidPayload, e)
      else fill_event (HeartbeatPayload_read_from payload) (\<lambda>ts.
        e\<lparr>exchange_ts_ns := ts, instrument_id := 0, event_type := Heartbeat, side := Bid, flags := 0,
          price_ticks := 0, quantity := 0, venue_id := 0, source_id := 0, trade_or_order_id := 0\<rparr>)
        (\<lambda>_. Ok ()) e)"

text \<open>The \<^verbatim>\<open>switch\<close> over the message type: the status of the payload decoder and the event.\<close>

definition decode_payload :: "u8 \<Rightarrow> bytes \<Rightarrow> u32 \<Rightarrow> CanonicalEvent \<Rightarrow> unit outcome \<times> CanonicalEvent" where
  "decode_payload msg_type payload len e =
     (if msg_type = MT_Quote then decode_quote payload len e
      else if msg_type = MT_Trade then decode_trade payload len e
      else if msg_type = MT_BookDelta then decode_book_delta payload len e
      else if msg_type = MT_Status then decode_status payload len e
      else if msg_type = MT_Heartbeat then decode_heartbeat payload len e
      else if msg_type = MT_StreamMetadata \<or> msg_type = MT_EndOfStream then (Ok (), e)
      else (Err InvalidMessageType, e))"

definition is_control :: "u8 \<Rightarrow> bool" where
  "is_control ty = (ty = MT_StreamMetadata \<or> ty = MT_EndOfStream)"

definition count_error :: "Decoder \<Rightarrow> Decoder" where
  "count_error d = d\<lparr>decode_errors := decode_errors d + 1\<rparr>"

definition decode_frame ::
    "Decoder \<Rightarrow> bytes \<Rightarrow> CanonicalEvent \<Rightarrow> u64 \<Rightarrow> nat outcome \<times> CanonicalEvent \<times> Decoder" where
  "decode_frame d data e receive_ts =
     (case read_frame data of
        Fault \<Rightarrow> (Fault, e, d) | Err c \<Rightarrow> (Err c, e, d)
      | Ok None \<Rightarrow> (Err TruncatedFrame, e, d)
      | Ok (Some (consumed, h, payload)) \<Rightarrow>
         (case Frame_validate h (Some payload) (length data) of
            Fault \<Rightarrow> (Fault, e, d) | Err c \<Rightarrow> (Err c, e, count_error d)
          | Ok _ \<Rightarrow>
              if fh_sequence h \<le> last_sequence d \<and> \<not> is_control (fh_message_type h)
              then (Err SequenceNotMonotonic, e, count_error d)
              else
                let d = d\<lparr>last_session_id := fh_session_id h, last_sequence := fh_sequence h\<rparr>;
                    e = e\<lparr>receive_ts_ns := (if 0 < receive_ts then receive_ts else fh_send_timestamp_ns h),
                          sequence := fh_sequence h\<rparr>
                in case decode_payload (fh_message_type h) payload (fh_payload_length h) e of
                     (Fault, e) \<Rightarrow> (Fault, e, d)
                   | (Err c, e) \<Rightarrow> (Err c, e, count_error d)
                   | (Ok _, e) \<Rightarrow> (Ok consumed, e, d\<lparr>frames_decoded := frames_decoded d + 1\<rparr>)))"

section \<open>Encoder\<close>

record Encoder =
  frames_encoded :: u64
  encode_errors :: u64

definition message_of_event :: "u8 \<Rightarrow> (u8 \<times> nat) option" where
  "message_of_event ty =
     (if ty = Quote then Some (MT_Quote, QuotePayload_Size)
      else if ty = Trade then Some (MT_Trade, TradePayload_Size)
      else if ty = BookDelta then Some (MT_BookDelta, BookDeltaPayload_Size)
      else if ty = StatusEvent then Some (MT_Status, StatusPayload_Size)
      else if ty = Heartbeat then Some (MT_Heartbeat, HeartbeatPayload_Size) else None)"

definition encode_payload :: "CanonicalEvent \<Rightarrow> bytes" where
  "encode_payload e =
     (if event_type e = Quote then QuotePayload_write_to
        \<lparr>qp_exchange_ts_ns = exchange_ts_ns e, qp_instrument_id = instrument_id e, qp_side = side e,
         qp_reserved = (0, 0, 0),
         qp_bid_price_ticks = (if side e = Ask then 0 else price_ticks e),
         qp_bid_quantity = (if side e = Ask then 0 else quantity e),
         qp_ask_price_ticks = (if side e = Ask then price_ticks e else 0),
         qp_ask_quantity = (if side e = Ask then quantity e else 0)\<rparr>
      else if event_type e = Trade then TradePayload_write_to
        \<lparr>tp_exchange_ts_ns = exchange_ts_ns e, tp_instrument_id = instrument_id e, tp_side = side e,
         tp_reserved = (0, 0, 0), tp_price_ticks = price_ticks e, tp_quantity = quantity e,
         tp_trade_id = trade_or_order_id e, tp_venue_id = venue_id e, tp_source_id = source_id e\<rparr>
      else if event_type e = BookDelta then BookDeltaPayload_write_to
        \<lparr>bd_exchange_ts_ns = exchange_ts_ns e, bd_instrument_id = instrument_id e, bd_side = side e,
         bd_level = 0, bd_operation = 1, bd_reserved = 0, bd_price_ticks = price_ticks e,
         bd_quantity = quantity e, bd_order_id = trade_or_order_id e, bd_venue_id = venue_id e,
         bd_source_id = source_id e, bd_flags = ucast (flags e)\<rparr>
      else if event_type e = StatusEvent then StatusPayload_write_to
        \<lparr>sp_exchange_ts_ns = exchange_ts_ns e, sp_instrument_id = instrument_id e,
         sp_status = ucast (drop_bit 8 (flags e)), sp_reason = ucast (flags e AND 0xFF), sp_reserved = 0\<rparr>
      else if event_type e = Heartbeat then HeartbeatPayload_write_to (exchange_ts_ns e)
      else [])"

definition encode_event ::
    "Encoder \<Rightarrow> CanonicalEvent \<Rightarrow> bytes \<Rightarrow> u32 \<Rightarrow> nat outcome \<times> bytes \<times> Encoder" where
  "encode_event enc e buffer session_id =
     (case message_of_event (event_type e) of
        None \<Rightarrow> (Err InvalidMessageType, buffer, enc\<lparr>encode_errors := encode_errors enc + 1\<rparr>)
      | Some (msg_type, payload_size) \<Rightarrow>
          let total_size = FrameHeader_Size + payload_size in
          if length buffer < total_size
          then (Err BufferTooSmall, buffer, enc\<lparr>encode_errors := encode_errors enc + 1\<rparr>)
          else
            let buffer = put_bytes FrameHeader_Size (encode_payload e) buffer;
                payload = drop FrameHeader_Size buffer
            in case write_frame buffer msg_type 0 session_id (sequence e) (exchange_ts_ns e)
                      (Some payload) (of_nat payload_size) of
                 Ok frame \<Rightarrow> (Ok total_size, frame, enc\<lparr>frames_encoded := frames_encoded enc + 1\<rparr>)
               | Err c \<Rightarrow> (Err c, buffer, enc) | Fault \<Rightarrow> (Fault, buffer, enc))"

definition encode_metadata ::
    "Encoder \<Rightarrow> StreamMetadata \<Rightarrow> bytes \<Rightarrow> u32 \<Rightarrow> u64 \<Rightarrow> nat outcome \<times> bytes \<times> Encoder" where
  "encode_metadata enc m buffer session_id seq =
     (let total_size = FrameHeader_Size + StreamMetadata_Size in
      if length buffer < total_size then (Err BufferTooSmall, buffer, enc)
      else
        let buffer = put_bytes FrameHeader_Size (StreamMetadata_write_to m) buffer in
        case write_frame buffer MT_StreamMetadata 0 session_id seq (sm_start_time_ns m)
               (Some (drop FrameHeader_Size buffer)) (of_nat StreamMetadata_Size) of
          Ok frame \<Rightarrow> (Ok total_size, frame, enc\<lparr>frames_encoded := frames_encoded enc + 1\<rparr>)
        | Err c \<Rightarrow> (Err c, buffer, enc) | Fault \<Rightarrow> (Fault, buffer, enc))"

definition encode_end_of_stream ::
    "Encoder \<Rightarrow> bytes \<Rightarrow> u32 \<Rightarrow> u64 \<Rightarrow> u64 \<Rightarrow> nat outcome \<times> bytes \<times> Encoder" where
  "encode_end_of_stream enc buffer session_id seq timestamp =
     (if length buffer < FrameHeader_Size then (Err BufferTooSmall, buffer, enc)
      else case write_frame buffer MT_EndOfStream 0 session_id seq timestamp None 0 of
          Ok frame \<Rightarrow> (Ok FrameHeader_Size, frame, enc\<lparr>frames_encoded := frames_encoded enc + 1\<rparr>)
        | Err c \<Rightarrow> (Err c, buffer, enc) | Fault \<Rightarrow> (Fault, buffer, enc))"

section \<open>Memory safety\<close>

lemma fill_event_Fault:
  "fst (fill_event r f check e) = Fault \<longleftrightarrow> r = Fault \<or> (\<exists>p. r = Ok p \<and> check (f p) = Fault)"
  by (cases r) (simp_all add: fill_event_def)

lemma decode_payload_safe:
  assumes "unat len \<le> length payload"
  shows "fst (decode_payload ty payload len e) \<noteq> Fault"
proof -
  have "40 \<le> unat len \<Longrightarrow> QuotePayload_read_from payload \<noteq> Fault \<and> TradePayload_read_from payload \<noteq> Fault"
    "48 \<le> unat len \<Longrightarrow> BookDeltaPayload_read_from payload \<noteq> Fault"
    "16 \<le> unat len \<Longrightarrow> StatusPayload_read_from payload \<noteq> Fault"
    "8 \<le> unat len \<Longrightarrow> HeartbeatPayload_read_from payload \<noteq> Fault"
    using assms quote.get_safe [of payload] trade.get_safe [of payload] book_delta.get_safe [of payload]
      status_msg.get_safe [of payload] heartbeat_msg.get_safe [of payload] by auto
  then show ?thesis
    by (simp add: decode_payload_def decode_quote_def decode_trade_def decode_book_delta_def decode_status_def
        decode_heartbeat_def frame_sizes not_less fill_event_Fault)
qed

lemma read_frame_safe: "read_frame data \<noteq> Fault \<and> read_frame data \<noteq> Err c"
  using frame_header.get_safe [of data]
  by (auto simp: read_frame_def read_header_def read_struct_def FrameHeader_Size_def Let_def)

lemma read_frame_Some:
  "read_frame data = Ok (Some (consumed, h, payload)) \<Longrightarrow>
     consumed = 40 + unat (fh_payload_length h) \<and> consumed \<le> length data \<and> payload = drop 40 data"
  by (auto simp: read_frame_def obind_eq_Ok FrameHeader_Size_def Let_def split: if_splits)

section \<open>One decoding step\<close>

text \<open>
  The step relation of a decoder: a frame is decoded into an event, is a control frame, or is
  refused; the state changes accordingly.
\<close>

lemma decode_frame_Ok:
  assumes "decode_frame d data e ts = (Ok n, e', d')"
  obtains h where "read_frame data = Ok (Some (n, h, drop 40 data))"
    "Frame_validate h (Some (drop 40 data)) (length data) = Ok ()"
    "is_control (fh_message_type h) \<or> last_sequence d < fh_sequence h"
    "d' = d\<lparr>last_session_id := fh_session_id h, last_sequence := fh_sequence h,
            frames_decoded := frames_decoded d + 1\<rparr>"
    "decode_payload (fh_message_type h) (drop 40 data) (fh_payload_length h)
      (e\<lparr>receive_ts_ns := (if 0 < ts then ts else fh_send_timestamp_ns h), sequence := fh_sequence h\<rparr>) = (Ok (), e')"
proof -
  obtain c h p where r: "read_frame data = Ok (Some (c, h, p))"
    using assms read_frame_safe [of data]
    by (auto simp: decode_frame_def split: outcome.splits option.splits)
  have p: "p = drop 40 data" using read_frame_Some [OF r] by simp
  show ?thesis
    using assms that [of h] r
    by (auto simp: decode_frame_def Let_def p not_le split: outcome.splits if_splits prod.splits)
qed

lemma decode_frame_safe: "fst (decode_frame d data e ts) \<noteq> Fault"
proof (cases "read_frame data")
  case (Ok r)
  show ?thesis
  proof (cases r)
    case None
    then show ?thesis using Ok by (simp add: decode_frame_def)
  next
    case (Some x)
    obtain c h p where x: "x = (c, h, p)" by (cases x)
    have r: "read_frame data = Ok (Some (c, h, p))" using Ok Some x by simp
    have p: "p = drop 40 data" "40 + unat (fh_payload_length h) \<le> length data"
      using read_frame_Some [OF r] by auto
    then have len: "unat (fh_payload_length h) \<le> length p" by simp
    have "Frame_validate h (Some p) (length data) \<noteq> Fault"
      using Frame_validate_safe [of data h] p by (simp add: FrameHeader_Size_def)
    then show ?thesis
      using r decode_payload_safe [OF len]
      by (auto simp: decode_frame_def Let_def split: outcome.split prod.split)
         (metis fst_conv)+
  qed
next
  case (Err c)
  then show ?thesis using read_frame_safe by blast
next
  case Fault
  then show ?thesis using read_frame_safe by blast
qed

text \<open>A decoded event that is no heartbeat has been validated.\<close>

lemma decode_payload_event:
  assumes "decode_payload ty payload len e = (Ok (), e')" "\<not> is_control ty"
  shows "event_type e' \<noteq> Heartbeat \<longrightarrow> event_ok e'"
    and "sequence e' = sequence e" "receive_ts_ns e' = receive_ts_ns e"
  using assms
  by (auto simp: decode_payload_def decode_quote_def decode_trade_def decode_book_delta_def decode_status_def
      decode_heartbeat_def fill_event_def is_control_def event_validate_iff Let_def
      split: if_splits outcome.splits)

section \<open>Streams of frames\<close>

lemma read_frame_type:
  assumes "read_frame data = Ok (Some (n, h, p))"
  shows "fh_message_type h = data ! 5"
  using assms by (auto simp: read_frame_def read_header_def read_struct_def obind_eq_Ok Let_def split: if_splits)

text \<open>Any frame that is refused leaves the sequence number or advances it.\<close>

lemma decode_frame_Err_sequence:
  assumes "decode_frame d data e ts = (Err c, e', d')"
  shows "last_sequence d \<le> last_sequence d' \<and> frames_decoded d' = frames_decoded d"
proof (cases "\<exists>n h p. read_frame data = Ok (Some (n, h, p))")
  case True
  then obtain n h p where r: "read_frame data = Ok (Some (n, h, p))" by blast
  have control: "\<not> is_control (fh_message_type h)"
    if "decode_payload (fh_message_type h) p l x = (Err c, y)" for l x y
    using that by (auto simp: is_control_def decode_payload_def)
  show ?thesis
    using assms r
    by (auto simp: decode_frame_def Let_def count_error_def not_le split: outcome.splits if_splits prod.splits
        dest: control)
next
  case False
  then have "read_frame data = Ok None" using read_frame_safe [of data] by (metis outcome.exhaust option.exhaust prod_cases3)
  then show ?thesis using assms by (simp add: decode_frame_def)
qed

text \<open>A run of the decoder over a sequence of data frames, with the events it delivers.\<close>

inductive decoder_run :: "Decoder \<Rightarrow> CanonicalEvent list \<Rightarrow> Decoder \<Rightarrow> bool" where
  run_done: "decoder_run d [] d"
| run_event: "decode_frame d data e ts = (Ok n, e', d1) \<Longrightarrow> \<not> is_control (data ! 5) \<Longrightarrow>
    decoder_run d1 es d2 \<Longrightarrow> decoder_run d (e' # es) d2"
| run_error: "decode_frame d data e ts = (Err c, e', d1) \<Longrightarrow> decoder_run d1 es d2 \<Longrightarrow> decoder_run d es d2"

inductive_cases decoder_run_ConsE: "decoder_run d (e # es) d2"

lemma decode_frame_event:
  assumes "decode_frame d data e ts = (Ok n, e', d')" "\<not> is_control (data ! 5)"
  shows "last_sequence d < sequence e' \<and> last_sequence d' = sequence e'
    \<and> frames_decoded d' = frames_decoded d + 1 \<and> (event_type e' \<noteq> Heartbeat \<longrightarrow> event_ok e')
    \<and> 40 \<le> n \<and> n \<le> length data"
proof -
  from assms(1) obtain h where h: "read_frame data = Ok (Some (n, h, drop 40 data))"
    "is_control (fh_message_type h) \<or> last_sequence d < fh_sequence h"
    "d' = d\<lparr>last_session_id := fh_session_id h, last_sequence := fh_sequence h,
            frames_decoded := frames_decoded d + 1\<rparr>"
    "decode_payload (fh_message_type h) (drop 40 data) (fh_payload_length h)
      (e\<lparr>receive_ts_ns := (if 0 < ts then ts else fh_send_timestamp_ns h), sequence := fh_sequence h\<rparr>) = (Ok (), e')"
    by (rule decode_frame_Ok) blast
  have c: "\<not> is_control (fh_message_type h)" using read_frame_type [OF h(1)] assms(2) by simp
  show ?thesis
    using decode_payload_event [OF h(4) c] h(2,3) c read_frame_Some [OF h(1)] by simp
qed

lemma decoder_run_sequences:
  "decoder_run d es d' \<Longrightarrow> sorted_wrt (<) (map sequence es)
     \<and> (\<forall>e\<in>set es. last_sequence d < sequence e \<and> sequence e \<le> last_sequence d'
          \<and> (event_type e \<noteq> Heartbeat \<longrightarrow> event_ok e))
     \<and> last_sequence d \<le> last_sequence d'
     \<and> frames_decoded d' = frames_decoded d + of_nat (length es)"
proof (induction rule: decoder_run.induct)
  case (run_done d)
  then show ?case by simp
next
  case (run_event d data e ts n e' d1 es d2)
  have "last_sequence d < sequence e'" "last_sequence d1 = sequence e'" "frames_decoded d1 = frames_decoded d + 1"
    "event_type e' \<noteq> Heartbeat \<longrightarrow> event_ok e'"
    using decode_frame_event [OF run_event.hyps(1,2)] by auto
  then show ?case using run_event.IH by (auto simp: algebra_simps)
next
  case (run_error d data e ts c e' d1 es d2)
  then show ?case using decode_frame_Err_sequence [OF run_error.hyps(1)] by force
qed

section \<open>Encoding and decoding\<close>

text \<open>
  What a frame carries of an event: the fields its payload has room for. The receive timestamp is the
  one given to the decoder or else the send timestamp, which the encoder sets to the exchange timestamp.
\<close>

definition wire_form :: "u64 \<Rightarrow> CanonicalEvent \<Rightarrow> CanonicalEvent" where
  "wire_form ts e =
     (let e = e\<lparr>receive_ts_ns := (if 0 < ts then ts else exchange_ts_ns e)\<rparr> in
      if event_type e = Quote then e\<lparr>flags := 0, venue_id := 0, source_id := 0, trade_or_order_id := 0\<rparr>
      else if event_type e = Trade then e\<lparr>flags := 0\<rparr>
      else if event_type e = BookDelta then e
      else if event_type e = StatusEvent then e\<lparr>side := Bid, price_ticks := 0, quantity := 0, venue_id := 0,
        source_id := 0, trade_or_order_id := 0\<rparr>
      else e\<lparr>side := Bid, instrument_id := 0, flags := 0, price_ticks := 0, quantity := 0, venue_id := 0,
        source_id := 0, trade_or_order_id := 0\<rparr>)"

lemma flags_split: "push_bit 8 (ucast (ucast (drop_bit 8 f) :: u8)) OR ucast (ucast (f AND 0xFF) :: u8) = (f :: u16)"
  unfolding mask_0xFF by (rule bit_word_eqI) (auto simp: bit_simps)

lemma flags_widen: "ucast (ucast f :: u32) = (f :: u16)"
  by (rule bit_word_eqI) (simp add: bit_simps)

lemma message_of_event_type:
  "event_type e \<le> Heartbeat \<Longrightarrow> \<exists>ty n. message_of_event (event_type e) = Some (ty, n)
     \<and> ty \<le> MT_Heartbeat \<and> \<not> is_control ty \<and> length (encode_payload e) \<le> n \<and> n \<le> 48"
  unfolding byte_le_cases
  by (elim disjE) (simp_all add: message_of_event_def encode_payload_def frame_sizes is_control_def)

text \<open>The payload decoder inverts the payload encoder on the fields that travel.\<close>

lemma fill_event_Ok:
  "r = Ok p \<Longrightarrow> event_validate w = Ok () \<Longrightarrow> f p = w \<Longrightarrow> fill_event r f event_validate e = (Ok (), w)"
  "r = Ok p \<Longrightarrow> f p = w \<Longrightarrow> fill_event r f (\<lambda>_. Ok ()) e = (Ok (), w)"
  by (simp_all add: fill_event_def)

lemma event_eqI:
  "exchange_ts_ns a = exchange_ts_ns b \<Longrightarrow> receive_ts_ns a = receive_ts_ns b \<Longrightarrow> sequence a = sequence b \<Longrightarrow>
   instrument_id a = instrument_id b \<Longrightarrow> event_type a = event_type b \<Longrightarrow> side a = side b \<Longrightarrow> flags a = flags b \<Longrightarrow>
   price_ticks a = price_ticks b \<Longrightarrow> quantity a = quantity b \<Longrightarrow> venue_id a = venue_id b \<Longrightarrow>
   source_id a = source_id b \<Longrightarrow> trade_or_order_id a = trade_or_order_id b \<Longrightarrow> a = (b :: CanonicalEvent)"
  by (rule CanonicalEvent.equality) simp_all

lemma decode_encode_payload:
  assumes ok: "event_ok (wire_form ts e)" and "event_type e \<le> Heartbeat" and m: "message_of_event (event_type e) = Some (ty, n)"
  shows "decode_payload ty (encode_payload e @ rest) (of_nat n)
      (e0\<lparr>receive_ts_ns := (if 0 < ts then ts else exchange_ts_ns e), sequence := sequence e\<rparr>)
    = (Ok (), wire_form ts e)"
proof -
  define r where "r = (if 0 < ts then ts else exchange_ts_ns e)"
  have v: "event_validate (wire_form ts e) = Ok ()" using ok by (simp add: event_validate_iff)
  consider (q) "event_type e = Quote" | (t) "event_type e = Trade" | (b) "event_type e = BookDelta"
    | (s) "event_type e = StatusEvent" | (h) "event_type e = Heartbeat"
    using assms(2) unfolding byte_le_cases by blast
  then show ?thesis
  proof cases
    case q
    have sd: "side e = Bid \<or> side e = Ask"
      using ok q by (auto simp: event_ok_def wire_form_def Let_def byte_le_cases)
    have m': "ty = MT_Quote" "n = 40" using m q by (auto simp: message_of_event_def frame_sizes)
    show ?thesis
      unfolding r_def [symmetric] decode_payload_def decode_quote_def m'
      by (simp add: frame_sizes encode_payload_def q split del: if_split)
        (rule fill_event_Ok(1) [OF quote.get_put_s v], rule event_eqI; use sd in \<open>auto simp: wire_form_def Let_def r_def q\<close>)
  next
    case t
    have m': "ty = MT_Trade" "n = 40" using m t by (auto simp: message_of_event_def frame_sizes)
    show ?thesis
      unfolding r_def [symmetric] decode_payload_def decode_trade_def m'
      by (simp add: frame_sizes encode_payload_def t split del: if_split)
        (rule fill_event_Ok(1) [OF trade.get_put_s v], rule event_eqI; simp add: wire_form_def Let_def r_def t)
  next
    case b
    have m': "ty = MT_BookDelta" "n = 48" using m b by (auto simp: message_of_event_def frame_sizes)
    show ?thesis
      unfolding r_def [symmetric] decode_payload_def decode_book_delta_def m'
      by (simp add: frame_sizes encode_payload_def b split del: if_split)
        (rule fill_event_Ok(1) [OF book_delta.get_put_s v], rule event_eqI; simp add: wire_form_def Let_def r_def b flags_widen)
  next
    case s
    have m': "ty = MT_Status" "n = 16" using m s by (auto simp: message_of_event_def frame_sizes)
    show ?thesis
      unfolding r_def [symmetric] decode_payload_def decode_status_def m'
      by (simp add: frame_sizes encode_payload_def s split del: if_split)
        (rule fill_event_Ok(1) [OF status_msg.get_put_s v], rule event_eqI; simp add: wire_form_def Let_def r_def s flags_split)
  next
    case h
    have m': "ty = MT_Heartbeat" "n = 8" using m h by (auto simp: message_of_event_def frame_sizes)
    show ?thesis
      unfolding r_def [symmetric] decode_payload_def decode_heartbeat_def m'
      by (simp add: frame_sizes encode_payload_def h split del: if_split)
        (rule fill_event_Ok(2) [OF heartbeat_msg.get_put_s], rule event_eqI; simp add: wire_form_def Let_def r_def h)
  qed
qed

lemma encode_event_frame:
  assumes "message_of_event (event_type e) = Some (ty, n)" "FrameHeader_Size + n \<le> length buffer"
    and "length (encode_payload e) \<le> n" "n \<le> 48"
  obtains p rest where "encode_event enc e buffer session
      = (Ok (40 + n), write_header (frame_of ty 0 session (sequence e) (exchange_ts_ns e) p) @ p @ rest,
         enc\<lparr>frames_encoded := frames_encoded enc + 1\<rparr>)"
    "length p = n" "take (length (encode_payload e)) p = encode_payload e" "length (p @ rest) + 40 = length buffer"
proof -
  let ?b = "put_bytes FrameHeader_Size (encode_payload e) buffer"
  let ?p = "take n (drop FrameHeader_Size ?b)" and ?rest = "drop (FrameHeader_Size + n) ?b"
  have b: "length ?b = length buffer" using assms(2,3) by simp
  have d: "drop FrameHeader_Size ?b = encode_payload e @ drop (FrameHeader_Size + length (encode_payload e)) buffer"
    using assms(2) by (simp add: put_bytes_def)
  have p: "length ?p = n" using assms(2) b by simp
  have t: "take (length (encode_payload e)) ?p = encode_payload e"
    unfolding d using assms(3) by (simp add: min_def)
  have "write_frame ?b ty 0 session (sequence e) (exchange_ts_ns e) (Some (drop FrameHeader_Size ?b)) (of_nat (length ?p))
      = Ok (write_header (frame_of ty 0 session (sequence e) (exchange_ts_ns e) ?p) @ ?p
          @ drop (FrameHeader_Size + length ?p) ?b)"
    using assms(2,4) p b by (intro write_frame_eq) (simp_all add: MaxPayloadLength_def)
  then have "encode_event enc e buffer session
      = (Ok (40 + n), write_header (frame_of ty 0 session (sequence e) (exchange_ts_ns e) ?p) @ ?p @ ?rest,
         enc\<lparr>frames_encoded := frames_encoded enc + 1\<rparr>)"
    using assms(1,2) p by (simp add: encode_event_def Let_def) (simp add: FrameHeader_Size_def)
  then show ?thesis using that [of ?p ?rest] p t b assms(2) by (simp add: FrameHeader_Size_def)
qed

lemma decode_frame_of_event:
  assumes ok: "event_ok (wire_form ts e)" and ty: "event_type e \<le> Heartbeat" "message_of_event (event_type e) = Some (ty, n)"
    and p: "length p = n" "take (length (encode_payload e)) p = encode_payload e" "n \<le> 48"
    and t: "ty \<le> MT_Heartbeat" and seq: "last_sequence d < sequence e"
  shows "decode_frame d (write_header (frame_of ty 0 session (sequence e) (exchange_ts_ns e) p) @ p @ rest) e0 ts
    = (Ok (40 + n), wire_form ts e, d\<lparr>last_session_id := session, last_sequence := sequence e,
        frames_decoded := frames_decoded d + 1\<rparr>)"
proof -
  let ?h = "frame_of ty 0 session (sequence e) (exchange_ts_ns e) p"
  let ?data = "write_header ?h @ p @ rest"
  have small: "length p \<le> MaxPayloadLength" using p by (simp add: MaxPayloadLength_def)
  have pr: "p @ rest = encode_payload e @ drop (length (encode_payload e)) p @ rest"
    using append_take_drop_id [of "length (encode_payload e)" p] p(2) by simp
  have "decode_payload ty (p @ rest) (of_nat n)
      (e0\<lparr>receive_ts_ns := (if 0 < ts then ts else exchange_ts_ns e), sequence := sequence e\<rparr>) = (Ok (), wire_form ts e)"
    unfolding pr by (rule decode_encode_payload [OF ok ty])
  moreover have "read_frame ?data = Ok (Some (40 + n, ?h, p @ rest))"
    using read_frame_of [OF small] p(1) by simp
  moreover have "Frame_validate ?h (Some (p @ rest)) (length ?data) = Ok ()"
    using t by (intro validate_frame_of [OF small]) simp_all
  ultimately show ?thesis using seq p(1) by (cases "0 < ts") (simp_all add: decode_frame_def Let_def not_le)
qed

section \<open>Properties\<close>

text \<open>
  C10. Decoding inverts encoding: an event within limits, encoded into a buffer of 88 bytes or more
  and decoded by a decoder that has seen smaller sequence numbers only, comes back in the form the
  wire carries; both sides report the same number of bytes and count the frame. For a book delta
  every field is carried.
\<close>

theorem decode_encode_event:
  assumes "event_ok (wire_form ts e)" "event_type e \<le> Heartbeat"
    and "88 \<le> length buffer" "last_sequence d < sequence e"
  shows "\<exists>n frame enc' d'. encode_event enc e buffer session = (Ok n, frame, enc')
    \<and> decode_frame d frame e0 ts = (Ok n, wire_form ts e, d')
    \<and> length frame = length buffer
    \<and> frames_encoded enc' = frames_encoded enc + 1 \<and> frames_decoded d' = frames_decoded d + 1
    \<and> last_sequence d' = sequence e \<and> last_session_id d' = session
    \<and> (event_type e = BookDelta \<and> ts = receive_ts_ns e \<and> 0 < ts \<longrightarrow> wire_form ts e = e)"
proof -
  obtain ty n where m: "message_of_event (event_type e) = Some (ty, n)" "ty \<le> MT_Heartbeat"
      "length (encode_payload e) \<le> n" "n \<le> 48"
    using message_of_event_type [OF assms(2)] by blast
  have len: "FrameHeader_Size + n \<le> length buffer" using assms(3) m(4) by (simp add: FrameHeader_Size_def)
  from encode_event_frame [OF m(1) len m(3,4), of enc session] obtain p rest where f:
    "encode_event enc e buffer session
      = (Ok (40 + n), write_header (frame_of ty 0 session (sequence e) (exchange_ts_ns e) p) @ p @ rest,
         enc\<lparr>frames_encoded := frames_encoded enc + 1\<rparr>)"
    "length p = n" "take (length (encode_payload e)) p = encode_payload e" "length (p @ rest) + 40 = length buffer"
    by blast
  have "event_type e = BookDelta \<and> ts = receive_ts_ns e \<and> 0 < ts \<longrightarrow> wire_form ts e = e"
    by (auto simp: wire_form_def)
  then show ?thesis
    using decode_frame_of_event [OF assms(1,2) m(1) f(2,3) m(4,2) assms(4), of session rest e0] f by simp
qed

theorem decode_encode_event_witness:
  "\<exists>n frame enc' d'. encode_event \<lparr>frames_encoded = 0, encode_errors = 0\<rparr>
        (make_trade 10 20 5 3 Ask (- 7) 100 99 2 1) (replicate 100 0) 42 = (Ok n, frame, enc')
    \<and> decode_frame Decoder_init frame make_empty_event 20
        = (Ok n, make_trade 10 20 5 3 Ask (- 7) 100 99 2 1, d')"
proof -
  let ?e = "make_trade 10 20 5 3 Ask (- 7) 100 99 2 1"
  have w: "wire_form 20 ?e = ?e" by (simp add: wire_form_def make_trade_def)
  have "event_ok (wire_form 20 ?e)"
    unfolding w by (simp add: event_ok_def make_trade_def event_limits)
  then show ?thesis
    using decode_encode_event [of 20 ?e "replicate 100 0" Decoder_init
        "\<lparr>frames_encoded = 0, encode_errors = 0\<rparr>" 42 make_empty_event] w
    by (simp add: Decoder_init_def make_trade_def) blast
qed

text \<open>
  C9. Memory safety: on arbitrary bytes of any length, in any decoder state, decoding never reads
  outside the buffer; a frame that is accepted is at least one header long and lies inside the buffer.
\<close>

theorem decode_frame_memory_safe:
  "fst (decode_frame d data e ts) \<noteq> Fault
   \<and> (fst (decode_frame d data e ts) = Ok n \<longrightarrow> 40 \<le> n \<and> n \<le> length data)"
proof (intro conjI impI)
  show "fst (decode_frame d data e ts) \<noteq> Fault" by (rule decode_frame_safe)
  assume "fst (decode_frame d data e ts) = Ok n"
  then obtain e' d' where "decode_frame d data e ts = (Ok n, e', d')"
    by (cases "decode_frame d data e ts") auto
  then obtain h where "read_frame data = Ok (Some (n, h, drop 40 data))" by (rule decode_frame_Ok)
  from read_frame_Some [OF this] show "40 \<le> n" "n \<le> length data" by simp_all
qed

theorem decode_frame_memory_safe_witness:
  "fst (decode_frame Decoder_init (write_header (frame_of MT_EndOfStream 0 1 2 3 []) @ [7]) make_empty_event 0) = Ok 40
    \<and> (40::nat) \<le> length (write_header (frame_of MT_EndOfStream 0 1 2 3 []) @ [7])"
proof -
  let ?h = "frame_of MT_EndOfStream 0 1 2 3 []"
  have "read_frame (write_header ?h @ [] @ [7]) = Ok (Some (40 + length ([]::bytes), ?h, [] @ [7]))"
    by (rule read_frame_of) simp
  moreover have "Frame_validate ?h (Some ([] @ [7])) (length (write_header ?h @ [7])) = Ok ()"
    by (rule validate_frame_of) simp_all
  ultimately have "fst (decode_frame Decoder_init (write_header ?h @ [7]) make_empty_event 0) = Ok 40"
    by (simp add: decode_frame_def is_control_def decode_payload_def)
  then show ?thesis
    using decode_frame_memory_safe [of Decoder_init "write_header ?h @ [7]" make_empty_event 0 40] by blast
qed

text \<open>
  C11. Sequence monotonicity: over any run of data frames, with refused frames in between, the events
  a decoder delivers have strictly increasing sequence numbers above its starting one, every event
  but a heartbeat is within limits, and the frame counter counts them.
\<close>

theorem decoder_monotone:
  assumes "decoder_run d es d'"
  shows "sorted_wrt (<) (map sequence es) \<and> distinct (map sequence es)
    \<and> (\<forall>e\<in>set es. last_sequence d < sequence e \<and> sequence e \<le> last_sequence d'
         \<and> (event_type e = Heartbeat \<or> event_validate e = Ok ()))
    \<and> frames_decoded d' = frames_decoded d + of_nat (length es)"
proof -
  note r = decoder_run_sequences [OF assms]
  then have "distinct (map sequence es)" by (simp add: strict_sorted_iff)
  then show ?thesis using r by (auto simp: event_validate_iff)
qed

theorem decoder_monotone_witness:
  "\<exists>d'. decoder_run Decoder_init [make_trade 10 20 5 3 Ask (- 7) 100 99 2 1] d'
    \<and> frames_decoded d' = 1"
proof -
  let ?e = "make_trade 10 20 5 3 Ask (- 7) 100 99 2 1"
  let ?p = "encode_payload ?e"
  let ?f = "write_header (frame_of MT_Trade 0 42 (sequence ?e) (exchange_ts_ns ?e) ?p) @ ?p @ []"
  have w: "wire_form 20 ?e = ?e" by (simp add: wire_form_def make_trade_def)
  have ok: "event_ok (wire_form 20 ?e)"
    unfolding w by (simp add: event_ok_def make_trade_def event_limits)
  have l: "length ?p = 40" by (simp add: encode_payload_def make_trade_def)
  have m: "message_of_event (event_type ?e) = Some (MT_Trade, 40)"
    by (simp add: message_of_event_def make_trade_def TradePayload_Size_def)
  have "decode_frame Decoder_init ?f make_empty_event 20 = (Ok (40 + 40), wire_form 20 ?e,
      Decoder_init\<lparr>last_session_id := 42, last_sequence := sequence ?e, frames_decoded := frames_decoded Decoder_init + 1\<rparr>)"
    by (rule decode_frame_of_event [OF ok _ m]) (use l in \<open>simp_all add: make_trade_def Decoder_init_def\<close>)
  moreover have "\<not> is_control (?f ! 5)" by (simp add: is_control_def write_header_def nth_append)
  ultimately have "decoder_run Decoder_init [?e] (Decoder_init\<lparr>last_session_id := 42, last_sequence := sequence ?e,
      frames_decoded := frames_decoded Decoder_init + 1\<rparr>)"
    unfolding w by (rule run_event [OF _ _ run_done])
  then show ?thesis using decoder_monotone by (force simp: Decoder_init_def)
qed

text \<open>A control frame may set the sequence number back, so the guarantee does not extend across it.\<close>

lemma control_frame_resets_sequence:
  "\<exists>data. is_control (data ! 5) \<and>
     last_sequence (snd (snd (decode_frame (Decoder_init\<lparr>last_sequence := 9\<rparr>) data e 0))) = 0"
proof -
  let ?h = "frame_of MT_EndOfStream 0 1 0 3 []"
  have r: "read_frame (write_header ?h @ [] @ []) = Ok (Some (40 + length ([]::bytes), ?h, [] @ []))"
    by (rule read_frame_of) simp
  moreover have "Frame_validate ?h (Some ([] @ [])) (length (write_header ?h)) = Ok ()"
    by (rule validate_frame_of) simp_all
  ultimately show ?thesis
    using read_frame_type [OF r]
    by (intro exI [of _ "write_header ?h"]) (simp add: decode_frame_def is_control_def decode_payload_def)
qed

end
