(* ===== verification/Pcap.thy ===== *)
theory Pcap
  imports Endian
begin

text \<open>
  Model of \<^verbatim>\<open>include/vectortick/protocol/pcap_reader.hpp\<close> and \<^verbatim>\<open>src/protocol/pcap_reader.cpp\<close>. The memory
  mapping is the list of the bytes of the file, and mapping it is a parameter of \<open>PcapReader_open\<close>. A
  pointer into the mapping is an offset. Every read goes through \<open>load\<close>, so that an access outside the
  mapping would show as \<open>Fault\<close>.
\<close>

section \<open>State\<close>

definition GlobalHeader_Size :: nat where "GlobalHeader_Size = 24"
definition PacketHeader_Size :: nat where "PacketHeader_Size = 16"
definition Ethernet_HeaderSize :: nat where "Ethernet_HeaderSize = 14"
definition IPv4_MinSize :: nat where "IPv4_MinSize = 20"
definition UDPHeader_Size :: nat where "UDPHeader_Size = 8"

abbreviation LinkNull :: u32 where "LinkNull \<equiv> 0"
abbreviation LinkEthernet :: u32 where "LinkEthernet \<equiv> 1"
abbreviation LinkLoopback :: u32 where "LinkLoopback \<equiv> 108"

abbreviation EtherTypeIPv4 :: u16 where "EtherTypeIPv4 \<equiv> 0x0800"
abbreviation EtherTypeVLAN :: u16 where "EtherTypeVLAN \<equiv> 0x8100"
abbreviation EtherTypeVLANOuter :: u16 where "EtherTypeVLANOuter \<equiv> 0x88A8"
abbreviation ProtocolUDP :: u8 where "ProtocolUDP \<equiv> 17"

record PcapReader =
  mapping :: bytes
  mapping_open :: bool
  pcap_offset :: nat
  is_big_endian :: bool
  is_nanosecond_ts :: bool
  snaplen :: u32
  link_type :: u32
  packet_ts_ns :: u64
  packet_size :: nat
  packet_data :: nat
  vtp1_payload :: "nat option"
  vtp1_payload_size :: nat
  packets_read :: u64
  vtp1_frames_found :: u64
  parse_errors :: u64

definition PcapReader_init :: PcapReader where
  "PcapReader_init = \<lparr>mapping = [], mapping_open = False, pcap_offset = 0, is_big_endian = False,
     is_nanosecond_ts = False, snaplen = 0, link_type = LinkEthernet, packet_ts_ns = 0, packet_size = 0,
     packet_data = 0, vtp1_payload = None, vtp1_payload_size = 0, packets_read = 0, vtp1_frames_found = 0,
     parse_errors = 0\<rparr>"

definition PcapReader_close :: "PcapReader \<Rightarrow> PcapReader" where
  "PcapReader_close r = r\<lparr>mapping := [], mapping_open := False\<rparr>"

definition PcapReader_reset :: "PcapReader \<Rightarrow> PcapReader" where
  "PcapReader_reset r = r\<lparr>pcap_offset := GlobalHeader_Size, packets_read := 0, vtp1_frames_found := 0, parse_errors := 0\<rparr>"

text \<open>Reads in the byte order of the file.\<close>

definition load_u16 :: "bool \<Rightarrow> nat \<Rightarrow> bytes \<Rightarrow> u16 outcome" where
  "load_u16 be off buf = obind (load off 2 buf) (\<lambda>bs. Ok (if be then read_be_u16 True bs else read_le_u16 True bs))"

definition load_u32 :: "bool \<Rightarrow> nat \<Rightarrow> bytes \<Rightarrow> u32 outcome" where
  "load_u32 be off buf = obind (load off 4 buf) (\<lambda>bs. Ok (if be then read_be_u32 True bs else read_le_u32 True bs))"

definition load_u8 :: "nat \<Rightarrow> bytes \<Rightarrow> u8 outcome" where
  "load_u8 off buf = obind (load off 1 buf) (\<lambda>bs. Ok (hd bs))"

section \<open>Opening a file\<close>

definition magic_format :: "u32 \<Rightarrow> (bool \<times> bool) option" where
  "magic_format magic =
     (if magic = 0xA1B2C3D4 then Some (False, False)
      else if magic = 0xA1B23C4D then Some (False, True)
      else if magic = 0xD4C3B2A1 then Some (True, False)
      else if magic = 0x4D3CB2A1 then Some (True, True) else None)"

definition parse_global_header :: "PcapReader \<Rightarrow> unit outcome \<times> PcapReader" where
  "parse_global_header r =
     (if length (mapping r) < GlobalHeader_Size then (Err PcapInvalidHeader, r)
      else case load_u32 False 0 (mapping r) of
        Fault \<Rightarrow> (Fault, r) | Err c \<Rightarrow> (Err c, r)
      | Ok magic \<Rightarrow>
         (case magic_format magic of None \<Rightarrow> (Err PcapInvalidHeader, r)
          | Some (be, ns) \<Rightarrow>
             let r = r\<lparr>is_big_endian := be, is_nanosecond_ts := ns\<rparr> in
             (case load_u16 be 4 (mapping r) of Fault \<Rightarrow> (Fault, r) | Err c \<Rightarrow> (Err c, r)
              | Ok version_major \<Rightarrow>
                 if version_major \<noteq> 2 then (Err PcapInvalidHeader, r)
                 else (case load_u32 be 16 (mapping r) of Fault \<Rightarrow> (Fault, r) | Err c \<Rightarrow> (Err c, r)
                  | Ok snap \<Rightarrow> (case load_u32 be 20 (mapping r) of Fault \<Rightarrow> (Fault, r) | Err c \<Rightarrow> (Err c, r)
                    | Ok network \<Rightarrow>
                       let r = r\<lparr>snaplen := snap, link_type := network\<rparr> in
                       if network \<noteq> LinkEthernet \<and> network \<noteq> LinkNull \<and> network \<noteq> LinkLoopback
                       then (Err PcapUnsupportedLinkType, r)
                       else (Ok (), r\<lparr>pcap_offset := GlobalHeader_Size\<rparr>))))))"

text \<open>\<open>file\<close> is the result of \<^verbatim>\<open>MappedFile::open_read\<close>.\<close>

definition PcapReader_open :: "bytes outcome \<Rightarrow> PcapReader \<Rightarrow> unit outcome \<times> PcapReader" where
  "PcapReader_open file r =
     (case file of Ok m \<Rightarrow> parse_global_header (r\<lparr>mapping := m, mapping_open := True, pcap_offset := 0\<rparr>)
      | Err c \<Rightarrow> (Err c, r) | Fault \<Rightarrow> (Fault, r))"

section \<open>Packet layers\<close>

text \<open>A layer takes the packet and the offset reached and returns the new offset.\<close>

definition parse_ethernet :: "bytes \<Rightarrow> nat \<Rightarrow> nat outcome" where
  "parse_ethernet data offset =
     (if length data < offset + Ethernet_HeaderSize then Err PcapTruncatedRecord
      else obind (load_u16 True (offset + 12) data) (\<lambda>ether_type.
        let finish = (\<lambda>offset ether_type.
              if ether_type \<noteq> EtherTypeIPv4 then Ok offset else Ok (offset + Ethernet_HeaderSize)) in
        if ether_type = EtherTypeVLAN \<or> ether_type = EtherTypeVLANOuter then
          let offset = offset + 4 in
          if length data < offset + Ethernet_HeaderSize then Err PcapTruncatedRecord
          else obind (load_u16 True (offset + 12) data) (\<lambda>ether_type.
            if ether_type = EtherTypeVLAN then
              let offset = offset + 4 in
              if length data < offset + Ethernet_HeaderSize then Err PcapTruncatedRecord
              else obind (load_u16 True (offset + 12) data) (\<lambda>ether_type. finish offset ether_type)
            else finish offset ether_type)
        else finish offset ether_type))"

definition ip_version :: "u8 \<Rightarrow> u8" where
  "ip_version version_ihl = drop_bit 4 version_ihl AND 0x0F"

definition ip_ihl :: "u8 \<Rightarrow> nat" where
  "ip_ihl version_ihl = unat ((version_ihl AND 0x0F) * 4)"

definition ip_is_fragmented :: "u16 \<Rightarrow> bool" where
  "ip_is_fragmented ff = (ff AND 0x2000 \<noteq> 0 \<or> ff AND 0x1FFF \<noteq> 0)"

definition parse_ipv4 :: "bytes \<Rightarrow> nat \<Rightarrow> nat outcome" where
  "parse_ipv4 data offset =
     (if length data < offset + IPv4_MinSize then Err PcapInvalidIPv4Header
      else obind (load_u8 offset data) (\<lambda>version_ihl.
        if ip_version version_ihl \<noteq> 4 then Err PcapInvalidIPv4Header
        else let ihl = ip_ihl version_ihl in
        if ihl < IPv4_MinSize then Err PcapInvalidIPv4Header
        else if length data < offset + ihl then Err PcapInvalidIPv4Header
        else obind (load_u16 True (offset + 6) data) (\<lambda>flags_fragment.
          if ip_is_fragmented flags_fragment then Err PcapFragmentedPacket
          else obind (load_u8 (offset + 9) data) (\<lambda>protocol.
            if protocol \<noteq> ProtocolUDP then Ok offset
            else obind (load_u16 True (offset + 2) data) (\<lambda>total_len.
              if unat total_len < ihl + UDPHeader_Size then Err PcapInvalidIPv4Header
              else Ok (offset + ihl))))))"

definition parse_udp :: "bytes \<Rightarrow> nat \<Rightarrow> (nat \<times> nat) outcome" where
  "parse_udp data offset =
     (if length data < offset + UDPHeader_Size then Err PcapInvalidUDPHeader
      else obind (load_u16 True (offset + 4) data) (\<lambda>udp_len.
        if unat udp_len < UDPHeader_Size then Err PcapInvalidUDPHeader
        else if length data < offset + unat udp_len then Err PcapInvalidUDPHeader
        else Ok (offset + UDPHeader_Size, unat udp_len - UDPHeader_Size)))"

text \<open>\<^verbatim>\<open>parse_udp\<close> sets the payload size and \<^verbatim>\<open>parse_vtp1\<close> overwrites it with all that is left.\<close>

definition parse_vtp1 :: "nat \<Rightarrow> nat \<Rightarrow> PcapReader \<Rightarrow> PcapReader" where
  "parse_vtp1 data len r =
     r\<lparr>vtp1_payload := Some data, vtp1_payload_size := len, vtp1_frames_found := vtp1_frames_found r + 1\<rparr>"

definition parse_packet :: "PcapReader \<Rightarrow> unit outcome \<times> PcapReader" where
  "parse_packet r =
     (let data = get_bytes (packet_data r) (packet_size r) (mapping r);
          link = (if link_type r = LinkNull \<or> link_type r = LinkLoopback
                  then (if length data < 4 then Err PcapTruncatedRecord else Ok 4)
                  else parse_ethernet data 0)
      in case obind link (parse_ipv4 data) of
           Fault \<Rightarrow> (Fault, r) | Err c \<Rightarrow> (Err c, r)
         | Ok offset \<Rightarrow>
            (case parse_udp data offset of Fault \<Rightarrow> (Fault, r) | Err c \<Rightarrow> (Err c, r)
             | Ok (offset, n) \<Rightarrow>
                 (Ok (), parse_vtp1 (packet_data r + offset) (length data - offset)
                           (r\<lparr>vtp1_payload_size := n\<rparr>))))"

section \<open>Reading packets\<close>

text \<open>The result is the number of bytes consumed, 0 at the end of the file.\<close>

definition read_next :: "PcapReader \<Rightarrow> nat outcome \<times> PcapReader" where
  "read_next r =
     (if \<not> mapping_open r then (Err FileNotFound, r)
      else if length (mapping r) \<le> pcap_offset r then (Ok 0, r)
      else if length (mapping r) < pcap_offset r + PacketHeader_Size then (Err PcapTruncatedRecord, r)
      else let rd = (\<lambda>k. load_u32 (is_big_endian r) (pcap_offset r + k) (mapping r)) in
        case obind (rd 0) (\<lambda>ts_sec. obind (rd 4) (\<lambda>ts_usec. obind (rd 8) (\<lambda>incl_len.
               obind (rd 12) (\<lambda>orig_len. Ok (ts_sec, ts_usec, incl_len))))) of
          Fault \<Rightarrow> (Fault, r) | Err c \<Rightarrow> (Err c, r)
        | Ok (ts_sec, ts_usec, incl_len) \<Rightarrow>
            if snaplen r < incl_len
              \<or> length (mapping r) - pcap_offset r - PacketHeader_Size < unat incl_len
            then (Err PcapTruncatedRecord, r)
            else if incl_len = 0 then (Err PcapTruncatedRecord, r)
            else
              let ts = ucast ts_sec * 1000000000;
                  ts = (if is_nanosecond_ts r then ts + ucast ts_usec else ts + ucast ts_usec * 1000);
                  r = r\<lparr>packet_ts_ns := ts, packet_size := unat incl_len,
                        packet_data := pcap_offset r + PacketHeader_Size,
                        vtp1_payload := None, vtp1_payload_size := 0\<rparr>
              in case parse_packet r of
                   (Fault, r) \<Rightarrow> (Fault, r)
                 | (status, r) \<Rightarrow>
                     let r = (if is_ok status then r else r\<lparr>parse_errors := parse_errors r + 1\<rparr>);
                         consumed = PacketHeader_Size + unat incl_len
                     in (Ok consumed, r\<lparr>pcap_offset := pcap_offset r + consumed, packets_read := packets_read r + 1\<rparr>))"

lemmas pcap_sizes = GlobalHeader_Size_def PacketHeader_Size_def Ethernet_HeaderSize_def IPv4_MinSize_def
  UDPHeader_Size_def

section \<open>Memory safety and progress\<close>

lemma load_not_Fault: "off + n \<le> length buf \<Longrightarrow> load off n buf \<noteq> Fault"
  by (simp add: load_def)

lemma load_u_Ok [simp]:
  "off + 2 \<le> length buf \<Longrightarrow> load_u16 be off buf = Ok (if be then be_word (get_bytes off 2 buf) else le_word (get_bytes off 2 buf))"
  "off + 4 \<le> length buf \<Longrightarrow> load_u32 be off buf = Ok (if be then be_word (get_bytes off 4 buf) else le_word (get_bytes off 4 buf))"
  "off + 1 \<le> length buf \<Longrightarrow> load_u8 off buf = Ok (buf ! off)"
  by (simp_all add: load_u16_def load_u32_def load_u8_def load_def get_bytes_def hd_drop_conv_nth hd_take)

lemma parse_global_header_safe:
  "fst (parse_global_header r) \<noteq> Fault \<and> mapping (snd (parse_global_header r)) = mapping r
    \<and> mapping_open (snd (parse_global_header r)) = mapping_open r"
  by (auto simp: parse_global_header_def pcap_sizes Let_def split: option.split)

lemma parse_ethernet_safe: "parse_ethernet data 0 \<noteq> Fault"
  by (simp add: parse_ethernet_def pcap_sizes Let_def)

lemma parse_ipv4_safe: "parse_ipv4 data off \<noteq> Fault"
  by (simp add: parse_ipv4_def pcap_sizes Let_def)

lemma parse_udp_safe: "parse_udp data off \<noteq> Fault"
  by (simp add: parse_udp_def pcap_sizes)

lemma parse_udp_bound: "parse_udp data off = Ok (off', n) \<Longrightarrow> off' + n \<le> length data"
  by (auto simp: parse_udp_def pcap_sizes obind_eq_Ok split: if_splits)

lemma parse_packet_safe: "fst (parse_packet r) \<noteq> Fault"
  using parse_ethernet_safe parse_ipv4_safe parse_udp_safe
  by (auto simp: parse_packet_def Let_def obind_def split: outcome.split)

text \<open>Parsing a packet changes the payload fields and the frame counter only.\<close>

lemma parse_packet_frame:
  assumes "parse_packet r = (st, r')"
  shows "mapping r' = mapping r" "mapping_open r' = mapping_open r" "pcap_offset r' = pcap_offset r"
    "packet_size r' = packet_size r" "packet_data r' = packet_data r" "snaplen r' = snaplen r"
    "packets_read r' = packets_read r"
  using assms by (auto simp: parse_packet_def parse_vtp1_def Let_def split: outcome.splits)

lemma parse_packet_payload:
  assumes "parse_packet r = (st, r')" "vtp1_payload r = None" "vtp1_payload_size r = 0"
    and "packet_data r + packet_size r \<le> length (mapping r)"
  shows "case vtp1_payload r' of None \<Rightarrow> vtp1_payload_size r' = 0
    | Some p \<Rightarrow> packet_data r \<le> p \<and> p + vtp1_payload_size r' = packet_data r + packet_size r"
proof -
  have len: "length (get_bytes (packet_data r) (packet_size r) (mapping r)) = packet_size r"
    using assms(4) by simp
  show ?thesis
    using assms(1-3) len
    by (auto simp: parse_packet_def parse_vtp1_def Let_def split: outcome.splits dest: parse_udp_bound)
qed

lemma read_next_cases:
  assumes "mapping_open r" "pcap_offset r < length (mapping r)"
  obtains (truncated) "fst (read_next r) = Err PcapTruncatedRecord" "snd (read_next r) = r"
  | (packet) n r' where "read_next r = (Ok n, r')" "16 < n" "pcap_offset r' = pcap_offset r + n"
      "pcap_offset r' \<le> length (mapping r)" "mapping r' = mapping r" "mapping_open r'"
      "packets_read r' = packets_read r + 1" "packet_data r' = pcap_offset r + 16" "packet_size r' = n - 16"
      "case vtp1_payload r' of None \<Rightarrow> vtp1_payload_size r' = 0
        | Some p \<Rightarrow> packet_data r' \<le> p \<and> p + vtp1_payload_size r' = pcap_offset r'"
proof (cases "length (mapping r) < pcap_offset r + PacketHeader_Size")
  case True
  then show ?thesis using truncated assms by (simp add: read_next_def)
next
  case False
  let ?rd = "\<lambda>k. load_u32 (is_big_endian r) (pcap_offset r + k) (mapping r)"
  obtain a b c where h: "?rd 0 = Ok a" "?rd 4 = Ok b" "?rd 8 = Ok c" "is_ok (?rd 12)"
    using False by (simp add: PacketHeader_Size_def)
  obtain d where d: "?rd 12 = Ok d" using h(4) by (cases "?rd 12") simp_all
  show ?thesis
  proof (cases "snaplen r < c \<or> length (mapping r) - pcap_offset r - PacketHeader_Size < unat c \<or> c = 0")
    case True
    then show ?thesis using truncated assms False h d by (auto simp: read_next_def Let_def)
  next
    case ok: False
    define ts :: u64 where "ts = (if is_nanosecond_ts r then ucast a * 1000000000 + ucast b
      else ucast a * 1000000000 + ucast b * 1000)"
    define r1 where "r1 = r\<lparr>packet_ts_ns := ts, packet_size := unat c, packet_data := pcap_offset r + PacketHeader_Size,
      vtp1_payload := None, vtp1_payload_size := 0\<rparr>"
    obtain st r2 where p: "parse_packet r1 = (st, r2)" by fastforce
    have st: "st \<noteq> Fault" using parse_packet_safe [of r1] p by simp
    define r3 where "r3 = (if is_ok st then r2 else r2\<lparr>parse_errors := parse_errors r2 + 1\<rparr>)"
    define r4 where "r4 = r3\<lparr>pcap_offset := pcap_offset r3 + (PacketHeader_Size + unat c), packets_read := packets_read r3 + 1\<rparr>"
    have c: "0 < unat c" using ok by (simp add: unat_gt_0)
    have fit: "pcap_offset r + 16 + unat c \<le> length (mapping r)"
      using ok False by (auto simp: PacketHeader_Size_def not_less)
    have rn: "read_next r = (Ok (PacketHeader_Size + unat c), r4)"
      using assms False h d ok p st
      by (cases st) (auto simp: read_next_def Let_def r1_def ts_def r3_def r4_def)
    note fr = parse_packet_frame [OF p]
    have r4: "mapping r4 = mapping r" "mapping_open r4" "pcap_offset r4 = pcap_offset r + (16 + unat c)"
      "packets_read r4 = packets_read r + 1" "packet_data r4 = pcap_offset r + 16" "packet_size r4 = unat c"
      "vtp1_payload r4 = vtp1_payload r2" "vtp1_payload_size r4 = vtp1_payload_size r2"
      using fr assms(1) by (simp_all add: r4_def r3_def r1_def PacketHeader_Size_def)
    have "case vtp1_payload r4 of None \<Rightarrow> vtp1_payload_size r4 = 0
        | Some q \<Rightarrow> packet_data r4 \<le> q \<and> q + vtp1_payload_size r4 = pcap_offset r4"
      using parse_packet_payload [OF p] fit r4
      by (simp add: r1_def PacketHeader_Size_def add.assoc split: option.splits)
    then show ?thesis
      using packet [OF rn] r4 c fit by (simp add: PacketHeader_Size_def)
  qed
qed

lemma read_next_safe: "fst (read_next r) \<noteq> Fault"
proof (cases "mapping_open r \<and> pcap_offset r < length (mapping r)")
  case True
  then have "mapping_open r" "pcap_offset r < length (mapping r)" by simp_all
  then show ?thesis by (cases rule: read_next_cases) auto
next
  case False
  then show ?thesis by (auto simp: read_next_def)
qed

lemma read_next_progress:
  assumes "read_next r = (Ok n, r')" "n \<noteq> 0"
  shows "length (mapping r') - pcap_offset r' < length (mapping r) - pcap_offset r"
    and "mapping_open r" "pcap_offset r < length (mapping r)"
proof -
  show o: "mapping_open r" and l: "pcap_offset r < length (mapping r)"
    using assms by (auto simp: read_next_def split: if_splits)
  show "length (mapping r') - pcap_offset r' < length (mapping r) - pcap_offset r"
    using assms(1) by (cases rule: read_next_cases [OF o l]) auto
qed

text \<open>
  The packet loop of the ingest application, without the work on each packet: read until the end of
  the file or the first error. The list holds the reader after each packet.
\<close>

function read_packets :: "PcapReader \<Rightarrow> nat outcome \<times> PcapReader list" where
  "read_packets r = (case read_next r of
      (Ok n, r') \<Rightarrow> if n = 0 then (Ok 0, []) else let (res, rs) = read_packets r' in (res, r' # rs)
    | (Err c, r') \<Rightarrow> (Err c, []) | (Fault, r') \<Rightarrow> (Fault, []))"
  by pat_completeness auto
termination
  by (relation "measure (\<lambda>r. length (mapping r) - pcap_offset r)") (auto dest: read_next_progress(1) [OF sym])

declare read_packets.simps [simp del]

lemma read_packets_step:
  "read_next r = (Ok n, r') \<Longrightarrow> n \<noteq> 0 \<Longrightarrow>
   read_packets r = (fst (read_packets r'), r' # snd (read_packets r'))"
  by (subst read_packets.simps) (simp add: case_prod_beta)

lemma read_packets_stop:
  "\<nexists>n r'. read_next r = (Ok n, r') \<and> n \<noteq> 0 \<Longrightarrow> snd (read_packets r) = [] \<and> fst (read_packets r) = fst (read_next r)"
  by (subst (1 2) read_packets.simps) (auto split: prod.split outcome.split)

definition packet_inside :: "bytes \<Rightarrow> PcapReader \<Rightarrow> bool" where
  "packet_inside file r \<longleftrightarrow> mapping r = file \<and> packet_data r + packet_size r \<le> length file
     \<and> (case vtp1_payload r of None \<Rightarrow> vtp1_payload_size r = 0
         | Some p \<Rightarrow> packet_data r \<le> p \<and> p + vtp1_payload_size r \<le> packet_data r + packet_size r)"

lemma read_packets_inside:
  "fst (read_packets r) \<noteq> Fault \<and> (\<forall>r'\<in>set (snd (read_packets r)). packet_inside (mapping r) r')
   \<and> (mapping_open r \<longrightarrow> pcap_offset r \<le> length (mapping r) \<longrightarrow>
        pcap_offset r + 17 * length (snd (read_packets r)) \<le> length (mapping r))"
proof (induction r rule: read_packets.induct)
  case (1 r)
  show ?case
  proof (cases "\<exists>n r'. read_next r = (Ok n, r') \<and> n \<noteq> 0")
    case False
    then show ?thesis using read_packets_stop [OF False] read_next_safe [of r] by simp
  next
    case True
    then obtain n r' where n: "read_next r = (Ok n, r')" "n \<noteq> 0" by blast
    note IH = "1.IH" [OF n(1) [symmetric] refl n(2)]
    note o = read_next_progress(2,3) [OF n]
    have p: "16 < n" "pcap_offset r' = pcap_offset r + n" "pcap_offset r' \<le> length (mapping r)"
      "mapping r' = mapping r" "mapping_open r'" "packet_inside (mapping r) r'"
      using n(1) by (cases rule: read_next_cases [OF o]; auto simp: packet_inside_def split: option.splits)+
    have "pcap_offset r' + 17 * length (snd (read_packets r')) \<le> length (mapping r)"
      using IH p(3-5) by simp
    then have "pcap_offset r + 17 * Suc (length (snd (read_packets r'))) \<le> length (mapping r)"
      using p(1,2) by simp
    then show ?thesis using IH p(4,6) unfolding read_packets_step [OF n] by simp
  qed
qed

section \<open>Well-formed packets\<close>

text \<open>
  A packet as the formats describe it: Ethernet addresses, up to two VLAN tags, the IPv4 type, an IPv4
  header with up to forty bytes of options, a UDP header and its payload. Every field that the formats
  leave open is arbitrary; the first byte of the IPv4 header holds the version and the number of
  32-bit words of the header.
\<close>

record udp_packet =
  pk_macs :: bytes
  pk_tags :: bytes
  pk_tos :: u8
  pk_total_len :: u16
  pk_ident :: u16
  pk_flags_fragment :: u16
  pk_ttl :: u8
  pk_ip_checksum :: u16
  pk_src_ip :: u32
  pk_dst_ip :: u32
  pk_options :: bytes
  pk_src_port :: u16
  pk_dst_port :: u16
  pk_udp_len :: u16
  pk_udp_checksum :: u16
  pk_payload :: bytes

definition ip_header_bytes :: "udp_packet \<Rightarrow> bytes" where
  "ip_header_bytes p =
     [16 * 4 + of_nat (5 + length (pk_options p) div 4), pk_tos p] @ be_bytes 2 (pk_total_len p)
     @ be_bytes 2 (pk_ident p) @ be_bytes 2 (pk_flags_fragment p)
     @ [pk_ttl p, ProtocolUDP] @ be_bytes 2 (pk_ip_checksum p)
     @ be_bytes 4 (pk_src_ip p) @ be_bytes 4 (pk_dst_ip p) @ pk_options p"

definition udp_header_bytes :: "udp_packet \<Rightarrow> bytes" where
  "udp_header_bytes p = be_bytes 2 (pk_src_port p) @ be_bytes 2 (pk_dst_port p)
     @ be_bytes 2 (pk_udp_len p) @ be_bytes 2 (pk_udp_checksum p)"

definition packet_bytes :: "udp_packet \<Rightarrow> bytes" where
  "packet_bytes p = pk_macs p @ pk_tags p @ be_bytes 2 EtherTypeIPv4
     @ ip_header_bytes p @ udp_header_bytes p @ pk_payload p"

definition vlan_tags :: "bytes \<Rightarrow> bool" where
  "vlan_tags tags \<longleftrightarrow> tags = []
     \<or> (\<exists>a b. tags = [0x81, 0, a, b] \<or> tags = [0x88, 0xA8, a, b])
     \<or> (\<exists>a b c d. tags = [0x81, 0, a, b, 0x81, 0, c, d] \<or> tags = [0x88, 0xA8, a, b, 0x81, 0, c, d])"

text \<open>
  Well formed: whole words of options, not a fragment (the fourteen low bits of the flags field, the
  more-fragments flag and the offset, are zero), a total length that has room for both headers, and a
  UDP length that counts its header and at most the captured payload.
\<close>

definition well_formed_packet :: "udp_packet \<Rightarrow> bool" where
  "well_formed_packet p \<longleftrightarrow> length (pk_macs p) = 12 \<and> vlan_tags (pk_tags p)
     \<and> length (pk_options p) mod 4 = 0 \<and> length (pk_options p) \<le> 40
     \<and> take_bit 14 (pk_flags_fragment p) = 0
     \<and> 20 + length (pk_options p) + 8 \<le> unat (pk_total_len p)
     \<and> 8 \<le> unat (pk_udp_len p) \<and> unat (pk_udp_len p) \<le> 8 + length (pk_payload p)"

lemma be_word_pair: "be_word [a, b] = (push_bit 8 (ucast a) OR ucast b :: u16)"
  by (simp add: be_word_def or.commute)

lemma packet_header_lengths [simp]:
  "length (ip_header_bytes p) = 20 + length (pk_options p)" "length (udp_header_bytes p) = 8"
  by (simp_all add: ip_header_bytes_def udp_header_bytes_def)

lemma length_packet_bytes:
  "well_formed_packet p \<Longrightarrow>
   length (packet_bytes p) = 42 + length (pk_tags p) + length (pk_options p) + length (pk_payload p)"
  by (simp add: packet_bytes_def well_formed_packet_def)

text \<open>The bytes of the IPv4 header and of the UDP header at their places in the packet.\<close>

lemma get_bytes_ip_header:
  assumes "well_formed_packet p" "k + n \<le> 20 + length (pk_options p)"
  shows "get_bytes (14 + length (pk_tags p) + k) n (packet_bytes p) = take n (drop k (ip_header_bytes p))"
  using assms by (simp add: packet_bytes_def get_bytes_def well_formed_packet_def)

lemma nth_ip_header:
  assumes "well_formed_packet p" "k < 20 + length (pk_options p)"
  shows "packet_bytes p ! (14 + length (pk_tags p) + k) = ip_header_bytes p ! k"
  using assms by (simp add: packet_bytes_def nth_append well_formed_packet_def)

lemma get_bytes_udp_length:
  assumes "well_formed_packet p"
  shows "get_bytes (34 + length (pk_tags p) + length (pk_options p) + 4) 2 (packet_bytes p) = be_bytes 2 (pk_udp_len p)"
  using assms by (simp add: packet_bytes_def udp_header_bytes_def get_bytes_def well_formed_packet_def)

lemma parse_ethernet_packet:
  assumes "well_formed_packet p"
  shows "parse_ethernet (packet_bytes p) 0 = Ok (14 + length (pk_tags p))"
proof -
  have macs: "length (pk_macs p) = 12" and tags: "vlan_tags (pk_tags p)"
    using assms by (simp_all add: well_formed_packet_def)
  have get: "get_bytes (12 + length (pk_tags p)) 2 (packet_bytes p) = be_bytes 2 EtherTypeIPv4"
    "14 + length (pk_tags p) + 28 \<le> length (packet_bytes p)"
    using macs by (simp_all add: packet_bytes_def get_bytes_def)
  have tag: "get_bytes (12 + k) 2 (packet_bytes p) = take 2 (drop k (pk_tags p))" if "k + 2 \<le> length (pk_tags p)" for k
    using macs that by (simp add: packet_bytes_def get_bytes_def)
  show ?thesis
    using tags get tag [of 0] tag [of 4]
    by (auto simp: vlan_tags_def parse_ethernet_def pcap_sizes Let_def be_word_pair)
qed

text \<open>The version and header length byte, for every number of option words.\<close>

lemma version_ihl_byte:
  assumes "k \<le> 10"
  shows "ip_version (16 * 4 + of_nat (5 + k)) = 4" "ip_ihl (16 * 4 + of_nat (5 + k)) = 20 + 4 * k"
proof -
  have "\<forall>k\<in>set [0..<11]. ip_version (16 * 4 + of_nat (5 + k)) = 4 \<and> ip_ihl (16 * 4 + of_nat (5 + k)) = 20 + 4 * k"
    by (simp add: upt_rec ip_version_def ip_ihl_def)
  then show "ip_version (16 * 4 + of_nat (5 + k)) = 4" "ip_ihl (16 * 4 + of_nat (5 + k)) = 20 + 4 * k"
    using assms by simp_all
qed

lemma not_fragmented:
  fixes ff :: u16
  assumes "take_bit 14 ff = 0"
  shows "\<not> ip_is_fragmented ff"
proof -
  have "ff AND mask 14 = 0" using assms by (simp add: take_bit_eq_mask)
  then have "ff AND (mask 14 AND 0x2000) = 0" "ff AND (mask 14 AND 0x1FFF) = 0"
    unfolding and.assoc [symmetric] by simp_all
  then show ?thesis by (simp add: ip_is_fragmented_def mask_numeral)
qed

lemma parse_ipv4_packet:
  assumes wf: "well_formed_packet p"
  shows "parse_ipv4 (packet_bytes p) (14 + length (pk_tags p)) = Ok (34 + length (pk_tags p) + length (pk_options p))"
proof -
  let ?d = "packet_bytes p" and ?o = "14 + length (pk_tags p)" and ?k = "length (pk_options p) div 4"
  have k: "?k \<le> 10" "length (pk_options p) = 4 * ?k"
    using wf by (auto simp: well_formed_packet_def)
  have len: "?o + 28 + length (pk_options p) \<le> length ?d"
    using length_packet_bytes [OF wf] by simp
  have b: "?d ! ?o = 16 * 4 + of_nat (5 + ?k)" "?d ! (?o + 9) = ProtocolUDP"
    "get_bytes (?o + 6) 2 ?d = be_bytes 2 (pk_flags_fragment p)" "get_bytes (?o + 2) 2 ?d = be_bytes 2 (pk_total_len p)"
    using nth_ip_header [OF wf, of 0] nth_ip_header [OF wf, of 9]
      get_bytes_ip_header [OF wf, of 6 2] get_bytes_ip_header [OF wf, of 2 2]
    by (simp_all add: ip_header_bytes_def nth_append)
  have "\<not> ip_is_fragmented (pk_flags_fragment p)" "20 + length (pk_options p) + 8 \<le> unat (pk_total_len p)"
    using wf not_fragmented by (auto simp: well_formed_packet_def)
  then show ?thesis
    using len b version_ihl_byte [OF k(1)] k(2) by (simp add: parse_ipv4_def pcap_sizes Let_def del: of_nat_add)
qed

lemma parse_udp_packet:
  assumes wf: "well_formed_packet p"
  shows "parse_udp (packet_bytes p) (34 + length (pk_tags p) + length (pk_options p))
    = Ok (42 + length (pk_tags p) + length (pk_options p), unat (pk_udp_len p) - 8)"
  using wf length_packet_bytes [OF wf] get_bytes_udp_length [OF wf]
  by (auto simp: parse_udp_def pcap_sizes well_formed_packet_def)

lemma parse_packet_packet:
  assumes pk: "get_bytes (packet_data r) (packet_size r) (mapping r) = packet_bytes p"
    and wf: "well_formed_packet p" and link: "link_type r = LinkEthernet"
  shows "parse_packet r = (Ok (),
    r\<lparr>vtp1_payload := Some (packet_data r + 42 + length (pk_tags p) + length (pk_options p)),
      vtp1_payload_size := length (pk_payload p), vtp1_frames_found := vtp1_frames_found r + 1\<rparr>)"
  unfolding parse_packet_def pk Let_def
  using link length_packet_bytes [OF wf] parse_ethernet_packet [OF wf] parse_ipv4_packet [OF wf] parse_udp_packet [OF wf]
  by (simp add: parse_vtp1_def)

section \<open>Properties\<close>

text \<open>
  C24. Reading a capture is memory safe and ends: on arbitrary file contents, opening never reads
  outside the mapping, the packet loop stops at the end of the file or at an error after at most one
  packet per 17 bytes, and every packet and extracted payload lies inside the file.
\<close>

theorem pcap_safe_and_terminates:
  assumes "PcapReader_open (Ok file) r0 = (st, r)"
  shows "st \<noteq> Fault \<and> (st = Ok () \<longrightarrow>
      fst (read_packets r) \<noteq> Fault
    \<and> 17 * length (snd (read_packets r)) \<le> length file
    \<and> (\<forall>r'\<in>set (snd (read_packets r)). packet_inside file r'))"
proof -
  let ?r = "r0\<lparr>mapping := file, mapping_open := True, pcap_offset := 0\<rparr>"
  have s: "parse_global_header ?r = (st, r)" using assms by (simp add: PcapReader_open_def)
  have m: "st \<noteq> Fault" "mapping r = file" "mapping_open r"
    using parse_global_header_safe [of ?r] s by simp_all
  have "st = Ok () \<Longrightarrow> pcap_offset r = 24 \<and> 24 \<le> length file"
    using s by (auto simp: parse_global_header_def pcap_sizes Let_def split: if_splits outcome.splits option.splits)
  then show ?thesis using read_packets_inside [of r] m by auto
qed

theorem pcap_safe_and_terminates_witness:
  "let file = le_bytes 4 (0xA1B2C3D4 :: u32) @ [2, 0, 4, 0] @ replicate 8 0 @ [255, 0, 0, 0, 1, 0, 0, 0] @ [9];
       (st, r) = PcapReader_open (Ok file) PcapReader_init
   in st = Ok () \<and> fst (read_packets r) \<noteq> Fault \<and> 17 * length (snd (read_packets r)) \<le> 25"
proof -
  define cap where "cap = le_bytes 4 (0xA1B2C3D4 :: u32) @ [2, 0, 4, 0] @ replicate 8 0 @ [255, 0, 0, 0, 1, 0, 0, 0] @ [9]"
  obtain st r where o: "PcapReader_open (Ok cap) PcapReader_init = (st, r)" by fastforce
  have g: "get_bytes 0 4 cap = le_bytes 4 (0xA1B2C3D4 :: u32)" "get_bytes 4 2 cap = [2, 0]"
    "get_bytes 16 4 cap = [255, 0, 0, 0]" "get_bytes 20 4 cap = [1, 0, 0, 0]" "length cap = 25"
    by (simp_all add: cap_def get_bytes_def)
  have "st = Ok ()"
    using o g by (simp add: PcapReader_open_def parse_global_header_def pcap_sizes magic_format_def Let_def)
  then show ?thesis
    using pcap_safe_and_terminates [OF o] o g(5) unfolding cap_def [symmetric] by simp
qed

text \<open>
  C25. Extraction: every well-formed Ethernet, IPv4 and UDP packet, with zero, one or two VLAN tags, IPv4
  options of any length and arbitrary other fields, yields the bytes behind the UDP header as the VTP1
  payload and counts one frame. The payload runs to the end of the captured packet, also where the UDP
  length is smaller (Ethernet padding is included).
\<close>

theorem pcap_extracts_payload:
  assumes "get_bytes (packet_data r) (packet_size r) (mapping r) = packet_bytes p"
    and "well_formed_packet p" "link_type r = LinkEthernet"
    and "parse_packet r = (st, r')"
  shows "st = Ok () \<and> vtp1_frames_found r' = vtp1_frames_found r + 1
    \<and> (\<exists>a. vtp1_payload r' = Some a \<and> get_bytes a (vtp1_payload_size r') (mapping r') = pk_payload p)"
proof -
  let ?o = "42 + length (pk_tags p) + length (pk_options p)"
  have r': "st = Ok ()" "vtp1_payload r' = Some (packet_data r + ?o)"
    "vtp1_payload_size r' = length (pk_payload p)" "mapping r' = mapping r" "vtp1_frames_found r' = vtp1_frames_found r + 1"
    using assms(4) parse_packet_packet [OF assms(1-3)] by auto
  have "drop ?o (get_bytes (packet_data r) (packet_size r) (mapping r)) = pk_payload p"
    using assms(2) unfolding assms(1) by (simp add: packet_bytes_def well_formed_packet_def)
  then have "get_bytes (packet_data r + ?o) (packet_size r - ?o) (mapping r) = pk_payload p"
    by (simp add: get_bytes_def drop_take add.commute add.left_commute)
  moreover from this [symmetric] have "length (pk_payload p) \<le> packet_size r - ?o"
    by (simp add: get_bytes_def)
  ultimately have "get_bytes (packet_data r + ?o) (length (pk_payload p)) (mapping r) = pk_payload p"
    unfolding get_bytes_def by (metis min.absorb1 take_all_iff take_take order_refl)
  then show ?thesis using r' by auto
qed

definition sample_packet :: udp_packet where
  "sample_packet = \<lparr>pk_macs = replicate 12 0, pk_tags = [0x81, 0, 0, 5], pk_tos = 16, pk_total_len = 39, pk_ident = 7,
     pk_flags_fragment = 0x4000, pk_ttl = 64, pk_ip_checksum = 0, pk_src_ip = 0x0A000001, pk_dst_ip = 0xE0000001,
     pk_options = [1, 1, 1, 1, 1, 1, 1, 0], pk_src_port = 5000, pk_dst_port = 6000, pk_udp_len = 11, pk_udp_checksum = 0,
     pk_payload = [7, 8, 9]\<rparr>"

theorem pcap_extracts_payload_witness:
  "let d = packet_bytes sample_packet; r = PcapReader_init\<lparr>mapping := d, packet_size := length d\<rparr>
   in get_bytes 54 3 (mapping (snd (parse_packet r))) = [7, 8, 9] \<and> fst (parse_packet r) = Ok ()"
proof -
  define d where "d = packet_bytes sample_packet"
  define r where "r = PcapReader_init\<lparr>mapping := d, packet_size := length d\<rparr>"
  obtain st r' where p: "parse_packet r = (st, r')" by fastforce
  have g: "get_bytes (packet_data r) (packet_size r) (mapping r) = d"
    by (simp add: r_def PcapReader_init_def get_bytes_def)
  have "well_formed_packet sample_packet"
    by (simp add: well_formed_packet_def sample_packet_def vlan_tags_def)
  then have "st = Ok ()"
    using pcap_extracts_payload [OF g [unfolded d_def] _ _ p]
    by (simp add: r_def PcapReader_init_def)
  moreover have "mapping r' = d" using parse_packet_frame(1) [OF p] by (simp add: r_def)
  moreover have "get_bytes 54 3 d = [7, 8, 9]"
    by (simp add: d_def packet_bytes_def ip_header_bytes_def udp_header_bytes_def sample_packet_def get_bytes_def)
  ultimately show ?thesis using p unfolding d_def [symmetric] Let_def r_def [symmetric] by simp
qed

end
