(* ===== verification/Spsc_Ring.thy ===== *)
theory Spsc_Ring
  imports VT_Prelude
begin

text \<open>
  Model of \<^verbatim>\<open>include/vectortick/concurrency/spsc_ring.hpp\<close>. First the operations as they run when
  nothing interferes, shown to implement a bounded first-in first-out queue (locale \<open>bounded_queue\<close>);
  then one producer and one consumer thread whose atomic accesses interleave in every order (relation
  \<open>spsc_step\<close>, one rule per atomic access). The acquire and release orders of the source make each access
  to an index visible with the buffer writes before it, so the accesses are interleaved sequentially.
  Indices are natural numbers below the capacity.
\<close>

section \<open>Ring buffer\<close>

record 'a SpscRing =
  ring_capacity :: nat
  ring_mask :: nat
  ring_buffer :: "'a list"
  ring_head :: nat
  ring_tail :: nat

function new_cap_loop :: "nat \<Rightarrow> nat \<Rightarrow> nat" where
  "new_cap_loop capacity new_cap =
     (if 0 < new_cap \<and> new_cap < capacity then new_cap_loop capacity (2 * new_cap) else new_cap)"
  by pat_completeness auto
termination
  by (relation "measure (\<lambda>(c, n). c - n)") auto

definition SpscRing_new :: "'a \<Rightarrow> nat \<Rightarrow> 'a SpscRing" where
  "SpscRing_new initial capacity =
     (let cap = capacity + 1;
          cap = (if cap AND (cap - 1) \<noteq> 0 then new_cap_loop cap 1 else cap)
      in \<lparr>ring_capacity = cap, ring_mask = cap - 1, ring_buffer = replicate cap initial,
          ring_head = 0, ring_tail = 0\<rparr>)"

definition try_push :: "'a \<Rightarrow> 'a SpscRing \<Rightarrow> bool \<times> 'a SpscRing" where
  "try_push v r =
     (let current_tail = ring_tail r; next_tail = (current_tail + 1) AND ring_mask r in
      if next_tail = ring_head r then (False, r)
      else (True, r\<lparr>ring_buffer := (ring_buffer r)[current_tail := v], ring_tail := next_tail\<rparr>))"

definition try_pop :: "'a SpscRing \<Rightarrow> 'a option \<times> 'a SpscRing" where
  "try_pop r =
     (let current_head = ring_head r in
      if current_head = ring_tail r then (None, r)
      else (Some (ring_buffer r ! current_head), r\<lparr>ring_head := (current_head + 1) AND ring_mask r\<rparr>))"

definition ring_empty :: "'a SpscRing \<Rightarrow> bool" where
  "ring_empty r = (ring_head r = ring_tail r)"

definition ring_full :: "'a SpscRing \<Rightarrow> bool" where
  "ring_full r = ((ring_tail r + 1) AND ring_mask r = ring_head r)"

definition ring_usable :: "'a SpscRing \<Rightarrow> nat" where
  "ring_usable r = ring_capacity r - 1"

text \<open>The unsigned difference wraps around and the mask removes the wrap; here the capacity is added first.\<close>

definition ring_size :: "'a SpscRing \<Rightarrow> nat" where
  "ring_size r = (ring_tail r + ring_capacity r - ring_head r) AND ring_mask r"

definition ring_reset :: "'a SpscRing \<Rightarrow> 'a SpscRing" where
  "ring_reset r = r\<lparr>ring_head := 0, ring_tail := 0\<rparr>"

section \<open>Indices modulo the capacity\<close>

declare new_cap_loop.simps [simp del]

lemma and_mask_mod: "(x :: nat) AND (2 ^ k - Suc 0) = x mod 2 ^ k"
  by (metis One_nat_def mask_eq_exp_minus_1 take_bit_eq_mask take_bit_eq_mod)

lemma mod_Suc_cap: "(i :: nat) < c \<Longrightarrow> Suc i mod c = (if Suc i = c then 0 else Suc i)"
  by auto

definition ring_dist :: "nat \<Rightarrow> nat \<Rightarrow> nat \<Rightarrow> nat" where
  "ring_dist c h t = (if h \<le> t then t - h else t + c - h)"

lemma ring_dist_mod: "h < c \<Longrightarrow> t < c \<Longrightarrow> (t + c - h) mod c = ring_dist c h t"
  by (auto simp: ring_dist_def mod_if)

lemma ring_dist_push:
  assumes "h < c" "t < c" "Suc t mod c \<noteq> h"
  shows "ring_dist c h (Suc t mod c) = Suc (ring_dist c h t)"
  using assms by (auto simp: ring_dist_def mod_Suc_cap)

lemma ring_dist_pop:
  assumes "h < c" "t < c" "h \<noteq> t"
  shows "ring_dist c h t = Suc (ring_dist c (Suc h mod c) t)"
  using assms by (auto simp: ring_dist_def mod_Suc_cap)

lemma ring_dist_index: "h < c \<Longrightarrow> t < c \<Longrightarrow> (h + ring_dist c h t) mod c = t"
  by (auto simp: ring_dist_def mod_if)

lemma ring_dist_bound: "h < c \<Longrightarrow> t < c \<Longrightarrow> ring_dist c h t < c"
  by (auto simp: ring_dist_def)

lemma ring_dist_0: "h < c \<Longrightarrow> t < c \<Longrightarrow> ring_dist c h t = 0 \<longleftrightarrow> h = t"
  by (auto simp: ring_dist_def)

text \<open>Slots between head and tail differ from the tail slot.\<close>

lemma ring_slot_not_tail:
  assumes "h < c" "t < c" "i < ring_dist c h t"
  shows "(h + i) mod c \<noteq> t"
proof (cases "h + i < c")
  case True
  then show ?thesis using assms by (auto simp: ring_dist_def split: if_splits)
next
  case False
  moreover have "h + i < t + c" using assms by (auto simp: ring_dist_def split: if_splits)
  ultimately show ?thesis using assms(2) by (simp add: le_mod_geq)
qed

lemma ring_full_dist: "h < c \<Longrightarrow> t < c \<Longrightarrow> Suc t mod c = h \<longleftrightarrow> ring_dist c h t = c - Suc 0"
  by (auto simp: ring_dist_def mod_Suc_cap)

section \<open>Abstraction to a list\<close>

definition ring_ok :: "'a SpscRing \<Rightarrow> bool" where
  "ring_ok r \<longleftrightarrow> (\<exists>k. ring_capacity r = 2 ^ k) \<and> ring_mask r = ring_capacity r - 1
     \<and> length (ring_buffer r) = ring_capacity r \<and> ring_head r < ring_capacity r \<and> ring_tail r < ring_capacity r"

definition slots :: "nat \<Rightarrow> 'a list \<Rightarrow> nat \<Rightarrow> nat \<Rightarrow> 'a list" where
  "slots c buf h t = map (\<lambda>i. buf ! ((h + i) mod c)) [0..<ring_dist c h t]"

definition contents :: "'a SpscRing \<Rightarrow> 'a list" where
  "contents r = slots (ring_capacity r) (ring_buffer r) (ring_head r) (ring_tail r)"

lemma and_mask_ring: "ring_ok r \<Longrightarrow> x AND ring_mask r = x mod ring_capacity r"
  by (auto simp: ring_ok_def and_mask_mod)

lemma slots_push:
  assumes "h < c" "t < c" "Suc t mod c \<noteq> h" "length buf = c"
  shows "slots c (buf[t := v]) h (Suc t mod c) = slots c buf h t @ [v]"
proof -
  have "buf[t := v] ! ((h + i) mod c) = buf ! ((h + i) mod c)" if "i < ring_dist c h t" for i
    using ring_slot_not_tail [OF assms(1,2) that] by simp
  moreover have "buf[t := v] ! ((h + ring_dist c h t) mod c) = v"
    using ring_dist_index [OF assms(1,2)] assms(2,4) by simp
  ultimately show ?thesis by (simp add: slots_def ring_dist_push [OF assms(1-3)])
qed

lemma slots_store:
  assumes "h < c" "t < c"
  shows "slots c (buf[t := v]) h t = slots c buf h t"
proof -
  have "buf[t := v] ! ((h + i) mod c) = buf ! ((h + i) mod c)" if "i < ring_dist c h t" for i
    using ring_slot_not_tail [OF assms that] by simp
  then show ?thesis by (simp add: slots_def)
qed

lemma slots_pop:
  assumes "h < c" "t < c" "h \<noteq> t"
  shows "slots c buf h t = buf ! h # slots c buf (Suc h mod c) t"
proof -
  have "(h + Suc i) mod c = (Suc h mod c + i) mod c" for i by (simp add: mod_add_left_eq)
  then show ?thesis
    using assms(1)
    by (simp add: slots_def ring_dist_pop [OF assms] upt_conv_Cons map_Suc_upt [symmetric] del: upt_Suc)
qed

lemma length_slots [simp]: "length (slots c buf h t) = ring_dist c h t"
  by (simp add: slots_def)

section \<open>The queue interface\<close>

text \<open>What the clients of the ring rely on: a bounded queue that never loses or reorders an element.\<close>

text \<open>Operations performed in sequence (a push for \<open>Some\<close>, a pop for \<open>None\<close>), with the accepted and returned values.\<close>

fun queue_run :: "('a \<Rightarrow> 's \<Rightarrow> bool \<times> 's) \<Rightarrow> ('s \<Rightarrow> 'a option \<times> 's) \<Rightarrow> 'a option list \<Rightarrow> 's \<Rightarrow> 'a list \<times> 'a list \<times> 's" where
  "queue_run push pop [] s = ([], [], s)"
| "queue_run push pop (Some v # ops) s = (let (ok, s') = push v s; (ins, outs, s'') = queue_run push pop ops s'
     in (if ok then v # ins else ins, outs, s''))"
| "queue_run push pop (None # ops) s = (let (r, s') = pop s; (ins, outs, s'') = queue_run push pop ops s'
     in (ins, (case r of None \<Rightarrow> outs | Some v \<Rightarrow> v # outs), s''))"

text \<open>The abstract bounded queue: a list that accepts a value while it is shorter than its bound.\<close>

definition bounded_push :: "nat \<Rightarrow> 'a \<Rightarrow> 'a list \<Rightarrow> bool \<times> 'a list" where
  "bounded_push cap v q = (if length q < cap then (True, q @ [v]) else (False, q))"

definition bounded_pop :: "'a list \<Rightarrow> 'a option \<times> 'a list" where
  "bounded_pop q = (case q of [] \<Rightarrow> (None, []) | x # q' \<Rightarrow> (Some x, q'))"

locale bounded_queue =
  fixes inv :: "'s \<Rightarrow> bool" and content :: "'s \<Rightarrow> 'a list" and bound :: "'s \<Rightarrow> nat"
    and push :: "'a \<Rightarrow> 's \<Rightarrow> bool \<times> 's" and pop :: "'s \<Rightarrow> 'a option \<times> 's"
  assumes push_full: "inv s \<Longrightarrow> length (content s) = bound s \<Longrightarrow> push v s = (False, s)"
    and push_ok: "inv s \<Longrightarrow> length (content s) \<noteq> bound s \<Longrightarrow> \<exists>s'. push v s = (True, s') \<and> inv s'
      \<and> content s' = content s @ [v] \<and> bound s' = bound s"
    and pop_empty: "inv s \<Longrightarrow> content s = [] \<Longrightarrow> pop s = (None, s)"
    and pop_ok: "inv s \<Longrightarrow> content s = x # xs \<Longrightarrow> \<exists>s'. pop s = (Some x, s') \<and> inv s'
      \<and> content s' = xs \<and> bound s' = bound s"
    and bounded: "inv s \<Longrightarrow> length (content s) \<le> bound s"
begin

lemma run_fifo:
  "inv s \<Longrightarrow> queue_run push pop ops s = (ins, outs, s') \<Longrightarrow> inv s' \<and> bound s' = bound s \<and> content s @ ins = outs @ content s'"
proof (induction ops arbitrary: s ins outs)
  case Nil
  then show ?case by simp
next
  case (Cons op ops)
  show ?case
  proof (cases op)
    case (Some v)
    obtain ok s1 where p: "push v s = (ok, s1)" by fastforce
    obtain i1 o1 s2 where r: "queue_run push pop ops s1 = (i1, o1, s2)" by (cases "queue_run push pop ops s1")
    have e: "ins = (if ok then v # i1 else i1)" "outs = o1" "s' = s2" using Cons.prems(2) Some p r by auto
    have "inv s1 \<and> bound s1 = bound s \<and> content s1 = (if ok then content s @ [v] else content s)"
      using push_full [OF Cons.prems(1), of v] push_ok [OF Cons.prems(1), of v] p Cons.prems(1)
      by (cases "length (content s) = bound s") auto
    then show ?thesis using Cons.IH [of s1 i1 o1] r e by (auto split: if_splits)
  next
    case None
    obtain r s1 where p: "pop s = (r, s1)" by fastforce
    obtain i1 o1 s2 where q: "queue_run push pop ops s1 = (i1, o1, s2)" by (cases "queue_run push pop ops s1")
    have e: "ins = i1" "outs = (case r of None \<Rightarrow> o1 | Some v \<Rightarrow> v # o1)" "s' = s2" using Cons.prems(2) None p q by auto
    have "inv s1 \<and> bound s1 = bound s \<and> content s = (case r of None \<Rightarrow> [] | Some v \<Rightarrow> [v]) @ content s1"
      using pop_empty [OF Cons.prems(1)] pop_ok [OF Cons.prems(1)] p Cons.prems(1)
      by (cases "content s") force+
    then show ?thesis using Cons.IH [of s1 i1 o1] q e by (auto split: option.splits)
  qed
qed

text \<open>Each operation, answer included, is the abstract one on the contents.\<close>

lemma push_refines:
  assumes "inv s" "push v s = (ok, s')"
  shows "bounded_push (bound s) v (content s) = (ok, content s') \<and> inv s' \<and> bound s' = bound s"
  using assms push_full [OF assms(1), of v] push_ok [OF assms(1), of v] bounded [OF assms(1)]
  by (cases "length (content s) = bound s") (auto simp: bounded_push_def)

lemma pop_refines:
  assumes "inv s" "pop s = (res, s')"
  shows "bounded_pop (content s) = (res, content s') \<and> inv s' \<and> bound s' = bound s"
  using assms pop_empty [OF assms(1)] pop_ok [OF assms(1)] by (cases "content s") (force simp: bounded_pop_def)+

lemma run_refines:
  "inv s \<Longrightarrow> queue_run push pop ops s = (ins, outs, s') \<Longrightarrow>
   queue_run (bounded_push (bound s)) bounded_pop ops (content s) = (ins, outs, content s')"
proof (induction ops arbitrary: s ins outs s')
  case (Cons op ops)
  show ?case
  proof (cases op)
    case (Some v)
    obtain ok s1 where p: "push v s = (ok, s1)" by fastforce
    obtain i1 o1 s2 where r: "queue_run push pop ops s1 = (i1, o1, s2)" by (cases "queue_run push pop ops s1")
    note a = push_refines [OF Cons.prems(1) p]
    then show ?thesis using Cons.IH [OF _ r] Cons.prems(2) Some p r by auto
  next
    case None
    obtain res s1 where p: "pop s = (res, s1)" by fastforce
    obtain i1 o1 s2 where r: "queue_run push pop ops s1 = (i1, o1, s2)" by (cases "queue_run push pop ops s1")
    note a = pop_refines [OF Cons.prems(1) p]
    then show ?thesis using Cons.IH [OF _ r] Cons.prems(2) None p r by auto
  qed
qed simp

end

lemma contents_bound: "ring_ok r \<Longrightarrow> length (contents r) \<le> ring_usable r"
  using ring_dist_bound [of "ring_head r" "ring_capacity r" "ring_tail r"]
  by (simp add: ring_ok_def contents_def ring_usable_def)

lemma ring_ok_bounds:
  assumes "ring_ok r"
  shows "ring_head r < ring_capacity r" "ring_tail r < ring_capacity r" "length (ring_buffer r) = ring_capacity r"
  using assms by (simp_all add: ring_ok_def)

lemma try_push_eq:
  assumes "ring_ok r"
  shows "try_push v r = (if length (contents r) = ring_usable r then (False, r)
    else (True, r\<lparr>ring_buffer := (ring_buffer r)[ring_tail r := v], ring_tail := Suc (ring_tail r) mod ring_capacity r\<rparr>))"
  using ring_full_dist [OF ring_ok_bounds(1,2) [OF assms]] and_mask_ring [OF assms, of "Suc (ring_tail r)"]
  by (simp add: try_push_def contents_def ring_usable_def Let_def)

lemma try_pop_eq:
  assumes "ring_ok r"
  shows "try_pop r = (if contents r = [] then (None, r)
    else (Some (hd (contents r)), r\<lparr>ring_head := Suc (ring_head r) mod ring_capacity r\<rparr>))"
proof (cases "ring_head r = ring_tail r")
  case True
  then show ?thesis by (simp add: try_pop_def contents_def slots_def ring_dist_def)
next
  case False
  then show ?thesis
    using slots_pop [OF ring_ok_bounds(1,2) [OF assms], of "ring_buffer r"] and_mask_ring [OF assms, of "Suc (ring_head r)"]
    by (simp add: try_pop_def contents_def Let_def)
qed

lemma ring_ok_update:
  assumes "ring_ok r"
  shows "ring_ok (r\<lparr>ring_buffer := (ring_buffer r)[i := v], ring_tail := t mod ring_capacity r\<rparr>)"
    "ring_ok (r\<lparr>ring_head := t mod ring_capacity r\<rparr>)" "ring_ok (r\<lparr>ring_tail := t mod ring_capacity r\<rparr>)"
    "ring_ok (r\<lparr>ring_buffer := (ring_buffer r)[i := v]\<rparr>)"
  using assms by (auto simp: ring_ok_def)

interpretation ring: bounded_queue ring_ok contents ring_usable try_push try_pop
proof
  fix r :: "'a SpscRing" and v x :: 'a and xs
  assume ok: "ring_ok r"
  note b = ring_ok_bounds [OF ok]
  show "length (contents r) = ring_usable r \<Longrightarrow> try_push v r = (False, r)" by (simp add: try_push_eq [OF ok])
  show "length (contents r) \<noteq> ring_usable r \<Longrightarrow> \<exists>s'. try_push v r = (True, s') \<and> ring_ok s'
      \<and> contents s' = contents r @ [v] \<and> ring_usable s' = ring_usable r"
    using slots_push [OF b(1,2) _ b(3)] ring_full_dist [OF b(1,2)] ring_ok_update(1) [OF ok]
    by (simp add: try_push_eq [OF ok] contents_def ring_usable_def)
  show "contents r = [] \<Longrightarrow> try_pop r = (None, r)" by (simp add: try_pop_eq [OF ok])
  show "length (contents r) \<le> ring_usable r" by (rule contents_bound [OF ok])
  assume c: "contents r = x # xs"
  then have "ring_head r \<noteq> ring_tail r" by (auto simp: contents_def slots_def ring_dist_def)
  from slots_pop [OF b(1,2) this, of "ring_buffer r"] c
  show "\<exists>s'. try_pop r = (Some x, s') \<and> ring_ok s' \<and> contents s' = xs \<and> ring_usable s' = ring_usable r"
    using ring_ok_update(2) [OF ok] by (simp add: try_pop_eq [OF ok] contents_def ring_usable_def)
qed

section \<open>One producer and one consumer\<close>

text \<open>
  The program counters of the two threads: what a running operation has loaded so far. The fields
  \<open>pushed\<close> and \<open>popped\<close> record the values whose publication the operations have completed.
\<close>

datatype 'a producer_pc = PIdle | PLoaded 'a nat nat | PChecked 'a nat nat | PStored 'a nat
datatype 'a consumer_pc = CIdle | CLoaded nat | CChecked nat | CRead nat 'a

record 'a spsc =
  ring_of :: "'a SpscRing"
  ppc :: "'a producer_pc"
  cpc :: "'a consumer_pc"
  pushed :: "'a list"
  popped :: "'a list"

inductive spsc_step :: "'a spsc \<Rightarrow> 'a spsc \<Rightarrow> bool" where
  p_load: "ppc s = PIdle \<Longrightarrow>
    spsc_step s (s\<lparr>ppc := PLoaded v (ring_tail (ring_of s)) ((ring_tail (ring_of s) + 1) AND ring_mask (ring_of s))\<rparr>)"
| p_full: "ppc s = PLoaded v t n \<Longrightarrow> n = ring_head (ring_of s) \<Longrightarrow> spsc_step s (s\<lparr>ppc := PIdle\<rparr>)"
| p_check: "ppc s = PLoaded v t n \<Longrightarrow> n \<noteq> ring_head (ring_of s) \<Longrightarrow> spsc_step s (s\<lparr>ppc := PChecked v t n\<rparr>)"
| p_store: "ppc s = PChecked v t n \<Longrightarrow>
    spsc_step s (s\<lparr>ring_of := (ring_of s)\<lparr>ring_buffer := (ring_buffer (ring_of s))[t := v]\<rparr>, ppc := PStored v n\<rparr>)"
| p_publish: "ppc s = PStored v n \<Longrightarrow>
    spsc_step s (s\<lparr>ring_of := (ring_of s)\<lparr>ring_tail := n\<rparr>, ppc := PIdle, pushed := pushed s @ [v]\<rparr>)"
| c_load: "cpc s = CIdle \<Longrightarrow> spsc_step s (s\<lparr>cpc := CLoaded (ring_head (ring_of s))\<rparr>)"
| c_empty: "cpc s = CLoaded h \<Longrightarrow> h = ring_tail (ring_of s) \<Longrightarrow> spsc_step s (s\<lparr>cpc := CIdle\<rparr>)"
| c_check: "cpc s = CLoaded h \<Longrightarrow> h \<noteq> ring_tail (ring_of s) \<Longrightarrow> spsc_step s (s\<lparr>cpc := CChecked h\<rparr>)"
| c_read: "cpc s = CChecked h \<Longrightarrow> spsc_step s (s\<lparr>cpc := CRead h (ring_buffer (ring_of s) ! h)\<rparr>)"
| c_publish: "cpc s = CRead h v \<Longrightarrow>
    spsc_step s (s\<lparr>ring_of := (ring_of s)\<lparr>ring_head := (h + 1) AND ring_mask (ring_of s)\<rparr>, cpc := CIdle,
      popped := popped s @ [v]\<rparr>)"

definition spsc_init :: "'a SpscRing \<Rightarrow> 'a spsc" where
  "spsc_init r = \<lparr>ring_of = r, ppc = PIdle, cpc = CIdle, pushed = contents r, popped = []\<rparr>"

text \<open>What each thread may rely on while the other one runs.\<close>

definition producer_ok :: "'a spsc \<Rightarrow> bool" where
  "producer_ok s \<longleftrightarrow>
     (let r = ring_of s; n' = Suc (ring_tail r) mod ring_capacity r in
      case ppc s of PIdle \<Rightarrow> True
      | PLoaded v t n \<Rightarrow> t = ring_tail r \<and> n = n'
      | PChecked v t n \<Rightarrow> t = ring_tail r \<and> n = n' \<and> n \<noteq> ring_head r
      | PStored v n \<Rightarrow> n = n' \<and> n \<noteq> ring_head r \<and> ring_buffer r ! ring_tail r = v)"

definition consumer_ok :: "'a spsc \<Rightarrow> bool" where
  "consumer_ok s \<longleftrightarrow>
     (let r = ring_of s in
      case cpc s of CIdle \<Rightarrow> True
      | CLoaded h \<Rightarrow> h = ring_head r
      | CChecked h \<Rightarrow> h = ring_head r \<and> h \<noteq> ring_tail r
      | CRead h v \<Rightarrow> h = ring_head r \<and> h \<noteq> ring_tail r \<and> v = ring_buffer r ! h)"

definition spsc_inv :: "'a spsc \<Rightarrow> bool" where
  "spsc_inv s \<longleftrightarrow> ring_ok (ring_of s) \<and> producer_ok s \<and> consumer_ok s
     \<and> pushed s = popped s @ contents (ring_of s)"

lemma Suc_mod_inj: "i < c \<Longrightarrow> j < c \<Longrightarrow> Suc i mod c = Suc j mod c \<longleftrightarrow> i = j"
  by (auto simp: mod_Suc_cap)

lemma publish_tail:
  assumes "spsc_inv s" "ppc s = PStored v n"
  shows "spsc_inv (s\<lparr>ring_of := (ring_of s)\<lparr>ring_tail := n\<rparr>, ppc := PIdle, pushed := pushed s @ [v]\<rparr>)"
proof -
  let ?r = "ring_of s"
  have ok: "ring_ok ?r" using assms(1) by (simp add: spsc_inv_def)
  note b = ring_ok_bounds [OF ok]
  have n: "n = Suc (ring_tail ?r) mod ring_capacity ?r" "n \<noteq> ring_head ?r" "ring_buffer ?r ! ring_tail ?r = v"
    using assms by (auto simp: spsc_inv_def producer_ok_def Let_def)
  have "(ring_buffer ?r)[ring_tail ?r := v] = ring_buffer ?r" using n(3) by (metis list_update_id)
  then have "contents (?r\<lparr>ring_tail := n\<rparr>) = contents ?r @ [v]"
    using slots_push [OF b(1,2) _ b(3), of v] n(1,2) by (simp add: contents_def)
  moreover have "ring_ok (?r\<lparr>ring_tail := n\<rparr>)" unfolding n(1) by (rule ring_ok_update(3) [OF ok])
  ultimately show ?thesis
    using assms n(2) by (auto simp: spsc_inv_def producer_ok_def consumer_ok_def Let_def split: consumer_pc.splits)
qed

lemma publish_head:
  assumes "spsc_inv s" "cpc s = CRead h v"
  shows "spsc_inv (s\<lparr>ring_of := (ring_of s)\<lparr>ring_head := (h + 1) AND ring_mask (ring_of s)\<rparr>, cpc := CIdle,
      popped := popped s @ [v]\<rparr>)"
proof -
  let ?r = "ring_of s"
  have ok: "ring_ok ?r" using assms(1) by (simp add: spsc_inv_def)
  note b = ring_ok_bounds [OF ok]
  have h: "h = ring_head ?r" "h \<noteq> ring_tail ?r" "v = ring_buffer ?r ! h"
    using assms by (auto simp: spsc_inv_def consumer_ok_def Let_def)
  have m: "(h + 1) AND ring_mask ?r = Suc (ring_head ?r) mod ring_capacity ?r"
    using and_mask_ring [OF ok, of "Suc h"] h(1) by simp
  have c: "contents ?r = v # contents (?r\<lparr>ring_head := Suc (ring_head ?r) mod ring_capacity ?r\<rparr>)"
    using slots_pop [OF b(1,2)] h by (simp add: contents_def)
  have ne: "Suc (ring_tail ?r) mod ring_capacity ?r \<noteq> Suc (ring_head ?r) mod ring_capacity ?r"
    using Suc_mod_inj [OF b(2,1)] h(1,2) by simp
  have "ring_ok (?r\<lparr>ring_head := Suc (ring_head ?r) mod ring_capacity ?r\<rparr>)" by (rule ring_ok_update(2) [OF ok])
  then show ?thesis
    unfolding m using assms c ne
    by (auto simp: spsc_inv_def producer_ok_def consumer_ok_def Let_def split: producer_pc.splits)
qed

lemma store_value:
  assumes "spsc_inv s" "ppc s = PChecked v t n"
  shows "spsc_inv (s\<lparr>ring_of := (ring_of s)\<lparr>ring_buffer := (ring_buffer (ring_of s))[t := v]\<rparr>, ppc := PStored v n\<rparr>)"
proof -
  let ?r = "ring_of s"
  have ok: "ring_ok ?r" using assms(1) by (simp add: spsc_inv_def)
  note b = ring_ok_bounds [OF ok]
  have t: "t = ring_tail ?r" "n = Suc (ring_tail ?r) mod ring_capacity ?r" "n \<noteq> ring_head ?r"
    using assms by (auto simp: spsc_inv_def producer_ok_def Let_def)
  have "contents (?r\<lparr>ring_buffer := (ring_buffer ?r)[ring_tail ?r := v]\<rparr>) = contents ?r"
    using slots_store [OF b(1,2)] by (simp add: contents_def)
  then show ?thesis
    using assms t b ring_ok_update(4) [OF ok]
    by (auto simp: spsc_inv_def producer_ok_def consumer_ok_def Let_def split: consumer_pc.splits)
qed

lemma spsc_inv_step: "spsc_step s s' \<Longrightarrow> spsc_inv s \<Longrightarrow> spsc_inv s'"
proof (induction rule: spsc_step.induct)
  case (p_load s v)
  then have "ring_ok (ring_of s)" by (simp add: spsc_inv_def)
  then show ?case
    using p_load and_mask_ring [of "ring_of s" "Suc (ring_tail (ring_of s))"]
    by (simp add: spsc_inv_def producer_ok_def consumer_ok_def Let_def)
next
  case (p_store s v t n)
  then show ?case by (intro store_value)
next
  case (p_publish s v n)
  then show ?case by (intro publish_tail)
next
  case (c_publish s h v)
  then show ?case by (intro publish_head)
qed (auto simp: spsc_inv_def producer_ok_def consumer_ok_def Let_def)

lemma spsc_inv_init: "ring_ok r \<Longrightarrow> spsc_inv (spsc_init r)"
  by (simp add: spsc_inv_def spsc_init_def producer_ok_def consumer_ok_def Let_def)

lemma spsc_inv_reach: "spsc_step\<^sup>*\<^sup>* s s' \<Longrightarrow> spsc_inv s \<Longrightarrow> spsc_inv s'"
  by (induction rule: rtranclp_induct) (auto intro: spsc_inv_step)

section \<open>Construction\<close>

lemma new_cap_loop_pow: "\<exists>k. new_cap_loop c (2 ^ n) = 2 ^ k \<and> c \<le> 2 ^ k"
proof (induction "c - 2 ^ n" arbitrary: n rule: less_induct)
  case less
  show ?case
  proof (cases "2 ^ n < c")
    case True
    moreover have "(0::nat) < 2 ^ n" by simp
    ultimately have "c - 2 ^ Suc n < c - 2 ^ n" unfolding power_Suc by linarith
    from less [OF this] show ?thesis using True by (subst new_cap_loop.simps) simp
  next
    case False
    then show ?thesis by (subst new_cap_loop.simps) auto
  qed
qed

lemma and_pred_zero:
  assumes "0 < (c::nat)" "c AND (c - 1) = 0"
  shows "\<exists>k. c = 2 ^ k"
proof -
  obtain k where k: "2 ^ k \<le> c" "c < 2 * 2 ^ k"
    using ex_power_ivl1 [of 2 c] assms(1) by auto
  have top: "bit m k" if "2 ^ k \<le> m" "m < 2 * 2 ^ k" for m :: nat
  proof -
    have "m div 2 ^ k = 1" using that by (intro div_nat_eqI) simp_all
    then show ?thesis by (simp add: bit_iff_odd)
  qed
  have "c = 2 ^ k"
  proof (rule ccontr)
    assume "c \<noteq> 2 ^ k"
    then have "bit c k \<and> bit (c - 1) k" using k top by simp
    then have "bit (c AND (c - 1)) k" by (simp add: bit_and_iff)
    then show False using assms(2) by simp
  qed
  then show ?thesis ..
qed

lemma SpscRing_new_ok:
  "ring_ok (SpscRing_new x n) \<and> contents (SpscRing_new x n) = [] \<and> n \<le> ring_usable (SpscRing_new x n)"
proof -
  define c where "c = (if Suc n AND n \<noteq> 0 then new_cap_loop (Suc n) 1 else Suc n)"
  have "\<exists>k. c = 2 ^ k \<and> Suc n \<le> 2 ^ k"
    using new_cap_loop_pow [of "Suc n" 0] and_pred_zero [of "Suc n"] by (auto simp: c_def)
  moreover have "SpscRing_new x n = \<lparr>ring_capacity = c, ring_mask = c - 1, ring_buffer = replicate c x,
      ring_head = 0, ring_tail = 0\<rparr>"
    by (simp add: SpscRing_new_def c_def Let_def)
  ultimately show ?thesis
    by (auto simp: ring_ok_def contents_def slots_def ring_dist_def ring_usable_def)
qed

lemma SpscRing_new_3: "SpscRing_new (0::nat) 3 =
    \<lparr>ring_capacity = 4, ring_mask = 3, ring_buffer = [0, 0, 0, 0], ring_head = 0, ring_tail = 0\<rparr>"
  by (simp add: SpscRing_new_def Let_def) (simp add: numeral_eq_Suc)

section \<open>Properties\<close>

text \<open>
  C12. Under every interleaving of one producer and one consumer, starting from a fresh ring, the
  values consumed so far followed by the values in the ring are exactly the values produced, in order:
  nothing is lost, duplicated, reordered or overwritten, and the ring never exceeds its capacity. A
  push is refused only when the ring is full and a pop only when it is empty.
\<close>

theorem spsc_fifo:
  assumes "spsc_step\<^sup>*\<^sup>* (spsc_init (SpscRing_new x n)) s"
  shows "pushed s = popped s @ contents (ring_of s)
    \<and> length (contents (ring_of s)) \<le> ring_usable (ring_of s)
    \<and> (\<forall>v t m. ppc s = PLoaded v t m \<and> m = ring_head (ring_of s) \<longrightarrow>
         length (contents (ring_of s)) = ring_usable (ring_of s))
    \<and> (\<forall>h. cpc s = CLoaded h \<and> h = ring_tail (ring_of s) \<longrightarrow> contents (ring_of s) = [])"
proof -
  have inv: "spsc_inv s"
    by (rule spsc_inv_reach [OF assms spsc_inv_init]) (simp add: SpscRing_new_ok)
  then have ok: "ring_ok (ring_of s)" by (simp add: spsc_inv_def)
  note b = ring_ok_bounds [OF ok]
  have "length (contents (ring_of s)) = ring_usable (ring_of s)"
    if "ppc s = PLoaded v t m" "m = ring_head (ring_of s)" for v t m
    using inv that ring_full_dist [OF b(1,2)]
    by (simp add: spsc_inv_def producer_ok_def Let_def contents_def ring_usable_def)
  moreover have "contents (ring_of s) = []" if "cpc s = CLoaded h" "h = ring_tail (ring_of s)" for h
    using inv that by (simp add: spsc_inv_def consumer_ok_def Let_def contents_def slots_def ring_dist_def)
  ultimately show ?thesis using inv contents_bound [OF ok] by (auto simp: spsc_inv_def)
qed

theorem spsc_fifo_witness:
  "\<exists>s. spsc_step\<^sup>*\<^sup>* (spsc_init (SpscRing_new (0::nat) 3)) s \<and> ppc s = PLoaded 7 0 1
     \<and> pushed s = popped s @ contents (ring_of s)"
proof -
  let ?s = "spsc_init (SpscRing_new (0::nat) 3)"
  have "spsc_step ?s (?s\<lparr>ppc := PLoaded 7 0 1\<rparr>)"
    using p_load [of ?s 7] by (simp add: spsc_init_def SpscRing_new_3)
  then have r: "spsc_step\<^sup>*\<^sup>* ?s (?s\<lparr>ppc := PLoaded 7 0 1\<rparr>)" by (rule r_into_rtranclp)
  show ?thesis
    by (rule exI [of _ "?s\<lparr>ppc := PLoaded 7 0 1\<rparr>"], intro conjI, rule r, simp)
      (rule conjunct1 [OF spsc_fifo [OF r]])
qed

text \<open>
  C13. Without interference the operations implement a bounded queue: over any sequence of pushes
  (\<open>Some\<close>) and pops (\<open>None\<close>) on a ring made for \<open>n\<close> elements, the pushes that are accepted, the values that
  come out and the contents at the end are those of the abstract queue, which accepts a push exactly when
  it holds fewer values than the usable capacity and answers a pop exactly when it is not empty. The usable
  capacity is the size of the ring less one and at least \<open>n\<close>, so \<open>n\<close> values always fit. The size and the
  tests for full and empty agree with the contents.
\<close>

theorem ring_refines_queue:
  assumes "queue_run try_push try_pop ops (SpscRing_new x n) = (ins, outs, r)"
  shows "queue_run (bounded_push (ring_usable r)) bounded_pop ops [] = (ins, outs, contents r)
    \<and> ins = outs @ contents r \<and> length (contents r) \<le> ring_usable r \<and> n \<le> ring_usable r
    \<and> (ring_full r \<longleftrightarrow> length (contents r) = ring_usable r) \<and> (ring_empty r \<longleftrightarrow> contents r = [])
    \<and> ring_size r = length (contents r)"
proof -
  have "queue_run (bounded_push (ring_usable r)) bounded_pop ops [] = (ins, outs, contents r)"
    using ring.run_refines [OF _ assms] ring.run_fifo [OF _ assms] SpscRing_new_ok [of x n] by auto
  moreover
  have ok: "ring_ok r" and "ring_usable r = ring_usable (SpscRing_new x n)" "ins = outs @ contents r"
    using ring.run_fifo [OF _ assms] SpscRing_new_ok [of x n] by auto
  moreover note b = ring_ok_bounds [OF ok]
  moreover have "ring_full r \<longleftrightarrow> length (contents r) = ring_usable r"
    using ring_full_dist [OF b(1,2)] and_mask_ring [OF ok, of "Suc (ring_tail r)"]
    by (simp add: ring_full_def contents_def ring_usable_def)
  moreover have "ring_empty r \<longleftrightarrow> contents r = []"
    using ring_dist_0 [OF b(1,2)] by (simp add: ring_empty_def contents_def slots_def)
  moreover have "ring_size r = length (contents r)"
    using ring_dist_mod [OF b(1,2)] and_mask_ring [OF ok] by (simp add: ring_size_def contents_def)
  ultimately show ?thesis using contents_bound [OF ok] SpscRing_new_ok [of x n] by simp
qed

theorem ring_refines_queue_witness:
  "\<exists>r. queue_run try_push try_pop [Some 1, Some 2, None] (SpscRing_new (0::nat) 3) = ([1, 2], [1], r) \<and> contents r = [2]"
proof -
  let ?r = "\<lparr>ring_capacity = 4, ring_mask = 3, ring_buffer = [1, 2, 0, 0], ring_head = 1, ring_tail = 2\<rparr>"
  have e: "queue_run try_push try_pop [Some 1, Some 2, None] (SpscRing_new (0::nat) 3) = ([1, 2], [1], ?r)"
    unfolding SpscRing_new_3 by code_simp
  then show ?thesis using ring_refines_queue [OF e] by simp
qed

end
