(* ===== verification/Virtual_Clock.thy ===== *)
theory Virtual_Clock
  imports VT_Prelude
begin

text \<open>
  Model of \<^verbatim>\<open>include/vectortick/common/virtual_clock.hpp\<close>: the virtual clock, whose compare-and-swap loop
  is run by any number of threads at once (relation \<open>clock_step\<close>), the rate controller and the tumbling
  windows. Division by the floating-point speed factor is an argument of \<open>wait_duration\<close>. Wall-clock time
  and sleeping (\<^verbatim>\<open>src/common/virtual_clock.cpp\<close>) are operating system calls and left out.
\<close>

section \<open>VirtualClock\<close>

text \<open>
  A running \<open>advance_to\<close> is the pair of its target and the time it last loaded. A failed exchange, spurious
  or not, reloads the time.
\<close>

record clock_sys =
  clock_now :: u64
  advancing :: "nat \<Rightarrow> (u64 \<times> u64) option"

inductive clock_step :: "clock_sys \<Rightarrow> clock_sys \<Rightarrow> bool" where
  adv_load: "advancing s i = None \<Longrightarrow>
    clock_step s (s\<lparr>advancing := (advancing s)(i \<mapsto> (t, clock_now s))\<rparr>)"
| adv_done: "advancing s i = Some (t, c) \<Longrightarrow> \<not> c < t \<Longrightarrow>
    clock_step s (s\<lparr>advancing := (advancing s)(i := None)\<rparr>)"
| adv_cas: "advancing s i = Some (t, c) \<Longrightarrow> c < t \<Longrightarrow> c = clock_now s \<Longrightarrow>
    clock_step s (s\<lparr>clock_now := t, advancing := (advancing s)(i := None)\<rparr>)"
| adv_retry: "advancing s i = Some (t, c) \<Longrightarrow> c < t \<Longrightarrow>
    clock_step s (s\<lparr>advancing := (advancing s)(i \<mapsto> (t, clock_now s))\<rparr>)"

text \<open>The call without interference: \<^verbatim>\<open>advance_to\<close>, \<^verbatim>\<open>advance_by\<close> and \<^verbatim>\<open>reset\<close>.\<close>

definition advance_to :: "u64 \<Rightarrow> u64 \<Rightarrow> u64" where
  "advance_to time_ns current = (if current < time_ns then time_ns else current)"

definition advance_by :: "u64 \<Rightarrow> u64 \<Rightarrow> u64" where
  "advance_by duration_ns current = advance_to (current + duration_ns) current"

definition clock_reset :: "u64 \<Rightarrow> u64 \<Rightarrow> u64" where
  "clock_reset time_ns current = time_ns"

section \<open>RateController\<close>

record 'f RateController =
  speed_factor :: 'f
  virtual_start :: u64
  wall_start_ns :: u64
  rate_running :: bool

definition rate_start :: "u64 \<Rightarrow> u64 \<Rightarrow> 'f RateController \<Rightarrow> 'f RateController" where
  "rate_start virtual_time_ns wall_time_ns r =
     r\<lparr>virtual_start := virtual_time_ns, wall_start_ns := wall_time_ns, rate_running := True\<rparr>"

definition rate_stop :: "'f RateController \<Rightarrow> 'f RateController" where
  "rate_stop r = r\<lparr>rate_running := False\<rparr>"

text \<open>\<open>positive f\<close> is \<^verbatim>\<open>f > 0.0\<close> and \<open>scale f x\<close> is \<^verbatim>\<open>static_cast<u64>(x / f)\<close>.\<close>

definition set_speed_factor :: "('f \<Rightarrow> bool) \<Rightarrow> 'f \<Rightarrow> 'f \<Rightarrow> 'f RateController \<Rightarrow> 'f RateController" where
  "set_speed_factor positive zero factor r = r\<lparr>speed_factor := (if positive factor then factor else zero)\<rparr>"

definition wait_duration :: "('f \<Rightarrow> bool) \<Rightarrow> ('f \<Rightarrow> u64 \<Rightarrow> u64) \<Rightarrow> u64 \<Rightarrow> u64 \<Rightarrow> 'f RateController \<Rightarrow> u64" where
  "wait_duration positive scale virtual_time_ns current_wall_ns r =
     (if \<not> rate_running r \<or> \<not> positive (speed_factor r) then 0
      else let virtual_elapsed = virtual_time_ns - virtual_start r;
               expected_wall_elapsed = scale (speed_factor r) virtual_elapsed;
               expected_wall_time = wall_start_ns r + expected_wall_elapsed
           in if current_wall_ns < expected_wall_time then expected_wall_time - current_wall_ns else 0)"

section \<open>Time units and windows\<close>

definition ns_to_us :: "u64 \<Rightarrow> u64" where "ns_to_us ns = ns div 1000"
definition ns_to_ms :: "u64 \<Rightarrow> u64" where "ns_to_ms ns = ns div 1000000"
definition ns_to_sec :: "u64 \<Rightarrow> u64" where "ns_to_sec ns = ns div 1000000000"
definition us_to_ns :: "u64 \<Rightarrow> u64" where "us_to_ns us = us * 1000"
definition ms_to_ns :: "u64 \<Rightarrow> u64" where "ms_to_ns ms = ms * 1000000"
definition sec_to_ns :: "u64 \<Rightarrow> u64" where "sec_to_ns sec = sec * 1000000000"

record TimeWindow =
  start_ns :: u64
  end_ns :: u64
  duration_ns :: u64

definition window_contains :: "u64 \<Rightarrow> TimeWindow \<Rightarrow> bool" where
  "window_contains time_ns w = (start_ns w \<le> time_ns \<and> time_ns < end_ns w)"

definition window_index :: "TimeWindow \<Rightarrow> u64 outcome" where
  "window_index w = (if duration_ns w = 0 then Fault else Ok (start_ns w div duration_ns w))"

definition tumble_window :: "u64 \<Rightarrow> u64 \<Rightarrow> TimeWindow outcome" where
  "tumble_window time_ns window_duration_ns =
     (if window_duration_ns = 0 then Fault
      else let index = time_ns div window_duration_ns in
        Ok \<lparr>start_ns = index * window_duration_ns, end_ns = (index + 1) * window_duration_ns,
            duration_ns = window_duration_ns\<rparr>)"

section \<open>Concurrent advancing\<close>

definition clock_inv :: "clock_sys \<Rightarrow> bool" where
  "clock_inv s \<longleftrightarrow> (\<forall>i t c. advancing s i = Some (t, c) \<longrightarrow> c \<le> clock_now s)"

lemma clock_step_inv: "clock_step s s' \<Longrightarrow> clock_inv s \<Longrightarrow> clock_inv s' \<and> clock_now s \<le> clock_now s'"
  by (induction rule: clock_step.induct) (fastforce simp: clock_inv_def split: if_splits)+

lemma clock_reach_inv: "clock_step\<^sup>*\<^sup>* s s' \<Longrightarrow> clock_inv s \<Longrightarrow> clock_inv s' \<and> clock_now s \<le> clock_now s'"
  by (induction rule: rtranclp_induct) (auto dest: clock_step_inv)

lemma clock_step_finish:
  "clock_step s s' \<Longrightarrow> clock_inv s \<Longrightarrow> advancing s i = Some (t, c) \<Longrightarrow> advancing s' i = None \<Longrightarrow> t \<le> clock_now s'"
  by (induction rule: clock_step.induct) (fastforce simp: clock_inv_def split: if_splits)+

section \<open>Windows\<close>

lemma tumble_window_eq:
  assumes "0 < d"
  shows "tumble_window t d = Ok \<lparr>start_ns = t div d * d, end_ns = (t div d + 1) * d, duration_ns = d\<rparr>"
proof -
  have "d \<noteq> 0" using assms by auto
  then show ?thesis by (simp add: tumble_window_def Let_def)
qed

lemma len64: "LENGTH(64) = 64"
  by simp

lemma tumble_window_unat:
  assumes "0 < d" "unat t + unat d < 2 ^ 64" "tumble_window t d = Ok w"
  shows "unat (start_ns w) = unat t div unat d * unat d" "unat (end_ns w) = unat t div unat d * unat d + unat d"
    "duration_ns w = d"
proof -
  have w: "w = \<lparr>start_ns = t div d * d, end_ns = (t div d + 1) * d, duration_ns = d\<rparr>"
    using assms(3) by (simp add: tumble_window_eq [OF assms(1)])
  have le: "unat t div unat d * unat d \<le> unat t" by simp
  have s: "unat (t div d * d) = unat t div unat d * unat d"
    using le_less_trans [OF le unat_lt_pow [of t]] by (simp only: unat_word_ariths(2) unat_div mod_less)
  have "unat (t div d * d + d) = unat t div unat d * unat d + unat d"
    using le_less_trans [OF add_right_mono [OF le] assms(2)] s by (simp only: unat_word_ariths(1) mod_less len64)
  moreover have "(t div d + 1) * d = t div d * d + d" by (simp add: algebra_simps)
  ultimately show "unat (start_ns w) = unat t div unat d * unat d"
    "unat (end_ns w) = unat t div unat d * unat d + unat d" "duration_ns w = d"
    using s by (simp_all add: w)
qed

section \<open>Properties\<close>

text \<open>
  C31. The virtual clock never runs backwards: whatever number of threads advance it concurrently, with
  any interleaving and spurious failures of the exchange, its time only grows, and when a call to
  \<open>advance_to\<close> returns, the clock has reached the time it asked for.
\<close>

theorem clock_monotone:
  assumes "clock_step\<^sup>*\<^sup>* \<lparr>clock_now = t0, advancing = \<lambda>_. None\<rparr> s" "clock_step s s'"
  shows "t0 \<le> clock_now s \<and> clock_now s \<le> clock_now s'
    \<and> (advancing s i = Some (t, c) \<and> advancing s' i = None \<longrightarrow> t \<le> clock_now s')"
proof -
  have "clock_inv s" "t0 \<le> clock_now s"
    using clock_reach_inv [OF assms(1)] by (simp_all add: clock_inv_def)
  then show ?thesis using clock_step_inv [OF assms(2)] clock_step_finish [OF assms(2)] by blast
qed

theorem clock_monotone_witness:
  "let s = \<lparr>clock_now = 5, advancing = (\<lambda>_. None)(0 \<mapsto> (9, 5))\<rparr>;
       s' = s\<lparr>clock_now := 9, advancing := (advancing s)(0 := None)\<rparr>
   in clock_step\<^sup>*\<^sup>* \<lparr>clock_now = 5, advancing = \<lambda>_. None\<rparr> s \<and> clock_step s s' \<and> 9 \<le> clock_now s'"
proof -
  define s where "s = \<lparr>clock_now = 5, advancing = (\<lambda>_. None)(0 \<mapsto> (9, 5))\<rparr>"
  let ?s' = "s\<lparr>clock_now := 9, advancing := (advancing s)(0 := None)\<rparr>"
  have 1: "clock_step \<lparr>clock_now = 5, advancing = \<lambda>_. None\<rparr> s"
    using adv_load [of "\<lparr>clock_now = 5, advancing = \<lambda>_. None\<rparr>" 0 9] by (simp add: s_def)
  then have r: "clock_step\<^sup>*\<^sup>* \<lparr>clock_now = 5, advancing = \<lambda>_. None\<rparr> s" by (rule r_into_rtranclp)
  have 2: "clock_step s ?s'" by (rule adv_cas [of s 0 9 5]) (simp_all add: s_def)
  have "9 \<le> clock_now ?s'"
    using clock_monotone [OF r 2, of 0 9 5] by (simp add: s_def)
  then show ?thesis using r 2 unfolding s_def [symmetric] Let_def by blast
qed

text \<open>
  Tumbling windows partition time: away from the end of the 64-bit range, the window of a timestamp
  contains it, starts at a multiple of the duration and is as long as it, and two timestamps have the
  same window exactly when they have the same window index.
\<close>

theorem tumble_window_partition:
  assumes "0 < d" "unat t + unat d < 2 ^ 64" "unat t' + unat d < 2 ^ 64"
  shows "\<exists>w w'. tumble_window t d = Ok w \<and> tumble_window t' d = Ok w'
    \<and> window_contains t w \<and> unat d dvd unat (start_ns w) \<and> unat (end_ns w) - unat (start_ns w) = unat d
    \<and> (w = w' \<longleftrightarrow> t div d = t' div d) \<and> (window_contains t' w \<longleftrightarrow> w = w')"
proof -
  obtain w where w: "tumble_window t d = Ok w" using tumble_window_eq [OF assms(1)] by blast
  obtain w' where w': "tumble_window t' d = Ok w'" using tumble_window_eq [OF assms(1)] by blast
  note u = tumble_window_unat [OF assms(1,2) w] and u' = tumble_window_unat [OF assms(1,3) w']
  have d: "0 < unat d" using assms(1) by (simp add: word_less_nat_alt)
  have c: "window_contains x w \<longleftrightarrow> unat x div unat d = unat t div unat d" for x
  proof -
    have "window_contains x w \<longleftrightarrow> unat t div unat d * unat d \<le> unat x \<and> unat x < Suc (unat t div unat d) * unat d"
      by (simp add: window_contains_def word_le_nat_alt word_less_nat_alt u add.commute)
    also have "\<dots> \<longleftrightarrow> unat t div unat d \<le> unat x div unat d \<and> unat x div unat d < Suc (unat t div unat d)"
      unfolding less_eq_div_iff_mult_less_eq [OF d] div_less_iff_less_mult [OF d] by blast
    also have "\<dots> \<longleftrightarrow> unat x div unat d = unat t div unat d" by arith
    finally show ?thesis .
  qed
  have i: "w = w' \<longleftrightarrow> unat t div unat d = unat t' div unat d"
  proof
    assume "w = w'"
    then show "unat t div unat d = unat t' div unat d" using u(1) u'(1) d by simp
  next
    assume "unat t div unat d = unat t' div unat d"
    then show "w = w'" using u u' by (intro TimeWindow.equality) (simp_all add: word_unat_eq_iff)
  qed
  have j: "t div d = t' div d \<longleftrightarrow> unat t div unat d = unat t' div unat d" by (simp add: word_unat_eq_iff unat_div)
  show ?thesis using w w' c [of t] c [of t'] i j u by (intro exI conjI) auto
qed

theorem tumble_window_partition_witness:
  "\<exists>w. tumble_window 1234 1000 = Ok w \<and> window_contains 1234 w \<and> window_contains 1999 w"
  using tumble_window_partition [of 1000 1234 1999] by force

end
