(* ===== verification/Replay.thy ===== *)
theory Replay
  imports Event_Model
begin

text \<open>
  Model of \<^verbatim>\<open>include/vectortick/replay/replay_engine.hpp\<close> and \<^verbatim>\<open>src/replay/replay_engine.cpp\<close>. The effects
  of a replay besides the statistics are recorded in the state: the events handed to the callback and
  the times slept to preserve the relative timing. Reading segments is an argument of \<open>replay_segment\<close>
  (their model is another component). Rate limiting by wall-clock time only sleeps between batches, and
  the wall-clock statistics depend on it; both are left out, and the division by the floating-point time
  dilation is an argument.
\<close>

section \<open>Options, statistics and state\<close>

record ReplayOptions =
  preserve_relative_timing :: bool
  verify_sequence :: bool

record ReplayStatistics =
  total_events :: u64
  sequence_breaks :: u64
  out_of_order_events :: u64
  min_sequence :: u64
  max_sequence :: u64

record ReplayEngine =
  replay_options :: ReplayOptions
  replay_stats :: ReplayStatistics
  replay_last_sequence :: u64
  last_receive_ts :: u64
  first_event :: bool
  delivered :: "CanonicalEvent list"
  sleeps :: "u64 list"

definition zero_stats :: ReplayStatistics where
  "zero_stats = \<lparr>total_events = 0, sequence_breaks = 0, out_of_order_events = 0, min_sequence = 0, max_sequence = 0\<rparr>"

definition reset_stats :: "ReplayEngine \<Rightarrow> ReplayEngine" where
  "reset_stats r = r\<lparr>replay_stats := zero_stats, replay_last_sequence := 0, last_receive_ts := 0, first_event := True\<rparr>"

definition ReplayEngine_new :: "ReplayOptions \<Rightarrow> ReplayEngine" where
  "ReplayEngine_new opts = reset_stats \<lparr>replay_options = opts, replay_stats = zero_stats, replay_last_sequence = 0,
     last_receive_ts = 0, first_event = True, delivered = [], sleeps = []\<rparr>"

section \<open>Processing one event\<close>

definition check_sequence :: "u64 \<Rightarrow> u64 \<Rightarrow> ReplayStatistics \<Rightarrow> ReplayStatistics" where
  "check_sequence seq last_seq st =
     (if seq < last_seq then st\<lparr>out_of_order_events := out_of_order_events st + 1\<rparr>
      else if last_seq + 1 < seq then st\<lparr>sequence_breaks := sequence_breaks st + 1\<rparr> else st)"

definition track_range :: "u64 \<Rightarrow> ReplayStatistics \<Rightarrow> ReplayStatistics" where
  "track_range seq st =
     (let st = (if seq < min_sequence st then st\<lparr>min_sequence := seq\<rparr> else st)
      in if max_sequence st < seq then st\<lparr>max_sequence := seq\<rparr> else st)"

text \<open>\<open>dilate\<close> is the scaling of a delay by the time dilation.\<close>

definition relative_sleep :: "(u64 \<Rightarrow> u64) \<Rightarrow> CanonicalEvent \<Rightarrow> ReplayEngine \<Rightarrow> u64 list" where
  "relative_sleep dilate ev r =
     (if preserve_relative_timing (replay_options r) \<and> last_receive_ts r < receive_ts_ns ev
      then let delta_ns = dilate (receive_ts_ns ev - last_receive_ts r)
           in if 0 < delta_ns \<and> delta_ns < 10000000000 then [delta_ns] else []
      else [])"

definition process_event :: "(u64 \<Rightarrow> u64) \<Rightarrow> CanonicalEvent \<Rightarrow> ReplayEngine \<Rightarrow> ReplayEngine" where
  "process_event dilate ev r =
     (let r1 =
        (if first_event r
         then r\<lparr>replay_stats := (replay_stats r)\<lparr>min_sequence := sequence ev, max_sequence := sequence ev\<rparr>,
                replay_last_sequence := sequence ev, last_receive_ts := receive_ts_ns ev, first_event := False\<rparr>
         else
           let st = track_range (sequence ev) (replay_stats r);
               st = (if verify_sequence (replay_options r)
                     then check_sequence (sequence ev) (replay_last_sequence r) st else st)
           in r\<lparr>replay_stats := st, sleeps := sleeps r @ relative_sleep dilate ev r,
                replay_last_sequence := sequence ev, last_receive_ts := receive_ts_ns ev\<rparr>)
      in r1\<lparr>replay_stats := (replay_stats r1)\<lparr>total_events := total_events (replay_stats r1) + 1\<rparr>,
            delivered := delivered r1 @ [ev]\<rparr>)"

definition replay_events :: "(u64 \<Rightarrow> u64) \<Rightarrow> CanonicalEvent list \<Rightarrow> ReplayEngine \<Rightarrow> unit outcome \<times> ReplayEngine" where
  "replay_events dilate events r =
     (if events = [] then (Ok (), r) else (Ok (), fold (process_event dilate) events r))"

text \<open>\<open>segment\<close> is the outcome of opening the segment and reading all its events.\<close>

definition replay_segment ::
    "(u64 \<Rightarrow> u64) \<Rightarrow> CanonicalEvent list outcome \<Rightarrow> ReplayEngine \<Rightarrow> unit outcome \<times> ReplayEngine" where
  "replay_segment dilate segment r =
     (case segment of Ok events \<Rightarrow> replay_events dilate events r | Err c \<Rightarrow> (Err c, r) | Fault \<Rightarrow> (Fault, r))"

text \<open>The loop over the segments of a catalog, each given by the outcome of reading it, up to the first error.\<close>

fun replay_segments ::
    "(u64 \<Rightarrow> u64) \<Rightarrow> CanonicalEvent list outcome list \<Rightarrow> ReplayEngine \<Rightarrow> unit outcome \<times> ReplayEngine" where
  "replay_segments dilate [] r = (Ok (), r)"
| "replay_segments dilate (seg # segs) r =
     (case replay_segment dilate seg r of
        (Ok _, r) \<Rightarrow> replay_segments dilate segs r | (st, r) \<Rightarrow> (st, r))"

section \<open>What the statistics count\<close>

text \<open>The specification: neighbouring sequence numbers that step back or skip ahead.\<close>

fun count_pairs :: "('a \<Rightarrow> 'a \<Rightarrow> bool) \<Rightarrow> 'a list \<Rightarrow> nat" where
  "count_pairs P (x # y # xs) = (if P x y then 1 else 0) + count_pairs P (y # xs)"
| "count_pairs P _ = 0"

lemma count_pairs_snoc:
  "xs \<noteq> [] \<Longrightarrow> count_pairs P (xs @ [y]) = count_pairs P xs + (if P (last xs) y then 1 else 0)"
  by (induction P xs rule: count_pairs.induct) auto

definition stats_spec :: "bool \<Rightarrow> u64 list \<Rightarrow> ReplayStatistics" where
  "stats_spec verify seqs = \<lparr>total_events = of_nat (length seqs),
     sequence_breaks = (if verify then of_nat (count_pairs (\<lambda>a b. a \<le> b \<and> a + 1 < b) seqs) else 0),
     out_of_order_events = (if verify then of_nat (count_pairs (\<lambda>a b. b < a) seqs) else 0),
     min_sequence = Min (set seqs), max_sequence = Max (set seqs)\<rparr>"

lemma stats_eqI:
  "total_events a = total_events b \<Longrightarrow> sequence_breaks a = sequence_breaks b \<Longrightarrow>
   out_of_order_events a = out_of_order_events b \<Longrightarrow> min_sequence a = min_sequence b \<Longrightarrow>
   max_sequence a = max_sequence b \<Longrightarrow> a = (b :: ReplayStatistics)"
  by (rule ReplayStatistics.equality) simp_all

lemma track_range_sel [simp]:
  "total_events (track_range s st) = total_events st" "sequence_breaks (track_range s st) = sequence_breaks st"
  "out_of_order_events (track_range s st) = out_of_order_events st"
  "min_sequence (track_range s st) = min s (min_sequence st)" "max_sequence (track_range s st) = max s (max_sequence st)"
  by (auto simp: track_range_def Let_def min_def max_def not_less)

lemma check_sequence_sel [simp]:
  "total_events (check_sequence s l st) = total_events st"
  "sequence_breaks (check_sequence s l st) = sequence_breaks st + (if l \<le> s \<and> l + 1 < s then 1 else 0)"
  "out_of_order_events (check_sequence s l st) = out_of_order_events st + (if s < l then 1 else 0)"
  "min_sequence (check_sequence s l st) = min_sequence st" "max_sequence (check_sequence s l st) = max_sequence st"
  by (auto simp: check_sequence_def)

lemma stats_spec_snoc:
  assumes "seqs \<noteq> []"
  shows "(let st = track_range s (stats_spec v seqs);
      st = (if v then check_sequence s (last seqs) st else st)
    in st\<lparr>total_events := total_events st + 1\<rparr>) = stats_spec v (seqs @ [s])"
proof -
  have "Min (set (seqs @ [s])) = min s (Min (set seqs))" "Max (set (seqs @ [s])) = max s (Max (set seqs))"
    using assms by simp_all
  then show ?thesis
    by (cases v) (rule stats_eqI; simp add: stats_spec_def Let_def count_pairs_snoc [OF assms])+
qed

text \<open>The engine after the events \<open>es\<close>, the first of which found it fresh.\<close>

definition replayed :: "CanonicalEvent list \<Rightarrow> ReplayEngine \<Rightarrow> bool" where
  "replayed es r \<longleftrightarrow> es \<noteq> [] \<and> \<not> first_event r \<and> delivered r = es
     \<and> replay_stats r = stats_spec (verify_sequence (replay_options r)) (map sequence es)
     \<and> replay_last_sequence r = sequence (last es) \<and> last_receive_ts r = receive_ts_ns (last es)
     \<and> (\<forall>d\<in>set (sleeps r). d < 10000000000)"

lemma process_first:
  "replayed [ev] (process_event dilate ev (ReplayEngine_new opts))
    \<and> replay_options (process_event dilate ev (ReplayEngine_new opts)) = opts"
  by (auto simp: process_event_def ReplayEngine_new_def reset_stats_def replayed_def stats_spec_def zero_stats_def Let_def)

lemma process_next:
  assumes "replayed es r"
  shows "replayed (es @ [ev]) (process_event dilate ev r) \<and> replay_options (process_event dilate ev r) = replay_options r"
proof -
  have ne: "map sequence es \<noteq> []" using assms by (simp add: replayed_def)
  have l: "replay_last_sequence r = last (map sequence es)" using assms by (simp add: replayed_def last_map)
  have "replay_stats (process_event dilate ev r)
      = stats_spec (verify_sequence (replay_options r)) (map sequence es @ [sequence ev])"
    unfolding stats_spec_snoc [OF ne, symmetric] using assms l
    by (simp add: process_event_def replayed_def Let_def)
  then show ?thesis
    using assms by (auto simp: process_event_def replayed_def relative_sleep_def Let_def split: if_splits)
qed

lemma fold_process:
  "replayed es r \<Longrightarrow> replayed (es @ evs) (fold (process_event dilate) evs r)
     \<and> replay_options (fold (process_event dilate) evs r) = replay_options r"
proof (induction evs arbitrary: es r)
  case Nil
  then show ?case by simp
next
  case (Cons ev evs)
  show ?case using Cons.IH [of "es @ [ev]" "process_event dilate ev r"] process_next [OF Cons.prems, of ev dilate] by simp
qed

lemma replay_events_spec:
  assumes "es \<noteq> []" "replay_events dilate es (ReplayEngine_new opts) = (st, r)"
  shows "st = Ok () \<and> replayed es r \<and> replay_options r = opts"
proof -
  obtain e evs where e: "es = e # evs" using assms(1) by (cases es) auto
  have "replayed [e] (process_event dilate e (ReplayEngine_new opts))
      \<and> replay_options (process_event dilate e (ReplayEngine_new opts)) = opts"
    by (rule process_first)
  then show ?thesis
    using fold_process [of "[e]" "process_event dilate e (ReplayEngine_new opts)" evs dilate] assms(2) e
    by (auto simp: replay_events_def)
qed

section \<open>Properties\<close>

text \<open>
  C30. Replay delivers every event exactly once and in order, and its statistics are exact: the number of
  events, the smallest and largest sequence number, and, when verification is on, the number of
  neighbours that step back and that skip ahead. No sleep between two events reaches ten seconds.
\<close>

theorem replay_statistics_exact:
  assumes "es \<noteq> []" "replay_events dilate es (ReplayEngine_new opts) = (st, r)" "verify_sequence opts"
  shows "st = Ok () \<and> delivered r = es
    \<and> total_events (replay_stats r) = of_nat (length es)
    \<and> min_sequence (replay_stats r) = Min (sequence ` set es)
    \<and> max_sequence (replay_stats r) = Max (sequence ` set es)
    \<and> out_of_order_events (replay_stats r) = of_nat (count_pairs (\<lambda>a b. b < a) (map sequence es))
    \<and> sequence_breaks (replay_stats r) = of_nat (count_pairs (\<lambda>a b. a \<le> b \<and> a + 1 < b) (map sequence es))
    \<and> (\<forall>d\<in>set (sleeps r). d < 10000000000)"
  using replay_events_spec [OF assms(1,2)] assms(3) by (simp add: replayed_def stats_spec_def)

theorem replay_statistics_exact_witness:
  "let es = [make_trade 1 1 5 0 0 0 0 0 0 0, make_trade 2 2 9 0 0 0 0 0 0 0, make_trade 3 3 7 0 0 0 0 0 0 0];
       (st, r) = replay_events id es (ReplayEngine_new \<lparr>preserve_relative_timing = True, verify_sequence = True\<rparr>)
   in delivered r = es \<and> out_of_order_events (replay_stats r) = 1 \<and> sequence_breaks (replay_stats r) = 1"
proof -
  define es where "es = [make_trade 1 1 5 0 0 0 0 0 0 0, make_trade 2 2 9 0 0 0 0 0 0 0, make_trade 3 3 7 0 0 0 0 0 0 0]"
  let ?o = "\<lparr>preserve_relative_timing = True, verify_sequence = True\<rparr>"
  obtain st r where e: "replay_events id es (ReplayEngine_new ?o) = (st, r)" by fastforce
  have s: "map sequence es = [5, 9, 7]" "es \<noteq> []" by (simp_all add: es_def make_trade_def)
  show ?thesis
    using replay_statistics_exact [OF s(2) e] s(1) e unfolding es_def [symmetric] Let_def by simp
qed

end
