(* ===== verification/File_System.thy ===== *)
theory File_System
  imports VT_Prelude "HOL-Library.AList"
begin

text \<open>
  Files and the system calls on them, and the utilities of \<^verbatim>\<open>memory/mapped_file.cpp\<close> above them. A world holds
  the contents of every file by its path, and what will happen to the system calls to come: a call
  succeeds, transfers only a part of its bytes, fails, is interrupted, or the process ends before it. With no
  fates left every call succeeds. A computation changes the world and returns a value or stops, because the
  process was killed or left the defined behaviour of the source. What a process wrote before it is killed
  stays in the file: synchronising matters only when the machine itself fails, which is not modelled, and
  neither are directories. A descriptor is the path it was opened for; no file is renamed while it is open.
\<close>

section \<open>Worlds and computations\<close>

datatype fate = Done | Short nat | Fails | Interrupted | Killed

record World =
  files :: "(string \<times> bytes) list"
  fates :: "fate list"

datatype 'a run = Returned 'a | Stopped

type_synonym 'a io = "World \<Rightarrow> 'a run \<times> World"

definition io_return :: "'a \<Rightarrow> 'a io" where
  "io_return a w = (Returned a, w)"

definition io_stop :: "'a io" where
  "io_stop w = (Stopped, w)"

definition io_bind :: "'a io \<Rightarrow> ('a \<Rightarrow> 'b io) \<Rightarrow> 'b io" where
  "io_bind m f w = (case m w of (Stopped, w) \<Rightarrow> (Stopped, w) | (Returned a, w) \<Rightarrow> f a w)"

abbreviation file_at :: "World \<Rightarrow> string \<Rightarrow> bytes option" where
  "file_at w \<equiv> map_of (files w)"

definition put_file :: "string \<Rightarrow> bytes \<Rightarrow> World \<Rightarrow> World" where
  "put_file p bs w = w\<lparr>files := AList.update p bs (files w)\<rparr>"

definition drop_file :: "string \<Rightarrow> World \<Rightarrow> World" where
  "drop_file p w = w\<lparr>files := AList.delete p (files w)\<rparr>"

lemma file_at_put [simp]: "file_at (put_file p bs w) q = (if q = p then Some bs else file_at w q)"
  by (simp add: put_file_def update_conv')

lemma file_at_drop [simp]: "file_at (drop_file p w) q = (if q = p then None else file_at w q)"
  by (simp add: drop_file_def delete_conv')

lemma fates_put_drop [simp]: "fates (put_file p bs w) = fates w" "fates (drop_file p w) = fates w"
  by (simp_all add: put_file_def drop_file_def)

lemma io_simps [simp]:
  "io_bind (io_return a) f w = f a w" "io_return a w = (Returned a, w)" "io_stop w = (Stopped, w)"
  by (simp_all add: io_bind_def io_return_def io_stop_def)

lemma io_bind_run:
  "m w = (Returned a, w') \<Longrightarrow> io_bind m f w = f a w'"
  "m w = (Stopped, w') \<Longrightarrow> io_bind m f w = (Stopped, w')"
  by (simp_all add: io_bind_def)

section \<open>System calls\<close>

definition take_fate :: "fate io" where
  "take_fate w =
     (case fates w of
        [] \<Rightarrow> (Returned Done, w)
      | Killed # fs \<Rightarrow> (Stopped, w\<lparr>fates := fs\<rparr>)
      | f # fs \<Rightarrow> (Returned f, w\<lparr>fates := fs\<rparr>))"

definition works :: "fate \<Rightarrow> bool" where
  "works f = (case f of Done \<Rightarrow> True | Short _ \<Rightarrow> True | _ \<Rightarrow> False)"

definition get_world :: "(World \<Rightarrow> 'a) \<Rightarrow> 'a io" where
  "get_world g w = (Returned (g w), w)"

definition modify :: "(World \<Rightarrow> World) \<Rightarrow> unit io" where
  "modify g w = (Returned (), g w)"

text \<open>A call that changes the world by \<open>g\<close> when its precondition holds.\<close>

definition sys_call :: "(World \<Rightarrow> bool) \<Rightarrow> (World \<Rightarrow> World) \<Rightarrow> bool io" where
  "sys_call pre g = io_bind take_fate (\<lambda>f w.
     if works f \<and> pre w then (Returned True, g w) else (Returned False, w))"

definition sys_exists :: "string \<Rightarrow> bool io" where
  "sys_exists p = get_world (\<lambda>w. file_at w p \<noteq> None)"

definition sys_open_read :: "string \<Rightarrow> bool io" where
  "sys_open_read p = sys_call (\<lambda>w. file_at w p \<noteq> None) id"

definition sys_open_truncate :: "string \<Rightarrow> bool io" where
  "sys_open_truncate p = sys_call (\<lambda>_. True) (put_file p [])"

definition sys_open_append :: "string \<Rightarrow> bool io" where
  "sys_open_append p = sys_call (\<lambda>_. True) (\<lambda>w. if file_at w p = None then put_file p [] w else w)"

text \<open>Synchronising a file has no effect on a world, in which nothing that was written is ever lost; the call can fail.\<close>

definition sys_fsync :: "bool io" where
  "sys_fsync = sys_call (\<lambda>_. True) id"

definition sys_rename :: "string \<Rightarrow> string \<Rightarrow> bool io" where
  "sys_rename p q = sys_call (\<lambda>w. file_at w p \<noteq> None)
     (\<lambda>w. case file_at w p of Some bs \<Rightarrow> put_file q bs (if p = q then w else drop_file p w) | None \<Rightarrow> w)"

definition sys_unlink :: "string \<Rightarrow> bool io" where
  "sys_unlink p = sys_call (\<lambda>w. file_at w p \<noteq> None) (drop_file p)"

definition sys_stat :: "string \<Rightarrow> nat option io" where
  "sys_stat p = io_bind take_fate (\<lambda>f w. (Returned (if works f then map_option length (file_at w p) else None), w))"

text \<open>Transfers return the bytes moved, or an error that may be an interruption.\<close>

datatype 'a transfer = Moved 'a | Failed | Again

definition sys_write :: "string \<Rightarrow> bytes \<Rightarrow> nat transfer io" where
  "sys_write p bs = io_bind take_fate (\<lambda>f w.
     let old = (case file_at w p of Some o' \<Rightarrow> o' | None \<Rightarrow> []) in
     case f of
       Done \<Rightarrow> (Returned (Moved (length bs)), put_file p (old @ bs) w)
     | Short k \<Rightarrow> (Returned (Moved (min (Suc k) (length bs))), put_file p (old @ take (Suc k) bs) w)
     | Interrupted \<Rightarrow> (Returned Again, w)
     | _ \<Rightarrow> (Returned Failed, w))"

definition sys_read :: "string \<Rightarrow> nat \<Rightarrow> nat \<Rightarrow> bytes transfer io" where
  "sys_read p off n = io_bind take_fate (\<lambda>f w.
     let rest = take n (drop off (case file_at w p of Some o' \<Rightarrow> o' | None \<Rightarrow> [])) in
     case f of
       Done \<Rightarrow> (Returned (Moved rest), w)
     | Short k \<Rightarrow> (Returned (Moved (take (Suc k) rest)), w)
     | Interrupted \<Rightarrow> (Returned Again, w)
     | _ \<Rightarrow> (Returned Failed, w))"

text \<open>Every transfer consumes a fate or, with none left, moves everything.\<close>

lemma take_fate_cases:
  obtains (quiet) "fates w = []" "take_fate w = (Returned Done, w)"
    | (killed) fs where "fates w = Killed # fs" "take_fate w = (Stopped, w\<lparr>fates := fs\<rparr>)"
    | (fate) f fs where "fates w = f # fs" "f \<noteq> Killed" "take_fate w = (Returned f, w\<lparr>fates := fs\<rparr>)"
proof (cases "fates w")
  case (Cons f fs)
  then show ?thesis using that by (cases f) (simp_all add: take_fate_def)
qed (use that in \<open>simp add: take_fate_def\<close>)

section \<open>Utilities\<close>

definition file_exists :: "string \<Rightarrow> bool io" where
  "file_exists p = sys_exists p"

definition file_size :: "string \<Rightarrow> nat outcome io" where
  "file_size p = io_bind (sys_stat p) (\<lambda>s. io_return (case s of None \<Rightarrow> Err FileStatFailed | Some n \<Rightarrow> Ok n))"

definition file_remove :: "string \<Rightarrow> unit outcome io" where
  "file_remove p = io_bind (sys_unlink p) (\<lambda>ok. io_return (if ok then Ok () else Err FileRemoveFailed))"

definition file_rename :: "string \<Rightarrow> string \<Rightarrow> unit outcome io" where
  "file_rename p q = io_bind (sys_rename p q) (\<lambda>ok. io_return (if ok then Ok () else Err FileRenameFailed))"

definition file_sync :: "string \<Rightarrow> unit outcome io" where
  "file_sync p = io_bind (sys_open_read p) (\<lambda>ok. if \<not> ok then io_return (Err FileOpenFailed)
     else io_bind sys_fsync (\<lambda>ok. io_return (if ok then Ok () else Err FileSyncFailed)))"

text \<open>
  The loop of \<^verbatim>\<open>write_all\<close> and \<^verbatim>\<open>append\<close>, which tries again after an interruption; the same loop in the manifest
  and the journal does not. It ends because a successful call moves at least one byte and an interruption uses up a
  fate.
\<close>

function write_loop :: "bool \<Rightarrow> string \<Rightarrow> bytes \<Rightarrow> World \<Rightarrow> bool run \<times> World" where
  "write_loop retry p bs w =
     (if bs = [] then (Returned True, w)
      else case sys_write p bs w of
          (Stopped, w') \<Rightarrow> (Stopped, w')
        | (Returned Failed, w') \<Rightarrow> (Returned False, w')
        | (Returned Again, w') \<Rightarrow> if retry then write_loop retry p bs w' else (Returned False, w')
        | (Returned (Moved n), w') \<Rightarrow> write_loop retry p (drop n bs) w')"
  by pat_completeness auto

lemma sys_write_progress:
  assumes "sys_write p bs w = (Returned r, w')" "bs \<noteq> []"
  shows "r = Again \<Longrightarrow> length (fates w') < length (fates w)"
    "r = Moved n \<Longrightarrow> 0 < n \<and> length (fates w') \<le> length (fates w)"
  using assms
  by (cases w rule: take_fate_cases; force simp: sys_write_def io_bind_def Let_def split: fate.splits)+

termination write_loop
proof (relation "measures [\<lambda>(retry, p, bs, w). length bs, \<lambda>(retry, p, bs, w). length (fates w)]", goal_cases)
  case (2 retry p bs w x w' r n)
  then show ?case using sys_write_progress(2) [of p bs w r w' n] by auto
next
  case (3 retry p bs w x w' r)
  then show ?case using sys_write_progress(1) [of p bs w r w'] by simp
qed simp

declare write_loop.simps [simp del]

definition file_write_all :: "string \<Rightarrow> bytes \<Rightarrow> unit outcome io" where
  "file_write_all p bs = io_bind (sys_open_truncate p) (\<lambda>ok.
     if \<not> ok then io_return (Err FileOpenFailed)
     else io_bind (write_loop True p bs) (\<lambda>ok.
       if \<not> ok then io_return (Err FileWriteFailed)
       else io_bind sys_fsync (\<lambda>ok. io_return (if ok then Ok () else Err FileSyncFailed))))"

definition file_append :: "string \<Rightarrow> bytes \<Rightarrow> unit outcome io" where
  "file_append p bs = io_bind (sys_open_append p) (\<lambda>ok.
     if \<not> ok then io_return (Err FileOpenFailed)
     else io_bind (write_loop True p bs) (\<lambda>ok. io_return (if ok then Ok () else Err FileWriteFailed)))"

section \<open>Mapped files\<close>

record MappedFile =
  mf_path :: string
  mf_data :: "bytes option"
  mf_writable :: bool
  mf_fd :: bool

definition MappedFile_init :: MappedFile where
  "MappedFile_init = \<lparr>mf_path = [], mf_data = None, mf_writable = False, mf_fd = False\<rparr>"

text \<open>An empty file cannot be mapped.\<close>

definition open_read :: "string \<Rightarrow> MappedFile outcome io" where
  "open_read p = io_bind (sys_open_read p) (\<lambda>ok.
     if \<not> ok then io_return (Err FileOpenFailed)
     else io_bind (sys_stat p) (\<lambda>st. case st of
         None \<Rightarrow> io_return (Err FileStatFailed)
       | Some n \<Rightarrow> io_bind (sys_call (\<lambda>_. n \<noteq> 0) id) (\<lambda>ok.
           if \<not> ok then io_return (Err MmapFailed)
           else get_world (\<lambda>w. Ok \<lparr>mf_path = p, mf_data = map_option (take n) (file_at w p), mf_writable = False, mf_fd = True\<rparr>))))"

definition MappedFile_close :: "MappedFile \<Rightarrow> MappedFile" where
  "MappedFile_close f = f\<lparr>mf_data := None, mf_fd := False, mf_writable := False\<rparr>"

section \<open>Calls without failures\<close>

text \<open>With no fates left, or with fates that only shorten transfers, every call succeeds.\<close>

definition no_failure :: "World \<Rightarrow> bool" where
  "no_failure w \<longleftrightarrow> (\<forall>f\<in>set (fates w). f \<notin> {Fails, Interrupted})"

definition quiet :: "World \<Rightarrow> bool" where
  "quiet w \<longleftrightarrow> fates w = []"

lemma quiet_take [simp]: "quiet w \<Longrightarrow> take_fate w = (Returned Done, w)"
  by (simp add: quiet_def take_fate_def)

lemma quiet_put_drop [simp]: "quiet (put_file p bs w) = quiet w" "quiet (drop_file p w) = quiet w"
  by (simp_all add: quiet_def)

lemma quiet_sys_call [simp]:
  "quiet w \<Longrightarrow> sys_call pre g w = (Returned (pre w), if pre w then g w else w)"
  by (simp add: sys_call_def io_bind_def works_def)

lemma quiet_sys_write [simp]:
  assumes "quiet w"
  shows "sys_write p bs w = (Returned (Moved (length bs)), put_file p ((case file_at w p of Some o' \<Rightarrow> o' | None \<Rightarrow> []) @ bs) w)"
  using assms by (simp add: sys_write_def io_bind_def Let_def)

lemma quiet_write_loop:
  assumes "quiet w" "file_at w p = Some c"
  shows "write_loop retry p bs w = (Returned True, if bs = [] then w else put_file p (c @ bs) w)"
  using assms by (simp add: write_loop.simps [of retry p bs] write_loop.simps [of retry p "[]"])

lemma quiet_file_write_all:
  assumes "quiet w"
  shows "\<exists>w'. file_write_all p bs w = (Returned (Ok ()), w') \<and> quiet w' \<and> file_at w' = (file_at w)(p \<mapsto> bs)"
  using assms
  by (auto simp: file_write_all_def sys_open_truncate_def sys_fsync_def io_bind_def quiet_write_loop fun_eq_iff)

lemma quiet_open_read:
  assumes "quiet w" "file_at w p = Some c"
  shows "open_read p w = (if c = [] then (Returned (Err MmapFailed), w)
    else (Returned (Ok \<lparr>mf_path = p, mf_data = Some c, mf_writable = False, mf_fd = True\<rparr>), w))"
  using assms by (simp add: open_read_def sys_open_read_def sys_stat_def io_bind_def works_def get_world_def)

end
