(* ===== verification/Crash_Logic.thy ===== *)
theory Crash_Logic
  imports File_System
begin

text \<open>
  Weakest preconditions for computations on files that may be cut off at any system call. The assertions are
  on the contents of the files; \<open>wp F c Q E\<close> holds in the states from which \<open>c\<close>, whatever fates from \<open>F\<close> meet its
  system calls, ends in a state that satisfies \<open>Q\<close> or is stopped in one that satisfies \<open>E\<close>.
\<close>

section \<open>Weakest preconditions\<close>

type_synonym contents = "string \<Rightarrow> bytes option"

definition wp :: "fate set \<Rightarrow> 'a io \<Rightarrow> ('a \<Rightarrow> contents \<Rightarrow> bool) \<Rightarrow> (contents \<Rightarrow> bool) \<Rightarrow> contents \<Rightarrow> bool" where
  "wp F c Q E fs \<longleftrightarrow> (\<forall>w. file_at w = fs \<longrightarrow> set (fates w) \<subseteq> F \<longrightarrow>
     (case c w of (Returned a, w') \<Rightarrow> set (fates w') \<subseteq> F \<and> Q a (file_at w') | (Stopped, w') \<Rightarrow> E (file_at w')))"

definition may_fail :: "fate set \<Rightarrow> bool" where
  "may_fail F \<longleftrightarrow> Fails \<in> F \<or> Interrupted \<in> F"

text \<open>Fates under which no call fails: the process may only be killed, and transfers be short.\<close>

definition crashes :: "fate set" where
  "crashes = - {Fails, Interrupted}"

lemma may_fail_simps [simp]: "may_fail UNIV" "\<not> may_fail crashes" "\<not> may_fail {}"
  by (simp_all add: may_fail_def crashes_def)

lemma wp_run:
  assumes "wp F c Q E fs" "file_at w = fs" "set (fates w) \<subseteq> F" "c w = (r, w')"
  shows "case r of Returned a \<Rightarrow> set (fates w') \<subseteq> F \<and> Q a (file_at w') | Stopped \<Rightarrow> E (file_at w')"
  using assms(1) [unfolded wp_def, rule_format, OF assms(2,3)] assms(4) by simp

lemma wp_quiet:
  assumes "wp {} c Q (\<lambda>_. False) (file_at w)" "quiet w"
  obtains a w' where "c w = (Returned a, w')" "Q a (file_at w')" "quiet w'"
proof -
  obtain r w' where r: "c w = (r, w')" by fastforce
  then show ?thesis using wp_run [OF assms(1) refl _ r] assms(2) that by (auto simp: quiet_def split: run.splits)
qed

named_theorems wp_intro

lemma wp_conseq:
  assumes "wp F c Q E fs" "\<And>a fs. Q a fs \<Longrightarrow> Q' a fs" "\<And>fs. E fs \<Longrightarrow> E' fs"
  shows "wp F c Q' E' fs"
  using assms unfolding wp_def by (fastforce split: prod.splits run.splits)

lemma wp_io_return [wp_intro]: "Q a fs \<Longrightarrow> wp F (io_return a) Q E fs"
  by (simp add: wp_def)

lemma wp_stop [wp_intro]: "E fs \<Longrightarrow> wp F io_stop Q E fs"
  by (simp add: wp_def)

lemma wp_io_bind [wp_intro]: "wp F m (\<lambda>a. wp F (f a) Q E) E fs \<Longrightarrow> wp F (io_bind m f) Q E fs"
  unfolding wp_def io_bind_def
proof (intro allI impI, goal_cases)
  case (1 w)
  obtain r w' where r: "m w = (r, w')" by fastforce
  then show ?case using 1(1) [rule_format, OF 1(2,3)] by (cases r) (auto simp: r)
qed

text \<open>A step that leaves the files as they are.\<close>

lemma wp_seq:
  assumes "wp F m (\<lambda>a gs. a = x \<and> gs = fs) E fs" "wp F (f x) Q E fs"
  shows "wp F (io_bind m f) Q E fs"
  by (intro wp_io_bind wp_conseq [OF assms(1)]) (use assms(2) in auto)

lemma wp_take_fate:
  assumes "Killed \<in> F \<Longrightarrow> E fs" "\<And>f. f \<in> insert Done F \<Longrightarrow> f \<noteq> Killed \<Longrightarrow> Q f fs"
  shows "wp F take_fate Q E fs"
  unfolding wp_def
proof (intro allI impI)
  fix w assume w: "file_at w = fs" "set (fates w) \<subseteq> F"
  show "case take_fate w of (Returned a, w') \<Rightarrow> set (fates w') \<subseteq> F \<and> Q a (file_at w') | (Stopped, w') \<Rightarrow> E (file_at w')"
    using w assms by (cases w rule: take_fate_cases) auto
qed

lemma wp_get_world [wp_intro]: "(\<And>w. file_at w = fs \<Longrightarrow> Q (g w) fs) \<Longrightarrow> wp F (get_world g) Q E fs"
  by (simp add: wp_def get_world_def)

text \<open>A call whose effect on the files is known.\<close>

lemma wp_sys_call:
  assumes "\<And>w. pre w = pre' (file_at w)" "\<And>w. pre w \<Longrightarrow> file_at (g w) = g' (file_at w)" "\<And>w. fates (g w) = fates w"
    and "Killed \<in> F \<Longrightarrow> E fs" "may_fail F \<or> \<not> pre' fs \<Longrightarrow> Q False fs" "pre' fs \<Longrightarrow> Q True (g' fs)"
  shows "wp F (sys_call pre g) Q E fs"
proof -
  have "wp F (\<lambda>w. if works f \<and> pre w then (Returned True, g w) else (Returned False, w)) Q E fs"
    if "f \<in> insert Done F" "f \<noteq> Killed" for f
  proof (cases "works f")
    case True
    then show ?thesis using assms by (auto simp: wp_def)
  next
    case False
    then have "may_fail F" using that by (cases f) (auto simp: works_def may_fail_def)
    then show ?thesis using False assms(5) by (simp add: wp_def)
  qed
  then show ?thesis
    unfolding sys_call_def using assms(4) by (intro wp_io_bind wp_take_fate) auto
qed

lemma file_at_upd: "file_at (put_file p bs w) = (file_at w)(p \<mapsto> bs)" "file_at (drop_file p w) = (file_at w)(p := None)"
  by (auto simp: fun_eq_iff)

lemma wp_exists [wp_intro]: "Q (fs p \<noteq> None) fs \<Longrightarrow> wp F (sys_exists p) Q E fs"
  by (simp add: wp_def sys_exists_def get_world_def)

lemma wp_open_read [wp_intro]:
  assumes "Killed \<in> F \<Longrightarrow> E fs" "may_fail F \<or> fs p = None \<Longrightarrow> Q False fs" "fs p \<noteq> None \<Longrightarrow> Q True fs"
  shows "wp F (sys_open_read p) Q E fs"
  unfolding sys_open_read_def using assms by (intro wp_sys_call [where pre' = "\<lambda>fs. fs p \<noteq> None" and g' = id]) auto

lemma wp_open_truncate [wp_intro]:
  assumes "Killed \<in> F \<Longrightarrow> E fs" "may_fail F \<Longrightarrow> Q False fs" "Q True (fs(p \<mapsto> []))"
  shows "wp F (sys_open_truncate p) Q E fs"
  unfolding sys_open_truncate_def using assms
  by (intro wp_sys_call [where pre' = "\<lambda>fs. True" and g' = "\<lambda>fs. fs(p \<mapsto> [])"]) (auto simp: file_at_upd)

lemma wp_open_append [wp_intro]:
  assumes "Killed \<in> F \<Longrightarrow> E fs" "may_fail F \<Longrightarrow> Q False fs" "Q True (if fs p = None then fs(p \<mapsto> []) else fs)"
  shows "wp F (sys_open_append p) Q E fs"
  unfolding sys_open_append_def using assms
  by (intro wp_sys_call [where pre' = "\<lambda>fs. True" and g' = "\<lambda>fs. if fs p = None then fs(p \<mapsto> []) else fs"]) (auto simp: file_at_upd)

lemma wp_fsync [wp_intro]:
  assumes "Killed \<in> F \<Longrightarrow> E fs" "may_fail F \<Longrightarrow> Q False fs" "Q True fs"
  shows "wp F sys_fsync Q E fs"
  unfolding sys_fsync_def using assms by (intro wp_sys_call [where pre' = "\<lambda>fs. True" and g' = id]) auto

lemma wp_rename [wp_intro]:
  assumes "Killed \<in> F \<Longrightarrow> E fs" "may_fail F \<or> fs p = None \<Longrightarrow> Q False fs"
    and "\<And>bs. fs p = Some bs \<Longrightarrow> Q True ((if p = q then fs else fs(p := None))(q \<mapsto> bs))"
  shows "wp F (sys_rename p q) Q E fs"
  unfolding sys_rename_def using assms
  by (intro wp_sys_call [where pre' = "\<lambda>fs. fs p \<noteq> None"
        and g' = "\<lambda>fs. (if p = q then fs else fs(p := None))(q := fs p)"])
    (auto simp: file_at_upd fun_upd_idem split: option.splits)

lemma wp_unlink [wp_intro]:
  assumes "Killed \<in> F \<Longrightarrow> E fs" "may_fail F \<or> fs p = None \<Longrightarrow> Q False fs" "fs p \<noteq> None \<Longrightarrow> Q True (fs(p := None))"
  shows "wp F (sys_unlink p) Q E fs"
  unfolding sys_unlink_def using assms
  by (intro wp_sys_call [where pre' = "\<lambda>fs. fs p \<noteq> None" and g' = "\<lambda>fs. fs(p := None)"]) (auto simp: file_at_upd)

lemma wp_stat [wp_intro]:
  assumes "Killed \<in> F \<Longrightarrow> E fs" "may_fail F \<Longrightarrow> Q None fs" "Q (map_option length (fs p)) fs"
  shows "wp F (sys_stat p) Q E fs"
proof -
  have "wp F (\<lambda>w. (Returned (if works f then map_option length (file_at w p) else None), w)) Q E fs"
    if "f \<in> insert Done F" "f \<noteq> Killed" for f
    using that assms by (cases f) (auto simp: wp_def works_def may_fail_def)
  then show ?thesis
    unfolding sys_stat_def using assms(1) by (intro wp_io_bind wp_take_fate) simp_all
qed

section \<open>Transfers\<close>

lemma wp_write:
  assumes "fs p = Some c" "bs \<noteq> []" "Killed \<in> F \<Longrightarrow> E fs" "may_fail F \<Longrightarrow> Q Failed fs \<and> Q Again fs"
    and "\<And>n. 0 < n \<Longrightarrow> n \<le> length bs \<Longrightarrow> Q (Moved n) (fs(p \<mapsto> c @ take n bs))"
  shows "wp F (sys_write p bs) Q E fs"
  unfolding sys_write_def
proof (intro wp_io_bind wp_take_fate, goal_cases)
  case (2 f)
  then have "f = Done \<or> (\<exists>k. f = Short k) \<or> may_fail F \<and> (f = Fails \<or> f = Interrupted)"
    by (cases f) (auto simp: may_fail_def)
  then show ?case
    using assms assms(5) [of "length bs"] assms(5) [of "min (Suc k) (length bs)" for k]
    by (fastforce simp: wp_def Let_def file_at_upd min_def)
qed (use assms in auto)

lemma wp_write_quiet:
  assumes "fs p = Some c" "Q (Moved (length bs)) (fs(p \<mapsto> c @ bs))"
  shows "wp {} (sys_write p bs) Q E fs"
  using assms by (auto simp: wp_def quiet_def [symmetric] file_at_upd)

lemma wp_read:
  assumes "fs p = Some c" "Killed \<in> F \<Longrightarrow> E fs" "may_fail F \<Longrightarrow> Q Failed fs \<and> Q Again fs"
    and "\<And>k. (0 < n \<and> off < length c \<Longrightarrow> 0 < k) \<Longrightarrow> k \<le> n \<Longrightarrow> off + k \<le> length c \<or> k = 0 \<Longrightarrow> Q (Moved (take k (drop off c))) fs"
  shows "wp F (sys_read p off n) Q E fs"
  unfolding sys_read_def
proof (intro wp_io_bind wp_take_fate, goal_cases)
  case (2 f)
  have d: "take n (drop off c) = take (min n (length c - off)) (drop off c)"
    "take (Suc k) (take n (drop off c)) = take (min (Suc k) (min n (length c - off))) (drop off c)" for k
    by (simp_all add: min_def)
  have m: "off + j \<le> length c \<or> j = 0" if "j \<le> length c - off" for j using that by arith
  consider "f = Done" | k where "f = Short k" | "may_fail F" "f = Fails \<or> f = Interrupted"
    using 2 by (cases f) (auto simp: may_fail_def)
  then show ?case
  proof cases
    case 1
    then show ?thesis
      using assms(1) assms(4) [of "min n (length c - off)"] d(1) m [of "min n (length c - off)"] by (auto simp: wp_def Let_def)
  next
    case (2 k)
    then show ?thesis
      using assms(1) assms(4) [of "min (Suc k) (min n (length c - off))"] d(2) [of k]
        m [of "min (Suc k) (min n (length c - off))"] by (auto simp: wp_def Let_def)
  next
    case 3
    then show ?thesis using assms(1,3) by (auto simp: wp_def Let_def)
  qed
qed (use assms in auto)

lemma wp_eq: "(\<And>w. c w = d w) \<Longrightarrow> wp F d Q E fs \<Longrightarrow> wp F c Q E fs"
  by (simp add: wp_def)

lemma wp_write_loop:
  assumes "fs p = Some c" "\<And>n. n \<le> length bs \<Longrightarrow> Killed \<in> F \<Longrightarrow> E (fs(p \<mapsto> c @ take n bs))"
    and "\<And>n. n \<le> length bs \<Longrightarrow> may_fail F \<Longrightarrow> Q False (fs(p \<mapsto> c @ take n bs))" "Q True (fs(p \<mapsto> c @ bs))"
  shows "wp F (write_loop retry p bs) Q E fs"
  unfolding wp_def
proof (intro allI impI)
  fix w assume "file_at w = fs" "set (fates w) \<subseteq> F"
  then show "case write_loop retry p bs w of (Returned a, w') \<Rightarrow> set (fates w') \<subseteq> F \<and> Q a (file_at w')
    | (Stopped, w') \<Rightarrow> E (file_at w')"
    using assms
  proof (induction retry p bs w arbitrary: c fs rule: write_loop.induct)
    case (1 retry p bs w)
    show ?case
    proof (cases "bs = []")
      case True
      then show ?thesis using 1 by (simp add: write_loop.simps fun_upd_idem)
    next
      case False
      let ?Q = "\<lambda>t g. case t of Failed \<Rightarrow> may_fail F \<and> g = fs | Again \<Rightarrow> may_fail F \<and> g = fs
        | Moved n \<Rightarrow> 0 < n \<and> n \<le> length bs \<and> g = fs(p \<mapsto> c @ take n bs)"
      have k: "wp F (sys_write p bs) ?Q (\<lambda>g. Killed \<in> F \<and> g = fs) fs"
        using False 1(5) by (intro wp_write) auto
      obtain r w' where r: "sys_write p bs w = (r, w')" by fastforce
      note k' = wp_run [OF k 1(3,4) r]
      show ?thesis
      proof (cases r)
        case Stopped
        then show ?thesis using k' 1(5) 1(6) [of 0] False r by (subst write_loop.simps) (auto simp: fun_upd_idem)
      next
        case (Returned t)
        note k'' = k' [unfolded Returned run.case]
        show ?thesis
        proof (cases t)
          case (Moved n)
          have n: "0 < n" "n \<le> length bs" "file_at w' = fs(p \<mapsto> c @ take n bs)" using k'' Moved by auto
          have "case write_loop retry p (drop n bs) w' of (Returned a, w') \<Rightarrow> set (fates w') \<subseteq> F \<and> Q a (file_at w')
              | (Stopped, w') \<Rightarrow> E (file_at w')"
          proof (rule 1(1) [OF False r [symmetric] Returned Moved n(3)])
            show "E ((fs(p \<mapsto> c @ take n bs))(p \<mapsto> (c @ take n bs) @ take j (drop n bs)))"
              if "j \<le> length (drop n bs)" "Killed \<in> F" for j
              unfolding append_assoc fun_upd_upd take_add [symmetric] by (rule 1(6)) (use that n in simp_all)
            show "Q False ((fs(p \<mapsto> c @ take n bs))(p \<mapsto> (c @ take n bs) @ take j (drop n bs)))"
              if "j \<le> length (drop n bs)" "may_fail F" for j
              unfolding append_assoc fun_upd_upd take_add [symmetric] by (rule 1(7)) (use that n in simp_all)
            show "Q True ((fs(p \<mapsto> c @ take n bs))(p \<mapsto> (c @ take n bs) @ drop n bs))"
              unfolding fun_upd_upd append_assoc append_take_drop_id by (rule 1(8))
          qed (use k'' in \<open>simp_all\<close>)
          then show ?thesis using False r Returned Moved by (subst write_loop.simps) simp
        next
          case Failed
          then show ?thesis using k'' 1(5) 1(7) [of 0] False r Returned by (subst write_loop.simps) (auto simp: fun_upd_idem)
        next
          case Again
          then show ?thesis
            using k'' 1(2) [OF False r [symmetric] Returned Again, of fs c] 1(5-8) 1(7) [of 0] False r Returned
            by (subst write_loop.simps) (auto simp: fun_upd_idem)
        qed
      qed
    qed
  qed
qed

end
