(* ===== verification/Manifest.thy ===== *)
theory Manifest
  imports Crash_Logic Crc32c
begin

text \<open>
  The manifest of the catalog (\<^verbatim>\<open>Manifest\<close> in \<^verbatim>\<open>storage/catalog.hpp\<close> and \<^verbatim>\<open>storage/catalog.cpp\<close>): the list of
  segments with their metadata, its binary form with a checksum, and saving and loading it. Whether the
  allocation of the segment vector succeeds is a parameter.
\<close>

section \<open>Segments\<close>

record SegmentMeta =
  sm_segment_id :: u64
  sm_filename :: string
  sm_min_seq :: u64
  sm_max_seq :: u64
  sm_min_exchange_ts :: u64
  sm_max_exchange_ts :: u64
  sm_row_count :: u64
  sm_file_size_bytes :: u64
  sm_schema_hash :: u32
  sm_data_crc :: u32
  sm_is_compacted :: bool
  sm_active :: bool

definition SegmentMeta_init :: SegmentMeta where
  "SegmentMeta_init = \<lparr>sm_segment_id = 0, sm_filename = [], sm_min_seq = 0, sm_max_seq = 0, sm_min_exchange_ts = 0,
     sm_max_exchange_ts = 0, sm_row_count = 0, sm_file_size_bytes = 0, sm_schema_hash = 0, sm_data_crc = 0,
     sm_is_compacted = False, sm_active = True\<rparr>"

record Manifest =
  mn_version :: u32
  mn_next_segment_id :: u64
  mn_next_tx_id :: u64
  mn_segments :: "SegmentMeta list"

definition Manifest_Magic :: u32 where "Manifest_Magic = 0x314D5456"

definition Manifest_init :: Manifest where
  "Manifest_init = \<lparr>mn_version = 1, mn_next_segment_id = 1, mn_next_tx_id = 1, mn_segments = []\<rparr>"

fun put_segment :: "SegmentMeta \<Rightarrow> SegmentMeta list \<Rightarrow> SegmentMeta list" where
  "put_segment meta [] = [meta]"
| "put_segment meta (s # ss) = (if sm_segment_id s = sm_segment_id meta then meta # ss else s # put_segment meta ss)"

definition add_segment :: "SegmentMeta \<Rightarrow> Manifest \<Rightarrow> Manifest" where
  "add_segment meta m = m\<lparr>mn_segments := put_segment meta (mn_segments m)\<rparr>"

fun deactivate :: "u64 \<Rightarrow> SegmentMeta list \<Rightarrow> bool \<times> SegmentMeta list" where
  "deactivate i [] = (False, [])"
| "deactivate i (s # ss) =
     (if sm_segment_id s = i then (True, s\<lparr>sm_active := False\<rparr> # ss)
      else (let (found, ss) = deactivate i ss in (found, s # ss)))"

definition remove_segment :: "u64 \<Rightarrow> Manifest \<Rightarrow> bool \<times> Manifest" where
  "remove_segment i m = (let (found, ss) = deactivate i (mn_segments m) in (found, m\<lparr>mn_segments := ss\<rparr>))"

definition find_segment :: "u64 \<Rightarrow> Manifest \<Rightarrow> SegmentMeta option" where
  "find_segment i m = find (\<lambda>s. sm_segment_id s = i \<and> sm_active s) (mn_segments m)"

section \<open>Binary form\<close>

text \<open>A \<^verbatim>\<open>std::string\<close> is a sequence of bytes.\<close>

definition string_bytes :: "string \<Rightarrow> bytes" where
  "string_bytes s = map (\<lambda>c. of_nat (of_char c)) s"

definition bytes_string :: "bytes \<Rightarrow> string" where
  "bytes_string bs = map (\<lambda>b. char_of (unat b)) bs"

definition flag_byte :: "bool \<Rightarrow> bytes" where
  "flag_byte b = [if b then 1 else 0]"

definition meta_bytes :: "SegmentMeta \<Rightarrow> bytes" where
  "meta_bytes s =
     le_bytes 8 (sm_segment_id s) @ le_bytes 4 (of_nat (length (sm_filename s)) :: u32) @ string_bytes (sm_filename s) @
     le_bytes 8 (sm_min_seq s) @ le_bytes 8 (sm_max_seq s) @ le_bytes 8 (sm_min_exchange_ts s) @
     le_bytes 8 (sm_max_exchange_ts s) @ le_bytes 8 (sm_row_count s) @ le_bytes 8 (sm_file_size_bytes s) @
     le_bytes 4 (sm_schema_hash s) @ le_bytes 4 (sm_data_crc s) @ flag_byte (sm_is_compacted s) @ flag_byte (sm_active s)"

definition manifest_body :: "Manifest \<Rightarrow> bytes" where
  "manifest_body m =
     le_bytes 4 Manifest_Magic @ le_bytes 4 (mn_version m) @ le_bytes 8 (mn_next_segment_id m) @ le_bytes 8 (mn_next_tx_id m) @
     le_bytes 8 (of_nat (length (mn_segments m)) :: u64) @ concat (map meta_bytes (mn_segments m))"

definition serialize :: "Manifest \<Rightarrow> bytes" where
  "serialize m = (let out = manifest_body m in out @ le_bytes 4 (crc32c out))"

text \<open>The readers of the lambdas \<^verbatim>\<open>read_u32\<close> and \<^verbatim>\<open>read_u64\<close>.\<close>

definition get32 :: "nat \<Rightarrow> bytes \<Rightarrow> u32 outcome" where
  "get32 off data = obind (load off 4 data) (\<lambda>b. Ok (le_word b))"

definition get64 :: "nat \<Rightarrow> bytes \<Rightarrow> u64 outcome" where
  "get64 off data = obind (load off 8 data) (\<lambda>b. Ok (le_word b))"

definition get_flag :: "nat \<Rightarrow> bytes \<Rightarrow> bool outcome" where
  "get_flag off data = obind (load off 1 data) (\<lambda>b. Ok (b \<noteq> [0]))"

text \<open>The fields behind the length of the file name, which the manifest and the journal read alike.\<close>

definition read_meta :: "bytes \<Rightarrow> u64 \<Rightarrow> nat \<Rightarrow> nat \<Rightarrow> SegmentMeta outcome" where
  "read_meta data sid name_len off =
     obind (load off name_len data) (\<lambda>name. let off = off + name_len in
     obind (get64 off data) (\<lambda>min_seq. obind (get64 (off + 8) data) (\<lambda>max_seq.
     obind (get64 (off + 16) data) (\<lambda>min_ts. obind (get64 (off + 24) data) (\<lambda>max_ts.
     obind (get64 (off + 32) data) (\<lambda>rows. obind (get64 (off + 40) data) (\<lambda>fsize.
     obind (get32 (off + 48) data) (\<lambda>schema. obind (get32 (off + 52) data) (\<lambda>crc.
     obind (get_flag (off + 56) data) (\<lambda>compacted. obind (get_flag (off + 57) data) (\<lambda>active.
     Ok \<lparr>sm_segment_id = sid, sm_filename = bytes_string name, sm_min_seq = min_seq, sm_max_seq = max_seq,
         sm_min_exchange_ts = min_ts, sm_max_exchange_ts = max_ts, sm_row_count = rows, sm_file_size_bytes = fsize,
         sm_schema_hash = schema, sm_data_crc = crc, sm_is_compacted = compacted, sm_active = active\<rparr>)))))))))))"

fun read_segments :: "nat \<Rightarrow> bytes \<Rightarrow> nat \<Rightarrow> nat \<Rightarrow> SegmentMeta list \<Rightarrow> unit outcome \<times> SegmentMeta list" where
  "read_segments 0 data end_payload off acc = (Ok (), acc)"
| "read_segments (Suc n) data end_payload off acc =
     (if end_payload < off + 12 then (Err ManifestInvalid, acc)
      else case get64 off data of
        Ok sid \<Rightarrow>
          (case get32 (off + 8) data of
             Ok name_len \<Rightarrow>
               if end_payload < off + 12 + unat name_len + 58 then (Err ManifestInvalid, acc)
               else (case read_meta data sid (unat name_len) (off + 12) of
                       Ok s \<Rightarrow> read_segments n data end_payload (off + 12 + unat name_len + 58) (acc @ [s])
                     | Err c \<Rightarrow> (Err c, acc) | Fault \<Rightarrow> (Fault, acc))
           | Err c \<Rightarrow> (Err c, acc) | Fault \<Rightarrow> (Fault, acc))
      | Err c \<Rightarrow> (Err c, acc) | Fault \<Rightarrow> (Fault, acc))"

text \<open>
  The header is read into the object before the segments, so a failure behind the magic number leaves a
  partly updated manifest.
\<close>

definition deserialize :: "(nat \<Rightarrow> bool) \<Rightarrow> bytes \<Rightarrow> Manifest \<Rightarrow> unit outcome \<times> Manifest" where
  "deserialize can_reserve data m =
     (let n = length data in
      if n < 36 then (Err ManifestInvalid, m)
      else if le_word (get_bytes (n - 4) 4 data) \<noteq> crc32c (take (n - 4) data) then (Err ManifestCorrupted, m)
      else if le_word (get_bytes 0 4 data) \<noteq> Manifest_Magic then (Err ManifestInvalid, m)
      else
        (let count = unat (le_word (get_bytes 24 8 data) :: u64);
             m = m\<lparr>mn_version := le_word (get_bytes 4 4 data), mn_next_segment_id := le_word (get_bytes 8 8 data),
                   mn_next_tx_id := le_word (get_bytes 16 8 data), mn_segments := []\<rparr> in
         if \<not> can_reserve count then (Fault, m)
         else (let (r, ss) = read_segments count data (n - 4) 32 [] in (r, m\<lparr>mn_segments := ss\<rparr>))))"

section \<open>Saving and loading\<close>

text \<open>The write loop gives up on any error, an interruption included, and removes the temporary file.\<close>

definition give_up :: "string \<Rightarrow> status_code \<Rightarrow> unit outcome io" where
  "give_up tmp c = io_bind (sys_unlink tmp) (\<lambda>_. io_return (Err c))"

definition save_atomic :: "string \<Rightarrow> Manifest \<Rightarrow> unit outcome io" where
  "save_atomic path m =
     (let buffer = serialize m; tmp = path @ ''.tmp'' in
      io_bind (sys_open_truncate tmp) (\<lambda>ok.
      if \<not> ok then io_return (Err FileOpenFailed)
      else io_bind (write_loop False tmp buffer) (\<lambda>ok.
      if \<not> ok then give_up tmp FileWriteFailed
      else io_bind sys_fsync (\<lambda>ok.
      if \<not> ok then give_up tmp FileSyncFailed
      else io_bind (sys_rename tmp path) (\<lambda>ok.
      if \<not> ok then give_up tmp FileRenameFailed else io_return (Ok ()))))))"

text \<open>The read loop; \<open>n\<close> is the size the file had when it was opened.\<close>

function read_loop :: "string \<Rightarrow> nat \<Rightarrow> bytes \<Rightarrow> World \<Rightarrow> (bool \<times> bytes) run \<times> World" where
  "read_loop p n acc w =
     (if n \<le> length acc then (Returned (True, acc), w)
      else case sys_read p (length acc) (n - length acc) w of
          (Stopped, w') \<Rightarrow> (Stopped, w')
        | (Returned (Moved bs), w') \<Rightarrow> if bs = [] then (Returned (False, acc), w') else read_loop p n (acc @ bs) w'
        | (Returned _, w') \<Rightarrow> (Returned (False, acc), w'))"
  by pat_completeness auto
termination
  by (relation "measure (\<lambda>(p, n, acc, w). n - length acc)") (auto intro!: diff_less_mono2)

declare read_loop.simps [simp del]

definition Manifest_load :: "(nat \<Rightarrow> bool) \<Rightarrow> string \<Rightarrow> Manifest \<Rightarrow> (unit outcome \<times> Manifest) io" where
  "Manifest_load can_reserve path m =
     io_bind (sys_open_read path) (\<lambda>ok.
     if \<not> ok then io_return (Err FileNotFound, m)
     else io_bind (sys_stat path) (\<lambda>st.
     case st of None \<Rightarrow> io_return (Err ManifestInvalid, m)
     | Some n \<Rightarrow>
         if n = 0 then io_return (Err ManifestInvalid, m)
         else io_bind (read_loop path n []) (\<lambda>(ok, buffer).
           if \<not> ok then io_return (Err FileReadFailed, m) else io_return (deserialize can_reserve buffer m))))"

section \<open>Reading back\<close>

text \<open>\<open>holds data off xs\<close>: the data has the bytes \<open>xs\<close> at \<open>off\<close>.\<close>

definition holds :: "bytes \<Rightarrow> nat \<Rightarrow> bytes \<Rightarrow> bool" where
  "holds data off xs \<longleftrightarrow> off + length xs \<le> length data \<and> get_bytes off (length xs) data = xs"

lemma holds_append: "holds data off (xs @ ys) \<longleftrightarrow> holds data off xs \<and> holds data (off + length xs) ys"
proof -
  have "take (length xs + length ys) (drop off data) = take (length xs) (drop off data) @ take (length ys) (drop (off + length xs) data)"
    by (simp add: take_add add.commute)
  then show ?thesis
    by (auto simp: holds_def get_bytes_def)
qed

lemma holds_whole: "holds (pre @ xs @ post) (length pre) xs"
  by (simp add: holds_def get_bytes_def)

lemma get_holds [simp]:
  "holds data off (le_bytes 8 v) \<Longrightarrow> get64 off data = Ok v"
  "holds data off (le_bytes 4 u) \<Longrightarrow> get32 off data = Ok u"
  "holds data off (flag_byte b) \<Longrightarrow> get_flag off data = Ok b"
  by (auto simp: holds_def get64_def get32_def get_flag_def flag_byte_def load_in_range split: if_splits)

lemma load_holds: "holds data off xs \<Longrightarrow> n = length xs \<Longrightarrow> load off n data = Ok xs"
  by (simp add: holds_def)

lemma length_string_bytes [simp]: "length (string_bytes s) = length s"
  by (simp add: string_bytes_def)

lemma bytes_string_inverse [simp]: "bytes_string (string_bytes s) = s"
proof -
  have "char_of (unat (of_nat (of_char c) :: u8)) = c" for c :: char
    by (simp add: unat_of_nat of_char_mod_256)
  then show ?thesis by (simp add: bytes_string_def string_bytes_def map_idI)
qed

lemma length_flag_byte [simp]: "length (flag_byte b) = 1"
  by (simp add: flag_byte_def)

lemma length_meta_bytes: "length (meta_bytes s) = 70 + length (sm_filename s)"
  by (simp add: meta_bytes_def flag_byte_def)

text \<open>The fields of a segment.\<close>

lemma read_meta_bytes:
  assumes "holds data off (meta_bytes s)"
  shows "get64 off data = Ok (sm_segment_id s)" "get32 (off + 8) data = Ok (of_nat (length (sm_filename s)))"
    and "read_meta data (sm_segment_id s) (length (sm_filename s)) (off + 12) = Ok s"
proof -
  let ?n = "length (sm_filename s)"
  let ?o = "off + 12 + ?n"
  have h: "holds data off (le_bytes 8 (sm_segment_id s))" "holds data (off + 8) (le_bytes 4 (of_nat ?n :: u32))"
    "holds data (off + 12) (string_bytes (sm_filename s))"
    "holds data ?o (le_bytes 8 (sm_min_seq s))" "holds data (?o + 8) (le_bytes 8 (sm_max_seq s))"
    "holds data (?o + 16) (le_bytes 8 (sm_min_exchange_ts s))" "holds data (?o + 24) (le_bytes 8 (sm_max_exchange_ts s))"
    "holds data (?o + 32) (le_bytes 8 (sm_row_count s))" "holds data (?o + 40) (le_bytes 8 (sm_file_size_bytes s))"
    "holds data (?o + 48) (le_bytes 4 (sm_schema_hash s))" "holds data (?o + 52) (le_bytes 4 (sm_data_crc s))"
    "holds data (?o + 56) (flag_byte (sm_is_compacted s))" "holds data (?o + 57) (flag_byte (sm_active s))"
    using assms unfolding meta_bytes_def holds_append by (simp_all add: ac_simps)
  show "get64 off data = Ok (sm_segment_id s)" "get32 (off + 8) data = Ok (of_nat ?n)" using h by simp_all
  show "read_meta data (sm_segment_id s) ?n (off + 12) = Ok s"
    using h by (simp add: read_meta_def Let_def load_holds [OF h(3)] del: load_eq_Ok)
qed

lemma read_segments_bytes:
  assumes "holds data off (concat (map meta_bytes ss))" "end_payload = off + length (concat (map meta_bytes ss))"
    and "\<forall>s\<in>set ss. length (sm_filename s) < 2 ^ 32"
  shows "read_segments (length ss) data end_payload off acc = (Ok (), acc @ ss)"
  using assms
proof (induction ss arbitrary: off acc)
  case (Cons s ss)
  let ?n = "length (sm_filename s)"
  have h: "holds data off (meta_bytes s)" "holds data (off + (70 + ?n)) (concat (map meta_bytes ss))"
    using Cons.prems(1) by (simp_all add: holds_append length_meta_bytes)
  have n: "unat (of_nat ?n :: u32) = ?n" using Cons.prems(3) by (simp add: unat_of_nat)
  have e: "end_payload = off + (70 + ?n) + length (concat (map meta_bytes ss))"
    using Cons.prems(2) by (simp add: length_meta_bytes)
  show ?case
    using read_meta_bytes [OF h(1)] Cons.IH [OF h(2) e] Cons.prems(3) e by (simp add: n ac_simps)
qed simp

lemma length_serialize: "length (serialize m) = length (manifest_body m) + 4" "32 \<le> length (manifest_body m)"
  by (simp_all add: serialize_def manifest_body_def Let_def)

lemma holds_body: "holds (serialize m) 0 (manifest_body m)"
  using holds_whole [of "[]" "manifest_body m" "le_bytes 4 (crc32c (manifest_body m))"] by (simp add: serialize_def Let_def)

lemma deserialize_serialize:
  assumes "\<forall>s\<in>set (mn_segments m). length (sm_filename s) < 2 ^ 32" "length (mn_segments m) < 2 ^ 64"
    and "can_reserve (length (mn_segments m))"
  shows "deserialize can_reserve (serialize m) m0 = (Ok (), m)"
proof -
  let ?d = "serialize m"
  let ?c = "concat (map meta_bytes (mn_segments m))"
  have h: "holds ?d 0 (le_bytes 4 Manifest_Magic)" "holds ?d 4 (le_bytes 4 (mn_version m))"
    "holds ?d 8 (le_bytes 8 (mn_next_segment_id m))" "holds ?d 16 (le_bytes 8 (mn_next_tx_id m))"
    "holds ?d 24 (le_bytes 8 (of_nat (length (mn_segments m)) :: u64))" "holds ?d 32 ?c"
    using holds_body [of m] unfolding manifest_body_def holds_append by simp_all
  have f: "get_bytes 0 4 ?d = le_bytes 4 Manifest_Magic" "get_bytes 4 4 ?d = le_bytes 4 (mn_version m)"
    "get_bytes 8 8 ?d = le_bytes 8 (mn_next_segment_id m)" "get_bytes 16 8 ?d = le_bytes 8 (mn_next_tx_id m)"
    "get_bytes 24 8 ?d = le_bytes 8 (of_nat (length (mn_segments m)) :: u64)"
    using h(1-5) by (simp_all add: holds_def)
  have e: "length ?d - 4 = 32 + length ?c"
    by (simp add: serialize_def manifest_body_def Let_def)
  have crc: "le_word (get_bytes (length ?d - 4) 4 ?d) = crc32c (take (length ?d - 4) ?d)"
    by (simp add: serialize_def Let_def get_bytes_def)
  have n: "unat (of_nat (length (mn_segments m)) :: u64) = length (mn_segments m)"
    using assms(2) by (simp add: unat_of_nat)
  show ?thesis
    using read_segments_bytes [OF h(6) e assms(1), of "[]"] length_serialize [of m] assms(3) crc
    by (simp add: deserialize_def Let_def f n)
qed

text \<open>
  A checksum behind its data is right exactly when the checksum of both together is a constant, so a change of
  up to four neighbouring bytes is noticed in the stored checksum too.
\<close>

lemma xor_move: "(a :: 'a::len word) XOR b = c \<longleftrightarrow> b = a XOR c"
  by (auto simp: xor.assoc [symmetric])

lemma crc_residue:
  assumes "length t = 4"
  shows "le_word t = crc32c b \<longleftrightarrow> crc32c (b @ t) = (crc_bit ^^ 32) 0xFFFFFFFF XOR 0xFFFFFFFF"
proof -
  let ?u = "crc_ref 0xFFFFFFFF b"
  have "crc32c (b @ t) = (crc_bit ^^ 32) (?u XOR le_word t) XOR 0xFFFFFFFF"
    using assms by (simp add: crc32c_def crc32c_from_eq crc_ref_le_word)
  then have "crc32c (b @ t) = (crc_bit ^^ 32) 0xFFFFFFFF XOR 0xFFFFFFFF
      \<longleftrightarrow> (crc_bit ^^ 32) (?u XOR le_word t) = (crc_bit ^^ 32) 0xFFFFFFFF"
    by (simp only: xor_cancel_right)
  also have "\<dots> \<longleftrightarrow> ?u XOR le_word t = 0xFFFFFFFF"
    by (auto dest: crc_bits_inject)
  also have "\<dots> \<longleftrightarrow> le_word t = crc32c b"
    unfolding xor_move by (simp add: crc32c_def crc32c_from_eq)
  finally show ?thesis by simp
qed

lemma crc_trailer_burst:
  assumes "b @ t = pre @ xs @ post" "b' @ t' = pre @ ys @ post" "length t = 4" "length t' = 4"
    and "length ys = length xs" "length xs \<le> 4" "ys \<noteq> xs" "le_word t = crc32c b"
  shows "le_word t' \<noteq> crc32c b'"
  using assms crc.detects_burst [of xs ys 0 pre post] by (simp add: crc_residue flip: crc32c_def)

lemma split_trailer:
  assumes "4 \<le> length d"
  shows "take (length d - 4) d @ get_bytes (length d - 4) 4 d = d" "length (get_bytes (length d - 4) 4 d) = 4"
  using assms by (simp_all add: get_bytes_def)

lemma deserialize_corrupted:
  assumes "serialize m = pre @ xs @ post" "length ys = length xs" "length xs \<le> 4" "ys \<noteq> xs"
  shows "deserialize can_reserve (pre @ ys @ post) m0 = (Err ManifestCorrupted, m0)"
proof -
  define d where "d = pre @ ys @ post"
  have n: "length d = length (manifest_body m) + 4"
    using assms(1,2) length_serialize(1) [of m] by (metis d_def length_append)
  then have "4 \<le> length d" by simp
  note d = split_trailer [OF this, unfolded d_def [symmetric]]
  have d': "take (length d - 4) d @ get_bytes (length d - 4) 4 d = pre @ ys @ post"
    using d(1) unfolding d_def .
  have s: "manifest_body m @ le_bytes 4 (crc32c (manifest_body m)) = pre @ xs @ post"
    using assms(1) by (simp add: serialize_def Let_def)
  have "le_word (get_bytes (length d - 4) 4 d) \<noteq> crc32c (take (length d - 4) d)"
    by (rule crc_trailer_burst [OF s d' _ d(2) assms(2-4)]) simp_all
  then show ?thesis
    using n length_serialize(2) [of m] unfolding deserialize_def Let_def by (simp flip: d_def)
qed

section \<open>Interrupted saves\<close>

lemma wp_read_loop:
  assumes "fs p = Some c" "k \<le> length c" "Killed \<in> F \<Longrightarrow> E fs" "\<And>bs. may_fail F \<Longrightarrow> Q (False, bs) fs" "Q (True, c) fs"
  shows "wp F (read_loop p (length c) (take k c)) Q E fs"
  unfolding wp_def
proof (intro allI impI)
  fix w assume "file_at w = fs" "set (fates w) \<subseteq> F"
  then show "case read_loop p (length c) (take k c) w of (Returned a, w') \<Rightarrow> set (fates w') \<subseteq> F \<and> Q a (file_at w')
    | (Stopped, w') \<Rightarrow> E (file_at w')"
    using assms(2)
  proof (induction "length c - k" arbitrary: k w rule: less_induct)
    case less
    show ?case
    proof (cases "k = length c")
      case True
      then show ?thesis using less.prems assms(5) by (subst read_loop.simps) simp
    next
      case False
      let ?Q = "\<lambda>t g. g = fs \<and> (case t of Moved bs \<Rightarrow> \<exists>j>0. k + j \<le> length c \<and> bs = take j (drop k c) | _ \<Rightarrow> may_fail F)"
      have q: "wp F (sys_read p k (length c - k)) ?Q (\<lambda>g. Killed \<in> F \<and> g = fs) fs"
        using False less.prems(3) assms(1) by (intro wp_read) auto
      obtain r w' where r: "sys_read p k (length c - k) w = (r, w')" by fastforce
      have k: "case r of Returned t \<Rightarrow> set (fates w') \<subseteq> F \<and> ?Q t (file_at w') | Stopped \<Rightarrow> Killed \<in> F \<and> file_at w' = fs"
        by (rule wp_run [OF q less.prems(1,2) r])
      have l: "min (length c) k = k" "\<not> length c \<le> k" using less.prems(3) False by simp_all
      show ?thesis
      proof (cases "\<exists>bs. r = Returned (Moved bs)")
        case True
        then obtain bs where bs: "r = Returned (Moved bs)" by blast
        then obtain j where j: "0 < j" "k + j \<le> length c" "bs = take j (drop k c)" "file_at w' = fs" "set (fates w') \<subseteq> F"
          using k by auto
        moreover have "take k c @ take j (drop k c) = take (k + j) c" by (simp add: take_add)
        moreover have "bs \<noteq> []" using j(1-3) by auto
        ultimately show ?thesis
          using less.hyps [of "k + j" w'] r bs l by (subst read_loop.simps) simp
      next
        case False
        then show ?thesis
          using k r l assms(3,4) by (subst read_loop.simps) (auto split: run.splits transfer.splits)
      qed
    qed
  qed
qed

lemma wp_save_atomic:
  assumes "\<And>t. Killed \<in> F \<Longrightarrow> E (fs(path @ ''.tmp'' := t))" "\<And>c t. may_fail F \<Longrightarrow> Q (Err c) (fs(path @ ''.tmp'' := t))"
    and "Q (Ok ()) (fs(path @ ''.tmp'' := None, path \<mapsto> serialize m))"
  shows "wp F (save_atomic path m) Q E fs"
proof -
  let ?tmp = "path @ ''.tmp''"
  have e: "Killed \<in> F \<Longrightarrow> E fs" "may_fail F \<Longrightarrow> Q (Err c) fs" for c
    using assms(1) [of "fs ?tmp"] assms(2) [of c "fs ?tmp"] by simp_all
  have g: "wp F (give_up ?tmp c) Q E (fs(?tmp := t))" if "may_fail F" for c t
    unfolding give_up_def by (intro wp_intro) (use assms(1,2) that in auto)
  show ?thesis
    unfolding save_atomic_def Let_def
    by (intro wp_intro, use e in simp, use e in \<open>simp add: wp_io_return\<close>, simp, intro wp_intro wp_write_loop)
      (use assms g in \<open>auto intro!: wp_intro\<close>)
qed

definition manifest_fits :: "(nat \<Rightarrow> bool) \<Rightarrow> Manifest \<Rightarrow> bool" where
  "manifest_fits can_reserve m \<longleftrightarrow> (\<forall>s\<in>set (mn_segments m). length (sm_filename s) < 2 ^ 32)
     \<and> length (mn_segments m) < 2 ^ 64 \<and> can_reserve (length (mn_segments m))"

lemma wp_load:
  assumes "fs path = Some (serialize m)" "manifest_fits can_reserve m" "Killed \<in> F \<Longrightarrow> E fs"
    and "\<And>c. may_fail F \<Longrightarrow> Q (Err c, m0) fs" "Q (Ok (), m) fs"
  shows "wp F (Manifest_load can_reserve path m0) Q E fs"
proof -
  have n: "0 < length (serialize m)" by (simp add: length_serialize)
  have d: "deserialize can_reserve (serialize m) m0 = (Ok (), m)"
    using assms(2) by (simp add: manifest_fits_def deserialize_serialize)
  have l: "wp F (read_loop path (length (serialize m)) []) (\<lambda>(ok, buffer). wp F (if \<not> ok then io_return (Err FileReadFailed, m0)
      else io_return (deserialize can_reserve buffer m0)) Q E) E fs"
    using wp_read_loop [where fs = fs and p = path and k = 0 and F = F and E = E, OF assms(1)] assms(3-5) d
    by (simp add: wp_io_return)
  show ?thesis
    unfolding Manifest_load_def using n assms l
    by (auto intro!: wp_intro simp: case_prod_unfold)
qed

section \<open>Properties\<close>

text \<open>
  C17. The manifest reads back: any manifest whose names and number of segments fit their fields is recovered
  from its binary form whatever the object held before, and a change of up to four neighbouring bytes of that form,
  the stored checksum included, is reported as corruption and leaves the object as it was.
\<close>

theorem manifest_roundtrip:
  assumes "manifest_fits can_reserve m"
  shows "deserialize can_reserve (serialize m) m0 = (Ok (), m)
    \<and> (\<forall>pre xs ys post. serialize m = pre @ xs @ post \<and> length ys = length xs \<and> length xs \<le> 4 \<and> ys \<noteq> xs
         \<longrightarrow> deserialize can_reserve (pre @ ys @ post) m0 = (Err ManifestCorrupted, m0))"
  using assms deserialize_serialize [of m can_reserve m0] deserialize_corrupted [of m _ _ _ _ can_reserve m0]
  by (auto simp: manifest_fits_def)

definition sample_meta :: SegmentMeta where
  "sample_meta = SegmentMeta_init\<lparr>sm_segment_id := 1, sm_filename := ''a'', sm_row_count := 7\<rparr>"

definition sample_manifest :: Manifest where
  "sample_manifest = add_segment sample_meta Manifest_init"

lemma sample_manifest_fits: "manifest_fits (\<lambda>n. n < 10) sample_manifest"
  by (simp add: manifest_fits_def sample_manifest_def sample_meta_def add_segment_def Manifest_init_def SegmentMeta_init_def)

theorem manifest_roundtrip_witness:
  "deserialize (\<lambda>n. n < 10) (serialize sample_manifest) Manifest_init = (Ok (), sample_manifest)"
  using manifest_roundtrip [OF sample_manifest_fits] by blast

text \<open>
  C16. Saving is atomic: whatever happens to the system calls, when the save reports success the file holds
  the new manifest, and loading it gives that manifest back; when it reports an error, or the process is
  killed before it returns, the file is as it was. No file but the manifest and its temporary file is touched.
\<close>

theorem manifest_save_atomic:
  assumes "save_atomic path m w = (r, w')" "manifest_fits can_reserve m"
  shows "(\<forall>q. q \<noteq> path \<and> q \<noteq> path @ ''.tmp'' \<longrightarrow> file_at w' q = file_at w q)
    \<and> (case r of
         Returned (Ok _) \<Rightarrow> file_at w' path = Some (serialize m)
           \<and> fst (Manifest_load can_reserve path m0 (w'\<lparr>fates := []\<rparr>)) = Returned (Ok (), m)
       | _ \<Rightarrow> file_at w' path = file_at w path)"
proof -
  let ?tmp = "path @ ''.tmp''"
  let ?E = "\<lambda>fs. \<exists>t. fs = (file_at w)(?tmp := t)"
  let ?Q = "\<lambda>r fs. if r = Ok () then fs = (file_at w)(?tmp := None, path \<mapsto> serialize m) else ?E fs"
  have "wp UNIV (save_atomic path m) ?Q ?E (file_at w)"
    by (rule wp_save_atomic) auto
  from wp_run [OF this refl _ assms(1)] have *: "case r of Returned a \<Rightarrow> ?Q a (file_at w') | Stopped \<Rightarrow> ?E (file_at w')"
    by (auto split: run.splits)
  have load: "fst (Manifest_load can_reserve path m0 (w'\<lparr>fates := []\<rparr>)) = Returned (Ok (), m)"
    if "file_at w' path = Some (serialize m)"
  proof -
    have "wp {} (Manifest_load can_reserve path m0) (\<lambda>a _. a = (Ok (), m)) (\<lambda>_. False) (file_at w')"
      using that assms(2) by (intro wp_load) auto
    then show ?thesis by (rule wp_quiet [of _ _ "w'\<lparr>fates := []\<rparr>", simplified]) (simp_all add: quiet_def)
  qed
  show ?thesis
    using * load by (auto split: run.splits outcome.splits if_splits)
qed

theorem manifest_save_atomic_witness:
  "let w = \<lparr>files = [(''m'', [1, 2])], fates = [Done, Short 5, Killed]\<rparr> in
   fst (save_atomic ''m'' sample_manifest w) = Stopped \<and> file_at (snd (save_atomic ''m'' sample_manifest w)) ''m'' = Some [1, 2]"
proof -
  let ?w = "\<lparr>files = [(''m'', [1, 2])], fates = [Done, Short 5, Killed]\<rparr> :: World"
  have n: "36 \<le> length (serialize sample_manifest)" by (simp add: length_serialize)
  then have "serialize sample_manifest \<noteq> []" "drop 6 (serialize sample_manifest) \<noteq> []" by auto
  then have s: "fst (save_atomic ''m'' sample_manifest ?w) = Stopped"
    using n by (simp add: save_atomic_def Let_def io_bind_def sys_open_truncate_def sys_call_def take_fate_def works_def
        write_loop.simps [of _ _ "serialize sample_manifest"] write_loop.simps [of _ _ "drop 6 (serialize sample_manifest)"]
        sys_write_def min_def put_file_def)
  obtain v where v: "save_atomic ''m'' sample_manifest ?w = (Stopped, v)" using s by (metis prod.collapse)
  then show ?thesis
    using manifest_save_atomic [OF v sample_manifest_fits] by (simp add: Let_def)
qed

end
