(* ===== verification/Journal.thy ===== *)
theory Journal
  imports Manifest
begin

text \<open>
  The journal of the catalog (\<^verbatim>\<open>Journal\<close> in \<^verbatim>\<open>storage/catalog.hpp\<close> and \<^verbatim>\<open>storage/catalog.cpp\<close>): checksummed records
  that are appended to a file, and reading them back into transactions. The time in the header of a new journal is
  the only parameter; a payload that is shorter than its fields claim is read past the end of the
  buffer, as in the source, and is \<open>Fault\<close> there.
\<close>

section \<open>Records\<close>

datatype JournalOpType = TxBegin | AddSegment | RemoveSegment | CompactSegments | TxCommit | TxAbort

fun op_code :: "JournalOpType \<Rightarrow> u32" where
  "op_code TxBegin = 1"
| "op_code AddSegment = 2"
| "op_code RemoveSegment = 3"
| "op_code CompactSegments = 4"
| "op_code TxCommit = 5"
| "op_code TxAbort = 6"

definition JournalHeader_Magic :: u32 where "JournalHeader_Magic = 0x57414C31"

definition journal_header_bytes :: "u64 \<Rightarrow> bytes" where
  "journal_header_bytes creation_ts = le_bytes 4 JournalHeader_Magic @ le_bytes 4 (1 :: u32) @ le_bytes 8 creation_ts"

record Journal =
  j_path :: string
  j_fd :: bool

definition Journal_init :: Journal where
  "Journal_init = \<lparr>j_path = [], j_fd = False\<rparr>"

definition Journal_close :: "Journal \<Rightarrow> Journal io" where
  "Journal_close j = (if j_fd j then io_bind sys_fsync (\<lambda>_. io_return (j\<lparr>j_fd := False\<rparr>)) else io_return j)"

definition Journal_open :: "u64 \<Rightarrow> string \<Rightarrow> Journal \<Rightarrow> (unit outcome \<times> Journal) io" where
  "Journal_open now path j =
     io_bind (Journal_close j) (\<lambda>j. let j = j\<lparr>j_path := path\<rparr> in
     io_bind (sys_exists path) (\<lambda>exists.
     io_bind (sys_open_append path) (\<lambda>ok.
     if \<not> ok then io_return (Err FileOpenFailed, j)
     else let j = j\<lparr>j_fd := True\<rparr> in
       if exists then io_return (Ok (), j)
       else
         (let fail = io_bind (Journal_close j) (\<lambda>j. io_return (Err FileWriteFailed, j)) in
          io_bind (sys_write path (journal_header_bytes now)) (\<lambda>written.
          if written \<noteq> Moved 16 then fail
          else io_bind sys_fsync (\<lambda>ok. if \<not> ok then fail else io_return (Ok (), j)))))))"

definition flush_and_sync :: "Journal \<Rightarrow> unit outcome io" where
  "flush_and_sync j = (if \<not> j_fd j then io_return (Ok ())
     else io_bind sys_fsync (\<lambda>ok. io_return (if ok then Ok () else Err FileSyncFailed)))"

definition record_body :: "u64 \<Rightarrow> JournalOpType \<Rightarrow> bytes \<Rightarrow> bytes" where
  "record_body tx_id op payload =
     (let payload_size = of_nat (length payload) :: u32 in
      le_bytes 8 tx_id @ le_bytes 4 (op_code op) @ le_bytes 4 payload_size @ take (unat payload_size) payload)"

definition record_bytes :: "u64 \<Rightarrow> JournalOpType \<Rightarrow> bytes \<Rightarrow> bytes" where
  "record_bytes tx_id op payload = (let buf = record_body tx_id op payload in buf @ le_bytes 4 (crc32c buf))"

definition write_record :: "u64 \<Rightarrow> JournalOpType \<Rightarrow> bytes \<Rightarrow> Journal \<Rightarrow> unit outcome io" where
  "write_record tx_id op payload j =
     (if \<not> j_fd j then io_return (Err InternalError)
      else io_bind (write_loop False (j_path j) (record_bytes tx_id op payload)) (\<lambda>ok.
        if \<not> ok then io_return (Err FileWriteFailed) else flush_and_sync j))"

definition append_begin :: "u64 \<Rightarrow> Journal \<Rightarrow> unit outcome io" where
  "append_begin tx_id = write_record tx_id TxBegin []"

definition append_commit :: "u64 \<Rightarrow> Journal \<Rightarrow> unit outcome io" where
  "append_commit tx_id = write_record tx_id TxCommit []"

definition append_abort :: "u64 \<Rightarrow> Journal \<Rightarrow> unit outcome io" where
  "append_abort tx_id = write_record tx_id TxAbort []"

definition append_add_segment :: "u64 \<Rightarrow> SegmentMeta \<Rightarrow> Journal \<Rightarrow> unit outcome io" where
  "append_add_segment tx_id meta = write_record tx_id AddSegment (meta_bytes meta)"

definition append_remove_segment :: "u64 \<Rightarrow> u64 \<Rightarrow> Journal \<Rightarrow> unit outcome io" where
  "append_remove_segment tx_id segment_id = write_record tx_id RemoveSegment (le_bytes 8 segment_id)"

definition compact_payload :: "u64 list \<Rightarrow> SegmentMeta list \<Rightarrow> bytes" where
  "compact_payload old_ids new_metas =
     le_bytes 4 (of_nat (length old_ids) :: u32) @ concat (map (le_bytes 8) old_ids) @
     le_bytes 4 (of_nat (length new_metas) :: u32) @ concat (map meta_bytes new_metas)"

definition append_compact :: "u64 \<Rightarrow> u64 list \<Rightarrow> SegmentMeta list \<Rightarrow> Journal \<Rightarrow> unit outcome io" where
  "append_compact tx_id old_ids new_metas = write_record tx_id CompactSegments (compact_payload old_ids new_metas)"

section \<open>Reading\<close>

record RecoveredTx =
  rt_tx_id :: u64
  rt_committed :: bool
  rt_added_segments :: "SegmentMeta list"
  rt_removed_segments :: "u64 list"

definition RecoveredTx_new :: "u64 \<Rightarrow> RecoveredTx" where
  "RecoveredTx_new tx_id = \<lparr>rt_tx_id = tx_id, rt_committed = False, rt_added_segments = [], rt_removed_segments = []\<rparr>"

text \<open>The transaction that \<^verbatim>\<open>get_or_create_tx\<close> returns is changed in place.\<close>

fun update_tx :: "u64 \<Rightarrow> (RecoveredTx \<Rightarrow> RecoveredTx) \<Rightarrow> RecoveredTx list \<Rightarrow> RecoveredTx list" where
  "update_tx tx_id f [] = [f (RecoveredTx_new tx_id)]"
| "update_tx tx_id f (tx # txs) = (if rt_tx_id tx = tx_id then f tx # txs else tx # update_tx tx_id f txs)"

definition push_added :: "SegmentMeta list \<Rightarrow> RecoveredTx \<Rightarrow> RecoveredTx" where
  "push_added ss tx = tx\<lparr>rt_added_segments := rt_added_segments tx @ ss\<rparr>"

definition push_removed :: "u64 list \<Rightarrow> RecoveredTx \<Rightarrow> RecoveredTx" where
  "push_removed ids tx = tx\<lparr>rt_removed_segments := rt_removed_segments tx @ ids\<rparr>"

definition read_segment :: "bytes \<Rightarrow> nat \<Rightarrow> (SegmentMeta \<times> nat) outcome" where
  "read_segment buffer off =
     obind (get64 off buffer) (\<lambda>sid. obind (get32 (off + 8) buffer) (\<lambda>fn_len.
     obind (read_meta buffer sid (unat fn_len) (off + 12)) (\<lambda>sm. Ok (sm, off + 70 + unat fn_len))))"

fun read_ids :: "nat \<Rightarrow> bytes \<Rightarrow> nat \<Rightarrow> u64 list outcome" where
  "read_ids 0 buffer off = Ok []"
| "read_ids (Suc n) buffer off =
     obind (get64 off buffer) (\<lambda>i. obind (read_ids n buffer (off + 8)) (\<lambda>ids. Ok (i # ids)))"

fun read_metas :: "nat \<Rightarrow> bytes \<Rightarrow> nat \<Rightarrow> SegmentMeta list outcome" where
  "read_metas 0 buffer off = Ok []"
| "read_metas (Suc n) buffer off =
     obind (read_segment buffer off) (\<lambda>(sm, off). obind (read_metas n buffer off) (\<lambda>sms. Ok (sm # sms)))"

definition record_effect :: "u32 \<Rightarrow> bytes \<Rightarrow> nat \<Rightarrow> (RecoveredTx \<Rightarrow> RecoveredTx) outcome" where
  "record_effect op buffer off =
     (if op = op_code TxCommit then Ok (\<lambda>tx. tx\<lparr>rt_committed := True\<rparr>)
      else if op = op_code TxAbort then Ok (\<lambda>tx. tx\<lparr>rt_committed := False\<rparr>)
      else if op = op_code AddSegment then obind (read_segment buffer off) (\<lambda>(sm, _). Ok (push_added [sm]))
      else if op = op_code RemoveSegment then obind (get64 off buffer) (\<lambda>sid. Ok (push_removed [sid]))
      else if op = op_code CompactSegments then
        obind (get32 off buffer) (\<lambda>old_count. obind (read_ids (unat old_count) buffer (off + 4)) (\<lambda>ids.
        let off = off + 4 + 8 * unat old_count in
        obind (get32 off buffer) (\<lambda>new_count. obind (read_metas (unat new_count) buffer (off + 4)) (\<lambda>sms.
        Ok (push_added sms \<circ> push_removed ids)))))
      else Ok id)"

text \<open>
  The record loop over a buffer of which the first \<open>total_read\<close> bytes were read from the file. It stops at a
  record that does not fit or whose checksum is wrong.
\<close>

function read_records :: "bytes \<Rightarrow> nat \<Rightarrow> nat \<Rightarrow> RecoveredTx list \<Rightarrow> RecoveredTx list outcome" where
  "read_records buffer total_read offset txs =
     (if total_read < offset + 20 then Ok txs
      else obind (get64 offset buffer) (\<lambda>tx_id. obind (get32 (offset + 8) buffer) (\<lambda>op.
        obind (get32 (offset + 12) buffer) (\<lambda>payload_size. let n = unat payload_size in
        if total_read < offset + 16 + n + 4 then Ok txs
        else obind (get32 (offset + 16 + n) buffer) (\<lambda>stored_crc.
          obind (load offset (16 + n) buffer) (\<lambda>body.
          if stored_crc \<noteq> crc32c body then Ok txs
          else obind (record_effect op buffer (offset + 16)) (\<lambda>f.
            read_records buffer total_read (offset + 20 + n) (update_tx tx_id f txs))))))))"
  by pat_completeness auto
termination
  by (relation "measure (\<lambda>(buffer, total_read, offset, txs). total_read - offset)") auto

declare read_records.simps [simp del]

definition read_journal :: "bytes \<Rightarrow> nat \<Rightarrow> unit outcome \<times> RecoveredTx list" where
  "read_journal buffer total_read =
     (if total_read < 16 then (Ok (), [])
      else if get32 0 buffer \<noteq> Ok JournalHeader_Magic then (Err JournalInvalid, [])
      else case read_records buffer total_read 16 [] of
          Ok txs \<Rightarrow> (Ok (), txs) | Err c \<Rightarrow> (Err c, []) | Fault \<Rightarrow> (Fault, []))"

definition Journal_read_all :: "string \<Rightarrow> (unit outcome \<times> RecoveredTx list) io" where
  "Journal_read_all path =
     io_bind (sys_open_read path) (\<lambda>ok.
     if \<not> ok then io_return (Err FileNotFound, [])
     else io_bind (sys_stat path) (\<lambda>st.
     case st of None \<Rightarrow> io_return (Ok (), [])
     | Some n \<Rightarrow>
         if n < 16 then io_return (Ok (), [])
         else io_bind (read_loop path n []) (\<lambda>(_, acc).
           io_return (read_journal (acc @ replicate (n - length acc) 0) (length acc)))))"

section \<open>The entries of a journal\<close>

text \<open>What the records mean, and the transactions a sequence of entries amounts to.\<close>

datatype entry_op = Begin | Add SegmentMeta | Remove u64 | Compact "u64 list" "SegmentMeta list" | Commit | Abort

type_synonym entry = "u64 \<times> entry_op"

fun op_type :: "entry_op \<Rightarrow> JournalOpType" where
  "op_type Begin = TxBegin"
| "op_type (Add s) = AddSegment"
| "op_type (Remove i) = RemoveSegment"
| "op_type (Compact ids ss) = CompactSegments"
| "op_type Commit = TxCommit"
| "op_type Abort = TxAbort"

fun op_payload :: "entry_op \<Rightarrow> bytes" where
  "op_payload (Add s) = meta_bytes s"
| "op_payload (Remove i) = le_bytes 8 i"
| "op_payload (Compact ids ss) = compact_payload ids ss"
| "op_payload _ = []"

fun op_effect :: "entry_op \<Rightarrow> RecoveredTx \<Rightarrow> RecoveredTx" where
  "op_effect Begin = id"
| "op_effect (Add s) = push_added [s]"
| "op_effect (Remove i) = push_removed [i]"
| "op_effect (Compact ids ss) = push_added ss \<circ> push_removed ids"
| "op_effect Commit = (\<lambda>tx. tx\<lparr>rt_committed := True\<rparr>)"
| "op_effect Abort = (\<lambda>tx. tx\<lparr>rt_committed := False\<rparr>)"

definition entry_bytes :: "entry \<Rightarrow> bytes" where
  "entry_bytes x = record_bytes (fst x) (op_type (snd x)) (op_payload (snd x))"

definition entry_fits :: "entry \<Rightarrow> bool" where
  "entry_fits x \<longleftrightarrow> length (op_payload (snd x)) < 2 ^ 32"

definition apply_entry :: "RecoveredTx list \<Rightarrow> entry \<Rightarrow> RecoveredTx list" where
  "apply_entry txs x = update_tx (fst x) (op_effect (snd x)) txs"

definition transactions :: "entry list \<Rightarrow> RecoveredTx list" where
  "transactions xs = foldl apply_entry [] xs"

definition journal_image :: "u64 \<Rightarrow> entry list \<Rightarrow> bytes" where
  "journal_image ts xs = journal_header_bytes ts @ concat (map entry_bytes xs)"

section \<open>Reading back\<close>

lemma holds_length: "holds data off xs \<Longrightarrow> off + length xs \<le> length data"
  by (simp add: holds_def)

lemma unat_of_nat_u32: "n < 2 ^ 32 \<Longrightarrow> unat (of_nat n :: u32) = n"
  by (simp add: unat_of_nat)

lemma read_segment_holds:
  assumes "holds buffer off (meta_bytes s)" "length (sm_filename s) < 2 ^ 32"
  shows "read_segment buffer off = Ok (s, off + length (meta_bytes s))"
  using read_meta_bytes [OF assms(1)] assms(2)
  by (simp add: read_segment_def unat_of_nat_u32 length_meta_bytes)

lemma read_ids_holds: "holds buffer off (concat (map (le_bytes 8) ids)) \<Longrightarrow> read_ids (length ids) buffer off = Ok ids"
proof (induction ids arbitrary: off)
  case (Cons i ids)
  then have "holds buffer off (le_bytes 8 i)" "holds buffer (off + 8) (concat (map (le_bytes 8) ids))"
    by (simp_all add: holds_append)
  then show ?case using Cons.IH by (simp add: get_holds(1) [of _ _ i])
qed simp

lemma read_metas_holds:
  assumes "holds buffer off (concat (map meta_bytes ss))" "\<forall>s\<in>set ss. length (sm_filename s) < 2 ^ 32"
  shows "read_metas (length ss) buffer off = Ok ss"
  using assms
proof (induction ss arbitrary: off)
  case (Cons s ss)
  then have "holds buffer off (meta_bytes s)" "holds buffer (off + length (meta_bytes s)) (concat (map meta_bytes ss))"
    by (simp_all add: holds_append)
  then show ?case using Cons by (simp add: read_segment_holds [of buffer off s])
qed simp

lemma length_compact_payload:
  "length (compact_payload ids ss) = 8 + 8 * length ids + (\<Sum>s\<leftarrow>ss. 70 + length (sm_filename s))"
proof -
  have "length (concat (map meta_bytes ss)) = (\<Sum>s\<leftarrow>ss. 70 + length (sm_filename s))"
    by (induction ss) (simp_all add: length_meta_bytes)
  moreover have "length (concat (map (le_bytes 8) ids)) = 8 * length ids" by (induction ids) simp_all
  ultimately show ?thesis by (simp add: compact_payload_def)
qed

lemma compact_payload_bounds:
  "length ids \<le> length (compact_payload ids ss)" "length ss \<le> length (compact_payload ids ss)"
  "s \<in> set ss \<Longrightarrow> length (sm_filename s) \<le> length (compact_payload ids ss)"
proof -
  have "length ss \<le> (\<Sum>s\<leftarrow>ss. 70 + length (sm_filename s))" by (induction ss) simp_all
  then show "length ss \<le> length (compact_payload ids ss)" by (simp add: length_compact_payload)
  have "70 + length (sm_filename s) \<le> (\<Sum>s\<leftarrow>ss. 70 + length (sm_filename s))" if "s \<in> set ss"
    using that by (intro member_le_sum_list) auto
  then show "s \<in> set ss \<Longrightarrow> length (sm_filename s) \<le> length (compact_payload ids ss)"
    by (force simp: length_compact_payload)
qed (simp add: length_compact_payload)

lemma record_effect_compact:
  assumes "holds buffer off (compact_payload ids ss)" "length (compact_payload ids ss) < 2 ^ 32"
  shows "record_effect 4 buffer off = Ok (push_added ss \<circ> push_removed ids)"
proof -
  let ?o = "off + 4 + 8 * length ids"
  have h: "holds buffer off (le_bytes 4 (of_nat (length ids) :: u32))" "holds buffer (off + 4) (concat (map (le_bytes 8) ids))"
    "holds buffer ?o (le_bytes 4 (of_nat (length ss) :: u32))" "holds buffer (?o + 4) (concat (map meta_bytes ss))"
    using assms(1) by (simp_all add: compact_payload_def holds_append length_concat comp_def sum_list_triv add.commute mult.commute)
  have n: "unat (of_nat (length ids) :: u32) = length ids" "unat (of_nat (length ss) :: u32) = length ss"
    "\<forall>s\<in>set ss. length (sm_filename s) < 2 ^ 32"
    using compact_payload_bounds [where ids = ids and ss = ss] assms(2) by (force intro: unat_of_nat_u32)+
  show ?thesis
    using get_holds(2) [OF h(1)] get_holds(2) [OF h(3)] read_ids_holds [OF h(2)] read_metas_holds [OF h(4) n(3)]
    by (simp add: record_effect_def n Let_def)
qed

lemma record_effect_holds:
  assumes "holds buffer off (op_payload e)" "length (op_payload e) < 2 ^ 32"
  shows "record_effect (op_code (op_type e)) buffer off = Ok (op_effect e)"
proof (cases e)
  case (Add s)
  then have "holds buffer off (meta_bytes s)" "length (sm_filename s) < 2 ^ 32"
    using assms by (simp_all add: length_meta_bytes)
  then show ?thesis using Add by (simp add: record_effect_def read_segment_holds del: load_eq_Ok)
next
  case (Compact ids ss)
  then show ?thesis using assms record_effect_compact by simp
qed (use assms in \<open>simp_all add: record_effect_def\<close>)

lemma record_parts:
  assumes "entry_fits (i, e)"
  shows "entry_bytes (i, e) = le_bytes 8 i @ le_bytes 4 (op_code (op_type e)) @ le_bytes 4 (of_nat (length (op_payload e)) :: u32)
      @ op_payload e @ le_bytes 4 (crc32c (record_body i (op_type e) (op_payload e)))"
    and "record_body i (op_type e) (op_payload e) = le_bytes 8 i @ le_bytes 4 (op_code (op_type e))
      @ le_bytes 4 (of_nat (length (op_payload e)) :: u32) @ op_payload e"
  using assms by (simp_all add: entry_bytes_def record_bytes_def record_body_def Let_def entry_fits_def unat_of_nat_u32)

lemma length_entry_bytes: "entry_fits x \<Longrightarrow> length (entry_bytes x) = 20 + length (op_payload (snd x))"
  by (cases x) (simp add: record_parts)

text \<open>A record whose bytes, up to the checksum, are all there, with the checksum \<open>c\<close>.\<close>

lemma read_records_body:
  assumes "holds buffer off (record_body i (op_type e) (op_payload e) @ le_bytes 4 c)" "entry_fits (i, e)"
    and "off + 20 + length (op_payload e) \<le> total_read"
  shows "read_records buffer total_read off txs =
    (if c = crc32c (record_body i (op_type e) (op_payload e))
     then read_records buffer total_read (off + 20 + length (op_payload e)) (apply_entry txs (i, e)) else Ok txs)"
proof -
  let ?n = "length (op_payload e)" and ?b = "record_body i (op_type e) (op_payload e)"
  have lb: "length ?b = 16 + ?n" by (simp add: record_parts(2) [OF assms(2)])
  have hb: "holds buffer off ?b" "holds buffer (off + (16 + ?n)) (le_bytes 4 c)"
    using assms(1) unfolding holds_append lb by simp_all
  have h: "holds buffer off (le_bytes 8 i)" "holds buffer (off + 8) (le_bytes 4 (op_code (op_type e)))"
    "holds buffer (off + 12) (le_bytes 4 (of_nat ?n :: u32))" "holds buffer (off + 16) (op_payload e)"
    using hb(1) unfolding record_parts(2) [OF assms(2)] holds_append by (simp_all add: add.commute)
  have n: "unat (of_nat ?n :: u32) = ?n" using assms(2) by (simp add: entry_fits_def unat_of_nat_u32)
  have l: "load off (16 + ?n) buffer = Ok ?b" using load_holds [OF hb(1)] lb by simp
  have c: "get32 (off + 16 + ?n) buffer = Ok c" using get_holds(2) [OF hb(2)] by (simp add: ac_simps)
  have f: "record_effect (op_code (op_type e)) buffer (off + 16) = Ok (op_effect e)"
    using record_effect_holds [OF h(4)] assms(2) by (simp add: entry_fits_def)
  show ?thesis
    using assms(3) by (subst read_records.simps)
      (simp add: get_holds(1) [OF h(1)] get_holds(2) [OF h(2)] get_holds(2) [OF h(3)] n l c f Let_def apply_entry_def del: load_eq_Ok)
qed

lemma read_records_entry:
  assumes "holds buffer off (entry_bytes x)" "entry_fits x" "off + length (entry_bytes x) \<le> total_read"
  shows "read_records buffer total_read off txs = read_records buffer total_read (off + length (entry_bytes x)) (apply_entry txs x)"
proof (cases x)
  case (Pair i e)
  then show ?thesis
    using read_records_body [of buffer off i e "crc32c (record_body i (op_type e) (op_payload e))" total_read txs] assms
    by (simp add: length_entry_bytes) (simp add: entry_bytes_def record_bytes_def Let_def add.assoc)
qed

lemma read_records_entries:
  assumes "holds buffer off (concat (map entry_bytes xs))" "\<forall>x\<in>set xs. entry_fits x"
    and "off + length (concat (map entry_bytes xs)) \<le> total_read"
  shows "read_records buffer total_read off txs
    = read_records buffer total_read (off + length (concat (map entry_bytes xs))) (foldl apply_entry txs xs)"
  using assms
proof (induction xs arbitrary: off txs)
  case (Cons x xs)
  then show ?case
    using read_records_entry [of buffer off x total_read txs] Cons.IH [of "off + length (entry_bytes x)" "apply_entry txs x"]
    by (simp add: holds_append ac_simps)
qed simp

text \<open>A record of which only a part was written.\<close>

lemma holds_take: "holds data off (take n xs) \<Longrightarrow> xs = a @ b \<Longrightarrow> length a \<le> n \<Longrightarrow> holds data off a"
  by (metis holds_append take_all take_append)

lemma read_records_torn:
  assumes "holds buffer off (take n (entry_bytes x))" "entry_fits x" "n < length (entry_bytes x)"
  shows "read_records buffer (off + n) off txs = Ok txs"
proof (cases "n < 20")
  case True
  then show ?thesis by (subst read_records.simps) simp
next
  case False
  obtain i e where x: "x = (i, e)" by fastforce
  let ?n = "length (op_payload e)"
  let ?h = "le_bytes 8 i @ le_bytes 4 (op_code (op_type e)) @ le_bytes 4 (of_nat ?n :: u32)"
  have "entry_bytes x = ?h @ op_payload e @ le_bytes 4 (crc32c (record_body i (op_type e) (op_payload e)))"
    using record_parts(1) assms(2) x by simp
  then have "holds buffer off ?h" using False by (intro holds_take [OF assms(1)]) auto
  then have h: "holds buffer off (le_bytes 8 i)" "holds buffer (off + 8) (le_bytes 4 (op_code (op_type e)))"
    "holds buffer (off + 12) (le_bytes 4 (of_nat ?n :: u32))" unfolding holds_append by (simp_all add: add.commute)
  have n: "unat (of_nat ?n :: u32) = ?n" "n < 20 + ?n"
    using assms(2,3) length_entry_bytes [OF assms(2)] x by (simp_all add: entry_fits_def unat_of_nat_u32)
  show ?thesis
    using False by (subst read_records.simps)
      (simp add: get_holds(1) [OF h(1)] get_holds(2) [OF h(2)] get_holds(2) [OF h(3)] n Let_def)
qed

lemma length_journal_header [simp]: "length (journal_header_bytes ts) = 16"
  by (simp add: journal_header_bytes_def)

text \<open>A journal with complete entries \<open>xs\<close> followed by anything.\<close>

lemma read_journal_entries:
  assumes "\<forall>x\<in>set xs. entry_fits x" "buffer = journal_image ts xs @ tail"
  shows "read_journal buffer (length buffer) =
    (case read_records buffer (length buffer) (length (journal_image ts xs)) (transactions xs) of
        Ok txs \<Rightarrow> (Ok (), txs) | Err c \<Rightarrow> (Err c, []) | Fault \<Rightarrow> (Fault, []))"
proof -
  let ?c = "concat (map entry_bytes xs)"
  have b: "buffer = journal_header_bytes ts @ ?c @ tail" using assms(2) by (simp add: journal_image_def)
  have h: "holds buffer 0 (le_bytes 4 JournalHeader_Magic)"
    using holds_whole [of "[]" "le_bytes 4 JournalHeader_Magic"] b by (simp add: journal_header_bytes_def)
  have "holds buffer 16 ?c" using holds_whole [of "journal_header_bytes ts" ?c tail] b by simp
  then have r: "read_records buffer (length buffer) 16 [] = read_records buffer (length buffer) (16 + length ?c) (transactions xs)"
    using b assms(1) by (simp add: read_records_entries transactions_def)
  have g: "get32 0 buffer = Ok JournalHeader_Magic" "16 \<le> length buffer" using get_holds(2) [OF h] b by simp_all
  have l: "length (journal_image ts xs) = 16 + length ?c" by (simp add: journal_image_def)
  show ?thesis unfolding read_journal_def using g r by (simp add: l)
qed

text \<open>The tails that end the reading: a part of a record, and a record whose payload or checksum was damaged.\<close>

lemma read_records_bad_crc:
  assumes "holds buffer off (le_bytes 8 i @ le_bytes 4 op @ le_bytes 4 (of_nat (length p) :: u32) @ p @ t)" "length p < 2 ^ 32" "length t = 4"
    and "le_word t \<noteq> crc32c (le_bytes 8 (i :: u64) @ le_bytes 4 (op :: u32) @ le_bytes 4 (of_nat (length p) :: u32) @ p)"
    and "off + 20 + length p \<le> total_read"
  shows "read_records buffer total_read off txs = Ok txs"
proof -
  let ?b = "le_bytes 8 i @ le_bytes 4 op @ le_bytes 4 (of_nat (length p) :: u32) @ p"
  have t: "t = le_bytes 4 (le_word t :: u32)" using assms(3) by simp
  have h: "holds buffer off (le_bytes 8 i)" "holds buffer (off + 8) (le_bytes 4 op)"
    "holds buffer (off + 12) (le_bytes 4 (of_nat (length p) :: u32))" "holds buffer (off + 16 + length p) t"
    using assms(1) unfolding holds_append by (simp_all add: ac_simps)
  have b: "holds buffer off ?b" using assms(1) unfolding holds_append by simp
  have l: "load off (16 + length p) buffer = Ok ?b" using load_holds [OF b] by simp
  have n: "unat (of_nat (length p) :: u32) = length p" using assms(2) by (simp add: unat_of_nat_u32)
  have c: "get32 (off + 16 + length p) buffer = Ok (le_word t)" using h(4) t by (metis get_holds(2))
  show ?thesis
    using assms(4,5) by (subst read_records.simps)
      (simp add: get_holds(1) [OF h(1)] get_holds(2) [OF h(2)] get_holds(2) [OF h(3)] n l c Let_def del: load_eq_Ok)
qed

lemma read_records_damaged:
  assumes "entry_bytes x = pre @ zs @ post" "entry_fits x" "16 \<le> length pre" "length ys = length zs" "length zs \<le> 4" "ys \<noteq> zs"
    and "holds buffer off (pre @ ys @ post)" "off + length (entry_bytes x) \<le> total_read"
  shows "read_records buffer total_read off txs = Ok txs"
proof -
  obtain i e where x: "x = (i, e)" by fastforce
  let ?n = "length (op_payload e)"
  define h where "h = le_bytes 8 i @ le_bytes 4 (op_code (op_type e)) @ le_bytes 4 (of_nat ?n :: u32)"
  define d where "d = drop 16 (pre @ ys @ post)"
  let ?c = "le_bytes 4 (crc32c (h @ op_payload e))"
  have n: "length (entry_bytes x) = 20 + ?n" "?n < 2 ^ 32" using length_entry_bytes assms(2) x by (simp_all add: entry_fits_def)
  have e: "entry_bytes x = (h @ op_payload e) @ ?c"
    using record_parts [of i e] assms(2) x by (simp add: h_def)
  have lh: "length h = 16" by (simp add: h_def)
  have "take 16 (pre @ zs @ post) = h" using e assms(1) lh by (metis append.assoc append_eq_conv_conj)
  then have "take 16 (pre @ ys @ post) = h" using assms(3) by simp
  then have hd: "h @ d = pre @ ys @ post" unfolding d_def by (metis append_take_drop_id)
  have "length (h @ d) = length (pre @ zs @ post)" using hd assms(4) by simp
  then have ld: "length d = ?n + 4" using n(1) assms(1) lh by simp
  define p t where "p = take ?n d" and "t = drop ?n d"
  have pt: "d = p @ t" "length p = ?n" "length t = 4" using ld by (simp_all add: p_def t_def)
  have "le_word t \<noteq> crc32c (h @ p)"
    by (rule crc_trailer_burst [of "h @ op_payload e" ?c pre zs post _ _ ys]) (use e assms(1,4-6) hd pt in simp_all)
  moreover have "holds buffer off (h @ p @ t)" using assms(7) hd pt(1) by simp
  ultimately show ?thesis
    using pt(2,3) n assms(8) by (intro read_records_bad_crc [of buffer off i "op_code (op_type e)" p t]) (simp_all add: h_def)
qed

lemma read_journal_torn:
  assumes "\<forall>y\<in>set xs. entry_fits y" "tail = [] \<or> (\<exists>x n. entry_fits x \<and> n < length (entry_bytes x) \<and> tail = take n (entry_bytes x))"
  shows "read_journal (journal_image ts xs @ tail) (length (journal_image ts xs @ tail)) = (Ok (), transactions xs)"
proof -
  let ?b = "journal_image ts xs @ tail" and ?o = "length (journal_image ts xs)"
  have "read_records ?b (length ?b) ?o (transactions xs) = Ok (transactions xs)"
    using assms(2)
  proof (elim disjE exE conjE)
    assume "tail = []"
    then show ?thesis by (subst read_records.simps) simp
  next
    fix x n assume n: "entry_fits x" "n < length (entry_bytes x)" "tail = take n (entry_bytes x)"
    then have "holds ?b ?o (take n (entry_bytes x))" "length ?b = ?o + n"
      using holds_whole [of "journal_image ts xs" tail "[]"] by simp_all
    then show ?thesis using read_records_torn n by metis
  qed
  then show ?thesis using read_journal_entries [OF assms(1) refl] by simp
qed

text \<open>Any part of a sequence of records is a sequence of complete records and a part of one.\<close>

lemma take_entries:
  "\<exists>k\<le>length xs. \<exists>tail. take n (concat (map entry_bytes xs)) = concat (map entry_bytes (take k xs)) @ tail
     \<and> (tail = [] \<or> (\<exists>x\<in>set xs. \<exists>j<length (entry_bytes x). tail = take j (entry_bytes x)))"
proof (induction xs arbitrary: n)
  case (Cons x xs)
  show ?case
  proof (cases "n < length (entry_bytes x)")
    case True
    then show ?thesis by (intro exI [of _ 0]) auto
  next
    case False
    obtain k tail where k: "k \<le> length xs"
      "take (n - length (entry_bytes x)) (concat (map entry_bytes xs)) = concat (map entry_bytes (take k xs)) @ tail"
      "tail = [] \<or> (\<exists>x\<in>set xs. \<exists>j<length (entry_bytes x). tail = take j (entry_bytes x))"
      using Cons.IH by blast
    then show ?thesis using False by (intro exI [of _ "Suc k"]) auto
  qed
qed simp

section \<open>Files\<close>

lemma wp_write_record:
  assumes "j_fd j" "fs (j_path j) = Some c"
    and "\<And>n. Killed \<in> F \<Longrightarrow> E (fs(j_path j \<mapsto> c @ take n (record_bytes tx_id op payload)))"
    and "\<And>n code. may_fail F \<Longrightarrow> Q (Err code) (fs(j_path j \<mapsto> c @ take n (record_bytes tx_id op payload)))"
    and "Q (Ok ()) (fs(j_path j \<mapsto> c @ record_bytes tx_id op payload))"
  shows "wp F (write_record tx_id op payload j) Q E fs"
proof -
  let ?b = "record_bytes tx_id op payload"
  let ?fs = "fs(j_path j \<mapsto> c @ ?b)"
  have "Killed \<in> F \<Longrightarrow> E ?fs" "\<And>code. may_fail F \<Longrightarrow> Q (Err code) ?fs"
    using assms(3) [of "length ?b"] assms(4) [of _ "length ?b"] by simp_all
  then have "wp F (flush_and_sync j) Q E ?fs"
    using assms(1,5) by (auto simp: flush_and_sync_def intro!: wp_intro)
  then show ?thesis
    unfolding write_record_def using assms(1-4) by (auto intro!: wp_intro wp_write_loop)
qed

lemma wp_read_all:
  assumes "fs path = Some (journal_image ts xs @ tail)" "\<not> may_fail F" "Killed \<in> F \<Longrightarrow> E fs"
    and "Q (read_journal (journal_image ts xs @ tail) (length (journal_image ts xs @ tail))) fs"
  shows "wp F (Journal_read_all path) Q E fs"
proof -
  let ?c = "journal_image ts xs @ tail"
  have n: "\<not> length ?c < 16" by (simp add: journal_image_def)
  have "wp F (read_loop path (length ?c) []) (\<lambda>(_, acc). wp F (io_return (read_journal (acc @ replicate (length ?c - length acc) 0)
      (length acc))) Q E) E fs"
    using wp_read_loop [where fs = fs and p = path and k = 0 and F = F and E = E, OF assms(1)] assms(2-4)
    by (simp add: wp_io_return)
  then show ?thesis
    unfolding Journal_read_all_def using assms n by (auto intro!: wp_intro simp: case_prod_unfold)
qed

section \<open>Properties\<close>

text \<open>
  C18. The journal survives an interrupted or damaged write: a journal file that holds complete records is read
  back as the transactions those records describe, also when they are followed by any proper part of a further
  record, or by a record of which up to four neighbouring bytes of its payload or checksum were changed and then by
  anything else.
\<close>

theorem journal_recovers_prefix:
  assumes "\<forall>y\<in>set xs. entry_fits y" "entry_fits x"
    and "(\<exists>n. n < length (entry_bytes x) \<and> tail = take n (entry_bytes x))
      \<or> (\<exists>pre zs ys post more. entry_bytes x = pre @ zs @ post \<and> 16 \<le> length pre \<and> length ys = length zs \<and> length zs \<le> 4
           \<and> ys \<noteq> zs \<and> tail = (pre @ ys @ post) @ more)"
  shows "read_journal (journal_image ts xs @ tail) (length (journal_image ts xs @ tail)) = (Ok (), transactions xs)"
proof -
  let ?b = "journal_image ts xs @ tail" and ?o = "length (journal_image ts xs)"
  show ?thesis
    using assms(3)
  proof (elim disjE exE conjE)
    fix n assume "n < length (entry_bytes x)" "tail = take n (entry_bytes x)"
    then show ?thesis using read_journal_torn [OF assms(1)] assms(2) by blast
  next
    fix pre zs ys post more
    assume d: "entry_bytes x = pre @ zs @ post" "16 \<le> length pre" "length ys = length zs" "length zs \<le> 4" "ys \<noteq> zs"
      "tail = (pre @ ys @ post) @ more"
    have "holds ?b ?o (pre @ ys @ post)" using holds_whole [of "journal_image ts xs" "pre @ ys @ post" more] d(6) by simp
    then have "read_records ?b (length ?b) ?o (transactions xs) = Ok (transactions xs)"
      using d by (intro read_records_damaged [OF d(1) assms(2) d(2-5)]) simp_all
    then show ?thesis using read_journal_entries [OF assms(1) refl] by simp
  qed
qed

theorem journal_recovers_prefix_witness:
  "read_journal (journal_image 5 [(1, Begin), (1, Add sample_meta), (1, Commit)] @ take 9 (entry_bytes (2, Begin)))
     (length (journal_image 5 [(1, Begin), (1, Add sample_meta), (1, Commit)] @ take 9 (entry_bytes (2, Begin))))
   = (Ok (), [\<lparr>rt_tx_id = 1, rt_committed = True, rt_added_segments = [sample_meta], rt_removed_segments = []\<rparr>])"
proof -
  let ?xs = "[(1, Begin), (1, Add sample_meta), (1, Commit)] :: entry list"
  have f: "\<forall>y\<in>set ?xs. entry_fits y" "entry_fits (2, Begin)"
    by (simp_all add: entry_fits_def length_meta_bytes sample_meta_def)
  moreover have "9 < length (entry_bytes (2, Begin))" using length_entry_bytes [OF f(2)] by simp
  moreover have "transactions ?xs = [\<lparr>rt_tx_id = 1, rt_committed = True, rt_added_segments = [sample_meta], rt_removed_segments = []\<rparr>]"
    by (simp add: transactions_def apply_entry_def RecoveredTx_new_def push_added_def)
  ultimately show ?thesis
    using journal_recovers_prefix [OF f, of "take 9 (entry_bytes (2, Begin))" 5] by fastforce
qed

end
