(* ===== verification/Hashing.thy ===== *)
theory Hashing
  imports VT_Prelude "HOL-Library.Monad_Syntax"
begin

text \<open>
  Model of \<^verbatim>\<open>include/vectortick/common/hash.hpp\<close> and \<^verbatim>\<open>src/common/hash.cpp\<close>: the incremental
  SHA-256, the two random number generators, the hash combinator and the FNV-1a hash of the storage
  schema. The hasher is a record with the members of the class; the round constants are those of
  the source.
\<close>

section \<open>SHA-256\<close>

record Sha256 =
  sha_buffer :: bytes
  buffer_len :: nat
  total_len :: u64
  sha_state :: "u32 list"
  finalized :: bool

definition sha_K :: "u32 list" where
  "sha_K = concat
    [[0x428a2f98, 0x71374491, 0xb5c0fbcf, 0xe9b5dba5], [0x3956c25b, 0x59f111f1, 0x923f82a4, 0xab1c5ed5],
     [0xd807aa98, 0x12835b01, 0x243185be, 0x550c7dc3], [0x72be5d74, 0x80deb1fe, 0x9bdc06a7, 0xc19bf174],
     [0xe49b69c1, 0xefbe4786, 0x0fc19dc6, 0x240ca1cc], [0x2de92c6f, 0x4a7484aa, 0x5cb0a9dc, 0x76f988da],
     [0x983e5152, 0xa831c66d, 0xb00327c8, 0xbf597fc7], [0xc6e00bf3, 0xd5a79147, 0x06ca6351, 0x14292967],
     [0x27b70a85, 0x2e1b2138, 0x4d2c6dfc, 0x53380d13], [0x650a7354, 0x766a0abb, 0x81c2c92e, 0x92722c85],
     [0xa2bfe8a1, 0xa81a664b, 0xc24b8b70, 0xc76c51a3], [0xd192e819, 0xd6990624, 0xf40e3585, 0x106aa070],
     [0x19a4c116, 0x1e376c08, 0x2748774c, 0x34b0bcb5], [0x391c0cb3, 0x4ed8aa4a, 0x5b9cca4f, 0x682e6ff3],
     [0x74f1c51a, 0x7aa83914, 0x8e9e8e9e, 0x64d98b3d], [0x72c7d4d5, 0x9ae98b91, 0xf0d1e9c4, 0xd5a79147]]"

definition sha_H0 :: "u32 list" where
  "sha_H0 = [0x6a09e667, 0xbb67ae85, 0x3c6ef372, 0xa54ff53a, 0x510e527f, 0x9b05688c, 0x1f83d9ab, 0x5be0cd19]"

definition rotr :: "u32 \<Rightarrow> nat \<Rightarrow> u32" where
  "rotr x n = drop_bit n x OR push_bit (32 - n) x"

definition sha_choose :: "u32 \<Rightarrow> u32 \<Rightarrow> u32 \<Rightarrow> u32" where
  "sha_choose e f g = (e AND f) XOR (NOT e AND g)"

definition majority :: "u32 \<Rightarrow> u32 \<Rightarrow> u32 \<Rightarrow> u32" where
  "majority a b c = (a AND b) XOR (a AND c) XOR (b AND c)"

definition sigma0 :: "u32 \<Rightarrow> u32" where
  "sigma0 x = rotr x 2 XOR rotr x 13 XOR rotr x 22"

definition sigma1 :: "u32 \<Rightarrow> u32" where
  "sigma1 x = rotr x 6 XOR rotr x 11 XOR rotr x 25"

definition gamma0 :: "u32 \<Rightarrow> u32" where
  "gamma0 x = rotr x 7 XOR rotr x 18 XOR drop_bit 3 x"

definition gamma1 :: "u32 \<Rightarrow> u32" where
  "gamma1 x = rotr x 17 XOR rotr x 19 XOR drop_bit 10 x"

text \<open>The message schedule: sixteen big-endian words of the block, then 48 derived ones.\<close>

definition block_word :: "bytes \<Rightarrow> nat \<Rightarrow> u32" where
  "block_word block i = push_bit 24 (ucast (block ! (i * 4))) OR push_bit 16 (ucast (block ! (i * 4 + 1)))
     OR push_bit 8 (ucast (block ! (i * 4 + 2))) OR ucast (block ! (i * 4 + 3))"

definition schedule_step :: "nat \<Rightarrow> u32 list \<Rightarrow> u32 list" where
  "schedule_step i w = w @ [gamma1 (w ! (i - 2)) + w ! (i - 7) + gamma0 (w ! (i - 15)) + w ! (i - 16)]"

definition message_schedule :: "bytes \<Rightarrow> u32 list" where
  "message_schedule block = fold schedule_step [16..<64] (map (block_word block) [0..<16])"

text \<open>One round on the working variables \<open>a\<close> to \<open>h\<close>.\<close>

fun sha_round :: "u32 \<Rightarrow> u32 \<Rightarrow> u32 list \<Rightarrow> u32 list" where
  "sha_round k w [a, b, c, d, e, f, g, h] =
     (let t1 = h + sigma1 e + sha_choose e f g + k + w; t2 = sigma0 a + majority a b c
      in [t1 + t2, a, b, c, d + t1, e, f, g])"
| "sha_round k w st = st"

definition process_block :: "bytes \<Rightarrow> u32 list \<Rightarrow> u32 list" where
  "process_block block st =
     map2 (+) st (fold (\<lambda>(k, w). sha_round k w) (zip sha_K (message_schedule block)) st)"

definition sha_new :: "bytes \<Rightarrow> Sha256" where
  "sha_new garbage = \<lparr>sha_buffer = garbage, buffer_len = 0, total_len = 0, sha_state = sha_H0, finalized = False\<rparr>"

definition sha_reset :: "Sha256 \<Rightarrow> Sha256" where
  "sha_reset s = s\<lparr>buffer_len := 0, total_len := 0, finalized := False, sha_state := sha_H0\<rparr>"

definition sha_push :: "u8 \<Rightarrow> Sha256 \<Rightarrow> Sha256" where
  "sha_push b s = s\<lparr>sha_buffer := (sha_buffer s)[buffer_len s := b], buffer_len := buffer_len s + 1\<rparr>"

text \<open>The three loops of \<^verbatim>\<open>update\<close>: fill the buffer, take whole blocks, keep the rest.\<close>

fun fill_buffer :: "bytes \<Rightarrow> Sha256 \<Rightarrow> bytes \<times> Sha256" where
  "fill_buffer [] s = ([], s)"
| "fill_buffer (b # data) s =
     (if buffer_len s < 64 then fill_buffer data (sha_push b s) else (b # data, s))"

definition flush_buffer :: "Sha256 \<Rightarrow> Sha256" where
  "flush_buffer s = (if buffer_len s = 64
     then s\<lparr>sha_state := process_block (sha_buffer s) (sha_state s), buffer_len := 0\<rparr> else s)"

function process_blocks :: "bytes \<Rightarrow> u32 list \<Rightarrow> bytes \<times> u32 list" where
  "process_blocks data st =
     (if 64 \<le> length data then process_blocks (drop 64 data) (process_block (take 64 data) st) else (data, st))"
  by pat_completeness auto
termination by (relation "measure (\<lambda>(data, _). length data)") auto

declare process_blocks.simps [simp del]

definition sha_update :: "bytes \<Rightarrow> Sha256 \<Rightarrow> Sha256" where
  "sha_update data s =
     (let s = (if finalized s then sha_reset s else s);
          s = s\<lparr>total_len := total_len s + of_nat (length data)\<rparr>;
          (data, s) = fill_buffer data s;
          s = flush_buffer s;
          (data, st) = process_blocks data (sha_state s)
      in fold sha_push data (s\<lparr>sha_state := st\<rparr>))"

definition digest_of :: "u32 list \<Rightarrow> bytes" where
  "digest_of st = concat (map (\<lambda>w. [ucast (drop_bit 24 w), ucast (drop_bit 16 w), ucast (drop_bit 8 w), ucast w]) st)"

text \<open>Write the bit length over the last eight bytes of the buffer, most significant byte first.\<close>

definition put_bit_len :: "u64 \<Rightarrow> bytes \<Rightarrow> bytes" where
  "put_bit_len bit_len buf = put_bytes 56 (map (\<lambda>i. ucast (drop_bit (56 - 8 * i) bit_len)) [0..<8]) buf"

function pad_to_56 :: "Sha256 \<Rightarrow> Sha256" where
  "pad_to_56 s = (if buffer_len s < 56 then pad_to_56 (sha_push 0 s) else s)"
  by pat_completeness auto
termination by (relation "measure (\<lambda>s. 56 - buffer_len s)") (auto simp: sha_push_def)

declare pad_to_56.simps [simp del]

definition finish_block :: "u64 \<Rightarrow> Sha256 \<Rightarrow> Sha256" where
  "finish_block bit_len s =
     (let buf = put_bit_len bit_len (sha_buffer s)
      in s\<lparr>sha_buffer := buf, sha_state := process_block buf (sha_state s)\<rparr>)"

definition sha_finalize :: "Sha256 \<Rightarrow> bytes \<times> Sha256" where
  "sha_finalize s =
     (if finalized s then (digest_of (sha_state s), s)
      else
        let bit_len = total_len s * 8;
            s = finish_block bit_len (pad_to_56 (sha_push 0x80 s));
            s = (if 56 < buffer_len s then finish_block bit_len (pad_to_56 (s\<lparr>buffer_len := 0\<rparr>)) else s);
            s = s\<lparr>finalized := True\<rparr>
        in (digest_of (sha_state s), s))"

definition sha_compute :: "bytes \<Rightarrow> bytes \<Rightarrow> bytes" where
  "sha_compute garbage data = fst (sha_finalize (sha_update data (sha_new garbage)))"

definition hex_char :: "u8 \<Rightarrow> char" where
  "hex_char n = ''0123456789abcdef'' ! unat n"

definition to_hex :: "bytes \<Rightarrow> string" where
  "to_hex hash = concat (map (\<lambda>b. [hex_char (drop_bit 4 b), hex_char (b AND 0x0F)]) hash)"

section \<open>Random number generators\<close>

record Pcg32 =
  pcg_state :: u64
  pcg_inc :: u64

definition pcg_step :: "Pcg32 \<Rightarrow> Pcg32" where
  "pcg_step g = g\<lparr>pcg_state := pcg_state g * 6364136223846793005 + pcg_inc g\<rparr>"

definition Pcg32_new :: "u64 \<Rightarrow> u64 \<Rightarrow> Pcg32" where
  "Pcg32_new seed stream =
     (let g = pcg_step \<lparr>pcg_state = 0, pcg_inc = push_bit 1 stream OR 1\<rparr>
      in pcg_step (g\<lparr>pcg_state := pcg_state g + seed\<rparr>))"

definition pcg_next :: "Pcg32 \<Rightarrow> u32 \<times> Pcg32" where
  "pcg_next g = (let old_state = pcg_state g
     in (ucast (drop_bit 27 (drop_bit 18 old_state XOR old_state)), pcg_step g))"

text \<open>The rejection loop of \<^verbatim>\<open>next_bounded\<close>; it ends when the generator produces an acceptable value.\<close>

partial_function (option) pcg_reject :: "u32 \<Rightarrow> u32 \<Rightarrow> u64 \<Rightarrow> Pcg32 \<Rightarrow> (u64 \<times> Pcg32) option" where
  "pcg_reject bound t m g =
     (if (ucast m :: u32) < t then (let (r, g) = pcg_next g in pcg_reject bound t (ucast r * ucast bound) g)
      else Some (m, g))"

definition next_bounded :: "u32 \<Rightarrow> Pcg32 \<Rightarrow> (u32 \<times> Pcg32) option" where
  "next_bounded bound g =
     (let (r, g) = pcg_next g; m = ucast r * ucast bound :: u64; l = ucast m :: u32 in
      if l < bound then
        let t = - bound;
            t = (if bound \<le> t then let t = t - bound in if bound \<le> t then t mod bound else t else t)
        in map_option (\<lambda>(m, g). (ucast (drop_bit 32 m), g)) (pcg_reject bound t m g)
      else Some (ucast (drop_bit 32 m), g))"

record Xoroshiro128Plus =
  xs_0 :: u64
  xs_1 :: u64

definition splitmix :: "u64 \<Rightarrow> u64" where
  "splitmix z = (let z = (z XOR drop_bit 30 z) * 0xBF58476D1CE4E5B9 in (z XOR drop_bit 27 z) * 0x94D049BB133111EB)"

definition Xoroshiro128Plus_new :: "u64 \<Rightarrow> Xoroshiro128Plus" where
  "Xoroshiro128Plus_new seed =
     (let z = splitmix (seed + 0x9E3779B97F4A7C15); z' = splitmix (z + 0x9E3779B97F4A7C15)
      in \<lparr>xs_0 = z XOR drop_bit 31 z, xs_1 = z' XOR drop_bit 31 z'\<rparr>)"

definition xs_rotl :: "u64 \<Rightarrow> nat \<Rightarrow> u64" where
  "xs_rotl x k = push_bit k x OR drop_bit (64 - k) x"

definition xs_next :: "Xoroshiro128Plus \<Rightarrow> u64 \<times> Xoroshiro128Plus" where
  "xs_next g =
     (let s0 = xs_0 g; s1 = xs_1 g XOR s0
      in (s0 + xs_1 g, \<lparr>xs_0 = xs_rotl s0 55 XOR s1 XOR push_bit 14 s1, xs_1 = xs_rotl s1 36\<rparr>))"

definition xs_jump :: "Xoroshiro128Plus \<Rightarrow> Xoroshiro128Plus" where
  "xs_jump g =
     (let step = (\<lambda>set (acc0, acc1, g). (if set then acc0 XOR xs_0 g else acc0, if set then acc1 XOR xs_1 g else acc1,
            snd (xs_next g)));
          bits = concat (map (\<lambda>j. map (bit j) [0..<64]) [0xBEAC0467EBA5FACB :: u64, 0xD86B048B86AA9922]);
          (s0, s1, _) = fold step bits (0, 0, g)
      in \<lparr>xs_0 = s0, xs_1 = s1\<rparr>)"

section \<open>Hash combinator and FNV-1a\<close>

definition hash_combine :: "u64 \<Rightarrow> u64 \<Rightarrow> u64" where
  "hash_combine seed v = seed XOR (v + 0x9e3779b9 + push_bit 6 seed + drop_bit 2 seed)"

definition fnv_init :: u64 where
  "fnv_init = 14695981039346656037"

definition fnv_update :: "bytes \<Rightarrow> u64 \<Rightarrow> u64" where
  "fnv_update data h = fold (\<lambda>b h. (h XOR ucast b) * 1099511628211) data h"

lemma fnv_update_append [simp]: "fnv_update (xs @ ys) h = fnv_update ys (fnv_update xs h)"
  by (simp add: fnv_update_def)

section \<open>The hasher absorbs a stream of blocks\<close>

definition sha_wf :: "Sha256 \<Rightarrow> bool" where
  "sha_wf s \<longleftrightarrow> length (sha_buffer s) = 64 \<and> buffer_len s < 64"

text \<open>What the rest of a run depends on: the bytes not yet absorbed, the length and the chaining state.\<close>

definition pending :: "Sha256 \<Rightarrow> bytes" where
  "pending s = take (buffer_len s) (sha_buffer s)"

definition sha_view :: "Sha256 \<Rightarrow> bytes \<times> u32 list \<times> u64 \<times> bool" where
  "sha_view s = (pending s, sha_state s, total_len s, finalized s)"

lemma process_blocks_short [simp]: "length data < 64 \<Longrightarrow> process_blocks data st = (data, st)"
  by (subst process_blocks.simps) simp

lemma process_blocks_block:
  "length b = 64 \<Longrightarrow> process_blocks (b @ data) st = process_blocks data (process_block b st)"
  by (subst process_blocks.simps) simp

lemma process_blocks_append:
  "process_blocks (xs @ ys) st = (case process_blocks xs st of (rest, st') \<Rightarrow> process_blocks (rest @ ys) st')"
proof (induction xs st rule: process_blocks.induct)
  case (1 data st)
  show ?case
  proof (cases "64 \<le> length data")
    case True
    then show ?thesis
      using 1 process_blocks_block [of "take 64 data" "drop 64 data @ ys" st] process_blocks.simps [of data st]
      by (simp flip: append_assoc)
  qed simp
qed

lemma process_blocks_rest: "process_blocks data st = (rest, st') \<Longrightarrow> length rest < 64"
proof (induction data st rule: process_blocks.induct)
  case (1 data st)
  then show ?case by (cases "64 \<le> length data") (simp_all add: process_blocks.simps [of data st])
qed

lemma sha_push_simps [simp]:
  "buffer_len (sha_push b s) = Suc (buffer_len s)" "sha_state (sha_push b s) = sha_state s"
  "total_len (sha_push b s) = total_len s" "finalized (sha_push b s) = finalized s"
  "length (sha_buffer (sha_push b s)) = length (sha_buffer s)"
  by (simp_all add: sha_push_def)

lemma pending_push [simp]:
  "buffer_len s < length (sha_buffer s) \<Longrightarrow> pending (sha_push b s) = pending s @ [b]"
  by (simp add: pending_def sha_push_def take_Suc_conv_app_nth)

lemma fold_sha_push:
  "buffer_len s + length data \<le> length (sha_buffer s) \<Longrightarrow>
     pending (fold sha_push data s) = pending s @ data
   \<and> buffer_len (fold sha_push data s) = buffer_len s + length data
   \<and> sha_state (fold sha_push data s) = sha_state s \<and> total_len (fold sha_push data s) = total_len s
   \<and> finalized (fold sha_push data s) = finalized s
   \<and> length (sha_buffer (fold sha_push data s)) = length (sha_buffer s)"
  by (induction data arbitrary: s) simp_all

lemma fill_buffer_eq:
  "length (sha_buffer s) = 64 \<Longrightarrow> fill_buffer data s =
     (drop (64 - buffer_len s) data, fold sha_push (take (64 - buffer_len s) data) s)"
proof (induction data arbitrary: s)
  case (Cons b data)
  show ?case
  proof (cases "buffer_len s < 64")
    case True
    then obtain k where "64 - buffer_len s = Suc k" "k = 64 - Suc (buffer_len s)" by (metis Suc_diff_Suc)
    then show ?thesis using Cons True by simp
  qed simp
qed simp

text \<open>One call absorbs the pending bytes and the new ones, block by block.\<close>

lemma sha_update_view:
  assumes "sha_wf s" "\<not> finalized s"
  shows "process_blocks (pending s @ data) (sha_state s) = (pending (sha_update data s), sha_state (sha_update data s))
    \<and> total_len (sha_update data s) = total_len s + of_nat (length data)
    \<and> \<not> finalized (sha_update data s) \<and> sha_wf (sha_update data s)"
proof -
  let ?s = "s\<lparr>total_len := total_len s + of_nat (length data)\<rparr>" and ?k = "64 - buffer_len s"
  define f where "f = fold sha_push (take ?k data) ?s"
  have wf: "length (sha_buffer s) = 64" "buffer_len s < 64" using assms by (simp_all add: sha_wf_def)
  have p: "pending ?s = pending s" by (simp add: pending_def)
  have f: "pending f = pending s @ take ?k data" "buffer_len f = buffer_len s + length (take ?k data)"
    "sha_state f = sha_state s" "total_len f = total_len s + of_nat (length data)" "\<not> finalized f"
    "length (sha_buffer f) = 64"
    using fold_sha_push [of ?s "take ?k data"] wf p assms(2) by (simp_all add: f_def)
  have u: "sha_update data s = (case process_blocks (drop ?k data) (sha_state (flush_buffer f)) of
      (rest, st) \<Rightarrow> fold sha_push rest ((flush_buffer f)\<lparr>sha_state := st\<rparr>))"
    using assms(2) wf by (simp add: sha_update_def fill_buffer_eq f_def Let_def)
  show ?thesis
  proof (cases "?k \<le> length data")
    case False
    then have "flush_buffer f = f" "drop ?k data = []" using f wf by (simp_all add: flush_buffer_def)
    then have "sha_update data s = f" using u by simp
    then show ?thesis using f False wf by (simp add: sha_wf_def pending_def [of s])
  next
    case True
    then have l: "buffer_len f = 64" using f(2) wf by simp
    then have b: "sha_buffer f = pending s @ take ?k data" using f(1,6) by (simp add: pending_def [of f])
    have fl: "flush_buffer f = f\<lparr>sha_state := process_block (pending s @ take ?k data) (sha_state s), buffer_len := 0\<rparr>"
      using l b f(3) by (simp add: flush_buffer_def)
    obtain rest st where pb: "process_blocks (drop ?k data) (process_block (pending s @ take ?k data) (sha_state s)) = (rest, st)"
      by fastforce
    have r: "length rest < 64" using process_blocks_rest [OF pb] .
    have "length (pending s @ take ?k data) = 64" using f(6) b by simp
    then have "process_blocks (pending s @ data) (sha_state s) = (rest, st)"
      using pb process_blocks_block [of "pending s @ take ?k data" "drop ?k data"] by simp
    moreover have "pending (f\<lparr>buffer_len := 0, sha_state := st\<rparr>) = []" by (simp add: pending_def)
    ultimately show ?thesis
      using u pb r f fl fold_sha_push [of "f\<lparr>buffer_len := 0, sha_state := st\<rparr>" rest]
      by (simp add: sha_wf_def)
  qed
qed

lemma sha_update_append:
  assumes "sha_wf s" "\<not> finalized s"
  shows "sha_view (sha_update ys (sha_update xs s)) = sha_view (sha_update (xs @ ys) s)"
proof -
  note 1 = sha_update_view [OF assms, of xs] and 2 = sha_update_view [OF assms, of "xs @ ys"]
  have "process_blocks (pending s @ xs @ ys) (sha_state s)
      = process_blocks (pending (sha_update xs s) @ ys) (sha_state (sha_update xs s))"
    using process_blocks_append [of "pending s @ xs" ys "sha_state s"] 1 by simp
  then show ?thesis using 1 2 sha_update_view [of "sha_update xs s" ys] by (simp add: sha_view_def)
qed

lemma sha_new_simps [simp]:
  "pending (sha_new g) = []" "sha_state (sha_new g) = sha_H0" "total_len (sha_new g) = 0" "\<not> finalized (sha_new g)"
  "length g = 64 \<Longrightarrow> sha_wf (sha_new g)"
  by (simp_all add: sha_new_def pending_def sha_wf_def)

lemma sha_update_chunks:
  assumes "length g = 64"
  shows "sha_view (fold sha_update chunks (sha_new g)) = sha_view (sha_update (concat chunks) (sha_new g))
    \<and> sha_wf (fold sha_update chunks (sha_new g)) \<and> \<not> finalized (fold sha_update chunks (sha_new g))"
proof (induction chunks rule: rev_induct)
  case Nil
  then show ?case using assms sha_update_view [of "sha_new g" "[]"] by (simp add: sha_view_def)
next
  case (snoc c chunks)
  let ?s = "fold sha_update chunks (sha_new g)" and ?t = "sha_update (concat chunks) (sha_new g)"
  have wf: "sha_wf ?s" "\<not> finalized ?s" "sha_wf ?t" "\<not> finalized ?t"
    using snoc assms sha_update_view [of "sha_new g" "concat chunks"] by simp_all
  have "sha_view (sha_update c ?s) = sha_view (sha_update c ?t)"
    using snoc sha_update_view [OF wf(1,2), of c] sha_update_view [OF wf(3,4), of c] by (simp add: sha_view_def)
  then show ?case
    using sha_update_append [of "sha_new g" c "concat chunks"] sha_update_view [OF wf(1,2), of c] assms by simp
qed

section \<open>Padding\<close>

definition final_block :: "bytes \<Rightarrow> u64 \<Rightarrow> bytes" where
  "final_block p bit_len = take 56 (p @ replicate (56 - length p) 0) @ be_bytes 8 bit_len"

definition final_state :: "bytes \<times> u32 list \<times> u64 \<times> bool \<Rightarrow> u32 list" where
  "final_state = (\<lambda>(p, st, n, _).
     let st = process_block (final_block (p @ [0x80]) (n * 8)) st
     in if 55 < length p then process_block (final_block [] (n * 8)) st else st)"

lemma put_bit_len_eq: "put_bit_len n buf = put_bytes 56 (be_bytes 8 n) buf"
proof -
  have "map (\<lambda>i. ucast (drop_bit (56 - 8 * i) n)) [0..<8] = be_bytes 8 n"
    by (simp add: be_bytes_def le_bytes_def rev_map numeral_eq_Suc)
  then show ?thesis by (simp add: put_bit_len_def)
qed

lemma pad_to_56_eq:
  "length (sha_buffer s) = 64 \<Longrightarrow> pad_to_56 s = fold sha_push (replicate (56 - buffer_len s) 0) s"
proof (induction s rule: pad_to_56.induct)
  case (1 s)
  show ?case
  proof (cases "buffer_len s < 56")
    case True
    then obtain k where "56 - buffer_len s = Suc k" "k = 56 - Suc (buffer_len s)" by (metis Suc_diff_Suc)
    then show ?thesis using 1 True by (subst pad_to_56.simps) simp
  qed (subst pad_to_56.simps, simp)
qed

lemma finish_block_pad:
  assumes "length (sha_buffer s) = 64" "buffer_len s \<le> 64"
  shows "sha_state (finish_block n (pad_to_56 s)) = process_block (final_block (pending s) n) (sha_state s)
    \<and> buffer_len (finish_block n (pad_to_56 s)) = max 56 (buffer_len s)
    \<and> length (sha_buffer (finish_block n (pad_to_56 s))) = 64"
proof -
  let ?z = "replicate (56 - buffer_len s) 0" and ?p = "pad_to_56 s"
  have p: "pending ?p = pending s @ ?z" "buffer_len ?p = max 56 (buffer_len s)"
    "sha_state ?p = sha_state s" "length (sha_buffer ?p) = 64"
    using assms fold_sha_push [of s ?z] by (simp_all add: pad_to_56_eq)
  have "take 56 (sha_buffer ?p) = take 56 (pending ?p)" using p(2) by (simp add: pending_def min_def)
  moreover have "length (pending s) = buffer_len s" using assms by (simp add: pending_def)
  ultimately have "put_bit_len n (sha_buffer ?p) = final_block (pending s) n"
    using p(1,4) by (simp add: put_bit_len_eq put_bytes_def final_block_def)
  moreover have "length (put_bit_len n (sha_buffer ?p)) = 64" using p(4) by (simp add: put_bit_len_eq)
  ultimately show ?thesis using p by (simp add: finish_block_def Let_def)
qed

lemma sha_finalize_view:
  assumes "sha_wf s" "\<not> finalized s"
  shows "fst (sha_finalize s) = digest_of (final_state (sha_view s))"
proof -
  have wf: "length (sha_buffer s) = 64" "buffer_len s < 64" "length (pending s) = buffer_len s"
    using assms by (simp_all add: sha_wf_def pending_def)
  define f where "f = finish_block (total_len s * 8) (pad_to_56 (sha_push 0x80 s))"
  have f: "sha_state f = process_block (final_block (pending s @ [0x80]) (total_len s * 8)) (sha_state s)"
    "buffer_len f = max 56 (Suc (buffer_len s))" "length (sha_buffer f) = 64"
    using finish_block_pad [of "sha_push 0x80 s" "total_len s * 8"] wf by (simp_all add: f_def)
  have "sha_state (finish_block n (pad_to_56 (f\<lparr>buffer_len := 0\<rparr>))) = process_block (final_block [] n) (sha_state f)" for n
    using finish_block_pad [of "f\<lparr>buffer_len := 0\<rparr>" n] f(3) by (simp add: pending_def)
  then show ?thesis
    using assms(2) f wf(3) by (simp add: sha_finalize_def f_def [symmetric] final_state_def sha_view_def Let_def)
qed

text \<open>The padding of FIPS 180-4: a one bit, zeros up to 56 modulo 64 bytes, the length in bits.\<close>

definition fips_pad :: "bytes \<Rightarrow> bytes" where
  "fips_pad m = m @ 0x80 # replicate ((119 - length m mod 64) mod 64) 0 @ be_bytes 8 (of_nat (length m) * 8 :: u64)"

lemma sha_compute_fips:
  assumes "length g = 64" "length m mod 64 < 56"
  shows "sha_compute g m = digest_of (snd (process_blocks (fips_pad m) sha_H0))"
proof -
  note u = sha_update_view [of "sha_new g" m]
  let ?s = "sha_update m (sha_new g)" and ?n = "of_nat (length m) * 8 :: u64"
  have s: "process_blocks m sha_H0 = (pending ?s, sha_state ?s)" "sha_wf ?s" "\<not> finalized ?s" "total_len ?s = of_nat (length m)"
    using u assms(1) by simp_all
  have "length rest mod 64 = length data mod 64" if "process_blocks data st = (rest, st')" for data st rest st'
    using that
  proof (induction data st rule: process_blocks.induct)
    case (1 data st)
    show ?case
    proof (cases "64 \<le> length data")
      case True
      then have "length (drop 64 data) mod 64 = length data mod 64" by (simp add: le_mod_geq)
      then show ?thesis using 1 True by (simp add: process_blocks.simps [of data st])
    qed (use 1 in simp)
  qed
  from this [OF s(1)] process_blocks_rest [OF s(1)] have l: "length (pending ?s) = length m mod 64" by simp
  have z: "(119 - length m mod 64) mod 64 = 55 - length m mod 64"
    using assms(2) by (simp add: le_mod_geq)
  have "process_blocks (fips_pad m) sha_H0 =
      process_blocks (pending ?s @ 0x80 # replicate (55 - length m mod 64) 0 @ be_bytes 8 ?n) (sha_state ?s)"
    using process_blocks_append [of m _ sha_H0] s(1) by (simp add: fips_pad_def z)
  also have "pending ?s @ 0x80 # replicate (55 - length m mod 64) 0 @ be_bytes 8 ?n = final_block (pending ?s @ [0x80]) ?n"
    using l assms(2) by (simp add: final_block_def)
  also have "process_blocks \<dots> (sha_state ?s) = ([], process_block (final_block (pending ?s @ [0x80]) ?n) (sha_state ?s))"
    using process_blocks_block [of "final_block (pending ?s @ [0x80]) ?n" "[]" "sha_state ?s"] l assms(2)
    by (simp add: final_block_def)
  finally show ?thesis
    using sha_finalize_view [OF s(2,3)] s(4) l assms(2)
    by (simp add: sha_compute_def final_state_def sha_view_def)
qed

section \<open>Bounded random numbers\<close>

lemma high_product_less:
  fixes r bound :: u32
  assumes "0 < bound"
  shows "(ucast (drop_bit 32 (ucast r * ucast bound :: u64)) :: u32) < bound"
proof -
  have r: "unat r < 2 ^ 32" and b: "unat bound < 2 ^ 32"
    using unat_lt_pow [of bound] unat_lt_pow [of "r :: u32"] by simp_all
  then have "unat r * unat bound < 2 ^ 32 * 2 ^ 32" by (intro mult_strict_mono) simp_all
  moreover have "take_bit 64 (unat r) = unat r" "take_bit 64 (unat bound) = unat bound"
    using r b by (simp_all add: take_bit_nat_eq_self)
  ultimately have m: "unat (ucast r * ucast bound :: u64) = unat r * unat bound"
    by (simp add: unat_word_ariths unsigned_ucast_eq)
  have "unat r * unat bound < unat bound * 2 ^ 32" using r assms by (simp add: word_less_nat_alt)
  then have "unat (drop_bit 32 (ucast r * ucast bound :: u64)) < unat bound"
    unfolding unat_drop_bit m by (simp add: div_less_iff_less_mult)
  then show ?thesis using b by (simp add: word_less_nat_alt unsigned_ucast_eq take_bit_nat_eq_self)
qed

lemma pcg_reject_less:
  assumes "pcg_reject bound t m g = Some res"
  shows "0 < bound \<longrightarrow> (\<exists>r :: u32. m = ucast r * ucast bound) \<longrightarrow> (ucast (drop_bit 32 (fst res)) :: u32) < bound"
proof (rule pcg_reject.raw_induct [where P = "\<lambda>bound t m g res. 0 < bound \<longrightarrow>
    (\<exists>r :: u32. m = ucast r * ucast bound) \<longrightarrow> (ucast (drop_bit 32 (fst res)) :: u32) < bound"])
  show "pcg_reject bound t m g = Some res" by (rule assms)
qed (fastforce simp: high_product_less split: if_splits prod.splits)

lemma next_bounded_less:
  assumes "next_bounded bound g = Some (v, g')" "0 < bound"
  shows "v < bound"
proof -
  obtain r g1 where n: "pcg_next g = (r, g1)" by fastforce
  have "pcg_reject bound t (ucast r * ucast bound) g1 = Some (m, g2) \<Longrightarrow> (ucast (drop_bit 32 m) :: u32) < bound" for t m g2
    using pcg_reject_less [of bound t "ucast r * ucast bound" g1 "(m, g2)"] assms(2) by auto
  then show ?thesis
    using assms n high_product_less [of bound r] by (auto simp: next_bounded_def Let_def split: if_splits)
qed

section \<open>Properties\<close>

text \<open>
  C34. SHA-256 does not depend on how the input is cut: feeding any chunks one after the other and
  finalizing gives the digest of the concatenation, whatever the uninitialised buffer held. When the
  length modulo 64 is below 56 it is the digest of the message padded as FIPS 180-4 says.
\<close>

theorem sha256_streaming:
  assumes "length g = 64" "length g' = 64"
  shows "fst (sha_finalize (fold sha_update chunks (sha_new g))) = sha_compute g' (concat chunks)
    \<and> (length (concat chunks) mod 64 < 56 \<longrightarrow>
        sha_compute g' (concat chunks) = digest_of (snd (process_blocks (fips_pad (concat chunks)) sha_H0)))"
proof -
  have "sha_view (sha_update m (sha_new g)) = sha_view (sha_update m (sha_new g'))" for m
    using sha_update_view [of "sha_new g" m] sha_update_view [of "sha_new g'" m] assms by (simp add: sha_view_def)
  then have "fst (sha_finalize (fold sha_update chunks (sha_new g))) = sha_compute g' (concat chunks)"
    using sha_update_chunks [OF assms(1), of chunks] sha_update_view [of "sha_new g'" "concat chunks"] assms(2)
    by (simp add: sha_finalize_view sha_compute_def)
  then show ?thesis using sha_compute_fips [OF assms(2)] by blast
qed

theorem sha256_streaming_witness:
  "fst (sha_finalize (sha_update [3] (sha_update [1, 2] (sha_new (replicate 64 7)))))
     = digest_of (snd (process_blocks (fips_pad [1, 2, 3]) sha_H0))"
  using sha256_streaming [of "replicate 64 7" "replicate 64 0" "[[1, 2], [3]]"] by simp

end
