(* ===== verification/Segment_Format.thy ===== *)
theory Segment_Format
  imports Hashing Endian Crc32c Event_Model
begin

text \<open>
  Model of \<^verbatim>\<open>include/vectortick/storage/file_format.hpp\<close>: the structures of a VTS1 segment file as
  records, with their object representation on a little-endian host (the code copies them with
  \<^verbatim>\<open>memcpy\<close>), the schema hash and the parameters of the Bloom filter. A reserved array is one wide
  word.
\<close>

section \<open>Structures\<close>

record SegmentHeader =
  sh_magic :: u32
  sh_version :: u32
  sh_schema_hash :: u64
  sh_segment_id :: u64
  sh_row_count :: u64
  sh_min_timestamp :: u64
  sh_max_timestamp :: u64
  sh_descriptor_offset :: u32
  sh_descriptor_size :: u32
  sh_zone_map_offset :: u32
  sh_bloom_filter_offset :: u32
  sh_bloom_filter_size :: u32
  sh_footer_offset :: u32
  sh_reserved :: "416 word"
  sh_header_crc :: u32

abbreviation ColU64 :: u8 where "ColU64 \<equiv> 0"
abbreviation ColI64 :: u8 where "ColI64 \<equiv> 1"
abbreviation ColU32 :: u8 where "ColU32 \<equiv> 2"
abbreviation ColU16 :: u8 where "ColU16 \<equiv> 3"
abbreviation ColU8 :: u8 where "ColU8 \<equiv> 4"

abbreviation EncRaw :: u8 where "EncRaw \<equiv> 0"
abbreviation EncBitPacked :: u8 where "EncBitPacked \<equiv> 2"
abbreviation EncDelta :: u8 where "EncDelta \<equiv> 3"
abbreviation EncRLE :: u8 where "EncRLE \<equiv> 5"

record ColumnDescriptor =
  cd_column_id :: u32
  cd_type :: u8
  cd_encoding :: u8
  cd_bits_per_value :: u8
  cd_reserved1 :: u8
  cd_offset :: u64
  cd_compressed_size :: u64
  cd_uncompressed_size :: u64
  cd_min_value :: u64
  cd_max_value :: u64
  cd_null_count :: u32
  cd_data_crc :: u32
  cd_reserved2 :: u32
  cd_descriptor_crc :: u32

record ZoneMap =
  zm_min_value :: u64
  zm_max_value :: u64
  zm_sum_value :: u64
  zm_row_count :: u32
  zm_null_count :: u32
  zm_first_row_idx :: u32
  zm_last_row_idx :: u32
  zm_reserved :: "192 word"

record SegmentFooter =
  sf_magic :: u32
  sf_version :: u32
  sf_total_size :: u64
  sf_descriptor_table_hash :: u64
  sf_segment_digest :: u64
  sf_commit_marker :: u64
  sf_create_timestamp :: u64
  sf_min_sequence :: u64
  sf_max_sequence :: u64
  sf_row_count :: u32
  sf_column_count :: u32
  sf_reserved :: "416 word"
  sf_footer_crc :: u32

definition VTS1_magic :: u32 where "VTS1_magic = 0x56545331"
definition VTS1_version :: u32 where "VTS1_version = 1"
definition CommittedMarker :: u64 where "CommittedMarker = 0xDEADBEEFCAFEBABE"

definition ColumnCount :: nat where "ColumnCount = 12"

section \<open>Object representation\<close>

definition header_bytes :: "SegmentHeader \<Rightarrow> bytes" where
  "header_bytes h = le_bytes 4 (sh_magic h) @ le_bytes 4 (sh_version h) @ le_bytes 8 (sh_schema_hash h)
     @ le_bytes 8 (sh_segment_id h) @ le_bytes 8 (sh_row_count h) @ le_bytes 8 (sh_min_timestamp h)
     @ le_bytes 8 (sh_max_timestamp h) @ le_bytes 4 (sh_descriptor_offset h) @ le_bytes 4 (sh_descriptor_size h)
     @ le_bytes 4 (sh_zone_map_offset h) @ le_bytes 4 (sh_bloom_filter_offset h)
     @ le_bytes 4 (sh_bloom_filter_size h) @ le_bytes 4 (sh_footer_offset h) @ le_bytes 52 (sh_reserved h)
     @ le_bytes 4 (sh_header_crc h)"

definition header_of_bytes :: "bytes \<Rightarrow> SegmentHeader" where
  "header_of_bytes b = \<lparr>sh_magic = le_word (get_bytes 0 4 b), sh_version = le_word (get_bytes 4 4 b),
     sh_schema_hash = le_word (get_bytes 8 8 b), sh_segment_id = le_word (get_bytes 16 8 b),
     sh_row_count = le_word (get_bytes 24 8 b), sh_min_timestamp = le_word (get_bytes 32 8 b),
     sh_max_timestamp = le_word (get_bytes 40 8 b), sh_descriptor_offset = le_word (get_bytes 48 4 b),
     sh_descriptor_size = le_word (get_bytes 52 4 b), sh_zone_map_offset = le_word (get_bytes 56 4 b),
     sh_bloom_filter_offset = le_word (get_bytes 60 4 b), sh_bloom_filter_size = le_word (get_bytes 64 4 b),
     sh_footer_offset = le_word (get_bytes 68 4 b), sh_reserved = le_word (get_bytes 72 52 b),
     sh_header_crc = le_word (get_bytes 124 4 b)\<rparr>"

definition descriptor_bytes :: "ColumnDescriptor \<Rightarrow> bytes" where
  "descriptor_bytes d = le_bytes 4 (cd_column_id d) @ le_bytes 1 (cd_type d) @ le_bytes 1 (cd_encoding d)
     @ le_bytes 1 (cd_bits_per_value d) @ le_bytes 1 (cd_reserved1 d) @ le_bytes 8 (cd_offset d)
     @ le_bytes 8 (cd_compressed_size d) @ le_bytes 8 (cd_uncompressed_size d) @ le_bytes 8 (cd_min_value d)
     @ le_bytes 8 (cd_max_value d) @ le_bytes 4 (cd_null_count d) @ le_bytes 4 (cd_data_crc d)
     @ le_bytes 4 (cd_reserved2 d) @ le_bytes 4 (cd_descriptor_crc d)"

definition descriptor_of_bytes :: "bytes \<Rightarrow> ColumnDescriptor" where
  "descriptor_of_bytes b = \<lparr>cd_column_id = le_word (get_bytes 0 4 b), cd_type = le_word (get_bytes 4 1 b),
     cd_encoding = le_word (get_bytes 5 1 b), cd_bits_per_value = le_word (get_bytes 6 1 b),
     cd_reserved1 = le_word (get_bytes 7 1 b), cd_offset = le_word (get_bytes 8 8 b),
     cd_compressed_size = le_word (get_bytes 16 8 b), cd_uncompressed_size = le_word (get_bytes 24 8 b),
     cd_min_value = le_word (get_bytes 32 8 b), cd_max_value = le_word (get_bytes 40 8 b),
     cd_null_count = le_word (get_bytes 48 4 b), cd_data_crc = le_word (get_bytes 52 4 b),
     cd_reserved2 = le_word (get_bytes 56 4 b), cd_descriptor_crc = le_word (get_bytes 60 4 b)\<rparr>"

definition zone_bytes :: "ZoneMap \<Rightarrow> bytes" where
  "zone_bytes z = le_bytes 8 (zm_min_value z) @ le_bytes 8 (zm_max_value z) @ le_bytes 8 (zm_sum_value z)
     @ le_bytes 4 (zm_row_count z) @ le_bytes 4 (zm_null_count z) @ le_bytes 4 (zm_first_row_idx z)
     @ le_bytes 4 (zm_last_row_idx z) @ le_bytes 24 (zm_reserved z)"

definition zone_of_bytes :: "bytes \<Rightarrow> ZoneMap" where
  "zone_of_bytes b = \<lparr>zm_min_value = le_word (get_bytes 0 8 b), zm_max_value = le_word (get_bytes 8 8 b),
     zm_sum_value = le_word (get_bytes 16 8 b), zm_row_count = le_word (get_bytes 24 4 b),
     zm_null_count = le_word (get_bytes 28 4 b), zm_first_row_idx = le_word (get_bytes 32 4 b),
     zm_last_row_idx = le_word (get_bytes 36 4 b), zm_reserved = le_word (get_bytes 40 24 b)\<rparr>"

definition footer_bytes :: "SegmentFooter \<Rightarrow> bytes" where
  "footer_bytes f = le_bytes 4 (sf_magic f) @ le_bytes 4 (sf_version f) @ le_bytes 8 (sf_total_size f)
     @ le_bytes 8 (sf_descriptor_table_hash f) @ le_bytes 8 (sf_segment_digest f) @ le_bytes 8 (sf_commit_marker f)
     @ le_bytes 8 (sf_create_timestamp f) @ le_bytes 8 (sf_min_sequence f) @ le_bytes 8 (sf_max_sequence f)
     @ le_bytes 4 (sf_row_count f) @ le_bytes 4 (sf_column_count f) @ le_bytes 52 (sf_reserved f)
     @ le_bytes 4 (sf_footer_crc f)"

definition footer_of_bytes :: "bytes \<Rightarrow> SegmentFooter" where
  "footer_of_bytes b = \<lparr>sf_magic = le_word (get_bytes 0 4 b), sf_version = le_word (get_bytes 4 4 b),
     sf_total_size = le_word (get_bytes 8 8 b), sf_descriptor_table_hash = le_word (get_bytes 16 8 b),
     sf_segment_digest = le_word (get_bytes 24 8 b), sf_commit_marker = le_word (get_bytes 32 8 b),
     sf_create_timestamp = le_word (get_bytes 40 8 b), sf_min_sequence = le_word (get_bytes 48 8 b),
     sf_max_sequence = le_word (get_bytes 56 8 b), sf_row_count = le_word (get_bytes 64 4 b),
     sf_column_count = le_word (get_bytes 68 4 b), sf_reserved = le_word (get_bytes 72 52 b),
     sf_footer_crc = le_word (get_bytes 124 4 b)\<rparr>"

lemma length_struct_bytes [simp]:
  "length (header_bytes h) = 128" "length (descriptor_bytes d) = 64"
  "length (zone_bytes z) = 64" "length (footer_bytes f) = 128"
  by (simp_all add: header_bytes_def descriptor_bytes_def zone_bytes_def footer_bytes_def)

interpretation header_codec: byte_codec 128 header_bytes header_of_bytes
  by unfold_locales (simp_all add: header_bytes_def header_of_bytes_def get_bytes_def)

interpretation descriptor_codec: byte_codec 64 descriptor_bytes descriptor_of_bytes
  by unfold_locales (simp_all add: descriptor_bytes_def descriptor_of_bytes_def get_bytes_def)

interpretation zone_codec: byte_codec 64 zone_bytes zone_of_bytes
  by unfold_locales (simp_all add: zone_bytes_def zone_of_bytes_def get_bytes_def)

interpretation footer_codec: byte_codec 128 footer_bytes footer_of_bytes
  by unfold_locales (simp_all add: footer_bytes_def footer_of_bytes_def get_bytes_def)

text \<open>The checksum fields come last, so a checksum that leaves them out covers every other field.\<close>

lemma descriptor_bytes_crc: "take 60 (descriptor_bytes (d\<lparr>cd_descriptor_crc := c\<rparr>)) = take 60 (descriptor_bytes d)"
  by (simp add: descriptor_bytes_def)

lemma footer_bytes_crc: "take 124 (footer_bytes (f\<lparr>sf_footer_crc := c\<rparr>)) = take 124 (footer_bytes f)"
  by (simp add: footer_bytes_def)

section \<open>Schema\<close>

definition get_column_type :: "nat \<Rightarrow> u8" where
  "get_column_type col =
     (if col \<in> {0, 1, 2, 11} then ColU64 else if col \<in> {3, 8} then ColU32 else if col \<in> {4, 5} then ColU8
      else if col \<in> {6, 9, 10} then ColU16 else if col = 7 then ColI64 else ColU64)"

definition get_column_name :: "nat \<Rightarrow> string" where
  "get_column_name col =
     (if col < 12 then [''exchange_ts_ns'', ''receive_ts_ns'', ''sequence'', ''instrument_id'', ''event_type'', ''side'',
        ''flags'', ''price_ticks'', ''quantity'', ''venue_id'', ''source_id'', ''trade_or_order_id''] ! col
      else ''unknown'')"

definition compute_canonical_schema_hash :: u64 where
  "compute_canonical_schema_hash =
     fold (\<lambda>i h. fnv_update [get_column_type i]
        (fnv_update (map of_char (get_column_name i)) (fnv_update (le_bytes 4 (of_nat i :: u32)) h)))
      [0..<ColumnCount] fnv_init"

section \<open>Bloom filter\<close>

record BloomFilterParams =
  num_bits :: nat
  num_hashes :: nat
  size_bytes :: nat

function bloom_bits_loop :: "nat \<Rightarrow> nat \<Rightarrow> nat" where
  "bloom_bits_loop wanted bits = (if 0 < bits \<and> bits < wanted then bloom_bits_loop wanted (2 * bits) else bits)"
  by pat_completeness auto
termination by (relation "measure (\<lambda>(w, b). w - b)") auto

declare bloom_bits_loop.simps [simp del]

definition for_items :: "nat \<Rightarrow> nat \<Rightarrow> BloomFilterParams" where
  "for_items num_items bits_per_item =
     (let bits = bloom_bits_loop (num_items * bits_per_item) 1
      in \<lparr>num_bits = bits, num_hashes = 7, size_bytes = bits div 8\<rparr>)"

definition bloom_hash :: "u32 \<Rightarrow> u64" where
  "bloom_hash inst_id = ucast inst_id * 14695981039346656037"

definition bloom_index :: "nat \<Rightarrow> u32 \<Rightarrow> nat \<Rightarrow> nat" where
  "bloom_index bits inst_id h = unat (bloom_hash inst_id + of_nat (h * h)) mod bits"

definition bloom_set :: "nat \<Rightarrow> bytes \<Rightarrow> bytes" where
  "bloom_set bit_idx bf =
     bf[bit_idx div 8 := bf ! (bit_idx div 8) OR push_bit (bit_idx mod 8) 1]"

definition bloom_add :: "BloomFilterParams \<Rightarrow> u32 \<Rightarrow> bytes \<Rightarrow> bytes" where
  "bloom_add params inst_id bf =
     fold (\<lambda>h. bloom_set (bloom_index (num_bits params) inst_id h)) [0..<num_hashes params] bf"

definition bloom_build :: "u32 list \<Rightarrow> bytes" where
  "bloom_build ids = (let params = for_items (length ids) 10
     in fold (bloom_add params) ids (replicate (size_bytes params) 0))"

definition bloom_test :: "bytes \<Rightarrow> u32 \<Rightarrow> bool" where
  "bloom_test bf inst_id =
     (bf = [] \<or> list_all (\<lambda>h. let bit_idx = bloom_index (length bf * 8) inst_id h
        in bf ! (bit_idx div 8) AND push_bit (bit_idx mod 8) 1 \<noteq> 0) [0..<7])"

text \<open>Setting a bit never clears another one, so every inserted key is found.\<close>

definition bloom_has :: "bytes \<Rightarrow> nat \<Rightarrow> bool" where
  "bloom_has bf k = bit (bf ! (k div 8)) (k mod 8)"

lemma bloom_has_and: "bf ! (k div 8) AND push_bit (k mod 8) 1 \<noteq> 0 \<longleftrightarrow> bloom_has bf k" for k :: nat
  unfolding bloom_has_def bit_iff_and_push_bit_not_eq_0 ..

lemma length_bloom_set [simp]: "length (bloom_set k f) = length f"
  by (simp add: bloom_set_def)

lemma bloom_set_has: "k div 8 < length f \<Longrightarrow> bloom_has (bloom_set k f) j \<longleftrightarrow> j = k \<or> bloom_has f j"
proof -
  assume k: "k div 8 < length f"
  have b: "bit (push_bit (k mod 8) 1 :: u8) i \<longleftrightarrow> i = k mod 8" for i
    using mod_less_divisor [of 8 k] by (simp only: bit_simps) auto
  have "j = k \<longleftrightarrow> j div 8 = k div 8 \<and> j mod 8 = k mod 8" by (metis div_mult_mod_eq)
  then show ?thesis using k b by (auto simp: bloom_has_def bloom_set_def nth_list_update bit_or_iff)
qed

lemma fold_bloom_set_has:
  "\<forall>k\<in>set ks. k div 8 < length f \<Longrightarrow> bloom_has (fold bloom_set ks f) j \<longleftrightarrow> j \<in> set ks \<or> bloom_has f j"
  by (induction ks arbitrary: f) (auto simp: bloom_set_has)

lemma length_fold_bloom_set [simp]: "length (fold bloom_set ks f) = length f"
  by (induction ks arbitrary: f) simp_all

lemma bloom_add_eq: "bloom_add p i f = fold bloom_set (map (bloom_index (num_bits p) i) [0..<num_hashes p]) f"
  by (simp add: bloom_add_def fold_map comp_def)

lemma fold_bloom_add:
  "fold (bloom_add p) ids f = fold bloom_set (concat (map (\<lambda>i. map (bloom_index (num_bits p) i) [0..<num_hashes p]) ids)) f"
  by (induction ids arbitrary: f) (simp_all add: bloom_add_eq)

lemma bloom_bits_loop_pow: "\<exists>k. n \<le> k \<and> bloom_bits_loop w (2 ^ n) = 2 ^ k \<and> w \<le> 2 ^ k \<and> (n < k \<longrightarrow> 2 ^ k < 2 * w)"
proof (induction "w - 2 ^ n" arbitrary: n rule: less_induct)
  case less
  show ?case
  proof (cases "2 ^ n < w")
    case True
    moreover have "(0::nat) < 2 ^ n" by simp
    ultimately have "w - 2 ^ Suc n < w - 2 ^ n" unfolding power_Suc by linarith
    from less [OF this] obtain k where "Suc n \<le> k" "bloom_bits_loop w (2 ^ Suc n) = 2 ^ k" "w \<le> 2 ^ k"
      "Suc n < k \<longrightarrow> 2 ^ k < 2 * w" by blast
    moreover from this True have "2 ^ k < 2 * w" by (cases "k = Suc n") auto
    ultimately show ?thesis using True by (subst bloom_bits_loop.simps) (auto intro!: exI [of _ k])
  next
    case False
    then show ?thesis by (subst bloom_bits_loop.simps) auto
  qed
qed

lemma for_items_size:
  assumes "0 < n"
  shows "num_bits (for_items n 10) = 8 * size_bytes (for_items n 10)" "0 < size_bytes (for_items n 10)"
    "2 * size_bytes (for_items n 10) \<le> 5 * n"
proof -
  obtain k where k: "bloom_bits_loop (n * 10) 1 = 2 ^ k" "n * 10 \<le> 2 ^ k" "0 < k \<longrightarrow> 2 ^ k < 2 * (n * 10)"
    using bloom_bits_loop_pow [of 0 "n * 10"] by auto
  have "\<not> k < 4"
  proof
    assume "k < 4"
    then have "(2::nat) ^ k \<le> 2 ^ 3" by (intro power_increasing) simp_all
    then show False using k(2) assms by simp
  qed
  then obtain j where j: "k = 4 + j" by (metis le_Suc_ex not_less)
  show "num_bits (for_items n 10) = 8 * size_bytes (for_items n 10)" "0 < size_bytes (for_items n 10)"
    "2 * size_bytes (for_items n 10) \<le> 5 * n"
    using k j by (simp_all add: for_items_def power_add)
qed

lemma bloom_complete:
  assumes "ids \<noteq> []" "i \<in> set ids"
  shows "bloom_test (bloom_build ids) i"
proof -
  let ?p = "for_items (length ids) 10" and ?z = "replicate (size_bytes (for_items (length ids) 10)) 0 :: bytes"
  have n: "0 < length ids" using assms(1) by simp
  note s = for_items_size [OF n]
  let ?ks = "concat (map (\<lambda>i. map (bloom_index (num_bits ?p) i) [0..<num_hashes ?p]) ids)"
  have b: "bloom_build ids = fold bloom_set ?ks ?z" by (simp add: bloom_build_def fold_bloom_add Let_def)
  then have len: "length (bloom_build ids) = size_bytes ?p" by simp
  have "k div 8 < size_bytes ?p" if "k \<in> set ?ks" for k
  proof -
    have "k < 8 * size_bytes ?p" using that s by (auto simp: bloom_index_def)
    then show ?thesis by (simp add: less_mult_imp_div_less mult.commute)
  qed
  then have "bloom_has (bloom_build ids) k" if "k \<in> set ?ks" for k
    using that by (subst b, subst fold_bloom_set_has) auto
  moreover have "bloom_index (length (bloom_build ids) * 8) i h \<in> set ?ks" if "h < 7" for h
    using assms(2) that s(1) len by (auto simp: for_items_def Let_def mult.commute intro!: bexI [of _ i])
  ultimately show ?thesis unfolding bloom_test_def list_all_iff Let_def bloom_has_and by fastforce
qed

end
