(* ===== verification/Segment_Writer.thy ===== *)
theory Segment_Writer
  imports Segment_Format Varint Bitpack Rle
begin

text \<open>
  Model of \<^verbatim>\<open>storage/segment_writer.hpp\<close> and \<^verbatim>\<open>src/storage/segment_writer.cpp\<close>: the column buffers and
  statistics of the writer, the column encoders and the assembly of the segment file in memory. The
  allocator is a parameter (its block has arbitrary contents); the result of \<^verbatim>\<open>write_to_file\<close> is the
  byte sequence it hands to \<^verbatim>\<open>file::write_all\<close>. Copies into the buffer that the code does not check
  are \<open>Fault\<close> when they leave it.
\<close>

section \<open>Writer state\<close>

record SegmentWriter =
  w_exchange_ts :: "u64 list"
  w_receive_ts :: "u64 list"
  w_sequences :: "u64 list"
  w_instrument_ids :: "u32 list"
  w_event_types :: "u8 list"
  w_sides :: "u8 list"
  w_flags :: "u16 list"
  w_price_ticks :: "i64 list"
  w_quantities :: "u32 list"
  w_venue_ids :: "u16 list"
  w_source_ids :: "u16 list"
  w_trade_or_order_ids :: "u64 list"
  w_segment_id :: u64
  w_max_rows :: nat
  w_row_count :: nat
  w_min_timestamp :: u64
  w_max_timestamp :: u64
  w_min_sequence :: u64
  w_max_sequence :: u64
  w_min_instrument_id :: u64
  w_max_instrument_id :: u64
  w_min_price :: i64
  w_max_price :: i64
  w_min_quantity :: u32
  w_max_quantity :: u32

definition DefaultRowsPerSegment :: nat where "DefaultRowsPerSegment = 65536"

definition SegmentWriter_new :: "u64 \<Rightarrow> nat \<Rightarrow> SegmentWriter" where
  "SegmentWriter_new segment_id max_rows = \<lparr>w_exchange_ts = [], w_receive_ts = [], w_sequences = [],
     w_instrument_ids = [], w_event_types = [], w_sides = [], w_flags = [], w_price_ticks = [],
     w_quantities = [], w_venue_ids = [], w_source_ids = [], w_trade_or_order_ids = [],
     w_segment_id = segment_id, w_max_rows = max_rows, w_row_count = 0,
     w_min_timestamp = - 1, w_max_timestamp = 0, w_min_sequence = - 1, w_max_sequence = 0,
     w_min_instrument_id = - 1, w_max_instrument_id = 0,
     w_min_price = 0x7FFFFFFFFFFFFFFF, w_max_price = 0x8000000000000000, w_min_quantity = - 1, w_max_quantity = 0\<rparr>"

definition SegmentWriter_reset :: "u64 \<Rightarrow> SegmentWriter \<Rightarrow> SegmentWriter" where
  "SegmentWriter_reset new_segment_id w = SegmentWriter_new new_segment_id (w_max_rows w)"

definition is_full :: "SegmentWriter \<Rightarrow> bool" where
  "is_full w = (w_max_rows w \<le> w_row_count w)"

definition update_statistics :: "CanonicalEvent \<Rightarrow> SegmentWriter \<Rightarrow> SegmentWriter" where
  "update_statistics e w =
     (let lower = (\<lambda>x m. if x < m then x else m); upper = (\<lambda>x m. if m < x then x else m) in
      w\<lparr>w_min_timestamp := lower (exchange_ts_ns e) (w_min_timestamp w),
        w_max_timestamp := upper (exchange_ts_ns e) (w_max_timestamp w),
        w_min_sequence := lower (sequence e) (w_min_sequence w),
        w_max_sequence := upper (sequence e) (w_max_sequence w),
        w_min_instrument_id := lower (ucast (instrument_id e)) (w_min_instrument_id w),
        w_max_instrument_id := upper (ucast (instrument_id e)) (w_max_instrument_id w),
        w_min_price := (if price_ticks e <s w_min_price w then price_ticks e else w_min_price w),
        w_max_price := (if w_max_price w <s price_ticks e then price_ticks e else w_max_price w),
        w_min_quantity := (if quantity e < w_min_quantity w then quantity e else w_min_quantity w),
        w_max_quantity := (if w_max_quantity w < quantity e then quantity e else w_max_quantity w)\<rparr>)"

definition append_event :: "CanonicalEvent \<Rightarrow> SegmentWriter \<Rightarrow> SegmentWriter" where
  "append_event e w = w\<lparr>w_exchange_ts := w_exchange_ts w @ [exchange_ts_ns e],
     w_receive_ts := w_receive_ts w @ [receive_ts_ns e], w_sequences := w_sequences w @ [sequence e],
     w_instrument_ids := w_instrument_ids w @ [instrument_id e], w_event_types := w_event_types w @ [event_type e],
     w_sides := w_sides w @ [side e], w_flags := w_flags w @ [flags e],
     w_price_ticks := w_price_ticks w @ [price_ticks e], w_quantities := w_quantities w @ [quantity e],
     w_venue_ids := w_venue_ids w @ [venue_id e], w_source_ids := w_source_ids w @ [source_id e],
     w_trade_or_order_ids := w_trade_or_order_ids w @ [trade_or_order_id e]\<rparr>"

definition add_event :: "CanonicalEvent \<Rightarrow> SegmentWriter \<Rightarrow> unit outcome \<times> SegmentWriter" where
  "add_event e w =
     (if is_full w then (Err LimitExceeded, w)
      else case event_validate e of
        Ok _ \<Rightarrow> (Ok (), let w = update_statistics e (append_event e w) in w\<lparr>w_row_count := w_row_count w + 1\<rparr>)
      | Err c \<Rightarrow> (Err c, w) | Fault \<Rightarrow> (Fault, w))"

definition estimated_size :: "SegmentWriter \<Rightarrow> nat" where
  "estimated_size w = 128 + 64 * ColumnCount + w_row_count w * 56 div 2 + 64 * ColumnCount + 1024 + 128"

function range_bits_loop :: "u64 \<Rightarrow> nat \<Rightarrow> nat" where
  "range_bits_loop rng bits = (if 0 < rng then range_bits_loop (drop_bit 1 rng) (bits + 1) else bits)"
  by pat_completeness auto
termination
proof (relation "measure (\<lambda>(r, _). unat r)")
  fix r :: u64 and b :: nat
  assume "0 < r"
  then have "0 < unat r" by (simp add: word_less_nat_alt)
  then show "((drop_bit 1 r, b + 1), (r, b)) \<in> measure (\<lambda>(r, _). unat r)" by (simp add: unat_drop_bit)
qed simp

definition select_encoding_size :: "u64 \<Rightarrow> u64 \<Rightarrow> nat" where
  "select_encoding_size min_val max_val =
     (let rng = max_val - min_val in if rng = 0 then 1 else (range_bits_loop rng 0 + 7) div 8)"

section \<open>Column encoders\<close>

text \<open>
  An encoder writes at \<open>offset\<close> of the buffer \<open>output\<close> of which \<open>output_size\<close> bytes may be used, and
  returns the buffer and the offset behind the column. Signed differences that are not
  representable are undefined.
\<close>

definition sub_i64 :: "i64 \<Rightarrow> i64 \<Rightarrow> i64 outcome" where
  "sub_i64 a b = (if sint a - sint b \<in> {- (2 ^ 63)..<2 ^ 63} then Ok (a - b) else Fault)"

definition sub_u64 :: "u64 \<Rightarrow> u64 \<Rightarrow> u64 outcome" where
  "sub_u64 a b = Ok (a - b)"

fun write_deltas ::
    "(u64 \<Rightarrow> u64 \<Rightarrow> u64 outcome) \<Rightarrow> (u64 \<Rightarrow> u64) \<Rightarrow> nat \<Rightarrow> u64 \<Rightarrow> u64 list \<Rightarrow> bytes \<Rightarrow> nat \<Rightarrow> (bytes \<times> nat) outcome" where
  "write_deltas sub zig output_size prev [] output offset = Ok (output, offset)"
| "write_deltas sub zig output_size prev (v # vs) output offset =
     obind (sub v prev) (\<lambda>delta.
       case VarIntU_encode (zig delta) (output_size - offset) of
         None \<Rightarrow> Err BufferTooSmall
       | Some bs \<Rightarrow> obind (store offset bs output) (\<lambda>output.
           write_deltas sub zig output_size v vs output (offset + length bs)))"

definition write_raw :: "bytes \<Rightarrow> nat \<Rightarrow> bytes \<Rightarrow> nat \<Rightarrow> (bytes \<times> nat) outcome" where
  "write_raw bs output_size output offset =
     (if output_size < offset + length bs then Err BufferTooSmall
      else obind (store offset bs output) (\<lambda>output. Ok (output, offset + length bs)))"

definition write_delta_column ::
    "(u64 \<Rightarrow> u64 \<Rightarrow> u64 outcome) \<Rightarrow> (u64 \<Rightarrow> u64) \<Rightarrow> u64 list \<Rightarrow> nat \<Rightarrow> bytes \<Rightarrow> nat \<Rightarrow> (bytes \<times> nat) outcome" where
  "write_delta_column sub zig values output_size output offset =
     (if output_size < offset + 8 then Err BufferTooSmall
      else obind (store offset (le_bytes 8 (hd values)) output) (\<lambda>output.
        write_deltas sub zig output_size (hd values) (tl values) output (offset + 8)))"

definition encode_column_u64 :: "u64 list \<Rightarrow> u8 \<Rightarrow> nat \<Rightarrow> bytes \<Rightarrow> nat \<Rightarrow> (bytes \<times> nat) outcome" where
  "encode_column_u64 values encoding output_size output offset =
     (if values = [] then Ok (output, offset)
      else if encoding = EncDelta then write_delta_column sub_u64 id values output_size output offset
      else write_raw (concat (map (le_bytes 8) values)) output_size output offset)"

definition encode_column_i64 :: "i64 list \<Rightarrow> u8 \<Rightarrow> nat \<Rightarrow> bytes \<Rightarrow> nat \<Rightarrow> (bytes \<times> nat) outcome" where
  "encode_column_i64 values encoding output_size output offset =
     (if values = [] then Ok (output, offset)
      else if encoding = EncDelta then write_delta_column sub_i64 ZigZag_encode values output_size output offset
      else write_raw (concat (map (le_bytes 8) values)) output_size output offset)"

definition min_element :: "u32 list \<Rightarrow> u32" where
  "min_element values = fold min (tl values) (hd values)"

definition max_element :: "u32 list \<Rightarrow> u32" where
  "max_element values = fold max (tl values) (hd values)"

definition encode_column_u32 :: "u32 list \<Rightarrow> u8 \<Rightarrow> nat \<Rightarrow> bytes \<Rightarrow> nat \<Rightarrow> (bytes \<times> nat) outcome" where
  "encode_column_u32 values encoding output_size output offset =
     (if values = [] then Ok (output, offset)
      else if encoding = EncBitPacked then
        let min_val = min_element values; max_val = max_element values in
        if output_size < offset + 4 then Err BufferTooSmall
        else obind (store offset (le_bytes 4 min_val) output) (\<lambda>output.
          let offset = offset + 4; bits = bits_required (max_val - min_val) in
          if output_size < offset + 1 then Err BufferTooSmall
          else obind (store offset [of_nat bits] output) (\<lambda>output.
            let offset = offset + 1; packed = map (\<lambda>v. v - min_val) values in
            if output_size < offset + bp_max_encoded_size (length values) bits then Err BufferTooSmall
            else case BitPackU32_encode packed bits (output_size - offset) of
              None \<Rightarrow> Ok (output, offset)
            | Some bs \<Rightarrow> obind (store offset bs output) (\<lambda>output. Ok (output, offset + length bs))))
      else write_raw (concat (map (le_bytes 4) values)) output_size output offset)"

definition encode_column_u16 :: "u16 list \<Rightarrow> u8 \<Rightarrow> nat \<Rightarrow> bytes \<Rightarrow> nat \<Rightarrow> (bytes \<times> nat) outcome" where
  "encode_column_u16 values encoding output_size output offset =
     (if values = [] then Ok (output, offset)
      else if encoding = EncRaw then write_raw (concat (map (le_bytes 2) values)) output_size output offset
      else encode_column_u32 (map ucast values) encoding output_size output offset)"

definition encode_column_u8 :: "u8 list \<Rightarrow> u8 \<Rightarrow> nat \<Rightarrow> bytes \<Rightarrow> nat \<Rightarrow> (bytes \<times> nat) outcome" where
  "encode_column_u8 values encoding output_size output offset =
     (if values = [] then Ok (output, offset)
      else if encoding = EncRLE then
        (case RLE_encode 1 u8_bytes values (output_size - offset) of
           None \<Rightarrow> write_raw values output_size output offset
         | Some bs \<Rightarrow> obind (store offset bs output) (\<lambda>output. Ok (output, offset + length bs)))
      else write_raw values output_size output offset)"

section \<open>Assembly of the file\<close>

text \<open>\<^verbatim>\<open>(offset + 63) & ~usize(63)\<close>.\<close>

definition align64 :: "nat \<Rightarrow> nat" where
  "align64 offset = (offset + 63) - (offset + 63) mod 64"

definition AlignedBuffer_allocate :: "(nat \<Rightarrow> bytes option) \<Rightarrow> nat \<Rightarrow> bytes outcome" where
  "AlignedBuffer_allocate alloc n =
     (if n = 0 then Ok [] else case alloc ((n + 64 - 1) div 64 * 64) of None \<Rightarrow> Err AllocationFailed | Some b \<Rightarrow> Ok b)"

definition column_descriptor :: "nat \<Rightarrow> u8 \<Rightarrow> nat \<Rightarrow> u64 \<Rightarrow> u64 \<Rightarrow> ColumnDescriptor" where
  "column_descriptor col encoding uncompressed min_val max_val =
     \<lparr>cd_column_id = of_nat col, cd_type = get_column_type col, cd_encoding = encoding, cd_bits_per_value = 0,
      cd_reserved1 = 0, cd_offset = 0, cd_compressed_size = 0, cd_uncompressed_size = of_nat uncompressed,
      cd_min_value = min_val, cd_max_value = max_val, cd_null_count = 0, cd_data_crc = 0, cd_reserved2 = 0,
      cd_descriptor_crc = 0\<rparr>"

type_synonym column_encoder = "nat \<Rightarrow> bytes \<Rightarrow> nat \<Rightarrow> (bytes \<times> nat) outcome"

definition segment_columns :: "SegmentWriter \<Rightarrow> (ColumnDescriptor \<times> column_encoder) list" where
  "segment_columns w = (let n = w_row_count w in
    [(column_descriptor 0 EncDelta (n * 8) (w_min_timestamp w) (w_max_timestamp w), encode_column_u64 (w_exchange_ts w) EncDelta),
     (column_descriptor 1 EncDelta (n * 8) 0 0, encode_column_u64 (w_receive_ts w) EncDelta),
     (column_descriptor 2 EncDelta (n * 8) (w_min_sequence w) (w_max_sequence w), encode_column_u64 (w_sequences w) EncDelta),
     (column_descriptor 3 EncBitPacked (n * 4) (w_min_instrument_id w) (w_max_instrument_id w),
        encode_column_u32 (w_instrument_ids w) EncBitPacked),
     (column_descriptor 4 EncRLE n 0 0, encode_column_u8 (w_event_types w) EncRLE),
     (column_descriptor 5 EncRLE n 0 0, encode_column_u8 (w_sides w) EncRLE),
     (column_descriptor 6 EncBitPacked (n * 2) 0 0, encode_column_u16 (w_flags w) EncBitPacked),
     (column_descriptor 7 EncDelta (n * 8) (w_min_price w) (w_max_price w), encode_column_i64 (w_price_ticks w) EncDelta),
     (column_descriptor 8 EncBitPacked (n * 4) (ucast (w_min_quantity w)) (ucast (w_max_quantity w)),
        encode_column_u32 (w_quantities w) EncBitPacked),
     (column_descriptor 9 EncRaw (n * 2) 0 0, encode_column_u16 (w_venue_ids w) EncRaw),
     (column_descriptor 10 EncRaw (n * 2) 0 0, encode_column_u16 (w_source_ids w) EncRaw),
     (column_descriptor 11 EncRaw (n * 8) 0 0, encode_column_u64 (w_trade_or_order_ids w) EncRaw)])"

fun write_columns ::
    "(ColumnDescriptor \<times> column_encoder) list \<Rightarrow> nat \<Rightarrow> bytes \<Rightarrow> nat \<Rightarrow> (ColumnDescriptor list \<times> bytes \<times> nat) outcome" where
  "write_columns [] estimated buf offset = Ok ([], buf, offset)"
| "write_columns ((d, enc) # cs) estimated buf offset =
     obind (enc estimated buf offset) (\<lambda>(buf', offset').
       obind (write_columns cs estimated buf' offset') (\<lambda>(ds, buf'', offset'').
         Ok (d\<lparr>cd_offset := of_nat offset, cd_compressed_size := of_nat (offset' - offset)\<rparr> # ds, buf'', offset'')))"

definition zone_of_descriptor :: "nat \<Rightarrow> ColumnDescriptor \<Rightarrow> ZoneMap" where
  "zone_of_descriptor row_count d = \<lparr>zm_min_value = cd_min_value d, zm_max_value = cd_max_value d, zm_sum_value = 0,
     zm_row_count = of_nat row_count, zm_null_count = 0, zm_first_row_idx = 0,
     zm_last_row_idx = of_nat (row_count - 1), zm_reserved = 0\<rparr>"

fun store_all :: "bytes list \<Rightarrow> nat \<Rightarrow> bytes \<Rightarrow> (bytes \<times> nat) outcome" where
  "store_all [] offset buf = Ok (buf, offset)"
| "store_all (b # bs) offset buf = obind (store offset b buf) (\<lambda>buf. store_all bs (offset + length b) buf)"

definition seal_descriptor :: "bytes \<Rightarrow> ColumnDescriptor \<Rightarrow> ColumnDescriptor" where
  "seal_descriptor buf d =
     (let d = d\<lparr>cd_data_crc := crc32c (get_bytes (unat (cd_offset d)) (unat (cd_compressed_size d)) buf)\<rparr>
      in d\<lparr>cd_descriptor_crc := crc32c (take (64 - 4) (descriptor_bytes d))\<rparr>)"

definition segment_digest :: "ColumnDescriptor list \<Rightarrow> u64" where
  "segment_digest ds = foldl (\<lambda>h d. hash_combine h (ucast (cd_data_crc d))) 0 ds"

definition seal_footer :: "SegmentFooter \<Rightarrow> SegmentFooter" where
  "seal_footer f = f\<lparr>sf_footer_crc := crc32c (take (128 - 4) (footer_bytes (f\<lparr>sf_footer_crc := 0\<rparr>)))\<rparr>"

definition seal_header :: "SegmentHeader \<Rightarrow> SegmentHeader" where
  "seal_header h = h\<lparr>sh_header_crc := crc32c (header_bytes (h\<lparr>sh_header_crc := 0\<rparr>))\<rparr>"

definition write_to_file :: "(nat \<Rightarrow> bytes option) \<Rightarrow> SegmentWriter \<Rightarrow> bytes outcome" where
  "write_to_file alloc w =
     (if w_row_count w = 0 then Err InvalidArgument
      else let estimated = estimated_size w * 2 in
      obind (AlignedBuffer_allocate alloc estimated) (\<lambda>buf.
      let descriptor_offset = 128; offset = align64 (descriptor_offset + 64 * ColumnCount) in
      obind (write_columns (segment_columns w) estimated buf offset) (\<lambda>(descriptors, buf, offset).
      let zone_map_offset = align64 offset in
      obind (store_all (map (\<lambda>d. zone_bytes (zone_of_descriptor (w_row_count w) d)) descriptors) zone_map_offset buf)
        (\<lambda>(buf, offset).
      let bloom_filter_offset = align64 offset; bloom_filter = bloom_build (w_instrument_ids w) in
      obind (store bloom_filter_offset bloom_filter buf) (\<lambda>buf.
      let footer_offset = align64 (bloom_filter_offset + length bloom_filter);
          descriptors = map (seal_descriptor buf) descriptors;
          table = concat (map descriptor_bytes descriptors) in
      obind (store descriptor_offset table buf) (\<lambda>buf.
      let header = seal_header \<lparr>sh_magic = VTS1_magic, sh_version = VTS1_version,
            sh_schema_hash = compute_canonical_schema_hash, sh_segment_id = w_segment_id w,
            sh_row_count = of_nat (w_row_count w), sh_min_timestamp = w_min_timestamp w,
            sh_max_timestamp = w_max_timestamp w, sh_descriptor_offset = of_nat descriptor_offset,
            sh_descriptor_size = of_nat (64 * ColumnCount), sh_zone_map_offset = of_nat zone_map_offset,
            sh_bloom_filter_offset = of_nat bloom_filter_offset, sh_bloom_filter_size = of_nat (length bloom_filter),
            sh_footer_offset = of_nat footer_offset, sh_reserved = 0, sh_header_crc = 0\<rparr>;
          footer = seal_footer \<lparr>sf_magic = VTS1_magic, sf_version = VTS1_version,
            sf_total_size = of_nat (footer_offset + 128), sf_descriptor_table_hash = ucast (crc32c table),
            sf_segment_digest = segment_digest descriptors, sf_commit_marker = CommittedMarker,
            sf_create_timestamp = 0, sf_min_sequence = w_min_sequence w, sf_max_sequence = w_max_sequence w,
            sf_row_count = of_nat (w_row_count w), sf_column_count = of_nat ColumnCount, sf_reserved = 0,
            sf_footer_crc = 0\<rparr> in
      obind (store 0 (header_bytes header) buf) (\<lambda>buf.
      obind (store footer_offset (footer_bytes footer) buf) (\<lambda>buf.
      Ok (take (footer_offset + 128) buf)))))))))"

section \<open>What the encoders write\<close>

fun diffs :: "u64 \<Rightarrow> u64 list \<Rightarrow> u64 list" where
  "diffs prev [] = []"
| "diffs prev (v # vs) = (v - prev) # diffs v vs"

definition delta_tail :: "(u64 \<Rightarrow> u64) \<Rightarrow> u64 \<Rightarrow> u64 list \<Rightarrow> bytes" where
  "delta_tail zig prev vs = concat (map (\<lambda>d. varint_bytes (zig d)) (diffs prev vs))"

definition delta_image :: "(u64 \<Rightarrow> u64) \<Rightarrow> u64 list \<Rightarrow> bytes" where
  "delta_image zig vs = le_bytes 8 (hd vs) @ delta_tail zig (hd vs) (tl vs)"

definition packed_image :: "u32 list \<Rightarrow> bytes" where
  "packed_image vs = (let m = min_element vs; bits = bits_required (max_element vs - m) in
     le_bytes 4 m @ [of_nat bits] @
     the (BitPackU32_encode (map (\<lambda>v. v - m) vs) bits (bp_max_encoded_size (length vs) bits)))"

definition rle_image :: "u8 list \<Rightarrow> bytes" where
  "rle_image vs = the (rle_encode_loop 1 u8_bytes (5 * length vs) vs [])"

text \<open>Every step of a delta column is representable.\<close>

definition steps_ok :: "(u64 \<Rightarrow> u64 \<Rightarrow> u64 outcome) \<Rightarrow> u64 list \<Rightarrow> bool" where
  "steps_ok sub vs \<longleftrightarrow> (\<forall>a\<in>set vs. \<forall>b\<in>set vs. sub a b = Ok (a - b))"

lemma steps_ok_u64 [simp]: "steps_ok sub_u64 vs"
  by (simp add: steps_ok_def sub_u64_def)

lemma write_deltas_eq:
  assumes "\<forall>a\<in>set (prev # vs). \<forall>b\<in>set (prev # vs). sub a b = Ok (a - b)"
    and "offset + length (delta_tail zig prev vs) \<le> output_size" "output_size \<le> length buf"
  shows "write_deltas sub zig output_size prev vs buf offset
    = Ok (put_bytes offset (delta_tail zig prev vs) buf, offset + length (delta_tail zig prev vs))"
  using assms
proof (induction vs arbitrary: prev buf offset)
  case Nil
  then show ?case by (simp add: delta_tail_def)
next
  case (Cons v vs)
  let ?b = "varint_bytes (zig (v - prev))" and ?t = "delta_tail zig v vs"
  have t: "delta_tail zig prev (v # vs) = ?b @ ?t" by (simp add: delta_tail_def)
  have fit: "offset + length ?b + length ?t \<le> output_size" using Cons.prems(2) t by simp
  have "VarIntU_encode (zig (v - prev)) (output_size - offset) = Some ?b"
    using fit by (simp add: VarIntU_encode_eq)
  moreover have "store offset ?b buf = Ok (put_bytes offset ?b buf)" using fit Cons.prems(3) by simp
  moreover have "write_deltas sub zig output_size v vs (put_bytes offset ?b buf) (offset + length ?b)
      = Ok (put_bytes (offset + length ?b) ?t (put_bytes offset ?b buf), offset + length ?b + length ?t)"
    by (rule Cons.IH) (use Cons.prems(1,3) fit in simp_all)
  moreover have "put_bytes (offset + length ?b) ?t (put_bytes offset ?b buf) = put_bytes offset (?b @ ?t) buf"
    using fit Cons.prems(3) by (intro put_bytes_append) simp
  ultimately show ?case using Cons.prems(1) t by (simp add: add.assoc)
qed

lemma write_delta_column_eq:
  assumes "vs \<noteq> []" "steps_ok sub vs" "offset + length (delta_image zig vs) \<le> output_size" "output_size \<le> length buf"
  shows "write_delta_column sub zig vs output_size buf offset
    = Ok (put_bytes offset (delta_image zig vs) buf, offset + length (delta_image zig vs))"
proof -
  obtain v ws where vs: "vs = v # ws" using assms(1) by (cases vs) auto
  let ?b = "le_bytes 8 v" and ?t = "delta_tail zig v ws"
  have i: "delta_image zig vs = ?b @ ?t" by (simp add: delta_image_def vs)
  have "write_deltas sub zig output_size v ws (put_bytes offset ?b buf) (offset + 8)
      = Ok (put_bytes (offset + 8) ?t (put_bytes offset ?b buf), offset + 8 + length ?t)"
    by (rule write_deltas_eq) (use assms i vs in \<open>simp_all add: steps_ok_def\<close>)
  moreover have "put_bytes (offset + 8) ?t (put_bytes offset ?b buf) = put_bytes offset (?b @ ?t) buf"
    using put_bytes_append [of offset buf ?b ?t] assms i by simp
  ultimately show ?thesis using assms i by (simp add: write_delta_column_def vs)
qed

lemma write_raw_eq:
  "offset + length bs \<le> output_size \<Longrightarrow> output_size \<le> length buf \<Longrightarrow>
     write_raw bs output_size buf offset = Ok (put_bytes offset bs buf, offset + length bs)"
  by (simp add: write_raw_def)

lemma fold_min_le: "fold min vs (v :: 'a::linorder) \<le> x" if "x \<in> set (v # vs)"
  using that Min.set_eq_fold [of v vs] by (metis List.finite_set Min_le)

lemma fold_max_ge: "x \<le> fold max vs (v :: 'a::linorder)" if "x \<in> set (v # vs)"
  using that Max.set_eq_fold [of v vs] by (metis List.finite_set Max_ge)

lemma min_max_element:
  "x \<in> set vs \<Longrightarrow> min_element vs \<le> x" "x \<in> set vs \<Longrightarrow> x \<le> max_element vs"
  using fold_min_le [of x "hd vs" "tl vs"] fold_max_ge [of x "hd vs" "tl vs"]
  by (cases vs; simp add: min_element_def max_element_def)+

declare bits_required_loop.simps [simp del]

lemma bits_required_loop_bound: "unat v < 2 ^ n \<Longrightarrow> bits_required_loop v b \<le> b + n \<and> unat v < 2 ^ (bits_required_loop v b - b) \<and> b \<le> bits_required_loop v b"
proof (induction v b arbitrary: n rule: bits_required_loop.induct)
  case (1 v b)
  show ?case
  proof (cases "0 < v")
    case True
    then have u: "0 < unat v" by (simp add: word_less_nat_alt)
    then obtain k where n: "n = Suc k" using "1.prems" by (cases n) auto
    have "unat (drop_bit 1 v) < 2 ^ k" using "1.prems" n by (simp add: unat_drop_bit)
    from "1.IH" [OF True this] have ih: "bits_required_loop (drop_bit 1 v) (b + 1) \<le> b + 1 + k"
      "unat (drop_bit 1 v) < 2 ^ (bits_required_loop (drop_bit 1 v) (b + 1) - (b + 1))"
      "b + 1 \<le> bits_required_loop (drop_bit 1 v) (b + 1)" by auto
    define r where "r = bits_required_loop (drop_bit 1 v) (b + 1)"
    have e: "r - b = Suc (r - (b + 1))" using ih(3) by (simp add: r_def)
    have "unat v < 2 ^ (r - b)"
      using ih(2) unfolding e r_def [symmetric] power_Suc by (simp add: unat_drop_bit)
    moreover have "bits_required_loop v b = r" using True by (subst bits_required_loop.simps) (simp add: r_def)
    ultimately show ?thesis using ih(1,3) [folded r_def] n by simp
  next
    case False
    then have "v = 0" by (simp add: word_less_nat_alt unsigned_eq_0_iff)
    then have "bits_required_loop v b = b" by (subst bits_required_loop.simps) simp
    then show ?thesis using \<open>v = 0\<close> by simp
  qed
qed

lemma bits_required_bound: "1 \<le> bits_required v" "bits_required v \<le> 32" "unat v < 2 ^ bits_required v"
proof -
  have l: "unat v < 2 ^ 32" using unat_lt_pow [of v] by simp
  note b = bits_required_loop_bound [OF l, of 0]
  show "bits_required v \<le> 32" "unat v < 2 ^ bits_required v" using b by (simp_all add: bits_required_def)
  have "v \<noteq> 0 \<Longrightarrow> bits_required_loop v 0 \<noteq> 0"
    using b by (intro notI) (simp add: unsigned_eq_0_iff)
  then show "1 \<le> bits_required v" by (simp add: bits_required_def Suc_le_eq)
qed

lemma length_packed_image:
  "vs \<noteq> [] \<Longrightarrow> length (packed_image vs)
    = 5 + bp_max_encoded_size (length vs) (bits_required (max_element vs - min_element vs))"
  using bits_required_bound [of "max_element vs - min_element vs"]
    BitPackU32_roundtrip [of "bits_required (max_element vs - min_element vs)" "map (\<lambda>v. v - min_element vs) vs"]
  by (simp add: packed_image_def Let_def) (metis less_eq_Suc_le option.sel order_refl)

lemma encode_packed_eq:
  assumes "vs \<noteq> []" "offset + length (packed_image vs) \<le> output_size" "output_size \<le> length buf"
  shows "encode_column_u32 vs EncBitPacked output_size buf offset
    = Ok (put_bytes offset (packed_image vs) buf, offset + length (packed_image vs))"
proof -
  let ?m = "min_element vs" and ?bits = "bits_required (max_element vs - min_element vs)"
  let ?p = "map (\<lambda>v. v - ?m) vs" and ?r = "bp_max_encoded_size (length vs) ?bits"
  obtain out where out: "BitPackU32_encode ?p ?bits ?r = Some out" "length out = ?r"
    using BitPackU32_roundtrip [of ?bits ?p ?r] bits_required_bound [of "max_element vs - ?m"] by auto
  then have enc: "BitPackU32_encode ?p ?bits sz = Some out" if "?r \<le> sz" for sz
    using that by (auto simp: BitPackU32_encode_def Let_def split: if_splits)
  have i: "packed_image vs = le_bytes 4 ?m @ [of_nat ?bits] @ out"
    using out by (simp add: packed_image_def Let_def)
  have "put_bytes (offset + 4 + 1) out (put_bytes (offset + 4) [of_nat ?bits] (put_bytes offset (le_bytes 4 ?m) buf))
      = put_bytes offset (packed_image vs) buf"
    using put_bytes_append [of offset buf "le_bytes 4 ?m" "[of_nat ?bits]"]
      put_bytes_append [of offset buf "le_bytes 4 ?m @ [of_nat ?bits]" out] assms i by (simp add: add.assoc [symmetric] add.commute)
  then show ?thesis
    using assms i out(2) enc [of "output_size - (5 + offset)"] by (simp add: encode_column_u32_def Let_def)
qed

text \<open>A run-length encoding that fits a larger buffer is the same in every buffer it fits.\<close>

lemma rle_encode_loop_resize:
  "rle_encode_loop w e sz vs out = Some out' \<Longrightarrow> length out' \<le> sz' \<Longrightarrow> (\<And>v. length (e v) = w) \<Longrightarrow>
     rle_encode_loop w e sz' vs out = Some out' \<and> length out \<le> length out'"
proof (induction vs arbitrary: out rule: length_induct)
  case (1 vs)
  show ?case
  proof (cases vs)
    case Nil
    then show ?thesis using 1 by simp
  next
    case (Cons v ws)
    let ?r = "rle_run v ws 1" and ?l = "literal_run vs"
    have lb: "1 \<le> ?l" "?l \<le> length vs" using literal_run_bound [of vs] Cons by auto
    have d: "length (drop ?r vs) < length vs" "length (drop ?l vs) < length vs"
      using rle_run_split(2) [OF refl, of v ws] lb Cons by simp_all
    have len: "length (concat (map e (take ?l vs))) = ?l * w"
      using "1.prems"(3) lb by (simp add: length_concat comp_def sum_list_triv)
    show ?thesis
    proof (cases "4 \<le> ?r")
      case True
      then show ?thesis
        using 1(1) [rule_format, OF d(1), of "out @ write_be_u16 True (of_nat ?r) @ e v"] 1(2-)
          rle_encode_loop_run [OF True, of w e sz out, folded Cons] rle_encode_loop_run [OF True, of w e sz' out, folded Cons]
        by (auto split: if_splits)
    next
      case False
      then show ?thesis
        using 1(1) [rule_format, OF d(2), of "out @ write_be_u16 True LiteralMarker @ write_be_u16 True (of_nat ?l)
            @ concat (map e (take ?l vs))"] 1(2-) len
          rle_encode_loop_literals [OF False refl, of w e sz out, folded Cons]
          rle_encode_loop_literals [OF False refl, of w e sz' out, folded Cons]
        by (auto split: if_splits)
    qed
  qed
qed

lemma rle_image_encode: "vs \<noteq> [] \<Longrightarrow> RLE_encode 1 u8_bytes vs (5 * length vs) = Some (rle_image vs)"
  using u8c.rle_encode_loop_fits [of "[]" vs "5 * length vs"]
  by (auto simp: rle_image_def RLE_encode_def)

lemma length_rle_image: "length (rle_image vs) \<le> 5 * length vs"
  using u8c.rle_roundtrip_codec [OF rle_image_encode] by (cases "vs = []") (auto simp: rle_image_def)

lemma RLE_encode_fits: "vs \<noteq> [] \<Longrightarrow> length (rle_image vs) \<le> sz \<Longrightarrow> RLE_encode 1 u8_bytes vs sz = Some (rle_image vs)"
  using rle_encode_loop_resize [of 1 u8_bytes "5 * length vs" vs "[]" "rle_image vs" sz] rle_image_encode [of vs]
  unfolding RLE_encode_def by (simp add: u8c.length_enc)

lemma encode_rle_eq:
  assumes "vs \<noteq> []" "offset + length (rle_image vs) \<le> output_size" "output_size \<le> length buf"
  shows "encode_column_u8 vs EncRLE output_size buf offset
    = Ok (put_bytes offset (rle_image vs) buf, offset + length (rle_image vs))"
  using assms RLE_encode_fits [of vs "output_size - offset"] by (simp add: encode_column_u8_def)

section \<open>Layout of the file\<close>

text \<open>A column of a non-empty segment: its encoder writes exactly its image.\<close>

definition writes :: "column_encoder \<Rightarrow> bytes \<Rightarrow> bool" where
  "writes enc img \<longleftrightarrow> (\<forall>sz buf off. off + length img \<le> sz \<longrightarrow> sz \<le> length buf \<longrightarrow>
     enc sz buf off = Ok (put_bytes off img buf, off + length img))"

lemma writes_columns:
  "vs \<noteq> [] \<Longrightarrow> writes (encode_column_u64 vs EncDelta) (delta_image id vs)"
  "vs \<noteq> [] \<Longrightarrow> writes (encode_column_u64 vs EncRaw) (concat (map (le_bytes 8) vs))"
  "vs \<noteq> [] \<Longrightarrow> steps_ok sub_i64 vs \<Longrightarrow> writes (encode_column_i64 vs EncDelta) (delta_image ZigZag_encode vs)"
  "is \<noteq> [] \<Longrightarrow> writes (encode_column_u32 is EncBitPacked) (packed_image is)"
  "ws \<noteq> [] \<Longrightarrow> writes (encode_column_u16 ws EncBitPacked) (packed_image (map ucast ws))"
  "ws \<noteq> [] \<Longrightarrow> writes (encode_column_u16 ws EncRaw) (concat (map (le_bytes 2) ws))"
  "bs \<noteq> [] \<Longrightarrow> writes (encode_column_u8 bs EncRLE) (rle_image bs)"
  by (simp_all add: writes_def encode_column_u64_def encode_column_i64_def encode_column_u16_def
      write_delta_column_eq write_raw_eq encode_packed_eq encode_rle_eq)

text \<open>The descriptor of the column whose image starts at \<open>offset\<close>.\<close>

definition place :: "nat \<Rightarrow> bytes \<Rightarrow> ColumnDescriptor \<Rightarrow> ColumnDescriptor" where
  "place offset img d = d\<lparr>cd_offset := of_nat offset, cd_compressed_size := of_nat (length img)\<rparr>"

fun place_all :: "nat \<Rightarrow> bytes list \<Rightarrow> ColumnDescriptor list \<Rightarrow> ColumnDescriptor list" where
  "place_all offset (img # imgs) (d # ds) = place offset img d # place_all (offset + length img) imgs ds"
| "place_all offset _ _ = []"

lemma write_columns_eq:
  assumes "list_all2 (\<lambda>(d, enc) img. writes enc img) cs imgs"
    and "off + length (concat imgs) \<le> sz" "sz \<le> length buf"
  shows "write_columns cs sz buf off
    = Ok (place_all off imgs (map fst cs), put_bytes off (concat imgs) buf, off + length (concat imgs))"
  using assms
proof (induction cs imgs arbitrary: buf off rule: list_all2_induct)
  case Nil
  then show ?case by simp
next
  case (Cons c cs img imgs)
  obtain d enc where c: "c = (d, enc)" by (cases c)
  have "enc sz buf off = Ok (put_bytes off img buf, off + length img)"
    using Cons.hyps(1) Cons.prems c by (simp add: writes_def)
  moreover have "write_columns cs sz (put_bytes off img buf) (off + length img) =
      Ok (place_all (off + length img) imgs (map fst cs),
        put_bytes (off + length img) (concat imgs) (put_bytes off img buf), off + length img + length (concat imgs))"
    by (rule Cons.IH) (use Cons.prems in simp_all)
  moreover have "put_bytes (off + length img) (concat imgs) (put_bytes off img buf) = put_bytes off (concat (img # imgs)) buf"
    using put_bytes_append [of off buf img "concat imgs"] Cons.prems by simp
  ultimately show ?case by (simp add: c place_def add.assoc)
qed

lemma store_all_eq:
  "off + length (concat bs) \<le> length buf \<Longrightarrow>
     store_all bs off buf = Ok (put_bytes off (concat bs) buf, off + length (concat bs))"
proof (induction bs arbitrary: off buf)
  case (Cons b bs)
  then show ?case using put_bytes_append [of off buf b "concat bs"] by (simp add: add.assoc)
qed simp

end
