(* ===== verification/Segment_Reader.thy ===== *)
theory Segment_Reader
  imports Segment_Writer
begin

text \<open>
  Model of \<^verbatim>\<open>storage/segment_reader.hpp\<close> and \<^verbatim>\<open>src/storage/segment_reader.cpp\<close>. The mapped file is a byte
  list; the offsets and sizes found in the file keep their width, so the unchecked accesses of
  \<^verbatim>\<open>decode_column\<close> and the sums of \<^verbatim>\<open>validate\<close> behave as on the machine and leave the mapping as \<open>Fault\<close>.
  Vectors of \<^verbatim>\<open>row_count\<close> entries are assumed to be allocated.
\<close>

section \<open>Reader state\<close>

record SegmentReader =
  r_mapping :: bytes
  r_open :: bool
  r_header :: SegmentHeader
  r_descriptors :: "ColumnDescriptor list"
  r_zone_maps :: "ZoneMap list"
  r_bloom_filter :: bytes
  r_segment_id :: u64
  r_row_count :: nat
  r_min_timestamp :: u64
  r_max_timestamp :: u64

definition SegmentReader_init :: SegmentReader where
  "SegmentReader_init = \<lparr>r_mapping = [], r_open = False, r_header = header_of_bytes (replicate 128 0),
     r_descriptors = [], r_zone_maps = [], r_bloom_filter = [], r_segment_id = 0, r_row_count = 0,
     r_min_timestamp = 0, r_max_timestamp = 0\<rparr>"

definition SegmentReader_close :: "SegmentReader \<Rightarrow> SegmentReader" where
  "SegmentReader_close r = r\<lparr>r_mapping := [], r_open := False, r_descriptors := [], r_zone_maps := [],
     r_bloom_filter := [], r_row_count := 0, r_segment_id := 0\<rparr>"

definition header_crc_ok :: "SegmentHeader \<Rightarrow> bool" where
  "header_crc_ok h = (crc32c (header_bytes (h\<lparr>sh_header_crc := 0\<rparr>)) = sh_header_crc h)"

definition read_segment_header :: "SegmentReader \<Rightarrow> unit outcome \<times> SegmentReader" where
  "read_segment_header r =
     (if \<not> r_open r then (Err InvalidMapping, r)
      else if length (r_mapping r) < 128 then (Err SegmentInvalidHeader, r)
      else let r = r\<lparr>r_header := header_of_bytes (take 128 (r_mapping r))\<rparr>; h = r_header r in
        if sh_magic h \<noteq> VTS1_magic then (Err SegmentInvalidHeader, r)
        else if sh_version h \<noteq> VTS1_version then (Err SegmentInvalidHeader, r)
        else if \<not> header_crc_ok h then (Err SegmentChecksumFailed, r)
        else if sh_schema_hash h \<noteq> compute_canonical_schema_hash then (Err SegmentSchemaMismatch, r)
        else (Ok (), r\<lparr>r_segment_id := sh_segment_id h, r_row_count := unat (sh_row_count h),
                r_min_timestamp := sh_min_timestamp h, r_max_timestamp := sh_max_timestamp h\<rparr>))"

definition descriptor_crc_ok :: "ColumnDescriptor \<Rightarrow> bool" where
  "descriptor_crc_ok d = (crc32c (take (64 - 4) (descriptor_bytes (d\<lparr>cd_descriptor_crc := 0\<rparr>))) = cd_descriptor_crc d)"

text \<open>\<^verbatim>\<open>vector::resize\<close>, and the loop that fills a table of 64-byte structures from the file.\<close>

definition resize :: "nat \<Rightarrow> 'a \<Rightarrow> 'a list \<Rightarrow> 'a list" where
  "resize n x xs = take n xs @ replicate (n - length xs) x"

fun read_table ::
    "(bytes \<Rightarrow> 'a) \<Rightarrow> ('a \<Rightarrow> bool) \<Rightarrow> nat list \<Rightarrow> nat \<Rightarrow> bytes \<Rightarrow> 'a list \<Rightarrow> unit outcome \<times> 'a list" where
  "read_table dec ok [] offset m xs = (Ok (), xs)"
| "read_table dec ok (i # is) offset m xs =
     (if length m < offset + 64 then (Err SegmentInvalidBlock, xs)
      else let d = dec (get_bytes offset 64 m); xs = xs[i := d] in
        if ok d then read_table dec ok is (offset + 64) m xs else (Err SegmentChecksumFailed, xs))"

definition read_descriptors :: "SegmentReader \<Rightarrow> unit outcome \<times> SegmentReader" where
  "read_descriptors r =
     (let h = r_header r; m = r_mapping r in
      case read_table descriptor_of_bytes descriptor_crc_ok [0..<ColumnCount] (unat (sh_descriptor_offset h)) m
             (resize ColumnCount (descriptor_of_bytes (replicate 64 0)) (r_descriptors r)) of
        (Ok _, ds) \<Rightarrow>
          (let r = r\<lparr>r_descriptors := ds\<rparr> in
           case read_table zone_of_bytes (\<lambda>_. True) [0..<ColumnCount] (unat (sh_zone_map_offset h)) m
                  (resize ColumnCount (zone_of_bytes (replicate 64 0)) (r_zone_maps r)) of
             (Ok _, zs) \<Rightarrow>
               (let r = r\<lparr>r_zone_maps := zs\<rparr>; off = unat (sh_bloom_filter_offset h); n = unat (sh_bloom_filter_size h) in
                if 0 < n then
                  if length m < off + n then (Err SegmentInvalidBlock, r)
                  else (Ok (), r\<lparr>r_bloom_filter := get_bytes off n m\<rparr>)
                else (Ok (), r))
           | (st, zs) \<Rightarrow> (st, r\<lparr>r_zone_maps := zs\<rparr>))
      | (st, ds) \<Rightarrow> (st, r\<lparr>r_descriptors := ds\<rparr>))"

text \<open>\<open>file\<close> is the result of \<^verbatim>\<open>MappedFile::open_read\<close>.\<close>

definition SegmentReader_open :: "bytes outcome \<Rightarrow> SegmentReader \<Rightarrow> unit outcome \<times> SegmentReader" where
  "SegmentReader_open file r =
     (case file of Err c \<Rightarrow> (Err c, r) | Fault \<Rightarrow> (Fault, r)
      | Ok m \<Rightarrow>
         (case read_segment_header (r\<lparr>r_mapping := m, r_open := True\<rparr>) of
            (Ok _, r) \<Rightarrow> read_descriptors r
          | (st, r) \<Rightarrow> (st, r)))"

section \<open>Decoding a column\<close>

definition add_i64 :: "i64 \<Rightarrow> i64 \<Rightarrow> i64 outcome" where
  "add_i64 a b = (if sint a + sint b \<in> {- (2 ^ 63)..<2 ^ 63} then Ok (a + b) else Fault)"

definition add_u64 :: "u64 \<Rightarrow> u64 \<Rightarrow> u64 outcome" where
  "add_u64 a b = Ok (a + b)"

text \<open>
  The codecs on \<open>avail\<close> bytes of the mapping. When the column is smaller than its fixed part, \<open>avail\<close>
  has wrapped around and nothing but the end of the mapping limits the reads.
\<close>

definition varint_at :: "bytes \<Rightarrow> nat \<Rightarrow> nat \<Rightarrow> (nat \<times> u64) option outcome" where
  "varint_at m pos avail =
     (case VarIntU_decode (take avail (drop pos m)) of
        Some r \<Rightarrow> Ok (Some r)
      | None \<Rightarrow> if length m < pos + avail \<and> length (drop pos m) < varint_MaxSize then Fault else Ok None)"

definition bitpack_at :: "bytes \<Rightarrow> nat \<Rightarrow> nat \<Rightarrow> nat \<Rightarrow> nat \<Rightarrow> (nat \<times> u32 list) option outcome" where
  "bitpack_at m pos avail bits n =
     (if pos + avail \<le> length m then Ok (BitPackU32_decode (take avail (drop pos m)) bits n)
      else if 0 < n \<and> 0 < bits \<and> bits \<le> 32 \<and> length m < pos + (n - 1) * bits div 8 + 8 then Fault
      else Ok (BitPackU32_decode (drop pos m) bits n))"

fun delta_loop ::
    "(u64 \<Rightarrow> u64) \<Rightarrow> (u64 \<Rightarrow> u64 \<Rightarrow> u64 outcome) \<Rightarrow> bytes \<Rightarrow> nat \<Rightarrow> u64 \<Rightarrow> nat \<Rightarrow> u64 \<Rightarrow> nat \<Rightarrow> nat \<Rightarrow> bytes \<Rightarrow> bytes outcome" where
  "delta_loop zag add m base cs offset prev i 0 output = Ok output"
| "delta_loop zag add m base cs offset prev i (Suc n) output =
     obind (varint_at m (base + offset) (unat (cs - of_nat offset))) (\<lambda>r. case r of
        None \<Rightarrow> Err SegmentCorrupted
      | Some (consumed, delta) \<Rightarrow> obind (add prev (zag delta)) (\<lambda>v.
          obind (store (8 * i) (le_bytes 8 v) output) (\<lambda>output.
            delta_loop zag add m base cs (offset + consumed) v (i + 1) n output)))"

definition decode_delta ::
    "(u64 \<Rightarrow> u64) \<Rightarrow> (u64 \<Rightarrow> u64 \<Rightarrow> u64 outcome) \<Rightarrow> bytes \<Rightarrow> nat \<Rightarrow> u64 \<Rightarrow> bytes \<Rightarrow> nat \<Rightarrow> bytes outcome" where
  "decode_delta zag add m base cs output num_values =
     obind (load base 8 m) (\<lambda>b. let first_val = le_word b in
       case num_values of 0 \<Rightarrow> Ok output
       | Suc n \<Rightarrow> obind (store 0 (le_bytes 8 first_val) output)
           (\<lambda>output. delta_loop zag add m base cs 8 first_val 1 n output))"

definition decode_packed :: "bool \<Rightarrow> bytes \<Rightarrow> nat \<Rightarrow> u64 \<Rightarrow> bytes \<Rightarrow> nat \<Rightarrow> bytes outcome" where
  "decode_packed is_u16 m base cs output num_values =
     obind (load base 4 m) (\<lambda>b. obind (load (base + 4) 1 m) (\<lambda>c.
       let reference = le_word b :: u32; bits = unat (hd c) in
       obind (bitpack_at m (base + 5) (unat (cs - 5)) bits num_values) (\<lambda>r. case r of
         None \<Rightarrow> if 0 < num_values then Err SegmentCorrupted else Ok output
       | Some (consumed, packed) \<Rightarrow>
           if consumed = 0 \<and> 0 < num_values then Err SegmentCorrupted
           else obind (store_all (map (\<lambda>p. if is_u16 then le_bytes 2 (ucast (p + reference) :: u16) else le_bytes 4 (p + reference)) packed)
                  0 output) (\<lambda>(output, _). Ok output))))"

definition decode_rle :: "bytes \<Rightarrow> bytes \<Rightarrow> nat \<Rightarrow> bytes outcome" where
  "decode_rle col output num_values =
     (case RLE_decode 1 u8_of_bytes col num_values of
        None \<Rightarrow> if 0 < num_values then Err SegmentCorrupted else Ok output
      | Some (consumed, vs) \<Rightarrow>
          if consumed = 0 \<and> 0 < num_values then Err SegmentCorrupted else store 0 vs output)"

definition decode_column :: "bytes \<Rightarrow> ColumnDescriptor \<Rightarrow> bytes \<Rightarrow> nat \<Rightarrow> bytes outcome" where
  "decode_column m desc output num_values =
     (let base = unat (cd_offset desc); cs = cd_compressed_size desc in
      obind (load base (unat cs) m) (\<lambda>col.
        if crc32c col \<noteq> cd_data_crc desc then Err SegmentChecksumFailed
        else if cd_encoding desc = EncRaw then store 0 col output
        else if cd_encoding desc = EncDelta then
          (if cd_type desc = ColI64 then decode_delta ZigZag_decode add_i64 m base cs output num_values
           else decode_delta id add_u64 m base cs output num_values)
        else if cd_encoding desc = EncBitPacked then decode_packed (cd_type desc = ColU16) m base cs output num_values
        else if cd_encoding desc = EncRLE \<and> cd_type desc = ColU8 then decode_rle col output num_values
        else store 0 col output))"

text \<open>
  The five \<^verbatim>\<open>read_column\<close> functions into a zero-initialised vector of the given element width.
\<close>

definition read_column :: "nat \<Rightarrow> (bytes \<Rightarrow> 'a) \<Rightarrow> nat \<Rightarrow> nat \<Rightarrow> SegmentReader \<Rightarrow> 'a list outcome" where
  "read_column width dec col num_values r =
     (if length (r_descriptors r) \<le> col then Err OutOfRange
      else obind (decode_column (r_mapping r) (r_descriptors r ! col) (replicate (width * num_values) 0) num_values)
        (\<lambda>out. Ok (chunks width dec num_values out)))"

definition read_column_u64 :: "nat \<Rightarrow> nat \<Rightarrow> SegmentReader \<Rightarrow> u64 list outcome" where
  "read_column_u64 = read_column 8 le_word"

definition read_column_i64 :: "nat \<Rightarrow> nat \<Rightarrow> SegmentReader \<Rightarrow> i64 list outcome" where
  "read_column_i64 = read_column 8 le_word"

definition read_column_u32 :: "nat \<Rightarrow> nat \<Rightarrow> SegmentReader \<Rightarrow> u32 list outcome" where
  "read_column_u32 = read_column 4 le_word"

definition read_column_u16 :: "nat \<Rightarrow> nat \<Rightarrow> SegmentReader \<Rightarrow> u16 list outcome" where
  "read_column_u16 = read_column 2 le_word"

definition read_column_u8 :: "nat \<Rightarrow> nat \<Rightarrow> SegmentReader \<Rightarrow> u8 list outcome" where
  "read_column_u8 = read_column 1 u8_of_bytes"

definition read_all_events :: "SegmentReader \<Rightarrow> CanonicalEvent list outcome" where
  "read_all_events r = (let n = r_row_count r in
     if n = 0 then Ok [] else
     obind (read_column_u64 0 n r) (\<lambda>exchange_ts. obind (read_column_u64 1 n r) (\<lambda>receive_ts.
     obind (read_column_u64 2 n r) (\<lambda>seqs. obind (read_column_u32 3 n r) (\<lambda>inst_ids.
     obind (read_column_u8 4 n r) (\<lambda>ev_types. obind (read_column_u8 5 n r) (\<lambda>sides.
     obind (read_column_u16 6 n r) (\<lambda>flag_vals. obind (read_column_i64 7 n r) (\<lambda>prices.
     obind (read_column_u32 8 n r) (\<lambda>qtys. obind (read_column_u16 9 n r) (\<lambda>venues.
     obind (read_column_u16 10 n r) (\<lambda>sources. obind (read_column_u64 11 n r) (\<lambda>ids.
     Ok (map (\<lambda>i. \<lparr>exchange_ts_ns = exchange_ts ! i, receive_ts_ns = receive_ts ! i, sequence = seqs ! i,
          instrument_id = inst_ids ! i, event_type = ev_types ! i, side = sides ! i, flags = flag_vals ! i,
          price_ticks = prices ! i, quantity = qtys ! i, venue_id = venues ! i, source_id = sources ! i,
          trade_or_order_id = ids ! i\<rparr>) [0..<n]))))))))))))))"

definition read_event :: "nat \<Rightarrow> SegmentReader \<Rightarrow> CanonicalEvent outcome" where
  "read_event row_idx r =
     (if r_row_count r \<le> row_idx then Err OutOfRange
      else obind (read_all_events r) (\<lambda>all. Ok (all ! row_idx)))"

definition column_min :: "nat \<Rightarrow> SegmentReader \<Rightarrow> u64" where
  "column_min col r = (if col < length (r_descriptors r) then cd_min_value (r_descriptors r ! col) else 0)"

definition column_max :: "nat \<Rightarrow> SegmentReader \<Rightarrow> u64" where
  "column_max col r = (if col < length (r_descriptors r) then cd_max_value (r_descriptors r ! col) else 0)"

definition might_contain_instrument :: "u32 \<Rightarrow> SegmentReader \<Rightarrow> bool" where
  "might_contain_instrument inst_id r = bloom_test (r_bloom_filter r) inst_id"

section \<open>Validation\<close>

fun validate_columns :: "bytes \<Rightarrow> ColumnDescriptor list \<Rightarrow> unit outcome" where
  "validate_columns m [] = Ok ()"
| "validate_columns m (d # ds) =
     (if length m < unat (cd_offset d + cd_compressed_size d) then Err SegmentInvalidBlock
      else obind (load (unat (cd_offset d)) (unat (cd_compressed_size d)) m) (\<lambda>col.
        if crc32c col \<noteq> cd_data_crc d then Err SegmentChecksumFailed else validate_columns m ds))"

definition validate_footer :: "SegmentReader \<Rightarrow> SegmentFooter \<Rightarrow> unit outcome" where
  "validate_footer r f =
     (if sf_commit_marker f \<noteq> CommittedMarker then Err SegmentCorrupted
      else if crc32c (take (128 - 4) (footer_bytes (f\<lparr>sf_footer_crc := 0\<rparr>))) \<noteq> sf_footer_crc f then Err SegmentChecksumFailed
      else obind (if sf_descriptor_table_hash f \<noteq> 0
                  then obind (load (unat (sh_descriptor_offset (r_header r))) (length (r_descriptors r) * 64) (r_mapping r))
                    (\<lambda>t. if sf_descriptor_table_hash f \<noteq> ucast (crc32c t) then Err SegmentChecksumFailed else Ok ())
                  else Ok ())
       (\<lambda>_. if sf_segment_digest f \<noteq> 0 \<and> sf_segment_digest f \<noteq> segment_digest (r_descriptors r)
            then Err SegmentChecksumFailed else Ok ()))"

definition SegmentReader_validate :: "SegmentReader \<Rightarrow> unit outcome" where
  "SegmentReader_validate r =
     (if \<not> r_open r then Err InvalidMapping
      else obind (validate_columns (r_mapping r) (r_descriptors r)) (\<lambda>_.
        let off = unat (sh_footer_offset (r_header r)) in
        if off + 128 \<le> length (r_mapping r)
        then validate_footer r (footer_of_bytes (get_bytes off 128 (r_mapping r))) else Ok ()))"

section \<open>A stored column reads back\<close>

text \<open>The file holds the image of a column where the descriptor says.\<close>

definition holds_column :: "bytes \<Rightarrow> ColumnDescriptor \<Rightarrow> bytes \<Rightarrow> bool" where
  "holds_column m d img \<longleftrightarrow> (\<exists>base. base + length img \<le> length m \<and> length m < 2 ^ 64 \<and> cd_offset d = of_nat base
     \<and> cd_compressed_size d = of_nat (length img) \<and> get_bytes base (length img) m = img
     \<and> cd_data_crc d = crc32c img)"

lemma unat_of_nat_64: "n < 2 ^ 64 \<Longrightarrow> unat (of_nat n :: u64) = n"
  by (simp add: unat_of_nat)

lemma unat_sub_of_nat: "a \<le> b \<Longrightarrow> b < 2 ^ 64 \<Longrightarrow> unat (of_nat b - of_nat a :: u64) = b - a"
  by (metis of_nat_diff unat_of_nat_64 diff_le_self le_less_trans)

lemma take_image:
  assumes "get_bytes base n m = a @ b @ c" "length a = k"
  shows "take (n - k) (drop (base + k) m) = b @ c"
proof -
  have "drop k (take n (drop base m)) = b @ c" using assms by (simp add: get_bytes_def)
  then show ?thesis by (simp add: drop_take add.commute)
qed

lemma varint_at_image:
  assumes "get_bytes base n m = a @ varint_bytes v @ c"
  shows "varint_at m (base + length a) (n - length a) = Ok (Some (length (varint_bytes v), v))"
  using take_image [OF assms refl] by (simp add: varint_at_def VarIntU_decode_varint_bytes)

lemma delta_loop_image:
  assumes "get_bytes base n m = a @ delta_tail zig prev vs" "n = length a + length (delta_tail zig prev vs)" "n < 2 ^ 64"
    and "\<And>d. zag (zig d) = d" and "\<forall>x\<in>set (prev # vs). \<forall>y\<in>set (prev # vs). add x (y - x) = Ok y"
    and "8 * i + 8 * length vs \<le> length out"
  shows "delta_loop zag add m base (of_nat n) (length a) prev i (length vs) out
    = Ok (put_bytes (8 * i) (concat (map (le_bytes 8) vs)) out)"
  using assms
proof (induction vs arbitrary: a prev i out)
  case Nil
  then show ?case by simp
next
  case (Cons v vs)
  let ?b = "varint_bytes (zig (v - prev))" and ?t = "delta_tail zig v vs"
  have t: "delta_tail zig prev (v # vs) = ?b @ ?t" by (simp add: delta_tail_def)
  have g: "get_bytes base n m = a @ ?b @ ?t" using Cons.prems(1) t by simp
  have "unat (of_nat n - of_nat (length a) :: u64) = n - length a"
    using Cons.prems(2,3) by (intro unat_sub_of_nat) simp_all
  then have va: "varint_at m (base + length a) (unat (of_nat n - of_nat (length a) :: u64)) = Ok (Some (length ?b, zig (v - prev)))"
    using varint_at_image [OF g] by simp
  have st: "store (8 * i) (le_bytes 8 v) out = Ok (put_bytes (8 * i) (le_bytes 8 v) out)" using Cons.prems(6) by simp
  have "delta_loop zag add m base (of_nat n) (length (a @ ?b)) v (i + 1) (length vs) (put_bytes (8 * i) (le_bytes 8 v) out)
      = Ok (put_bytes (8 * (i + 1)) (concat (map (le_bytes 8) vs)) (put_bytes (8 * i) (le_bytes 8 v) out))"
    by (rule Cons.IH) (use Cons.prems g t in simp_all)
  moreover have "put_bytes (8 * (i + 1)) (concat (map (le_bytes 8) vs)) (put_bytes (8 * i) (le_bytes 8 v) out)
      = put_bytes (8 * i) (concat (map (le_bytes 8) (v # vs))) out"
    using put_bytes_append [of "8 * i" out "le_bytes 8 v" "concat (map (le_bytes 8) vs)"] Cons.prems(6) by (simp add: add.commute)
  moreover have "add prev (zag (zig (v - prev))) = Ok v" using Cons.prems(4,5) by simp
  ultimately show ?case using va st by simp
qed

lemma put_bytes_all: "length bs = length buf \<Longrightarrow> put_bytes 0 bs buf = bs"
  by (simp add: put_bytes_def)

lemma concat_le_bytes_length [simp]: "length (concat (map (le_bytes k) vs)) = k * length vs"
  by (induction vs) simp_all

lemma decode_delta_image:
  assumes "vs \<noteq> []" "get_bytes base (length (delta_image zig vs)) m = delta_image zig vs"
    and "base + length (delta_image zig vs) \<le> length m" "length (delta_image zig vs) < 2 ^ 64"
    and "\<And>d. zag (zig d) = d" "\<forall>x\<in>set vs. \<forall>y\<in>set vs. add x (y - x) = Ok y"
  shows "decode_delta zag add m base (of_nat (length (delta_image zig vs))) (replicate (8 * length vs) 0) (length vs)
    = Ok (concat (map (le_bytes 8) vs))"
proof -
  obtain v ws where vs: "vs = v # ws" using assms(1) by (cases vs) auto
  let ?n = "length (delta_image zig vs)" and ?t = "delta_tail zig v ws" and ?z = "replicate (8 * length vs) 0 :: bytes"
  have g: "get_bytes base ?n m = le_bytes 8 v @ ?t" "?n = 8 + length ?t" using assms(2) by (simp_all add: delta_image_def vs)
  have "get_bytes base 8 m = take 8 (get_bytes base ?n m)" using g(2) by (simp add: get_bytes_def min_def)
  then have "get_bytes base 8 m = le_bytes 8 v" using g(1) by simp
  then have l: "load base 8 m = Ok (le_bytes 8 v)" using assms(3) g(2) by simp
  have "delta_loop zag add m base (of_nat ?n) (length (le_bytes 8 v)) v 1 (length ws) (put_bytes 0 (le_bytes 8 v) ?z)
      = Ok (put_bytes (8 * 1) (concat (map (le_bytes 8) ws)) (put_bytes 0 (le_bytes 8 v) ?z))"
    by (rule delta_loop_image) (use assms(4-6) g vs in simp_all)
  moreover have "put_bytes (8 * 1) (concat (map (le_bytes 8) ws)) (put_bytes 0 (le_bytes 8 v) ?z) = concat (map (le_bytes 8) vs)"
    using put_bytes_append [of 0 ?z "le_bytes 8 v" "concat (map (le_bytes 8) ws)"] by (simp add: vs put_bytes_all)
  ultimately show ?thesis unfolding decode_delta_def l by (simp add: vs Let_def)
qed

lemma packed_diff_mask:
  assumes "v \<in> set vs"
  shows "(v - min_element vs) AND bp_mask (bits_required (max_element vs - min_element vs)) = v - min_element vs"
proof -
  let ?m = "min_element vs" and ?M = "max_element vs"
  note b = bits_required_bound [of "?M - ?m"]
  have le: "unat ?m \<le> unat v" "unat v \<le> unat ?M"
    using min_max_element [OF assms] by (simp_all add: word_le_nat_alt)
  then have "unat (v - ?m) = unat v - unat ?m" "unat (?M - ?m) = unat ?M - unat ?m"
    by (simp_all add: unat_sub word_le_nat_alt)
  then have "unat (v - ?m) < 2 ^ bits_required (?M - ?m)" using b(3) le by linarith
  then show ?thesis
    using b(2) by (intro bit_word_eqI) (auto simp: and_bp_mask_bits dest: unat_lt_bits)
qed

lemma decode_packed_image:
  fixes f :: "u32 \<Rightarrow> bytes"
  assumes "vs \<noteq> []" "get_bytes base (length (packed_image vs)) m = packed_image vs"
    and "base + length (packed_image vs) \<le> length m" "length (packed_image vs) < 2 ^ 64"
    and w: "\<And>v. length (f v) = w" and f: "f = (\<lambda>p. if h then le_bytes 2 (ucast p :: u16) else le_bytes 4 p)"
  shows "decode_packed h m base (of_nat (length (packed_image vs))) (replicate (w * length vs) 0) (length vs)
    = Ok (concat (map f vs))"
proof -
  let ?m = "min_element vs" and ?bits = "bits_required (max_element vs - min_element vs)"
  let ?p = "map (\<lambda>v. v - ?m) vs" and ?n = "length (packed_image vs)"
  note b = bits_required_bound [of "max_element vs - ?m"]
  have b8: "unat (of_nat ?bits :: u8) = ?bits" using b(2) by (simp add: unat_of_nat)
  have "0 < ?bits" using b(1) by simp
  from BitPackU32_roundtrip [OF this b(2), of ?p "bp_max_encoded_size (length vs) ?bits" "[]"]
  obtain out where out: "BitPackU32_encode ?p ?bits (bp_max_encoded_size (length vs) ?bits) = Some out"
    "BitPackU32_decode out ?bits (length vs) = Some (length out, map (\<lambda>v. v AND bp_mask ?bits) ?p)"
    "length out = bp_max_encoded_size (length vs) ?bits" by auto
  have i: "packed_image vs = (le_bytes 4 ?m @ [of_nat ?bits]) @ out" "?n = 5 + length out"
    using out by (simp_all add: packed_image_def Let_def)
  have h4: "get_bytes base 4 m = take 4 (get_bytes base ?n m)" "get_bytes (base + 4) 1 m = take 1 (drop 4 (get_bytes base ?n m))"
    using i(2) by (simp_all add: get_bytes_def min_def drop_take add.commute)
  then have l: "load base 4 m = Ok (le_bytes 4 ?m)" "load (base + 4) 1 m = Ok [of_nat ?bits]"
    using assms(2,3) i by simp_all
  have "take (?n - 5) (drop (base + 5) m) = out"
    using take_image [of base ?n m "le_bytes 4 ?m @ [of_nat ?bits]" out "[]" 5] assms(2) i(1) by simp
  moreover have "unat (of_nat ?n - 5 :: u64) = ?n - 5" using unat_sub_of_nat [of 5 ?n] i(2) assms(4) by simp
  moreover have "map (\<lambda>v. v AND bp_mask ?bits) ?p = ?p" by (simp add: packed_diff_mask)
  ultimately have bp: "bitpack_at m (base + 5) (unat (of_nat ?n - 5 :: u64)) ?bits (length vs) = Ok (Some (length out, ?p))"
    using out(2) assms(3) i(2) by (simp add: bitpack_at_def)
  have "0 < length out" using out(3) b(1) assms(1) by (cases vs) (simp_all add: bp_max_encoded_size_def)
  moreover have cl: "length (concat (map f vs)) = w * length vs" by (induction vs) (simp_all add: w)
  then have "store_all (map f vs) 0 (replicate (w * length vs) 0) = Ok (concat (map f vs), w * length vs)"
    using store_all_eq [of 0 "map f vs" "replicate (w * length vs) 0"] by (simp add: put_bytes_all)
  then have "store_all (map (\<lambda>p. if h then le_bytes 2 (ucast (p + ?m) :: u16) else le_bytes 4 (p + ?m)) ?p) 0
      (replicate (w * length vs) 0) = Ok (concat (map f vs), w * length vs)"
    by (cases h) (simp_all add: f comp_def)
  moreover have r: "le_word (le_bytes 4 ?m) = ?m" by simp
  ultimately show ?thesis using bp b8 unfolding decode_packed_def l obind_simps Let_def r by simp
qed

text \<open>
  The contract between the encoder of a column and the reader: the encoder writes the image of the
  values, and the reader turns the image back into the objects.
\<close>

locale column_codec = byte_codec width enc dec
  for width :: nat and enc :: "'a \<Rightarrow> bytes" and dec :: "bytes \<Rightarrow> 'a" +
  fixes encode :: "'a list \<Rightarrow> column_encoder" and image :: "'a list \<Rightarrow> bytes"
    and representable :: "'a list \<Rightarrow> bool" and encoding :: u8 and col_type :: u8
  assumes encode_writes: "vs \<noteq> [] \<Longrightarrow> representable vs \<Longrightarrow> writes (encode vs) (image vs)"
    and decode_image: "vs \<noteq> [] \<Longrightarrow> representable vs \<Longrightarrow> holds_column m d (image vs) \<Longrightarrow>
      cd_encoding d = encoding \<Longrightarrow> cd_type d = col_type \<Longrightarrow>
      decode_column m d (replicate (width * length vs) 0) (length vs) = Ok (concat (map enc vs))"
begin

lemma read_back:
  assumes "vs \<noteq> []" "representable vs" "col < length (r_descriptors r)"
    and "holds_column (r_mapping r) (r_descriptors r ! col) (image vs)"
    and "cd_encoding (r_descriptors r ! col) = encoding" "cd_type (r_descriptors r ! col) = col_type"
  shows "read_column width dec col (length vs) r = Ok vs"
  using assms decode_image [OF assms(1,2,4-6)] chunks_concat [of vs "[]"]
  by (simp add: read_column_def)

end

lemma decode_column_image:
  assumes "holds_column m d img"
  shows "\<exists>base. base + length img \<le> length m \<and> length img < 2 ^ 64 \<and> get_bytes base (length img) m = img
    \<and> decode_column m d output n =
      (if cd_encoding d = EncRaw then store 0 img output
       else if cd_encoding d = EncDelta then
         (if cd_type d = ColI64 then decode_delta ZigZag_decode add_i64 m base (of_nat (length img)) output n
          else decode_delta id add_u64 m base (of_nat (length img)) output n)
       else if cd_encoding d = EncBitPacked then decode_packed (cd_type d = ColU16) m base (of_nat (length img)) output n
       else if cd_encoding d = EncRLE \<and> cd_type d = ColU8 then decode_rle img output n
       else store 0 img output)"
proof -
  obtain base where b: "base + length img \<le> length m" "length m < 2 ^ 64" "cd_offset d = of_nat base"
    "cd_compressed_size d = of_nat (length img)" "get_bytes base (length img) m = img" "cd_data_crc d = crc32c img"
    using assms by (auto simp: holds_column_def)
  have u: "unat (of_nat base :: u64) = base" "unat (of_nat (length img) :: u64) = length img"
    using b(1,2) by (simp_all add: unat_of_nat_64)
  have l: "load base (length img) m = Ok img" using b by simp
  show ?thesis
    using b(1,2,5,6) unfolding decode_column_def Let_def b(3,4) u l by (intro exI [of _ base]) simp
qed

lemma sint_diff_add: "sub_i64 y x = Ok (y - x) \<Longrightarrow> add_i64 x (y - x) = Ok y"
proof -
  assume "sub_i64 y x = Ok (y - x)"
  then have r: "sint y - sint x \<in> {- (2 ^ 63)..<2 ^ 63}" by (simp add: sub_i64_def split: if_splits)
  then have "sint (y - x) = sint y - sint x"
    by (simp add: sint_word_ariths signed_take_bit_int_eq_self_iff)
  moreover have "sint y \<in> {- (2 ^ 63)..<2 ^ 63}" using sint_range_size [of y] by (simp add: word_size)
  ultimately show ?thesis by (simp add: add_i64_def)
qed

lemma decode_rle_image:
  assumes "vs \<noteq> []"
  shows "decode_rle (rle_image vs) (replicate (length vs) 0) (length vs) = Ok vs"
proof -
  note r = u8c.rle_roundtrip_codec [OF rle_image_encode [OF assms], of "[]"]
  have "rle_image vs \<noteq> []"
  proof
    assume "rle_image vs = []"
    then have "RLE_decode 1 u8_of_bytes [] (length vs) = Some (0, vs)" using r by simp
    then show False using assms by (simp add: RLE_decode_def rle_decode_loop.simps)
  qed
  then show ?thesis using r assms by (simp add: decode_rle_def put_bytes_all)
qed

lemma le_bytes_1 [simp]: "le_bytes 1 (b :: u8) = [b]" "le_bytes (Suc 0) (b :: u8) = [b]"
  by (simp_all add: le_bytes_def)

lemma concat_u8_bytes: "concat (map u8_bytes vs) = vs"
  by (induction vs) (simp_all add: u8_bytes_def)

lemma ucast_u16_u32: "(ucast (ucast (w :: u16) :: u32) :: u16) = w"
  by (rule bit_word_eqI) (simp add: bit_simps)

interpretation delta64: column_codec 8 "le_bytes 8" le_word "\<lambda>vs. encode_column_u64 vs EncDelta" "delta_image id"
    "\<lambda>_. True" EncDelta ColU64
proof
  show "vs \<noteq> [] \<Longrightarrow> holds_column m d (delta_image id vs) \<Longrightarrow> cd_encoding d = EncDelta \<Longrightarrow> cd_type d = ColU64 \<Longrightarrow>
      decode_column m d (replicate (8 * length vs) 0) (length vs) = Ok (concat (map (le_bytes 8) vs))" for vs m d
    using decode_column_image [of m d "delta_image id vs" "replicate (8 * length vs) 0" "length vs"]
      decode_delta_image [of vs _ id m id add_u64] by (auto simp: add_u64_def)
qed (simp_all add: writes_columns)

interpretation delta_price: column_codec 8 "le_bytes 8" le_word "\<lambda>vs. encode_column_i64 vs EncDelta" "delta_image ZigZag_encode"
    "steps_ok sub_i64" EncDelta ColI64
proof
  show "vs \<noteq> [] \<Longrightarrow> steps_ok sub_i64 vs \<Longrightarrow> holds_column m d (delta_image ZigZag_encode vs) \<Longrightarrow> cd_encoding d = EncDelta
      \<Longrightarrow> cd_type d = ColI64 \<Longrightarrow>
      decode_column m d (replicate (8 * length vs) 0) (length vs) = Ok (concat (map (le_bytes 8) vs))" for vs m d
    using decode_column_image [of m d "delta_image ZigZag_encode vs" "replicate (8 * length vs) 0" "length vs"]
      decode_delta_image [of vs _ ZigZag_encode m ZigZag_decode add_i64] by (auto simp: steps_ok_def sint_diff_add)
qed (simp_all add: writes_columns)

interpretation raw64: column_codec 8 "le_bytes 8" le_word "\<lambda>vs. encode_column_u64 vs EncRaw"
    "\<lambda>vs. concat (map (le_bytes 8) vs)" "\<lambda>_. True" EncRaw ColU64
proof
  show "vs \<noteq> [] \<Longrightarrow> holds_column m d (concat (map (le_bytes 8) vs)) \<Longrightarrow> cd_encoding d = EncRaw \<Longrightarrow> cd_type d = ColU64 \<Longrightarrow>
      decode_column m d (replicate (8 * length vs) 0) (length vs) = Ok (concat (map (le_bytes 8) vs))" for vs :: "u64 list" and m d
    using decode_column_image [of m d "concat (map (le_bytes 8) vs)" "replicate (8 * length vs) 0" "length vs"]
    by (auto simp: put_bytes_all)
qed (simp_all add: writes_columns)

interpretation packed32: column_codec 4 "le_bytes 4" le_word "\<lambda>vs. encode_column_u32 vs EncBitPacked" packed_image
    "\<lambda>_. True" EncBitPacked ColU32
proof
  show "vs \<noteq> [] \<Longrightarrow> holds_column m d (packed_image vs) \<Longrightarrow> cd_encoding d = EncBitPacked \<Longrightarrow> cd_type d = ColU32 \<Longrightarrow>
      decode_column m d (replicate (4 * length vs) 0) (length vs) = Ok (concat (map (le_bytes 4) vs))" for vs m d
    using decode_column_image [of m d "packed_image vs" "replicate (4 * length vs) 0" "length vs"]
      decode_packed_image [of vs _ m "le_bytes 4" 4 False] by auto
qed (simp_all add: writes_columns)

interpretation packed16: column_codec 2 "le_bytes 2" le_word "\<lambda>vs. encode_column_u16 vs EncBitPacked"
    "\<lambda>vs. packed_image (map ucast vs)" "\<lambda>_. True" EncBitPacked ColU16
proof
  show "vs \<noteq> [] \<Longrightarrow> holds_column m d (packed_image (map ucast vs)) \<Longrightarrow> cd_encoding d = EncBitPacked \<Longrightarrow> cd_type d = ColU16 \<Longrightarrow>
      decode_column m d (replicate (2 * length vs) 0) (length vs) = Ok (concat (map (le_bytes 2) vs))" for vs :: "u16 list" and m d
    using decode_column_image [of m d "packed_image (map ucast vs)" "replicate (2 * length vs) 0" "length vs"]
      decode_packed_image [of "map ucast vs" _ m "\<lambda>p. le_bytes 2 (ucast p :: u16)" 2 True] by (auto simp: comp_def ucast_u16_u32)
qed (simp_all add: writes_columns)

interpretation raw16: column_codec 2 "le_bytes 2" le_word "\<lambda>vs. encode_column_u16 vs EncRaw"
    "\<lambda>vs. concat (map (le_bytes 2) vs)" "\<lambda>_. True" EncRaw ColU16
proof
  show "vs \<noteq> [] \<Longrightarrow> holds_column m d (concat (map (le_bytes 2) vs)) \<Longrightarrow> cd_encoding d = EncRaw \<Longrightarrow> cd_type d = ColU16 \<Longrightarrow>
      decode_column m d (replicate (2 * length vs) 0) (length vs) = Ok (concat (map (le_bytes 2) vs))" for vs :: "u16 list" and m d
    using decode_column_image [of m d "concat (map (le_bytes 2) vs)" "replicate (2 * length vs) 0" "length vs"]
    by (auto simp: put_bytes_all)
qed (simp_all add: writes_columns)

interpretation rle8: column_codec 1 u8_bytes u8_of_bytes "\<lambda>vs. encode_column_u8 vs EncRLE" rle_image
    "\<lambda>_. True" EncRLE ColU8
proof
  show "vs \<noteq> [] \<Longrightarrow> holds_column m d (rle_image vs) \<Longrightarrow> cd_encoding d = EncRLE \<Longrightarrow> cd_type d = ColU8 \<Longrightarrow>
      decode_column m d (replicate (1 * length vs) 0) (length vs) = Ok (concat (map u8_bytes vs))" for vs m d
    using decode_column_image [of m d "rle_image vs" "replicate (length vs) 0" "length vs"] decode_rle_image [of vs]
    by (auto simp: concat_u8_bytes)
qed (simp_all add: writes_columns)

end
