(* ===== verification/Segment_Store.thy ===== *)
theory Segment_Store
  imports Segment_Reader
begin

text \<open>
  Writer and reader of a segment together: what the writer holds after a sequence of events, where
  \<^verbatim>\<open>write_to_file\<close> places each part of the file, and that the reader finds every part again.
\<close>

section \<open>What the writer holds\<close>

definition holds_events :: "SegmentWriter \<Rightarrow> CanonicalEvent list \<Rightarrow> bool" where
  "holds_events w es \<longleftrightarrow> w_exchange_ts w = map exchange_ts_ns es \<and> w_receive_ts w = map receive_ts_ns es
     \<and> w_sequences w = map sequence es \<and> w_instrument_ids w = map instrument_id es
     \<and> w_event_types w = map event_type es \<and> w_sides w = map side es \<and> w_flags w = map flags es
     \<and> w_price_ticks w = map price_ticks es \<and> w_quantities w = map quantity es \<and> w_venue_ids w = map venue_id es
     \<and> w_source_ids w = map source_id es \<and> w_trade_or_order_ids w = map trade_or_order_id es
     \<and> w_row_count w = length es \<and> length es \<le> w_max_rows w \<and> (\<forall>e\<in>set es. event_validate e = Ok ())"

text \<open>The statistics, with the initial values of the fields as bounds of the empty segment.\<close>

definition stats_exact :: "SegmentWriter \<Rightarrow> CanonicalEvent list \<Rightarrow> bool" where
  "stats_exact w es \<longleftrightarrow> w_min_timestamp w = fold min (map exchange_ts_ns es) (- 1)
     \<and> w_max_timestamp w = fold max (map exchange_ts_ns es) 0
     \<and> w_min_sequence w = fold min (map sequence es) (- 1) \<and> w_max_sequence w = fold max (map sequence es) 0
     \<and> w_min_instrument_id w = fold min (map (\<lambda>e. ucast (instrument_id e)) es) (- 1)
     \<and> w_max_instrument_id w = fold max (map (\<lambda>e. ucast (instrument_id e)) es) 0
     \<and> sint (w_min_price w) = fold min (map (\<lambda>e. sint (price_ticks e)) es) (2 ^ 63 - 1)
     \<and> sint (w_max_price w) = fold max (map (\<lambda>e. sint (price_ticks e)) es) (- (2 ^ 63))
     \<and> w_min_quantity w = fold min (map quantity es) (- 1) \<and> w_max_quantity w = fold max (map quantity es) 0"

lemma holds_new: "holds_events (SegmentWriter_new seg n) []"
  by (simp add: holds_events_def SegmentWriter_new_def)

lemma stats_new: "stats_exact (SegmentWriter_new seg n) []"
proof -
  have "sint (0x7FFFFFFFFFFFFFFF :: i64) = 2 ^ 63 - 1" "sint (0x8000000000000000 :: i64) = - (2 ^ 63)" by code_simp+
  then show ?thesis by (simp add: stats_exact_def SegmentWriter_new_def)
qed

lemma if_less_min_max:
  "(if x < m then x else m) = min x m" "(if m < x then x else m) = max x m" for x m :: "'a::linorder"
  by (auto simp: min_def max_def)

lemma sint_if: "sint (if b then x else y) = (if b then sint x else sint y)"
  by simp

lemma add_event_Ok:
  assumes "holds_events w es" "stats_exact w es" "length es < w_max_rows w" "event_validate e = Ok ()"
  shows "fst (add_event e w) = Ok () \<and> holds_events (snd (add_event e w)) (es @ [e])
    \<and> stats_exact (snd (add_event e w)) (es @ [e]) \<and> w_max_rows (snd (add_event e w)) = w_max_rows w
    \<and> w_segment_id (snd (add_event e w)) = w_segment_id w"
proof -
  have "\<not> is_full w" using assms by (simp add: is_full_def holds_events_def)
  then have a: "add_event e w = (Ok (), (update_statistics e (append_event e w))\<lparr>w_row_count := w_row_count w + 1\<rparr>)"
    using assms(4) by (simp add: add_event_def update_statistics_def append_event_def Let_def)
  have "holds_events ((update_statistics e (append_event e w))\<lparr>w_row_count := w_row_count w + 1\<rparr>) (es @ [e])"
    using assms(1,3,4) by (simp add: holds_events_def update_statistics_def append_event_def Let_def)
  moreover have "stats_exact ((update_statistics e (append_event e w))\<lparr>w_row_count := w_row_count w + 1\<rparr>) (es @ [e])"
    using assms(2) unfolding stats_exact_def update_statistics_def append_event_def Let_def if_less_min_max
    by (simp add: sint_if word_sless_alt if_less_min_max)
  ultimately show ?thesis by (simp add: a update_statistics_def append_event_def Let_def)
qed

lemma add_event_refused:
  "holds_events w es \<Longrightarrow> length es = w_max_rows w \<or> event_validate e \<noteq> Ok () \<Longrightarrow> snd (add_event e w) = w"
  by (auto simp: add_event_def is_full_def holds_events_def split: outcome.split)

text \<open>The events a writer of \<open>n\<close> rows takes out of a sequence.\<close>

definition accepted :: "nat \<Rightarrow> CanonicalEvent list \<Rightarrow> CanonicalEvent list" where
  "accepted n es = take n (filter (\<lambda>e. event_validate e = Ok ()) es)"

definition add_events :: "CanonicalEvent list \<Rightarrow> SegmentWriter \<Rightarrow> SegmentWriter" where
  "add_events es w = fold (\<lambda>e w. snd (add_event e w)) es w"

lemma add_events_inv:
  "holds_events (add_events es (SegmentWriter_new seg n)) (accepted n es)
   \<and> stats_exact (add_events es (SegmentWriter_new seg n)) (accepted n es)
   \<and> w_max_rows (add_events es (SegmentWriter_new seg n)) = n
   \<and> w_segment_id (add_events es (SegmentWriter_new seg n)) = seg"
proof (induction es rule: rev_induct)
  case Nil
  then show ?case using holds_new stats_new by (simp add: add_events_def accepted_def SegmentWriter_new_def)
next
  case (snoc e es)
  let ?w = "add_events es (SegmentWriter_new seg n)"
  have w: "add_events (es @ [e]) (SegmentWriter_new seg n) = snd (add_event e ?w)" by (simp add: add_events_def)
  consider "event_validate e = Ok ()" "length (accepted n es) < n" | "event_validate e \<noteq> Ok ()"
    | "length (accepted n es) = n" by (simp add: accepted_def) linarith
  then show ?case
  proof cases
    case 1
    then have "accepted n (es @ [e]) = accepted n es @ [e]" by (simp add: accepted_def min_def split: if_splits)
    then show ?thesis using add_event_Ok [of ?w "accepted n es" e] snoc 1 w by simp
  next
    case 2
    then show ?thesis using add_event_refused [of ?w "accepted n es" e] snoc w by (simp add: accepted_def)
  next
    case 3
    then have "accepted n (es @ [e]) = accepted n es" by (auto simp: accepted_def)
    then show ?thesis using add_event_refused [of ?w "accepted n es" e] snoc w 3 by simp
  qed
qed

lemma event_validate_price: "event_validate e = Ok () \<Longrightarrow> \<bar>sint (price_ticks e)\<bar> \<le> 1000000000000"
  by (auto simp: event_validate_def MaxPrice_def split: if_splits)

lemma prices_representable:
  "\<forall>e\<in>set es. event_validate e = Ok () \<Longrightarrow> steps_ok sub_i64 (map price_ticks es)"
proof -
  assume v: "\<forall>e\<in>set es. event_validate e = Ok ()"
  have "sub_i64 (price_ticks a) (price_ticks b) = Ok (price_ticks a - price_ticks b)" if "a \<in> set es" "b \<in> set es" for a b
    using event_validate_price [of a] event_validate_price [of b] v that by (simp add: sub_i64_def) arith
  then show ?thesis by (simp add: steps_ok_def)
qed

section \<open>Where the parts of the file are\<close>

definition images :: "SegmentWriter \<Rightarrow> bytes list" where
  "images w = [delta_image id (w_exchange_ts w), delta_image id (w_receive_ts w), delta_image id (w_sequences w),
     packed_image (w_instrument_ids w), rle_image (w_event_types w), rle_image (w_sides w),
     packed_image (map ucast (w_flags w)), delta_image ZigZag_encode (w_price_ticks w), packed_image (w_quantities w),
     concat (map (le_bytes 2) (w_venue_ids w)), concat (map (le_bytes 2) (w_source_ids w)),
     concat (map (le_bytes 8) (w_trade_or_order_ids w))]"

definition zone_at :: "SegmentWriter \<Rightarrow> nat" where
  "zone_at w = align64 (896 + length (concat (images w)))"

definition bloom_at :: "SegmentWriter \<Rightarrow> nat" where
  "bloom_at w = zone_at w + 768"

definition footer_at :: "SegmentWriter \<Rightarrow> nat" where
  "footer_at w = align64 (bloom_at w + length (bloom_build (w_instrument_ids w)))"

text \<open>The whole file stays within the buffer that the writer allocates for it.\<close>

definition segment_fits :: "SegmentWriter \<Rightarrow> bool" where
  "segment_fits w \<longleftrightarrow> footer_at w + 128 \<le> 2 * estimated_size w"

lemma align64_bounds: "n \<le> align64 n" "align64 n \<le> n + 63" "align64 n mod 64 = 0"
proof -
  have "(n + 63) mod 64 \<le> 63" by (rule less_Suc_eq_le [THEN iffD1]) simp
  then show "n \<le> align64 n" unfolding align64_def by arith
  show "align64 n \<le> n + 63" unfolding align64_def by arith
  show "align64 n mod 64 = 0" unfolding align64_def by (simp add: minus_mod_eq_mult_div)
qed

lemma align64_aligned: "n mod 64 = 0 \<Longrightarrow> align64 n = n"
  unfolding align64_def using mod_add_left_eq [of n 64 63] by simp

lemma zone_bloom_aligned: "align64 (zone_at w + 768) = bloom_at w"
proof -
  have "(zone_at w + 768) mod 64 = 0"
    using align64_bounds(3) [of "896 + length (concat (images w))"] mod_add_eq [of "zone_at w" 64 768]
    by (simp add: zone_at_def)
  then show ?thesis by (simp add: align64_aligned bloom_at_def)
qed

lemma columns_write:
  assumes "holds_events w es" "es \<noteq> []"
  shows "list_all2 (\<lambda>(d, enc) img. writes enc img) (segment_columns w) (images w)"
proof -
  have "steps_ok sub_i64 (map price_ticks es)" using assms(1) by (simp add: holds_events_def prices_representable)
  then show ?thesis
    using assms unfolding holds_events_def segment_columns_def images_def Let_def
    by (simp add: delta64.encode_writes delta_price.encode_writes raw64.encode_writes packed32.encode_writes
        packed16.encode_writes raw16.encode_writes rle8.encode_writes del: map_map)
qed

text \<open>The descriptors as they are written, and the other parts of the file.\<close>

definition sealed :: "SegmentWriter \<Rightarrow> ColumnDescriptor list" where
  "sealed w = map2 (\<lambda>img d. let d = d\<lparr>cd_data_crc := crc32c img\<rparr>
      in d\<lparr>cd_descriptor_crc := crc32c (take 60 (descriptor_bytes d))\<rparr>)
    (images w) (place_all 896 (images w) (map fst (segment_columns w)))"

definition table :: "SegmentWriter \<Rightarrow> bytes" where
  "table w = concat (map descriptor_bytes (sealed w))"

definition zones :: "SegmentWriter \<Rightarrow> ZoneMap list" where
  "zones w = map (zone_of_descriptor (w_row_count w)) (place_all 896 (images w) (map fst (segment_columns w)))"

definition file_header :: "SegmentWriter \<Rightarrow> SegmentHeader" where
  "file_header w = seal_header \<lparr>sh_magic = VTS1_magic, sh_version = VTS1_version,
     sh_schema_hash = compute_canonical_schema_hash, sh_segment_id = w_segment_id w,
     sh_row_count = of_nat (w_row_count w), sh_min_timestamp = w_min_timestamp w,
     sh_max_timestamp = w_max_timestamp w, sh_descriptor_offset = 128,
     sh_descriptor_size = of_nat (64 * ColumnCount), sh_zone_map_offset = of_nat (zone_at w),
     sh_bloom_filter_offset = of_nat (bloom_at w),
     sh_bloom_filter_size = of_nat (length (bloom_build (w_instrument_ids w))),
     sh_footer_offset = of_nat (footer_at w), sh_reserved = 0, sh_header_crc = 0\<rparr>"

definition file_footer :: "SegmentWriter \<Rightarrow> SegmentFooter" where
  "file_footer w = seal_footer \<lparr>sf_magic = VTS1_magic, sf_version = VTS1_version,
     sf_total_size = of_nat (footer_at w + 128), sf_descriptor_table_hash = ucast (crc32c (table w)),
     sf_segment_digest = segment_digest (sealed w), sf_commit_marker = CommittedMarker,
     sf_create_timestamp = 0, sf_min_sequence = w_min_sequence w, sf_max_sequence = w_max_sequence w,
     sf_row_count = of_nat (w_row_count w), sf_column_count = of_nat ColumnCount, sf_reserved = 0,
     sf_footer_crc = 0\<rparr>"

lemma length_place_all [simp]: "length (place_all off imgs ds) = min (length imgs) (length ds)"
  by (induction off imgs ds rule: place_all.induct) simp_all

lemma length_images [simp]: "length (images w) = 12" "length (segment_columns w) = 12"
  by (simp_all add: images_def segment_columns_def Let_def)

lemma length_sealed [simp]: "length (sealed w) = 12" "length (zones w) = 12"
  by (simp_all add: sealed_def zones_def)

lemma length_table [simp]: "length (table w) = 768"
  using descriptor_codec.length_concat_enc [of "sealed w"] by (simp add: table_def)

text \<open>Sealing reads each column out of the buffer where it was placed.\<close>

lemma seal_placed:
  assumes "get_bytes off (length (concat imgs)) buf = concat imgs" "off + length (concat imgs) < 2 ^ 64"
  shows "map (seal_descriptor buf) (place_all off imgs ds)
    = map2 (\<lambda>img d. let d = d\<lparr>cd_data_crc := crc32c img\<rparr> in d\<lparr>cd_descriptor_crc := crc32c (take 60 (descriptor_bytes d))\<rparr>)
        imgs (place_all off imgs ds)"
  using assms
proof (induction off imgs ds rule: place_all.induct)
  case (1 off img imgs d ds)
  have n: "unat (of_nat off :: u64) = off" "unat (of_nat (length img) :: u64) = length img"
    using "1.prems"(2) by (simp_all add: unat_of_nat_64)
  have "get_bytes off (length img) buf = take (length img) (get_bytes off (length (concat (img # imgs))) buf)"
    by (simp add: get_bytes_def min_def)
  then have i: "get_bytes off (length img) buf = img" using "1.prems"(1) by simp
  have "get_bytes (off + length img) (length (concat imgs)) buf = drop (length img) (get_bytes off (length (concat (img # imgs))) buf)"
    by (simp add: get_bytes_def drop_take add.commute)
  then have "get_bytes (off + length img) (length (concat imgs)) buf = concat imgs" using "1.prems"(1) by simp
  then show ?case using "1.IH" "1.prems"(2) n i by (simp add: seal_descriptor_def place_def Let_def add.assoc)
qed simp_all

lemma placed_holds:
  assumes "get_bytes off (length (concat imgs)) m = concat imgs" "off + length (concat imgs) \<le> length m" "length m < 2 ^ 64"
    and "length imgs = length ds"
  shows "list_all2 (holds_column m) (map2 (\<lambda>img d. let d = d\<lparr>cd_data_crc := crc32c img\<rparr>
      in d\<lparr>cd_descriptor_crc := crc32c (take 60 (descriptor_bytes d))\<rparr>) imgs (place_all off imgs ds)) imgs"
  using assms
proof (induction off imgs ds rule: place_all.induct)
  case (1 off img imgs d ds)
  have "get_bytes off (length img) m = take (length img) (get_bytes off (length (concat (img # imgs))) m)"
    by (simp add: get_bytes_def min_def)
  then have i: "get_bytes off (length img) m = img" using "1.prems"(1) by simp
  have "get_bytes (off + length img) (length (concat imgs)) m = drop (length img) (get_bytes off (length (concat (img # imgs))) m)"
    by (simp add: get_bytes_def drop_take add.commute)
  then have "get_bytes (off + length img) (length (concat imgs)) m = concat imgs" using "1.prems"(1) by simp
  then show ?case
    using "1.IH" "1.prems"(2-4) i
    by (auto simp: holds_column_def place_def Let_def add.assoc intro!: exI [of _ off])
qed simp_all

lemma get_bytes_take: "off + n \<le> k \<Longrightarrow> get_bytes off n (take k buf) = get_bytes off n buf"
  by (simp add: get_bytes_def drop_take min_def)

lemma concat_zones: "length (concat (map zone_bytes (zones w))) = 768"
  using zone_codec.length_concat_enc [of "zones w"] by simp

lemma segment_parts_order:
  "896 + length (concat (images w)) \<le> zone_at w" "bloom_at w + length (bloom_build (w_instrument_ids w)) \<le> footer_at w"
  using align64_bounds(1) by (simp_all add: zone_at_def footer_at_def)

text \<open>The contents of a file that holds the segment of \<open>w\<close>.\<close>

definition segment_file :: "SegmentWriter \<Rightarrow> bytes \<Rightarrow> bool" where
  "segment_file w m \<longleftrightarrow> length m = footer_at w + 128 \<and> get_bytes 0 128 m = header_bytes (file_header w)
     \<and> get_bytes 128 768 m = table w \<and> get_bytes 896 (length (concat (images w))) m = concat (images w)
     \<and> get_bytes (zone_at w) 768 m = concat (map zone_bytes (zones w))
     \<and> get_bytes (bloom_at w) (length (bloom_build (w_instrument_ids w))) m = bloom_build (w_instrument_ids w)
     \<and> get_bytes (footer_at w) 128 m = footer_bytes (file_footer w)"

lemma segment_file_assembled:
  assumes "footer_at w + 128 \<le> length b0"
    and b: "b1 = put_bytes 896 (concat (images w)) b0" "b2 = put_bytes (zone_at w) (concat (map zone_bytes (zones w))) b1"
      "b3 = put_bytes (bloom_at w) (bloom_build (w_instrument_ids w)) b2" "b4 = put_bytes 128 (table w) b3"
      "b5 = put_bytes 0 (header_bytes (file_header w)) b4" "b6 = put_bytes (footer_at w) (footer_bytes (file_footer w)) b5"
  shows "segment_file w (take (footer_at w + 128) b6) \<and> get_bytes 896 (length (concat (images w))) b3 = concat (images w)
    \<and> length b1 = length b0 \<and> length b2 = length b0 \<and> length b3 = length b0 \<and> length b4 = length b0
    \<and> length b5 = length b0 \<and> length b6 = length b0"
proof -
  note o = segment_parts_order [of w] bloom_at_def [of w] concat_zones [of w]
  have l: "length b1 = length b0" using o assms(1) by (simp add: b(1))
  have l2: "length b2 = length b0" using o assms(1) l by (simp add: b(2))
  have l3: "length b3 = length b0" using o assms(1) l2 by (simp add: b(3))
  have l4: "length b4 = length b0" using o assms(1) l3 by (simp add: b(4))
  have l5: "length b5 = length b0" using o assms(1) l4 by (simp add: b(5))
  have l6: "length b6 = length b0" using o assms(1) l5 by (simp add: b(6))
  note ls = l l2 l3 l4 l5 l6
  have 0: "get_bytes 0 128 b6 = header_bytes (file_header w)"
    using o assms(1) ls by (simp add: b(5,6) buf_simps)
  have 1: "get_bytes 128 768 b6 = table w" using o assms(1) ls by (simp add: b(4-6) buf_simps)
  have c: "get_bytes 896 (length (concat (images w))) b3 = concat (images w)"
    using o assms(1) ls by (simp add: b(1-3) buf_simps)
  have 2: "get_bytes 896 (length (concat (images w))) b6 = concat (images w)"
    using o assms(1) ls c by (simp add: b(4-6) buf_simps)
  have 3: "get_bytes (zone_at w) 768 b6 = concat (map zone_bytes (zones w))"
    using o assms(1) ls by (simp add: b(2-6) buf_simps)
  have 4: "get_bytes (bloom_at w) (length (bloom_build (w_instrument_ids w))) b6 = bloom_build (w_instrument_ids w)"
    using o assms(1) ls by (simp add: b(3-6) buf_simps)
  have 5: "get_bytes (footer_at w) 128 b6 = footer_bytes (file_footer w)"
    using o assms(1) ls by (simp add: b(6) buf_simps)
  show ?thesis
    using 0 1 2 3 4 5 c ls o assms(1) by (simp add: segment_file_def get_bytes_take)
qed

lemma write_to_file_Ok:
  assumes "holds_events w es" "es \<noteq> []" "segment_fits w" "footer_at w + 128 < 2 ^ 64"
    and alloc: "\<forall>n. \<exists>b. alloc n = Some b \<and> length b = n"
  shows "\<exists>m. write_to_file alloc w = Ok m \<and> segment_file w m"
proof -
  let ?E = "estimated_size w * 2" and ?ds = "place_all 896 (images w) (map fst (segment_columns w))"
  have rows: "w_row_count w \<noteq> 0" using assms(1,2) by (simp add: holds_events_def)
  obtain b0 where b0: "alloc ((?E + 64 - 1) div 64 * 64) = Some b0" "length b0 = (?E + 64 - 1) div 64 * 64"
    using alloc by metis
  have "?E \<noteq> 0" by (simp add: estimated_size_def)
  then have a: "AlignedBuffer_allocate alloc ?E = Ok b0" using b0(1) by (simp add: AlignedBuffer_allocate_def)
  have E: "?E \<le> length b0" using b0(2) by simp
  define b1 b2 b3 b4 b5 b6 where b: "b1 = put_bytes 896 (concat (images w)) b0"
    "b2 = put_bytes (zone_at w) (concat (map zone_bytes (zones w))) b1"
    "b3 = put_bytes (bloom_at w) (bloom_build (w_instrument_ids w)) b2" "b4 = put_bytes 128 (table w) b3"
    "b5 = put_bytes 0 (header_bytes (file_header w)) b4" "b6 = put_bytes (footer_at w) (footer_bytes (file_footer w)) b5"
  note o = segment_parts_order [of w] bloom_at_def [of w] concat_zones [of w]
  have t: "footer_at w + 128 \<le> length b0" using assms(3) E by (simp add: segment_fits_def)
  note f = segment_file_assembled [OF t b]
  have cols: "write_columns (segment_columns w) ?E b0 896 = Ok (?ds, b1, 896 + length (concat (images w)))"
    unfolding b(1) by (rule write_columns_eq [OF columns_write [OF assms(1,2)] _ E])
      (use o assms(3) in \<open>simp add: segment_fits_def\<close>)
  have z: "map (\<lambda>d. zone_bytes (zone_of_descriptor (w_row_count w) d)) ?ds = map zone_bytes (zones w)"
    by (simp add: zones_def)
  have zs: "store_all (map zone_bytes (zones w)) (zone_at w) b1 = Ok (b2, zone_at w + 768)"
    using store_all_eq [of "zone_at w" "map zone_bytes (zones w)" b1] f o t by (simp add: b(2))
  have bl: "store (bloom_at w) (bloom_build (w_instrument_ids w)) b2 = Ok b3"
    using f o t unfolding b(3) by (intro store_in_range) simp
  have sl: "map (seal_descriptor b3) ?ds = sealed w"
    unfolding sealed_def by (rule seal_placed) (use f o assms(4) in simp_all)
  have tb: "store 128 (table w) b3 = Ok b4" using f o t unfolding b(4) by (intro store_in_range) simp
  have hd: "store 0 (header_bytes (file_header w)) b4 = Ok b5" using f o t unfolding b(5) by (intro store_in_range) simp
  have ft: "store (footer_at w) (footer_bytes (file_footer w)) b5 = Ok b6"
    using f o t unfolding b(6) by (intro store_in_range) simp
  have off: "align64 (128 + 64 * ColumnCount) = 896" by (simp add: align64_def ColumnCount_def)
  have "write_to_file alloc w = Ok (take (footer_at w + 128) b6)"
    unfolding write_to_file_def Let_def a obind_simps off cols prod.case zone_at_def [of w, symmetric] z zs
      zone_bloom_aligned bl footer_at_def [of w, symmetric] sl table_def [of w, symmetric] tb
      of_nat_numeral file_header_def [of w, symmetric] file_footer_def [of w, symmetric] hd ft
    by (simp only: rows if_False)
  then show ?thesis using f by blast
qed

section \<open>Reading a segment file\<close>

lemma read_table_eq:
  assumes "get_bytes off (64 * length ds) m = concat (map enc ds)" "off + 64 * length ds \<le> length m"
    and "\<And>d. length (enc d) = 64" "\<And>d. dec (enc d) = d" "\<forall>d\<in>set ds. ok d" "i + length ds \<le> length xs"
  shows "read_table dec ok [i..<i + length ds] off m xs = (Ok (), take i xs @ ds @ drop (i + length ds) xs)"
  using assms
proof (induction ds arbitrary: i off xs)
  case Nil
  then show ?case by simp
next
  case (Cons d ds)
  have "get_bytes off 64 m = take 64 (get_bytes off (64 * length (d # ds)) m)" by (simp add: get_bytes_def min_def)
  then have d: "get_bytes off 64 m = enc d" using Cons.prems(1,3) by simp
  have "get_bytes (off + 64) (64 * length ds) m = drop 64 (get_bytes off (64 * length (d # ds)) m)"
    by (simp add: get_bytes_def drop_take add.commute)
  then have ds: "get_bytes (off + 64) (64 * length ds) m = concat (map enc ds)" using Cons.prems(1,3) by simp
  have u: "[i..<i + length (d # ds)] = i # [Suc i..<Suc i + length ds]" by (simp add: upt_conv_Cons del: upt_Suc)
  have "read_table dec ok [Suc i..<Suc i + length ds] (off + 64) m (xs[i := d])
      = (Ok (), take (Suc i) (xs[i := d]) @ ds @ drop (Suc i + length ds) (xs[i := d]))"
    by (rule Cons.IH) (use Cons.prems ds in simp_all)
  moreover have "take (Suc i) (xs[i := d]) = take i xs @ [d]" using Cons.prems(6) by (simp add: take_Suc_conv_app_nth)
  ultimately show ?case using d Cons.prems(2,4,5,6) unfolding u by (simp add: Let_def)
qed

lemma file_header_simps [simp]:
  "sh_magic (file_header w) = VTS1_magic" "sh_version (file_header w) = VTS1_version"
  "sh_schema_hash (file_header w) = compute_canonical_schema_hash" "sh_segment_id (file_header w) = w_segment_id w"
  "sh_row_count (file_header w) = of_nat (w_row_count w)" "sh_min_timestamp (file_header w) = w_min_timestamp w"
  "sh_max_timestamp (file_header w) = w_max_timestamp w" "sh_descriptor_offset (file_header w) = 128"
  "sh_zone_map_offset (file_header w) = of_nat (zone_at w)" "sh_bloom_filter_offset (file_header w) = of_nat (bloom_at w)"
  "sh_bloom_filter_size (file_header w) = of_nat (length (bloom_build (w_instrument_ids w)))"
  "sh_footer_offset (file_header w) = of_nat (footer_at w)" "header_crc_ok (file_header w)"
  by (simp_all add: file_header_def seal_header_def header_crc_ok_def)

lemma sealed_crc_ok: "\<forall>d\<in>set (sealed w). descriptor_crc_ok d"
  by (auto simp: sealed_def descriptor_crc_ok_def Let_def descriptor_bytes_crc set_zip)

lemma unat_of_nat_32: "n < 2 ^ 32 \<Longrightarrow> unat (of_nat n :: u32) = n"
  by (simp add: unat_of_nat)

text \<open>The reader after opening the file.\<close>

definition opened :: "SegmentWriter \<Rightarrow> bytes \<Rightarrow> SegmentReader" where
  "opened w m = \<lparr>r_mapping = m, r_open = True, r_header = file_header w, r_descriptors = sealed w, r_zone_maps = zones w,
     r_bloom_filter = bloom_build (w_instrument_ids w), r_segment_id = w_segment_id w, r_row_count = w_row_count w,
     r_min_timestamp = w_min_timestamp w, r_max_timestamp = w_max_timestamp w\<rparr>"

lemma open_segment:
  assumes "segment_file w m" "footer_at w + 128 < 2 ^ 32" "w_row_count w < 2 ^ 64" "w_instrument_ids w \<noteq> []"
  shows "SegmentReader_open (Ok m) SegmentReader_init = (Ok (), opened w m)"
proof -
  note m = assms(1) [unfolded segment_file_def] and o = segment_parts_order [of w] bloom_at_def [of w]
  let ?B = "bloom_build (w_instrument_ids w)"
  have "take 128 m = header_bytes (file_header w)" using m by (simp add: get_bytes_def)
  then have h: "header_of_bytes (take 128 m) = file_header w" by (simp add: header_codec.dec_enc)
  have u: "unat (of_nat (zone_at w) :: u32) = zone_at w" "unat (of_nat (bloom_at w) :: u32) = bloom_at w"
    "unat (of_nat (length ?B) :: u32) = length ?B" "unat (of_nat (w_row_count w) :: u64) = w_row_count w"
    using o assms(2,3) by (intro unat_of_nat_32 unat_of_nat_64; linarith)+
  have B: "0 < length ?B"
    using for_items_size(2) [of "length (w_instrument_ids w)"] assms(4) by (simp add: bloom_build_def Let_def fold_bloom_add)
  have d: "read_table descriptor_of_bytes descriptor_crc_ok [0..<ColumnCount] 128 m xs = (Ok (), sealed w)"
    if "length xs = 12" for xs
    using read_table_eq [of 128 "sealed w" m descriptor_bytes descriptor_of_bytes descriptor_crc_ok 0 xs] m o that
      sealed_crc_ok [of w]
    by (simp add: ColumnCount_def table_def descriptor_codec.dec_enc)
  have z: "read_table zone_of_bytes (\<lambda>_. True) [0..<ColumnCount] (zone_at w) m xs = (Ok (), zones w)"
    if "length xs = 12" for xs
    using read_table_eq [of "zone_at w" "zones w" m zone_bytes zone_of_bytes "\<lambda>_. True" 0 xs] m o that
    by (simp add: ColumnCount_def zone_codec.dec_enc)
  have r: "length (resize ColumnCount x []) = 12" for x :: 'x by (simp add: resize_def ColumnCount_def)
  have "read_segment_header (SegmentReader_init\<lparr>r_mapping := m, r_open := True\<rparr>) =
      (Ok (), SegmentReader_init\<lparr>r_mapping := m, r_open := True, r_header := file_header w, r_segment_id := w_segment_id w,
        r_row_count := w_row_count w, r_min_timestamp := w_min_timestamp w, r_max_timestamp := w_max_timestamp w\<rparr>)"
    using m h u(4) by (simp add: read_segment_header_def Let_def)
  then show ?thesis
    using m o u B d [OF r] z [OF r]
    by (simp add: SegmentReader_open_def read_descriptors_def SegmentReader_init_def opened_def Let_def)
qed

lemma nth_sealed:
  assumes "k < 12"
  shows "cd_encoding (sealed w ! k) = cd_encoding (fst (segment_columns w ! k))
    \<and> cd_type (sealed w ! k) = cd_type (fst (segment_columns w ! k))
    \<and> cd_min_value (sealed w ! k) = cd_min_value (fst (segment_columns w ! k))
    \<and> cd_max_value (sealed w ! k) = cd_max_value (fst (segment_columns w ! k))"
proof -
  have "cd_encoding (place_all off imgs ds ! j) = cd_encoding (ds ! j) \<and> cd_type (place_all off imgs ds ! j) = cd_type (ds ! j)
      \<and> cd_min_value (place_all off imgs ds ! j) = cd_min_value (ds ! j)
      \<and> cd_max_value (place_all off imgs ds ! j) = cd_max_value (ds ! j)"
    if "j < length imgs" "length imgs = length ds" for off imgs ds j
    using that
    by (induction off imgs ds arbitrary: j rule: place_all.induct) (auto simp: place_def nth_Cons split: nat.split)
  from this [of k "images w" "map fst (segment_columns w)" 896] show ?thesis
    using assms by (simp add: sealed_def Let_def)
qed

lemma sealed_holds:
  assumes "segment_file w m" "footer_at w + 128 < 2 ^ 64" "k < 12"
  shows "holds_column m (sealed w ! k) (images w ! k)"
proof -
  note m = assms(1) [unfolded segment_file_def] and o = segment_parts_order [of w] bloom_at_def [of w]
  have "list_all2 (holds_column m) (sealed w) (images w)"
    unfolding sealed_def by (rule placed_holds) (use m o assms(2) in simp_all)
  then show ?thesis using assms(3) by (simp add: list_all2_conv_all_nth)
qed

section \<open>The columns read back\<close>

lemma column_kinds:
  assumes "k < 12"
  shows "cd_type (fst (segment_columns w ! k)) = get_column_type k
    \<and> cd_encoding (fst (segment_columns w ! k)) = [3, 3, 3, 2, 5, 5, 2, 3, 2, 0, 0, 0] ! k"
proof -
  have "k = 0 \<or> k = 1 \<or> k = 2 \<or> k = 3 \<or> k = 4 \<or> k = 5 \<or> k = 6 \<or> k = 7 \<or> k = 8 \<or> k = 9 \<or> k = 10 \<or> k = 11"
    using assms by arith
  then show ?thesis by (elim disjE) (simp_all add: segment_columns_def column_descriptor_def Let_def)
qed

text \<open>What \<open>read_back\<close> of the column codecs asks of column \<open>k\<close> of the opened file.\<close>

lemma column_found:
  assumes "segment_file w m" "footer_at w + 128 < 2 ^ 64" "k < 12"
  shows "k < length (r_descriptors (opened w m))"
    and "images w ! k = img \<Longrightarrow> holds_column (r_mapping (opened w m)) (r_descriptors (opened w m) ! k) img"
    and "cd_encoding (r_descriptors (opened w m) ! k) = [3, 3, 3, 2, 5, 5, 2, 3, 2, 0, 0, 0] ! k"
    and "cd_type (r_descriptors (opened w m) ! k) = get_column_type k"
  using sealed_holds [OF assms] column_kinds [OF assms(3), of w] nth_sealed [OF assms(3), of w] assms(3)
  by (auto simp: opened_def)

lemma images_of_events:
  assumes "holds_events w es"
  shows "images w ! 0 = delta_image id (map exchange_ts_ns es)" "images w ! 1 = delta_image id (map receive_ts_ns es)"
    "images w ! 2 = delta_image id (map sequence es)" "images w ! 3 = packed_image (map instrument_id es)"
    "images w ! 4 = rle_image (map event_type es)" "images w ! 5 = rle_image (map side es)"
    "images w ! 6 = packed_image (map ucast (map flags es))" "images w ! 7 = delta_image ZigZag_encode (map price_ticks es)"
    "images w ! 8 = packed_image (map quantity es)" "images w ! 9 = concat (map (le_bytes 2) (map venue_id es))"
    "images w ! 10 = concat (map (le_bytes 2) (map source_id es))"
    "images w ! 11 = concat (map (le_bytes 8) (map trade_or_order_id es))"
  using assms by (simp_all add: images_def holds_events_def del: map_map)

lemmas read_column_defs = read_column_u64_def read_column_i64_def read_column_u32_def read_column_u16_def read_column_u8_def

lemma read_columns:
  assumes "segment_file w m" "footer_at w + 128 < 2 ^ 64" "holds_events w es" "es \<noteq> []"
  shows "read_column_u64 0 (length es) (opened w m) = Ok (map exchange_ts_ns es)"
    and "read_column_u64 1 (length es) (opened w m) = Ok (map receive_ts_ns es)"
    and "read_column_u64 2 (length es) (opened w m) = Ok (map sequence es)"
    and "read_column_u32 3 (length es) (opened w m) = Ok (map instrument_id es)"
    and "read_column_u8 4 (length es) (opened w m) = Ok (map event_type es)"
    and "read_column_u8 5 (length es) (opened w m) = Ok (map side es)"
    and "read_column_u16 6 (length es) (opened w m) = Ok (map flags es)"
    and "read_column_i64 7 (length es) (opened w m) = Ok (map price_ticks es)"
    and "read_column_u32 8 (length es) (opened w m) = Ok (map quantity es)"
    and "read_column_u16 9 (length es) (opened w m) = Ok (map venue_id es)"
    and "read_column_u16 10 (length es) (opened w m) = Ok (map source_id es)"
    and "read_column_u64 11 (length es) (opened w m) = Ok (map trade_or_order_id es)"
proof -
  note found = column_found [OF assms(1,2)] and img = images_of_events [OF assms(3)]
  have p: "steps_ok sub_i64 (map price_ticks es)"
    using assms(3) prices_representable by (simp add: holds_events_def)
  have ne: "r_descriptors (opened w m) \<noteq> []" using found(1) [of 0] by auto
  note facts = assms(4) p ne found img img(2) [unfolded One_nat_def] get_column_type_def
  show "read_column_u64 0 (length es) (opened w m) = Ok (map exchange_ts_ns es)"
    using delta64.read_back [of "map exchange_ts_ns es" 0 "opened w m"] by (simp add: facts read_column_defs del: map_map)
  show "read_column_u64 1 (length es) (opened w m) = Ok (map receive_ts_ns es)"
    using delta64.read_back [of "map receive_ts_ns es" 1 "opened w m"] by (simp add: facts read_column_defs del: map_map)
  show "read_column_u64 2 (length es) (opened w m) = Ok (map sequence es)"
    using delta64.read_back [of "map sequence es" 2 "opened w m"] by (simp add: facts read_column_defs del: map_map)
  show "read_column_u32 3 (length es) (opened w m) = Ok (map instrument_id es)"
    using packed32.read_back [of "map instrument_id es" 3 "opened w m"] by (simp add: facts read_column_defs del: map_map)
  show "read_column_u8 4 (length es) (opened w m) = Ok (map event_type es)"
    using rle8.read_back [of "map event_type es" 4 "opened w m"] by (simp add: facts read_column_defs del: map_map)
  show "read_column_u8 5 (length es) (opened w m) = Ok (map side es)"
    using rle8.read_back [of "map side es" 5 "opened w m"] by (simp add: facts read_column_defs del: map_map)
  show "read_column_u16 6 (length es) (opened w m) = Ok (map flags es)"
    using packed16.read_back [of "map flags es" 6 "opened w m"] by (simp add: facts read_column_defs del: map_map)
  show "read_column_i64 7 (length es) (opened w m) = Ok (map price_ticks es)"
    using delta_price.read_back [of "map price_ticks es" 7 "opened w m"] by (simp add: facts read_column_defs del: map_map)
  show "read_column_u32 8 (length es) (opened w m) = Ok (map quantity es)"
    using packed32.read_back [of "map quantity es" 8 "opened w m"] by (simp add: facts read_column_defs del: map_map)
  show "read_column_u16 9 (length es) (opened w m) = Ok (map venue_id es)"
    using raw16.read_back [of "map venue_id es" 9 "opened w m"] by (simp add: facts read_column_defs del: map_map)
  show "read_column_u16 10 (length es) (opened w m) = Ok (map source_id es)"
    using raw16.read_back [of "map source_id es" 10 "opened w m"] by (simp add: facts read_column_defs del: map_map)
  show "read_column_u64 11 (length es) (opened w m) = Ok (map trade_or_order_id es)"
    using raw64.read_back [of "map trade_or_order_id es" 11 "opened w m"] by (simp add: facts read_column_defs del: map_map)
qed

lemma read_all_opened:
  assumes "segment_file w m" "footer_at w + 128 < 2 ^ 64" "holds_events w es" "es \<noteq> []"
  shows "read_all_events (opened w m) = Ok es"
proof -
  have n: "r_row_count (opened w m) = length es" using assms(3) by (simp add: opened_def holds_events_def)
  have "map (\<lambda>i. \<lparr>exchange_ts_ns = map exchange_ts_ns es ! i, receive_ts_ns = map receive_ts_ns es ! i,
      sequence = map sequence es ! i, instrument_id = map instrument_id es ! i, event_type = map event_type es ! i,
      side = map side es ! i, flags = map flags es ! i, price_ticks = map price_ticks es ! i,
      quantity = map quantity es ! i, venue_id = map venue_id es ! i, source_id = map source_id es ! i,
      trade_or_order_id = map trade_or_order_id es ! i\<rparr>) [0..<length es] = es"
    by (rule nth_equalityI) simp_all
  then show ?thesis
    unfolding read_all_events_def n Let_def read_columns [OF assms] obind_simps using assms(4) by simp
qed

lemma validate_columns_held:
  "list_all2 (holds_column m) ds imgs \<Longrightarrow> validate_columns m ds = Ok ()"
proof (induction rule: list_all2_induct)
  case (Cons d ds img imgs)
  obtain base where b: "base + length img \<le> length m" "length m < 2 ^ 64" "cd_offset d = of_nat base"
    "cd_compressed_size d = of_nat (length img)" "get_bytes base (length img) m = img" "cd_data_crc d = crc32c img"
    using Cons.hyps(1) by (auto simp: holds_column_def)
  have u: "unat (of_nat base :: u64) = base" "unat (of_nat (length img) :: u64) = length img"
    "unat (of_nat base + of_nat (length img) :: u64) = base + length img"
    using b(1,2) unat_of_nat_64 [of "base + length img"] by (simp_all add: unat_of_nat_64)
  have l: "load base (length img) m = Ok img" using b by simp
  show ?case unfolding validate_columns.simps b(3,4) u l using b(1,6) Cons.IH by simp
qed simp

lemma validate_opened:
  assumes "segment_file w m" "footer_at w + 128 < 2 ^ 32"
  shows "SegmentReader_validate (opened w m) = Ok ()"
proof -
  note m = assms(1) [unfolded segment_file_def] and o = segment_parts_order [of w] bloom_at_def [of w]
  have c: "list_all2 (holds_column m) (sealed w) (images w)"
    using sealed_holds [OF assms(1)] assms(2) by (simp add: list_all2_conv_all_nth)
  have f: "footer_of_bytes (get_bytes (footer_at w) 128 m) = file_footer w" using m by (simp add: footer_codec.dec_enc)
  have u: "unat (of_nat (footer_at w) :: u32) = footer_at w" using assms(2) by (intro unat_of_nat_32) simp
  have t: "load 128 768 m = Ok (table w)" using m o by simp
  have "validate_footer (opened w m) (file_footer w) = Ok ()"
    by (simp add: t validate_footer_def file_footer_def seal_footer_def opened_def)
  then show ?thesis
    using validate_columns_held [OF c] f u m by (simp add: SegmentReader_validate_def opened_def Let_def)
qed

section \<open>When a segment fits\<close>

lemma length_concat_le: "\<forall>x\<in>set xs. length (f x) \<le> k \<Longrightarrow> length (concat (map f xs)) \<le> k * length xs"
  by (induction xs) auto

lemma length_diffs [simp]: "length (diffs p vs) = length vs"
  by (induction vs arbitrary: p) simp_all

lemma length_delta_image:
  assumes "vs \<noteq> []" "\<forall>d\<in>set (diffs (hd vs) (tl vs)). length (varint_bytes (zig d)) \<le> k"
  shows "length (delta_image zig vs) \<le> 8 + k * (length vs - 1)"
  using length_concat_le [OF assms(2)] by (simp add: delta_image_def delta_tail_def)

lemma length_packed_le:
  assumes "vs \<noteq> []" "\<forall>v\<in>set vs. unat v < 2 ^ b" "b \<le> 32" "1 \<le> b" "8 dvd b"
  shows "length (packed_image vs) \<le> 5 + b div 8 * length vs"
proof -
  have mx: "max_element vs \<in> set vs"
    using assms(1) Max_in [of "set vs"] Max.set_eq_fold [of "hd vs" "tl vs"] by (cases vs) (auto simp: max_element_def)
  have mn: "min_element vs \<le> max_element vs" using min_max_element(1) [OF mx] .
  have "unat (max_element vs - min_element vs) < 2 ^ b"
    using assms(2) mx mn by (simp add: unat_sub) (meson less_imp_diff_less)
  then have "bits_required (max_element vs - min_element vs) \<le> b"
    using bits_required_loop_bound [of "max_element vs - min_element vs" b 0] assms(4) by (simp add: bits_required_def)
  then have "(length vs * bits_required (max_element vs - min_element vs) + 7) div 8 \<le> (length vs * b + 7) div 8"
    by (intro div_le_mono) simp
  also obtain c where c: "b = 8 * c" using assms(5) by (auto simp: dvd_def)
  then have "(length vs * b + 7) div 8 = (7 + (length vs * c) * 8) div 8" by (simp add: ac_simps)
  also have "\<dots> = b div 8 * length vs" unfolding c by (subst div_mult_self1) simp_all
  finally show ?thesis
    using length_packed_image [OF assms(1)] bits_required_bound(1) by (simp add: bp_max_encoded_size_def)
qed

text \<open>Every difference of a delta column takes at most \<open>k\<close> bytes.\<close>

definition steps_within :: "nat \<Rightarrow> (u64 \<Rightarrow> u64) \<Rightarrow> u64 list \<Rightarrow> bool" where
  "steps_within k zig vs \<longleftrightarrow> (\<forall>d\<in>set (diffs (hd vs) (tl vs)). length (varint_bytes (zig d)) \<le> k)"

lemma steps_within_10: "steps_within 10 zig vs"
  by (simp add: steps_within_def length_varint_bytes_le_10)

lemma length_images_le:
  assumes "holds_events w es" "es \<noteq> []" "steps_within k id (map exchange_ts_ns es)" "steps_within k id (map receive_ts_ns es)"
    and "steps_within k id (map sequence es)" "steps_within k ZigZag_encode (map price_ticks es)"
  shows "length (concat (images w)) \<le> 47 + 30 * length es + 4 * (k * (length es - 1))"
proof -
  let ?n = "length es"
  note h = assms(1) [unfolded holds_events_def]
  have v: "unat (instrument_id e) < 2 ^ 16" if "e \<in> set es" for e
  proof -
    have "event_validate e = Ok ()" using h that by blast
    then show ?thesis by (simp add: event_validate_def MaxInstruments_def split: if_splits)
  qed
  have d: "length (delta_image zig (map f es)) \<le> 8 + k * (?n - 1)" if "steps_within k zig (map f es)" for zig f
    using length_delta_image [of "map f es" zig k] that assms(2) by (simp add: steps_within_def)
  have p: "length (packed_image (map instrument_id es)) \<le> 5 + 2 * ?n"
    using length_packed_le [of "map instrument_id es" 16] v assms(2) by simp
  have f: "unat (ucast (flags e) :: u32) < 2 ^ 16" for e :: CanonicalEvent
    using unat_lt_pow [of "flags e"] by (simp add: unsigned_ucast_eq take_bit_nat_eq_self)
  have p2: "length (packed_image (map ucast (map flags es))) \<le> 5 + 2 * ?n"
    using length_packed_le [of "map ucast (map flags es)" 16] f assms(2) by simp
  have p3: "length (packed_image (map quantity es)) \<le> 5 + 4 * ?n"
    using length_packed_le [of "map quantity es" 32] unat_lt_pow [where 'a = 32] assms(2) by simp
  have r: "length (rle_image (map g es)) \<le> 5 * ?n" for g using length_rle_image [of "map g es"] by simp
  have c: "length (concat (map (le_bytes j) (map g es))) = j * ?n" for j and g :: "CanonicalEvent \<Rightarrow> 'z::len word"
    by (simp only: concat_le_bytes_length length_map)
  have "length (concat (images w)) = length (delta_image id (map exchange_ts_ns es)) + length (delta_image id (map receive_ts_ns es))
      + length (delta_image id (map sequence es)) + length (packed_image (map instrument_id es))
      + length (rle_image (map event_type es)) + length (rle_image (map side es))
      + length (packed_image (map ucast (map flags es))) + length (delta_image ZigZag_encode (map price_ticks es))
      + length (packed_image (map quantity es)) + 2 * ?n + 2 * ?n + 8 * ?n"
    using h c by (simp add: images_def del: map_map)
  then show ?thesis
    using d [OF assms(3)] d [OF assms(4)] d [OF assms(5)] d [OF assms(6)] p p2 p3 r [of event_type] r [of side] by linarith
qed

lemma fits_arith:
  "f \<le> z + 768 + b + 63 \<Longrightarrow> z \<le> 896 + i + 63 \<Longrightarrow> 2 * b \<le> 5 * n \<Longrightarrow> i \<le> 47 + 30 * n + 4 * q \<Longrightarrow>
   8 * q \<le> 7300 + 47 * n \<Longrightarrow> f + 128 \<le> 5632 + 56 * (n :: nat)"
  by linarith

lemma segment_fits_if:
  assumes "holds_events w es" "es \<noteq> []" "length (concat (images w)) \<le> 47 + 30 * length es + 4 * (k * (length es - 1))"
    and "8 * (k * (length es - 1)) \<le> 7300 + 47 * length es"
  shows "segment_fits w"
proof -
  let ?n = "length es"
  define q where "q = k * (?n - 1)"
  note q = assms(3,4) [folded q_def]
  have i: "w_instrument_ids w = map instrument_id es" "w_row_count w = ?n" using assms(1) by (simp_all add: holds_events_def)
  have "length (bloom_build (map instrument_id es)) = size_bytes (for_items ?n 10)"
    by (simp add: bloom_build_def Let_def fold_bloom_add)
  then have b: "2 * length (bloom_build (map instrument_id es)) \<le> 5 * ?n"
    using for_items_size(3) [of ?n] assms(2) by simp
  have z: "zone_at w \<le> 896 + length (concat (images w)) + 63" unfolding zone_at_def by (rule align64_bounds(2))
  have f: "footer_at w \<le> zone_at w + 768 + length (bloom_build (map instrument_id es)) + 63"
    unfolding footer_at_def bloom_at_def i by (rule align64_bounds(2))
  moreover have "2 * estimated_size w = 5632 + 56 * ?n" by (simp add: estimated_size_def ColumnCount_def i)
  ultimately show ?thesis using fits_arith [OF f z b q] by (simp add: segment_fits_def)
qed

section \<open>Checksums\<close>

lemma get_bytes_change:
  assumes "length xs = length ys" "off \<le> length pre" "length pre + length xs \<le> off + n" "off + n \<le> length (pre @ xs @ post)"
  shows "\<exists>a b. get_bytes off n (pre @ xs @ post) = a @ xs @ b \<and> get_bytes off n (pre @ ys @ post) = a @ ys @ b"
proof -
  have "length pre - off + length xs \<le> n" using assms(2,3) by simp
  then obtain k where n: "n = length pre - off + length xs + k" using le_Suc_ex by blast
  have e: "get_bytes off n (pre @ zs @ post) = drop off pre @ zs @ take k post" if "length zs = length xs" for zs
    using assms(2) that by (simp add: get_bytes_def n)
  show ?thesis using e [OF refl] e [OF assms(1) [symmetric]] by (intro exI conjI)
qed

lemma crc32c_change:
  "length xs = length ys \<Longrightarrow> length xs \<le> 4 \<Longrightarrow> xs \<noteq> ys \<Longrightarrow> crc32c (a @ xs @ b) \<noteq> crc32c (a @ ys @ b)"
  unfolding crc32c_def by (rule crc.detects_burst)

text \<open>A change of up to four neighbouring bytes of the data of descriptor \<open>d\<close>.\<close>

definition changes_column :: "ColumnDescriptor \<Rightarrow> bytes \<Rightarrow> bytes \<Rightarrow> bool" where
  "changes_column d m m' \<longleftrightarrow> (\<exists>pre xs ys post. m = pre @ xs @ post \<and> m' = pre @ ys @ post \<and> length xs = length ys
     \<and> length xs \<le> 4 \<and> xs \<noteq> ys \<and> unat (cd_offset d) \<le> length pre
     \<and> length pre + length xs \<le> unat (cd_offset d) + unat (cd_compressed_size d))"

lemma changed_column_crc:
  assumes "changes_column d m m'" "load (unat (cd_offset d)) (unat (cd_compressed_size d)) m = Ok col"
  shows "length m' = length m \<and>
    (\<exists>col'. load (unat (cd_offset d)) (unat (cd_compressed_size d)) m' = Ok col' \<and> crc32c col' \<noteq> crc32c col)"
proof -
  obtain pre xs ys post where c: "m = pre @ xs @ post" "m' = pre @ ys @ post" "length xs = length ys" "length xs \<le> 4" "xs \<noteq> ys"
    "unat (cd_offset d) \<le> length pre" "length pre + length xs \<le> unat (cd_offset d) + unat (cd_compressed_size d)"
    using assms(1) by (auto simp: changes_column_def)
  have l: "unat (cd_offset d) + unat (cd_compressed_size d) \<le> length m"
    and col: "col = get_bytes (unat (cd_offset d)) (unat (cd_compressed_size d)) m" using assms(2) by simp_all
  obtain a b where "col = a @ xs @ b" "get_bytes (unat (cd_offset d)) (unat (cd_compressed_size d)) m' = a @ ys @ b"
    using get_bytes_change [OF c(3,6,7), of post] l col unfolding c(1,2) by blast
  then show ?thesis using crc32c_change [OF c(3-5), of a b] l c(1-3) by auto
qed

lemma decode_column_bad_crc:
  assumes "load (unat (cd_offset d)) (unat (cd_compressed_size d)) m = Ok c" "crc32c c \<noteq> cd_data_crc d"
  shows "decode_column m d out n = Err SegmentChecksumFailed"
  unfolding decode_column_def Let_def assms(1) using assms(2) by simp

lemma validate_columns_changed:
  assumes "validate_columns m ds = Ok ()" "d \<in> set ds" "changes_column d m m'"
  shows "validate_columns m' ds = Err SegmentChecksumFailed"
  using assms(1,2)
proof (induction ds)
  case (Cons e ds)
  let ?load = "load (unat (cd_offset e)) (unat (cd_compressed_size e))"
  have len: "length m' = length m" using assms(3) by (auto simp: changes_column_def)
  obtain col where b: "\<not> length m < unat (cd_offset e + cd_compressed_size e)" "?load m = Ok col"
    "crc32c col = cd_data_crc e" "validate_columns m ds = Ok ()"
    using Cons.prems(1) by (auto simp: obind_eq_Ok split: if_splits)
  then obtain col' where c: "?load m' = Ok col'" using len by (cases "?load m'") (auto simp: load_def split: if_splits)
  have ih: "d \<in> set ds \<Longrightarrow> validate_columns m' ds = Err SegmentChecksumFailed" using Cons.IH b(4) by blast
  have "d = e \<Longrightarrow> crc32c col' \<noteq> cd_data_crc e" using changed_column_crc [OF assms(3)] b(2,3) c by auto
  then show ?case unfolding validate_columns.simps c using b(1) len ih Cons.prems(2) by auto
qed simp

section \<open>Properties\<close>

lemma segment_fits_small: "holds_events w es \<Longrightarrow> es \<noteq> [] \<Longrightarrow> length es \<le> 220 \<Longrightarrow> segment_fits w"
  using segment_fits_if [of w es 10] length_images_le [of w es 10] by (simp add: steps_within_10)

lemma segment_size_bound:
  assumes "segment_fits w" "holds_events w es" "length es \<le> 1048576"
  shows "footer_at w + 128 < 2 ^ 32"
proof -
  have "w_row_count w \<le> 1048576" using assms(2,3) by (simp add: holds_events_def)
  then show ?thesis using assms(1) by (simp add: segment_fits_def estimated_size_def ColumnCount_def)
qed

lemma segment_written:
  assumes "holds_events w es" "es \<noteq> []" "length es \<le> 1048576" "segment_fits w"
    and "\<forall>n. \<exists>b. alloc n = Some b \<and> length b = n"
  obtains m where "write_to_file alloc w = Ok m" "segment_file w m" "footer_at w + 128 < 2 ^ 32"
    "SegmentReader_open (Ok m) SegmentReader_init = (Ok (), opened w m)"
proof -
  have s: "footer_at w + 128 < 2 ^ 32" using segment_size_bound [OF assms(4,1,3)] .
  then obtain m where m: "write_to_file alloc w = Ok m" "segment_file w m"
    using write_to_file_Ok [OF assms(1,2,4) _ assms(5)] by auto
  have "w_row_count w < 2 ^ 64" "w_instrument_ids w \<noteq> []" using assms(1-3) by (simp_all add: holds_events_def)
  from open_segment [OF m(2) s this] show ?thesis using that m s by blast
qed

text \<open>
  C2. Storing and loading a segment returns every event: add any events to a new writer, write the
  segment and open the file; then reading returns the accepted events in order, validation passes, the
  header carries the identity and the number of rows, and every instrument is found by the Bloom filter. It
  needs an allocator that succeeds, at most \<^verbatim>\<open>MaxRowsPerSegment\<close> rows, and that the file fits the buffer
  that the writer allocates from its size estimate.
\<close>

theorem segment_roundtrip:
  assumes "w = add_events input (SegmentWriter_new seg max_rows)" "es = accepted max_rows input"
    and "es \<noteq> []" "length es \<le> 1048576" "segment_fits w"
    and "\<forall>n. \<exists>b. alloc n = Some b \<and> length b = n"
  shows "\<exists>m r. write_to_file alloc w = Ok m \<and> SegmentReader_open (Ok m) SegmentReader_init = (Ok (), r)
    \<and> read_all_events r = Ok es \<and> SegmentReader_validate r = Ok ()
    \<and> r_row_count r = length es \<and> r_segment_id r = seg
    \<and> (\<forall>e\<in>set es. might_contain_instrument (instrument_id e) r)"
proof -
  have h: "holds_events w es" "w_segment_id w = seg" using add_events_inv assms(1,2) by simp_all
  then obtain m where m: "write_to_file alloc w = Ok m" "segment_file w m" "footer_at w + 128 < 2 ^ 32"
    "SegmentReader_open (Ok m) SegmentReader_init = (Ok (), opened w m)"
    using segment_written [OF h(1) assms(3-6)] by blast
  have "might_contain_instrument (instrument_id e) (opened w m)" if "e \<in> set es" for e
    using bloom_complete [of "map instrument_id es" "instrument_id e"] that h assms(3)
    by (auto simp: might_contain_instrument_def opened_def holds_events_def)
  moreover have "read_all_events (opened w m) = Ok es" using read_all_opened [OF m(2) _ h(1) assms(3)] m(3) by simp
  ultimately show ?thesis
    using m validate_opened [OF m(2,3)] h by (auto simp: opened_def holds_events_def)
qed

definition sample_event :: CanonicalEvent where
  "sample_event = make_trade 10 20 5 3 Ask (- 7) 100 99 2 1"

lemma sample_event_valid: "event_validate sample_event = Ok ()" "accepted 4 [sample_event] = [sample_event]"
proof -
  show "event_validate sample_event = Ok ()"
    by (simp add: sample_event_def make_trade_def event_validate_def MaxTimestamp_def MaxInstruments_def MaxPrice_def
        MaxQuantity_def MaxVenues_def MaxSources_def)
  then show "accepted 4 [sample_event] = [sample_event]" by (simp add: accepted_def)
qed

lemma sample_writer:
  "holds_events (add_events [sample_event] (SegmentWriter_new 1 4)) [sample_event]"
  "stats_exact (add_events [sample_event] (SegmentWriter_new 1 4)) [sample_event]"
  "segment_fits (add_events [sample_event] (SegmentWriter_new 1 4))"
  using add_events_inv [of "[sample_event]" 1 4] sample_event_valid(2)
    segment_fits_small [of "add_events [sample_event] (SegmentWriter_new 1 4)" "[sample_event]"] by simp_all

theorem segment_roundtrip_witness:
  "\<exists>m r. write_to_file (\<lambda>n. Some (replicate n 7)) (add_events [sample_event] (SegmentWriter_new 1 4)) = Ok m
    \<and> SegmentReader_open (Ok m) SegmentReader_init = (Ok (), r) \<and> read_all_events r = Ok [sample_event]"
  using segment_roundtrip [OF refl refl, of 4 "[sample_event]" 1 "\<lambda>n. Some (replicate n 7)"]
    sample_event_valid(2) sample_writer(3) by auto

text \<open>
  C29. The buffer estimate of the writer is large enough for every segment of up to 220 rows, and for a
  segment of any size whose timestamps, sequence numbers and prices change by less than \<open>2 ^ 35\<close> (as an
  unsigned difference, zigzag coded for prices) from row to row.
\<close>

theorem segment_buffer_suffices:
  assumes "holds_events w es" "es \<noteq> []"
    and "length es \<le> 220 \<or>
      (\<forall>vs\<in>{map exchange_ts_ns es, map receive_ts_ns es, map sequence es}. \<forall>d\<in>set (diffs (hd vs) (tl vs)). unat d < 2 ^ 35)
       \<and> (\<forall>d\<in>set (diffs (price_ticks (hd es)) (map price_ticks (tl es))). unat (ZigZag_encode d) < 2 ^ 35)"
  shows "footer_at w + 128 \<le> 2 * estimated_size w"
proof (cases "length es \<le> 220")
  case True
  then show ?thesis using segment_fits_small [OF assms(1,2)] by (simp add: segment_fits_def)
next
  case False
  have v: "length (varint_bytes x) \<le> 5" if "unat x < 2 ^ 35" for x using length_varint_bytes [of x 4] that by simp
  have "steps_within 5 id (map exchange_ts_ns es)" "steps_within 5 id (map receive_ts_ns es)"
    "steps_within 5 id (map sequence es)" "steps_within 5 ZigZag_encode (map price_ticks es)"
    using False assms(2,3) by (simp_all add: steps_within_def v hd_map map_tl)
  then have "segment_fits w"
    using segment_fits_if [OF assms(1,2), of 5] length_images_le [OF assms(1,2), of 5] by simp
  then show ?thesis by (simp add: segment_fits_def)
qed

theorem segment_buffer_suffices_witness:
  "footer_at (add_events [sample_event] (SegmentWriter_new 1 4)) + 128
    \<le> 2 * estimated_size (add_events [sample_event] (SegmentWriter_new 1 4))"
  by (rule segment_buffer_suffices [OF sample_writer(1)]) simp_all

lemma fold_min_Min: "xs \<noteq> [] \<Longrightarrow> \<forall>x\<in>set xs. x \<le> b \<Longrightarrow> fold min xs b = Min (set xs)" for b :: "'a::linorder"
  using Min.set_eq_fold [of b xs] by (cases xs) (simp_all add: min_absorb2 Min_le_iff)

lemma fold_max_Max: "xs \<noteq> [] \<Longrightarrow> \<forall>x\<in>set xs. b \<le> x \<Longrightarrow> fold max xs b = Max (set xs)" for b :: "'a::linorder"
  using Max.set_eq_fold [of b xs] by (cases xs) (simp_all add: max_absorb2 Max_ge_iff)

lemma fold_word_extrema:
  fixes f :: "'e \<Rightarrow> 'a::len word"
  assumes "es \<noteq> []"
  shows "fold min (map f es) (- 1) = Min (f ` set es)" "fold max (map f es) 0 = Max (f ` set es)"
  using fold_min_Min [of "map f es" "- 1"] fold_max_Max [of "map f es" 0] assms by (simp_all add: word_order.extremum)

lemma fold_price_extrema:
  assumes "es \<noteq> []"
  shows "fold min (map (\<lambda>e. sint (price_ticks e)) es) (2 ^ 63 - 1) = Min ((\<lambda>e. sint (price_ticks e)) ` set es)"
    and "fold max (map (\<lambda>e. sint (price_ticks e)) es) (- (2 ^ 63)) = Max ((\<lambda>e. sint (price_ticks e)) ` set es)"
proof -
  have b: "- (2 ^ 63) \<le> sint p \<and> sint p \<le> 2 ^ 63 - 1" for p :: i64
    using sint_greater_eq [of p] sint_less [of p] by simp
  show "fold min (map (\<lambda>e. sint (price_ticks e)) es) (2 ^ 63 - 1) = Min ((\<lambda>e. sint (price_ticks e)) ` set es)"
    using fold_min_Min [of "map (\<lambda>e. sint (price_ticks e)) es" "2 ^ 63 - 1"] assms b by auto
  show "fold max (map (\<lambda>e. sint (price_ticks e)) es) (- (2 ^ 63)) = Max ((\<lambda>e. sint (price_ticks e)) ` set es)"
    using fold_max_Max [of "map (\<lambda>e. sint (price_ticks e)) es" "- (2 ^ 63)"] assms b by auto
qed

lemma opened_statistics:
  "k < 12 \<Longrightarrow> column_min k (opened w m) = cd_min_value (fst (segment_columns w ! k))
     \<and> column_max k (opened w m) = cd_max_value (fst (segment_columns w ! k))"
  using nth_sealed [of k w] by (simp add: column_min_def column_max_def opened_def)

text \<open>
  C28. The statistics that a reader offers for skipping segments are exact for the columns that carry them:
  the smallest and largest exchange timestamp, sequence number, instrument, price and quantity of the
  stored events, with prices compared as signed numbers. The other columns report zero for both.
\<close>

theorem segment_statistics_exact:
  assumes "w = add_events input (SegmentWriter_new seg max_rows)" "es = accepted max_rows input"
    and "es \<noteq> []" "length es \<le> 1048576" "segment_fits w"
    and "\<forall>n. \<exists>b. alloc n = Some b \<and> length b = n"
  shows "\<exists>m r. write_to_file alloc w = Ok m \<and> SegmentReader_open (Ok m) SegmentReader_init = (Ok (), r)
    \<and> column_min 0 r = Min (exchange_ts_ns ` set es) \<and> column_max 0 r = Max (exchange_ts_ns ` set es)
    \<and> r_min_timestamp r = Min (exchange_ts_ns ` set es) \<and> r_max_timestamp r = Max (exchange_ts_ns ` set es)
    \<and> column_min 2 r = Min (sequence ` set es) \<and> column_max 2 r = Max (sequence ` set es)
    \<and> column_min 3 r = Min ((\<lambda>e. ucast (instrument_id e)) ` set es)
    \<and> column_max 3 r = Max ((\<lambda>e. ucast (instrument_id e)) ` set es)
    \<and> sint (column_min 7 r) = Min ((\<lambda>e. sint (price_ticks e)) ` set es)
    \<and> sint (column_max 7 r) = Max ((\<lambda>e. sint (price_ticks e)) ` set es)
    \<and> column_min 8 r = ucast (Min (quantity ` set es)) \<and> column_max 8 r = ucast (Max (quantity ` set es))
    \<and> (\<forall>k\<in>{1, 4, 5, 6, 9, 10, 11}. column_min k r = 0 \<and> column_max k r = 0)"
proof -
  have h: "holds_events w es" "stats_exact w es" using add_events_inv assms(1,2) by simp_all
  then obtain m where m: "write_to_file alloc w = Ok m"
    "SegmentReader_open (Ok m) SegmentReader_init = (Ok (), opened w m)"
    using segment_written [OF h(1) assms(3-6)] by blast
  note c = opened_statistics [of _ w m] segment_columns_def column_descriptor_def
  have t: "r_min_timestamp (opened w m) = w_min_timestamp w" "r_max_timestamp (opened w m) = w_max_timestamp w"
    by (simp_all add: opened_def)
  show ?thesis
    using h(2) m unfolding stats_exact_def fold_word_extrema [OF assms(3)] fold_price_extrema [OF assms(3)]
    by (intro exI [of _ m] exI [of _ "opened w m"]) (simp add: c t Let_def)
qed

theorem segment_statistics_exact_witness:
  "\<exists>m r. write_to_file (\<lambda>n. Some (replicate n 7)) (add_events [sample_event] (SegmentWriter_new 1 4)) = Ok m
    \<and> SegmentReader_open (Ok m) SegmentReader_init = (Ok (), r) \<and> column_min 2 r = 5"
proof -
  have "sequence sample_event = 5" by (simp add: sample_event_def make_trade_def)
  then show ?thesis
    using segment_statistics_exact [OF refl refl, of 4 "[sample_event]" 1 "\<lambda>n. Some (replicate n 7)"]
      sample_event_valid(2) sample_writer(3) by auto
qed

text \<open>
  C8. Corrupted column data never goes unnoticed: after a change of up to four neighbouring bytes inside a
  column of a segment, reading that column fails with a checksum error, and so does validation.
\<close>

theorem segment_corruption_detected:
  assumes "col < length (r_descriptors r)" "changes_column (r_descriptors r ! col) (r_mapping r) m'"
  shows "(read_column width dec col n r = Ok vs \<longrightarrow> read_column width dec col n (r\<lparr>r_mapping := m'\<rparr>) = Err SegmentChecksumFailed)
    \<and> (SegmentReader_validate r = Ok () \<longrightarrow> SegmentReader_validate (r\<lparr>r_mapping := m'\<rparr>) = Err SegmentChecksumFailed)"
proof (intro conjI impI)
  let ?d = "r_descriptors r ! col"
  let ?load = "load (unat (cd_offset ?d)) (unat (cd_compressed_size ?d))"
  assume "read_column width dec col n r = Ok vs"
  then obtain c where c: "?load (r_mapping r) = Ok c" "crc32c c = cd_data_crc ?d"
    using assms(1) by (auto simp: read_column_def decode_column_def obind_eq_Ok Let_def split: if_splits)
  obtain c' where "?load m' = Ok c'" "crc32c c' \<noteq> cd_data_crc ?d"
    using changed_column_crc [OF assms(2) c(1)] c(2) by auto
  then show "read_column width dec col n (r\<lparr>r_mapping := m'\<rparr>) = Err SegmentChecksumFailed"
    using assms(1) decode_column_bad_crc by (simp add: read_column_def)
next
  assume "SegmentReader_validate r = Ok ()"
  then have "r_open r" "validate_columns (r_mapping r) (r_descriptors r) = Ok ()"
    by (auto simp: SegmentReader_validate_def obind_eq_Ok split: if_splits)
  then show "SegmentReader_validate (r\<lparr>r_mapping := m'\<rparr>) = Err SegmentChecksumFailed"
    using validate_columns_changed [OF _ _ assms(2)] assms(1) by (simp add: SegmentReader_validate_def)
qed

theorem segment_corruption_detected_witness:
  "let d = (column_descriptor 4 EncRaw 4 0 0)\<lparr>cd_compressed_size := 4, cd_data_crc := crc32c [1, 2, 3, 4]\<rparr>;
       r = SegmentReader_init\<lparr>r_mapping := [1, 2, 3, 4], r_descriptors := [d]\<rparr>
   in read_column_u8 0 4 r = Ok [1, 2, 3, 4]
    \<and> read_column_u8 0 4 (r\<lparr>r_mapping := [1, 9, 3, 4]\<rparr>) = Err SegmentChecksumFailed"
proof -
  define d where "d = (column_descriptor 4 EncRaw 4 0 0)\<lparr>cd_compressed_size := 4, cd_data_crc := crc32c [1, 2, 3, 4]\<rparr>"
  define r where "r = SegmentReader_init\<lparr>r_mapping := [1, 2, 3, 4], r_descriptors := [d]\<rparr>"
  have s: "unat (cd_offset d) = 0" "unat (cd_compressed_size d) = 4" "cd_encoding d = 0" "cd_data_crc d = crc32c [1, 2, 3, 4]"
    by (simp_all add: d_def column_descriptor_def)
  have l: "load 0 4 [1, 2, 3, 4 :: u8] = Ok [1, 2, 3, 4]" by (simp add: load_def get_bytes_def)
  have "decode_column [1, 2, 3, 4] d (replicate (1 * 4) 0) 4 = Ok [1, 2, 3, 4]"
    unfolding decode_column_def Let_def s l by (simp add: put_bytes_all)
  then have ok: "read_column 1 u8_of_bytes 0 4 r = Ok [1, 2, 3, 4]"
    by (simp add: read_column_def r_def u8_of_bytes_def numeral_eq_Suc)
  have "changes_column d [1, 2, 3, 4] [1, 9, 3, 4]"
    unfolding changes_column_def s
    by (rule exI [of _ "[1]"], rule exI [of _ "[2]"], rule exI [of _ "[9]"], rule exI [of _ "[3, 4]"]) simp
  then have "read_column 1 u8_of_bytes 0 4 (r\<lparr>r_mapping := [1, 9, 3, 4]\<rparr>) = Err SegmentChecksumFailed"
    using segment_corruption_detected [of 0 r "[1, 9, 3, 4]" 1 u8_of_bytes 4 "[1, 2, 3, 4]"] ok by (simp add: r_def)
  then show ?thesis using ok unfolding d_def [symmetric] Let_def r_def [symmetric] read_column_u8_def by simp
qed

end
