(* ===== verification/Catalog.thy ===== *)
theory Catalog
  imports Journal Segment_Store "HOL-Library.Sublist"
begin

text \<open>
  The catalog (\<^verbatim>\<open>Catalog\<close> in \<^verbatim>\<open>storage/catalog.hpp\<close> and \<^verbatim>\<open>storage/catalog.cpp\<close>): recovery from the manifest and the
  journal, lookup, committing a segment and compacting segments. Parameters are whether a vector can be
  allocated, the allocator of the segment writer, the time of day, and \<^verbatim>\<open>std::sort\<close>, which is not stable and so not
  a function of its input. An exception that nothing catches and an access outside a buffer stop the process.
\<close>

section \<open>State\<close>

record Catalog =
  ct_root_dir :: string
  ct_manifest_path :: string
  ct_journal_path :: string
  ct_manifest :: Manifest
  ct_journal :: Journal

definition Catalog_new :: "string \<Rightarrow> Catalog" where
  "Catalog_new root_dir = \<lparr>ct_root_dir = root_dir, ct_manifest_path = root_dir @ ''/manifest.vtm'',
     ct_journal_path = root_dir @ ''/journal.vtwal'', ct_manifest = Manifest_init, ct_journal = Journal_init\<rparr>"

definition full_path :: "string \<Rightarrow> string \<Rightarrow> string" where
  "full_path root name = root @ ''/'' @ name"

fun decimal_string :: "nat \<Rightarrow> string" where
  "decimal_string n = (if n < 10 then [] else decimal_string (n div 10)) @ [char_of (48 + n mod 10)]"

declare decimal_string.simps [simp del]

definition segment_filename :: "u64 \<Rightarrow> string" where
  "segment_filename seg_id = ''segment_'' @ decimal_string (unat seg_id) @ ''.vts''"

definition set_next_tx_id :: "u64 \<Rightarrow> Manifest \<Rightarrow> Manifest" where
  "set_next_tx_id i m = m\<lparr>mn_next_tx_id := i\<rparr>"

definition set_next_segment_id :: "u64 \<Rightarrow> Manifest \<Rightarrow> Manifest" where
  "set_next_segment_id i m = m\<lparr>mn_next_segment_id := i\<rparr>"

section \<open>Loops over files\<close>

fun io_fold :: "('a \<Rightarrow> 's \<Rightarrow> 's io) \<Rightarrow> 'a list \<Rightarrow> 's \<Rightarrow> 's io" where
  "io_fold f [] s = io_return s"
| "io_fold f (x # xs) s = io_bind (f x s) (io_fold f xs)"

text \<open>A value, or the end of the process where the source leaves its defined behaviour.\<close>

definition io_outcome :: "'a outcome \<Rightarrow> 'a outcome io" where
  "io_outcome r = (if r = Fault then io_stop else io_return r)"

section \<open>Recovery\<close>

fun contains :: "string \<Rightarrow> string \<Rightarrow> bool" where
  "contains pat [] = (pat = [])"
| "contains pat (c # s) = (prefix pat (c # s) \<or> contains pat s)"

definition temporary_in :: "string \<Rightarrow> string \<Rightarrow> bool" where
  "temporary_in root p =
     (let d = root @ ''/'' in prefix d p \<and> CHR ''/'' \<notin> set (drop (length d) p) \<and> contains ''.tmp'' (drop (length d) p))"

definition remove_temporaries :: "string \<Rightarrow> unit io" where
  "remove_temporaries root =
     io_bind (get_world (\<lambda>w. List.filter (temporary_in root) (map fst (files w)))) (\<lambda>ps.
     io_fold (\<lambda>p _. io_bind (sys_unlink p) (\<lambda>_. io_return ())) ps ())"

text \<open>One committed transaction; \<open>exists\<close> tells which paths are files.\<close>

definition recover_added :: "(string \<Rightarrow> bool) \<Rightarrow> string \<Rightarrow> Manifest \<Rightarrow> SegmentMeta \<Rightarrow> Manifest" where
  "recover_added exists root m s =
     (if exists (full_path root (sm_filename s)) then
        let m = add_segment s m in
        if mn_next_segment_id m \<le> sm_segment_id s then set_next_segment_id (sm_segment_id s + 1) m else m
      else m)"

definition replay_tx :: "(string \<Rightarrow> bool) \<Rightarrow> string \<Rightarrow> Manifest \<Rightarrow> RecoveredTx \<Rightarrow> Manifest" where
  "replay_tx exists root m tx =
     (if \<not> rt_committed tx then m
      else
        let m = foldl (recover_added exists root) m (rt_added_segments tx);
            m = foldl (\<lambda>m i. snd (remove_segment i m)) m (rt_removed_segments tx) in
        if mn_next_tx_id m \<le> rt_tx_id tx then set_next_tx_id (rt_tx_id tx + 1) m else m)"

definition replay :: "(string \<Rightarrow> bool) \<Rightarrow> string \<Rightarrow> RecoveredTx list \<Rightarrow> Manifest \<Rightarrow> Manifest" where
  "replay exists root txs m = foldl (replay_tx exists root) m txs"

definition open_segment_file :: "string \<Rightarrow> (unit outcome \<times> SegmentReader) io" where
  "open_segment_file path =
     io_bind (open_read path) (\<lambda>f.
     let (r, reader) = SegmentReader_open (obind f (\<lambda>mf. case mf_data mf of Some bs \<Rightarrow> Ok bs | None \<Rightarrow> Fault)) SegmentReader_init in
     if r = Fault then io_stop else io_return (r, reader))"

definition validate_segment :: "string \<Rightarrow> SegmentMeta \<Rightarrow> SegmentMeta io" where
  "validate_segment root s =
     (if \<not> sm_active s then io_return s
      else
        let path = full_path root (sm_filename s) in
        io_bind (sys_exists path) (\<lambda>exists.
        if \<not> exists then io_return (s\<lparr>sm_active := False\<rparr>)
        else io_bind (open_segment_file path) (\<lambda>(r, reader).
          if r \<noteq> Ok () then io_return (s\<lparr>sm_active := False\<rparr>)
          else io_bind (io_outcome (SegmentReader_validate reader)) (\<lambda>v.
            io_return (if v \<noteq> Ok () then s\<lparr>sm_active := False\<rparr> else s)))))"

definition load_manifest :: "(nat \<Rightarrow> bool) \<Rightarrow> Catalog \<Rightarrow> Manifest io" where
  "load_manifest can_reserve c =
     io_bind (sys_exists (ct_manifest_path c)) (\<lambda>exists.
     if \<not> exists then io_return (ct_manifest c)
     else io_bind (Manifest_load can_reserve (ct_manifest_path c) (ct_manifest c)) (\<lambda>(r, m).
       if r = Fault then io_stop else io_return m))"

definition replay_journal :: "Catalog \<Rightarrow> Manifest \<Rightarrow> Manifest io" where
  "replay_journal c m =
     io_bind (sys_exists (ct_journal_path c)) (\<lambda>exists.
     if \<not> exists then io_return m
     else io_bind (Journal_read_all (ct_journal_path c)) (\<lambda>(r, txs).
       case r of
         Ok _ \<Rightarrow> get_world (\<lambda>w. replay (\<lambda>p. file_at w p \<noteq> None) (ct_root_dir c) txs m)
       | Err _ \<Rightarrow> io_return m
       | Fault \<Rightarrow> io_stop))"

definition recover :: "(nat \<Rightarrow> bool) \<Rightarrow> Catalog \<Rightarrow> (unit outcome \<times> Catalog) io" where
  "recover can_reserve c =
     io_bind (remove_temporaries (ct_root_dir c)) (\<lambda>_.
     io_bind (load_manifest can_reserve c) (\<lambda>m.
     io_bind (replay_journal c m) (\<lambda>m.
     io_bind (io_fold (\<lambda>s ss. io_bind (validate_segment (ct_root_dir c) s) (\<lambda>s. io_return (ss @ [s]))) (mn_segments m) []) (\<lambda>ss.
     let m = m\<lparr>mn_segments := ss\<rparr> in
     io_bind (save_atomic (ct_manifest_path c) m) (\<lambda>r. io_return (r, c\<lparr>ct_manifest := m\<rparr>))))))"

definition Catalog_open :: "(nat \<Rightarrow> bool) \<Rightarrow> u64 \<Rightarrow> Catalog \<Rightarrow> (unit outcome \<times> Catalog) io" where
  "Catalog_open can_reserve now c =
     io_bind (sys_call (\<lambda>_. True) id) (\<lambda>ok.
     if \<not> ok then io_return (Err DirectoryCreateFailed, c)
     else io_bind (recover can_reserve c) (\<lambda>(r, c).
       if r \<noteq> Ok () then io_return (r, c)
       else io_bind (Journal_open now (ct_journal_path c) (ct_journal c)) (\<lambda>(r, j). io_return (r, c\<lparr>ct_journal := j\<rparr>))))"

section \<open>Lookup\<close>

definition active_segments :: "Catalog \<Rightarrow> SegmentMeta list" where
  "active_segments c = List.filter sm_active (mn_segments (ct_manifest c))"

definition find_segments_by_time :: "u64 \<Rightarrow> u64 \<Rightarrow> Catalog \<Rightarrow> SegmentMeta list" where
  "find_segments_by_time min_ts max_ts c =
     List.filter (\<lambda>s. sm_active s \<and> min_ts \<le> sm_max_exchange_ts s \<and> sm_min_exchange_ts s \<le> max_ts) (mn_segments (ct_manifest c))"

definition find_segments_by_sequence :: "u64 \<Rightarrow> u64 \<Rightarrow> Catalog \<Rightarrow> SegmentMeta list" where
  "find_segments_by_sequence min_s max_s c =
     List.filter (\<lambda>s. sm_active s \<and> min_s \<le> sm_max_seq s \<and> sm_min_seq s \<le> max_s) (mn_segments (ct_manifest c))"

section \<open>Committing a segment\<close>

text \<open>
  A journalled change: the entry between begin and commit, with an attempt to abort when writing it fails. Then
  the file is moved into place, the manifest updated and saved.
\<close>

definition journal_transaction :: "u64 \<Rightarrow> (Journal \<Rightarrow> unit outcome io) \<Rightarrow> Journal \<Rightarrow> unit outcome io" where
  "journal_transaction tx_id append_change j =
     io_bind (append_begin tx_id j) (\<lambda>st.
     if st \<noteq> Ok () then io_return st
     else io_bind (append_change j) (\<lambda>st.
     if st \<noteq> Ok () then io_bind (append_abort tx_id j) (\<lambda>_. io_return st)
     else io_bind (append_commit tx_id j) (\<lambda>st.
     if st \<noteq> Ok () then io_bind (append_abort tx_id j) (\<lambda>_. io_return st)
     else io_return (Ok ()))))"

definition prepare_commit :: "SegmentMeta \<Rightarrow> Catalog \<Rightarrow> u64 \<times> SegmentMeta \<times> Catalog" where
  "prepare_commit meta c =
     (let m = ct_manifest c; tx_id = mn_next_tx_id m; m = set_next_tx_id (tx_id + 1) m;
          seg_id = mn_next_segment_id m; m = set_next_segment_id (seg_id + 1) m;
          meta = meta\<lparr>sm_segment_id := seg_id, sm_filename := segment_filename seg_id, sm_active := True\<rparr>
      in (tx_id, meta, c\<lparr>ct_manifest := m\<rparr>))"

definition commit_segment :: "string \<Rightarrow> SegmentMeta \<Rightarrow> Catalog \<Rightarrow> (string outcome \<times> Catalog) io" where
  "commit_segment temp_segment_path meta c =
     (let (tx_id, meta, c) = prepare_commit meta c; final_path = full_path (ct_root_dir c) (sm_filename meta) in
      io_bind (sys_open_read temp_segment_path) (\<lambda>ok.
      io_bind (if ok then sys_fsync else io_return False) (\<lambda>_.
      io_bind (journal_transaction tx_id (append_add_segment tx_id meta) (ct_journal c)) (\<lambda>st.
      case st of
        Ok _ \<Rightarrow>
          io_bind (sys_rename temp_segment_path final_path) (\<lambda>ok.
          if \<not> ok then io_return (Err FileRenameFailed, c)
          else let c = c\<lparr>ct_manifest := add_segment meta (ct_manifest c)\<rparr> in
            io_bind (save_atomic (ct_manifest_path c) (ct_manifest c)) (\<lambda>st.
            io_return (map_result (\<lambda>_. final_path) st, c)))
      | Err e \<Rightarrow> io_return (Err e, c)
      | Fault \<Rightarrow> io_stop))))"

section \<open>Compaction\<close>

definition event_before :: "CanonicalEvent \<Rightarrow> CanonicalEvent \<Rightarrow> bool" where
  "event_before a b =
     (if exchange_ts_ns a \<noteq> exchange_ts_ns b then exchange_ts_ns a < exchange_ts_ns b else sequence a < sequence b)"

fun collect_events :: "u64 list \<Rightarrow> Catalog \<Rightarrow> CanonicalEvent list \<Rightarrow> CanonicalEvent list outcome io" where
  "collect_events [] c acc = io_return (Ok acc)"
| "collect_events (sid # sids) c acc =
     (case find_segment sid (ct_manifest c) of
        None \<Rightarrow> collect_events sids c acc
      | Some sm \<Rightarrow>
          io_bind (open_segment_file (full_path (ct_root_dir c) (sm_filename sm))) (\<lambda>(st, reader).
          case st of
            Err e \<Rightarrow> io_return (Err e)
          | Fault \<Rightarrow> io_stop
          | Ok _ \<Rightarrow>
              (case read_all_events reader of
                 Err e \<Rightarrow> io_return (Err e)
               | Fault \<Rightarrow> io_stop
               | Ok events \<Rightarrow> collect_events sids c (acc @ events))))"

fun add_all_events :: "CanonicalEvent list \<Rightarrow> SegmentWriter \<Rightarrow> unit outcome \<times> SegmentWriter" where
  "add_all_events [] w = (Ok (), w)"
| "add_all_events (e # es) w = (case add_event e w of (Ok _, w) \<Rightarrow> add_all_events es w | (st, w) \<Rightarrow> (st, w))"

definition write_segment_file :: "(nat \<Rightarrow> bytes option) \<Rightarrow> SegmentWriter \<Rightarrow> string \<Rightarrow> unit outcome io" where
  "write_segment_file alloc w path =
     (case write_to_file alloc w of Ok bs \<Rightarrow> file_write_all path bs | Err e \<Rightarrow> io_return (Err e) | Fault \<Rightarrow> io_stop)"

definition compacted_meta :: "u64 \<Rightarrow> CanonicalEvent list \<Rightarrow> nat \<Rightarrow> SegmentReader \<Rightarrow> SegmentMeta" where
  "compacted_meta new_seg_id es fsize reader =
     \<lparr>sm_segment_id = new_seg_id, sm_filename = segment_filename new_seg_id, sm_min_seq = sequence (hd es),
      sm_max_seq = sequence (last es), sm_min_exchange_ts = exchange_ts_ns (hd es), sm_max_exchange_ts = exchange_ts_ns (last es),
      sm_row_count = of_nat (length es), sm_file_size_bytes = of_nat fsize, sm_schema_hash = ucast (sh_schema_hash (r_header reader)),
      sm_data_crc = 0, sm_is_compacted = True, sm_active = True\<rparr>"

text \<open>Writing the sorted events to a temporary file, reading its metadata back.\<close>

definition write_compacted ::
    "(nat \<Rightarrow> bytes option) \<Rightarrow> string \<Rightarrow> u64 \<Rightarrow> CanonicalEvent list \<Rightarrow> SegmentMeta outcome io" where
  "write_compacted alloc tmp_compact new_seg_id es =
     (case add_all_events es (SegmentWriter_new new_seg_id (length es)) of
        (Err e, _) \<Rightarrow> io_return (Err e)
      | (Fault, _) \<Rightarrow> io_stop
      | (Ok _, w) \<Rightarrow>
          io_bind (write_segment_file alloc w tmp_compact) (\<lambda>st.
          case st of
            Err e \<Rightarrow> io_bind (sys_unlink tmp_compact) (\<lambda>_. io_return (Err e))
          | Fault \<Rightarrow> io_stop
          | Ok _ \<Rightarrow>
              io_bind (open_segment_file tmp_compact) (\<lambda>(st, reader).
              case st of
                Err e \<Rightarrow> io_return (Err e)
              | Fault \<Rightarrow> io_stop
              | Ok _ \<Rightarrow> io_bind (sys_stat tmp_compact) (\<lambda>fsize.
                  case fsize of None \<Rightarrow> io_stop | Some n \<Rightarrow> io_return (Ok (compacted_meta new_seg_id es n reader))))))"

definition remove_superseded :: "string \<Rightarrow> u64 list \<Rightarrow> unit io" where
  "remove_superseded root ids =
     io_fold (\<lambda>sid _. io_bind (sys_unlink (full_path root (segment_filename sid))) (\<lambda>_. io_return ())) ids ()"

definition install_compacted :: "u64 list \<Rightarrow> string \<Rightarrow> SegmentMeta \<Rightarrow> Catalog \<Rightarrow> (u64 list outcome \<times> Catalog) io" where
  "install_compacted ids tmp_compact new_meta c =
     (let tx_id = mn_next_tx_id (ct_manifest c);
          c = c\<lparr>ct_manifest := set_next_tx_id (tx_id + 1) (ct_manifest c)\<rparr> in
      io_bind (journal_transaction tx_id (append_compact tx_id ids [new_meta]) (ct_journal c)) (\<lambda>st.
      case st of
        Err e \<Rightarrow> io_return (Err e, c)
      | Fault \<Rightarrow> io_stop
      | Ok _ \<Rightarrow>
          io_bind (sys_rename tmp_compact (full_path (ct_root_dir c) (sm_filename new_meta))) (\<lambda>ok.
          if \<not> ok then io_return (Err FileRenameFailed, c)
          else
            let m = foldl (\<lambda>m i. snd (remove_segment i m)) (ct_manifest c) ids;
                c = c\<lparr>ct_manifest := add_segment new_meta m\<rparr> in
            io_bind (save_atomic (ct_manifest_path c) (ct_manifest c)) (\<lambda>st.
            case st of
              Err e \<Rightarrow> io_return (Err e, c)
            | Fault \<Rightarrow> io_stop
            | Ok _ \<Rightarrow> io_bind (remove_superseded (ct_root_dir c) ids) (\<lambda>_. io_return (Ok [sm_segment_id new_meta], c))))))"

definition compact_segments ::
    "(nat \<Rightarrow> bytes option) \<Rightarrow> (CanonicalEvent list \<Rightarrow> CanonicalEvent list) \<Rightarrow> u64 list \<Rightarrow> Catalog \<Rightarrow> (u64 list outcome \<times> Catalog) io" where
  "compact_segments alloc sort_events ids c =
     (if ids = [] then io_return (Ok [], c)
      else io_bind (collect_events ids c []) (\<lambda>r.
        case r of
          Err e \<Rightarrow> io_return (Err e, c)
        | Fault \<Rightarrow> io_stop
        | Ok all_events \<Rightarrow>
            if all_events = [] then io_return (Ok [], c)
            else
              let es = sort_events all_events; new_seg_id = mn_next_segment_id (ct_manifest c);
                  c = c\<lparr>ct_manifest := set_next_segment_id (new_seg_id + 1) (ct_manifest c)\<rparr>;
                  tmp_compact = full_path (ct_root_dir c) (''.tmp_compact_'' @ decimal_string (unat new_seg_id) @ ''.vts'') in
              io_bind (write_compacted alloc tmp_compact new_seg_id es) (\<lambda>r.
              case r of
                Err e \<Rightarrow> io_return (Err e, c)
              | Fault \<Rightarrow> io_stop
              | Ok new_meta \<Rightarrow> install_compacted ids tmp_compact new_meta c)))"

end
