(* ===== verification/Replay_Catalog.thy ===== *)
theory Replay_Catalog
  imports Catalog Replay "HOL-Library.Multiset" "HOL-Library.Product_Lexorder"
begin

text \<open>
  Replay from files (\<^verbatim>\<open>replay/replay_engine.cpp\<close>): one segment file, and all active segments of a catalog in
  the order of their first sequence numbers. The library sort is a parameter that orders its argument by the
  comparison of the source. The lemmas show that the events of the segments are replayed in that order, up to
  the first segment that cannot be read.
\<close>

section \<open>Replay of files\<close>

definition segment_before :: "SegmentMeta \<Rightarrow> SegmentMeta \<Rightarrow> bool" where
  "segment_before a b =
     (if sm_min_seq a \<noteq> sm_min_seq b then sm_min_seq a < sm_min_seq b else sm_min_exchange_ts a < sm_min_exchange_ts b)"

definition replay_segment_file :: "(u64 \<Rightarrow> u64) \<Rightarrow> string \<Rightarrow> ReplayEngine \<Rightarrow> (unit outcome \<times> ReplayEngine) io" where
  "replay_segment_file dilate path r =
     io_bind (open_segment_file path) (\<lambda>(st, reader).
       case st of
         Err c \<Rightarrow> io_return (Err c, r)
       | Fault \<Rightarrow> io_stop
       | Ok _ \<Rightarrow>
           (case read_all_events reader of
              Err c \<Rightarrow> io_return (Err c, r)
            | Fault \<Rightarrow> io_stop
            | Ok events \<Rightarrow> io_return (replay_events dilate events r)))"

fun replay_files :: "(u64 \<Rightarrow> u64) \<Rightarrow> string \<Rightarrow> SegmentMeta list \<Rightarrow> ReplayEngine \<Rightarrow> (unit outcome \<times> ReplayEngine) io" where
  "replay_files dilate root [] r = io_return (Ok (), r)"
| "replay_files dilate root (seg # segs) r =
     io_bind (replay_segment_file dilate (full_path root (sm_filename seg)) r) (\<lambda>(st, r).
       case st of Ok _ \<Rightarrow> replay_files dilate root segs r | _ \<Rightarrow> io_return (st, r))"

definition replay_catalog ::
    "(SegmentMeta list \<Rightarrow> SegmentMeta list) \<Rightarrow> (u64 \<Rightarrow> u64) \<Rightarrow> Catalog \<Rightarrow> ReplayEngine \<Rightarrow> (unit outcome \<times> ReplayEngine) io" where
  "replay_catalog sort_segments dilate c r = replay_files dilate (ct_root_dir c) (sort_segments (active_segments c)) r"

section \<open>Order of replay\<close>

text \<open>What reading a segment file gives, from its contents.\<close>

definition file_events :: "World \<Rightarrow> string \<Rightarrow> CanonicalEvent list outcome" where
  "file_events w p =
     (case file_at w p of
        None \<Rightarrow> Err FileOpenFailed
      | Some bs \<Rightarrow>
          if bs = [] then Err MmapFailed
          else case SegmentReader_open (Ok bs) SegmentReader_init of
              (Ok _, reader) \<Rightarrow> read_all_events reader
            | (Err c, _) \<Rightarrow> Err c
            | (Fault, _) \<Rightarrow> Fault)"

lemma open_segment_quiet:
  assumes "quiet w"
  shows "open_segment_file p w =
    (case file_at w p of
       None \<Rightarrow> (Returned (Err FileOpenFailed, SegmentReader_init), w)
     | Some bs \<Rightarrow>
         if bs = [] then (Returned (Err MmapFailed, SegmentReader_init), w)
         else let (r, reader) = SegmentReader_open (Ok bs) SegmentReader_init in
           if r = Fault then (Stopped, w) else (Returned (r, reader), w))"
  using assms
  by (auto simp: open_segment_file_def open_read_def sys_open_read_def sys_stat_def io_bind_def works_def get_world_def
      SegmentReader_open_def [of "Err _"] split: option.split prod.split)

lemma replay_file_quiet:
  assumes "quiet w" "file_events w p \<noteq> Fault"
  shows "replay_segment_file dilate p r w = (Returned (replay_segment dilate (file_events w p) r), w)"
  using assms open_segment_quiet [OF assms(1), of p]
  by (auto simp: replay_segment_file_def file_events_def replay_segment_def io_bind_def
      split: option.splits prod.splits outcome.splits if_splits)

lemma replay_files_quiet:
  assumes "quiet w" "\<forall>s\<in>set segs. file_events w (full_path root (sm_filename s)) \<noteq> Fault"
  shows "replay_files dilate root segs r w =
    (Returned (replay_segments dilate (map (\<lambda>s. file_events w (full_path root (sm_filename s))) segs) r), w)"
  using assms(2)
proof (induction segs arbitrary: r)
  case (Cons s segs)
  obtain st r' where e: "replay_segment dilate (file_events w (full_path root (sm_filename s))) r = (st, r')" by fastforce
  have "replay_segment_file dilate (full_path root (sm_filename s)) r w = (Returned (st, r'), w)"
    using replay_file_quiet [OF assms(1)] Cons.prems e by simp
  then show ?case
    using Cons e by (cases st) (simp_all add: io_bind_def)
qed simp

text \<open>
  In a run without failing calls the active segments are replayed in the order of their first sequence
  numbers, and of their first timestamps where those are equal.
\<close>

theorem replay_catalog_in_order:
  assumes "quiet w" "\<forall>s\<in>set (active_segments c). file_events w (full_path (ct_root_dir c) (sm_filename s)) \<noteq> Fault"
    and sort: "\<And>xs. mset (sort_segments xs) = mset xs" "\<And>xs. sorted_wrt (\<lambda>a b. \<not> segment_before b a) (sort_segments xs)"
  shows "\<exists>segs. mset segs = mset (active_segments c)
    \<and> sorted_wrt (\<lambda>a b. (sm_min_seq a, sm_min_exchange_ts a) \<le> (sm_min_seq b, sm_min_exchange_ts b)) segs
    \<and> replay_catalog sort_segments dilate c r w =
        (Returned (replay_segments dilate (map (\<lambda>s. file_events w (full_path (ct_root_dir c) (sm_filename s))) segs) r), w)"
proof (intro exI conjI)
  let ?segs = "sort_segments (active_segments c)"
  show m: "mset ?segs = mset (active_segments c)" by (rule sort(1))
  have "(\<lambda>a b. \<not> segment_before b a) = (\<lambda>a b. (sm_min_seq a, sm_min_exchange_ts a) \<le> (sm_min_seq b, sm_min_exchange_ts b))"
    by (intro ext) (auto simp: segment_before_def)
  then show "sorted_wrt (\<lambda>a b. (sm_min_seq a, sm_min_exchange_ts a) \<le> (sm_min_seq b, sm_min_exchange_ts b)) ?segs"
    using sort(2) [of "active_segments c"] by simp
  have "set ?segs = set (active_segments c)" using mset_eq_setD [OF m] .
  then show "replay_catalog sort_segments dilate c r w =
      (Returned (replay_segments dilate (map (\<lambda>s. file_events w (full_path (ct_root_dir c) (sm_filename s))) ?segs) r), w)"
    using replay_files_quiet [OF assms(1)] assms(2) by (simp add: replay_catalog_def)
qed

end
