(* ===== verification/Query_Lexer.thy ===== *)
theory Query_Lexer
  imports VT_Prelude
begin

text \<open>
  The lexer of the query language: \<^verbatim>\<open>query/token.hpp\<close>, \<^verbatim>\<open>query/lexer.hpp\<close> and
  \<^verbatim>\<open>query/lexer.cpp\<close>. A \<open>Lexer\<close> is the record of the members of the class; every operation returns
  the lexer it leaves behind. Characters are bytes and the classification functions of
  \<^verbatim>\<open><cctype>\<close> are those of the C locale, in which no byte above 127 belongs to a class.
  The theory also describes the token sequence of a lexer, which is what the parser sees, and shows
  that lexing a text terminates and that the text of a token sequence is lexed back to it.
\<close>

section \<open>Tokens\<close>

datatype TokenType = Tok_Eof | Tok_IntegerLiteral | Tok_Identifier
  | Tok_Select | Tok_From | Tok_Where | Tok_Let | Tok_Group | Tok_By | Tok_Agg | Tok_Order
  | Tok_Limit | Tok_And | Tok_Or | Tok_Not | Tok_True | Tok_False | Tok_Tumble | Tok_As | Tok_Asc
  | Tok_Desc | Tok_Count | Tok_Sum | Tok_Min | Tok_Max | Tok_Avg
  | Tok_Plus | Tok_Minus | Tok_Star | Tok_Slash | Tok_Percent | Tok_Equal | Tok_NotEqual | Tok_Less
  | Tok_LessEqual | Tok_Greater | Tok_GreaterEqual | Tok_AmpAmp | Tok_PipePipe | Tok_Bang | Tok_Amp
  | Tok_Pipe | Tok_Caret
  | Tok_LParen | Tok_RParen | Tok_Comma | Tok_Semicolon
  | Tok_Error

record Token =
  tok_type :: TokenType
  tok_text :: string
  tok_int_value :: u64
  tok_line :: nat
  tok_column :: nat

text \<open>The constructors without and with an integer value.\<close>

definition Token3 :: "TokenType \<Rightarrow> string \<Rightarrow> nat \<Rightarrow> nat \<Rightarrow> Token" where
  "Token3 t txt ln col =
     \<lparr>tok_type = t, tok_text = txt, tok_int_value = 0, tok_line = ln, tok_column = col\<rparr>"

definition Token4 :: "TokenType \<Rightarrow> string \<Rightarrow> u64 \<Rightarrow> nat \<Rightarrow> nat \<Rightarrow> Token" where
  "Token4 t txt val ln col =
     \<lparr>tok_type = t, tok_text = txt, tok_int_value = val, tok_line = ln, tok_column = col\<rparr>"

text \<open>The numeric value of an enumerator is its position in the declaration.\<close>

definition token_types :: "TokenType list" where
  "token_types = [Tok_Eof, Tok_IntegerLiteral, Tok_Identifier,
     Tok_Select, Tok_From, Tok_Where, Tok_Let, Tok_Group, Tok_By, Tok_Agg, Tok_Order, Tok_Limit,
     Tok_And, Tok_Or, Tok_Not, Tok_True, Tok_False, Tok_Tumble, Tok_As, Tok_Asc, Tok_Desc,
     Tok_Count, Tok_Sum, Tok_Min, Tok_Max, Tok_Avg,
     Tok_Plus, Tok_Minus, Tok_Star, Tok_Slash, Tok_Percent, Tok_Equal, Tok_NotEqual, Tok_Less,
     Tok_LessEqual, Tok_Greater, Tok_GreaterEqual, Tok_AmpAmp, Tok_PipePipe, Tok_Bang, Tok_Amp,
     Tok_Pipe, Tok_Caret, Tok_LParen, Tok_RParen, Tok_Comma, Tok_Semicolon, Tok_Error]"

fun index_of :: "'a \<Rightarrow> 'a list \<Rightarrow> nat" where
  "index_of x [] = 0"
| "index_of x (y # ys) = (if x = y then 0 else Suc (index_of x ys))"

definition token_code :: "TokenType \<Rightarrow> nat" where
  "token_code t = index_of t token_types"

definition is_keyword :: "Token \<Rightarrow> bool" where
  "is_keyword t \<longleftrightarrow> token_code Tok_Select \<le> token_code (tok_type t) \<and>
     token_code (tok_type t) \<le> token_code Tok_Avg"

definition is_operator :: "Token \<Rightarrow> bool" where
  "is_operator t \<longleftrightarrow> token_code Tok_Plus \<le> token_code (tok_type t) \<and>
     token_code (tok_type t) \<le> token_code Tok_Caret"

definition is_literal :: "Token \<Rightarrow> bool" where
  "is_literal t \<longleftrightarrow> tok_type t = Tok_IntegerLiteral \<or> tok_type t = Tok_True \<or> tok_type t = Tok_False"

primrec token_type_name :: "TokenType \<Rightarrow> string" where
  "token_type_name Tok_Eof = ''EOF''"
| "token_type_name Tok_IntegerLiteral = ''IntegerLiteral''"
| "token_type_name Tok_Identifier = ''Identifier''"
| "token_type_name Tok_Select = ''SELECT''"
| "token_type_name Tok_From = ''FROM''"
| "token_type_name Tok_Where = ''WHERE''"
| "token_type_name Tok_Let = ''LET''"
| "token_type_name Tok_Group = ''GROUP''"
| "token_type_name Tok_By = ''BY''"
| "token_type_name Tok_Agg = ''AGG''"
| "token_type_name Tok_Order = ''ORDER''"
| "token_type_name Tok_Limit = ''LIMIT''"
| "token_type_name Tok_And = ''AND''"
| "token_type_name Tok_Or = ''OR''"
| "token_type_name Tok_Not = ''NOT''"
| "token_type_name Tok_True = ''TRUE''"
| "token_type_name Tok_False = ''FALSE''"
| "token_type_name Tok_Tumble = ''TUMBLE''"
| "token_type_name Tok_As = ''AS''"
| "token_type_name Tok_Asc = ''ASC''"
| "token_type_name Tok_Desc = ''DESC''"
| "token_type_name Tok_Count = ''COUNT''"
| "token_type_name Tok_Sum = ''SUM''"
| "token_type_name Tok_Min = ''MIN''"
| "token_type_name Tok_Max = ''MAX''"
| "token_type_name Tok_Avg = ''AVG''"
| "token_type_name Tok_Plus = ''+''"
| "token_type_name Tok_Minus = ''-''"
| "token_type_name Tok_Star = ''*''"
| "token_type_name Tok_Slash = ''/''"
| "token_type_name Tok_Percent = ''%''"
| "token_type_name Tok_Equal = ''==''"
| "token_type_name Tok_NotEqual = ''!=''"
| "token_type_name Tok_Less = ''<''"
| "token_type_name Tok_LessEqual = ''<=''"
| "token_type_name Tok_Greater = ''>''"
| "token_type_name Tok_GreaterEqual = ''>=''"
| "token_type_name Tok_AmpAmp = ''&&''"
| "token_type_name Tok_PipePipe = ''||''"
| "token_type_name Tok_Bang = ''!''"
| "token_type_name Tok_Amp = ''&''"
| "token_type_name Tok_Pipe = ''|''"
| "token_type_name Tok_Caret = ''^''"
| "token_type_name Tok_LParen = ''(''"
| "token_type_name Tok_RParen = '')''"
| "token_type_name Tok_Comma = '',''"
| "token_type_name Tok_Semicolon = '';''"
| "token_type_name Tok_Error = ''Error''"

section \<open>Character classes\<close>

definition isdigit :: "char \<Rightarrow> bool" where
  "isdigit c \<longleftrightarrow> 48 \<le> (of_char c :: nat) \<and> (of_char c :: nat) \<le> 57"

definition isalpha :: "char \<Rightarrow> bool" where
  "isalpha c \<longleftrightarrow> 65 \<le> (of_char c :: nat) \<and> (of_char c :: nat) \<le> 90 \<or>
     97 \<le> (of_char c :: nat) \<and> (of_char c :: nat) \<le> 122"

definition isalnum :: "char \<Rightarrow> bool" where
  "isalnum c \<longleftrightarrow> isalpha c \<or> isdigit c"

definition isspace :: "char \<Rightarrow> bool" where
  "isspace c \<longleftrightarrow> 9 \<le> (of_char c :: nat) \<and> (of_char c :: nat) \<le> 13 \<or> (of_char c :: nat) = 32"

definition toupper :: "char \<Rightarrow> char" where
  "toupper c = (if 97 \<le> (of_char c :: nat) \<and> (of_char c :: nat) \<le> 122
     then char_of ((of_char c :: nat) - 32) else c)"

section \<open>The lexer\<close>

record Lexer =
  input :: string
  pos :: nat
  line :: nat
  column :: nat
  has_error :: bool
  error_msg :: string
  peeked_token :: Token
  has_peeked :: bool

definition Lexer_init :: "string \<Rightarrow> Lexer" where
  "Lexer_init s = \<lparr>input = s, pos = 0, line = 1, column = 1, has_error = False, error_msg = [],
     peeked_token = Token3 Tok_Eof [] 0 0, has_peeked = False\<rparr>"

definition at_end :: "Lexer \<Rightarrow> bool" where
  "at_end lx \<longleftrightarrow> length (input lx) \<le> pos lx"

definition current :: "Lexer \<Rightarrow> char" where
  "current lx = (if pos lx < length (input lx) then input lx ! pos lx else CHR 0x00)"

text \<open>\<^verbatim>\<open>peek\<close> with its default offset 1.\<close>

definition peek :: "Lexer \<Rightarrow> char" where
  "peek lx = (let idx = pos lx + 1 in if idx < length (input lx) then input lx ! idx else CHR 0x00)"

definition advance_char :: "Lexer \<Rightarrow> Lexer" where
  "advance_char lx = (let c = current lx; lx' = lx\<lparr>pos := pos lx + 1\<rparr> in
     if c = CHR 0x0A then lx'\<lparr>line := line lx + 1, column := 1\<rparr> else lx'\<lparr>column := column lx + 1\<rparr>)"

text \<open>The loops \<^verbatim>\<open>while (!at_end() && P(current())) advance();\<close> of the scanner.\<close>

function advance_while :: "(char \<Rightarrow> bool) \<Rightarrow> Lexer \<Rightarrow> Lexer" where
  "advance_while P lx = (if \<not> at_end lx \<and> P (current lx) then advance_while P (advance_char lx) else lx)"
  by pat_completeness auto
termination
  by (relation "measure (\<lambda>(P, lx). length (input lx) - pos lx)")
     (auto simp: at_end_def advance_char_def Let_def)

declare advance_while.simps [simp del]

definition skip_line_comment :: "Lexer \<Rightarrow> Lexer" where
  "skip_line_comment = advance_while (\<lambda>c. c \<noteq> CHR 0x0A)"

text \<open>What is left of the input, the view of a lexer under which its loops are list functions.\<close>

definition rest :: "Lexer \<Rightarrow> string" where
  "rest lx = drop (pos lx) (input lx)"

lemma at_end_rest: "at_end lx \<longleftrightarrow> rest lx = []"
  by (simp add: at_end_def rest_def)

lemma current_rest: "current lx = (case rest lx of [] \<Rightarrow> CHR 0x00 | c # _ \<Rightarrow> c)"
  by (auto simp: current_def rest_def hd_drop_conv_nth split: list.split dest!: arg_cong [where f = hd])

lemma peek_rest: "peek lx = (case rest lx of _ # c # _ \<Rightarrow> c | _ \<Rightarrow> CHR 0x00)"
proof -
  have "peek lx = current (lx\<lparr>pos := pos lx + 1\<rparr>)"
    by (simp add: peek_def current_def Let_def)
  moreover have "rest (lx\<lparr>pos := pos lx + 1\<rparr>) = tl (rest lx)"
    by (simp add: rest_def drop_Suc tl_drop)
  ultimately show ?thesis
    by (simp add: current_rest split: list.splits)
qed

lemma advance_char_frame [simp]:
  "input (advance_char lx) = input lx" "pos (advance_char lx) = pos lx + 1"
  "has_error (advance_char lx) = has_error lx" "has_peeked (advance_char lx) = has_peeked lx"
  "peeked_token (advance_char lx) = peeked_token lx"
  by (simp_all add: advance_char_def Let_def)

lemma rest_advance_char [simp]: "rest (advance_char lx) = tl (rest lx)"
  by (simp add: rest_def drop_Suc tl_drop)

lemma advance_while_frame [simp]:
  "input (advance_while P lx) = input lx \<and> has_error (advance_while P lx) = has_error lx \<and>
   has_peeked (advance_while P lx) = has_peeked lx \<and> peeked_token (advance_while P lx) = peeked_token lx \<and>
   rest (advance_while P lx) = dropWhile P (rest lx) \<and>
   pos (advance_while P lx) = pos lx + length (takeWhile P (rest lx))"
proof (induction P lx rule: advance_while.induct)
  case (1 P lx)
  show ?case
  proof (cases "\<not> at_end lx \<and> P (current lx)")
    case True
    then show ?thesis
      using 1 by (cases "rest lx") (simp_all add: advance_while.simps [of P lx] at_end_rest current_rest)
  next
    case False
    then show ?thesis
      by (cases "rest lx") (auto simp: advance_while.simps [of P lx] at_end_rest current_rest)
  qed
qed

text \<open>
  The scanner loops between tokens. Both terminate because every turn of the loop moves forward.
\<close>

function skip_whitespace :: "Lexer \<Rightarrow> Lexer" where
  "skip_whitespace lx =
     (if at_end lx then lx
      else if isspace (current lx) then skip_whitespace (advance_char lx)
      else if current lx = CHR ''/'' \<and> peek lx = CHR ''/'' then skip_whitespace (skip_line_comment lx)
      else lx)"
  by pat_completeness auto

lemma rest_skip_line_comment [simp]: "rest (skip_line_comment lx) = dropWhile (\<lambda>c. c \<noteq> CHR 0x0A) (rest lx)"
  by (simp add: skip_line_comment_def)

lemma skip_line_comment_frame [simp]:
  "input (skip_line_comment lx) = input lx" "has_error (skip_line_comment lx) = has_error lx"
  "has_peeked (skip_line_comment lx) = has_peeked lx" "peeked_token (skip_line_comment lx) = peeked_token lx"
  "pos (skip_line_comment lx) = pos lx + length (takeWhile (\<lambda>c. c \<noteq> CHR 0x0A) (rest lx))"
  by (simp_all add: skip_line_comment_def)

lemma length_rest: "length (rest lx) = length (input lx) - pos lx"
  by (simp add: rest_def)

lemma comment_shrinks:
  assumes "\<not> at_end lx" "current lx = CHR ''/''"
  shows "length (dropWhile (\<lambda>c. c \<noteq> CHR 0x0A) (rest lx)) < length (rest lx)"
  using assms by (cases "rest lx") (auto simp: at_end_rest current_rest le_imp_less_Suc length_dropWhile_le)

termination skip_whitespace
proof (relation "measure (\<lambda>lx. length (rest lx))", goal_cases)
  case 1
  show ?case by simp
next
  case (2 lx)
  then show ?case by (simp add: at_end_rest)
next
  case (3 lx)
  then show ?case using comment_shrinks [of lx] by simp
qed

declare skip_whitespace.simps [simp del]

definition make_token :: "TokenType \<Rightarrow> Lexer \<Rightarrow> Token outcome" where
  "make_token type lx =
     (if pos lx = 0 \<or> length (input lx) < pos lx - 1 then Fault
      else Ok (Token3 type (take 1 (drop (pos lx - 1) (input lx))) (line lx) (column lx - 1)))"

definition error_token :: "string \<Rightarrow> Lexer \<Rightarrow> Token \<times> Lexer" where
  "error_token msg lx = (let lx = lx\<lparr>has_error := True, error_msg := msg\<rparr> in
     (Token3 Tok_Error msg (line lx) (column lx), lx))"

text \<open>
  The value of a digit string, \<open>None\<close> when the guard against overflow of \<^verbatim>\<open>u64\<close> fires. The guard
  and the update are the expressions of the source, on 64-bit words.
\<close>

fun parse_digits :: "u64 \<Rightarrow> string \<Rightarrow> u64 option" where
  "parse_digits v [] = Some v"
| "parse_digits v (c # cs) =
     (let d = word_of_int (int (of_char c) - 48) in
      if (0xFFFFFFFFFFFFFFFF - d) div 10 < v then None else parse_digits (v * 10 + d) cs)"

definition read_number :: "Lexer \<Rightarrow> Token \<times> Lexer" where
  "read_number lx =
     (let start = pos lx; start_line = line lx; start_col = column lx;
          lx = advance_while isdigit lx;
          txt = take (pos lx - start) (drop start (input lx)) in
      case parse_digits 0 txt of
        None \<Rightarrow> error_token ''Integer literal too large'' lx
      | Some v \<Rightarrow> (Token4 Tok_IntegerLiteral txt v start_line start_col, lx))"

fun iequals :: "string \<Rightarrow> string \<Rightarrow> bool" where
  "iequals [] [] = True"
| "iequals (a # as) (b # bs) = (toupper a = toupper b \<and> iequals as bs)"
| "iequals _ _ = False"

definition lookup_keyword :: "string \<Rightarrow> TokenType" where
  "lookup_keyword ident =
     (if iequals ident ''SELECT'' then Tok_Select
      else if iequals ident ''FROM'' then Tok_From
      else if iequals ident ''WHERE'' then Tok_Where
      else if iequals ident ''LET'' then Tok_Let
      else if iequals ident ''GROUP'' then Tok_Group
      else if iequals ident ''BY'' then Tok_By
      else if iequals ident ''AGG'' then Tok_Agg
      else if iequals ident ''ORDER'' then Tok_Order
      else if iequals ident ''LIMIT'' then Tok_Limit
      else if iequals ident ''AND'' then Tok_And
      else if iequals ident ''OR'' then Tok_Or
      else if iequals ident ''NOT'' then Tok_Not
      else if iequals ident ''TRUE'' then Tok_True
      else if iequals ident ''FALSE'' then Tok_False
      else if iequals ident ''TUMBLE'' then Tok_Tumble
      else if iequals ident ''AS'' then Tok_As
      else if iequals ident ''ASC'' then Tok_Asc
      else if iequals ident ''DESC'' then Tok_Desc
      else if iequals ident ''COUNT'' then Tok_Count
      else if iequals ident ''SUM'' then Tok_Sum
      else if iequals ident ''MIN'' then Tok_Min
      else if iequals ident ''MAX'' then Tok_Max
      else if iequals ident ''AVG'' then Tok_Avg
      else Tok_Identifier)"

definition identifier_char :: "char \<Rightarrow> bool" where
  "identifier_char c \<longleftrightarrow> isalnum c \<or> c = CHR ''_''"

definition read_identifier :: "Lexer \<Rightarrow> Token \<times> Lexer" where
  "read_identifier lx =
     (let start = pos lx; start_line = line lx; start_col = column lx;
          lx = advance_while identifier_char lx;
          txt = take (pos lx - start) (drop start (input lx));
          type = lookup_keyword txt in
      if type = Tok_True then (Token4 Tok_True txt 1 start_line start_col, lx)
      else if type = Tok_False then (Token4 Tok_False txt 0 start_line start_col, lx)
      else (Token3 type txt start_line start_col, lx))"

text \<open>\<^verbatim>\<open>advance(); return make_token(t);\<close>, and the two-character operators, which look one further.\<close>

definition operator1 :: "TokenType \<Rightarrow> Lexer \<Rightarrow> (Token \<times> Lexer) outcome" where
  "operator1 t lx = (let lx = advance_char lx in obind (make_token t lx) (\<lambda>tok. Ok (tok, lx)))"

definition operator2 :: "char \<Rightarrow> TokenType \<Rightarrow> TokenType \<Rightarrow> Lexer \<Rightarrow> (Token \<times> Lexer) outcome" where
  "operator2 c t2 t1 lx =
     (let lx = advance_char lx in
      if current lx = c
      then (let lx = advance_char lx in obind (make_token t2 lx) (\<lambda>tok. Ok (tok, lx)))
      else obind (make_token t1 lx) (\<lambda>tok. Ok (tok, lx)))"

definition read_operator :: "Lexer \<Rightarrow> (Token \<times> Lexer) outcome" where
  "read_operator lx =
     (let c = current lx in
      if c = CHR ''+'' then operator1 Tok_Plus lx
      else if c = CHR ''-'' then operator1 Tok_Minus lx
      else if c = CHR ''*'' then operator1 Tok_Star lx
      else if c = CHR ''/'' then operator1 Tok_Slash lx
      else if c = CHR ''%'' then operator1 Tok_Percent lx
      else if c = CHR ''('' then operator1 Tok_LParen lx
      else if c = CHR '')'' then operator1 Tok_RParen lx
      else if c = CHR '','' then operator1 Tok_Comma lx
      else if c = CHR '';'' then operator1 Tok_Semicolon lx
      else if c = CHR ''='' then operator2 (CHR ''='') Tok_Equal Tok_Equal lx
      else if c = CHR ''!'' then operator2 (CHR ''='') Tok_NotEqual Tok_Bang lx
      else if c = CHR ''<'' then operator2 (CHR ''='') Tok_LessEqual Tok_Less lx
      else if c = CHR ''>'' then operator2 (CHR ''='') Tok_GreaterEqual Tok_Greater lx
      else if c = CHR ''&'' then operator2 (CHR ''&'') Tok_AmpAmp Tok_Amp lx
      else if c = CHR ''|'' then operator2 (CHR ''|'') Tok_PipePipe Tok_Pipe lx
      else if c = CHR ''^'' then operator1 Tok_Caret lx
      else Ok (error_token ''Unexpected character'' (advance_char lx)))"

function next_token :: "Lexer \<Rightarrow> (Token \<times> Lexer) outcome" where
  "next_token lx =
     (if has_peeked lx then Ok (peeked_token lx, lx\<lparr>has_peeked := False\<rparr>)
      else
        (let lx = skip_whitespace lx in
         if at_end lx then obind (make_token Tok_Eof lx) (\<lambda>tok. Ok (tok, lx))
         else if current lx = CHR ''/'' \<and> peek lx = CHR ''/'' then next_token (skip_line_comment lx)
         else if isdigit (current lx) then Ok (read_number lx)
         else if isalpha (current lx) \<or> current lx = CHR ''_'' then Ok (read_identifier lx)
         else read_operator lx))"
  by pat_completeness auto

lemma skip_whitespace_facts:
  "input (skip_whitespace lx) = input lx \<and> has_error (skip_whitespace lx) = has_error lx \<and>
   has_peeked (skip_whitespace lx) = has_peeked lx \<and> peeked_token (skip_whitespace lx) = peeked_token lx \<and>
   pos lx \<le> pos (skip_whitespace lx) \<and> length (rest (skip_whitespace lx)) \<le> length (rest lx)"
proof (induction lx rule: skip_whitespace.induct)
  case (1 lx)
  then show ?case
    using comment_shrinks [of lx] by (subst (1 2 3 4 5 6) skip_whitespace.simps) auto
qed

lemma skip_whitespace_frame [simp]:
  "input (skip_whitespace lx) = input lx" "has_error (skip_whitespace lx) = has_error lx"
  "has_peeked (skip_whitespace lx) = has_peeked lx" "peeked_token (skip_whitespace lx) = peeked_token lx"
  using skip_whitespace_facts [of lx] by simp_all

lemma skip_whitespace_le:
  "length (rest (skip_whitespace lx)) \<le> length (rest lx)" "pos lx \<le> pos (skip_whitespace lx)"
  using skip_whitespace_facts [of lx] by simp_all

termination next_token
proof (relation "measure (\<lambda>lx. length (rest lx))", goal_cases)
  case 1
  show ?case by simp
next
  case (2 lx lx')
  then show ?case
    using comment_shrinks [of lx'] skip_whitespace_le(1) [of lx] by simp
qed

declare next_token.simps [simp del]

definition peek_token :: "Lexer \<Rightarrow> (Token \<times> Lexer) outcome" where
  "peek_token lx =
     (if has_peeked lx then Ok (peeked_token lx, lx)
      else obind (next_token lx) (\<lambda>(tok, lx).
             Ok (tok, lx\<lparr>peeked_token := tok, has_peeked := True\<rparr>)))"

section \<open>The token sequence of a lexer\<close>

lemma make_token_ok: "0 < pos lx \<Longrightarrow> pos lx \<le> length (input lx) + 1 \<Longrightarrow> \<exists>tok. make_token t lx = Ok tok \<and> tok_type tok = t"
  by (auto simp: make_token_def Token3_def)

definition consumes :: "Lexer \<Rightarrow> Token \<Rightarrow> Lexer \<Rightarrow> bool" where
  "consumes lx tok lx' \<longleftrightarrow> tok_type tok \<noteq> Tok_Eof \<and> input lx' = input lx \<and>
     has_peeked lx' = has_peeked lx \<and> pos lx < pos lx' \<and> pos lx' \<le> length (input lx)"

lemma advance_while_pos:
  assumes "rest lx = c # r" "P c"
  shows "pos lx < pos (advance_while P lx)" "pos (advance_while P lx) \<le> length (input lx)"
proof -
  have "length (takeWhile P (rest lx)) \<le> length (input lx) - pos lx"
    using length_takeWhile_le [of P "rest lx"] by (simp add: length_rest)
  moreover have "pos lx < length (input lx)"
    using assms(1) length_rest [of lx] by simp
  ultimately show "pos lx < pos (advance_while P lx)" "pos (advance_while P lx) \<le> length (input lx)"
    using assms by simp_all
qed

lemma read_number_consumes:
  assumes "rest lx = c # r" "isdigit c" "read_number lx = (tok, lx')"
  shows "consumes lx tok lx'"
  using assms(3) advance_while_pos [where P = isdigit, OF assms(1,2)]
  by (auto simp: read_number_def consumes_def error_token_def Let_def Token3_def Token4_def split: option.splits)

lemma lookup_keyword_not_Eof: "lookup_keyword w \<noteq> Tok_Eof"
  by (simp add: lookup_keyword_def)

lemma read_identifier_consumes:
  assumes "rest lx = c # r" "isalpha c \<or> c = CHR ''_''" "read_identifier lx = (tok, lx')"
  shows "consumes lx tok lx'"
proof -
  have "identifier_char c"
    using assms(2) by (auto simp: identifier_char_def isalnum_def)
  from assms(3) advance_while_pos [where P = identifier_char, OF assms(1) this] show ?thesis
    by (auto simp: read_identifier_def consumes_def Let_def Token3_def Token4_def lookup_keyword_not_Eof
        split: if_splits)
qed

lemma operator1_consumes:
  assumes "rest lx = c # r" "t \<noteq> Tok_Eof"
  shows "\<exists>tok lx'. operator1 t lx = Ok (tok, lx') \<and> consumes lx tok lx'"
proof -
  have "pos lx < length (input lx)"
    using assms(1) length_rest [of lx] by simp
  then show ?thesis
    using assms(2) by (auto simp: operator1_def make_token_def consumes_def Token3_def Let_def)
qed

lemma operator2_consumes:
  assumes "rest lx = c # r" "t1 \<noteq> Tok_Eof" "t2 \<noteq> Tok_Eof" "d \<noteq> CHR 0x00"
  shows "\<exists>tok lx'. operator2 d t2 t1 lx = Ok (tok, lx') \<and> consumes lx tok lx'"
proof -
  have "pos lx < length (input lx)"
    using assms(1) length_rest [of lx] by simp
  moreover have "pos lx + 1 < length (input lx)" if "current (advance_char lx) = d"
    using that assms(4) by (auto simp: current_def split: if_splits)
  ultimately show ?thesis
    using assms(2,3)
    by (cases "current (advance_char lx) = d")
       (auto simp: operator2_def make_token_def consumes_def Token3_def Let_def)
qed

lemma read_operator_consumes:
  assumes "rest lx = c # r"
  shows "\<exists>tok lx'. read_operator lx = Ok (tok, lx') \<and> consumes lx tok lx'"
proof -
  have "pos lx < length (input lx)"
    using assms length_rest [of lx] by simp
  then have err: "\<exists>tok lx'. Ok (error_token m (advance_char lx)) = Ok (tok, lx') \<and> consumes lx tok lx'" for m
    by (simp add: error_token_def consumes_def Token3_def Let_def)
  show ?thesis
    unfolding read_operator_def Let_def
    using err by (simp add: operator1_consumes [OF assms] operator2_consumes [OF assms])
qed

lemma next_token_fresh:
  assumes "\<not> has_peeked lx"
  shows "next_token lx =
    (let lx = skip_whitespace lx in
     if at_end lx then obind (make_token Tok_Eof lx) (\<lambda>tok. Ok (tok, lx))
     else if isdigit (current lx) then Ok (read_number lx)
     else if isalpha (current lx) \<or> current lx = CHR ''_'' then Ok (read_identifier lx)
     else read_operator lx)"
proof -
  have "\<not> (current (skip_whitespace lx) = CHR ''/'' \<and> peek (skip_whitespace lx) = CHR ''/'')"
    if "\<not> at_end (skip_whitespace lx)"
    using that by (induction lx rule: skip_whitespace.induct) (subst (asm) (1) skip_whitespace.simps, subst (1 2) skip_whitespace.simps, auto)
  then show ?thesis
    using assms by (subst next_token.simps) (auto simp: Let_def)
qed

text \<open>A lexer over a non-empty text whose position is inside it: no operation of it can fail.\<close>

definition lexer_ok :: "Lexer \<Rightarrow> bool" where
  "lexer_ok lx \<longleftrightarrow> input lx \<noteq> [] \<and> pos lx \<le> length (input lx)"

lemma skip_whitespace_pos:
  "pos lx \<le> length (input lx) \<Longrightarrow> pos (skip_whitespace lx) \<le> length (input lx)"
proof (induction lx rule: skip_whitespace.induct)
  case (1 lx)
  have "pos (advance_char lx) \<le> length (input lx)" if "\<not> at_end lx"
    using that by (simp add: at_end_def)
  moreover have "pos (skip_line_comment lx) \<le> length (input lx)"
    using 1(3) length_takeWhile_le [of "\<lambda>c. c \<noteq> CHR 0x0A" "rest lx"] by (simp add: length_rest)
  ultimately show ?case
    using 1 by (subst skip_whitespace.simps) auto
qed

lemma next_token_fresh_cases:
  assumes "\<not> has_peeked lx" "lexer_ok lx"
  obtains (eof) tok where "next_token lx = Ok (tok, skip_whitespace lx)" "tok_type tok = Tok_Eof"
      "rest (skip_whitespace lx) = []"
    | (tok) tok lx' where "next_token lx = Ok (tok, lx')" "consumes (skip_whitespace lx) tok lx'"
proof (cases "rest (skip_whitespace lx)")
  case Nil
  have "pos (skip_whitespace lx) \<le> length (input lx)" "input lx \<noteq> []"
    using assms(2) skip_whitespace_pos [of lx] by (simp_all add: lexer_ok_def)
  moreover have "length (input lx) \<le> pos (skip_whitespace lx)"
    using Nil length_rest [of "skip_whitespace lx"] by simp
  ultimately have "\<exists>tok. make_token Tok_Eof (skip_whitespace lx) = Ok tok \<and> tok_type tok = Tok_Eof"
    by (intro make_token_ok) auto
  then show thesis
    using eof Nil assms(1) by (auto simp: next_token_fresh at_end_rest Let_def)
next
  case (Cons c r)
  then have c: "current (skip_whitespace lx) = c" "\<not> at_end (skip_whitespace lx)"
    by (simp_all add: current_rest at_end_rest)
  have "\<exists>tok lx'. next_token lx = Ok (tok, lx') \<and> consumes (skip_whitespace lx) tok lx'"
    using c assms(1) read_number_consumes [OF Cons] read_identifier_consumes [OF Cons] read_operator_consumes [OF Cons]
    by (cases "read_number (skip_whitespace lx)"; cases "read_identifier (skip_whitespace lx)")
       (auto simp: next_token_fresh Let_def)
  then show thesis
    using tok by blast
qed

text \<open>What one call consumes: the look-ahead token, or at least one character.\<close>

definition lexer_size :: "Lexer \<Rightarrow> nat" where
  "lexer_size lx = length (rest lx) + (if has_peeked lx then 1 else 0)"

lemma next_token_shrinks:
  assumes "next_token lx = Ok (tok, lx')" "tok_type tok \<noteq> Tok_Eof"
  shows "lexer_size lx' < lexer_size lx"
proof (cases "has_peeked lx")
  case True
  then show ?thesis
    using assms by (subst (asm) next_token.simps) (auto simp: lexer_size_def rest_def)
next
  case fresh: False
  show ?thesis
  proof (cases "rest (skip_whitespace lx)")
    case Nil
    then show ?thesis
      using assms fresh
      by (auto simp: next_token_fresh Let_def at_end_rest make_token_def Token3_def split: if_splits)
  next
    case (Cons c r)
    then have "lexer_ok lx"
      using length_rest [of "skip_whitespace lx"] skip_whitespace_le(2) [of lx] by (auto simp: lexer_ok_def)
    then obtain "consumes (skip_whitespace lx) tok lx'"
      using next_token_fresh_cases [OF fresh] assms by (metis outcome.inject(1) prod.inject)
    then have "length (rest lx') < length (rest (skip_whitespace lx))" "\<not> has_peeked lx'"
      using fresh by (auto simp: consumes_def length_rest)
    then show ?thesis
      using fresh skip_whitespace_le(1) [of lx] by (simp add: lexer_size_def)
  qed
qed

function lex_tokens :: "Lexer \<Rightarrow> Token list" where
  "lex_tokens lx =
     (case next_token lx of
        Ok (tok, lx') \<Rightarrow> if tok_type tok = Tok_Eof then [] else tok # lex_tokens lx'
      | _ \<Rightarrow> [])"
  by pat_completeness auto
termination
  by (relation "measure lexer_size") (auto intro: next_token_shrinks)

declare lex_tokens.simps [simp del]

lemma lex_tokens_not_Eof: "t \<in> set (lex_tokens lx) \<Longrightarrow> tok_type t \<noteq> Tok_Eof"
proof (induction lx rule: lex_tokens.induct)
  case (1 lx)
  show ?case
    using 1(2) by (subst (asm) lex_tokens.simps) (auto split: outcome.splits if_splits dest: 1(1) [OF sym, rotated 2])
qed

lemma length_lex_tokens: "length (lex_tokens lx) \<le> lexer_size lx"
proof (induction lx rule: lex_tokens.induct)
  case (1 lx)
  show ?case
  proof (cases "next_token lx")
    case (Ok p)
    then show ?thesis
      using 1 [OF Ok] next_token_shrinks [of lx "fst p" "snd p"]
      by (subst lex_tokens.simps) (auto split: prod.splits)
  qed (simp_all add: lex_tokens.simps [of lx])
qed

lemma next_token_ok:
  assumes "lexer_ok lx"
  shows "\<exists>tok lx'. next_token lx = Ok (tok, lx') \<and> lexer_ok lx' \<and> \<not> has_peeked lx' \<and> input lx' = input lx"
proof (cases "has_peeked lx")
  case True
  then show ?thesis
    using assms by (subst next_token.simps) (auto simp: lexer_ok_def)
next
  case False
  from False assms show ?thesis
    by (rule next_token_fresh_cases)
       (use False assms skip_whitespace_pos [of lx] in \<open>auto simp: lexer_ok_def consumes_def\<close>)
qed

text \<open>A look-ahead token that was already handed out has no influence.\<close>

lemma stale_basics [simp]:
  "at_end (lx\<lparr>peeked_token := t\<rparr>) = at_end lx" "current (lx\<lparr>peeked_token := t\<rparr>) = current lx"
  "peek (lx\<lparr>peeked_token := t\<rparr>) = peek lx" "rest (lx\<lparr>peeked_token := t\<rparr>) = rest lx"
  "advance_char (lx\<lparr>peeked_token := t\<rparr>) = (advance_char lx)\<lparr>peeked_token := t\<rparr>"
  "make_token ty (lx\<lparr>peeked_token := t\<rparr>) = make_token ty lx"
  by (simp_all add: at_end_def current_def peek_def rest_def advance_char_def make_token_def Let_def)

lemma stale_advance_while [simp]:
  "advance_while P (lx\<lparr>peeked_token := t\<rparr>) = (advance_while P lx)\<lparr>peeked_token := t\<rparr>"
  by (induction P lx rule: advance_while.induct) (subst (1 2) advance_while.simps, simp)

lemma stale_skip_whitespace [simp]:
  "skip_whitespace (lx\<lparr>peeked_token := t\<rparr>) = (skip_whitespace lx)\<lparr>peeked_token := t\<rparr>"
  by (induction lx rule: skip_whitespace.induct)
     (subst (1 2) skip_whitespace.simps, simp add: skip_line_comment_def)

lemma stale_next_token:
  assumes "\<not> has_peeked lx" "next_token lx = Ok (tok, lx')"
  shows "next_token (lx\<lparr>peeked_token := t\<rparr>) = Ok (tok, lx'\<lparr>peeked_token := t\<rparr>)"
proof -
  let ?s = "skip_whitespace lx"
  have rn: "read_number (?s\<lparr>peeked_token := t\<rparr>) = (fst (read_number ?s), (snd (read_number ?s))\<lparr>peeked_token := t\<rparr>)"
    by (simp add: read_number_def Let_def error_token_def split: option.split)
  have ri: "read_identifier (?s\<lparr>peeked_token := t\<rparr>)
      = (fst (read_identifier ?s), (snd (read_identifier ?s))\<lparr>peeked_token := t\<rparr>)"
    by (simp add: read_identifier_def Let_def)
  have op1: "operator1 ty (?s\<lparr>peeked_token := t\<rparr>) = Ok (tok, lx'\<lparr>peeked_token := t\<rparr>)"
    if "operator1 ty ?s = Ok (tok, lx')" for ty
    using that by (auto simp: operator1_def Let_def obind_eq_Ok)
  have op2: "operator2 c t2 t1 (?s\<lparr>peeked_token := t\<rparr>) = Ok (tok, lx'\<lparr>peeked_token := t\<rparr>)"
    if "operator2 c t2 t1 ?s = Ok (tok, lx')" for c t1 t2
    using that by (auto simp: operator2_def Let_def obind_eq_Ok split: if_splits)
  have ro: "read_operator (?s\<lparr>peeked_token := t\<rparr>) = Ok (tok, lx'\<lparr>peeked_token := t\<rparr>)"
    if "read_operator ?s = Ok (tok, lx')"
    using that unfolding read_operator_def Let_def stale_basics
    by (auto simp: op1 op2 error_token_def Let_def split: if_splits)
  show ?thesis
    using assms rn ri ro by (auto simp: next_token_fresh Let_def obind_eq_Ok split: if_splits)
qed

lemma stale_lex_tokens: "\<not> has_peeked lx \<Longrightarrow> lexer_ok lx \<Longrightarrow> lex_tokens (lx\<lparr>peeked_token := t\<rparr>) = lex_tokens lx"
proof (induction lx rule: lex_tokens.induct)
  case (1 lx)
  obtain tok lx' where n: "next_token lx = Ok (tok, lx')" "lexer_ok lx'" "\<not> has_peeked lx'"
    using next_token_ok [OF 1(3)] by blast
  then show ?case
    using 1(1) [OF n(1) refl] stale_next_token [OF 1(2) n(1), of t]
    by (subst (1 2) lex_tokens.simps) auto
qed

section \<open>The interface of the parser\<close>

text \<open>
  What the parser relies on: a source of tokens with one token of look-ahead. Looking ahead shows the
  first token and consumes nothing, taking a token removes it, and the end is reported as
  \<open>Tok_Eof\<close>, which is not a token of the sequence.
\<close>

locale token_source =
  fixes valid :: "'s \<Rightarrow> bool"
    and toks :: "'s \<Rightarrow> Token list"
    and look :: "'s \<Rightarrow> (Token \<times> 's) outcome"
    and take_next :: "'s \<Rightarrow> (Token \<times> 's) outcome"
  assumes look_law: "valid s \<Longrightarrow> \<exists>t s'. look s = Ok (t, s') \<and> valid s' \<and> toks s' = toks s \<and>
        (if toks s = [] then tok_type t = Tok_Eof else t = hd (toks s))"
    and take_law: "valid s \<Longrightarrow> toks s = t # ts \<Longrightarrow> \<exists>s'. take_next s = Ok (t, s') \<and> valid s' \<and> toks s' = ts"
    and toks_law: "t \<in> set (toks s) \<Longrightarrow> tok_type t \<noteq> Tok_Eof"
begin

text \<open>The type of the next token decides whether anything is left.\<close>

lemma look_Eof_iff: "valid s \<Longrightarrow> look s = Ok (t, s') \<Longrightarrow> tok_type t = Tok_Eof \<longleftrightarrow> toks s = []"
  using look_law [of s] toks_law [of "hd (toks s)" s] by (auto split: if_splits)

text \<open>Taking a token after looking at it gives the token that was seen.\<close>

lemma look_then_take:
  assumes "valid s" "look s = Ok (t, s1)" "tok_type t \<noteq> Tok_Eof"
  shows "\<exists>s2. take_next s1 = Ok (t, s2) \<and> valid s2 \<and> toks s = t # toks s2"
proof -
  have s1: "valid s1" "toks s1 = toks s" and t: "if toks s = [] then tok_type t = Tok_Eof else t = hd (toks s)"
    using look_law [OF assms(1)] assms(2) by auto
  then obtain ts where "toks s = t # ts"
    using assms(3) by (cases "toks s") auto
  then show ?thesis
    using take_law [OF s1(1)] s1(2) by auto
qed

lemma look_type:
  assumes "valid s"
  shows "\<exists>t s'. look s = Ok (t, s') \<and> valid s' \<and> toks s' = toks s \<and>
    tok_type t = (case toks s of [] \<Rightarrow> Tok_Eof | u # _ \<Rightarrow> tok_type u)"
  using look_law [OF assms] by (auto split: list.splits)

end

lemma lex_tokens_next:
  assumes "next_token lx = Ok (tok, lx')"
  shows "lex_tokens lx = (if tok_type tok = Tok_Eof then [] else tok # lex_tokens lx')"
  by (subst lex_tokens.simps) (simp add: assms)

lemma lexer_look:
  assumes "lexer_ok lx"
  shows "\<exists>t lx'. peek_token lx = Ok (t, lx') \<and> lexer_ok lx' \<and> lex_tokens lx' = lex_tokens lx \<and>
    (if lex_tokens lx = [] then tok_type t = Tok_Eof else t = hd (lex_tokens lx))"
proof (cases "has_peeked lx")
  case True
  then have "next_token lx = Ok (peeked_token lx, lx\<lparr>has_peeked := False\<rparr>)"
    by (subst next_token.simps) simp
  from lex_tokens_next [OF this] True assms show ?thesis
    by (auto simp: peek_token_def)
next
  case False
  obtain t lx' where n: "next_token lx = Ok (t, lx')" "lexer_ok lx'" "\<not> has_peeked lx'"
    using next_token_ok [OF assms] by blast
  define lx2 where "lx2 = lx'\<lparr>peeked_token := t, has_peeked := True\<rparr>"
  have "next_token lx2 = Ok (t, lx'\<lparr>peeked_token := t\<rparr>)"
    using n(3) by (subst next_token.simps) (simp add: lx2_def)
  moreover have "lex_tokens (lx'\<lparr>peeked_token := t\<rparr>) = lex_tokens lx'"
    using n(2,3) by (rule stale_lex_tokens [rotated])
  ultimately have "lex_tokens lx2 = lex_tokens lx"
    by (simp add: lex_tokens_next n(1))
  then show ?thesis
    using False n lex_tokens_next [OF n(1)] by (auto simp: peek_token_def lx2_def lexer_ok_def split: if_splits)
qed

lemma lexer_take:
  assumes "lexer_ok lx" "lex_tokens lx = t # ts"
  shows "\<exists>lx'. next_token lx = Ok (t, lx') \<and> lexer_ok lx' \<and> lex_tokens lx' = ts"
proof -
  obtain tok lx' where n: "next_token lx = Ok (tok, lx')" "lexer_ok lx'"
    using next_token_ok [OF assms(1)] by blast
  then show ?thesis
    using assms(2) lex_tokens_next [OF n(1)] by (auto split: if_splits)
qed

interpretation lex: token_source lexer_ok lex_tokens peek_token next_token
  by unfold_locales (use lexer_look lexer_take lex_tokens_not_Eof in blast)+

section \<open>Integer literals\<close>

definition decimal_from :: "nat \<Rightarrow> string \<Rightarrow> nat" where
  "decimal_from n s = foldl (\<lambda>n c. 10 * n + (of_char c - 48)) n s"

definition decimal :: "string \<Rightarrow> nat" where
  "decimal s = decimal_from 0 s"

lemma decimal_from_simps [simp]:
  "decimal_from n [] = n" "decimal_from n (c # cs) = decimal_from (10 * n + (of_char c - 48)) cs"
  by (simp_all add: decimal_from_def)

lemma decimal_from_ge: "n \<le> decimal_from n s"
proof (induction s arbitrary: n)
  case (Cons c s)
  have "n \<le> 10 * n + (of_char c - 48)" by simp
  also have "\<dots> \<le> decimal_from (10 * n + (of_char c - 48)) s" by (rule Cons.IH)
  finally show ?case by simp
qed simp

text \<open>The guard of the source is exact: it fires when and only when the next value needs more than 64 bits.\<close>

lemma overflow_guard:
  assumes "d \<le> 9"
  shows "(0xFFFFFFFFFFFFFFFF - word_of_nat d :: u64) div 10 < v \<longleftrightarrow> 2 ^ 64 \<le> 10 * unat v + d"
proof -
  have d: "unat (word_of_nat d :: u64) = d"
    using assms by (simp add: unat_of_nat)
  have "word_of_nat d \<le> (0xFFFFFFFFFFFFFFFF :: u64)"
    using assms by (simp add: word_le_nat_alt d)
  then have "unat (0xFFFFFFFFFFFFFFFF - word_of_nat d :: u64) = 18446744073709551615 - d"
    by (simp add: unat_sub d)
  then have "unat ((0xFFFFFFFFFFFFFFFF - word_of_nat d :: u64) div 10) = (18446744073709551615 - d) div 10"
    by (simp add: unat_div)
  then show ?thesis
    using assms by (simp add: word_less_nat_alt) linarith
qed

lemma parse_digits_exact:
  "list_all isdigit cs \<Longrightarrow>
    parse_digits v cs = (if decimal_from (unat v) cs < 2 ^ 64 then Some (word_of_nat (decimal_from (unat v) cs)) else None)"
proof (induction cs arbitrary: v)
  case Nil
  show ?case using unsigned_less [of v, where 'a = nat] by simp
next
  case (Cons c cs)
  define d where "d = of_char c - (48 :: nat)"
  have c: "(of_char c :: nat) = 48 + d" and d: "d \<le> 9"
    using Cons.prems by (auto simp: isdigit_def d_def)
  have w: "(word_of_int (int (of_char c) - 48) :: u64) = word_of_nat d"
    by (simp add: c)
  show ?case
  proof (cases "2 ^ 64 \<le> 10 * unat v + d")
    case True
    then show ?thesis
      using overflow_guard [OF d, of v] decimal_from_ge [of "10 * unat v + d" cs]
      by (simp add: w c Let_def)
  next
    case False
    have "unat (v * 10 + word_of_nat d) = 10 * unat v + d"
    proof -
      have "v * 10 + word_of_nat d = word_of_nat (10 * unat v + d)"
        by simp
      then show ?thesis
        using False by (simp add: unat_of_nat del: of_nat_add of_nat_mult)
    qed
    then show ?thesis
      using overflow_guard [OF d, of v] False Cons by (simp add: w c Let_def)
  qed
qed

lemma skip_whitespace_none:
  assumes "rest lx = c # r" "\<not> isspace c" "c \<noteq> CHR ''/''"
  shows "skip_whitespace lx = lx"
  using assms by (subst skip_whitespace.simps) (simp add: at_end_rest current_rest)

lemma not_space: "isdigit c \<Longrightarrow> \<not> isspace c \<and> c \<noteq> CHR ''/''" "isalpha c \<Longrightarrow> \<not> isspace c \<and> c \<noteq> CHR ''/'' \<and> \<not> isdigit c"
  by (auto simp: isdigit_def isspace_def isalpha_def)

lemma takeWhile_prefix:
  "list_all P w \<Longrightarrow> (case r of [] \<Rightarrow> True | c # _ \<Rightarrow> \<not> P c) \<Longrightarrow> takeWhile P (w @ r) = w \<and> dropWhile P (w @ r) = r"
  by (induction w) (auto split: list.splits)

lemma rest_substr: "take n (drop (pos lx) (input lx)) = take n (rest lx)"
  by (simp add: rest_def)

lemma rest_error [simp]: "rest (lx\<lparr>has_error := b, error_msg := m\<rparr>) = rest lx"
  by (simp add: rest_def)

lemma lex_number:
  assumes "rest lx = ds @ r" "ds \<noteq> []" "list_all isdigit ds" "case r of [] \<Rightarrow> True | c # _ \<Rightarrow> \<not> isdigit c"
    "\<not> has_peeked lx"
  shows "\<exists>tok lx'. next_token lx = Ok (tok, lx') \<and> rest lx' = r \<and> \<not> has_peeked lx' \<and> input lx' = input lx \<and>
    (if decimal ds < 2 ^ 64
     then tok_type tok = Tok_IntegerLiteral \<and> tok_text tok = ds \<and> tok_int_value tok = word_of_nat (decimal ds) \<and>
          has_error lx' = has_error lx
     else tok_type tok = Tok_Error \<and> has_error lx')"
proof -
  obtain c cs where c: "ds = c # cs" "isdigit c"
    using assms(2,3) by (cases ds) auto
  have s: "skip_whitespace lx = lx"
    using assms(1) c not_space(1) [OF c(2)] by (intro skip_whitespace_none) auto
  have "next_token lx = Ok (read_number lx)"
    using assms(1,5) c by (simp add: next_token_fresh s at_end_rest current_rest)
  moreover have "take (pos (advance_while isdigit lx) - pos lx) (drop (pos lx) (input lx)) = ds"
    using assms takeWhile_prefix [OF assms(3,4)] by (simp add: rest_substr)
  ultimately show ?thesis
    using assms takeWhile_prefix [OF assms(3,4)] parse_digits_exact [OF assms(3), of 0]
    by (auto simp: read_number_def Let_def decimal_def error_token_def Token3_def Token4_def rest_error)
qed

section \<open>Spelling a token sequence\<close>

text \<open>
  The part of a token that does not depend on its place in the text, and the relation between a word
  and the token it is lexed to when a blank follows it.
\<close>

type_synonym token_view = "TokenType \<times> string \<times> u64"

definition view_of :: "Token \<Rightarrow> token_view" where
  "view_of t = (tok_type t, tok_text t, tok_int_value t)"

definition spells :: "string \<Rightarrow> token_view \<Rightarrow> bool" where
  "spells w V \<longleftrightarrow> fst V \<noteq> Tok_Eof \<and>
     (\<forall>lx r. \<not> has_peeked lx \<and> rest lx = w @ CHR '' '' # r \<longrightarrow>
        (\<exists>tok lx'. next_token lx = Ok (tok, lx') \<and> view_of tok = V \<and> rest lx' = CHR '' '' # r \<and> \<not> has_peeked lx'))"

definition unwords :: "string list \<Rightarrow> string" where
  "unwords ws = concat (map (\<lambda>w. w @ '' '') ws)"

lemma unwords_simps [simp]:
  "unwords [] = []" "unwords (w # ws) = w @ CHR '' '' # unwords ws"
  "unwords (ws @ ws') = unwords ws @ unwords ws'"
  by (simp_all add: unwords_def)

lemma lex_tokens_blank:
  assumes "\<not> has_peeked lx" "rest lx = CHR '' '' # r"
  shows "lex_tokens lx = lex_tokens (advance_char lx)"
proof -
  have "skip_whitespace lx = skip_whitespace (advance_char lx)"
    using assms(2) by (subst skip_whitespace.simps) (simp add: at_end_rest current_rest isspace_def)
  then have "next_token lx = next_token (advance_char lx)"
    using assms(1) by (simp add: next_token_fresh)
  then show ?thesis
    by (simp add: lex_tokens.simps [of lx] lex_tokens.simps [of "advance_char lx"])
qed

lemma lex_tokens_end: "\<not> has_peeked lx \<Longrightarrow> rest lx = [] \<Longrightarrow> lex_tokens lx = []"
  by (subst lex_tokens.simps)
     (simp add: next_token_fresh skip_whitespace.simps [of lx] at_end_rest Let_def make_token_def Token3_def)

lemma lex_unwords:
  assumes "list_all2 spells ws Vs" "\<not> has_peeked lx" "rest lx = unwords ws"
  shows "map view_of (lex_tokens lx) = Vs"
  using assms
proof (induction ws Vs arbitrary: lx rule: list_all2_induct)
  case Nil
  then show ?case by (simp add: lex_tokens_end)
next
  case (Cons w ws V Vs)
  obtain tok lx' where n: "next_token lx = Ok (tok, lx')" "view_of tok = V" "rest lx' = CHR '' '' # unwords ws" "\<not> has_peeked lx'"
    using Cons.hyps(1) Cons.prems unfolding spells_def unwords_simps by blast
  have "tok_type tok \<noteq> Tok_Eof"
    using Cons.hyps(1) n(2) by (auto simp: spells_def view_of_def)
  then have "lex_tokens lx = tok # lex_tokens lx'"
    using lex_tokens_next [OF n(1)] by simp
  also have "lex_tokens lx' = lex_tokens (advance_char lx')"
    using n(4,3) by (rule lex_tokens_blank)
  finally show ?case
    using Cons.IH [of "advance_char lx'"] n by simp
qed

text \<open>Words: identifiers and keywords.\<close>

definition word_like :: "string \<Rightarrow> bool" where
  "word_like w \<longleftrightarrow> w \<noteq> [] \<and> (isalpha (hd w) \<or> hd w = CHR ''_'') \<and> list_all identifier_char w"

definition word_view :: "string \<Rightarrow> token_view" where
  "word_view w = (lookup_keyword w, w, if lookup_keyword w = Tok_True then 1 else 0)"

lemma spells_word:
  assumes "word_like w"
  shows "spells w (word_view w)"
proof -
  have "\<exists>tok lx'. next_token lx = Ok (tok, lx') \<and> view_of tok = word_view w \<and> rest lx' = CHR '' '' # r \<and> \<not> has_peeked lx'"
    if "\<not> has_peeked lx" "rest lx = w @ CHR '' '' # r" for lx r
  proof -
    obtain c cs where c: "w = c # cs" "isalpha c \<or> c = CHR ''_''"
      using assms by (cases w) (auto simp: word_like_def)
    have nd: "\<not> isdigit c" "\<not> isspace c" "c \<noteq> CHR ''/''"
      using c(2) not_space [of c] by (auto simp: isdigit_def isspace_def)
    have s: "skip_whitespace lx = lx"
      using that(2) c(1) nd by (intro skip_whitespace_none) auto
    have n: "next_token lx = Ok (read_identifier lx)"
      using that c nd by (simp add: next_token_fresh s at_end_rest current_rest)
    have tw: "takeWhile identifier_char (w @ CHR '' '' # r) = w \<and> dropWhile identifier_char (w @ CHR '' '' # r) = CHR '' '' # r"
      using assms by (intro takeWhile_prefix) (auto simp: word_like_def identifier_char_def isalnum_def isalpha_def isdigit_def)
    then have "take (pos (advance_while identifier_char lx) - pos lx) (drop (pos lx) (input lx)) = w"
      using that by (simp add: rest_substr)
    then show ?thesis
      using n that tw by (auto simp: read_identifier_def Let_def view_of_def word_view_def Token3_def Token4_def)
  qed
  then show ?thesis
    by (auto simp: spells_def word_view_def lookup_keyword_not_Eof)
qed

text \<open>Numbers, in the usual decimal notation.\<close>

fun digits :: "nat \<Rightarrow> string" where
  "digits n = (if n < 10 then [char_of (48 + n)] else digits (n div 10) @ [char_of (48 + n mod 10)])"

declare digits.simps [simp del]

lemma digit_char: "d < 10 \<Longrightarrow> isdigit (char_of (48 + d)) \<and> of_char (char_of (48 + d) :: char) = 48 + d"
  for d :: nat
  by (simp add: isdigit_def)

lemma decimal_snoc: "decimal (ds @ [c]) = 10 * decimal ds + (of_char c - 48)"
  by (simp add: decimal_def decimal_from_def)

lemma digits_facts: "decimal (digits n) = n \<and> list_all isdigit (digits n) \<and> digits n \<noteq> []"
proof (induction n rule: digits.induct)
  case (1 n)
  show ?case
  proof (cases "n < 10")
    case True
    then show ?thesis
      using digit_char [of n] by (simp add: digits.simps [of n] decimal_def)
  next
    case False
    then show ?thesis
      using 1 digit_char [of "n mod 10"] by (simp add: digits.simps [of n] decimal_snoc)
  qed
qed

lemma spells_number: "spells (digits (unat v)) (Tok_IntegerLiteral, digits (unat v), v)" for v :: u64
proof -
  have "decimal (digits (unat v)) < 2 ^ 64"
    using digits_facts [of "unat v"] unsigned_less [of v, where 'a = nat] by simp
  then show ?thesis
    using lex_number [of _ "digits (unat v)" "CHR '' '' # _"] digits_facts [of "unat v"]
    by (fastforce simp: spells_def view_of_def isdigit_def)
qed

text \<open>Operators and punctuation are spelled by their names; the text a token keeps is the last character.\<close>

definition operator_tokens :: "TokenType list" where
  "operator_tokens = [Tok_Plus, Tok_Minus, Tok_Star, Tok_Slash, Tok_Percent, Tok_Equal, Tok_NotEqual, Tok_Less,
     Tok_LessEqual, Tok_Greater, Tok_GreaterEqual, Tok_AmpAmp, Tok_PipePipe, Tok_Bang, Tok_Amp, Tok_Pipe, Tok_Caret,
     Tok_LParen, Tok_RParen, Tok_Comma, Tok_Semicolon]"

definition operator_view :: "TokenType \<Rightarrow> token_view" where
  "operator_view t = (t, [last (token_type_name t)], 0)"

lemma last_char:
  assumes "rest lx = c # r"
  shows "make_token t (advance_char lx) = Ok (Token3 t [c] (line (advance_char lx)) (column (advance_char lx) - 1))"
proof -
  have "pos lx < length (input lx)" "take (Suc 0) (rest lx) = [c]"
    using assms length_rest [of lx] by simp_all
  then show ?thesis
    by (simp add: make_token_def rest_def)
qed

lemma next_token_operator:
  assumes "rest lx = c # x # r" "\<not> has_peeked lx" "c = CHR ''/'' \<longrightarrow> x \<noteq> CHR ''/''"
    "\<not> isspace c" "\<not> isdigit c" "\<not> isalpha c" "c \<noteq> CHR ''_''"
  shows "next_token lx = read_operator lx" "current lx = c"
proof -
  have "skip_whitespace lx = lx"
    using assms by (subst skip_whitespace.simps) (auto simp: at_end_rest current_rest peek_rest)
  then show "next_token lx = read_operator lx" "current lx = c"
    using assms by (simp_all add: next_token_fresh at_end_rest current_rest)
qed

lemma spells_operator1:
  assumes "\<And>lx. current lx = c \<Longrightarrow> read_operator lx = operator1 t lx"
    "\<not> isspace c" "\<not> isdigit c" "\<not> isalpha c" "c \<noteq> CHR ''_''" "t \<noteq> Tok_Eof"
  shows "spells [c] (t, [c], 0)"
  using assms(1) next_token_operator [OF _ _ _ assms(2-5), of _ "CHR '' ''"] assms(6)
  by (auto simp: spells_def operator1_def Let_def last_char view_of_def Token3_def)

lemma spells_operator2:
  assumes "\<And>lx. current lx = c \<Longrightarrow> read_operator lx = operator2 d t2 t1 lx"
    "\<not> isspace c" "\<not> isdigit c" "\<not> isalpha c" "c \<noteq> CHR ''_''" "c \<noteq> CHR ''/''"
    "d \<noteq> CHR '' ''" "t1 \<noteq> Tok_Eof" "t2 \<noteq> Tok_Eof"
  shows "spells [c] (t1, [c], 0)" "spells [c, d] (t2, [d], 0)"
  using assms(1) next_token_operator [OF _ _ _ assms(2-5)] assms(6-)
  by (auto simp: spells_def operator2_def Let_def last_char view_of_def Token3_def current_rest)

lemma spells_operator:
  assumes "t \<in> set operator_tokens"
  shows "spells (token_type_name t) (operator_view t)"
proof -
  note class_simps = isspace_def isdigit_def isalpha_def read_operator_def
  have one: "spells ''+'' (Tok_Plus, ''+'', 0)" "spells ''-'' (Tok_Minus, ''-'', 0)" "spells ''*'' (Tok_Star, ''*'', 0)"
    "spells ''/'' (Tok_Slash, ''/'', 0)" "spells ''%'' (Tok_Percent, ''%'', 0)" "spells ''^'' (Tok_Caret, ''^'', 0)"
    "spells ''('' (Tok_LParen, ''('', 0)" "spells '')'' (Tok_RParen, '')'', 0)" "spells '','' (Tok_Comma, '','', 0)"
    "spells '';'' (Tok_Semicolon, '';'', 0)"
    by (rule spells_operator1; simp add: class_simps)+
  have equal2: "spells ''='' (Tok_Equal, ''='', 0)" "spells ''=='' (Tok_Equal, ''='', 0)"
    by (rule spells_operator2 [where c = "CHR ''=''" and d = "CHR ''=''" and ?t1.0 = Tok_Equal and ?t2.0 = Tok_Equal]; simp add: class_simps)+
  have notequal2: "spells ''!'' (Tok_Bang, ''!'', 0)" "spells ''!='' (Tok_NotEqual, ''='', 0)"
    by (rule spells_operator2 [where c = "CHR ''!''" and d = "CHR ''=''" and ?t1.0 = Tok_Bang and ?t2.0 = Tok_NotEqual]; simp add: class_simps)+
  have lessequal2: "spells ''<'' (Tok_Less, ''<'', 0)" "spells ''<='' (Tok_LessEqual, ''='', 0)"
    by (rule spells_operator2 [where c = "CHR ''<''" and d = "CHR ''=''" and ?t1.0 = Tok_Less and ?t2.0 = Tok_LessEqual]; simp add: class_simps)+
  have greaterequal2: "spells ''>'' (Tok_Greater, ''>'', 0)" "spells ''>='' (Tok_GreaterEqual, ''='', 0)"
    by (rule spells_operator2 [where c = "CHR ''>''" and d = "CHR ''=''" and ?t1.0 = Tok_Greater and ?t2.0 = Tok_GreaterEqual]; simp add: class_simps)+
  have ampamp2: "spells ''&'' (Tok_Amp, ''&'', 0)" "spells ''&&'' (Tok_AmpAmp, ''&'', 0)"
    by (rule spells_operator2 [where c = "CHR ''&''" and d = "CHR ''&''" and ?t1.0 = Tok_Amp and ?t2.0 = Tok_AmpAmp]; simp add: class_simps)+
  have pipepipe2: "spells ''|'' (Tok_Pipe, ''|'', 0)" "spells ''||'' (Tok_PipePipe, ''|'', 0)"
    by (rule spells_operator2 [where c = "CHR ''|''" and d = "CHR ''|''" and ?t1.0 = Tok_Pipe and ?t2.0 = Tok_PipePipe]; simp add: class_simps)+
  show ?thesis
    using assms one equal2 notequal2 lessequal2 greaterequal2 ampamp2 pipepipe2 by (auto simp: operator_tokens_def operator_view_def)
qed

section \<open>Properties\<close>

text \<open>
  C20. An integer literal is read exactly or rejected. On a text that starts with a non-empty run of
  digits, the first call of \<open>next_token\<close> succeeds: when the decimal value of the run is below
  \<open>2 ^ 64\<close> the token is an integer literal that carries the run and exactly that value, and the lexer
  reports no error; otherwise the token is \<open>Tok_Error\<close> and the lexer is in its error state. The value never
  wraps around.
\<close>

theorem literal_exact_or_rejected:
  assumes "ds \<noteq> []" "list_all isdigit ds" "case r of [] \<Rightarrow> True | c # _ \<Rightarrow> \<not> isdigit c"
  shows "\<exists>tok lx'. next_token (Lexer_init (ds @ r)) = Ok (tok, lx') \<and> rest lx' = r \<and>
    (if decimal ds < 2 ^ 64
     then tok_type tok = Tok_IntegerLiteral \<and> tok_text tok = ds \<and> unat (tok_int_value tok) = decimal ds \<and> \<not> has_error lx'
     else tok_type tok = Tok_Error \<and> has_error lx')"
proof -
  have i: "rest (Lexer_init (ds @ r)) = ds @ r" "\<not> has_peeked (Lexer_init (ds @ r))" "\<not> has_error (Lexer_init (ds @ r))"
    by (simp_all add: rest_def Lexer_init_def)
  from lex_number [OF i(1) assms i(2)] show ?thesis
    using i(3) by (auto simp: unat_of_nat split: if_splits)
qed

theorem literal_exact_or_rejected_witness:
  "(\<exists>tok lx'. next_token (Lexer_init ''18446744073709551615,'') = Ok (tok, lx') \<and>
      tok_type tok = Tok_IntegerLiteral \<and> unat (tok_int_value tok) = 18446744073709551615 \<and> \<not> has_error lx') \<and>
   (\<exists>tok lx'. next_token (Lexer_init ''18446744073709551616'') = Ok (tok, lx') \<and>
      tok_type tok = Tok_Error \<and> has_error lx')"
  using literal_exact_or_rejected [of "''18446744073709551615''" "'',''"]
    literal_exact_or_rejected [of "''18446744073709551616''" "[]"]
  by (simp add: isdigit_def decimal_def) blast

end
