(* ===== verification/Query_Parser.thy ===== *)
theory Query_Parser
  imports Query_Lexer
begin

text \<open>
  The recursive-descent parser of the query language: \<^verbatim>\<open>query/ast.hpp\<close>, \<^verbatim>\<open>query/parser.hpp\<close> and
  \<^verbatim>\<open>query/parser.cpp\<close>. A parsing method is a function on the state of the parser. Its result is \<open>None\<close>
  when the fuel that bounds the recursion and the loops is used up, and otherwise an \<open>outcome\<close>, \<open>Fault\<close>
  being the termination of the program by the exception that \<^verbatim>\<open>make_token\<close> can raise. One unit of
  fuel is spent per nested expression, per turn of a loop and per prefix operator, each of which takes
  at least one token, so that two more than the length of the text is always enough.
\<close>

section \<open>Syntax trees\<close>

text \<open>
  A node carries its line and column. The children of a node are never null, since the parser returns
  before it builds a node with a null child; an optional \<^verbatim>\<open>unique_ptr\<close> is an \<open>option\<close>.
\<close>

datatype Expression =
    LiteralExpr u64 nat nat
  | ColumnRefExpr string nat nat
  | BinaryOpExpr TokenType Expression Expression nat nat
  | UnaryOpExpr TokenType Expression nat nat
  | FunctionCallExpr string "Expression list" nat nat

record SelectItem =
  item_expr :: "Expression option"
  item_alias :: string
  is_wildcard :: bool

record QueryStmt =
  stmt_line :: nat
  stmt_column :: nat
  projections :: "SelectItem list"
  table_name :: string
  where_expr :: "Expression option"
  let_bindings :: "(string \<times> Expression option) list"
  group_by_columns :: "string list"
  tumble_window :: "Expression option"
  aggregations :: "(string \<times> Expression) list"
  order_by :: "(string \<times> bool) list"
  query_limit :: u64

definition QueryStmt_init :: "nat \<Rightarrow> nat \<Rightarrow> QueryStmt" where
  "QueryStmt_init ln col = \<lparr>stmt_line = ln, stmt_column = col, projections = [], table_name = [],
     where_expr = None, let_bindings = [], group_by_columns = [], tumble_window = None,
     aggregations = [], order_by = [], query_limit = 0\<rparr>"

section \<open>The state of the parser\<close>

record Parser =
  lexer :: Lexer
  failed :: bool
  failure_msg :: string
  failure_line :: nat
  failure_column :: nat

text \<open>The constructor leaves the location of an error unset; it is read only after an error.\<close>

definition Parser_init :: "string \<Rightarrow> Parser" where
  "Parser_init s = \<lparr>lexer = Lexer_init s, failed = False, failure_msg = [], failure_line = 0, failure_column = 0\<rparr>"

type_synonym 'a parse = "Parser \<Rightarrow> ('a \<times> Parser) outcome option"

definition preturn :: "'a \<Rightarrow> 'a parse" where
  "preturn a p = Some (Ok (a, p))"

definition out_of_fuel :: "'a parse" where
  "out_of_fuel p = None"

definition pbind :: "'a parse \<Rightarrow> ('a \<Rightarrow> 'b parse) \<Rightarrow> 'b parse" where
  "pbind m f p = (case m p of
      None \<Rightarrow> None
    | Some r \<Rightarrow> (case r of Ok (a, p') \<Rightarrow> f a p' | Err c \<Rightarrow> Some (Err c) | Fault \<Rightarrow> Some Fault))"

definition with_lexer :: "(Lexer \<Rightarrow> (Token \<times> Lexer) outcome) \<Rightarrow> Token parse" where
  "with_lexer f p = Some (obind (f (lexer p)) (\<lambda>(t, lx). Ok (t, p\<lparr>lexer := lx\<rparr>)))"

definition current_token :: "Token parse" where
  "current_token = with_lexer peek_token"

definition advance :: "Token parse" where
  "advance = with_lexer next_token"

definition has_failed :: "bool parse" where
  "has_failed p = Some (Ok (failed p, p))"

definition check :: "TokenType \<Rightarrow> bool parse" where
  "check ty = pbind current_token (\<lambda>t. preturn (tok_type t = ty))"

definition match :: "TokenType \<Rightarrow> bool parse" where
  "match ty = pbind (check ty) (\<lambda>b. if b then pbind advance (\<lambda>_. preturn True) else preturn False)"

definition set_error :: "string \<Rightarrow> nat \<Rightarrow> nat \<Rightarrow> unit parse" where
  "set_error msg ln col p = Some (Ok ((),
     if failed p then p
     else p\<lparr>failed := True, failure_msg := msg, failure_line := ln, failure_column := col\<rparr>))"

text \<open>\<^verbatim>\<open>set_error(msg, current_token().line, current_token().column)\<close>\<close>

definition error_here :: "string \<Rightarrow> unit parse" where
  "error_here msg = pbind current_token (\<lambda>t. set_error msg (tok_line t) (tok_column t))"

definition expect :: "TokenType \<Rightarrow> string \<Rightarrow> Token parse" where
  "expect ty msg = pbind (check ty) (\<lambda>b.
     if b then advance
     else pbind current_token (\<lambda>tok.
            pbind (set_error (msg @ '', got '' @ token_type_name (tok_type tok)) (tok_line tok) (tok_column tok))
              (\<lambda>_. preturn tok)))"

fun check_any :: "TokenType list \<Rightarrow> bool parse" where
  "check_any [] = preturn False"
| "check_any (ty # tys) = pbind (check ty) (\<lambda>b. if b then preturn True else check_any tys)"

section \<open>Expressions\<close>

text \<open>
  The binary levels of the grammar have one shape: an operand, then as long as an operator of the
  level follows, the operator and another operand, nested to the left. The levels of the logical and
  bitwise operators read the operator with \<^verbatim>\<open>match\<close> and take the location from the token behind it; the
  others test with \<^verbatim>\<open>check\<close>, take the token and use its location.
\<close>

definition match_operator :: "TokenType \<Rightarrow> (TokenType \<times> nat \<times> nat) option parse" where
  "match_operator ty = pbind (match ty) (\<lambda>b.
     if b then pbind current_token (\<lambda>t. preturn (Some (ty, tok_line t, tok_column t)))
     else preturn None)"

definition check_operator :: "TokenType list \<Rightarrow> (TokenType \<times> nat \<times> nat) option parse" where
  "check_operator tys = pbind (check_any tys) (\<lambda>b.
     if b then pbind advance (\<lambda>op. preturn (Some (tok_type op, tok_line op, tok_column op)))
     else preturn None)"

fun binary_loop ::
  "nat \<Rightarrow> (TokenType \<times> nat \<times> nat) option parse \<Rightarrow> Expression option parse \<Rightarrow> Expression \<Rightarrow> Expression option parse"
where
  "binary_loop 0 operator operand left = out_of_fuel"
| "binary_loop (Suc n) operator operand left = pbind operator (\<lambda>found.
     case found of
       None \<Rightarrow> preturn (Some left)
     | Some (op, ln, col) \<Rightarrow>
         pbind operand (\<lambda>right. pbind has_failed (\<lambda>err.
           case right of
             None \<Rightarrow> preturn None
           | Some r \<Rightarrow> if err then preturn None
                       else binary_loop n operator operand (BinaryOpExpr op left r ln col))))"

definition binary_level ::
  "nat \<Rightarrow> (TokenType \<times> nat \<times> nat) option parse \<Rightarrow> Expression option parse \<Rightarrow> Expression option parse"
where
  "binary_level n operator operand = pbind operand (\<lambda>left. pbind has_failed (\<lambda>err.
     case left of
       None \<Rightarrow> preturn None
     | Some l \<Rightarrow> if err then preturn left else binary_loop n operator operand l))"

text \<open>
  The methods of the class call each other in a cycle, closed by parenthesised expressions and
  function arguments. Here the cycle is cut at \<^verbatim>\<open>parse_expression\<close>: the other methods take
  it as the argument \<open>pe\<close>.
\<close>

fun parse_arguments :: "nat \<Rightarrow> Expression option parse \<Rightarrow> Expression list \<Rightarrow> Expression list option parse" where
  "parse_arguments 0 pe args = out_of_fuel"
| "parse_arguments (Suc n) pe args = pbind pe (\<lambda>arg. pbind has_failed (\<lambda>err.
     case arg of
       None \<Rightarrow> preturn None
     | Some a \<Rightarrow>
         if err then preturn None
         else pbind (match Tok_Comma) (\<lambda>comma. pbind has_failed (\<lambda>err.
                if comma \<and> \<not> err then parse_arguments n pe (args @ [a]) else preturn (Some (args @ [a]))))))"

definition parse_function_call ::
  "nat \<Rightarrow> Expression option parse \<Rightarrow> string \<Rightarrow> nat \<Rightarrow> nat \<Rightarrow> Expression option parse"
where
  "parse_function_call n pe name ln col =
     pbind advance (\<lambda>_.
     pbind (match Tok_Star) (\<lambda>star.
     pbind (if star then preturn (Some [])
            else pbind (check Tok_RParen) (\<lambda>close. if close then preturn (Some []) else parse_arguments n pe []))
       (\<lambda>args. case args of
          None \<Rightarrow> preturn None
        | Some as \<Rightarrow>
            pbind (match Tok_RParen) (\<lambda>close.
              if close then preturn (Some (FunctionCallExpr name as ln col))
              else pbind (error_here ''Expected ')' after function arguments'') (\<lambda>_. preturn None)))))"

definition parse_name :: "nat \<Rightarrow> Expression option parse \<Rightarrow> Expression option parse" where
  "parse_name n pe = pbind advance (\<lambda>name. pbind (check Tok_LParen) (\<lambda>call.
     if call then parse_function_call n pe (tok_text name) (tok_line name) (tok_column name)
     else preturn (Some (ColumnRefExpr (tok_text name) (tok_line name) (tok_column name)))))"

definition parse_primary_expr :: "nat \<Rightarrow> Expression option parse \<Rightarrow> Expression option parse" where
  "parse_primary_expr n pe =
     pbind current_token (\<lambda>tok.
     pbind (match Tok_IntegerLiteral) (\<lambda>b.
     if b then preturn (Some (LiteralExpr (tok_int_value tok) (tok_line tok) (tok_column tok))) else
     pbind (match Tok_True) (\<lambda>b.
     if b then preturn (Some (LiteralExpr 1 (tok_line tok) (tok_column tok))) else
     pbind (match Tok_False) (\<lambda>b.
     if b then preturn (Some (LiteralExpr 0 (tok_line tok) (tok_column tok))) else
     pbind (match Tok_LParen) (\<lambda>b.
     if b then
       pbind pe (\<lambda>expr. pbind has_failed (\<lambda>err.
         if expr = None \<or> err then preturn None
         else pbind (match Tok_RParen) (\<lambda>close.
                if close then preturn expr
                else pbind (error_here ''Expected ')' after expression'') (\<lambda>_. preturn None))))
     else
     pbind (check_any [Tok_Count, Tok_Sum, Tok_Min, Tok_Max, Tok_Avg]) (\<lambda>b.
     if b then parse_name n pe else
     pbind (check Tok_Identifier) (\<lambda>b.
     if b then parse_name n pe else
     pbind (set_error ''Expected expression'' (tok_line tok) (tok_column tok)) (\<lambda>_. preturn None))))))))"

fun parse_unary_expr :: "nat \<Rightarrow> nat \<Rightarrow> Expression option parse \<Rightarrow> Expression option parse" where
  "parse_unary_expr 0 k pe = out_of_fuel"
| "parse_unary_expr (Suc n) k pe = pbind (check_any [Tok_Minus, Tok_Bang]) (\<lambda>prefix.
     if prefix then
       pbind advance (\<lambda>op. pbind (parse_unary_expr n k pe) (\<lambda>operand. pbind has_failed (\<lambda>err.
         case operand of
           None \<Rightarrow> preturn None
         | Some e \<Rightarrow> if err then preturn None
                     else preturn (Some (UnaryOpExpr (tok_type op) e (tok_line op) (tok_column op))))))
     else parse_primary_expr k pe)"

definition parse_multiplicative_expr :: "nat \<Rightarrow> Expression option parse \<Rightarrow> Expression option parse" where
  "parse_multiplicative_expr n pe =
     binary_level n (check_operator [Tok_Star, Tok_Slash, Tok_Percent]) (parse_unary_expr n n pe)"

definition parse_additive_expr :: "nat \<Rightarrow> Expression option parse \<Rightarrow> Expression option parse" where
  "parse_additive_expr n pe =
     binary_level n (check_operator [Tok_Plus, Tok_Minus]) (parse_multiplicative_expr n pe)"

definition parse_comparison_expr :: "nat \<Rightarrow> Expression option parse \<Rightarrow> Expression option parse" where
  "parse_comparison_expr n pe =
     binary_level n (check_operator [Tok_Less, Tok_LessEqual, Tok_Greater, Tok_GreaterEqual]) (parse_additive_expr n pe)"

definition parse_equality_expr :: "nat \<Rightarrow> Expression option parse \<Rightarrow> Expression option parse" where
  "parse_equality_expr n pe =
     binary_level n (check_operator [Tok_Equal, Tok_NotEqual]) (parse_comparison_expr n pe)"

definition parse_bitwise_and_expr :: "nat \<Rightarrow> Expression option parse \<Rightarrow> Expression option parse" where
  "parse_bitwise_and_expr n pe = binary_level n (match_operator Tok_Amp) (parse_equality_expr n pe)"

definition parse_bitwise_xor_expr :: "nat \<Rightarrow> Expression option parse \<Rightarrow> Expression option parse" where
  "parse_bitwise_xor_expr n pe = binary_level n (match_operator Tok_Caret) (parse_bitwise_and_expr n pe)"

definition parse_bitwise_or_expr :: "nat \<Rightarrow> Expression option parse \<Rightarrow> Expression option parse" where
  "parse_bitwise_or_expr n pe = binary_level n (match_operator Tok_Pipe) (parse_bitwise_xor_expr n pe)"

definition parse_and_expr :: "nat \<Rightarrow> Expression option parse \<Rightarrow> Expression option parse" where
  "parse_and_expr n pe = binary_level n (match_operator Tok_And) (parse_bitwise_or_expr n pe)"

definition parse_or_expr :: "nat \<Rightarrow> Expression option parse \<Rightarrow> Expression option parse" where
  "parse_or_expr n pe = binary_level n (match_operator Tok_Or) (parse_and_expr n pe)"

primrec parse_expression :: "nat \<Rightarrow> Expression option parse" where
  "parse_expression 0 = out_of_fuel"
| "parse_expression (Suc n) = parse_or_expr n (parse_expression n)"

section \<open>Queries\<close>

text \<open>The loops \<^verbatim>\<open>do ... while (match(TokenType::Comma) && !has_error_)\<close>: whether to go round again.\<close>

definition another :: "bool parse" where
  "another = pbind (match Tok_Comma) (\<lambda>comma. if comma then pbind has_failed (\<lambda>err. preturn (\<not> err)) else preturn False)"

text \<open>Their body returns the query so far and whether it ended without a \<^verbatim>\<open>break\<close>.\<close>

fun comma_loop :: "nat \<Rightarrow> (QueryStmt \<Rightarrow> (bool \<times> QueryStmt) parse) \<Rightarrow> QueryStmt \<Rightarrow> QueryStmt parse" where
  "comma_loop 0 body q = out_of_fuel"
| "comma_loop (Suc n) body q = pbind (body q) (\<lambda>(go_on, q).
     if go_on then pbind another (\<lambda>more. if more then comma_loop n body q else preturn q)
     else preturn q)"

text \<open>
  The projection list. \<open>bare\<close> tells the list after an opening \<^verbatim>\<open>SELECT\<close>, where an alias may stand
  without \<^verbatim>\<open>AS\<close>, from the list of a later \<^verbatim>\<open>SELECT\<close> clause.
\<close>

definition parse_alias :: "bool \<Rightarrow> string option parse" where
  "parse_alias bare = pbind (match Tok_As) (\<lambda>as.
     if as then
       pbind (expect Tok_Identifier ''Expected alias after AS'') (\<lambda>a. pbind has_failed (\<lambda>err.
         preturn (if err then None else Some (tok_text a))))
     else if bare then
       pbind (check Tok_Identifier) (\<lambda>b. if b then pbind advance (\<lambda>a. preturn (Some (tok_text a))) else preturn (Some []))
     else preturn (Some []))"

definition parse_projection :: "bool \<Rightarrow> Expression option parse \<Rightarrow> QueryStmt \<Rightarrow> (bool \<times> QueryStmt) parse" where
  "parse_projection bare pe q = pbind (match Tok_Star) (\<lambda>star.
     if star then
       preturn (True, q\<lparr>projections := projections q @ [\<lparr>item_expr = None, item_alias = ''*'', is_wildcard = True\<rparr>]\<rparr>)
     else
       pbind pe (\<lambda>expr. pbind has_failed (\<lambda>err.
         if expr = None \<or> err then preturn (False, q)
         else pbind (parse_alias bare) (\<lambda>alias. preturn (case alias of
                None \<Rightarrow> (False, q)
              | Some a \<Rightarrow>
                  (True, q\<lparr>projections := projections q @ [\<lparr>item_expr = expr, item_alias = a, is_wildcard = False\<rparr>]\<rparr>))))))"

definition parse_projections :: "nat \<Rightarrow> bool \<Rightarrow> Expression option parse \<Rightarrow> QueryStmt \<Rightarrow> QueryStmt parse" where
  "parse_projections n bare pe = comma_loop n (parse_projection bare pe)"

text \<open>The clauses. A clause returns the query and whether the loop over the clauses goes on.\<close>

definition where_clause :: "Expression option parse \<Rightarrow> QueryStmt \<Rightarrow> (bool \<times> QueryStmt) parse" where
  "where_clause pe q = pbind advance (\<lambda>_. pbind pe (\<lambda>e. pbind has_failed (\<lambda>err.
     preturn (\<not> err, q\<lparr>where_expr := e\<rparr>))))"

definition let_clause :: "Expression option parse \<Rightarrow> QueryStmt \<Rightarrow> (bool \<times> QueryStmt) parse" where
  "let_clause pe q = pbind advance (\<lambda>_.
     pbind (expect Tok_Identifier ''Expected variable name'') (\<lambda>name. pbind has_failed (\<lambda>err.
     if err then preturn (False, q)
     else pbind (match Tok_Equal) (\<lambda>eq.
       if \<not> eq then pbind (error_here ''Expected '=' after variable name'') (\<lambda>_. preturn (False, q))
       else pbind pe (\<lambda>e. pbind has_failed (\<lambda>err.
              if err then preturn (False, q)
              else preturn (True, q\<lparr>let_bindings := let_bindings q @ [(tok_text name, e)]\<rparr>)))))))"

definition parse_group_column :: "QueryStmt \<Rightarrow> (bool \<times> QueryStmt) parse" where
  "parse_group_column q =
     pbind (expect Tok_Identifier ''Expected column name'') (\<lambda>col. pbind has_failed (\<lambda>err.
       preturn (if err then (False, q)
                else (True, q\<lparr>group_by_columns := group_by_columns q @ [tok_text col]\<rparr>))))"

definition tumble_clause :: "Expression option parse \<Rightarrow> QueryStmt \<Rightarrow> (bool \<times> QueryStmt) parse" where
  "tumble_clause pe q = pbind (match Tok_Tumble) (\<lambda>tumble.
     if \<not> tumble then preturn (True, q)
     else pbind (match Tok_LParen) (\<lambda>open1.
       if \<not> open1 then pbind (error_here ''Expected '(' after TUMBLE'') (\<lambda>_. preturn (False, q))
       else pbind pe (\<lambda>e. pbind has_failed (\<lambda>err.
         let q = q\<lparr>tumble_window := e\<rparr> in
         if err then preturn (False, q)
         else pbind (match Tok_RParen) (\<lambda>close.
           if \<not> close then pbind (error_here ''Expected ')' after TUMBLE expression'') (\<lambda>_. preturn (False, q))
           else preturn (True, q))))))"

definition group_clause :: "nat \<Rightarrow> Expression option parse \<Rightarrow> QueryStmt \<Rightarrow> (bool \<times> QueryStmt) parse" where
  "group_clause n pe q = pbind advance (\<lambda>_. pbind (match Tok_By) (\<lambda>by1.
     if \<not> by1 then pbind (error_here ''Expected BY after GROUP'') (\<lambda>_. preturn (False, q))
     else pbind (comma_loop n parse_group_column q) (\<lambda>q. tumble_clause pe q)))"

definition parse_aggregation_argument :: "Expression option parse \<Rightarrow> (bool \<times> Expression option) parse" where
  "parse_aggregation_argument pe = pbind (match Tok_Star) (\<lambda>star.
     if star then preturn (False, None)
     else pbind (check Tok_RParen) (\<lambda>close.
            if close then preturn (False, None)
            else pbind pe (\<lambda>a. pbind has_failed (\<lambda>err. preturn (err, a)))))"

definition parse_aggregation :: "Expression option parse \<Rightarrow> QueryStmt \<Rightarrow> (bool \<times> QueryStmt) parse" where
  "parse_aggregation pe q =
     pbind (check_any [Tok_Identifier, Tok_Count, Tok_Sum, Tok_Min, Tok_Max, Tok_Avg]) (\<lambda>b.
     if \<not> b then pbind (error_here ''Expected aggregation function'') (\<lambda>_. preturn (False, q))
     else pbind advance (\<lambda>name. pbind (match Tok_LParen) (\<lambda>open1.
       if \<not> open1 then pbind (error_here ''Expected '(' after aggregation function'') (\<lambda>_. preturn (False, q))
       else pbind (parse_aggregation_argument pe) (\<lambda>(err, arg).
         if err then preturn (False, q)
         else pbind (match Tok_RParen) (\<lambda>close.
           if \<not> close then pbind (error_here ''Expected ')' after aggregation arguments'') (\<lambda>_. preturn (False, q))
           else
             (let call = FunctionCallExpr (tok_text name) (case arg of None \<Rightarrow> [] | Some a \<Rightarrow> [a])
                           (tok_line name) (tok_column name) in
              preturn (True, q\<lparr>aggregations := aggregations q @ [(tok_text name, call)]\<rparr>)))))))"

definition parse_direction :: "bool parse" where
  "parse_direction = pbind (match Tok_Asc) (\<lambda>asc.
     if asc then preturn True
     else pbind (match Tok_Desc) (\<lambda>desc.
       if desc then preturn False
       else pbind (check Tok_Identifier) (\<lambda>ident.
         if \<not> ident then preturn True
         else pbind current_token (\<lambda>dir.
           if tok_text dir = ''ASC'' \<or> tok_text dir = ''asc'' then pbind advance (\<lambda>_. preturn True)
           else if tok_text dir = ''DESC'' \<or> tok_text dir = ''desc'' then pbind advance (\<lambda>_. preturn False)
           else preturn True))))"

definition parse_order_column :: "QueryStmt \<Rightarrow> (bool \<times> QueryStmt) parse" where
  "parse_order_column q =
     pbind (expect Tok_Identifier ''Expected column name'') (\<lambda>col. pbind has_failed (\<lambda>err.
       if err then preturn (False, q)
       else pbind parse_direction (\<lambda>ascending.
              preturn (True, q\<lparr>order_by := order_by q @ [(tok_text col, ascending)]\<rparr>))))"

definition order_clause :: "nat \<Rightarrow> QueryStmt \<Rightarrow> (bool \<times> QueryStmt) parse" where
  "order_clause n q = pbind advance (\<lambda>_. pbind (match Tok_By) (\<lambda>by1.
     if \<not> by1 then pbind (error_here ''Expected BY after ORDER'') (\<lambda>_. preturn (False, q))
     else pbind (comma_loop n parse_order_column q) (\<lambda>q. preturn (True, q))))"

definition limit_clause :: "QueryStmt \<Rightarrow> (bool \<times> QueryStmt) parse" where
  "limit_clause q = pbind advance (\<lambda>_.
     pbind (expect Tok_IntegerLiteral ''Expected limit value'') (\<lambda>t. pbind has_failed (\<lambda>err.
       preturn (if err then (False, q) else (True, q\<lparr>query_limit := tok_int_value t\<rparr>)))))"

definition parse_clause :: "nat \<Rightarrow> Expression option parse \<Rightarrow> QueryStmt \<Rightarrow> (bool \<times> QueryStmt) parse" where
  "parse_clause n pe q =
     pbind (check Tok_Select) (\<lambda>b.
     if b then pbind advance (\<lambda>_. pbind (parse_projections n False pe q) (\<lambda>q. preturn (True, q))) else
     pbind (check Tok_Where) (\<lambda>b.
     if b then where_clause pe q else
     pbind (check Tok_Let) (\<lambda>b.
     if b then let_clause pe q else
     pbind (check Tok_Group) (\<lambda>b.
     if b then group_clause n pe q else
     pbind (check Tok_Agg) (\<lambda>b.
     if b then pbind advance (\<lambda>_. pbind (comma_loop n (parse_aggregation pe) q) (\<lambda>q. preturn (True, q))) else
     pbind (check Tok_Order) (\<lambda>b.
     if b then order_clause n q else
     pbind (check Tok_Limit) (\<lambda>b.
     if b then limit_clause q else
     pbind (error_here ''Unexpected token in query'') (\<lambda>_. preturn (False, q)))))))))"

fun parse_clauses :: "nat \<Rightarrow> nat \<Rightarrow> Expression option parse \<Rightarrow> QueryStmt \<Rightarrow> QueryStmt parse" where
  "parse_clauses 0 k pe q = out_of_fuel"
| "parse_clauses (Suc n) k pe q =
     pbind (check Tok_Eof) (\<lambda>eof. pbind has_failed (\<lambda>err.
       if eof \<or> err then preturn q
       else pbind (parse_clause k pe q) (\<lambda>(go_on, q).
              if go_on then parse_clauses n k pe q else preturn q)))"

definition parse_table :: "QueryStmt \<Rightarrow> QueryStmt parse" where
  "parse_table q = pbind (expect Tok_Identifier ''Expected table name'') (\<lambda>table.
     preturn (q\<lparr>table_name := tok_text table\<rparr>))"

text \<open>The part in front of the clauses.\<close>

definition parse_head :: "nat \<Rightarrow> Expression option parse \<Rightarrow> Token \<Rightarrow> QueryStmt parse" where
  "parse_head n pe tok =
     (let q = QueryStmt_init (tok_line tok) (tok_column tok) in
      pbind (match Tok_Select) (\<lambda>select.
      if select then
        pbind (parse_projections n True pe q) (\<lambda>q. pbind has_failed (\<lambda>err.
          if err then preturn q
          else pbind (match Tok_From) (\<lambda>from.
                 if from then parse_table q else preturn (q\<lparr>table_name := ''events''\<rparr>))))
      else pbind (match Tok_From) (\<lambda>from.
             if from then parse_table q
             else pbind (set_error ''Expected SELECT or FROM'' (tok_line tok) (tok_column tok)) (\<lambda>_. preturn q))))"

definition parse_query :: "nat \<Rightarrow> QueryStmt outcome parse" where
  "parse_query n =
     pbind current_token (\<lambda>tok.
     pbind (parse_head n (parse_expression n) tok) (\<lambda>q. pbind has_failed (\<lambda>err.
     if err then preturn (Err ParserError)
     else pbind (parse_clauses n n (parse_expression n) q) (\<lambda>q. pbind has_failed (\<lambda>err.
            preturn (if err then Err ParserError else Ok q))))))"

section \<open>Reasoning about parsing methods\<close>

text \<open>
  Seen from the parser, the lexer is the sequence of the tokens that are left. \<open>wp m Q ts e\<close> says that
  \<open>m\<close>, started with the tokens \<open>ts\<close> and the error flag \<open>e\<close>, returns a result, neither running out of
  fuel nor faulting, and that the result, the tokens left and the error flag satisfy \<open>Q\<close>.
\<close>

definition parser_at :: "Token list \<Rightarrow> bool \<Rightarrow> Parser \<Rightarrow> bool" where
  "parser_at ts e p \<longleftrightarrow> lexer_ok (lexer p) \<and> lex_tokens (lexer p) = ts \<and> failed p = e"

definition wp :: "'a parse \<Rightarrow> ('a \<Rightarrow> Token list \<Rightarrow> bool \<Rightarrow> bool) \<Rightarrow> Token list \<Rightarrow> bool \<Rightarrow> bool" where
  "wp m Q ts e \<longleftrightarrow>
     (\<forall>p. parser_at ts e p \<longrightarrow> (\<exists>a p' ts' e'. m p = Some (Ok (a, p')) \<and> parser_at ts' e' p' \<and> Q a ts' e'))"

definition head_type :: "Token list \<Rightarrow> TokenType" where
  "head_type ts = (case ts of [] \<Rightarrow> Tok_Eof | t # _ \<Rightarrow> tok_type t)"

lemma head_type_simps [simp]: "head_type [] = Tok_Eof" "head_type (t # ts) = tok_type t"
  by (simp_all add: head_type_def)

named_theorems wp_rules \<open>introduction rules of the calculus\<close>

lemma wp_mono: "wp m Q ts e \<Longrightarrow> (\<And>a ts' e'. Q a ts' e' \<Longrightarrow> R a ts' e') \<Longrightarrow> wp m R ts e"
  unfolding wp_def by blast

lemma wp_return [wp_rules]: "Q a ts e \<Longrightarrow> wp (preturn a) Q ts e"
  by (auto simp: wp_def preturn_def)

lemma wp_bind [wp_rules]:
  assumes "wp m (\<lambda>a. wp (f a) Q) ts e"
  shows "wp (pbind m f) Q ts e"
  unfolding wp_def
proof (intro allI impI)
  fix p
  assume "parser_at ts e p"
  then obtain a p' ts' e' where m: "m p = Some (Ok (a, p'))" "parser_at ts' e' p'" "wp (f a) Q ts' e'"
    using assms unfolding wp_def [of m] by blast
  then show "\<exists>b q ts' e'. pbind m f p = Some (Ok (b, q)) \<and> parser_at ts' e' q \<and> Q b ts' e'"
    unfolding wp_def [of "f a"] by (simp add: pbind_def)
qed

lemma wp_has_failed [wp_rules]: "Q e ts e \<Longrightarrow> wp has_failed Q ts e"
  by (auto simp: wp_def has_failed_def parser_at_def)

lemma wp_set_error [wp_rules]: "Q () ts True \<Longrightarrow> wp (set_error msg ln col) Q ts e"
  by (auto simp: wp_def set_error_def parser_at_def)

lemma wp_current_token:
  assumes "\<And>t. if ts = [] then tok_type t = Tok_Eof else t = hd ts \<Longrightarrow> Q t ts e"
  shows "wp current_token Q ts e"
  unfolding wp_def
proof (intro allI impI)
  fix p
  assume "parser_at ts e p"
  then show "\<exists>a p' ts' e'. current_token p = Some (Ok (a, p')) \<and> parser_at ts' e' p' \<and> Q a ts' e'"
    using lex.look_law [of "lexer p"] assms
    by (fastforce simp: parser_at_def current_token_def with_lexer_def)
qed

lemma wp_advance_Cons:
  assumes "Q t ts e"
  shows "wp advance Q (t # ts) e"
  unfolding wp_def
proof (intro allI impI)
  fix p
  assume "parser_at (t # ts) e p"
  then show "\<exists>a p' ts' e'. advance p = Some (Ok (a, p')) \<and> parser_at ts' e' p' \<and> Q a ts' e'"
    using lex.take_law [of "lexer p" t ts] assms
    by (fastforce simp: parser_at_def advance_def with_lexer_def)
qed

lemma wp_check [wp_rules]:
  assumes "Q (head_type ts = ty) ts e"
  shows "wp (check ty) Q ts e"
  unfolding check_def
  by (intro wp_bind wp_current_token wp_return) (use assms in \<open>cases ts; auto\<close>)

lemma wp_advance [wp_rules]: "ts \<noteq> [] \<Longrightarrow> Q (hd ts) (tl ts) e \<Longrightarrow> wp advance Q ts e"
  by (cases ts) (simp_all add: wp_advance_Cons)

lemma wp_match [wp_rules]:
  assumes "ty \<noteq> Tok_Eof" "head_type ts = ty \<Longrightarrow> Q True (tl ts) e" "head_type ts \<noteq> ty \<Longrightarrow> Q False ts e"
  shows "wp (match ty) Q ts e"
  unfolding match_def
proof (intro wp_bind wp_check)
  show "wp (if head_type ts = ty then pbind advance (\<lambda>_. preturn True) else preturn False) Q ts e"
    using assms by (cases ts) (auto intro!: wp_rules)
qed

lemma wp_error_here [wp_rules]: "Q () ts True \<Longrightarrow> wp (error_here msg) Q ts e"
  unfolding error_here_def by (intro wp_bind wp_current_token wp_set_error)

lemma wp_check_any [wp_rules]: "Q (head_type ts \<in> set tys) ts e \<Longrightarrow> wp (check_any tys) Q ts e"
  by (induction tys) (auto intro!: wp_rules)

lemma wp_expect [wp_rules]:
  assumes "ty \<noteq> Tok_Eof" "head_type ts = ty \<Longrightarrow> Q (hd ts) (tl ts) e"
    "\<And>t. head_type ts \<noteq> ty \<Longrightarrow> Q t ts True"
  shows "wp (expect ty msg) Q ts e"
  unfolding expect_def
proof (intro wp_bind wp_check)
  show "wp (if head_type ts = ty then advance
      else pbind current_token (\<lambda>tok. pbind (set_error (msg @ '', got '' @ token_type_name (tok_type tok)) (tok_line tok)
        (tok_column tok)) (\<lambda>_. preturn tok))) Q ts e"
  proof (cases "head_type ts = ty")
    case True
    then show ?thesis
      using assms(1,2) by (cases ts) (auto intro!: wp_rules)
  next
    case False
    then show ?thesis
      using assms(3) by (auto intro!: wp_rules wp_current_token)
  qed
qed

section \<open>Termination\<close>

text \<open>
  A parsing method that, started with at most \<open>n\<close> tokens, returns, leaves no more tokens than it
  found, never clears the error flag, and returns null only with the flag set.
\<close>

definition sane :: "Token list \<Rightarrow> bool \<Rightarrow> 'a option \<Rightarrow> Token list \<Rightarrow> bool \<Rightarrow> bool" where
  "sane ts e a ts' e' \<longleftrightarrow> length ts' \<le> length ts \<and> (e \<longrightarrow> e') \<and> (a = None \<longrightarrow> e')"

lemma saneI: "length ts' \<le> length ts \<Longrightarrow> (e \<Longrightarrow> e') \<Longrightarrow> (a = None \<Longrightarrow> e') \<Longrightarrow> sane ts e a ts' e'"
  by (simp add: sane_def)

definition total_for :: "nat \<Rightarrow> 'a option parse \<Rightarrow> bool" where
  "total_for n m \<longleftrightarrow> (\<forall>ts e. length ts < n \<longrightarrow> wp m (sane ts e) ts e)"

lemma total_forD:
  assumes "total_for n m" "length ts < n"
    "\<And>a ts' e'. length ts' \<le> length ts \<Longrightarrow> (e \<longrightarrow> e') \<Longrightarrow> (a = None \<longrightarrow> e') \<Longrightarrow> Q a ts' e'"
  shows "wp m Q ts e"
  using assms unfolding total_for_def sane_def by (blast intro: wp_mono)

lemma wp_sane_trans:
  assumes "wp m (sane ts' e') ts' e'" "length ts' \<le> length ts" "e \<longrightarrow> e'"
  shows "wp m (sane ts e) ts' e'"
  using assms(1) by (rule wp_mono) (use assms(2,3) in \<open>auto simp: sane_def\<close>)

lemma total_for_sane:
  assumes "total_for n m" "length ts' < n" "length ts' \<le> length ts" "e \<longrightarrow> e'"
  shows "wp m (sane ts e) ts' e'"
  by (rule wp_sane_trans) (use assms in \<open>auto simp: total_for_def\<close>)

text \<open>The same for the readers of a binary operator, which take a token when they find one.\<close>

definition operator_reader :: "TokenType set \<Rightarrow> (TokenType \<times> nat \<times> nat) option parse \<Rightarrow> bool" where
  "operator_reader tys m \<longleftrightarrow> (\<forall>ts e Q.
     (head_type ts \<in> tys \<longrightarrow> (\<forall>ln col. Q (Some (head_type ts, ln, col)) (tl ts) e)) \<longrightarrow>
     (head_type ts \<notin> tys \<longrightarrow> Q None ts e) \<longrightarrow> wp m Q ts e)"

lemma operator_readerD:
  assumes "operator_reader tys m"
    "\<And>ln col. head_type ts \<in> tys \<Longrightarrow> Q (Some (head_type ts, ln, col)) (tl ts) e"
    "head_type ts \<notin> tys \<Longrightarrow> Q None ts e"
  shows "wp m Q ts e"
  using assms unfolding operator_reader_def by blast

lemma match_operator_reader: "ty \<noteq> Tok_Eof \<Longrightarrow> operator_reader {ty} (match_operator ty)"
  unfolding operator_reader_def match_operator_def
proof (intro allI impI wp_bind wp_match, goal_cases)
  case (2 ts e Q)
  then show ?case
    unfolding if_True by (intro wp_bind wp_current_token wp_return) simp
qed (auto intro: wp_return)

lemma check_operator_reader:
  assumes "Tok_Eof \<notin> set tys"
  shows "operator_reader (set tys) (check_operator tys)"
proof -
  have "wp (if head_type ts \<in> set tys
      then pbind advance (\<lambda>op. preturn (Some (tok_type op, tok_line op, tok_column op))) else preturn None) Q ts e"
    if "head_type ts \<in> set tys \<longrightarrow> (\<forall>ln col. Q (Some (head_type ts, ln, col)) (tl ts) e)"
      "head_type ts \<notin> set tys \<longrightarrow> Q None ts e" for ts e and Q :: "(TokenType \<times> nat \<times> nat) option \<Rightarrow> Token list \<Rightarrow> bool \<Rightarrow> bool"
  proof (cases "head_type ts \<in> set tys")
    case True
    then obtain t us where "ts = t # us"
      using assms by (cases ts) auto
    then show ?thesis
      using that True by (simp only: if_True) (intro wp_bind wp_advance_Cons wp_return, simp)
  next
    case False
    then show ?thesis
      using that by (simp add: wp_return)
  qed
  then show ?thesis
    unfolding operator_reader_def check_operator_def by (blast intro: wp_bind wp_check_any)
qed

lemma head_type_length: "head_type ts \<in> tys \<Longrightarrow> Tok_Eof \<notin> tys \<Longrightarrow> length (tl ts) < length ts"
  by (cases ts) auto

lemma binary_loop_total:
  assumes "operator_reader tys operator" "Tok_Eof \<notin> tys" "total_for k operand" "length ts < n" "length ts < k"
  shows "wp (binary_loop n operator operand left) (sane ts e) ts e"
  using assms(4,5)
proof (induction n arbitrary: ts e left)
  case (Suc n)
  show ?case
    unfolding binary_loop.simps
  proof (intro wp_bind operator_readerD [OF assms(1)], goal_cases)
    case (1 ln col)
    then have l: "length (tl ts) < length ts"
      using assms(2) by (rule head_type_length)
    show ?case
      unfolding option.case prod.case
    proof (intro wp_bind total_forD [OF assms(3)] wp_has_failed, goal_cases)
      case 1
      then show ?case using l Suc.prems by simp
    next
      case (2 right ts' e')
      have "wp (binary_loop n operator operand x) (sane ts e) ts' e'" for x
        using 2 l Suc.prems by (intro wp_sane_trans [OF Suc.IH]) auto
      then show ?case
        using 2 l by (auto split: option.split intro!: wp_rules saneI)
    qed
  qed (auto intro!: wp_rules saneI)
qed simp

lemma binary_level_total:
  assumes "operator_reader tys operator" "Tok_Eof \<notin> tys" "total_for k operand" "k \<le> n"
  shows "total_for k (binary_level n operator operand)"
  unfolding total_for_def
proof (intro allI impI)
  fix ts :: "Token list" and e
  assume len: "length ts < k"
  show "wp (binary_level n operator operand) (sane ts e) ts e"
    unfolding binary_level_def
  proof (intro wp_bind total_forD [OF assms(3) len] wp_has_failed, goal_cases)
    case (1 left ts' e')
    have "wp (binary_loop n operator operand l) (sane ts e) ts' e'" for l
      using 1 len assms(4) by (intro wp_sane_trans [OF binary_loop_total [OF assms(1-3)]]) auto
    then show ?case
      using 1 by (auto split: option.split intro!: wp_rules saneI)
  qed
qed

lemma parse_arguments_total:
  assumes "total_for k pe" "length ts < n" "length ts < k"
  shows "wp (parse_arguments n pe args) (sane ts e) ts e"
  using assms(2,3)
proof (induction n arbitrary: ts e args)
  case (Suc n)
  show ?case
    unfolding parse_arguments.simps
  proof (intro wp_bind total_forD [OF assms(1) Suc.prems(2)] wp_has_failed, goal_cases)
    case (1 arg ts' e')
    have "wp (parse_arguments n pe as) (sane ts e) (tl ts') e'" if "head_type ts' = Tok_Comma" for as
    proof (rule wp_sane_trans [OF Suc.IH])
      have "length (tl ts') < length ts'"
        using head_type_length [of ts' "{Tok_Comma}"] that by simp
      then show "length (tl ts') < n" "length (tl ts') < k" "length (tl ts') \<le> length ts" "e \<longrightarrow> e'"
        using 1 Suc.prems by auto
    qed
    then show ?case
      using 1 by (auto split: option.split intro!: wp_rules saneI)
  qed
qed simp

lemma tl_le: "length ts \<le> n \<Longrightarrow> length (tl ts) \<le> n"
  by simp

lemma parse_function_call_total:
  assumes "total_for k pe" "length ts \<le> k" "k \<le> n" "ts \<noteq> []"
  shows "wp (parse_function_call n pe name ln col) (sane ts e) ts e"
proof -
  obtain t us where ts: "ts = t # us"
    using assms(4) by (cases ts) auto
  have "wp (parse_arguments n pe []) (\<lambda>a. wp (case a of None \<Rightarrow> preturn None
      | Some as \<Rightarrow> pbind (match Tok_RParen) (\<lambda>close. if close then preturn (Some (FunctionCallExpr name as ln col))
          else pbind (error_here ''Expected ')' after function arguments'') (\<lambda>_. preturn None))) (sane ts e)) us e"
    by (rule wp_mono [OF parse_arguments_total [OF assms(1)]])
       (use assms(2,3) ts in \<open>auto simp: sane_def [of us] simp del: length_tl split: option.split intro!: wp_rules saneI tl_le\<close>)
  then show ?thesis
    unfolding parse_function_call_def ts
    by (intro wp_rules) (auto simp del: length_tl intro!: wp_rules saneI tl_le)
qed

lemma parse_name_total:
  assumes "total_for k pe" "length ts \<le> k" "k \<le> n" "ts \<noteq> []"
  shows "wp (parse_name n pe) (sane ts e) ts e"
proof -
  obtain t us where ts: "ts = t # us"
    using assms(4) by (cases ts) auto
  have "wp (parse_function_call n pe (tok_text t) (tok_line t) (tok_column t)) (sane ts e) us e" if "head_type us = Tok_LParen"
    using that assms ts by (intro wp_sane_trans [OF parse_function_call_total [OF assms(1)]]) auto
  then show ?thesis
    unfolding parse_name_def ts
    by (intro wp_rules) (auto simp del: length_tl intro!: wp_rules saneI tl_le)
qed

lemma parse_primary_expr_total:
  assumes "total_for k pe" "length ts \<le> k" "k \<le> n"
  shows "wp (parse_primary_expr n pe) (sane ts e) ts e"
proof -
  have paren: "wp (pbind pe (\<lambda>expr. pbind has_failed (\<lambda>err.
         if expr = None \<or> err then preturn None
         else pbind (match Tok_RParen) (\<lambda>close.
                if close then preturn expr
                else pbind (error_here m) (\<lambda>_. preturn None))))) (sane ts e) (tl ts) e"
    if "head_type ts = Tok_LParen" for m
  proof (intro wp_bind wp_has_failed total_forD [OF assms(1)], goal_cases)
    case 1
    show ?case using assms(2) that by (cases ts) auto
  next
    case (2 a ts' e')
    then have "length ts' \<le> length ts" by simp
    then show ?case
      using 2 by (auto simp del: length_tl intro!: wp_rules saneI tl_le)
  qed
  have name: "wp (parse_name n pe) (sane ts e) ts e" if "head_type ts \<noteq> Tok_Eof"
    using that by (intro parse_name_total [OF assms]) auto
  show ?thesis
    unfolding parse_primary_expr_def
    by (intro wp_bind wp_current_token wp_match)
       (auto simp del: length_tl intro!: wp_rules saneI tl_le paren name)
qed

lemma parse_unary_expr_total:
  assumes "total_for k pe" "k \<le> m" "length ts < n" "length ts \<le> k"
  shows "wp (parse_unary_expr n m pe) (sane ts e) ts e"
  using assms(3,4)
proof (induction n arbitrary: ts e)
  case (Suc n)
  have prefix: "wp (pbind advance (\<lambda>op. pbind (parse_unary_expr n m pe) (\<lambda>operand. pbind has_failed (\<lambda>err.
         case operand of
           None \<Rightarrow> preturn None
         | Some e \<Rightarrow> if err then preturn None
                     else preturn (Some (UnaryOpExpr (tok_type op) e (tok_line op) (tok_column op))))))) (sane ts e) ts e"
    if ne: "head_type ts \<noteq> Tok_Eof"
  proof -
    obtain t us where ts: "ts = t # us"
      using ne by (cases ts) auto
    have "wp (parse_unary_expr n m pe) (sane us e) us e"
      using Suc.prems ts by (intro Suc.IH) auto
    then show ?thesis
      unfolding ts by (intro wp_bind wp_advance_Cons) (elim wp_mono, auto simp: sane_def [of us] split: option.split intro!: wp_rules saneI)
  qed
  show ?case
    unfolding parse_unary_expr.simps
    by (intro wp_bind wp_check_any)
       (use parse_primary_expr_total [OF assms(1) Suc.prems(2) assms(2)] prefix in auto)
qed simp

text \<open>
  The grammar: the levels of binary operators from the loosest to the tightest, each with the reader of
  its operators and the method for its operands.
\<close>

lemma readers:
  "operator_reader {Tok_Star, Tok_Slash, Tok_Percent} (check_operator [Tok_Star, Tok_Slash, Tok_Percent])"
  "operator_reader {Tok_Plus, Tok_Minus} (check_operator [Tok_Plus, Tok_Minus])"
  "operator_reader {Tok_Less, Tok_LessEqual, Tok_Greater, Tok_GreaterEqual}
     (check_operator [Tok_Less, Tok_LessEqual, Tok_Greater, Tok_GreaterEqual])"
  "operator_reader {Tok_Equal, Tok_NotEqual} (check_operator [Tok_Equal, Tok_NotEqual])"
  "operator_reader {Tok_Amp} (match_operator Tok_Amp)" "operator_reader {Tok_Caret} (match_operator Tok_Caret)"
  "operator_reader {Tok_Pipe} (match_operator Tok_Pipe)" "operator_reader {Tok_And} (match_operator Tok_And)"
  "operator_reader {Tok_Or} (match_operator Tok_Or)"
  using check_operator_reader [of "[Tok_Star, Tok_Slash, Tok_Percent]"] check_operator_reader [of "[Tok_Plus, Tok_Minus]"]
    check_operator_reader [of "[Tok_Less, Tok_LessEqual, Tok_Greater, Tok_GreaterEqual]"]
    check_operator_reader [of "[Tok_Equal, Tok_NotEqual]"] match_operator_reader
  by simp_all

lemmas level_defs = parse_multiplicative_expr_def parse_additive_expr_def parse_comparison_expr_def
  parse_equality_expr_def parse_bitwise_and_expr_def parse_bitwise_xor_expr_def parse_bitwise_or_expr_def
  parse_and_expr_def parse_or_expr_def

lemma parse_or_expr_total:
  assumes "total_for k pe"
  shows "total_for (Suc k) (parse_or_expr (Suc k) pe)"
proof -
  have "total_for (Suc k) (parse_unary_expr (Suc k) (Suc k) pe)"
    unfolding total_for_def by (auto intro!: parse_unary_expr_total [OF assms] simp del: parse_unary_expr.simps)
  then show ?thesis
    unfolding level_defs by (intro binary_level_total [OF readers(9)] binary_level_total [OF readers(8)]
      binary_level_total [OF readers(7)] binary_level_total [OF readers(6)] binary_level_total [OF readers(5)]
      binary_level_total [OF readers(4)] binary_level_total [OF readers(3)] binary_level_total [OF readers(2)]
      binary_level_total [OF readers(1)]) simp_all
qed

lemma parse_expression_total: "total_for n (parse_expression (Suc n))"
proof (induction n)
  case 0
  show ?case by (simp add: total_for_def)
next
  case (Suc n)
  show ?case
    using parse_or_expr_total [OF Suc] by simp
qed

text \<open>The clauses.\<close>

definition steady :: "Token list \<Rightarrow> bool \<Rightarrow> 'a \<Rightarrow> Token list \<Rightarrow> bool \<Rightarrow> bool" where
  "steady ts e a ts' e' \<longleftrightarrow> length ts' \<le> length ts \<and> (e \<longrightarrow> e')"

lemma steadyI: "length ts' \<le> length ts \<Longrightarrow> (e \<Longrightarrow> e') \<Longrightarrow> steady ts e a ts' e'"
  by (simp add: steady_def)

lemma wp_steady_trans:
  assumes "wp m (steady ts' e') ts' e'" "length ts' \<le> length ts" "e \<longrightarrow> e'"
  shows "wp m (steady ts e) ts' e'"
  using assms(1) by (rule wp_mono) (use assms(2,3) in \<open>auto simp: steady_def\<close>)

lemma wp_another [wp_rules]:
  assumes "\<And>b. (b \<Longrightarrow> head_type ts = Tok_Comma \<and> \<not> e) \<Longrightarrow> Q b (if head_type ts = Tok_Comma then tl ts else ts) e"
  shows "wp another Q ts e"
  unfolding another_def
  by (intro wp_rules) (use assms [of "\<not> e"] assms [of False] in \<open>auto intro!: wp_rules\<close>)

lemmas steady_intros = wp_rules steadyI tl_le

lemma parse_alias_steady: "wp (parse_alias bare) (steady ts e) ts e"
  unfolding parse_alias_def
  by (intro wp_rules) (auto simp del: length_tl intro!: steady_intros)

text \<open>A loop over a list that is separated by commas, given that its body is steady.\<close>

definition steady_for :: "nat \<Rightarrow> 'a parse \<Rightarrow> bool" where
  "steady_for n m \<longleftrightarrow> (\<forall>ts e. length ts < n \<longrightarrow> wp m (steady ts e) ts e)"

lemma steady_forD:
  assumes "steady_for n m" "length ts < n"
    "\<And>a ts' e'. length ts' \<le> length ts \<Longrightarrow> (e \<longrightarrow> e') \<Longrightarrow> Q a ts' e'"
  shows "wp m Q ts e"
  using assms unfolding steady_for_def steady_def by (blast intro: wp_mono)

lemma total_steady:
  assumes "total_for n m" "length ts < n" "\<And>a ts' e'. length ts' \<le> length ts \<Longrightarrow> (e \<longrightarrow> e') \<Longrightarrow> Q a ts' e'"
  shows "wp m Q ts e"
  using assms by (intro total_forD [OF assms(1,2)]) auto

lemma tl_less: "head_type ts \<noteq> Tok_Eof \<Longrightarrow> length (tl ts) < length ts"
  by (cases ts) auto

lemma comma_loop_steady:
  assumes "\<And>q. steady_for k (body q)" "length ts < n" "length ts < k"
  shows "wp (comma_loop n body q) (steady ts e) ts e"
  using assms(2,3)
proof (induction n arbitrary: ts e q)
  case (Suc n)
  show ?case
    unfolding comma_loop.simps
  proof (intro wp_bind steady_forD [OF assms(1) Suc.prems(2)], goal_cases)
    case (1 r ts' e')
    have "wp (comma_loop n body q) (steady ts e) (tl ts') e'" if "head_type ts' = Tok_Comma" for q
      by (rule wp_steady_trans [OF Suc.IH]) (use that 1 Suc.prems tl_less [of ts'] in auto)
    then show ?case
      using 1 by (auto simp del: length_tl split: prod.split if_splits intro!: steady_intros)
  qed
qed simp

lemma parse_projection_steady: "total_for k pe \<Longrightarrow> steady_for k (parse_projection bare pe q)"
  unfolding steady_for_def
proof (intro allI impI)
  fix ts :: "Token list" and e
  assume pe: "total_for k pe" and len: "length ts < k"
  have al: "wp (parse_alias bare) (\<lambda>a. wp (preturn (f a)) (steady ts e)) us e'"
    if "length us \<le> length ts" "e \<longrightarrow> e'" for us e e' and f :: "string option \<Rightarrow> bool \<times> QueryStmt"
    by (rule wp_mono [OF parse_alias_steady]) (use that in \<open>auto simp: steady_def intro!: wp_return\<close>)
  show "wp (parse_projection bare pe q) (steady ts e) ts e"
    unfolding parse_projection_def
    by (intro wp_bind wp_match; (unfold if_True if_False)?)
       (auto simp del: length_tl intro!: steady_intros total_steady [OF pe len] al)
qed

lemma parse_group_column_steady: "steady_for k (parse_group_column q)"
  unfolding steady_for_def parse_group_column_def
  by (auto simp del: length_tl intro!: steady_intros)

lemma parse_aggregation_argument_steady:
  assumes "total_for k pe" "length ts < k"
  shows "wp (parse_aggregation_argument pe) (steady ts e) ts e"
  unfolding parse_aggregation_argument_def
  by (intro wp_rules) (auto simp del: length_tl intro!: steady_intros total_steady [OF assms])

lemma parse_aggregation_steady:
  assumes "total_for k pe"
  shows "steady_for k (parse_aggregation pe q)"
  unfolding steady_for_def
proof (intro allI impI)
  fix ts :: "Token list" and e
  assume len: "length ts < k"
  have arg: "wp (parse_aggregation_argument pe) Q us e"
    if "\<And>a us' e'. length us' \<le> length ts \<Longrightarrow> (e \<longrightarrow> e') \<Longrightarrow> Q a us' e'" "length us \<le> length ts" for us e Q
    by (rule wp_mono [OF parse_aggregation_argument_steady [OF assms]])
       (use that len in \<open>auto simp: steady_def\<close>)
  show "wp (parse_aggregation pe q) (steady ts e) ts e"
    unfolding parse_aggregation_def Let_def
    by (intro wp_bind wp_check_any)
       (auto simp del: length_tl split: prod.splits intro!: steady_intros arg)
qed

lemma parse_direction_steady: "wp parse_direction (steady ts e) ts e"
  unfolding parse_direction_def
  by (intro wp_bind wp_match) (auto simp del: length_tl intro!: steady_intros wp_current_token)

lemma parse_order_column_steady: "steady_for k (parse_order_column q)"
  unfolding steady_for_def
proof (intro allI impI)
  fix ts :: "Token list" and e
  have dir: "wp parse_direction (\<lambda>a. wp (preturn (f a)) (steady ts e)) us e'"
    if "length us \<le> length ts" "e \<longrightarrow> e'" for us e e' and f :: "bool \<Rightarrow> bool \<times> QueryStmt"
    by (rule wp_mono [OF parse_direction_steady]) (use that in \<open>auto simp: steady_def intro!: wp_return\<close>)
  show "wp (parse_order_column q) (steady ts e) ts e"
    unfolding parse_order_column_def
    by (intro wp_bind wp_expect) (auto simp del: length_tl intro!: steady_intros dir)
qed

text \<open>A clause takes at least the token that introduces it, or stops with an error.\<close>

definition clause_post :: "Token list \<Rightarrow> bool \<Rightarrow> bool \<times> QueryStmt \<Rightarrow> Token list \<Rightarrow> bool \<Rightarrow> bool" where
  "clause_post ts e r ts' e' \<longleftrightarrow> length ts' \<le> length ts \<and> (e \<longrightarrow> e') \<and> (fst r \<longrightarrow> length ts' < length ts) \<and> (\<not> fst r \<longrightarrow> e')"

lemma clause_postI:
  "length ts' \<le> length ts \<Longrightarrow> (e \<Longrightarrow> e') \<Longrightarrow> (b \<Longrightarrow> length ts' < length ts) \<Longrightarrow> (\<not> b \<Longrightarrow> e') \<Longrightarrow> clause_post ts e (b, q) ts' e'"
  by (simp add: clause_post_def)

lemma clause_list:
  assumes "\<And>q. steady_for k (body q)" "k \<le> n" "length us < length ts" "length ts \<le> k" "e \<longrightarrow> e'"
    "\<And>q us' e''. length us' \<le> length us \<Longrightarrow> (e' \<longrightarrow> e'') \<Longrightarrow> wp (f q) (clause_post ts e) us' e''"
  shows "wp (pbind (comma_loop n body q) f) (clause_post ts e) us e'"
proof (rule wp_bind, rule wp_mono [OF comma_loop_steady [OF assms(1)]])
  show "length us < n" "length us < k"
    using assms by auto
  show "wp (f a) (clause_post ts e) us' e''" if "steady us e' a us' e''" for a us' e''
    using that assms(6) by (simp add: steady_def)
qed

lemma tumble_clause_total:
  assumes "total_for k pe" "length us < k" "length us < length ts" "e \<longrightarrow> e'"
  shows "wp (tumble_clause pe q) (clause_post ts e) us e'"
  unfolding tumble_clause_def Let_def using assms(2-)
  by (intro wp_bind wp_match; auto simp del: length_tl intro!: wp_rules clause_postI total_steady [OF assms(1)]; simp)

lemma advance_clause:
  assumes "ts \<noteq> []" "\<And>t us. ts = t # us \<Longrightarrow> wp (f t) (clause_post ts e) us e"
  shows "wp (pbind advance f) (clause_post ts e) ts e"
  using assms by (cases ts) (auto intro!: wp_bind wp_advance)

lemma simple_clauses_total:
  assumes "total_for k pe" "length ts \<le> k" "ts \<noteq> []"
  shows "wp (where_clause pe q) (clause_post ts e) ts e" "wp (let_clause pe q) (clause_post ts e) ts e"
    "wp (limit_clause q) (clause_post ts e) ts e"
  unfolding where_clause_def let_clause_def limit_clause_def using assms(2,3)
  by (intro advance_clause; (auto simp del: length_tl intro!: wp_rules clause_postI total_steady [OF assms(1)])?; simp)+

lemma parse_clause_total:
  assumes "total_for k pe" "length ts \<le> k" "k \<le> n" "ts \<noteq> []"
  shows "wp (parse_clause n pe q) (clause_post ts e) ts e"
proof -
  have fin: "wp (preturn (True, q)) (clause_post ts e) us' e''"
    if "length us' \<le> length us" "length us < length ts" "e \<longrightarrow> e''" for us us' e'' q
    using that by (intro wp_return clause_postI) auto
  have select: "wp (pbind advance (\<lambda>_. pbind (parse_projections n False pe q) (\<lambda>q. preturn (True, q)))) (clause_post ts e) ts e"
    unfolding parse_projections_def using assms
    by (intro advance_clause clause_list [OF parse_projection_steady [OF assms(1)] assms(3)] fin) auto
  have agg: "wp (pbind advance (\<lambda>_. pbind (comma_loop n (parse_aggregation pe) q) (\<lambda>q. preturn (True, q)))) (clause_post ts e) ts e"
    using assms by (intro advance_clause clause_list [OF parse_aggregation_steady [OF assms(1)] assms(3)] fin) auto
  have list: "wp (pbind advance (\<lambda>_. pbind (match Tok_By) (\<lambda>by1.
      if \<not> by1 then pbind (error_here msg) (\<lambda>_. preturn (False, q)) else pbind (comma_loop n body q) f)))
      (clause_post ts e) ts e"
    if body: "\<And>q. steady_for k (body q)"
      and f: "\<And>q us e'. length us < length ts \<Longrightarrow> (e \<longrightarrow> e') \<Longrightarrow> wp (f q) (clause_post ts e) us e'" for body f msg
  proof (rule advance_clause [OF assms(4)], intro wp_bind wp_match, goal_cases)
    case (2 t us)
    then have "wp (pbind (comma_loop n body q) f) (clause_post ts e) (tl us) e"
      using assms(2) by (intro clause_list [OF body assms(3)] f) auto
    then show ?case by simp
  qed (auto intro!: wp_rules clause_postI)
  have group: "wp (group_clause n pe q) (clause_post ts e) ts e"
    unfolding group_clause_def
    by (rule list [OF parse_group_column_steady]) (use assms(2) in \<open>auto intro!: tumble_clause_total [OF assms(1)]\<close>)
  have order: "wp (order_clause n q) (clause_post ts e) ts e"
    unfolding order_clause_def
    by (rule list [OF parse_order_column_steady]) (auto intro!: fin)
  show ?thesis
    unfolding parse_clause_def
    by (intro wp_bind wp_check)
       (use assms(4) in \<open>auto intro!: wp_rules clause_postI select agg group order simple_clauses_total [OF assms(1,2,4)]\<close>)
qed

lemma parse_clauses_total:
  assumes "total_for k pe" "length ts < n" "length ts \<le> k" "k \<le> m"
  shows "wp (parse_clauses n m pe q) (steady ts e) ts e"
  using assms(2,3)
proof (induction n arbitrary: ts e q)
  case (Suc n)
  have clause: "wp (parse_clause m pe q) (\<lambda>r. wp (case r of (go_on, q) \<Rightarrow> if go_on then parse_clauses n m pe q else preturn q)
      (steady ts e)) ts e" if "ts \<noteq> []"
  proof (rule wp_mono [OF parse_clause_total [OF assms(1) Suc.prems(2) assms(4) that]])
    fix r us e'
    assume r: "clause_post ts e r us e'"
    show "wp (case r of (go_on, q) \<Rightarrow> if go_on then parse_clauses n m pe q else preturn q) (steady ts e) us e'"
    proof (cases "fst r")
      case True
      then have "wp (parse_clauses n m pe q) (steady ts e) us e'" for q
        using r Suc.prems by (intro wp_steady_trans [OF Suc.IH]) (auto simp: clause_post_def)
      with True show ?thesis by (simp add: case_prod_beta)
    next
      case False
      with r show ?thesis by (auto simp: case_prod_beta clause_post_def intro!: wp_return steadyI)
    qed
  qed
  show ?case
    unfolding parse_clauses.simps
  proof (intro wp_bind wp_check wp_has_failed, goal_cases)
    case 1
    show ?case
      using clause by (cases "head_type ts = Tok_Eof \<or> e"; cases ts) (auto intro!: wp_bind wp_return steadyI)
  qed
qed simp

lemma parse_head_total:
  assumes "total_for k pe" "length ts < k" "k \<le> n"
  shows "wp (parse_head n pe tok) (steady ts e) ts e"
proof -
  have table: "wp (parse_table q) (steady ts e) us e'" if "length us \<le> length ts" "e \<longrightarrow> e'" for q us e e'
    unfolding parse_table_def using that by (auto simp del: length_tl intro!: steady_intros)
  have "wp (parse_projections n True pe q) (steady (tl ts) e) (tl ts) e" for q
    unfolding parse_projections_def
    by (rule comma_loop_steady [OF parse_projection_steady [OF assms(1)]]) (use assms in auto)
  then have list: "wp (parse_projections n True pe q) Q (tl ts) e"
    if "\<And>a us e'. length us \<le> length ts \<Longrightarrow> (e \<longrightarrow> e') \<Longrightarrow> Q a us e'" for q Q
    by (rule wp_mono) (use that in \<open>auto simp: steady_def\<close>)
  show ?thesis
    unfolding parse_head_def Let_def
    by (intro wp_bind wp_match; auto simp del: length_tl intro!: steady_intros list table)
qed

lemma parser_at_init: "s \<noteq> [] \<Longrightarrow> parser_at (lex_tokens (Lexer_init s)) False (Parser_init s)"
  by (simp add: parser_at_def Parser_init_def lexer_ok_def Lexer_init_def)

lemma token_count: "length (lex_tokens (Lexer_init s)) \<le> length s"
  using length_lex_tokens [of "Lexer_init s"] by (simp add: lexer_size_def Lexer_init_def rest_def)

lemma parse_query_total:
  assumes "length ts < n"
  shows "wp (parse_query (Suc n)) (\<lambda>r ts' e'. if e' then r = Err ParserError else (\<exists>q. r = Ok q)) ts e"
proof -
  note pe = parse_expression_total [of n]
  show ?thesis
    unfolding parse_query_def
  proof (intro wp_bind wp_current_token wp_mono [OF parse_head_total [OF pe assms]] wp_has_failed, goal_cases)
    case (2 t q us e')
    have "wp (parse_clauses (Suc n) (Suc n) (parse_expression (Suc n)) q) (steady us e') us e'"
      using 2 assms by (intro parse_clauses_total [OF pe]) (auto simp: steady_def)
    then have "wp (pbind (parse_clauses (Suc n) (Suc n) (parse_expression (Suc n)) q) (\<lambda>q. pbind has_failed (\<lambda>err.
        preturn (if err then Err ParserError else Ok q))))
        (\<lambda>r ts' e'. if e' then r = Err ParserError else (\<exists>q. r = Ok q)) us e'"
      by (intro wp_bind) (elim wp_mono, auto intro!: wp_rules)
    then show ?case
      by (cases e') (auto intro!: wp_return simp del: parse_expression.simps parse_clauses.simps)
  qed simp
qed

text \<open>
  C19. The parser terminates on every text. With fuel that exceeds the length of the text by two or
  more, \<open>parse_query\<close> on a fresh parser returns for every non-empty text, whatever it contains: never
  out of fuel, never a fault. It returns \<open>ParserError\<close> exactly when it ends with its error flag set,
  and a syntax tree otherwise. On the empty text the first look-ahead builds a token in front of the
  text, which ends the program.
\<close>

theorem parser_terminates:
  assumes "length s + 2 \<le> n"
  shows "if s = [] then parse_query n (Parser_init s) = Some Fault
    else (\<exists>r p'. parse_query n (Parser_init s) = Some (Ok (r, p')) \<and>
      (if failed p' then r = Err ParserError else (\<exists>q. r = Ok q)))"
proof (cases "s = []")
  case True
  have "next_token (Lexer_init []) = Fault"
    by (simp add: next_token_fresh Lexer_init_def skip_whitespace.simps at_end_def make_token_def Let_def)
  then have "peek_token (Lexer_init []) = Fault"
    by (simp add: peek_token_def Lexer_init_def)
  with True show ?thesis
    by (simp add: parse_query_def pbind_def current_token_def with_lexer_def Parser_init_def)
next
  case False
  obtain m where n: "n = Suc m" "length s < m"
    using assms by (cases n) auto
  then have "length (lex_tokens (Lexer_init s)) < m"
    using token_count [of s] by simp
  from parse_query_total [OF this, of False] parser_at_init [OF False] False n(1) show ?thesis
    unfolding wp_def by (fastforce simp: parser_at_def)
qed

theorem parser_terminates_witness:
  "(\<exists>r p'. parse_query 40 (Parser_init ''SELECT price FROM events WHERE ( ('') = Some (Ok (r, p'))) \<and>
   parse_query 2 (Parser_init []) = Some Fault"
  using parser_terminates [of "''SELECT price FROM events WHERE ( (''" 40] parser_terminates [of "[]" 2] by auto

end
