(* ===== verification/Query_Printer.thy ===== *)
theory Query_Printer
  imports Query_Parser
begin

text \<open>
  The language the parser accepts, from the other side: a printer that writes a syntax tree with the
  fewest parentheses the precedence and the left associativity of the operators allow, and the proof
  that the parser reads the printed query back. Lines and columns are the only part of a tree that is
  not recovered, since the layout of the printed text is another one.
\<close>

section \<open>Precedence\<close>

text \<open>The level of a binary operator, 1 for the loosest; 0 when the token is not a binary operator.\<close>

definition op_level :: "TokenType \<Rightarrow> nat" where
  "op_level t =
     (if t = Tok_Or then 1 else if t = Tok_And then 2 else if t = Tok_Pipe then 3 else if t = Tok_Caret then 4
      else if t = Tok_Amp then 5 else if t \<in> {Tok_Equal, Tok_NotEqual} then 6
      else if t \<in> {Tok_Less, Tok_LessEqual, Tok_Greater, Tok_GreaterEqual} then 7
      else if t \<in> {Tok_Plus, Tok_Minus} then 8 else if t \<in> {Tok_Star, Tok_Slash, Tok_Percent} then 9 else 0)"

fun expr_level :: "Expression \<Rightarrow> nat" where
  "expr_level (BinaryOpExpr op a b ln col) = op_level op"
| "expr_level (UnaryOpExpr op a ln col) = 10"
| "expr_level e = 11"

text \<open>The trees the parser can build.\<close>

definition valid_name :: "string \<Rightarrow> bool" where
  "valid_name w \<longleftrightarrow> word_like w \<and> lookup_keyword w \<in> {Tok_Identifier, Tok_Count, Tok_Sum, Tok_Min, Tok_Max, Tok_Avg}"

fun wf_expr :: "Expression \<Rightarrow> bool" where
  "wf_expr (LiteralExpr v ln col) = True"
| "wf_expr (ColumnRefExpr nm ln col) = valid_name nm"
| "wf_expr (BinaryOpExpr op a b ln col) = (0 < op_level op \<and> wf_expr a \<and> wf_expr b)"
| "wf_expr (UnaryOpExpr op a ln col) = (op \<in> {Tok_Minus, Tok_Bang} \<and> wf_expr a)"
| "wf_expr (FunctionCallExpr nm args ln col) = (valid_name nm \<and> list_all wf_expr args)"

fun erase :: "Expression \<Rightarrow> Expression" where
  "erase (LiteralExpr v ln col) = LiteralExpr v 0 0"
| "erase (ColumnRefExpr nm ln col) = ColumnRefExpr nm 0 0"
| "erase (BinaryOpExpr op a b ln col) = BinaryOpExpr op (erase a) (erase b) 0 0"
| "erase (UnaryOpExpr op a ln col) = UnaryOpExpr op (erase a) 0 0"
| "erase (FunctionCallExpr nm args ln col) = FunctionCallExpr nm (map erase args) 0 0"

section \<open>Printing expressions\<close>

definition number_view :: "u64 \<Rightarrow> token_view" where
  "number_view v = (Tok_IntegerLiteral, digits (unat v), v)"

definition op_view :: "TokenType \<Rightarrow> token_view" where
  "op_view t = (if t = Tok_And then word_view ''AND'' else if t = Tok_Or then word_view ''OR'' else operator_view t)"

definition parens :: "bool \<Rightarrow> token_view list \<Rightarrow> token_view list" where
  "parens b Vs = (if b then op_view Tok_LParen # Vs @ [op_view Tok_RParen] else Vs)"

fun commas :: "token_view list list \<Rightarrow> token_view list" where
  "commas [] = []"
| "commas [Vs] = Vs"
| "commas (Vs # Ws # Us) = Vs @ op_view Tok_Comma # commas (Ws # Us)"

fun show_expr :: "nat \<Rightarrow> Expression \<Rightarrow> token_view list" where
  "show_expr k (LiteralExpr v ln col) = [number_view v]"
| "show_expr k (ColumnRefExpr nm ln col) = [word_view nm]"
| "show_expr k (BinaryOpExpr op a b ln col) =
     parens (op_level op < k) (show_expr (op_level op) a @ op_view op # show_expr (Suc (op_level op)) b)"
| "show_expr k (UnaryOpExpr op a ln col) = parens (10 < k) (op_view op # show_expr 10 a)"
| "show_expr k (FunctionCallExpr nm args ln col) =
     word_view nm # op_view Tok_LParen # commas (map (show_expr 1) args) @ [op_view Tok_RParen]"

lemma lookup_AND_OR: "word_view ''AND'' = (Tok_And, ''AND'', 0)" "word_view ''OR'' = (Tok_Or, ''OR'', 0)"
  by (simp_all add: word_view_def lookup_keyword_def toupper_def)

lemma fst_op_view [simp]: "fst (op_view t) = t"
  by (simp add: op_view_def lookup_AND_OR operator_view_def)

lemma view_type: "view_of t = V \<Longrightarrow> tok_type t = fst V"
  by (auto simp: view_of_def)

section \<open>The levels of the grammar\<close>

definition level_parser :: "nat \<Rightarrow> Expression option parse \<Rightarrow> nat \<Rightarrow> Expression option parse" where
  "level_parser n pe k =
     (if k = 1 then parse_or_expr n pe else if k = 2 then parse_and_expr n pe
      else if k = 3 then parse_bitwise_or_expr n pe else if k = 4 then parse_bitwise_xor_expr n pe
      else if k = 5 then parse_bitwise_and_expr n pe else if k = 6 then parse_equality_expr n pe
      else if k = 7 then parse_comparison_expr n pe else if k = 8 then parse_additive_expr n pe
      else if k = 9 then parse_multiplicative_expr n pe else if k = 10 then parse_unary_expr n n pe
      else parse_primary_expr n pe)"

lemma op_level_sets:
  "{t. op_level t = 1} = {Tok_Or}" "{t. op_level t = 2} = {Tok_And}" "{t. op_level t = 3} = {Tok_Pipe}"
  "{t. op_level t = 4} = {Tok_Caret}" "{t. op_level t = 5} = {Tok_Amp}" "{t. op_level t = 6} = {Tok_Equal, Tok_NotEqual}"
  "{t. op_level t = 7} = {Tok_Less, Tok_LessEqual, Tok_Greater, Tok_GreaterEqual}"
  "{t. op_level t = 8} = {Tok_Plus, Tok_Minus}" "{t. op_level t = 9} = {Tok_Star, Tok_Slash, Tok_Percent}"
  by (auto simp: op_level_def split: if_splits)

lemma levels_1_9: "1 \<le> k \<Longrightarrow> k \<le> 9 \<Longrightarrow> k \<in> {1, 2, 3, 4, 5, 6, 7, 8, 9 :: nat}"
  by auto

definition level_reader :: "nat \<Rightarrow> (TokenType \<times> nat \<times> nat) option parse" where
  "level_reader k =
     (if k = 1 then match_operator Tok_Or else if k = 2 then match_operator Tok_And
      else if k = 3 then match_operator Tok_Pipe else if k = 4 then match_operator Tok_Caret
      else if k = 5 then match_operator Tok_Amp else if k = 6 then check_operator [Tok_Equal, Tok_NotEqual]
      else if k = 7 then check_operator [Tok_Less, Tok_LessEqual, Tok_Greater, Tok_GreaterEqual]
      else if k = 8 then check_operator [Tok_Plus, Tok_Minus] else check_operator [Tok_Star, Tok_Slash, Tok_Percent])"

lemma level_parser_binary:
  assumes "1 \<le> k" "k \<le> 9"
  shows "level_parser n pe k = binary_level n (level_reader k) (level_parser n pe (Suc k))"
  using levels_1_9 [OF assms]
  by (elim insertE emptyE; simp only: level_parser_def level_reader_def) (simp_all add: level_defs)

lemma level_reader_reads:
  assumes "1 \<le> k" "k \<le> 9"
  shows "operator_reader {t. op_level t = k} (level_reader k)"
  using levels_1_9 [OF assms]
  by (elim insertE emptyE; hypsubst; unfold op_level_sets level_reader_def) (simp_all add: readers)

lemma loop_ends:
  assumes "1 \<le> k" "k \<le> 9" "op_level (head_type us) \<noteq> k" "Q (Some x) us e" "0 < n"
  shows "wp (binary_loop n (level_reader k) operand x) Q us e"
proof -
  obtain m where "n = Suc m"
    using assms(5) by (cases n) auto
  then show ?thesis
    using assms by (auto intro!: wp_bind operator_readerD [OF level_reader_reads [OF assms(1,2)]] wp_return)
qed

lemma loop_goes_on:
  assumes "1 \<le> k" "k \<le> 9" "op_level (tok_type t) = k" "0 < n"
    "\<And>ln col. wp operand (\<lambda>r us e'. \<exists>b. r = Some b \<and> \<not> e' \<and>
       wp (binary_loop (n - 1) (level_reader k) operand (BinaryOpExpr (tok_type t) x b ln col)) Q us False) us False"
  shows "wp (binary_loop n (level_reader k) operand x) Q (t # us) False"
proof -
  obtain m where n: "n = Suc m"
    using assms(4) by (cases n) auto
  show ?thesis
    unfolding n binary_loop.simps
  proof (intro wp_bind operator_readerD [OF level_reader_reads [OF assms(1,2)]], goal_cases)
    case (1 ln col)
    from assms(5) [of ln col] show ?case
      unfolding n option.case prod.case list.sel head_type_simps
      by (intro wp_bind) (elim wp_mono, auto intro!: wp_bind wp_has_failed)
  qed (use assms(3) in simp)
qed

section \<open>Reading printed expressions\<close>

text \<open>
  \<open>reads m n k x\<close>: with fewer than \<open>n\<close> tokens in all, \<open>m\<close> reads the printed form of \<open>x\<close> at level \<open>k\<close> and
  stops in front of what follows, provided that this is neither an operator of the level or of a tighter
  one nor an opening parenthesis.
\<close>

definition reads :: "Expression option parse \<Rightarrow> nat \<Rightarrow> nat \<Rightarrow> Expression \<Rightarrow> bool" where
  "reads m n k x \<longleftrightarrow> (\<forall>ts us. map view_of ts = show_expr k x \<longrightarrow> length (ts @ us) < n \<longrightarrow>
     op_level (head_type us) < k \<longrightarrow> head_type us \<noteq> Tok_LParen \<longrightarrow>
     wp m (\<lambda>r us' e'. \<exists>x'. r = Some x' \<and> erase x' = erase x \<and> us' = us \<and> \<not> e') (ts @ us) False)"

text \<open>The same for a binary level, when an operator of the level may follow: the loop goes on with \<open>x\<close>.\<close>

definition loop_reads :: "nat \<Rightarrow> nat \<Rightarrow> Expression \<Rightarrow> bool" where
  "loop_reads n k x \<longleftrightarrow> (\<forall>ts us Q. map view_of ts = show_expr k x \<longrightarrow> length (ts @ us) < n \<longrightarrow>
     op_level (head_type us) \<le> k \<longrightarrow> head_type us \<noteq> Tok_LParen \<longrightarrow>
     (\<forall>x' m. erase x' = erase x \<longrightarrow> length us < m \<longrightarrow>
        wp (binary_loop m (level_reader k) (level_parser n (parse_expression n) (Suc k)) x') Q us False) \<longrightarrow>
     wp (level_parser n (parse_expression n) k) Q (ts @ us) False)"

lemma readsD:
  assumes "reads m n k x" "map view_of ts = show_expr k x" "length (ts @ us) < n" "op_level (head_type us) < k"
    "head_type us \<noteq> Tok_LParen" "\<And>x'. erase x' = erase x \<Longrightarrow> Q (Some x') us False"
  shows "wp m Q (ts @ us) False"
proof (rule wp_mono)
  show "wp m (\<lambda>r us' e'. \<exists>x'. r = Some x' \<and> erase x' = erase x \<and> us' = us \<and> \<not> e') (ts @ us) False"
    using assms(1-5) unfolding reads_def by blast
qed (use assms(6) in auto)

lemma loop_readsD:
  assumes "loop_reads n k x" "map view_of ts = show_expr k x" "length (ts @ us) < n" "op_level (head_type us) \<le> k"
    "head_type us \<noteq> Tok_LParen"
    "\<And>x' m. erase x' = erase x \<Longrightarrow> length us < m \<Longrightarrow>
       wp (binary_loop m (level_reader k) (level_parser n (parse_expression n) (Suc k)) x') Q us False"
  shows "wp (level_parser n (parse_expression n) k) Q (ts @ us) False"
  using assms unfolding loop_reads_def by blast

lemma loop_reads_level:
  assumes "loop_reads n k x" "1 \<le> k" "k \<le> 9"
  shows "reads (level_parser n (parse_expression n) k) n k x"
  unfolding reads_def
proof (intro allI impI, goal_cases)
  case (1 ts us)
  then show ?case
    by (intro loop_readsD [OF assms(1)]) (auto intro!: loop_ends [OF assms(2,3)])
qed

lemma loop_reads_inherit:
  assumes "reads (level_parser n (parse_expression n) (Suc k)) n (Suc k) x" "show_expr k x = show_expr (Suc k) x"
    "1 \<le> k" "k \<le> 9"
  shows "loop_reads n k x"
  unfolding loop_reads_def level_parser_binary [OF assms(3,4)] binary_level_def
proof (intro allI impI wp_bind, goal_cases)
  case (1 ts us Q)
  then show ?case
    using assms(2) by (intro readsD [OF assms(1)]) (auto intro!: wp_bind wp_has_failed)
qed

lemma loop_reads_binary:
  assumes "loop_reads n k a" "reads (level_parser n (parse_expression n) (Suc k)) n (Suc k) b"
    "op_level op = k" "1 \<le> k" "k \<le> 9"
  shows "loop_reads n k (BinaryOpExpr op a b ln col)"
  unfolding loop_reads_def
proof (intro allI impI)
  fix ts us Q
  assume "map view_of ts = show_expr k (BinaryOpExpr op a b ln col)" and len: "length (ts @ us) < n"
    and us: "op_level (head_type us) \<le> k" "head_type us \<noteq> Tok_LParen"
    and go: "\<forall>x' m. erase x' = erase (BinaryOpExpr op a b ln col) \<longrightarrow> length us < m \<longrightarrow>
      wp (binary_loop m (level_reader k) (level_parser n (parse_expression n) (Suc k)) x') Q us False"
  then obtain ta t tb where ts: "ts = ta @ t # tb" "map view_of ta = show_expr k a" "view_of t = op_view op"
      "map view_of tb = show_expr (Suc k) b"
    using assms(3) by (auto simp: parens_def map_eq_append_conv)
  have t: "tok_type t = op"
    using view_type [OF ts(3)] by simp
  then have op: "op_level (tok_type t) = k" "tok_type t \<noteq> Tok_LParen"
    using assms(3,4) by (auto simp: op_level_def)
  have "wp (level_parser n (parse_expression n) k) Q (ta @ t # (tb @ us)) False"
  proof (rule loop_readsD [OF assms(1) ts(2)], goal_cases)
    case (4 a' m)
    have "wp (level_parser n (parse_expression n) (Suc k)) (\<lambda>r us' e'. \<exists>b'. r = Some b' \<and> \<not> e' \<and>
        wp (binary_loop (m - 1) (level_reader k) (level_parser n (parse_expression n) (Suc k))
          (BinaryOpExpr (tok_type t) a' b' ln' col')) Q us' False) (tb @ us) False" for ln' col'
      by (rule readsD [OF assms(2) ts(4)]) (use 4 go len ts(1) us t in auto)
    then show ?case
      using 4 by (intro loop_goes_on [OF assms(4,5) op(1)]) auto
  qed (use op len ts(1) in auto)
  then show "wp (level_parser n (parse_expression n) k) Q (ts @ us) False"
    by (simp add: ts(1))
qed

lemma unary_reads:
  assumes "reads (parse_unary_expr m n pe) m 10 a" "op \<in> {Tok_Minus, Tok_Bang}"
  shows "reads (parse_unary_expr (Suc m) n pe) (Suc m) 10 (UnaryOpExpr op a ln col)"
  unfolding reads_def
proof (intro allI impI)
  fix ts us
  assume v: "map view_of ts = show_expr 10 (UnaryOpExpr op a ln col)" and rest: "length (ts @ us) < Suc m"
    "op_level (head_type us) < 10" "head_type us \<noteq> Tok_LParen"
  obtain t ta where ts: "ts = t # ta" "view_of t = op_view op" "map view_of ta = show_expr 10 a"
    using v by (auto simp: parens_def)
  have t: "tok_type t = op"
    using view_type [OF ts(2)] by simp
  have "wp (parse_unary_expr m n pe) (\<lambda>operand. wp (pbind has_failed (\<lambda>err. case operand of
           None \<Rightarrow> preturn None
         | Some e \<Rightarrow> if err then preturn None
                     else preturn (Some (UnaryOpExpr (tok_type t) e (tok_line t) (tok_column t)))))
      (\<lambda>r us' e'. \<exists>x'. r = Some x' \<and> erase x' = erase (UnaryOpExpr op a ln col) \<and> us' = us \<and> \<not> e')) (ta @ us) False"
    by (rule readsD [OF assms(1) ts(3)]) (use rest ts(1) t in \<open>auto intro!: wp_rules\<close>)
  then show "wp (parse_unary_expr (Suc m) n pe)
      (\<lambda>r us' e'. \<exists>x'. r = Some x' \<and> erase x' = erase (UnaryOpExpr op a ln col) \<and> us' = us \<and> \<not> e') (ts @ us) False"
    unfolding parse_unary_expr.simps ts(1)
    by (intro wp_bind wp_check_any) (use t assms(2) in \<open>auto intro!: wp_bind wp_advance_Cons\<close>)
qed

lemma view_head: "map view_of ts = V # Vs \<Longrightarrow> \<exists>t us. ts = t # us \<and> view_of t = V \<and> tok_type t = fst V \<and> map view_of us = Vs"
  by (auto simp: view_of_def)

lemma unary_reads_primary:
  assumes "reads (parse_primary_expr n pe) n 11 x" "show_expr 10 x = show_expr 11 x" "m \<le> n"
    "fst (hd (show_expr 11 x)) \<notin> {Tok_Minus, Tok_Bang}" "show_expr 11 x \<noteq> []"
  shows "reads (parse_unary_expr m n pe) m 10 x"
  unfolding reads_def
proof (intro allI impI)
  fix ts us
  assume v: "map view_of ts = show_expr 10 x" and us: "length (ts @ us) < m"
    "op_level (head_type us) < 10" "head_type us \<noteq> Tok_LParen"
  obtain m' where m: "m = Suc m'"
    using us(1) by (cases m) auto
  have "fst (hd (map view_of ts)) \<notin> {Tok_Minus, Tok_Bang}" "ts \<noteq> []"
    using assms(4,5) v unfolding assms(2) [symmetric] by auto
  then have "head_type (ts @ us) \<notin> {Tok_Minus, Tok_Bang}"
    by (cases ts) (auto simp: view_of_def)
  moreover have "wp (parse_primary_expr n pe) (\<lambda>r us' e'. \<exists>x'. r = Some x' \<and> erase x' = erase x \<and> us' = us \<and> \<not> e') (ts @ us) False"
    by (rule readsD [OF assms(1)]) (use v assms(2,3) us in auto)
  ultimately show "wp (parse_unary_expr m n pe)
      (\<lambda>r us' e'. \<exists>x'. r = Some x' \<and> erase x' = erase x \<and> us' = us \<and> \<not> e') (ts @ us) False"
    unfolding m parse_unary_expr.simps by (intro wp_bind wp_check_any) simp
qed

lemma primary_reads_parens:
  assumes "reads pe n 1 x" "show_expr 11 x = parens True (show_expr 1 x)"
  shows "reads (parse_primary_expr (Suc n) pe) (Suc n) 11 x"
  unfolding reads_def
proof (intro allI impI)
  fix ts us
  assume v: "map view_of ts = show_expr 11 x" and us: "length (ts @ us) < Suc n"
    "op_level (head_type us) < 11" "head_type us \<noteq> Tok_LParen"
  let ?Q = "\<lambda>r us' e'. \<exists>x'. r = Some x' \<and> erase x' = erase x \<and> us' = us \<and> \<not> e'"
  obtain t tx t' where ts: "ts = t # tx @ [t']" "view_of t = op_view Tok_LParen" "map view_of tx = show_expr 1 x"
      "view_of t' = op_view Tok_RParen"
    using v assms(2) by (auto simp: parens_def map_eq_append_conv)
  have t: "tok_type t = Tok_LParen" "tok_type t' = Tok_RParen"
    using view_type [OF ts(2)] view_type [OF ts(4)] by simp_all
  have "wp (pbind pe (\<lambda>expr. pbind has_failed (\<lambda>err.
         if expr = None \<or> err then preturn None
         else pbind (match Tok_RParen) (\<lambda>close.
                if close then preturn expr
                else pbind (error_here msg) (\<lambda>_. preturn None))))) ?Q (tx @ (t' # us)) False" for msg
    by (rule wp_bind, rule readsD [OF assms(1) ts(3)]) (use us ts(1) t in \<open>auto simp: op_level_def intro!: wp_rules\<close>)
  then show "wp (parse_primary_expr (Suc n) pe) ?Q (ts @ us) False"
    unfolding parse_primary_expr_def ts(1)
    by (intro wp_bind wp_current_token) (auto simp: t intro!: wp_bind wp_match)
qed

lemma parse_arguments_reads:
  assumes "\<forall>a\<in>set args. reads pe n 1 a" "args \<noteq> []" "map view_of ts = commas (map (show_expr 1) args)"
    "length (ts @ us) < n" "length (ts @ us) < m" "head_type us = Tok_RParen"
    "\<And>as. map erase as = map erase args \<Longrightarrow> Q (Some (acc @ as)) us False"
  shows "wp (parse_arguments m pe acc) Q (ts @ us) False"
  using assms
proof (induction args arbitrary: ts m acc)
  case (Cons a args)
  obtain m' where m: "m = Suc m'"
    using Cons.prems(5) by (cases m) auto
  show ?case
  proof (cases args)
    case Nil
    have "wp pe (\<lambda>arg. wp (pbind has_failed (\<lambda>err. case arg of None \<Rightarrow> preturn None
        | Some a \<Rightarrow> if err then preturn None
         else pbind (match Tok_Comma) (\<lambda>comma. pbind has_failed (\<lambda>err.
                if comma \<and> \<not> err then parse_arguments m' pe (acc @ [a]) else preturn (Some (acc @ [a])))))) Q) (ts @ us) False"
      by (rule readsD [of pe n 1 a]) (use Cons.prems Nil in \<open>auto simp: op_level_def intro!: wp_rules\<close>)
    then show ?thesis
      unfolding m parse_arguments.simps by (rule wp_bind)
  next
    case (Cons b bs)
    obtain ta t tb where ts: "ts = ta @ t # tb" "map view_of ta = show_expr 1 a" "view_of t = op_view Tok_Comma"
        "map view_of tb = commas (map (show_expr 1) args)"
      using Cons.prems(3) Cons by (auto simp: map_eq_append_conv)
    have t: "tok_type t = Tok_Comma"
      using view_type [OF ts(3)] by simp
    have more: "wp (parse_arguments m' pe (acc @ [a'])) Q (tb @ us) False" if "erase a' = erase a" for a'
    proof (rule Cons.IH [OF _ _ ts(4)])
      show "Q (Some ((acc @ [a']) @ as)) us False" if "map erase as = map erase args" for as
        using Cons.prems(7) [of "a' # as"] that \<open>erase a' = erase a\<close> by simp
    qed (use Cons.prems Cons ts(1) m in auto)
    have "wp pe (\<lambda>arg. wp (pbind has_failed (\<lambda>err. case arg of None \<Rightarrow> preturn None
        | Some a \<Rightarrow> if err then preturn None
         else pbind (match Tok_Comma) (\<lambda>comma. pbind has_failed (\<lambda>err.
                if comma \<and> \<not> err then parse_arguments m' pe (acc @ [a]) else preturn (Some (acc @ [a])))))) Q)
        (ta @ (t # tb @ us)) False"
      by (rule readsD [of pe n 1 a])
         (use Cons.prems ts(1,2) t more in \<open>auto simp: op_level_def intro!: wp_bind wp_has_failed wp_match\<close>)
    then show ?thesis
      unfolding m parse_arguments.simps ts(1) by (intro wp_bind) simp
  qed
qed simp

lemma number_reads: "reads (parse_primary_expr n pe) n 11 (LiteralExpr v ln col)"
  unfolding reads_def parse_primary_expr_def
  by (auto simp: number_view_def view_of_def intro!: wp_bind wp_current_token wp_match wp_return)

lemma column_reads:
  assumes "valid_name nm"
  shows "reads (parse_primary_expr n pe) n 11 (ColumnRefExpr nm ln col)"
  unfolding reads_def parse_primary_expr_def parse_name_def
  using assms by (auto simp: valid_name_def word_view_def view_of_def
      intro!: wp_bind wp_current_token wp_match wp_return wp_check_any wp_check wp_advance)

text \<open>The tokens an expression can start with.\<close>

definition starters :: "TokenType set" where
  "starters = {Tok_IntegerLiteral, Tok_Identifier, Tok_Count, Tok_Sum, Tok_Min, Tok_Max, Tok_Avg, Tok_Minus, Tok_Bang, Tok_LParen}"

lemma show_expr_head: "wf_expr x \<Longrightarrow> show_expr k x \<noteq> [] \<and> fst (hd (show_expr k x)) \<in> starters"
  by (induction k x rule: show_expr.induct)
     (auto simp: parens_def starters_def number_view_def word_view_def valid_name_def hd_append)

lemma commas_Cons: "Vs \<noteq> [] \<Longrightarrow> commas (Vs # Ws) \<noteq> [] \<and> hd (commas (Vs # Ws)) = hd Vs"
  by (cases Ws) auto

lemma starts_with:
  assumes "wf_expr x" "map view_of ts = show_expr k x" shows "head_type (ts @ us) \<in> starters"
proof -
  have "fst (hd (map view_of ts)) \<in> starters" "ts \<noteq> []"
    using show_expr_head [OF assms(1), of k] unfolding assms(2) [symmetric] by auto
  then show ?thesis
    by (cases ts) (auto simp: view_of_def)
qed

lemma parse_name_call:
  assumes "tok_type t2 = Tok_LParen" "wp (parse_function_call n pe (tok_text t) (tok_line t) (tok_column t)) Q (t2 # us) False"
  shows "wp (parse_name n pe) Q (t # t2 # us) False"
  unfolding parse_name_def by (intro wp_bind wp_advance_Cons wp_check) (use assms in simp)

lemma call_reads:
  assumes "valid_name nm" "\<forall>a\<in>set args. reads pe n 1 a" "list_all wf_expr args"
  shows "reads (parse_primary_expr (Suc n) pe) (Suc n) 11 (FunctionCallExpr nm args ln col)"
  unfolding reads_def
proof (intro allI impI)
  fix ts us
  assume v: "map view_of ts = show_expr 11 (FunctionCallExpr nm args ln col)" and us: "length (ts @ us) < Suc n"
    "op_level (head_type us) < 11" "head_type us \<noteq> Tok_LParen"
  let ?Q = "\<lambda>r us' e'. \<exists>x'. r = Some x' \<and> erase x' = erase (FunctionCallExpr nm args ln col) \<and> us' = us \<and> \<not> e'"
  obtain t t2 ta t3 where ts: "ts = t # t2 # ta @ [t3]" "view_of t = word_view nm" "view_of t2 = op_view Tok_LParen"
      "map view_of ta = commas (map (show_expr 1) args)" "view_of t3 = op_view Tok_RParen"
    using v by (auto simp: map_eq_append_conv)
  have t: "tok_type t2 = Tok_LParen" "tok_type t3 = Tok_RParen" "tok_text t = nm" "tok_type t = lookup_keyword nm"
    using view_type [OF ts(3)] view_type [OF ts(5)] ts(2) by (simp_all add: view_of_def word_view_def)
  have call: "wp (parse_function_call (Suc n) pe (tok_text t) ln' col') ?Q (t2 # ta @ t3 # us) False" for ln' col'
  proof (cases "args = []")
    case True
    then show ?thesis
      unfolding parse_function_call_def using ts t
      by (auto intro!: wp_bind wp_advance_Cons wp_match wp_check wp_return)
  next
    case False
    obtain a as where args: "args = a # as" "wf_expr a"
      using False assms(3) by (cases args) auto
    have "hd (map view_of ta) = hd (show_expr 1 a)" "ta \<noteq> []"
      using commas_Cons [of "show_expr 1 a" "map (show_expr 1) as"] show_expr_head [OF args(2), of 1] ts(4) args(1) by auto
    then have nh: "head_type (ta @ t3 # us) \<notin> {Tok_Star, Tok_RParen}"
      using show_expr_head [OF args(2), of 1] by (cases ta) (auto simp: view_of_def starters_def dest!: arg_cong [where f = fst])
    have "wp (parse_arguments (Suc n) pe []) (\<lambda>a. wp (case a of None \<Rightarrow> preturn None
      | Some as \<Rightarrow> pbind (match Tok_RParen) (\<lambda>close. if close then preturn (Some (FunctionCallExpr (tok_text t) as ln' col'))
          else pbind (error_here msg) (\<lambda>_. preturn None))) ?Q) (ta @ (t3 # us)) False" for msg
      by (rule parse_arguments_reads [OF assms(2) False ts(4)]) (use us ts(1) t in \<open>auto intro!: wp_bind wp_match wp_return\<close>)
    then show ?thesis
      unfolding parse_function_call_def using nh
      by (auto intro!: wp_bind wp_advance_Cons wp_match wp_check)
  qed
  show "wp (parse_primary_expr (Suc n) pe) ?Q (ts @ us) False"
    unfolding parse_primary_expr_def ts(1)
    by (intro wp_bind wp_current_token)
       (use assms(1) in \<open>auto simp: t valid_name_def simp del: parse_arguments.simps
          intro!: wp_bind wp_match wp_check_any wp_check wp_return parse_name_call call [unfolded erase.simps t(3)]\<close>)
qed

section \<open>All levels\<close>

text \<open>Every level reads every well-formed tree.\<close>

definition reads_all :: "nat \<Rightarrow> Expression \<Rightarrow> bool" where
  "reads_all n x \<longleftrightarrow> (\<forall>k. 1 \<le> k \<and> k \<le> 9 \<longrightarrow> loop_reads n k x) \<and>
     (\<forall>m\<le>n. reads (parse_unary_expr m n (parse_expression n)) m 10 x) \<and>
     reads (parse_primary_expr n (parse_expression n)) n 11 x"

lemma reads_allD:
  assumes "reads_all n x"
  shows "1 \<le> k \<Longrightarrow> k \<le> 10 \<Longrightarrow> reads (level_parser n (parse_expression n) k) n k x"
  using assms loop_reads_level [of n k x]
  by (cases "k = 10") (auto simp: reads_all_def level_parser_def)

lemma show_expr_same:
  "expr_level x \<noteq> k \<Longrightarrow> k \<le> 10 \<Longrightarrow> show_expr k x = show_expr (Suc k) x"
  by (cases x) (auto simp: parens_def)

text \<open>Down the levels, from the tightest that is known to the next level where the tree has its operator.\<close>

lemma reads_down:
  assumes "\<And>n. reads (level_parser n (parse_expression n) h) n h x" "h \<le> 10" "1 \<le> l"
    "\<And>k. l \<le> k \<Longrightarrow> k < h \<Longrightarrow> expr_level x \<noteq> k"
  shows "l \<le> k \<Longrightarrow> k < h \<Longrightarrow> loop_reads n k x"
proof (induction "h - k" arbitrary: k)
  case (Suc d)
  have "reads (level_parser n (parse_expression n) (Suc k)) n (Suc k) x"
  proof (cases "Suc k = h")
    case True
    then show ?thesis using assms(1) by simp
  next
    case False
    then show ?thesis
      using Suc assms(2,3) by (intro loop_reads_level) auto
  qed
  then show ?case
    using Suc.prems assms by (intro loop_reads_inherit show_expr_same) auto
qed simp

lemma unary_level: "level_parser n pe 10 = parse_unary_expr n n pe"
  by (simp add: level_parser_def)

lemma reads_all_parens:
  assumes "\<And>n. reads (level_parser n (parse_expression n) 1) n 1 x" "expr_level x \<le> 10" "1 \<le> expr_level x"
    "\<And>n k. 1 \<le> k \<Longrightarrow> k \<le> expr_level x \<Longrightarrow> k \<le> 9 \<Longrightarrow> loop_reads n k x"
    "expr_level x = 10 \<Longrightarrow> (\<And>m n. m \<le> n \<Longrightarrow> reads (parse_unary_expr m n (parse_expression n)) m 10 x)"
  shows "reads_all n x"
proof -
  have p: "show_expr 11 x = parens True (show_expr 1 x)"
    using assms(2,3) by (cases x) (auto simp: parens_def)
  have prim: "reads (parse_primary_expr n (parse_expression n)) n 11 x" for n
  proof (cases n)
    case (Suc m)
    have "reads (parse_expression (Suc m)) m 1 x"
      using assms(1) [of m] by (simp add: level_parser_def)
    from primary_reads_parens [OF this p] Suc show ?thesis by simp
  qed (simp add: reads_def)
  have un: "reads (parse_unary_expr m n (parse_expression n)) m 10 x" if "m \<le> n" for m n
  proof (cases "expr_level x = 10")
    case False
    then show ?thesis
      using that assms(2) show_expr_same [of x 10]
      by (intro unary_reads_primary [OF prim]) (auto simp: p parens_def)
  qed (use assms(5) that in blast)
  have "loop_reads n k x" if "expr_level x < k" "k \<le> 9" for k
    by (rule reads_down [of 10 x "Suc (expr_level x)"]) (use that un in \<open>auto simp: unary_level\<close>)
  then show ?thesis
    unfolding reads_all_def using assms(4) prim un by (metis not_le)
qed

lemma reads_all_primary:
  assumes "\<And>n. reads (parse_primary_expr n (parse_expression n)) n 11 x" "expr_level x = 11"
    "fst (hd (show_expr 11 x)) \<notin> {Tok_Minus, Tok_Bang}" "show_expr 11 x \<noteq> []"
  shows "reads_all n x"
proof -
  have un: "reads (parse_unary_expr m n (parse_expression n)) m 10 x" if "m \<le> n" for m n
    using that assms show_expr_same [of x 10] by (intro unary_reads_primary [OF assms(1)]) auto
  have "loop_reads n k x" if "1 \<le> k" "k \<le> 9" for k
    by (rule reads_down [of 10 x 1]) (use that un assms(2) in \<open>auto simp: unary_level\<close>)
  then show ?thesis
    unfolding reads_all_def using assms(1) un by blast
qed

lemma op_level_le: "op_level t \<le> 9"
  by (simp add: op_level_def)

lemma wf_reads_all: "wf_expr x \<Longrightarrow> reads_all n x"
proof (induction x arbitrary: n rule: wf_expr.induct)
  case (1 v ln col)
  show ?case
    by (rule reads_all_primary [OF number_reads]) (simp_all add: number_view_def)
next
  case (2 nm ln col)
  then show ?case
    by (intro reads_all_primary column_reads) (auto simp: word_view_def valid_name_def)
next
  case (3 op a b ln col)
  let ?x = "BinaryOpExpr op a b ln col" and ?l = "op_level op"
  have l: "1 \<le> ?l" "?l \<le> 9"
    using 3 op_level_le [of op] by auto
  have at: "loop_reads n ?l ?x" for n
    using 3 l by (intro loop_reads_binary reads_allD [of n b]) (auto simp: reads_all_def)
  have below: "loop_reads n k ?x" if "1 \<le> k" "k \<le> ?l" for n k
  proof (cases "k = ?l")
    case False
    show ?thesis
      by (rule reads_down [of ?l ?x 1]) (use that False l loop_reads_level [OF at l] in auto)
  qed (simp add: at)
  show ?case
    by (rule reads_all_parens) (use l below loop_reads_level [OF below, of 1] in auto)
next
  case (4 op a ln col)
  let ?x = "UnaryOpExpr op a ln col"
  have un: "reads (parse_unary_expr m n (parse_expression n)) m 10 ?x" if "m \<le> n" for m n
  proof (cases m)
    case (Suc m')
    have "reads_all n a"
      using 4 by simp
    then have "reads (parse_unary_expr m' n (parse_expression n)) m' 10 a"
      using that Suc by (simp add: reads_all_def)
    then show ?thesis
      unfolding Suc using 4(2) by (intro unary_reads) simp_all
  qed (simp add: reads_def)
  have below: "loop_reads n k ?x" if "1 \<le> k" "k \<le> 9" for n k
    by (rule reads_down [of 10 ?x 1]) (use that un in \<open>auto simp: unary_level\<close>)
  show ?case
    by (rule reads_all_parens) (use un below loop_reads_level [OF below, of 1] in auto)
next
  case (5 nm args ln col)
  have "reads (parse_primary_expr n (parse_expression n)) n 11 (FunctionCallExpr nm args ln col)" for n
  proof (cases n)
    case (Suc m)
    have "\<forall>a\<in>set args. reads (parse_expression (Suc m)) m 1 a"
      using 5 reads_allD [of m _ 1] by (auto simp: level_parser_def list_all_iff)
    then show ?thesis
      unfolding Suc using 5(2) by (intro call_reads) auto
  qed (simp add: reads_def)
  then show ?case
    by (rule reads_all_primary) (use 5(2) in \<open>auto simp: word_view_def valid_name_def\<close>)
qed

lemma parse_expression_reads: "wf_expr x \<Longrightarrow> reads (parse_expression (Suc n)) n 1 x"
  using reads_allD [OF wf_reads_all, of x 1 n] by (simp add: level_parser_def)

section \<open>Printing queries\<close>

definition ident :: "string \<Rightarrow> bool" where
  "ident w \<longleftrightarrow> word_like w \<and> lookup_keyword w = Tok_Identifier"

definition wf_item :: "SelectItem \<Rightarrow> bool" where
  "wf_item it \<longleftrightarrow> (if is_wildcard it then item_expr it = None \<and> item_alias it = ''*''
     else (\<exists>e. item_expr it = Some e \<and> wf_expr e) \<and> (item_alias it = [] \<or> ident (item_alias it)))"

definition wf_aggregation :: "string \<times> Expression \<Rightarrow> bool" where
  "wf_aggregation a \<longleftrightarrow> (\<exists>args ln col. snd a = FunctionCallExpr (fst a) args ln col \<and> length args \<le> 1) \<and> wf_expr (snd a)"

text \<open>The queries the parser can build with one clause of each kind, apart from \<^verbatim>\<open>LET\<close>.\<close>

definition wf_query :: "QueryStmt \<Rightarrow> bool" where
  "wf_query q \<longleftrightarrow> list_all wf_item (projections q) \<and> ident (table_name q) \<and> pred_option wf_expr (where_expr q) \<and>
     list_all (\<lambda>(nm, e). ident nm \<and> (\<exists>x. e = Some x \<and> wf_expr x)) (let_bindings q) \<and>
     list_all ident (group_by_columns q) \<and> pred_option wf_expr (tumble_window q) \<and>
     (group_by_columns q = [] \<longrightarrow> tumble_window q = None) \<and>
     list_all wf_aggregation (aggregations q) \<and> list_all (\<lambda>(c, asc). ident c) (order_by q)"

definition erase_item :: "SelectItem \<Rightarrow> SelectItem" where
  "erase_item it = it\<lparr>item_expr := map_option erase (item_expr it)\<rparr>"

definition erase_query :: "QueryStmt \<Rightarrow> QueryStmt" where
  "erase_query q = \<lparr>stmt_line = 0, stmt_column = 0, projections = map erase_item (projections q),
     table_name = table_name q, where_expr = map_option erase (where_expr q),
     let_bindings = map (\<lambda>(nm, e). (nm, map_option erase e)) (let_bindings q),
     group_by_columns = group_by_columns q, tumble_window = map_option erase (tumble_window q),
     aggregations = map (\<lambda>(nm, e). (nm, erase e)) (aggregations q), order_by = order_by q,
     query_limit = query_limit q\<rparr>"

definition show_item :: "SelectItem \<Rightarrow> token_view list" where
  "show_item it = (case item_expr it of
      None \<Rightarrow> [op_view Tok_Star]
    | Some e \<Rightarrow> show_expr 1 e @ (if item_alias it = [] then [] else [word_view ''AS'', word_view (item_alias it)]))"

definition show_head :: "QueryStmt \<Rightarrow> token_view list" where
  "show_head q =
     (if projections q = [] then [] else word_view ''SELECT'' # commas (map show_item (projections q))) @
     [word_view ''FROM'', word_view (table_name q)]"

definition show_let :: "string \<times> Expression option \<Rightarrow> token_view list" where
  "show_let b = [word_view ''LET'', word_view (fst b), op_view Tok_Equal] @ show_expr 1 (the (snd b))"

definition show_tumble :: "Expression option \<Rightarrow> token_view list" where
  "show_tumble w = (case w of None \<Rightarrow> []
     | Some e \<Rightarrow> [word_view ''TUMBLE'', op_view Tok_LParen] @ show_expr 1 e @ [op_view Tok_RParen])"

definition show_order :: "string \<times> bool \<Rightarrow> token_view list" where
  "show_order b = [word_view (fst b), word_view (if snd b then ''ASC'' else ''DESC'')]"

definition show_clauses :: "QueryStmt \<Rightarrow> token_view list list" where
  "show_clauses q =
     (case where_expr q of None \<Rightarrow> [] | Some e \<Rightarrow> [word_view ''WHERE'' # show_expr 1 e]) @
     map show_let (let_bindings q) @
     (if group_by_columns q = [] then []
      else [[word_view ''GROUP'', word_view ''BY''] @ commas (map (\<lambda>c. [word_view c]) (group_by_columns q)) @
            show_tumble (tumble_window q)]) @
     (if aggregations q = [] then []
      else [word_view ''AGG'' # commas (map (\<lambda>a. show_expr 1 (snd a)) (aggregations q))]) @
     (if order_by q = [] then []
      else [[word_view ''ORDER'', word_view ''BY''] @ commas (map show_order (order_by q))]) @
     (if query_limit q = 0 then [] else [[word_view ''LIMIT'', number_view (query_limit q)]])"

definition show_query :: "QueryStmt \<Rightarrow> token_view list" where
  "show_query q = show_head q @ concat (show_clauses q)"

lemma keyword_views:
  "word_view ''SELECT'' = (Tok_Select, ''SELECT'', 0)" "word_view ''FROM'' = (Tok_From, ''FROM'', 0)"
  "word_view ''WHERE'' = (Tok_Where, ''WHERE'', 0)" "word_view ''LET'' = (Tok_Let, ''LET'', 0)"
  "word_view ''GROUP'' = (Tok_Group, ''GROUP'', 0)" "word_view ''BY'' = (Tok_By, ''BY'', 0)"
  "word_view ''AGG'' = (Tok_Agg, ''AGG'', 0)" "word_view ''ORDER'' = (Tok_Order, ''ORDER'', 0)"
  "word_view ''LIMIT'' = (Tok_Limit, ''LIMIT'', 0)" "word_view ''AS'' = (Tok_As, ''AS'', 0)"
  "word_view ''ASC'' = (Tok_Asc, ''ASC'', 0)" "word_view ''DESC'' = (Tok_Desc, ''DESC'', 0)"
  "word_view ''TUMBLE'' = (Tok_Tumble, ''TUMBLE'', 0)"
  by (simp_all add: word_view_def lookup_keyword_def toupper_def)

lemma ident_view: "ident w \<Longrightarrow> word_view w = (Tok_Identifier, w, 0)"
  by (simp add: word_view_def ident_def)

section \<open>Reading printed queries\<close>

text \<open>The tokens that can follow a complete item of a clause, apart from the comma.\<close>

definition followers :: "TokenType set" where
  "followers = {Tok_Eof, Tok_From, Tok_Where, Tok_Let, Tok_Group, Tok_Agg, Tok_Order, Tok_Limit, Tok_Tumble, Tok_RParen}"

lemma follower_level: "t \<in> insert Tok_Comma followers \<Longrightarrow> op_level t = 0 \<and> t \<noteq> Tok_LParen \<and> t \<noteq> Tok_As \<and> t \<noteq> Tok_Identifier"
  by (auto simp: followers_def op_level_def)

lemma expression_clause:
  assumes "wf_expr x" "map view_of ts = show_expr 1 x" "length (ts @ us) < n" "head_type us \<in> insert Tok_Comma followers"
    "\<And>x'. erase x' = erase x \<Longrightarrow> Q (Some x') us False"
  shows "wp (parse_expression (Suc n)) Q (ts @ us) False"
  using follower_level [OF assms(4)] assms
  by (intro readsD [OF parse_expression_reads]) auto

text \<open>
  \<open>item_reads n body Vs F\<close>: the body of a loop or a clause reads the printed tokens \<open>Vs\<close> and changes the
  query as \<open>F\<close> does.
\<close>

definition item_reads :: "nat \<Rightarrow> (QueryStmt \<Rightarrow> (bool \<times> QueryStmt) parse) \<Rightarrow> token_view list \<Rightarrow> (QueryStmt \<Rightarrow> QueryStmt) \<Rightarrow> bool" where
  "item_reads n body Vs F \<longleftrightarrow> (\<forall>q ts us Q. map view_of ts = Vs \<longrightarrow> length (ts @ us) < n \<longrightarrow>
      head_type us \<in> insert Tok_Comma followers \<longrightarrow>
      (\<forall>q'. erase_query q' = F (erase_query q) \<longrightarrow> Q (True, q') us False) \<longrightarrow> wp (body q) Q (ts @ us) False)"

lemma item_readsD:
  assumes "item_reads n body Vs F" "map view_of ts = Vs" "length (ts @ us) < n" "head_type us \<in> insert Tok_Comma followers"
    "\<And>q'. erase_query q' = F (erase_query q) \<Longrightarrow> Q (True, q') us False"
  shows "wp (body q) Q (ts @ us) False"
  using assms unfolding item_reads_def by blast

lemma comma_loop_reads:
  assumes "\<forall>x\<in>set xs. item_reads n body (sh x) (add x)"
  shows "xs \<noteq> [] \<Longrightarrow> map view_of ts = commas (map sh xs) \<Longrightarrow> length (ts @ us) < n \<Longrightarrow> length (ts @ us) < m \<Longrightarrow>
    head_type us \<in> followers \<Longrightarrow> (\<And>q'. erase_query q' = fold add xs (erase_query q) \<Longrightarrow> Q q' us False) \<Longrightarrow>
    wp (comma_loop m body q) Q (ts @ us) False"
  using assms
proof (induction xs arbitrary: ts m q)
  case (Cons x xs)
  obtain m' where m: "m = Suc m'"
    using Cons.prems(4) by (cases m) auto
  have nc: "head_type us \<noteq> Tok_Comma"
    using Cons.prems(5) by (auto simp: followers_def)
  show ?case
  proof (cases xs)
    case Nil
    have "wp (body q) (\<lambda>r. wp (case r of (go_on, q) \<Rightarrow>
        if go_on then pbind another (\<lambda>more. if more then comma_loop m' body q else preturn q) else preturn q) Q) (ts @ us) False"
      by (rule item_readsD [where F = "add x"]) (use Cons.prems Nil nc in \<open>auto intro!: wp_bind wp_another wp_return\<close>)
    then show ?thesis
      unfolding m comma_loop.simps by (rule wp_bind)
  next
    case xs: (Cons y ys)
    obtain tx t ty where ts: "ts = tx @ t # ty" "map view_of tx = sh x" "view_of t = op_view Tok_Comma"
        "map view_of ty = commas (map sh xs)"
      using Cons.prems(2) xs by (auto simp: map_eq_append_conv)
    have t: "tok_type t = Tok_Comma"
      using view_type [OF ts(3)] by simp
    have more: "wp (comma_loop m' body q') Q (ty @ us) False" if "erase_query q' = add x (erase_query q)" for q'
      using Cons.prems ts xs that m by (intro Cons.IH) auto
    have another: "wp (pbind another (\<lambda>more. if more then comma_loop m' body q' else preturn q')) Q (t # ty @ us) False"
      if "erase_query q' = add x (erase_query q)" for q'
      unfolding another_def using t more [OF that] by (auto intro!: wp_bind wp_match wp_has_failed wp_return)
    have "wp (body q) (\<lambda>r. wp (case r of (go_on, q) \<Rightarrow>
        if go_on then pbind another (\<lambda>more. if more then comma_loop m' body q else preturn q) else preturn q) Q) (tx @ (t # ty @ us)) False"
      by (rule item_readsD [where F = "add x"]) (use Cons.prems(3,7) ts(1,2) t another in auto)
    then show ?thesis
      unfolding m comma_loop.simps ts(1) by (intro wp_bind) simp
  qed
qed simp

definition add_projection :: "SelectItem \<Rightarrow> QueryStmt \<Rightarrow> QueryStmt" where
  "add_projection it q = q\<lparr>projections := projections q @ [erase_item it]\<rparr>"

definition add_group :: "string \<Rightarrow> QueryStmt \<Rightarrow> QueryStmt" where
  "add_group c q = q\<lparr>group_by_columns := group_by_columns q @ [c]\<rparr>"

definition add_aggregation :: "string \<times> Expression \<Rightarrow> QueryStmt \<Rightarrow> QueryStmt" where
  "add_aggregation a q = q\<lparr>aggregations := aggregations q @ [(fst a, erase (snd a))]\<rparr>"

definition add_order :: "string \<times> bool \<Rightarrow> QueryStmt \<Rightarrow> QueryStmt" where
  "add_order b q = q\<lparr>order_by := order_by q @ [b]\<rparr>"

definition add_let :: "string \<times> Expression option \<Rightarrow> QueryStmt \<Rightarrow> QueryStmt" where
  "add_let b q = q\<lparr>let_bindings := let_bindings q @ [(fst b, map_option erase (snd b))]\<rparr>"

lemmas add_defs = add_projection_def add_group_def add_aggregation_def add_order_def add_let_def

lemma wildcard_reads:
  assumes "is_wildcard it" "wf_item it"
  shows "item_reads n (parse_projection bare pe) (show_item it) (add_projection it)"
proof -
  have it: "it = \<lparr>item_expr = None, item_alias = ''*'', is_wildcard = True\<rparr>"
    using assms by (simp add: wf_item_def)
  then show ?thesis
    unfolding item_reads_def parse_projection_def
    by (auto simp: show_item_def erase_query_def add_defs erase_item_def dest!: view_type intro!: wp_bind wp_match wp_return)
qed

lemma alias_reads:
  assumes "map view_of ts = (if a = [] then [] else [word_view ''AS'', word_view a])" "a = [] \<or> ident a"
    "head_type us \<in> insert Tok_Comma followers" "Q (Some a) us False"
  shows "wp (parse_alias bare) Q (ts @ us) False"
proof (cases "a = []")
  case True
  then show ?thesis
    using assms follower_level [OF assms(3)] unfolding parse_alias_def
    by (auto intro!: wp_bind wp_match wp_check wp_return)
next
  case False
  then obtain t1 t2 where "ts = [t1, t2]" "tok_type t1 = Tok_As" "tok_type t2 = Tok_Identifier" "tok_text t2 = a"
    using assms(1,2) by (auto simp: keyword_views ident_view view_of_def)
  then show ?thesis
    using assms(4) unfolding parse_alias_def
    by (auto intro!: wp_bind wp_match wp_expect wp_has_failed wp_return)
qed

lemma expression_item_reads:
  assumes "\<not> is_wildcard it" "wf_item it"
  shows "item_reads n (parse_projection bare (parse_expression (Suc n))) (show_item it) (add_projection it)"
  unfolding item_reads_def
proof (intro allI impI)
  fix q ts us Q
  assume v: "map view_of ts = show_item it" and us: "length (ts @ us) < n" "head_type us \<in> insert Tok_Comma followers"
    and Q: "\<forall>q'. erase_query q' = add_projection it (erase_query q) \<longrightarrow> Q (True, q') us False"
  obtain e where e: "item_expr it = Some e" "wf_expr e" "item_alias it = [] \<or> ident (item_alias it)"
    using assms by (auto simp: wf_item_def)
  obtain te ta where ts: "ts = te @ ta" "map view_of te = show_expr 1 e"
      "map view_of ta = (if item_alias it = [] then [] else [word_view ''AS'', word_view (item_alias it)])"
    using v e(1) by (auto simp: show_item_def map_eq_append_conv)
  have ta: "head_type (ta @ us) \<in> insert Tok_Comma (insert Tok_As followers)"
    using ts(3) us(2) by (cases ta) (auto simp: keyword_views view_of_def split: if_splits)
  let ?new = "\<lambda>e'. q\<lparr>projections := projections q @ [\<lparr>item_expr = Some e', item_alias = item_alias it, is_wildcard = False\<rparr>]\<rparr>"
  have "Q (True, ?new e') us False" if "erase e' = erase e" for e'
    using Q assms(1) e(1) that by (auto simp: erase_query_def add_projection_def erase_item_def)
  then have al: "wp (parse_alias bare) (\<lambda>a. wp (preturn (case a of None \<Rightarrow> (False, q)
      | Some a \<Rightarrow> (True, q\<lparr>projections := projections q @ [\<lparr>item_expr = Some e', item_alias = a, is_wildcard = False\<rparr>]\<rparr>)))
      Q) (ta @ us) False" if "erase e' = erase e" for e'
    using that by (intro alias_reads [OF ts(3) e(3) us(2)]) (auto intro!: wp_return)
  have "wp (parse_expression (Suc n)) (\<lambda>x. wp (pbind has_failed (\<lambda>err.
         if x = None \<or> err then preturn (False, q)
         else pbind (parse_alias bare) (\<lambda>alias. preturn (case alias of
                None \<Rightarrow> (False, q)
              | Some a \<Rightarrow>
                  (True, q\<lparr>projections := projections q @ [\<lparr>item_expr = x, item_alias = a, is_wildcard = False\<rparr>]\<rparr>))))) Q)
      (te @ (ta @ us)) False"
    by (rule readsD [OF parse_expression_reads [OF e(2)] ts(2)])
       (use us(1) ts(1) ta al in \<open>auto simp: followers_def op_level_def intro!: wp_bind wp_has_failed\<close>)
  moreover have "head_type (te @ (ta @ us)) \<noteq> Tok_Star"
    using starts_with [OF e(2) ts(2), of "ta @ us"] by (auto simp: starters_def)
  ultimately show "wp (parse_projection bare (parse_expression (Suc n)) q) Q (ts @ us) False"
    unfolding parse_projection_def ts(1) by (auto intro!: wp_bind wp_match simp del: parse_expression.simps)
qed

lemma projection_reads:
  "wf_item it \<Longrightarrow> item_reads n (parse_projection bare (parse_expression (Suc n))) (show_item it) (add_projection it)"
  by (cases "is_wildcard it") (auto intro: wildcard_reads expression_item_reads simp del: parse_expression.simps)

lemma group_reads: "ident c \<Longrightarrow> item_reads n parse_group_column [word_view c] (add_group c)"
  unfolding item_reads_def parse_group_column_def
  by (auto simp: ident_view view_of_def erase_query_def add_defs intro!: wp_bind wp_expect wp_has_failed wp_return)

lemma order_reads: "ident (fst b) \<Longrightarrow> item_reads n parse_order_column (show_order b) (add_order b)"
  unfolding item_reads_def parse_order_column_def parse_direction_def
  by (cases b) (auto simp: ident_view show_order_def keyword_views view_of_def erase_query_def add_defs
      intro!: wp_bind wp_expect wp_match wp_has_failed wp_return)

declare parse_expression.simps [simp del]

lemma aggregation_reads:
  assumes "wf_aggregation a"
  shows "item_reads n (parse_aggregation (parse_expression (Suc n))) (show_expr 1 (snd a)) (add_aggregation a)"
  unfolding item_reads_def
proof (intro allI impI)
  fix q ts us Q
  assume v: "map view_of ts = show_expr 1 (snd a)" and us: "length (ts @ us) < n" "head_type us \<in> insert Tok_Comma followers"
    and Q: "\<forall>q'. erase_query q' = add_aggregation a (erase_query q) \<longrightarrow> Q (True, q') us False"
  obtain nm args ln col where a: "a = (nm, FunctionCallExpr nm args ln col)" "length args \<le> 1" "valid_name nm" "list_all wf_expr args"
    using assms by (cases a) (auto simp: wf_aggregation_def)
  obtain t t2 ta t3 where ts: "ts = t # t2 # ta @ [t3]" "view_of t = word_view nm" "view_of t2 = op_view Tok_LParen"
      "map view_of ta = commas (map (show_expr 1) args)" "view_of t3 = op_view Tok_RParen"
    using v a(1) by (auto simp: map_eq_append_conv)
  have t: "tok_type t2 = Tok_LParen" "tok_type t3 = Tok_RParen" "tok_text t = nm" "tok_type t = lookup_keyword nm"
    using view_type [OF ts(3)] view_type [OF ts(5)] ts(2) by (simp_all add: view_of_def word_view_def)
  have fin: "Q (True, q\<lparr>aggregations := aggregations q @ [(tok_text t, FunctionCallExpr (tok_text t) as ln' col')]\<rparr>) us False"
    if "map erase as = map erase args" for as ln' col'
    using Q that by (simp add: erase_query_def add_aggregation_def a(1) t(3))
  have arg: "wp (parse_aggregation_argument (parse_expression (Suc n)))
      (\<lambda>r us' e'. \<exists>x. r = (False, x) \<and> us' = t3 # us \<and> \<not> e' \<and> map erase (case x of None \<Rightarrow> [] | Some y \<Rightarrow> [y]) = map erase args)
      (ta @ (t3 # us)) False"
  proof (cases args)
    case Nil
    then show ?thesis
      using ts(4) t(2) unfolding parse_aggregation_argument_def by (auto intro!: wp_bind wp_match wp_check wp_return)
  next
    case (Cons x xs)
    then have x: "args = [x]" "wf_expr x" "map view_of ta = show_expr 1 x"
      using a(2,4) ts(4) by (auto simp: Suc_le_eq)
    have "head_type (ta @ (t3 # us)) \<notin> {Tok_Star, Tok_RParen}"
      using starts_with [OF x(2,3), of "t3 # us"] by (auto simp: starters_def)
    then show ?thesis
      unfolding parse_aggregation_argument_def
      by (intro wp_bind wp_match wp_check)
         (use us(1) ts(1) t x in \<open>auto simp: followers_def intro!: wp_bind wp_check expression_clause [OF x(2,3)] wp_has_failed wp_return\<close>)
  qed
  show "wp (parse_aggregation (parse_expression (Suc n)) q) Q (ts @ us) False"
    unfolding parse_aggregation_def ts(1) Let_def
    by (intro wp_bind wp_check_any)
       (use a(3) t in \<open>auto simp: valid_name_def intro!: wp_bind wp_advance_Cons wp_match wp_mono [OF arg] wp_return fin\<close>)
qed

text \<open>A clause, read by \<open>parse_clause\<close>.\<close>

abbreviation clause_reads :: "nat \<Rightarrow> token_view list \<Rightarrow> (QueryStmt \<Rightarrow> QueryStmt) \<Rightarrow> bool" where
  "clause_reads n \<equiv> item_reads n (parse_clause (Suc n) (parse_expression (Suc n)))"

lemma where_reads:
  assumes "wf_expr e"
  shows "clause_reads n (word_view ''WHERE'' # show_expr 1 e) (\<lambda>q. q\<lparr>where_expr := Some (erase e)\<rparr>)"
  unfolding item_reads_def parse_clause_def where_clause_def
  by (auto simp: keyword_views view_of_def erase_query_def
      intro!: wp_bind wp_check wp_advance_Cons expression_clause [OF assms] wp_has_failed wp_return)

lemma let_reads:
  assumes "ident nm" "wf_expr e"
  shows "clause_reads n (show_let (nm, Some e)) (add_let (nm, Some e))"
  unfolding item_reads_def parse_clause_def let_clause_def
  using assms(1) by (auto simp: show_let_def keyword_views ident_view view_of_def op_view_def operator_view_def erase_query_def add_defs
      intro!: wp_bind wp_check wp_advance_Cons wp_expect wp_match expression_clause [OF assms(2)] wp_has_failed wp_return)

lemma limit_reads: "clause_reads n [word_view ''LIMIT'', number_view v] (\<lambda>q. q\<lparr>query_limit := v\<rparr>)"
  unfolding item_reads_def parse_clause_def limit_clause_def
  by (auto simp: keyword_views number_view_def view_of_def erase_query_def
      intro!: wp_bind wp_check wp_advance_Cons wp_expect wp_has_failed wp_return)

text \<open>The clauses that are lists.\<close>

lemma clause_list_reads:
  assumes "\<forall>x\<in>set xs. item_reads n body (sh x) (add x)" "xs \<noteq> []" "map view_of ts = commas (map sh xs)"
    "length (ts @ us) < n" "head_type us \<in> followers"
    "\<And>q'. erase_query q' = fold add xs (erase_query q) \<Longrightarrow> wp (f q') Q us False"
  shows "wp (pbind (comma_loop (Suc n) body q) f) Q (ts @ us) False"
  by (intro wp_bind comma_loop_reads [OF assms(1-4)]) (use assms(4-) in auto)

text \<open>A clause is always followed by another one or by the end, never by a comma.\<close>

definition last_reads :: "nat \<Rightarrow> token_view list \<Rightarrow> (QueryStmt \<Rightarrow> QueryStmt) \<Rightarrow> bool" where
  "last_reads n Vs F \<longleftrightarrow> (\<forall>q ts us Q. map view_of ts = Vs \<longrightarrow> length (ts @ us) < n \<longrightarrow>
      head_type us \<in> followers - {Tok_Tumble} \<longrightarrow>
      (\<forall>q'. erase_query q' = F (erase_query q) \<longrightarrow> Q (True, q') us False) \<longrightarrow>
      wp (parse_clause (Suc n) (parse_expression (Suc n)) q) Q (ts @ us) False)"

lemma last_readsD:
  assumes "last_reads n Vs F" "map view_of ts = Vs" "length (ts @ us) < n" "head_type us \<in> followers - {Tok_Tumble}"
    "\<And>q'. erase_query q' = F (erase_query q) \<Longrightarrow> Q (True, q') us False"
  shows "wp (parse_clause (Suc n) (parse_expression (Suc n)) q) Q (ts @ us) False"
  using assms unfolding last_reads_def by blast

lemma clause_reads_last: "clause_reads n Vs F \<Longrightarrow> last_reads n Vs F"
  unfolding item_reads_def last_reads_def by blast

lemma agg_reads:
  assumes "list_all wf_aggregation as" "as \<noteq> []"
  shows "last_reads n (word_view ''AGG'' # commas (map (\<lambda>a. show_expr 1 (snd a)) as)) (fold add_aggregation as)"
proof -
  have body: "\<forall>a\<in>set as. item_reads n (parse_aggregation (parse_expression (Suc n))) (show_expr 1 (snd a)) (add_aggregation a)"
    using assms(1) by (auto simp: list_all_iff intro: aggregation_reads simp del: One_nat_def)
  show ?thesis
    unfolding last_reads_def
  proof (intro allI impI)
    fix q ts us Q
    assume v: "map view_of ts = word_view ''AGG'' # commas (map (\<lambda>a. show_expr 1 (snd a)) as)" and us: "length (ts @ us) < n"
      "head_type us \<in> followers - {Tok_Tumble}"
      and Q: "\<forall>q'. erase_query q' = fold add_aggregation as (erase_query q) \<longrightarrow> Q (True, q') us False"
    obtain t ta where ts: "ts = t # ta" "tok_type t = Tok_Agg" "map view_of ta = commas (map (\<lambda>a. show_expr 1 (snd a)) as)"
      using v by (auto simp: keyword_views view_of_def)
    have "wp (pbind (comma_loop (Suc n) (parse_aggregation (parse_expression (Suc n))) q) (\<lambda>q. preturn (True, q))) Q (ta @ us) False"
      by (rule clause_list_reads [OF body assms(2) ts(3)]) (use us ts(1) Q in \<open>auto intro!: wp_return\<close>)
    then show "wp (parse_clause (Suc n) (parse_expression (Suc n)) q) Q (ts @ us) False"
      unfolding parse_clause_def ts(1) using ts(2) by (auto intro!: wp_bind [of "check _"] wp_bind [of advance] wp_check wp_advance_Cons)
  qed
qed

lemma by_clause:
  assumes "tok_type t = ty" "tok_type t2 = Tok_By" "wp m Q us False"
  shows "wp (pbind advance (\<lambda>_. pbind (match Tok_By) (\<lambda>by1. if \<not> by1 then fail else m))) Q (t # t2 # us) False"
  using assms by (auto intro!: wp_bind wp_advance_Cons wp_match)

lemma order_clause_reads:
  assumes "list_all (\<lambda>(c, asc). ident c) bs" "bs \<noteq> []"
  shows "last_reads n ([word_view ''ORDER'', word_view ''BY''] @ commas (map show_order bs)) (fold add_order bs)"
proof -
  have body: "\<forall>b\<in>set bs. item_reads n parse_order_column (show_order b) (add_order b)"
    using assms(1) by (auto simp: list_all_iff intro!: order_reads)
  show ?thesis
    unfolding last_reads_def
  proof (intro allI impI)
    fix q ts us Q
    assume v: "map view_of ts = [word_view ''ORDER'', word_view ''BY''] @ commas (map show_order bs)" and us: "length (ts @ us) < n"
      "head_type us \<in> followers - {Tok_Tumble}"
      and Q: "\<forall>q'. erase_query q' = fold add_order bs (erase_query q) \<longrightarrow> Q (True, q') us False"
    obtain t t2 ta where ts: "ts = t # t2 # ta" "tok_type t = Tok_Order" "tok_type t2 = Tok_By" "map view_of ta = commas (map show_order bs)"
      using v by (auto simp: keyword_views view_of_def)
    have "wp (pbind (comma_loop (Suc n) parse_order_column q) (\<lambda>q. preturn (True, q))) Q (ta @ us) False"
      by (rule clause_list_reads [OF body assms(2) ts(4)]) (use us ts(1) Q in \<open>auto intro!: wp_return\<close>)
    from by_clause [OF ts(2,3) this] have "wp (order_clause (Suc n) q) Q (ts @ us) False"
      by (simp add: order_clause_def ts(1))
    then show "wp (parse_clause (Suc n) (parse_expression (Suc n)) q) Q (ts @ us) False"
      unfolding parse_clause_def ts(1) using ts(2) by (auto intro!: wp_bind [of "check _"] wp_check)
  qed
qed

definition set_tumble :: "Expression option \<Rightarrow> QueryStmt \<Rightarrow> QueryStmt" where
  "set_tumble w q = (case w of None \<Rightarrow> q | Some e \<Rightarrow> q\<lparr>tumble_window := Some (erase e)\<rparr>)"

lemma tumble_reads:
  assumes "pred_option wf_expr w" "map view_of ts = show_tumble w" "length (ts @ us) < n" "head_type us \<in> followers - {Tok_Tumble}"
    "\<And>q'. erase_query q' = set_tumble w (erase_query q) \<Longrightarrow> Q (True, q') us False"
  shows "wp (tumble_clause (parse_expression (Suc n)) q) Q (ts @ us) False"
proof (cases w)
  case None
  then show ?thesis
    using assms unfolding tumble_clause_def by (auto simp: show_tumble_def set_tumble_def intro!: wp_bind wp_match wp_return)
next
  case (Some e)
  obtain t t2 te t3 where ts: "ts = t # t2 # te @ [t3]" "tok_type t = Tok_Tumble" "view_of t2 = op_view Tok_LParen"
      "map view_of te = show_expr 1 e" "view_of t3 = op_view Tok_RParen"
    using assms(2) Some by (auto simp: show_tumble_def map_eq_append_conv keyword_views view_of_def)
  have t: "tok_type t2 = Tok_LParen" "tok_type t3 = Tok_RParen"
    using view_type [OF ts(3)] view_type [OF ts(5)] by simp_all
  have e: "wf_expr e" using assms(1) Some by simp
  have "wp (parse_expression (Suc n)) (\<lambda>e. wp (pbind has_failed (\<lambda>err.
         let q = q\<lparr>tumble_window := e\<rparr> in
         if err then preturn (False, q)
         else pbind (match Tok_RParen) (\<lambda>close.
           if \<not> close then pbind (error_here msg) (\<lambda>_. preturn (False, q))
           else preturn (True, q)))) Q) (te @ (t3 # us)) False" for msg
    by (rule expression_clause [OF e ts(4)])
       (use assms(3,5) ts(1) t Some in \<open>auto simp: followers_def erase_query_def set_tumble_def Let_def intro!: wp_bind wp_has_failed wp_match wp_return\<close>)
  then show ?thesis
    unfolding tumble_clause_def ts(1) using ts(2) t by (auto intro!: wp_bind wp_match)
qed

lemma group_clause_reads:
  assumes "list_all ident cs" "cs \<noteq> []" "pred_option wf_expr w"
  shows "last_reads n ([word_view ''GROUP'', word_view ''BY''] @ commas (map (\<lambda>c. [word_view c]) cs) @ show_tumble w)
    (\<lambda>q. set_tumble w (fold add_group cs q))"
proof -
  have body: "\<forall>c\<in>set cs. item_reads n parse_group_column [word_view c] (add_group c)"
    using assms(1) by (auto simp: list_all_iff intro!: group_reads)
  show ?thesis
    unfolding last_reads_def
  proof (intro allI impI)
    fix q ts us Q
    assume v: "map view_of ts = [word_view ''GROUP'', word_view ''BY''] @ commas (map (\<lambda>c. [word_view c]) cs) @ show_tumble w"
      and us: "length (ts @ us) < n" "head_type us \<in> followers - {Tok_Tumble}"
      and Q: "\<forall>q'. erase_query q' = set_tumble w (fold add_group cs (erase_query q)) \<longrightarrow> Q (True, q') us False"
    obtain t t2 tc tw where ts: "ts = t # t2 # tc @ tw" "tok_type t = Tok_Group" "tok_type t2 = Tok_By"
        "map view_of tc = commas (map (\<lambda>c. [word_view c]) cs)" "map view_of tw = show_tumble w"
      using v by (auto simp: map_eq_append_conv keyword_views view_of_def)
    have tw: "head_type (tw @ us) \<in> followers"
      using ts(5) us(2) by (cases tw) (auto simp: show_tumble_def keyword_views view_of_def followers_def split: option.splits)
    have "wp (pbind (comma_loop (Suc n) parse_group_column q) (\<lambda>q. tumble_clause (parse_expression (Suc n)) q)) Q (tc @ (tw @ us)) False"
    proof (rule clause_list_reads [OF body assms(2) ts(4) _ tw])
      show "wp (tumble_clause (parse_expression (Suc n)) q') Q (tw @ us) False"
        if "erase_query q' = fold add_group cs (erase_query q)" for q'
        by (rule tumble_reads [OF assms(3) ts(5)]) (use us ts(1) Q that in auto)
    qed (use us ts(1) in auto)
    from by_clause [OF ts(2,3) this] have "wp (group_clause (Suc n) (parse_expression (Suc n)) q) Q (ts @ us) False"
      by (simp add: group_clause_def ts(1))
    then show "wp (parse_clause (Suc n) (parse_expression (Suc n)) q) Q (ts @ us) False"
      unfolding parse_clause_def ts(1) using ts(2) by (auto intro!: wp_bind [of "check _"] wp_check)
  qed
qed

text \<open>What the clauses of a query do to the query that is being built.\<close>

definition clause_effects :: "QueryStmt \<Rightarrow> (QueryStmt \<Rightarrow> QueryStmt) list" where
  "clause_effects q =
     (case where_expr q of None \<Rightarrow> [] | Some e \<Rightarrow> [\<lambda>p. p\<lparr>where_expr := Some (erase e)\<rparr>]) @
     map add_let (let_bindings q) @
     (if group_by_columns q = [] then [] else [\<lambda>p. set_tumble (tumble_window q) (fold add_group (group_by_columns q) p)]) @
     (if aggregations q = [] then [] else [fold add_aggregation (aggregations q)]) @
     (if order_by q = [] then [] else [fold add_order (order_by q)]) @
     (if query_limit q = 0 then [] else [\<lambda>p. p\<lparr>query_limit := query_limit q\<rparr>])"

lemma clauses_read:
  assumes "wf_query q"
  shows "list_all2 (last_reads n) (show_clauses q) (clause_effects q)"
proof -
  have w: "list_all2 (last_reads n) (case where_expr q of None \<Rightarrow> [] | Some e \<Rightarrow> [word_view ''WHERE'' # show_expr 1 e])
      (case where_expr q of None \<Rightarrow> [] | Some e \<Rightarrow> [\<lambda>p. p\<lparr>where_expr := Some (erase e)\<rparr>])"
    using assms where_reads by (auto simp: wf_query_def split: option.split intro!: clause_reads_last simp del: One_nat_def)
  have l: "list_all2 (last_reads n) (map show_let bs) (map add_let bs)"
    if "list_all (\<lambda>(nm, e). ident nm \<and> (\<exists>x. e = Some x \<and> wf_expr x)) bs" for bs
    using that by (induction bs) (auto intro!: clause_reads_last let_reads)
  show ?thesis
    unfolding show_clauses_def clause_effects_def
    using assms group_clause_reads agg_reads order_clause_reads clause_reads_last [OF limit_reads]
    by (intro list_all2_appendI w l) (auto simp: wf_query_def simp del: One_nat_def append.simps)
qed

definition clause_starts :: "TokenType set" where
  "clause_starts = {Tok_Where, Tok_Let, Tok_Group, Tok_Agg, Tok_Order, Tok_Limit}"

lemma clause_heads: "Vs \<in> set (show_clauses q) \<Longrightarrow> Vs \<noteq> [] \<and> fst (hd Vs) \<in> clause_starts"
  by (auto simp: show_clauses_def show_let_def keyword_views clause_starts_def split: option.splits if_splits)

lemma view_head_type: "map view_of ts = Vs \<Longrightarrow> Vs \<noteq> [] \<Longrightarrow> head_type (ts @ us) = fst (hd Vs)"
  by (cases ts) (auto simp: view_of_def)

lemma parse_clauses_reads:
  assumes "list_all2 (last_reads n) Cs Fs" "\<forall>Vs\<in>set Cs. Vs \<noteq> [] \<and> fst (hd Vs) \<in> clause_starts"
    "map view_of ts = concat Cs" "length ts < m" "length ts < n"
    "\<And>q'. erase_query q' = fold (\<lambda>F. F) Fs (erase_query q) \<Longrightarrow> Q q' [] False"
  shows "wp (parse_clauses m (Suc n) (parse_expression (Suc n)) q) Q ts False"
  using assms
proof (induction Cs Fs arbitrary: ts m q rule: list_all2_induct)
  case Nil
  then show ?case
    by (cases m) (auto intro!: wp_bind wp_check wp_has_failed wp_return)
next
  case (Cons Vs Cs F Fs)
  obtain m' where m: "m = Suc m'"
    using Cons.prems(3) by (cases m) auto
  obtain tv tc where ts: "ts = tv @ tc" "map view_of tv = Vs" "map view_of tc = concat Cs"
    using Cons.prems(2) by (auto simp: map_eq_append_conv)
  have Vs: "Vs \<noteq> []" "fst (hd Vs) \<in> clause_starts"
    using Cons.prems(1) by auto
  have "head_type tc \<in> insert Tok_Eof clause_starts"
  proof (cases Cs)
    case Nil
    then show ?thesis using ts(3) by simp
  next
    case (Cons Ws Ds)
    then have "concat Cs \<noteq> []" "hd (concat Cs) = hd Ws"
      using Cons.prems(1) by auto
    then show ?thesis
      using view_head_type [OF ts(3), of "[]"] Cons.prems(1) Cons by simp
  qed
  then have tc: "head_type tc \<in> followers - {Tok_Tumble}"
    by (auto simp: followers_def clause_starts_def)
  have "wp (parse_clauses m' (Suc n) (parse_expression (Suc n)) q') Q tc False" if "erase_query q' = F (erase_query q)" for q'
  proof -
    have "length tc < m'"
      using ts(1,2) Vs(1) Cons.prems(3) m by (cases tv) auto
    then show ?thesis
      using Cons.prems ts that m by (intro Cons.IH) auto
  qed
  then have "wp (parse_clause (Suc n) (parse_expression (Suc n)) q) (\<lambda>r. wp (case r of (go_on, q) \<Rightarrow>
      if go_on then parse_clauses m' (Suc n) (parse_expression (Suc n)) q else preturn q) Q) (tv @ tc) False"
    by (intro last_readsD [OF Cons.hyps(1) ts(2) _ tc]) (use Cons.prems(4) ts(1) in auto)
  moreover have "head_type (tv @ tc) \<noteq> Tok_Eof"
    using view_head_type [OF ts(2) Vs(1)] Vs(2) by (auto simp: clause_starts_def)
  ultimately show ?case
    unfolding m parse_clauses.simps ts(1) by (auto intro!: wp_bind wp_check wp_has_failed)
qed

lemma table_reads:
  assumes "ident nm" "view_of t = word_view nm" "Q (q\<lparr>table_name := nm\<rparr>) us False"
  shows "wp (parse_table q) Q (t # us) False"
  unfolding parse_table_def using assms by (auto simp: ident_view view_of_def intro!: wp_bind wp_expect wp_return)

lemma fold_projections: "fold add_projection its q = q\<lparr>projections := projections q @ map erase_item its\<rparr>"
  by (induction its arbitrary: q) (simp_all add: add_projection_def)

lemma head_reads:
  assumes "list_all wf_item (projections q)" "ident (table_name q)" "map view_of ts = show_head q" "length (ts @ us) < n"
    "\<And>q'. erase_query q' = (QueryStmt_init 0 0)\<lparr>projections := map erase_item (projections q), table_name := table_name q\<rparr> \<Longrightarrow> Q q' us False"
  shows "wp (parse_head (Suc n) (parse_expression (Suc n)) tok) Q (ts @ us) False"
proof (cases "projections q = []")
  case True
  then obtain t t2 where ts: "ts = [t, t2]" "tok_type t = Tok_From" "view_of t2 = word_view (table_name q)"
    using assms(3) by (auto simp: show_head_def keyword_views view_of_def)
  then show ?thesis
    unfolding parse_head_def Let_def using assms(5) True
    by (auto intro!: wp_bind wp_match table_reads [OF assms(2)] simp: erase_query_def QueryStmt_init_def)
next
  case False
  then obtain t ti t2 t3 where ts: "ts = t # ti @ [t2, t3]" "tok_type t = Tok_Select" "tok_type t2 = Tok_From"
      "map view_of ti = commas (map show_item (projections q))" "view_of t3 = word_view (table_name q)"
    using assms(3) by (auto simp: show_head_def map_eq_append_conv keyword_views view_of_def)
  have body: "\<forall>it\<in>set (projections q). item_reads n (parse_projection True (parse_expression (Suc n))) (show_item it) (add_projection it)"
    using assms(1) by (auto simp: list_all_iff intro: projection_reads)
  let ?i = "QueryStmt_init (tok_line tok) (tok_column tok)"
  have "wp (comma_loop (Suc n) (parse_projection True (parse_expression (Suc n))) ?i)
      (\<lambda>q. wp (pbind has_failed (\<lambda>err.
          if err then preturn q
          else pbind (match Tok_From) (\<lambda>from.
                 if from then parse_table q else preturn (q\<lparr>table_name := ''events''\<rparr>)))) Q) (ti @ (t2 # t3 # us)) False"
    by (rule comma_loop_reads [OF body False ts(4)])
       (use assms(4,5) ts in \<open>auto simp: followers_def fold_projections erase_query_def QueryStmt_init_def
          intro!: wp_bind wp_has_failed wp_match table_reads [OF assms(2)]\<close>)
  then show ?thesis
    unfolding parse_head_def Let_def ts(1) parse_projections_def using ts(2) by (auto intro!: wp_bind wp_match)
qed

lemma fold_effects:
  assumes "group_by_columns q = [] \<longrightarrow> tumble_window q = None"
  shows "fold (\<lambda>F. F) (clause_effects q)
    ((QueryStmt_init 0 0)\<lparr>projections := map erase_item (projections q), table_name := table_name q\<rparr>) = erase_query q"
proof -
  have lets: "fold (\<lambda>F. F) (map add_let bs) p = p\<lparr>let_bindings := let_bindings p @ map (\<lambda>(nm, e). (nm, map_option erase e)) bs\<rparr>" for bs p
    by (induction bs arbitrary: p) (auto simp: add_let_def)
  have groups: "fold add_group cs p = p\<lparr>group_by_columns := group_by_columns p @ cs\<rparr>" for cs p
    by (induction cs arbitrary: p) (auto simp: add_group_def)
  have aggs: "fold add_aggregation as p = p\<lparr>aggregations := aggregations p @ map (\<lambda>(nm, e). (nm, erase e)) as\<rparr>" for as p
    by (induction as arbitrary: p) (auto simp: add_aggregation_def)
  have orders: "fold add_order bs p = p\<lparr>order_by := order_by p @ bs\<rparr>" for bs p
    by (induction bs arbitrary: p) (auto simp: add_order_def)
  show ?thesis
    using assms by (auto simp: clause_effects_def lets groups aggs orders set_tumble_def erase_query_def QueryStmt_init_def split: option.split)
qed

lemma parse_query_reads:
  assumes "wf_query q" "map view_of ts = show_query q" "length ts < n"
  shows "wp (parse_query (Suc n)) (\<lambda>r us e. \<exists>q'. r = Ok q' \<and> erase_query q' = erase_query q \<and> us = [] \<and> \<not> e) ts False"
proof -
  obtain th tc where ts: "ts = th @ tc" "map view_of th = show_head q" "map view_of tc = concat (show_clauses q)"
    using assms(2) by (auto simp: show_query_def map_eq_append_conv)
  have wf: "list_all wf_item (projections q)" "ident (table_name q)" "group_by_columns q = [] \<longrightarrow> tumble_window q = None"
    using assms(1) by (simp_all add: wf_query_def)
  let ?Q = "\<lambda>r us e. \<exists>q'. r = Ok q' \<and> erase_query q' = erase_query q \<and> us = [] \<and> \<not> e"
  have clauses: "wp (parse_clauses (Suc n) (Suc n) (parse_expression (Suc n)) q0) (\<lambda>q. wp (pbind has_failed (\<lambda>err.
            preturn (if err then Err ParserError else Ok q))) ?Q) tc False"
    if "erase_query q0 = (QueryStmt_init 0 0)\<lparr>projections := map erase_item (projections q), table_name := table_name q\<rparr>" for q0
    by (rule parse_clauses_reads [OF clauses_read [OF assms(1)] _ ts(3)])
       (use clause_heads assms(3) ts(1) fold_effects [OF wf(3)] that in \<open>auto intro!: wp_bind wp_has_failed wp_return\<close>)
  have "wp (parse_head (Suc n) (parse_expression (Suc n)) tok) (\<lambda>q. wp (pbind has_failed (\<lambda>err.
     if err then preturn (Err ParserError)
     else pbind (parse_clauses (Suc n) (Suc n) (parse_expression (Suc n)) q) (\<lambda>q. pbind has_failed (\<lambda>err.
            preturn (if err then Err ParserError else Ok q))))) ?Q) (th @ tc) False" for tok
    by (rule head_reads [OF wf(1,2) ts(2)]) (use assms(3) ts(1) clauses in \<open>auto intro!: wp_bind wp_has_failed simp del: parse_clauses.simps\<close>)
  then show ?thesis
    unfolding parse_query_def ts(1) by (intro wp_bind wp_current_token)
qed

section \<open>The text of a query\<close>

definition spell :: "token_view \<Rightarrow> string" where
  "spell V = (if fst V \<in> set operator_tokens then token_type_name (fst V) else fst (snd V))"

definition query_text :: "QueryStmt \<Rightarrow> string" where
  "query_text q = unwords (map spell (show_query q))"

definition spellable :: "token_view \<Rightarrow> bool" where
  "spellable V \<longleftrightarrow> spells (spell V) V"

lemma spellable_word: "word_like w \<Longrightarrow> spellable (word_view w)"
  using spells_word [of w] by (simp add: spellable_def spell_def word_view_def operator_tokens_def lookup_keyword_def)

lemma spellable_number: "spellable (number_view v)"
  using spells_number [of v] by (simp add: spellable_def spell_def number_view_def operator_tokens_def)

lemma keyword_words: "list_all word_like [''SELECT'', ''FROM'', ''WHERE'', ''LET'', ''GROUP'', ''BY'', ''AGG'', ''ORDER'',
    ''LIMIT'', ''AS'', ''ASC'', ''DESC'', ''TUMBLE'', ''AND'', ''OR'']"
  by (simp add: word_like_def isalpha_def identifier_char_def isalnum_def)

lemma spellable_op: "t \<in> set operator_tokens \<union> {Tok_And, Tok_Or} \<Longrightarrow> spellable (op_view t)"
  using spells_operator [of t] keyword_words spellable_word
  by (auto simp: op_view_def spellable_def spell_def operator_view_def operator_tokens_def)

lemma binary_operators: "0 < op_level t \<Longrightarrow> t \<in> set operator_tokens \<union> {Tok_And, Tok_Or}"
  by (auto simp: op_level_def operator_tokens_def split: if_splits)

lemma spellable_binary: "0 < op_level t \<Longrightarrow> spellable (op_view t)"
  by (intro spellable_op binary_operators)

lemma list_all_commas: "list_all spellable (commas Vss) \<longleftrightarrow> list_all (list_all spellable) Vss"
  by (induction Vss rule: commas.induct) (auto simp: spellable_op operator_tokens_def)

lemma spellable_expr: "wf_expr x \<Longrightarrow> list_all spellable (show_expr k x)"
proof (induction k x rule: show_expr.induct)
  case (5 k nm args ln col)
  then show ?case
    by (auto simp: spellable_word spellable_op operator_tokens_def valid_name_def list_all_commas list_all_iff [of _ "map _ _"]
        list_all_iff [of wf_expr] simp del: One_nat_def)
qed (auto simp: parens_def spellable_word spellable_op spellable_number spellable_binary valid_name_def operator_tokens_def
     simp del: One_nat_def)

lemma spellable_query:
  assumes "wf_query q"
  shows "list_all spellable (show_query q)"
proof -
  have kw: "spellable (word_view w)" if "w \<in> {''SELECT'', ''FROM'', ''WHERE'', ''LET'', ''GROUP'', ''BY'', ''AGG'', ''ORDER'',
    ''LIMIT'', ''AS'', ''ASC'', ''DESC'', ''TUMBLE''}" for w
    using that keyword_words by (intro spellable_word) (auto simp: list_all_iff)
  have op: "spellable (op_view t)" if "t \<in> {Tok_Star, Tok_Equal, Tok_LParen, Tok_RParen}" for t
    using that by (intro spellable_op) (auto simp: operator_tokens_def)
  have id: "spellable (word_view w)" if "ident w" for w
    using that by (intro spellable_word) (simp add: ident_def)
  have item: "list_all spellable (show_item it)" if "wf_item it" for it
    using that by (auto simp: show_item_def wf_item_def kw op id spellable_expr split: option.split if_splits)
  have "list_all spellable (show_head q)"
    using assms by (auto simp: show_head_def wf_query_def kw id item list_all_commas list_all_iff [of _ "map _ _"] list_all_iff [of wf_item])
  moreover have "list_all (list_all spellable) (show_clauses q)"
  proof -
    have "list_all (list_all spellable) (map show_let (let_bindings q))"
      using assms by (auto simp: wf_query_def list_all_iff [of _ "map _ _"] list_all_iff [of _ "let_bindings q"] show_let_def kw op id spellable_expr)
    moreover have "list_all (list_all spellable) (map (\<lambda>c. [word_view c]) (group_by_columns q))"
      using assms by (auto simp: wf_query_def list_all_iff [of _ "map _ _"] list_all_iff [of ident] id)
    moreover have "list_all spellable (show_tumble (tumble_window q))"
      using assms by (auto simp: wf_query_def show_tumble_def kw op spellable_expr split: option.split)
    moreover have "list_all (list_all spellable) (map (\<lambda>a. show_expr 1 (snd a)) (aggregations q))"
      using assms by (auto simp: wf_query_def list_all_iff [of _ "map _ _"] list_all_iff [of wf_aggregation] wf_aggregation_def
          intro!: spellable_expr simp del: One_nat_def)
    moreover have "list_all (list_all spellable) (map show_order (order_by q))"
      using assms by (auto simp: wf_query_def list_all_iff [of _ "map _ _"] list_all_iff [of _ "order_by q"] show_order_def kw id)
    moreover have "list_all (list_all spellable) (case where_expr q of None \<Rightarrow> [] | Some e \<Rightarrow> [word_view ''WHERE'' # show_expr 1 e])"
      using assms by (auto simp: wf_query_def kw spellable_expr split: option.split)
    ultimately show ?thesis
      by (simp add: show_clauses_def kw list_all_commas spellable_number)
  qed
  ultimately show ?thesis
    by (auto simp: show_query_def list_all_iff)
qed

text \<open>
  C6. The parser inverts the printer. For every well-formed query tree, with any nesting of
  operators, function calls and clauses, the text that \<open>query_text\<close> writes for it, which uses
  parentheses only where precedence and left associativity require them, is accepted by
  \<open>parse_query\<close>, and the tree that comes back is the tree that was written, up to lines and columns.
\<close>

theorem query_roundtrip:
  assumes "wf_query q"
  shows "\<exists>q' p'. parse_query (length (query_text q) + 2) (Parser_init (query_text q)) = Some (Ok (Ok q', p')) \<and>
    erase_query q' = erase_query q"
proof -
  let ?s = "query_text q"
  have "list_all2 spells (map spell (show_query q)) (show_query q)"
    using spellable_query [OF assms] by (auto simp: list_all2_map1 list_all2_same spellable_def list_all_iff)
  then have v: "map view_of (lex_tokens (Lexer_init ?s)) = show_query q"
    by (rule lex_unwords) (simp_all add: Lexer_init_def rest_def query_text_def)
  have "?s \<noteq> []"
    by (simp add: query_text_def show_query_def show_head_def unwords_def)
  then have "parser_at (lex_tokens (Lexer_init ?s)) False (Parser_init ?s)"
    by (rule parser_at_init)
  with parse_query_reads [OF assms v, of "length ?s + 1"] token_count [of ?s] show ?thesis
    unfolding wp_def by fastforce
qed

definition sample_query :: QueryStmt where
  "sample_query = (QueryStmt_init 1 1)\<lparr>
     projections := [\<lparr>item_expr = Some (BinaryOpExpr Tok_Star (ColumnRefExpr ''price'' 1 8)
          (BinaryOpExpr Tok_Plus (ColumnRefExpr ''qty'' 1 16) (LiteralExpr 12 1 20) 1 18) 1 14),
        item_alias = ''notional'', is_wildcard = False\<rparr>],
     table_name := ''events'',
     where_expr := Some (BinaryOpExpr Tok_And (BinaryOpExpr Tok_GreaterEqual (ColumnRefExpr ''price'' 1 1)
        (UnaryOpExpr Tok_Minus (LiteralExpr 5 1 1) 1 1) 1 1) (ColumnRefExpr ''flags'' 1 1) 1 1),
     aggregations := [(''sum'', FunctionCallExpr ''sum'' [ColumnRefExpr ''qty'' 1 1] 1 1)],
     order_by := [(''qty'', False)]\<rparr>"

lemma spell_simps:
  "spell (word_view w) = w" "spell (number_view v) = digits (unat v)"
  "t \<in> set operator_tokens \<Longrightarrow> spell (op_view t) = token_type_name t" "spell (op_view Tok_And) = ''AND''"
  by (auto simp: spell_def word_view_def number_view_def op_view_def operator_view_def operator_tokens_def lookup_keyword_def)

lemma sample_query_text: "wf_query sample_query"
  "query_text sample_query =
    ''SELECT price * ( qty + 12 ) AS notional FROM events WHERE price >= - 5 AND flags AGG sum ( qty ) ORDER BY qty DESC ''"
proof -
  have names: "lookup_keyword ''price'' = Tok_Identifier" "lookup_keyword ''qty'' = Tok_Identifier" "lookup_keyword ''flags'' = Tok_Identifier"
    "lookup_keyword ''notional'' = Tok_Identifier" "lookup_keyword ''events'' = Tok_Identifier" "lookup_keyword ''sum'' = Tok_Sum"
    by code_simp+
  have words: "list_all word_like [''price'', ''qty'', ''flags'', ''notional'', ''events'', ''sum'']"
    by (simp add: word_like_def isalpha_def identifier_char_def isalnum_def)
  show "wf_query sample_query"
    using names words by (simp add: sample_query_def wf_query_def QueryStmt_init_def wf_item_def ident_def valid_name_def op_level_def wf_aggregation_def)
  have num: "digits 12 = ''12''" "digits 5 = ''5''"
    by code_simp+
  show "query_text sample_query =
    ''SELECT price * ( qty + 12 ) AS notional FROM events WHERE price >= - 5 AND flags AGG sum ( qty ) ORDER BY qty DESC ''"
    using num
    by (simp add: query_text_def sample_query_def show_query_def show_head_def show_clauses_def QueryStmt_init_def show_item_def
        op_level_def parens_def spell_simps operator_tokens_def show_order_def)
qed

lemma sample_fuel: "length ''SELECT price * ( qty + 12 ) AS notional FROM events WHERE price >= - 5 AND flags AGG sum ( qty ) ORDER BY qty DESC '' + 2 = 117"
  by simp

theorem query_roundtrip_witness:
  "\<exists>q' p'. parse_query 117 (Parser_init
     ''SELECT price * ( qty + 12 ) AS notional FROM events WHERE price >= - 5 AND flags AGG sum ( qty ) ORDER BY qty DESC '')
     = Some (Ok (Ok q', p')) \<and> erase_query q' = erase_query sample_query"
  using query_roundtrip [OF sample_query_text(1)] unfolding sample_query_text(2) sample_fuel .

end
