(* ===== verification/Query_Types.thy ===== *)
theory Query_Types
  imports Query_Parser Segment_Format
begin

text \<open>
  The type checker of the query language (\<^verbatim>\<open>query/type_checker.cpp\<close>): resolution of column names and
  their aliases against the canonical schema, the type of an expression, and the check of a whole
  query. The lemmas state which queries it accepts; what the types that it gives say about the values at
  run time is the subject of \<^verbatim>\<open>Query_Sound\<close>.
\<close>

section \<open>The checker\<close>

abbreviation ColBool :: u8 where "ColBool \<equiv> 8"

text \<open>The file has its own copy of the comparison that ignores case.\<close>

definition ieq :: "string \<Rightarrow> string \<Rightarrow> bool" where
  "ieq a b \<longleftrightarrow> length a = length b \<and> (\<forall>i<length a. toupper (a ! i) = toupper (b ! i))"

definition resolve_column :: "string \<Rightarrow> nat option" where
  "resolve_column name =
     (if ieq name ''exchange_ts_ns'' \<or> ieq name ''exchange_ts'' then Some 0
      else if ieq name ''receive_ts_ns'' \<or> ieq name ''receive_ts'' then Some 1
      else if ieq name ''sequence'' \<or> ieq name ''seq'' then Some 2
      else if ieq name ''instrument_id'' \<or> ieq name ''symbol'' \<or> ieq name ''instrument'' then Some 3
      else if ieq name ''event_type'' then Some 4
      else if ieq name ''side'' then Some 5
      else if ieq name ''flags'' then Some 6
      else if ieq name ''price_ticks'' \<or> ieq name ''price'' then Some 7
      else if ieq name ''quantity'' \<or> ieq name ''qty'' then Some 8
      else if ieq name ''venue_id'' \<or> ieq name ''venue'' then Some 9
      else if ieq name ''source_id'' \<or> ieq name ''source'' then Some 10
      else if ieq name ''trade_or_order_id'' \<or> ieq name ''trade_id'' \<or> ieq name ''order_id'' then Some 11
      else None)"

definition comparison_tokens :: "TokenType set" where
  "comparison_tokens = {Tok_Equal, Tok_NotEqual, Tok_Less, Tok_LessEqual, Tok_Greater, Tok_GreaterEqual, Tok_And, Tok_Or}"

text \<open>
  The cases of \<^verbatim>\<open>check_expression\<close> on a node, and the loop over the arguments of a call, which
  returns the first error.
\<close>

fun check_node :: "Expression \<Rightarrow> u8 outcome"
  and check_args :: "Expression list \<Rightarrow> unit outcome"
where
  "check_node (LiteralExpr v ln col) = Ok ColU64"
| "check_node (ColumnRefExpr nm ln col) =
     (case resolve_column nm of None \<Rightarrow> Err InvalidArgument | Some c \<Rightarrow> Ok (get_column_type c))"
| "check_node (BinaryOpExpr op a b ln col) =
     obind (check_node a) (\<lambda>l. obind (check_node b) (\<lambda>r.
       if op \<in> comparison_tokens then Ok ColBool
       else if l = ColI64 \<or> r = ColI64 then Ok ColI64 else Ok ColU64))"
| "check_node (UnaryOpExpr op a ln col) =
     obind (check_node a) (\<lambda>t. if op = Tok_Bang then Ok ColBool else if op = Tok_Minus then Ok ColI64 else Ok t)"
| "check_node (FunctionCallExpr nm args ln col) =
     obind (check_args args) (\<lambda>_.
       if ieq nm ''count'' then Ok ColU64
       else if ieq nm ''sum'' \<or> ieq nm ''min'' \<or> ieq nm ''max'' then
         (case args of [] \<Rightarrow> Ok ColU64 | a # _ \<Rightarrow> (case check_node a of Ok t \<Rightarrow> Ok t | _ \<Rightarrow> Ok ColU64))
       else Ok ColU64)"
| "check_args [] = Ok ()"
| "check_args (a # as) = obind (check_node a) (\<lambda>_. check_args as)"

definition check_expression :: "Expression option \<Rightarrow> u8 outcome" where
  "check_expression expr = (case expr of None \<Rightarrow> Err InvalidArgument | Some e \<Rightarrow> check_node e)"

fun check_projections :: "SelectItem list \<Rightarrow> unit outcome" where
  "check_projections [] = Ok ()"
| "check_projections (p # ps) =
     (if \<not> is_wildcard p \<and> item_expr p \<noteq> None
      then obind (check_expression (item_expr p)) (\<lambda>_. check_projections ps) else check_projections ps)"

fun check_columns :: "string list \<Rightarrow> unit outcome" where
  "check_columns [] = Ok ()"
| "check_columns (c # cs) = (case resolve_column c of None \<Rightarrow> Err InvalidArgument | Some _ \<Rightarrow> check_columns cs)"

definition check_query :: "QueryStmt option \<Rightarrow> unit outcome" where
  "check_query stmt = (case stmt of
      None \<Rightarrow> Err InvalidArgument
    | Some q \<Rightarrow>
        obind (check_projections (projections q)) (\<lambda>_.
        obind (if where_expr q \<noteq> None then obind (check_expression (where_expr q)) (\<lambda>_. Ok ()) else Ok ()) (\<lambda>_.
        obind (check_columns (group_by_columns q)) (\<lambda>_.
        check_columns (map fst (order_by q))))))"

section \<open>What it decides\<close>

text \<open>The names of the columns, each with the number of its column.\<close>

definition column_names :: "(string \<times> nat) list" where
  "column_names = [(''exchange_ts_ns'', 0), (''exchange_ts'', 0), (''receive_ts_ns'', 1), (''receive_ts'', 1),
     (''sequence'', 2), (''seq'', 2), (''instrument_id'', 3), (''symbol'', 3), (''instrument'', 3), (''event_type'', 4),
     (''side'', 5), (''flags'', 6), (''price_ticks'', 7), (''price'', 7), (''quantity'', 8), (''qty'', 8),
     (''venue_id'', 9), (''venue'', 9), (''source_id'', 10), (''source'', 10), (''trade_or_order_id'', 11),
     (''trade_id'', 11), (''order_id'', 11)]"

definition names_column :: "string \<Rightarrow> nat \<Rightarrow> bool" where
  "names_column name c \<longleftrightarrow> (\<exists>(n, c')\<in>set column_names. c' = c \<and> map toupper name = map toupper n)"

lemma ieq_map: "ieq a b \<longleftrightarrow> map toupper a = map toupper b"
  by (auto simp: ieq_def list_eq_iff_nth_eq)

lemma names_distinct: "distinct (map (\<lambda>(n, c). map toupper n) column_names)"
  by code_simp

lemma names_column_unique:
  assumes "names_column name c" "names_column name d"
  shows "c = d"
proof -
  obtain n m where "(n, c) \<in> set column_names" "(m, d) \<in> set column_names" "map toupper n = map toupper m"
    using assms by (auto simp: names_column_def)
  moreover have "inj_on (\<lambda>(n, c). map toupper n) (set column_names)"
    using names_distinct by (simp add: distinct_map)
  ultimately show ?thesis
    by (auto dest: inj_onD [where x = "(n, c)" and y = "(m, d)"])
qed

lemma resolve_column_Some: "resolve_column name = Some c \<Longrightarrow> names_column name c"
  unfolding resolve_column_def ieq_map names_column_def column_names_def
  by (auto split: if_splits)

lemma resolve_column_None: "resolve_column name = None \<Longrightarrow> \<not> names_column name c"
  unfolding resolve_column_def ieq_map names_column_def column_names_def
  by (auto split: if_splits)

lemma resolve_column_iff: "resolve_column name = Some c \<longleftrightarrow> names_column name c"
  by (metis names_column_unique not_None_eq resolve_column_None resolve_column_Some)

definition known_column :: "string \<Rightarrow> bool" where
  "known_column name \<longleftrightarrow> (\<exists>(n, c)\<in>set column_names. map toupper name = map toupper n)"

lemma known_column_iff: "known_column name \<longleftrightarrow> (\<exists>c. resolve_column name = Some c)"
  unfolding resolve_column_iff known_column_def names_column_def by fast

text \<open>The names that occur in an expression, and those that occur in the parts of a query that are checked.\<close>

fun column_refs :: "Expression \<Rightarrow> string list" where
  "column_refs (LiteralExpr v ln col) = []"
| "column_refs (ColumnRefExpr nm ln col) = [nm]"
| "column_refs (BinaryOpExpr op a b ln col) = column_refs a @ column_refs b"
| "column_refs (UnaryOpExpr op a ln col) = column_refs a"
| "column_refs (FunctionCallExpr nm args ln col) = concat (map column_refs args)"

definition option_refs :: "Expression option \<Rightarrow> string list" where
  "option_refs expr = (case expr of None \<Rightarrow> [] | Some e \<Rightarrow> column_refs e)"

definition checked_names :: "QueryStmt \<Rightarrow> string list" where
  "checked_names q =
     concat (map (\<lambda>p. if is_wildcard p then [] else option_refs (item_expr p)) (projections q))
     @ option_refs (where_expr q) @ group_by_columns q @ map fst (order_by q)"

text \<open>The operators as functions of the types of their operands.\<close>

lemma check_operators:
  "check_node (BinaryOpExpr op a b ln col) =
     obind (check_node a) (\<lambda>l. obind (check_node b) (\<lambda>r.
       Ok (if op \<in> comparison_tokens then ColBool else if ColI64 \<in> {l, r} then ColI64 else ColU64)))"
  "check_node (UnaryOpExpr op a ln col) =
     obind (check_node a) (\<lambda>t. Ok (if op = Tok_Bang then ColBool else if op = Tok_Minus then ColI64 else t))"
  by (auto intro!: arg_cong [where f = "obind _"] ext)

declare check_node.simps(3,4) [simp del] check_operators [simp]

lemma check_node_accepts:
  "(\<exists>t. check_node e = Ok t) \<longleftrightarrow> list_all known_column (column_refs e)"
  "check_args as = Ok () \<longleftrightarrow> list_all known_column (concat (map column_refs as))"
proof (induction e and as rule: check_node_check_args.induct)
  case (2 nm ln col)
  then show ?case by (auto simp: known_column_iff split: option.split)
next
  case (3 op a b ln col)
  then show ?case by (cases "check_node a"; cases "check_node b") (auto simp: list_all_append)
next
  case (4 op a ln col)
  then show ?case by (auto simp: obind_eq_Ok)
next
  case (5 nm args ln col)
  then show ?case
    by (auto simp: obind_eq_Ok split: list.split outcome.split)
qed (auto simp: obind_eq_Ok list_all_append)

lemma check_node_error:
  "check_node e = Err InvalidArgument \<or> (\<exists>t. check_node e = Ok t)"
  "check_args as = Err InvalidArgument \<or> check_args as = Ok ()"
  by (induction e and as rule: check_node_check_args.induct) (auto split: option.split list.split)

lemma check_node_cases:
  obtains t where "check_node e = Ok t" "list_all known_column (column_refs e)"
  | "check_node e = Err InvalidArgument" "\<not> list_all known_column (column_refs e)"
  using check_node_error(1) [of e] check_node_accepts(1) [of e] by fastforce

section \<open>Queries\<close>

lemma check_projections_result:
  "check_projections ps =
     (if list_all known_column (concat (map (\<lambda>p. if is_wildcard p then [] else option_refs (item_expr p)) ps))
      then Ok () else Err InvalidArgument)"
proof (induction ps)
  case (Cons p ps)
  show ?case
  proof (cases "is_wildcard p \<or> item_expr p = None")
    case False
    then obtain e where "item_expr p = Some e" by auto
    with False Cons show ?thesis
      by (cases rule: check_node_cases [of e]) (auto simp: check_expression_def option_refs_def list_all_append)
  qed (use Cons in \<open>auto simp: option_refs_def\<close>)
qed simp

lemma check_where_result:
  "(if w \<noteq> None then obind (check_expression w) (\<lambda>_. Ok ()) else Ok ())
   = (if list_all known_column (option_refs w) then Ok () else Err InvalidArgument)"
  by (cases w; cases rule: check_node_cases [of "the w"]) (auto simp: check_expression_def option_refs_def)

lemma check_columns_result:
  "check_columns cs = (if list_all known_column cs then Ok () else Err InvalidArgument)"
  by (induction cs) (auto simp: known_column_iff split: option.split)

lemma check_query_result:
  "check_query (Some q) = (if list_all known_column (checked_names q) then Ok () else Err InvalidArgument)"
  unfolding check_query_def option.case check_projections_result check_where_result check_columns_result checked_names_def
  by (auto simp: list_all_append)

end
