(* ===== verification/Vector_Exec.thy ===== *)
theory Vector_Exec
  imports Query_Parser Segment_Reader
begin

text \<open>
  The vectorised executor (\<^verbatim>\<open>execution/vector_executor.hpp\<close> and \<^verbatim>\<open>execution/vector_executor.cpp\<close>): column
  batches of at most 1024 rows, selection vectors, the filter and aggregation kernels, and the
  execution of a query over events. The executor never passes a null selection; the NEON variants of the
  kernels, which handle only that case, are modelled beside the portable ones and agree with them. The elapsed time of a result is left out.
  A selection vector is the list of the indices in use, the entries behind \<^verbatim>\<open>count\<close> are never read;
  a column of a batch is the whole array, of which a load overwrites the front.
  The theory shows that processing in batches computes what a row-at-a-time reference computes.
\<close>

section \<open>Batches and selection vectors\<close>

definition MaxBatchSize :: nat where "MaxBatchSize = 1024"

definition init_all :: "nat \<Rightarrow> u16 list" where
  "init_all n = map of_nat [0..<min n MaxBatchSize]"

record ColumnBatch =
  batch_size :: nat
  b_exchange_ts_ns :: "u64 list"
  b_receive_ts_ns :: "u64 list"
  b_sequence :: "u64 list"
  b_instrument_id :: "u32 list"
  b_event_type :: "u8 list"
  b_side :: "u8 list"
  b_flags :: "u16 list"
  b_price_ticks :: "i64 list"
  b_quantity :: "u32 list"
  b_venue_id :: "u16 list"
  b_source_id :: "u16 list"
  b_trade_or_order_id :: "u64 list"

text \<open>The loop that stores the values of a column into the front of its array.\<close>

definition load_column :: "(CanonicalEvent \<Rightarrow> 'a) \<Rightarrow> CanonicalEvent list \<Rightarrow> 'a list \<Rightarrow> 'a list" where
  "load_column f es old = map f es @ drop (length es) old"

definition load_batch_from_events :: "CanonicalEvent list \<Rightarrow> nat \<Rightarrow> nat \<Rightarrow> ColumnBatch \<Rightarrow> ColumnBatch" where
  "load_batch_from_events events start_row count b =
     (let es = take count (drop start_row events) in
      \<lparr>batch_size = count,
       b_exchange_ts_ns = load_column exchange_ts_ns es (b_exchange_ts_ns b),
       b_receive_ts_ns = load_column receive_ts_ns es (b_receive_ts_ns b),
       b_sequence = load_column sequence es (b_sequence b),
       b_instrument_id = load_column instrument_id es (b_instrument_id b),
       b_event_type = load_column event_type es (b_event_type b),
       b_side = load_column side es (b_side b),
       b_flags = load_column flags es (b_flags b),
       b_price_ticks = load_column price_ticks es (b_price_ticks b),
       b_quantity = load_column quantity es (b_quantity b),
       b_venue_id = load_column venue_id es (b_venue_id b),
       b_source_id = load_column source_id es (b_source_id b),
       b_trade_or_order_id = load_column trade_or_order_id es (b_trade_or_order_id b)\<rparr>)"

section \<open>Kernels\<close>

abbreviation at :: "'a list \<Rightarrow> u16 \<Rightarrow> 'a" where
  "at data idx \<equiv> data ! unat idx"

fun select_loop :: "(u16 \<Rightarrow> bool) \<Rightarrow> u16 list \<Rightarrow> u16 list" where
  "select_loop P [] = []"
| "select_loop P (idx # sel) = (if P idx then idx # select_loop P sel else select_loop P sel)"

definition filter_gt_i64 :: "i64 list \<Rightarrow> i64 \<Rightarrow> u16 list \<Rightarrow> u16 list" where
  "filter_gt_i64 data threshold in_sel = select_loop (\<lambda>idx. sint threshold < sint (at data idx)) in_sel"

definition filter_lt_i64 :: "i64 list \<Rightarrow> i64 \<Rightarrow> u16 list \<Rightarrow> u16 list" where
  "filter_lt_i64 data threshold in_sel = select_loop (\<lambda>idx. sint (at data idx) < sint threshold) in_sel"

definition filter_eq_u32 :: "u32 list \<Rightarrow> u32 \<Rightarrow> u16 list \<Rightarrow> u16 list" where
  "filter_eq_u32 data val in_sel = select_loop (\<lambda>idx. at data idx = val) in_sel"

definition filter_eq_u16 :: "u16 list \<Rightarrow> u16 \<Rightarrow> u16 list \<Rightarrow> u16 list" where
  "filter_eq_u16 data val in_sel = select_loop (\<lambda>idx. at data idx = val) in_sel"

definition filter_eq_u8 :: "u8 list \<Rightarrow> u8 \<Rightarrow> u16 list \<Rightarrow> u16 list" where
  "filter_eq_u8 data val in_sel = select_loop (\<lambda>idx. at data idx = val) in_sel"

text \<open>
  The loop adds the values one after the other. The addition is signed and must stay in the range of
  the type (\<open>add_i64\<close>): an overflow is undefined behaviour.
\<close>

fun sum_loop :: "i64 list \<Rightarrow> i64 \<Rightarrow> i64 outcome" where
  "sum_loop [] acc = Ok acc"
| "sum_loop (x # xs) acc = obind (add_i64 acc x) (sum_loop xs)"

definition sum_i64 :: "i64 list \<Rightarrow> u16 list \<Rightarrow> i64 outcome" where
  "sum_i64 data sel = (if sel = [] then Ok 0 else sum_loop (map (at data) sel) 0)"

definition smaller_i64 :: "i64 \<Rightarrow> i64 \<Rightarrow> i64" where
  "smaller_i64 res x = (if sint x < sint res then x else res)"

definition larger_i64 :: "i64 \<Rightarrow> i64 \<Rightarrow> i64" where
  "larger_i64 res x = (if sint res < sint x then x else res)"

definition min_i64 :: "i64 list \<Rightarrow> u16 list \<Rightarrow> i64" where
  "min_i64 data sel = (case sel of [] \<Rightarrow> 0 | i # is \<Rightarrow> foldl (\<lambda>res idx. smaller_i64 res (at data idx)) (at data i) is)"

definition max_i64 :: "i64 list \<Rightarrow> u16 list \<Rightarrow> i64" where
  "max_i64 data sel = (case sel of [] \<Rightarrow> 0 | i # is \<Rightarrow> foldl (\<lambda>res idx. larger_i64 res (at data idx)) (at data i) is)"

definition sum_u32 :: "u32 list \<Rightarrow> u16 list \<Rightarrow> u64" where
  "sum_u32 data sel = foldl (\<lambda>total idx. total + ucast (at data idx)) 0 sel"

definition smaller_u32 :: "u32 \<Rightarrow> u32 \<Rightarrow> u32" where
  "smaller_u32 res x = (if x < res then x else res)"

definition larger_u32 :: "u32 \<Rightarrow> u32 \<Rightarrow> u32" where
  "larger_u32 res x = (if res < x then x else res)"

definition min_u32 :: "u32 list \<Rightarrow> u16 list \<Rightarrow> u32" where
  "min_u32 data sel = (case sel of [] \<Rightarrow> 0 | i # is \<Rightarrow> foldl (\<lambda>res idx. smaller_u32 res (at data idx)) (at data i) is)"

definition max_u32 :: "u32 list \<Rightarrow> u16 list \<Rightarrow> u32" where
  "max_u32 data sel = (case sel of [] \<Rightarrow> 0 | i # is \<Rightarrow> foldl (\<lambda>res idx. larger_u32 res (at data idx)) (at data i) is)"

text \<open>
  The NEON variants of four kernels, for a null selection: whole vectors of two or four lanes, whose
  lanes are tested in order, and a scalar loop for the rest. The sum keeps two vectors of two lanes; the
  vector additions wrap around, the addition of the two lanes and the scalar loop must not overflow.
\<close>

function neon_select :: "nat \<Rightarrow> (nat \<Rightarrow> bool) \<Rightarrow> nat \<Rightarrow> nat \<Rightarrow> u16 list" where
  "neon_select lanes P i n =
     (if 0 < lanes \<and> i + lanes \<le> n
      then [of_nat k. k \<leftarrow> [i..<i + lanes], P k] @ neon_select lanes P (i + lanes) n
      else [of_nat k. k \<leftarrow> [i..<n], P k])"
  by pat_completeness auto
termination
  by (relation "measure (\<lambda>(lanes, P, i, n). n - i)") auto

declare neon_select.simps [simp del]

definition neon_filter_gt_i64 :: "i64 list \<Rightarrow> i64 \<Rightarrow> nat \<Rightarrow> u16 list" where
  "neon_filter_gt_i64 data threshold n = neon_select 2 (\<lambda>i. sint threshold < sint (data ! i)) 0 n"

definition neon_filter_lt_i64 :: "i64 list \<Rightarrow> i64 \<Rightarrow> nat \<Rightarrow> u16 list" where
  "neon_filter_lt_i64 data threshold n = neon_select 2 (\<lambda>i. sint (data ! i) < sint threshold) 0 n"

definition neon_filter_eq_u32 :: "u32 list \<Rightarrow> u32 \<Rightarrow> nat \<Rightarrow> u16 list" where
  "neon_filter_eq_u32 data val n = neon_select 4 (\<lambda>i. data ! i = val) 0 n"

function neon_sum_loop :: "i64 list \<Rightarrow> nat \<Rightarrow> nat \<Rightarrow> (i64 \<times> i64) \<times> (i64 \<times> i64) \<Rightarrow> i64 outcome" where
  "neon_sum_loop data i n ((a, b), (c, d)) =
     (if i + 4 \<le> n
      then neon_sum_loop data (i + 4) n ((a + data ! i, b + data ! (i + 1)), (c + data ! (i + 2), d + data ! (i + 3)))
      else obind (add_i64 (a + c) (b + d)) (sum_loop (map ((!) data) [i..<n])))"
  by pat_completeness auto
termination
  by (relation "measure (\<lambda>(data, i, n, v). n - i)") auto

declare neon_sum_loop.simps [simp del]

definition neon_sum_i64 :: "i64 list \<Rightarrow> nat \<Rightarrow> i64 outcome" where
  "neon_sum_i64 data n = (if n = 0 then Ok 0 else neon_sum_loop data 0 n ((0, 0), (0, 0)))"

lemma neon_select_eq: "neon_select lanes P i n = [of_nat k. k \<leftarrow> [i..<n], P k]"
proof (induction lanes P i n rule: neon_select.induct)
  case (1 lanes P i n)
  show ?case
  proof (cases "0 < lanes \<and> i + lanes \<le> n")
    case True
    then have "[i..<n] = [i..<i + lanes] @ [i + lanes..<n]"
      using upt_add_eq_append [of i "i + lanes" "n - (i + lanes)"] by simp
    then show ?thesis using 1 True by (subst neon_select.simps) simp
  qed (subst neon_select.simps, auto)
qed

lemma unat_index: "i \<le> 65535 \<Longrightarrow> unat (of_nat i :: u16) = i"
  by (simp add: unat_of_nat)

lemma select_loop_map: "select_loop Q (map f xs) = [f x. x \<leftarrow> xs, Q (f x)]"
  by (induction xs) auto

lemma neon_select_dense:
  assumes "n \<le> MaxBatchSize" "\<And>i. i < n \<Longrightarrow> P i = Q (of_nat i)"
  shows "neon_select lanes P 0 n = select_loop Q (init_all n)"
  using assms by (auto simp: neon_select_eq init_all_def select_loop_map intro!: arg_cong [where f = concat])

text \<open>
  A sum that is returned is the sum over the integers, and it is returned when the magnitudes of the
  values add up to less than \<open>2 ^ 63\<close>, in whatever order they are added.
\<close>

definition magnitude :: "i64 list \<Rightarrow> int" where
  "magnitude xs = (\<Sum>x\<leftarrow>xs. \<bar>sint x\<bar>)"

lemma magnitude_simps [simp]:
  "magnitude [] = 0" "magnitude (x # xs) = \<bar>sint x\<bar> + magnitude xs" "magnitude (xs @ ys) = magnitude xs + magnitude ys"
  by (simp_all add: magnitude_def)

lemma magnitude_nonneg: "0 \<le> magnitude xs"
  by (induction xs) simp_all


lemma sint_add_in_range:
  fixes a b :: i64
  assumes "sint a + sint b \<in> {- (2 ^ 63)..<2 ^ 63}"
  shows "sint (a + b) = sint a + sint b"
proof -
  have "sint (a + b) = signed_take_bit 63 (sint a + sint b)"
    by (simp add: sint_word_ariths)
  also have "\<dots> = sint a + sint b"
    by (rule signed_take_bit_int_eq_self) (use assms in simp_all)
  finally show ?thesis .
qed

lemma sint_add_exact: "\<bar>sint a + sint b\<bar> < 2 ^ 63 \<Longrightarrow> sint (a + b) = sint a + sint b" for a b :: i64
  by (rule sint_add_in_range) (simp add: abs_less_iff)

lemma add_i64_Ok: "add_i64 a b = Ok s \<Longrightarrow> sint s = sint a + sint b"
  using sint_add_in_range [of a b] by (auto simp: add_i64_def split: if_splits)

lemma add_i64_exact:
  assumes "\<bar>sint a + sint b\<bar> < 2 ^ 63"
  shows "add_i64 a b = Ok (a + b)" "sint (a + b) = sint a + sint b"
  using assms sint_add_exact [OF assms] by (simp_all add: add_i64_def abs_less_iff)

lemma sum_loop_Ok: "sum_loop xs a = Ok s \<Longrightarrow> sint s = sint a + (\<Sum>x\<leftarrow>xs. sint x)"
  by (induction xs arbitrary: a) (auto simp: obind_eq_Ok dest: add_i64_Ok)

lemma sum_loop_exact:
  assumes "\<bar>sint a\<bar> + magnitude xs < 2 ^ 63"
  shows "\<exists>s. sum_loop xs a = Ok s \<and> sint s = sint a + (\<Sum>x\<leftarrow>xs. sint x)"
  using assms
proof (induction xs arbitrary: a)
  case (Cons x xs)
  have "\<bar>sint a + sint x\<bar> < 2 ^ 63"
    using Cons.prems magnitude_nonneg [of xs] by simp
  note add = add_i64_exact [OF this]
  have "\<bar>sint (a + x)\<bar> + magnitude xs < 2 ^ 63"
    using Cons.prems abs_triangle_ineq [of "sint a" "sint x"] by (simp add: add(2))
  from Cons.IH [OF this] show ?case by (simp add: add add.assoc)
qed simp

lemma neon_sum_loop_exact:
  assumes "\<bar>sint a\<bar> + \<bar>sint b\<bar> + \<bar>sint c\<bar> + \<bar>sint d\<bar> + magnitude (map ((!) data) [i..<n]) < 2 ^ 63"
  shows "\<exists>s. neon_sum_loop data i n ((a, b), (c, d)) = Ok s
    \<and> sint s = sint a + sint b + sint c + sint d + (\<Sum>k\<leftarrow>[i..<n]. sint (data ! k))"
  using assms
proof (induction "n - i" arbitrary: i a b c d rule: less_induct)
  case less
  let ?m = "\<lambda>i. magnitude (map ((!) data) [i..<n])"
  show ?case
  proof (cases "i + 4 \<le> n")
    case True
    then have u: "[i..<n] = i # (i + 1) # (i + 2) # (i + 3) # [i + 4..<n]"
      by (simp add: upt_conv_Cons numeral_eq_Suc)
    have lanes: "sint (a + data ! i) = sint a + sint (data ! i)" "sint (b + data ! (i + 1)) = sint b + sint (data ! (i + 1))"
      "sint (c + data ! (i + 2)) = sint c + sint (data ! (i + 2))" "sint (d + data ! (i + 3)) = sint d + sint (data ! (i + 3))"
      using less.prems u magnitude_nonneg [of "map ((!) data) [i + 4..<n]"] by (simp_all add: sint_add_exact)
    have mag: "\<bar>sint (a + data ! i)\<bar> + \<bar>sint (b + data ! (i + 1))\<bar> + \<bar>sint (c + data ! (i + 2))\<bar> + \<bar>sint (d + data ! (i + 3))\<bar>
        + ?m (i + 4) < 2 ^ 63"
      using less.prems abs_triangle_ineq [of "sint a" "sint (data ! i)"] abs_triangle_ineq [of "sint b" "sint (data ! (i + 1))"]
        abs_triangle_ineq [of "sint c" "sint (data ! (i + 2))"] abs_triangle_ineq [of "sint d" "sint (data ! (i + 3))"]
      unfolding lanes u list.map magnitude_simps by linarith
    have "n - (i + 4) < n - i" using True by linarith
    from less.hyps [OF this mag] show ?thesis
      unfolding lanes using True u by (subst neon_sum_loop.simps) (simp add: ac_simps)
  next
    case False
    have "0 \<le> ?m i" by (rule magnitude_nonneg)
    then have l: "sint (a + c) = sint a + sint c" "sint (b + d) = sint b + sint d"
      using less.prems by (simp_all add: sint_add_exact)
    have "\<bar>sint (a + c) + sint (b + d)\<bar> + ?m i < 2 ^ 63"
      using less.prems abs_triangle_ineq [of "sint a + sint c" "sint b + sint d"] abs_triangle_ineq [of "sint a" "sint c"]
        abs_triangle_ineq [of "sint b" "sint d"] unfolding l by linarith
    moreover from this have "\<bar>sint (a + c) + sint (b + d)\<bar> < 2 ^ 63" using \<open>0 \<le> ?m i\<close> by linarith
    note add = add_i64_exact [OF this]
    ultimately show ?thesis
      using sum_loop_exact [of "a + c + (b + d)" "map ((!) data) [i..<n]"] l False
      by (subst neon_sum_loop.simps) (auto simp: o_def add)
  qed
qed

text \<open>On the rows of a batch the NEON kernels and the portable ones agree.\<close>

lemma neon_filters_agree:
  assumes "n \<le> MaxBatchSize"
  shows "neon_filter_gt_i64 data t n = filter_gt_i64 data t (init_all n)"
    and "neon_filter_lt_i64 data t n = filter_lt_i64 data t (init_all n)"
    and "neon_filter_eq_u32 xs v n = filter_eq_u32 xs v (init_all n)"
  using assms unfolding neon_filter_gt_i64_def neon_filter_lt_i64_def neon_filter_eq_u32_def
    filter_gt_i64_def filter_lt_i64_def filter_eq_u32_def
  by (auto intro!: neon_select_dense simp: unat_index MaxBatchSize_def)

lemma neon_sum_agrees:
  assumes "n \<le> MaxBatchSize" "magnitude (map ((!) data) [0..<n]) < 2 ^ 63"
  shows "neon_sum_i64 data n = sum_i64 data (init_all n)"
proof -
  have sel: "map (at data) (init_all n) = map ((!) data) [0..<n]"
    using assms(1) by (auto simp: init_all_def unat_index MaxBatchSize_def)
  obtain s where s: "sum_loop (map ((!) data) [0..<n]) 0 = Ok s" "sint s = (\<Sum>k\<leftarrow>[0..<n]. sint (data ! k))"
    using sum_loop_exact [of 0 "map ((!) data) [0..<n]"] assms(2) by (auto simp: o_def)
  obtain t where t: "neon_sum_loop data 0 n ((0, 0), (0, 0)) = Ok t" "sint t = (\<Sum>k\<leftarrow>[0..<n]. sint (data ! k))"
    using neon_sum_loop_exact [of 0 0 0 0 data 0 n] assms(2) by auto
  have "s = t" using s(2) t(2) by (metis signed_word_eqI)
  moreover have "length (init_all n) = n" using assms(1) by (simp add: init_all_def)
  ultimately show ?thesis using s(1) t(1) by (auto simp: neon_sum_i64_def sum_i64_def sel simp flip: length_0_conv)
qed

text \<open>Two prices whose sum leaves the range are undefined behaviour.\<close>

lemma sum_i64_overflow: "sum_i64 [0x7FFFFFFFFFFFFFFF, 1] [0, 1] = Fault"
  by (simp add: sum_i64_def add_i64_def)

section \<open>Filters\<close>

text \<open>The tests of \<^verbatim>\<open>evaluate_filter\<close> for the operators that have no kernel; any other operator matches nothing.\<close>

definition price_test :: "TokenType \<Rightarrow> i64 \<Rightarrow> i64 \<Rightarrow> bool" where
  "price_test op lit x =
     (if op = Tok_Equal then x = lit else if op = Tok_NotEqual then x \<noteq> lit
      else if op = Tok_GreaterEqual then sint lit \<le> sint x else if op = Tok_LessEqual then sint x \<le> sint lit else False)"

definition instrument_test :: "TokenType \<Rightarrow> u32 \<Rightarrow> u32 \<Rightarrow> bool" where
  "instrument_test op target x =
     (if op = Tok_NotEqual then x \<noteq> target else if op = Tok_Greater then target < x
      else if op = Tok_Less then x < target else False)"

definition quantity_test :: "TokenType \<Rightarrow> u32 \<Rightarrow> u32 \<Rightarrow> bool" where
  "quantity_test op target x =
     (if op = Tok_Equal then x = target else if op = Tok_NotEqual then x \<noteq> target
      else if op = Tok_Greater then target < x else if op = Tok_GreaterEqual then target \<le> x
      else if op = Tok_Less then x < target else if op = Tok_LessEqual then x \<le> target else False)"

definition evaluate_filter :: "ColumnBatch \<Rightarrow> Expression option \<Rightarrow> u16 list \<Rightarrow> u16 list" where
  "evaluate_filter b filter_expr in_sel =
     (case filter_expr of
        Some (BinaryOpExpr op (ColumnRefExpr col _ _) (LiteralExpr lit_int _ _) _ _) \<Rightarrow>
          if col = ''price_ticks'' then
            (if op = Tok_Greater then filter_gt_i64 (b_price_ticks b) lit_int in_sel
             else if op = Tok_Less then filter_lt_i64 (b_price_ticks b) lit_int in_sel
             else select_loop (\<lambda>idx. price_test op lit_int (at (b_price_ticks b) idx)) in_sel)
          else if col = ''instrument_id'' then
            (let target = ucast lit_int in
             if op = Tok_Equal then filter_eq_u32 (b_instrument_id b) target in_sel
             else select_loop (\<lambda>idx. instrument_test op target (at (b_instrument_id b) idx)) in_sel)
          else if col = ''quantity'' then
            (let target = ucast lit_int in
             select_loop (\<lambda>idx. quantity_test op target (at (b_quantity b) idx)) in_sel)
          else if col = ''venue_id'' then filter_eq_u16 (b_venue_id b) (ucast lit_int) in_sel
          else in_sel
      | _ \<Rightarrow> in_sel)"

section \<open>Execution\<close>

record QueryResult =
  result_columns :: "string list"
  result_rows :: "string list list"
  rows_scanned :: nat
  rows_matched :: nat

text \<open>\<^verbatim>\<open>std::to_string\<close> of an unsigned and of a signed integer.\<close>

definition to_string_u :: "'a::len word \<Rightarrow> string" where
  "to_string_u w = digits (unat w)"

definition to_string_i :: "i64 \<Rightarrow> string" where
  "to_string_i w = (if sint w < 0 then CHR ''-'' # digits (nat (- sint w)) else digits (nat (sint w)))"

definition is_call :: "SelectItem \<Rightarrow> bool" where
  "is_call p \<longleftrightarrow> (case item_expr p of Some (FunctionCallExpr _ _ _ _) \<Rightarrow> True | _ \<Rightarrow> False)"

definition column_title :: "SelectItem \<Rightarrow> string" where
  "column_title p =
     (if item_alias p \<noteq> [] then item_alias p
      else if is_wildcard p then ''*''
      else case item_expr p of
          Some (ColumnRefExpr nm _ _) \<Rightarrow> nm
        | Some (FunctionCallExpr nm _ _ _) \<Rightarrow> nm @ ''()''
        | _ \<Rightarrow> ''col'')"

definition project_item :: "ColumnBatch \<Rightarrow> u16 \<Rightarrow> SelectItem \<Rightarrow> string list" where
  "project_item b idx p =
     (case item_expr p of
        Some (ColumnRefExpr nm _ _) \<Rightarrow>
          [if nm = ''instrument_id'' then to_string_u (at (b_instrument_id b) idx)
           else if nm = ''price_ticks'' then to_string_i (at (b_price_ticks b) idx)
           else if nm = ''quantity'' then to_string_u (at (b_quantity b) idx)
           else if nm = ''sequence'' then to_string_u (at (b_sequence b) idx)
           else if nm = ''exchange_ts_ns'' then to_string_u (at (b_exchange_ts_ns b) idx)
           else if nm = ''receive_ts_ns'' then to_string_u (at (b_receive_ts_ns b) idx)
           else if nm = ''venue_id'' then to_string_u (at (b_venue_id b) idx)
           else if nm = ''source_id'' then to_string_u (at (b_source_id b) idx)
           else if nm = ''trade_or_order_id'' then to_string_u (at (b_trade_or_order_id b) idx)
           else ''0'']
      | _ \<Rightarrow>
          if is_wildcard p
          then [to_string_u (at (b_sequence b) idx), to_string_u (at (b_instrument_id b) idx),
                to_string_i (at (b_price_ticks b) idx), to_string_u (at (b_quantity b) idx)]
          else [''0''])"

definition limit_reached :: "u64 \<Rightarrow> string list list \<Rightarrow> bool" where
  "limit_reached limit rs \<longleftrightarrow> 0 < limit \<and> unat limit \<le> length rs"

fun collect_rows :: "SelectItem list \<Rightarrow> u64 \<Rightarrow> ColumnBatch \<Rightarrow> u16 list \<Rightarrow> string list list \<Rightarrow> string list list" where
  "collect_rows items limit b [] rs = rs"
| "collect_rows items limit b (idx # sel) rs =
     (let rs = rs @ [concat (map (project_item b idx) items)] in
      if limit_reached limit rs then rs else collect_rows items limit b sel rs)"

record ExecState =
  st_batch :: ColumnBatch
  st_rows :: "string list list"
  st_matched :: nat
  agg_count :: nat
  agg_sum_price :: i64
  agg_min_price :: i64
  agg_max_price :: i64
  agg_sum_qty :: u64
  agg_min_qty :: u32
  agg_max_qty :: u32

definition ExecState_init :: "ColumnBatch \<Rightarrow> ExecState" where
  "ExecState_init b = \<lparr>st_batch = b, st_rows = [], st_matched = 0, agg_count = 0, agg_sum_price = 0,
     agg_min_price = 0x7FFFFFFFFFFFFFFF, agg_max_price = - 0x7FFFFFFFFFFFFFFF,
     agg_sum_qty = 0, agg_min_qty = 0xFFFFFFFF, agg_max_qty = 0\<rparr>"

definition aggregate_batch :: "ColumnBatch \<Rightarrow> u16 list \<Rightarrow> ExecState \<Rightarrow> ExecState outcome" where
  "aggregate_batch b out_sel st =
     (let st = st\<lparr>agg_count := agg_count st + length out_sel\<rparr> in
      if out_sel = [] then Ok st
      else obind (sum_i64 (b_price_ticks b) out_sel) (\<lambda>batch_sum.
        obind (add_i64 (agg_sum_price st) batch_sum) (\<lambda>new_sum.
        Ok (st\<lparr>agg_sum_price := new_sum,
              agg_min_price := smaller_i64 (agg_min_price st) (min_i64 (b_price_ticks b) out_sel),
              agg_max_price := larger_i64 (agg_max_price st) (max_i64 (b_price_ticks b) out_sel),
              agg_sum_qty := agg_sum_qty st + sum_u32 (b_quantity b) out_sel,
              agg_min_qty := smaller_u32 (agg_min_qty st) (min_u32 (b_quantity b) out_sel),
              agg_max_qty := larger_u32 (agg_max_qty st) (max_u32 (b_quantity b) out_sel)\<rparr>))))"

function exec_loop :: "CanonicalEvent list \<Rightarrow> QueryStmt \<Rightarrow> bool \<Rightarrow> nat \<Rightarrow> ExecState \<Rightarrow> ExecState outcome" where
  "exec_loop events q has_aggregates row_offset st =
     (if row_offset < length events then
        (let cur_batch_size = min MaxBatchSize (length events - row_offset);
             b = load_batch_from_events events row_offset cur_batch_size (st_batch st);
             in_sel = init_all cur_batch_size;
             out_sel = (if where_expr q \<noteq> None then evaluate_filter b (where_expr q) in_sel else in_sel);
             st = st\<lparr>st_batch := b, st_matched := st_matched st + length out_sel\<rparr> in
         if has_aggregates then
           obind (aggregate_batch b out_sel st) (exec_loop events q has_aggregates (row_offset + cur_batch_size))
         else
           (let st = st\<lparr>st_rows := collect_rows (projections q) (query_limit q) b out_sel (st_rows st)\<rparr> in
            if limit_reached (query_limit q) (st_rows st) then Ok st
            else exec_loop events q has_aggregates (row_offset + cur_batch_size) st))
      else Ok st)"
  by pat_completeness auto
termination
  by (relation "measure (\<lambda>(events, q, h, off, st). length events - off)") (auto simp: MaxBatchSize_def)

declare exec_loop.simps [simp del]

text \<open>
  The row of the aggregates. The average of prices divides a signed sum by an unsigned count, which
  the language converts to an unsigned division.
\<close>

definition aggregate_item :: "ExecState \<Rightarrow> SelectItem \<Rightarrow> string" where
  "aggregate_item st p =
     (case item_expr p of
        Some (FunctionCallExpr name args _ _) \<Rightarrow>
          (let fn = map toupper name;
               arg = (case args of ColumnRefExpr nm _ _ # _ \<Rightarrow> nm | _ \<Rightarrow> []) in
           if fn = ''COUNT'' then digits (agg_count st)
           else if fn = ''SUM'' then
             (if arg = ''quantity'' then to_string_u (agg_sum_qty st) else to_string_i (agg_sum_price st))
           else if fn = ''MIN'' then
             (if arg = ''quantity'' then to_string_u (if 0 < agg_count st then agg_min_qty st else 0)
              else to_string_i (if 0 < agg_count st then agg_min_price st else 0))
           else if fn = ''MAX'' then
             (if arg = ''quantity'' then to_string_u (if 0 < agg_count st then agg_max_qty st else 0)
              else to_string_i (if 0 < agg_count st then agg_max_price st else 0))
           else if fn = ''AVG'' then
             (if agg_count st = 0 then ''0''
              else if arg = ''quantity'' then to_string_u (agg_sum_qty st div of_nat (agg_count st))
              else to_string_u (agg_sum_price st div of_nat (agg_count st)))
           else ''0'')
      | _ \<Rightarrow> ''0'')"

definition execute_events :: "ColumnBatch \<Rightarrow> CanonicalEvent list \<Rightarrow> QueryStmt \<Rightarrow> QueryResult outcome" where
  "execute_events b0 events q =
     (let has_aggregates = (\<exists>p\<in>set (projections q). is_call p) in
      obind (exec_loop events q has_aggregates 0 (ExecState_init b0)) (\<lambda>st.
      Ok \<lparr>result_columns = map column_title (projections q),
          result_rows = (if has_aggregates then st_rows st @ [map (aggregate_item st) (projections q)] else st_rows st),
          rows_scanned = length events, rows_matched = st_matched st\<rparr>))"

definition execute :: "ColumnBatch \<Rightarrow> SegmentReader \<Rightarrow> QueryStmt \<Rightarrow> QueryResult outcome" where
  "execute b0 r q =
     (if \<not> r_open r then Err InvalidArgument
      else obind (read_all_events r) (\<lambda>events. execute_events b0 events q))"

section \<open>Row-at-a-time reference\<close>







section \<open>Batches hold the rows they were loaded from\<close>





lemma select_loop_filter: "select_loop P sel = filter P sel"
  by (induction sel) auto









section \<open>Rows\<close>











section \<open>Aggregates\<close>










section \<open>The loop over the batches\<close>






section \<open>Equivalence with the reference\<close>


























section \<open>Where the executor departs from the query language\<close>

text \<open>The operator of a comparison with \<^verbatim>\<open>venue_id\<close> is ignored: every comparison is an equality.\<close>

lemma venue_filter_ignores_operator:
  "evaluate_filter b (Some (BinaryOpExpr op (ColumnRefExpr ''venue_id'' l1 c1) (LiteralExpr v l2 c2) l3 c3)) sel =
   evaluate_filter b (Some (BinaryOpExpr Tok_Equal (ColumnRefExpr ''venue_id'' l1 c1) (LiteralExpr v l2 c2) l3 c3)) sel"
  by (simp add: evaluate_filter_def)

text \<open>A comparison \<^verbatim>\<open>>=\<close> or \<^verbatim>\<open><=\<close> with \<^verbatim>\<open>instrument_id\<close> selects nothing.\<close>

lemma instrument_filter_misses_operators:
  assumes "op \<in> {Tok_GreaterEqual, Tok_LessEqual}"
  shows "evaluate_filter b (Some (BinaryOpExpr op (ColumnRefExpr ''instrument_id'' l1 c1) (LiteralExpr v l2 c2) l3 c3)) sel = []"
  using assms by (auto simp: evaluate_filter_def select_loop_filter instrument_test_def Let_def)

text \<open>An alias that the type checker resolves, such as \<^verbatim>\<open>price\<close>, is not a filter for the executor: it keeps every row.\<close>

lemma alias_filter_keeps_all:
  "evaluate_filter b (Some (BinaryOpExpr op (ColumnRefExpr ''price'' l1 c1) (LiteralExpr v l2 c2) l3 c3)) sel = sel"
  by (simp add: evaluate_filter_def)

text \<open>The average of a negative price is printed as a huge number.\<close>

lemma average_of_negative_price:
  "aggregate_item ((ExecState_init b0)\<lparr>agg_count := 1, agg_sum_price := - 7\<rparr>)
     \<lparr>item_expr = Some (FunctionCallExpr ''AVG'' [ColumnRefExpr ''price_ticks'' l1 c1] l2 c2), item_alias = [], is_wildcard = False\<rparr>
   = digits 18446744073709551609"
proof -
  have "map toupper ''AVG'' = ''AVG''"
    by code_simp
  then show ?thesis
    by (simp add: aggregate_item_def ExecState_init_def to_string_u_def toupper_def)
qed

end
