(* ===== verification/IR_Builder.thy ===== *)
theory IR_Builder
  imports Query_Types
begin

text \<open>
  The intermediate representation (\<^verbatim>\<open>ir/value.hpp\<close>, \<^verbatim>\<open>ir/opcode.hpp\<close>, \<^verbatim>\<open>ir/instruction.hpp\<close>,
  \<^verbatim>\<open>ir/basic_block.hpp\<close>, \<^verbatim>\<open>ir/function.hpp\<close>) and the builder that lowers a query to it
  (\<^verbatim>\<open>ir/builder.cpp\<close>). A function owns its blocks, so a pointer to a block is its index in the function;
  the pointers back to the owner are left out. An instruction of a subclass carries the fields of the
  subclass as its extra part, and a cast to the wrong subclass is a fault. A builder is modelled from
  \<^verbatim>\<open>create_function\<close> or \<^verbatim>\<open>build_from_query\<close> on: before, its pointers are null and no operation may be called.
\<close>

section \<open>Types, constants and opcodes\<close>

type_synonym ValueId = u32

datatype ir_type = Ty_Void | Ty_I1 | Ty_I8 | Ty_I16 | Ty_I32 | Ty_I64 | Ty_U8 | Ty_U16 | Ty_U32 | Ty_U64 | Ty_Vector

datatype const_value = CI64 i64 | CU64 u64 | CU32 u32 | CU16 u16 | CU8 u8 | CBool bool

record Constant =
  const_type :: ir_type
  const_val :: const_value

definition i64_const :: "i64 \<Rightarrow> Constant" where
  "i64_const v = \<lparr>const_type = Ty_I64, const_val = CI64 v\<rparr>"

definition u64_const :: "u64 \<Rightarrow> Constant" where
  "u64_const v = \<lparr>const_type = Ty_U64, const_val = CU64 v\<rparr>"

definition u32_const :: "u32 \<Rightarrow> Constant" where
  "u32_const v = \<lparr>const_type = Ty_U32, const_val = CU32 v\<rparr>"

definition bool_const :: "bool \<Rightarrow> Constant" where
  "bool_const v = \<lparr>const_type = Ty_I1, const_val = CBool v\<rparr>"

definition as_u64 :: "Constant \<Rightarrow> u64" where
  "as_u64 c = (case const_val c of CI64 v \<Rightarrow> v | CU64 v \<Rightarrow> v | CU32 v \<Rightarrow> ucast v | CU16 v \<Rightarrow> ucast v
     | CU8 v \<Rightarrow> ucast v | CBool v \<Rightarrow> if v then 1 else 0)"

definition get_u32 :: "Constant \<Rightarrow> u32" where
  "get_u32 c = ucast (as_u64 c)"

definition get_bool :: "Constant \<Rightarrow> bool" where
  "get_bool c \<longleftrightarrow> as_u64 c \<noteq> 0"

datatype Opcode = Op_Nop | Op_Jump | Op_Branch | Op_Return
  | Op_ConstI64 | Op_ConstU64 | Op_ConstU32 | Op_ConstBool
  | Op_LoadColumn | Op_LoadSelection
  | Op_AddI64 | Op_SubI64 | Op_MulI64 | Op_DivI64 | Op_ModI64
  | Op_AddU64 | Op_SubU64 | Op_MulU64 | Op_DivU64 | Op_ModU64
  | Op_NegI64
  | Op_EqI64 | Op_NeI64 | Op_LtI64 | Op_LeI64 | Op_GtI64 | Op_GeI64
  | Op_EqU64 | Op_NeU64 | Op_LtU64 | Op_LeU64 | Op_GtU64 | Op_GeU64
  | Op_And | Op_Or | Op_Not
  | Op_BitAnd | Op_BitOr | Op_BitXor | Op_BitNot | Op_Shl | Op_Shr
  | Op_Select
  | Op_ExtendI32ToI64 | Op_ExtendU32ToU64 | Op_TruncI64ToI32
  | Op_Count | Op_SumI64 | Op_SumU64 | Op_MinI64 | Op_MaxI64 | Op_MinU64 | Op_MaxU64
  | Op_VectorLoad | Op_VectorFilter | Op_VectorProject
  | Op_BatchCount | Op_BatchSum | Op_BatchMin | Op_BatchMax

text \<open>The enumerators in order, from which the classes of opcodes are intervals.\<close>

definition opcodes :: "Opcode list" where
  "opcodes = [Op_Nop, Op_Jump, Op_Branch, Op_Return, Op_ConstI64, Op_ConstU64, Op_ConstU32, Op_ConstBool,
     Op_LoadColumn, Op_LoadSelection, Op_AddI64, Op_SubI64, Op_MulI64, Op_DivI64, Op_ModI64,
     Op_AddU64, Op_SubU64, Op_MulU64, Op_DivU64, Op_ModU64, Op_NegI64,
     Op_EqI64, Op_NeI64, Op_LtI64, Op_LeI64, Op_GtI64, Op_GeI64, Op_EqU64, Op_NeU64, Op_LtU64, Op_LeU64, Op_GtU64, Op_GeU64,
     Op_And, Op_Or, Op_Not, Op_BitAnd, Op_BitOr, Op_BitXor, Op_BitNot, Op_Shl, Op_Shr, Op_Select,
     Op_ExtendI32ToI64, Op_ExtendU32ToU64, Op_TruncI64ToI32,
     Op_Count, Op_SumI64, Op_SumU64, Op_MinI64, Op_MaxI64, Op_MinU64, Op_MaxU64,
     Op_VectorLoad, Op_VectorFilter, Op_VectorProject, Op_BatchCount, Op_BatchSum, Op_BatchMin, Op_BatchMax]"

definition opcode_number :: "Opcode \<Rightarrow> nat" where
  "opcode_number op = index_of op opcodes"

definition is_comparison :: "Opcode \<Rightarrow> bool" where
  "is_comparison op \<longleftrightarrow> opcode_number Op_EqI64 \<le> opcode_number op \<and> opcode_number op \<le> opcode_number Op_GeU64"

definition is_arithmetic :: "Opcode \<Rightarrow> bool" where
  "is_arithmetic op \<longleftrightarrow> opcode_number Op_AddI64 \<le> opcode_number op \<and> opcode_number op \<le> opcode_number Op_NegI64"

definition is_aggregate :: "Opcode \<Rightarrow> bool" where
  "is_aggregate op \<longleftrightarrow> opcode_number Op_Count \<le> opcode_number op \<and> opcode_number op \<le> opcode_number Op_MaxU64"

definition is_vector :: "Opcode \<Rightarrow> bool" where
  "is_vector op \<longleftrightarrow> opcode_number Op_VectorLoad \<le> opcode_number op \<and> opcode_number op \<le> opcode_number Op_VectorProject"

section \<open>Instructions, blocks and functions\<close>

datatype instr_extra = NoExtra | ConstExtra Constant | ColumnExtra u32 | BranchExtra nat nat | JumpExtra nat

record Instruction =
  opcode :: Opcode
  operands :: "ValueId list"
  instr_result :: ValueId
  result_type :: ir_type
  extra :: instr_extra
  instr_id :: nat

definition Instruction_new :: "Opcode \<Rightarrow> ValueId list \<Rightarrow> ValueId \<Rightarrow> ir_type \<Rightarrow> instr_extra \<Rightarrow> Instruction" where
  "Instruction_new op ops res ty ex =
     \<lparr>opcode = op, operands = ops, instr_result = res, result_type = ty, extra = ex, instr_id = 0\<rparr>"

definition has_result :: "Instruction \<Rightarrow> bool" where
  "has_result i \<longleftrightarrow> instr_result i \<noteq> 0"

definition is_terminator :: "Instruction \<Rightarrow> bool" where
  "is_terminator i \<longleftrightarrow> opcode i \<in> {Op_Return, Op_Jump, Op_Branch}"

definition is_branch :: "Instruction \<Rightarrow> bool" where
  "is_branch i \<longleftrightarrow> opcode i \<in> {Op_Jump, Op_Branch}"

definition is_load :: "Instruction \<Rightarrow> bool" where
  "is_load i \<longleftrightarrow> opcode i \<in> {Op_LoadColumn, Op_LoadSelection}"

definition BinaryOp :: "Opcode \<Rightarrow> ValueId \<Rightarrow> ValueId \<Rightarrow> ValueId \<Rightarrow> ir_type \<Rightarrow> Instruction" where
  "BinaryOp op l r res ty = Instruction_new op [l, r] res ty NoExtra"

definition UnaryOp :: "Opcode \<Rightarrow> ValueId \<Rightarrow> ValueId \<Rightarrow> ir_type \<Rightarrow> Instruction" where
  "UnaryOp op x res ty = Instruction_new op [x] res ty NoExtra"

definition CompareOp :: "Opcode \<Rightarrow> ValueId \<Rightarrow> ValueId \<Rightarrow> ValueId \<Rightarrow> Instruction" where
  "CompareOp op l r res = Instruction_new op [l, r] res Ty_I1 NoExtra"

definition LoadColumnOp :: "u32 \<Rightarrow> ValueId \<Rightarrow> ValueId \<Rightarrow> ir_type \<Rightarrow> Instruction" where
  "LoadColumnOp column_id row_idx res ty = Instruction_new Op_LoadColumn [row_idx] res ty (ColumnExtra column_id)"

definition choose_opcode :: "ir_type \<Rightarrow> Opcode" where
  "choose_opcode t = (case t of Ty_I64 \<Rightarrow> Op_ConstI64 | Ty_U32 \<Rightarrow> Op_ConstU32 | Ty_I1 \<Rightarrow> Op_ConstBool | _ \<Rightarrow> Op_ConstU64)"

definition ConstOp :: "Constant \<Rightarrow> ValueId \<Rightarrow> Instruction" where
  "ConstOp c res = Instruction_new (choose_opcode (const_type c)) [] res (const_type c) (ConstExtra c)"

definition BranchOp :: "ValueId \<Rightarrow> nat \<Rightarrow> nat \<Rightarrow> Instruction" where
  "BranchOp c t f = Instruction_new Op_Branch [c] 0 Ty_Void (BranchExtra t f)"

definition JumpOp :: "nat \<Rightarrow> Instruction" where
  "JumpOp t = Instruction_new Op_Jump [] 0 Ty_Void (JumpExtra t)"

definition ReturnOp :: "ValueId \<Rightarrow> Instruction" where
  "ReturnOp v = Instruction_new Op_Return (if v \<noteq> 0 then [v] else []) 0 Ty_Void NoExtra"

definition AggregateOp :: "Opcode \<Rightarrow> ValueId \<Rightarrow> ValueId \<Rightarrow> ir_type \<Rightarrow> Instruction" where
  "AggregateOp op x res ty = Instruction_new op [x] res ty NoExtra"

definition SelectOp :: "ValueId \<Rightarrow> ValueId \<Rightarrow> ValueId \<Rightarrow> ValueId \<Rightarrow> ir_type \<Rightarrow> Instruction" where
  "SelectOp c t f res ty = Instruction_new Op_Select [c, t, f] res ty NoExtra"

record BasicBlock =
  block_name :: string
  instructions :: "Instruction list"
  predecessors :: "nat list"
  successors :: "nat list"
  block_id :: nat
  instruction_id_counter :: nat

definition BasicBlock_new :: "string \<Rightarrow> BasicBlock" where
  "BasicBlock_new nm = \<lparr>block_name = nm, instructions = [], predecessors = [], successors = [], block_id = 0,
     instruction_id_counter = 0\<rparr>"

definition block_append :: "Instruction \<Rightarrow> BasicBlock \<Rightarrow> BasicBlock" where
  "block_append i b = b\<lparr>instructions := instructions b @ [i\<lparr>instr_id := instruction_id_counter b\<rparr>],
     instruction_id_counter := instruction_id_counter b + 1\<rparr>"

definition has_terminator :: "BasicBlock \<Rightarrow> bool" where
  "has_terminator b \<longleftrightarrow> instructions b \<noteq> [] \<and> is_terminator (last (instructions b))"

definition terminator :: "BasicBlock \<Rightarrow> Instruction option" where
  "terminator b = (if has_terminator b then Some (last (instructions b)) else None)"

definition add_predecessor :: "nat \<Rightarrow> BasicBlock \<Rightarrow> BasicBlock" where
  "add_predecessor p b = b\<lparr>predecessors := predecessors b @ [p]\<rparr>"

definition add_successor :: "nat \<Rightarrow> BasicBlock \<Rightarrow> BasicBlock" where
  "add_successor s b = b\<lparr>successors := successors b @ [s]\<rparr>"

record ir_value =
  val_id :: ValueId
  val_type :: ir_type
  val_name :: string

record ir_function =
  fn_name :: string
  blocks :: "BasicBlock list"
  fn_values :: "ValueId \<Rightarrow> ir_value option"
  parameters :: "ValueId list"
  return_type :: ir_type
  next_value_id :: ValueId
  block_id_counter :: nat
  entry_block :: "nat option"
  exit_block :: "nat option"

definition Function_new :: "string \<Rightarrow> ir_function" where
  "Function_new nm = \<lparr>fn_name = nm, blocks = [], fn_values = Map.empty, parameters = [], return_type = Ty_Void,
     next_value_id = 1, block_id_counter = 0, entry_block = None, exit_block = None\<rparr>"

definition fn_create_block :: "string \<Rightarrow> ir_function \<Rightarrow> nat \<times> ir_function" where
  "fn_create_block nm f =
     (let b = (BasicBlock_new nm)\<lparr>block_id := block_id_counter f\<rparr> in
      (length (blocks f),
       f\<lparr>block_id_counter := block_id_counter f + 1,
         entry_block := (if blocks f = [] then Some 0 else entry_block f),
         blocks := blocks f @ [b]\<rparr>))"

definition create_value :: "ir_type \<Rightarrow> string \<Rightarrow> ir_function \<Rightarrow> ValueId \<times> ir_function" where
  "create_value ty nm f =
     (let i = next_value_id f in
      (i, f\<lparr>next_value_id := i + 1, fn_values := (fn_values f)(i \<mapsto> \<lparr>val_id = i, val_type = ty, val_name = nm\<rparr>)\<rparr>))"

definition add_parameter :: "ValueId \<Rightarrow> ir_function \<Rightarrow> ir_function" where
  "add_parameter p f = f\<lparr>parameters := parameters f @ [p]\<rparr>"

definition fn_num_instructions :: "ir_function \<Rightarrow> nat" where
  "fn_num_instructions f = foldl (\<lambda>count b. count + length (instructions b)) 0 (blocks f)"

section \<open>The builder\<close>

record Builder =
  bd_function :: ir_function
  current_block :: nat
  next_temp :: u32

definition create_function :: "string \<Rightarrow> Builder" where
  "create_function nm =
     (let (b, f) = fn_create_block ''entry'' (Function_new nm) in \<lparr>bd_function = f, current_block = b, next_temp = 1\<rparr>)"

definition create_block :: "string \<Rightarrow> Builder \<Rightarrow> nat \<times> Builder" where
  "create_block nm b = (let (i, f) = fn_create_block nm (bd_function b) in (i, b\<lparr>bd_function := f\<rparr>))"

definition set_insertion_point :: "nat \<Rightarrow> Builder \<Rightarrow> Builder" where
  "set_insertion_point i b = b\<lparr>current_block := i\<rparr>"

text \<open>\<^verbatim>\<open>current_block_->append\<close>, and the pattern that every operation with a result follows.\<close>

definition append_instr :: "Instruction \<Rightarrow> Builder \<Rightarrow> Builder" where
  "append_instr i b =
     (let f = bd_function b; k = current_block b in
      b\<lparr>bd_function := f\<lparr>blocks := (blocks f)[k := block_append i (blocks f ! k)]\<rparr>\<rparr>)"

definition emit :: "ir_type \<Rightarrow> string \<Rightarrow> (ValueId \<Rightarrow> Instruction) \<Rightarrow> Builder \<Rightarrow> ValueId \<times> Builder" where
  "emit ty nm mk b =
     (let (res, f) = create_value ty nm (bd_function b) in (res, append_instr (mk res) (b\<lparr>bd_function := f\<rparr>)))"

definition create_const_i64 :: "i64 \<Rightarrow> Builder \<Rightarrow> ValueId \<times> Builder" where
  "create_const_i64 v = emit Ty_I64 ''const'' (ConstOp (i64_const v))"

definition create_const_u64 :: "u64 \<Rightarrow> Builder \<Rightarrow> ValueId \<times> Builder" where
  "create_const_u64 v = emit Ty_U64 ''const'' (ConstOp (u64_const v))"

definition create_const_u32 :: "u32 \<Rightarrow> Builder \<Rightarrow> ValueId \<times> Builder" where
  "create_const_u32 v = emit Ty_U32 ''const'' (ConstOp (u32_const v))"

definition create_const_bool :: "bool \<Rightarrow> Builder \<Rightarrow> ValueId \<times> Builder" where
  "create_const_bool v = emit Ty_I1 ''const'' (ConstOp (bool_const v))"

definition create_add :: "ValueId \<Rightarrow> ValueId \<Rightarrow> ir_type \<Rightarrow> Builder \<Rightarrow> ValueId \<times> Builder" where
  "create_add l r ty = emit ty ''add'' (\<lambda>res. BinaryOp (if ty = Ty_I64 then Op_AddI64 else Op_AddU64) l r res ty)"

definition create_sub :: "ValueId \<Rightarrow> ValueId \<Rightarrow> ir_type \<Rightarrow> Builder \<Rightarrow> ValueId \<times> Builder" where
  "create_sub l r ty = emit ty ''sub'' (\<lambda>res. BinaryOp (if ty = Ty_I64 then Op_SubI64 else Op_SubU64) l r res ty)"

definition create_mul :: "ValueId \<Rightarrow> ValueId \<Rightarrow> ir_type \<Rightarrow> Builder \<Rightarrow> ValueId \<times> Builder" where
  "create_mul l r ty = emit ty ''mul'' (\<lambda>res. BinaryOp (if ty = Ty_I64 then Op_MulI64 else Op_MulU64) l r res ty)"

definition create_div :: "ValueId \<Rightarrow> ValueId \<Rightarrow> ir_type \<Rightarrow> Builder \<Rightarrow> ValueId \<times> Builder" where
  "create_div l r ty = emit ty ''div'' (\<lambda>res. BinaryOp (if ty = Ty_I64 then Op_DivI64 else Op_DivU64) l r res ty)"

definition create_mod :: "ValueId \<Rightarrow> ValueId \<Rightarrow> ir_type \<Rightarrow> Builder \<Rightarrow> ValueId \<times> Builder" where
  "create_mod l r ty = emit ty ''mod'' (\<lambda>res. BinaryOp (if ty = Ty_I64 then Op_ModI64 else Op_ModU64) l r res ty)"

definition create_neg :: "ValueId \<Rightarrow> ir_type \<Rightarrow> Builder \<Rightarrow> ValueId \<times> Builder" where
  "create_neg x ty = emit ty ''neg'' (\<lambda>res. UnaryOp Op_NegI64 x res ty)"

definition create_eq :: "ValueId \<Rightarrow> ValueId \<Rightarrow> ir_type \<Rightarrow> Builder \<Rightarrow> ValueId \<times> Builder" where
  "create_eq l r ty = emit Ty_I1 ''eq'' (CompareOp (if ty = Ty_I64 then Op_EqI64 else Op_EqU64) l r)"

definition create_ne :: "ValueId \<Rightarrow> ValueId \<Rightarrow> ir_type \<Rightarrow> Builder \<Rightarrow> ValueId \<times> Builder" where
  "create_ne l r ty = emit Ty_I1 ''ne'' (CompareOp (if ty = Ty_I64 then Op_NeI64 else Op_NeU64) l r)"

definition create_lt :: "ValueId \<Rightarrow> ValueId \<Rightarrow> ir_type \<Rightarrow> Builder \<Rightarrow> ValueId \<times> Builder" where
  "create_lt l r ty = emit Ty_I1 ''lt'' (CompareOp (if ty = Ty_I64 then Op_LtI64 else Op_LtU64) l r)"

definition create_le :: "ValueId \<Rightarrow> ValueId \<Rightarrow> ir_type \<Rightarrow> Builder \<Rightarrow> ValueId \<times> Builder" where
  "create_le l r ty = emit Ty_I1 ''le'' (CompareOp (if ty = Ty_I64 then Op_LeI64 else Op_LeU64) l r)"

definition create_gt :: "ValueId \<Rightarrow> ValueId \<Rightarrow> ir_type \<Rightarrow> Builder \<Rightarrow> ValueId \<times> Builder" where
  "create_gt l r ty = emit Ty_I1 ''gt'' (CompareOp (if ty = Ty_I64 then Op_GtI64 else Op_GtU64) l r)"

definition create_ge :: "ValueId \<Rightarrow> ValueId \<Rightarrow> ir_type \<Rightarrow> Builder \<Rightarrow> ValueId \<times> Builder" where
  "create_ge l r ty = emit Ty_I1 ''ge'' (CompareOp (if ty = Ty_I64 then Op_GeI64 else Op_GeU64) l r)"

definition create_and :: "ValueId \<Rightarrow> ValueId \<Rightarrow> Builder \<Rightarrow> ValueId \<times> Builder" where
  "create_and l r = emit Ty_I1 ''and'' (\<lambda>res. BinaryOp Op_And l r res Ty_I1)"

definition create_or :: "ValueId \<Rightarrow> ValueId \<Rightarrow> Builder \<Rightarrow> ValueId \<times> Builder" where
  "create_or l r = emit Ty_I1 ''or'' (\<lambda>res. BinaryOp Op_Or l r res Ty_I1)"

definition create_not :: "ValueId \<Rightarrow> Builder \<Rightarrow> ValueId \<times> Builder" where
  "create_not x = emit Ty_I1 ''not'' (\<lambda>res. UnaryOp Op_Not x res Ty_I1)"

definition create_bitand :: "ValueId \<Rightarrow> ValueId \<Rightarrow> Builder \<Rightarrow> ValueId \<times> Builder" where
  "create_bitand l r = emit Ty_U64 ''bitand'' (\<lambda>res. BinaryOp Op_BitAnd l r res Ty_U64)"

definition create_bitor :: "ValueId \<Rightarrow> ValueId \<Rightarrow> Builder \<Rightarrow> ValueId \<times> Builder" where
  "create_bitor l r = emit Ty_U64 ''bitor'' (\<lambda>res. BinaryOp Op_BitOr l r res Ty_U64)"

definition create_bitxor :: "ValueId \<Rightarrow> ValueId \<Rightarrow> Builder \<Rightarrow> ValueId \<times> Builder" where
  "create_bitxor l r = emit Ty_U64 ''bitxor'' (\<lambda>res. BinaryOp Op_BitXor l r res Ty_U64)"

definition create_bitnot :: "ValueId \<Rightarrow> Builder \<Rightarrow> ValueId \<times> Builder" where
  "create_bitnot x = emit Ty_U64 ''bitnot'' (\<lambda>res. UnaryOp Op_BitNot x res Ty_U64)"

definition create_select :: "ValueId \<Rightarrow> ValueId \<Rightarrow> ValueId \<Rightarrow> ir_type \<Rightarrow> Builder \<Rightarrow> ValueId \<times> Builder" where
  "create_select c t f ty = emit ty ''select'' (\<lambda>res. SelectOp c t f res ty)"

definition create_load_column :: "u32 \<Rightarrow> ValueId \<Rightarrow> ir_type \<Rightarrow> Builder \<Rightarrow> ValueId \<times> Builder" where
  "create_load_column c row ty = emit ty ''load'' (\<lambda>res. LoadColumnOp c row res ty)"

definition create_count :: "ValueId \<Rightarrow> Builder \<Rightarrow> ValueId \<times> Builder" where
  "create_count x = emit Ty_U64 ''count'' (\<lambda>res. AggregateOp Op_Count x res Ty_U64)"

definition create_sum :: "ValueId \<Rightarrow> ir_type \<Rightarrow> Builder \<Rightarrow> ValueId \<times> Builder" where
  "create_sum x ty = emit ty ''sum'' (\<lambda>res. AggregateOp (if ty = Ty_I64 then Op_SumI64 else Op_SumU64) x res ty)"

definition create_min :: "ValueId \<Rightarrow> ir_type \<Rightarrow> Builder \<Rightarrow> ValueId \<times> Builder" where
  "create_min x ty = emit ty ''min'' (\<lambda>res. AggregateOp (if ty = Ty_I64 then Op_MinI64 else Op_MinU64) x res ty)"

definition create_max :: "ValueId \<Rightarrow> ir_type \<Rightarrow> Builder \<Rightarrow> ValueId \<times> Builder" where
  "create_max x ty = emit ty ''max'' (\<lambda>res. AggregateOp (if ty = Ty_I64 then Op_MaxI64 else Op_MaxU64) x res ty)"

definition create_return :: "ValueId \<Rightarrow> Builder \<Rightarrow> Builder" where
  "create_return v = append_instr (ReturnOp v)"

definition create_jump :: "nat \<Rightarrow> Builder \<Rightarrow> Builder" where
  "create_jump t = append_instr (JumpOp t)"

definition create_branch :: "ValueId \<Rightarrow> nat \<Rightarrow> nat \<Rightarrow> Builder \<Rightarrow> Builder" where
  "create_branch c t f = append_instr (BranchOp c t f)"

section \<open>Lowering\<close>

definition resolve_column_info :: "string \<Rightarrow> (u32 \<times> ir_type) option" where
  "resolve_column_info name =
     (if ieq name ''exchange_ts_ns'' \<or> ieq name ''exchange_ts'' then Some (0, Ty_U64)
      else if ieq name ''receive_ts_ns'' \<or> ieq name ''receive_ts'' then Some (1, Ty_U64)
      else if ieq name ''sequence'' \<or> ieq name ''seq'' then Some (2, Ty_U64)
      else if ieq name ''instrument_id'' \<or> ieq name ''symbol'' \<or> ieq name ''instrument'' then Some (3, Ty_U32)
      else if ieq name ''event_type'' then Some (4, Ty_U8)
      else if ieq name ''side'' then Some (5, Ty_U8)
      else if ieq name ''flags'' then Some (6, Ty_U16)
      else if ieq name ''price_ticks'' \<or> ieq name ''price'' then Some (7, Ty_I64)
      else if ieq name ''quantity'' \<or> ieq name ''qty'' then Some (8, Ty_U32)
      else if ieq name ''venue_id'' \<or> ieq name ''venue'' then Some (9, Ty_U16)
      else if ieq name ''source_id'' \<or> ieq name ''source'' then Some (10, Ty_U16)
      else if ieq name ''trade_or_order_id'' \<or> ieq name ''trade_id'' \<or> ieq name ''order_id'' then Some (11, Ty_U64)
      else None)"

fun infer_type :: "Expression \<Rightarrow> ir_type" where
  "infer_type (LiteralExpr v ln col) = Ty_U64"
| "infer_type (ColumnRefExpr nm ln col) = (case resolve_column_info nm of Some (c, t) \<Rightarrow> t | None \<Rightarrow> Ty_U64)"
| "infer_type (BinaryOpExpr op a b ln col) =
     (if op \<in> comparison_tokens then Ty_I1
      else if infer_type a = Ty_I64 \<or> infer_type b = Ty_I64 then Ty_I64 else Ty_U64)"
| "infer_type (UnaryOpExpr op a ln col) =
     (if op = Tok_Bang then Ty_I1 else if op = Tok_Minus then Ty_I64 else infer_type a)"
| "infer_type (FunctionCallExpr nm args ln col) = Ty_U64"

definition get_comparison_opcode :: "TokenType \<Rightarrow> ir_type \<Rightarrow> Opcode" where
  "get_comparison_opcode op ty =
     (let is_i64 = (ty = Ty_I64) in
      if op = Tok_Equal then (if is_i64 then Op_EqI64 else Op_EqU64)
      else if op = Tok_NotEqual then (if is_i64 then Op_NeI64 else Op_NeU64)
      else if op = Tok_Less then (if is_i64 then Op_LtI64 else Op_LtU64)
      else if op = Tok_LessEqual then (if is_i64 then Op_LeI64 else Op_LeU64)
      else if op = Tok_Greater then (if is_i64 then Op_GtI64 else Op_GtU64)
      else if op = Tok_GreaterEqual then (if is_i64 then Op_GeI64 else Op_GeU64)
      else Op_EqU64)"

definition get_arithmetic_opcode :: "TokenType \<Rightarrow> ir_type \<Rightarrow> Opcode" where
  "get_arithmetic_opcode op ty =
     (let is_i64 = (ty = Ty_I64) in
      if op = Tok_Plus then (if is_i64 then Op_AddI64 else Op_AddU64)
      else if op = Tok_Minus then (if is_i64 then Op_SubI64 else Op_SubU64)
      else if op = Tok_Star then (if is_i64 then Op_MulI64 else Op_MulU64)
      else if op = Tok_Slash then (if is_i64 then Op_DivI64 else Op_DivU64)
      else if op = Tok_Percent then (if is_i64 then Op_ModI64 else Op_ModU64)
      else Op_AddU64)"

definition tolower :: "char \<Rightarrow> char" where
  "tolower c = (if 65 \<le> (of_char c :: nat) \<and> (of_char c :: nat) \<le> 90
     then char_of ((of_char c :: nat) + 32) else c)"

text \<open>The first parameter, read without a check.\<close>

definition row_index :: "Builder \<Rightarrow> ValueId outcome" where
  "row_index b = (case parameters (bd_function b) of [] \<Rightarrow> Fault | p # _ \<Rightarrow> Ok p)"

definition lower_binary :: "TokenType \<Rightarrow> ir_type \<Rightarrow> ValueId \<Rightarrow> ValueId \<Rightarrow> Builder \<Rightarrow> ValueId \<times> Builder" where
  "lower_binary op ty l r b =
     (case op of
        Tok_Plus \<Rightarrow> create_add l r ty b
      | Tok_Minus \<Rightarrow> create_sub l r ty b
      | Tok_Star \<Rightarrow> create_mul l r ty b
      | Tok_Slash \<Rightarrow> create_div l r ty b
      | Tok_Percent \<Rightarrow> create_mod l r ty b
      | Tok_Equal \<Rightarrow> create_eq l r ty b
      | Tok_NotEqual \<Rightarrow> create_ne l r ty b
      | Tok_Less \<Rightarrow> create_lt l r ty b
      | Tok_LessEqual \<Rightarrow> create_le l r ty b
      | Tok_Greater \<Rightarrow> create_gt l r ty b
      | Tok_GreaterEqual \<Rightarrow> create_ge l r ty b
      | Tok_And \<Rightarrow> create_and l r b
      | Tok_Or \<Rightarrow> create_or l r b
      | Tok_Amp \<Rightarrow> create_bitand l r b
      | Tok_Pipe \<Rightarrow> create_bitor l r b
      | Tok_Caret \<Rightarrow> create_bitxor l r b
      | _ \<Rightarrow> (0, b))"

definition lower_aggregate :: "string \<Rightarrow> ir_type \<Rightarrow> ValueId \<Rightarrow> Builder \<Rightarrow> ValueId \<times> Builder" where
  "lower_aggregate fname ty x b =
     (if fname = ''sum'' then create_sum x ty b
      else if fname = ''min'' then create_min x ty b
      else if fname = ''max'' then create_max x ty b
      else (0, b))"

fun lower :: "Expression \<Rightarrow> Builder \<Rightarrow> (ValueId \<times> Builder) outcome" where
  "lower (LiteralExpr v ln col) b = Ok (create_const_u64 v b)"
| "lower (ColumnRefExpr nm ln col) b =
     (let (c, ty) = (case resolve_column_info nm of Some r \<Rightarrow> r | None \<Rightarrow> (0, Ty_U64)) in
      obind (row_index b) (\<lambda>row. Ok (create_load_column c row ty b)))"
| "lower (BinaryOpExpr op l r ln col) b =
     obind (lower l b) (\<lambda>(lhs, b). obind (lower r b) (\<lambda>(rhs, b).
       let ty = (if infer_type l = Ty_I64 \<or> infer_type r = Ty_I64 then Ty_I64 else Ty_U64) in
       Ok (lower_binary op ty lhs rhs b)))"
| "lower (UnaryOpExpr op a ln col) b =
     obind (lower a b) (\<lambda>(x, b).
       Ok (if op = Tok_Minus then create_neg x Ty_I64 b else if op = Tok_Bang then create_not x b else (0, b)))"
| "lower (FunctionCallExpr nm args ln col) b =
     (let fname = map tolower nm in
      if fname = ''count'' then obind (row_index b) (\<lambda>row. Ok (create_count row b))
      else case args of
          [] \<Rightarrow> Ok (0, b)
        | a # _ \<Rightarrow> obind (lower a b) (\<lambda>(x, b). Ok (lower_aggregate fname (infer_type a) x b)))"

definition lower_expression :: "Expression option \<Rightarrow> Builder \<Rightarrow> (ValueId \<times> Builder) outcome" where
  "lower_expression expr b = (case expr of None \<Rightarrow> Ok (0, b) | Some e \<Rightarrow> lower e b)"

text \<open>The call that makes a query an aggregation.\<close>

fun first_call :: "SelectItem list \<Rightarrow> (string \<times> Expression list) option" where
  "first_call [] = None"
| "first_call (p # ps) =
     (case item_expr p of Some (FunctionCallExpr nm args _ _) \<Rightarrow> Some (nm, args) | _ \<Rightarrow> first_call ps)"

definition aggregate_call :: "QueryStmt \<Rightarrow> (string \<times> Expression list) option" where
  "aggregate_call q =
     (case aggregations q of
        (_, FunctionCallExpr nm args _ _) # _ \<Rightarrow> Some (nm, args)
      | _ # _ \<Rightarrow> None
      | [] \<Rightarrow> first_call (projections q))"

definition build_from_query :: "QueryStmt option \<Rightarrow> ir_function option outcome" where
  "build_from_query stmt =
     (case stmt of None \<Rightarrow> Ok None
      | Some q \<Rightarrow>
         (let (k, f) = fn_create_block ''entry'' (Function_new ''query'');
              (p, f) = create_value Ty_U64 ''row_idx'' f;
              b = \<lparr>bd_function = add_parameter p f, current_block = k, next_temp = 1\<rparr> in
          map_result (\<lambda>b. Some (bd_function b))
            (case aggregate_call q of
               Some (nm, args) \<Rightarrow>
                 (let fname = map tolower nm in
                  obind
                    (if fname = ''count'' then obind (row_index b) (\<lambda>row. Ok (create_count row b))
                     else case args of
                         [] \<Rightarrow> Ok (0, b)
                       | a # _ \<Rightarrow> obind (lower a b) (\<lambda>(x, b). Ok (lower_aggregate fname (infer_type a) x b)))
                    (\<lambda>(res, b). Ok (create_return res b)))
             | None \<Rightarrow>
                 (if where_expr q \<noteq> None
                  then obind (lower_expression (where_expr q) b) (\<lambda>(c, b). Ok (create_return c b))
                  else case projections q of
                      p # _ \<Rightarrow>
                        if item_expr p \<noteq> None
                        then obind (lower_expression (item_expr p) b) (\<lambda>(v, b). Ok (create_return v b))
                        else (let (one, b) = create_const_u64 1 b in Ok (create_return one b))
                    | [] \<Rightarrow> (let (one, b) = create_const_u64 1 b in Ok (create_return one b))))))"

end
