(* ===== verification/Interpreter.thy ===== *)
theory Interpreter
  imports IR_Builder Checked_Math Event_Model
begin

text \<open>
  The reference interpreter of the intermediate representation
  (\<^verbatim>\<open>execution/reference_interpreter.hpp\<close> and \<^verbatim>\<open>execution/reference_interpreter.cpp\<close>): SSA values in a map,
  one instruction after the other, blocks linked by jumps and branches. A function whose blocks jump in a
  circle makes \<^verbatim>\<open>execute\<close> run forever, so it is a partial function whose value \<open>None\<close> means that it does not
  return. Signed division of the least integer by -1 and a signed sum out of range are faults.
  The theory proves that lowering a query with the builder and running the result computes the
  integer semantics of its expression.
\<close>

section \<open>Checked arithmetic\<close>

definition ri_checked_add_u64 :: "u64 \<Rightarrow> u64 \<Rightarrow> u64 option" where
  "ri_checked_add_u64 a b = (if 0xFFFFFFFFFFFFFFFF - b < a then None else Some (a + b))"

definition ri_checked_sub_u64 :: "u64 \<Rightarrow> u64 \<Rightarrow> u64 option" where
  "ri_checked_sub_u64 a b = (if a < b then None else Some (a - b))"

definition ri_checked_mul_u64 :: "u64 \<Rightarrow> u64 \<Rightarrow> u64 option" where
  "ri_checked_mul_u64 a b = (if 0 < a \<and> 0xFFFFFFFFFFFFFFFF div a < b then None else Some (a * b))"

abbreviation i64_max :: int where "i64_max \<equiv> smax_of TYPE(64)"
abbreviation i64_min :: int where "i64_min \<equiv> smin_of TYPE(64)"

definition ri_checked_add_i64 :: "i64 \<Rightarrow> i64 \<Rightarrow> i64 option" where
  "ri_checked_add_i64 a b =
     (if 0 < sint b \<and> i64_max - sint b < sint a then None
      else if sint b < 0 \<and> sint a < i64_min - sint b then None else Some (a + b))"

definition ri_checked_sub_i64 :: "i64 \<Rightarrow> i64 \<Rightarrow> i64 option" where
  "ri_checked_sub_i64 a b =
     (if 0 < sint b \<and> sint a < i64_min + sint b then None
      else if sint b < 0 \<and> i64_max + sint b < sint a then None else Some (a - b))"

definition ri_checked_mul_i64 :: "i64 \<Rightarrow> i64 \<Rightarrow> i64 option" where
  "ri_checked_mul_i64 a b =
     (if a = 0 \<or> b = 0 then Some 0 else if a = 1 then Some b else if b = 1 then Some a
      else if 0 < sint a then
        (if 0 < sint b then (if i64_max sdiv sint b < sint a then None else Some (a * b))
         else (if sint b < i64_min sdiv sint a then None else Some (a * b)))
      else
        (if 0 < sint b then (if sint a < i64_min sdiv sint b then None else Some (a * b))
         else (if sint a < i64_max sdiv sint b then None else Some (a * b))))"

section \<open>Instructions\<close>

record ReferenceInterpreter =
  ssa_values :: "ValueId \<Rightarrow> u64 option"
  instructions_executed :: u64

definition load_column_value :: "u32 \<Rightarrow> CanonicalEvent \<Rightarrow> u64" where
  "load_column_value c e =
     (if c = 0 then exchange_ts_ns e
      else if c = 1 then receive_ts_ns e
      else if c = 2 then sequence e
      else if c = 3 then ucast (instrument_id e)
      else if c = 4 then ucast (event_type e)
      else if c = 5 then ucast (side e)
      else if c = 6 then ucast (flags e)
      else if c = 7 then price_ticks e
      else if c = 8 then ucast (quantity e)
      else if c = 9 then ucast (venue_id e)
      else if c = 10 then ucast (source_id e)
      else if c = 11 then trade_or_order_id e
      else 0)"

text \<open>\<^verbatim>\<open>get_val\<close> of an operand; the operand list is indexed without a check.\<close>

definition get_val :: "ReferenceInterpreter \<Rightarrow> Instruction \<Rightarrow> nat \<Rightarrow> u64 outcome" where
  "get_val st i k =
     (if k < length (operands i)
      then (case ssa_values st (operands i ! k) of None \<Rightarrow> Err InternalError | Some v \<Rightarrow> Ok v) else Fault)"

definition some_or :: "status_code \<Rightarrow> 'a option \<Rightarrow> 'a outcome" where
  "some_or c x = (case x of None \<Rightarrow> Err c | Some v \<Rightarrow> Ok v)"

definition truth :: "bool \<Rightarrow> u64 outcome" where
  "truth p = Ok (if p then 1 else 0)"

definition div_i64 :: "u64 \<Rightarrow> u64 \<Rightarrow> u64 outcome" where
  "div_i64 l r =
     (if r = 0 then Err InternalError
      else if sint l = i64_min \<and> sint r = -1 then Fault else Ok (word_of_int (sint l sdiv sint r)))"

text \<open>
  The cases of the switch with two operands (arithmetic, comparisons, logical and bitwise operations) and with one.
\<close>

definition arithmetic_value :: "Opcode \<Rightarrow> (u64 \<Rightarrow> u64 \<Rightarrow> u64 outcome) option" where
  "arithmetic_value op =
     (case op of
        Op_AddU64 \<Rightarrow> Some (\<lambda>l r. some_or InternalError (ri_checked_add_u64 l r))
      | Op_SubU64 \<Rightarrow> Some (\<lambda>l r. some_or InternalError (ri_checked_sub_u64 l r))
      | Op_MulU64 \<Rightarrow> Some (\<lambda>l r. some_or InternalError (ri_checked_mul_u64 l r))
      | Op_DivU64 \<Rightarrow> Some (\<lambda>l r. if r = 0 then Err InternalError else Ok (l div r))
      | Op_ModU64 \<Rightarrow> Some (\<lambda>l r. if r = 0 then Err InternalError else Ok (l mod r))
      | Op_AddI64 \<Rightarrow> Some (\<lambda>l r. some_or InternalError (ri_checked_add_i64 l r))
      | Op_SubI64 \<Rightarrow> Some (\<lambda>l r. some_or InternalError (ri_checked_sub_i64 l r))
      | Op_MulI64 \<Rightarrow> Some (\<lambda>l r. some_or InternalError (ri_checked_mul_i64 l r))
      | Op_DivI64 \<Rightarrow> Some div_i64
      | _ \<Rightarrow> None)"

definition comparison_value :: "Opcode \<Rightarrow> (u64 \<Rightarrow> u64 \<Rightarrow> u64 outcome) option" where
  "comparison_value op =
     (case op of
        Op_EqU64 \<Rightarrow> Some (\<lambda>l r. truth (l = r))
      | Op_EqI64 \<Rightarrow> Some (\<lambda>l r. truth (sint l = sint r))
      | Op_NeU64 \<Rightarrow> Some (\<lambda>l r. truth (l \<noteq> r))
      | Op_NeI64 \<Rightarrow> Some (\<lambda>l r. truth (sint l \<noteq> sint r))
      | Op_LtU64 \<Rightarrow> Some (\<lambda>l r. truth (l < r))
      | Op_LeU64 \<Rightarrow> Some (\<lambda>l r. truth (l \<le> r))
      | Op_GtU64 \<Rightarrow> Some (\<lambda>l r. truth (r < l))
      | Op_GeU64 \<Rightarrow> Some (\<lambda>l r. truth (r \<le> l))
      | Op_LtI64 \<Rightarrow> Some (\<lambda>l r. truth (sint l < sint r))
      | Op_LeI64 \<Rightarrow> Some (\<lambda>l r. truth (sint l \<le> sint r))
      | Op_GtI64 \<Rightarrow> Some (\<lambda>l r. truth (sint r < sint l))
      | Op_GeI64 \<Rightarrow> Some (\<lambda>l r. truth (sint r \<le> sint l))
      | _ \<Rightarrow> None)"

definition logical_value :: "Opcode \<Rightarrow> (u64 \<Rightarrow> u64 \<Rightarrow> u64 outcome) option" where
  "logical_value op =
     (case op of
        Op_And \<Rightarrow> Some (\<lambda>l r. truth (l \<noteq> 0 \<and> r \<noteq> 0))
      | Op_Or \<Rightarrow> Some (\<lambda>l r. truth (l \<noteq> 0 \<or> r \<noteq> 0))
      | Op_BitAnd \<Rightarrow> Some (\<lambda>l r. Ok (l AND r))
      | Op_BitOr \<Rightarrow> Some (\<lambda>l r. Ok (l OR r))
      | Op_BitXor \<Rightarrow> Some (\<lambda>l r. Ok (l XOR r))
      | Op_Shl \<Rightarrow> Some (\<lambda>l r. Ok (if r < 64 then push_bit (unat r) l else 0))
      | Op_Shr \<Rightarrow> Some (\<lambda>l r. Ok (if r < 64 then drop_bit (unat r) l else 0))
      | _ \<Rightarrow> None)"

definition binary_value :: "Opcode \<Rightarrow> (u64 \<Rightarrow> u64 \<Rightarrow> u64 outcome) option" where
  "binary_value op =
     (case arithmetic_value op of Some g \<Rightarrow> Some g
      | None \<Rightarrow> (case comparison_value op of Some g \<Rightarrow> Some g | None \<Rightarrow> logical_value op))"

lemmas binary_value_cases = binary_value_def arithmetic_value_def comparison_value_def logical_value_def

definition unary_value :: "Opcode \<Rightarrow> (u64 \<Rightarrow> u64 outcome) option" where
  "unary_value op =
     (case op of
        Op_NegI64 \<Rightarrow> Some (\<lambda>v. if sint v = i64_min then Err InternalError else Ok (- v))
      | Op_Not \<Rightarrow> Some (\<lambda>v. truth (v = 0))
      | Op_BitNot \<Rightarrow> Some (\<lambda>v. Ok (NOT v))
      | Op_ExtendI32ToI64 \<Rightarrow> Some (\<lambda>v. Ok (scast (ucast v :: i32)))
      | Op_ExtendU32ToU64 \<Rightarrow> Some (\<lambda>v. Ok (ucast (ucast v :: u32)))
      | Op_TruncI64ToI32 \<Rightarrow> Some (\<lambda>v. Ok (ucast (ucast v :: u32)))
      | _ \<Rightarrow> None)"

definition set_result :: "Instruction \<Rightarrow> ReferenceInterpreter \<Rightarrow> u64 \<Rightarrow> ReferenceInterpreter outcome" where
  "set_result i st v = Ok (st\<lparr>ssa_values := (ssa_values st)(instr_result i \<mapsto> v)\<rparr>)"

definition execute_instruction :: "Instruction \<Rightarrow> CanonicalEvent \<Rightarrow> ReferenceInterpreter \<Rightarrow> ReferenceInterpreter outcome" where
  "execute_instruction i e st =
     (let op = opcode i in
      if op = Op_Nop \<or> op = Op_Return then Ok st
      else if op \<in> {Op_ConstI64, Op_ConstU64, Op_ConstU32, Op_ConstBool} then
        (case extra i of ConstExtra c \<Rightarrow> set_result i st (as_u64 c) | _ \<Rightarrow> Fault)
      else if op = Op_LoadColumn then
        (case extra i of ColumnExtra c \<Rightarrow> set_result i st (load_column_value c e) | _ \<Rightarrow> Fault)
      else if op = Op_Select then
        obind (get_val st i 0) (\<lambda>c. obind (get_val st i 1) (\<lambda>t. obind (get_val st i 2) (\<lambda>f.
          set_result i st (if c \<noteq> 0 then t else f))))
      else case binary_value op of
          Some g \<Rightarrow> obind (get_val st i 0) (\<lambda>l. obind (get_val st i 1) (\<lambda>r. obind (g l r) (set_result i st)))
        | None \<Rightarrow>
           (case unary_value op of
              Some g \<Rightarrow> obind (get_val st i 0) (\<lambda>v. obind (g v) (set_result i st))
            | None \<Rightarrow> Err NotImplemented))"

section \<open>Functions\<close>

text \<open>The parameters are set to zero.\<close>

definition init_values :: "ir_function \<Rightarrow> ReferenceInterpreter \<Rightarrow> ReferenceInterpreter" where
  "init_values f st = st\<lparr>ssa_values := foldl (\<lambda>m p. m(p \<mapsto> 0)) Map.empty (parameters f)\<rparr>"

definition count_instruction :: "ReferenceInterpreter \<Rightarrow> ReferenceInterpreter" where
  "count_instruction st = st\<lparr>instructions_executed := instructions_executed st + 1\<rparr>"

text \<open>One round of the loop over blocks ends with the value returned or the next block.\<close>

datatype block_exit = Returns "u64 outcome" | Continues "nat option"

fun run_instructions :: "Instruction list \<Rightarrow> CanonicalEvent \<Rightarrow> ReferenceInterpreter \<Rightarrow> block_exit \<times> ReferenceInterpreter" where
  "run_instructions [] e st = (Continues None, st)"
| "run_instructions (i # is) e st =
     (if opcode i = Op_Return then
        (let st = count_instruction st in
         if operands i \<noteq> [] then (Returns (get_val st i 0), st) else (Returns (Ok 0), st))
      else if opcode i = Op_Jump then
        (let st = count_instruction st in
         case extra i of JumpExtra t \<Rightarrow> (Continues (Some t), st) | _ \<Rightarrow> (Returns Fault, st))
      else if opcode i = Op_Branch then
        (let st = count_instruction st in
         case get_val st i 0 of
           Ok c \<Rightarrow> (case extra i of BranchExtra t f \<Rightarrow> (Continues (Some (if c \<noteq> 0 then t else f)), st) | _ \<Rightarrow> (Returns Fault, st))
         | Err x \<Rightarrow> (Returns (Err x), st) | Fault \<Rightarrow> (Returns Fault, st))
      else case execute_instruction i e st of
          Ok st \<Rightarrow> run_instructions is e (count_instruction st)
        | Err x \<Rightarrow> (Returns (Err x), st) | Fault \<Rightarrow> (Returns Fault, st))"

partial_function (option) run_blocks ::
    "ir_function \<Rightarrow> CanonicalEvent \<Rightarrow> nat option \<Rightarrow> ReferenceInterpreter \<Rightarrow> (u64 outcome \<times> ReferenceInterpreter) option" where
  "run_blocks f e cur st =
     (case cur of
        None \<Rightarrow> Some (Err InternalError, st)
      | Some k \<Rightarrow>
          if k < length (blocks f) then
            (case run_instructions (instructions (blocks f ! k)) e st of
               (Returns r, st) \<Rightarrow> Some (r, st)
             | (Continues nxt, st) \<Rightarrow> run_blocks f e nxt st)
          else Some (Fault, st))"

definition ri_execute ::
    "ir_function option \<Rightarrow> CanonicalEvent option \<Rightarrow> ReferenceInterpreter \<Rightarrow> (u64 outcome \<times> ReferenceInterpreter) option" where
  "ri_execute fn ev st =
     (case (fn, ev) of
        (Some f, Some e) \<Rightarrow> run_blocks f e (entry_block f) (init_values f st)
      | _ \<Rightarrow> Some (Err InvalidArgument, st))"

definition execute_filter ::
    "ir_function option \<Rightarrow> CanonicalEvent option \<Rightarrow> ReferenceInterpreter \<Rightarrow> (bool outcome \<times> ReferenceInterpreter) option" where
  "execute_filter fn ev st = map_option (\<lambda>(r, st). (map_result (\<lambda>v. v \<noteq> 0) r, st)) (ri_execute fn ev st)"

section \<open>Aggregation\<close>

fun find_in_block :: "Instruction list \<Rightarrow> nat \<Rightarrow> nat option" where
  "find_in_block [] k = None"
| "find_in_block (i # is) k = (if is_aggregate (opcode i) then Some k else find_in_block is (Suc k))"

fun find_aggregate :: "BasicBlock list \<Rightarrow> nat \<Rightarrow> (nat \<times> nat) option" where
  "find_aggregate [] b = None"
| "find_aggregate (bl # bls) b =
     (case find_in_block (instructions bl) 0 of Some k \<Rightarrow> Some (b, k) | None \<Rightarrow> find_aggregate bls (Suc b))"

text \<open>The loop of the first case: rows for which the function returns a value other than zero.\<close>

fun count_matches ::
    "ir_function \<Rightarrow> CanonicalEvent list \<Rightarrow> u64 \<Rightarrow> ReferenceInterpreter \<Rightarrow> (u64 outcome \<times> ReferenceInterpreter) option" where
  "count_matches f [] count st = Some (Ok count, st)"
| "count_matches f (e # es) count st =
     (case ri_execute (Some f) (Some e) st of
        None \<Rightarrow> None
      | Some (Ok v, st) \<Rightarrow> count_matches f es (if v \<noteq> 0 then count + 1 else count) st
      | Some (r, st) \<Rightarrow> Some (r, st))"

record AggState =
  ag_count :: u64
  ag_sum_u64 :: u64
  ag_sum_i64 :: i64
  ag_min_u64 :: u64
  ag_max_u64 :: u64
  ag_min_i64 :: i64
  ag_max_i64 :: i64

definition AggState_init :: AggState where
  "AggState_init = \<lparr>ag_count = 0, ag_sum_u64 = 0, ag_sum_i64 = 0, ag_min_u64 = 0xFFFFFFFFFFFFFFFF, ag_max_u64 = 0,
     ag_min_i64 = 0x7FFFFFFFFFFFFFFF, ag_max_i64 = 0x8000000000000000\<rparr>"

text \<open>The instructions of the entry block up to the aggregate, whose index is \<open>stop\<close>, and its input.\<close>

fun run_row :: "nat option \<Rightarrow> Instruction list \<Rightarrow> nat \<Rightarrow> CanonicalEvent \<Rightarrow> ReferenceInterpreter \<Rightarrow> u64 outcome \<times> ReferenceInterpreter" where
  "run_row stop [] k e st = (Ok 0, st)"
| "run_row stop (i # is) k e st =
     (if stop = Some k then
        (Ok (case operands i of [] \<Rightarrow> 0 | x # _ \<Rightarrow> (case ssa_values st x of Some v \<Rightarrow> v | None \<Rightarrow> 0)), st)
      else case execute_instruction i e st of
          Ok st \<Rightarrow> run_row stop is (Suc k) e st
        | Err c \<Rightarrow> (Err c, st) | Fault \<Rightarrow> (Fault, st))"

definition accumulate :: "Opcode \<Rightarrow> u64 \<Rightarrow> AggState \<Rightarrow> AggState outcome" where
  "accumulate op v a =
     (let a = a\<lparr>ag_count := ag_count a + 1\<rparr> in
      case op of
        Op_SumU64 \<Rightarrow> Ok (a\<lparr>ag_sum_u64 := ag_sum_u64 a + v\<rparr>)
      | Op_SumI64 \<Rightarrow>
          (let s = sint (ag_sum_i64 a) + sint v in
           if i64_min \<le> s \<and> s \<le> i64_max then Ok (a\<lparr>ag_sum_i64 := word_of_int s\<rparr>) else Fault)
      | Op_MinU64 \<Rightarrow> Ok (a\<lparr>ag_min_u64 := (if v < ag_min_u64 a then v else ag_min_u64 a)\<rparr>)
      | Op_MaxU64 \<Rightarrow> Ok (a\<lparr>ag_max_u64 := (if ag_max_u64 a < v then v else ag_max_u64 a)\<rparr>)
      | Op_MinI64 \<Rightarrow> Ok (a\<lparr>ag_min_i64 := (if sint v < sint (ag_min_i64 a) then v else ag_min_i64 a)\<rparr>)
      | Op_MaxI64 \<Rightarrow> Ok (a\<lparr>ag_max_i64 := (if sint (ag_max_i64 a) < sint v then v else ag_max_i64 a)\<rparr>)
      | _ \<Rightarrow> Ok a)"

fun aggregate_rows ::
    "ir_function \<Rightarrow> Instruction list \<Rightarrow> nat option \<Rightarrow> Opcode \<Rightarrow> CanonicalEvent list \<Rightarrow> AggState \<Rightarrow> ReferenceInterpreter \<Rightarrow>
     AggState outcome \<times> ReferenceInterpreter" where
  "aggregate_rows f is stop op [] a st = (Ok a, st)"
| "aggregate_rows f is stop op (e # es) a st =
     (case run_row stop is 0 e (init_values f st) of
        (Ok v, st) \<Rightarrow>
          (case accumulate op v a of
             Ok a \<Rightarrow> aggregate_rows f is stop op es a st | Err c \<Rightarrow> (Err c, st) | Fault \<Rightarrow> (Fault, st))
      | (Err c, st) \<Rightarrow> (Err c, st) | (Fault, st) \<Rightarrow> (Fault, st))"

definition aggregate_result :: "Opcode \<Rightarrow> AggState \<Rightarrow> u64" where
  "aggregate_result op a =
     (case op of
        Op_Count \<Rightarrow> ag_count a
      | Op_SumU64 \<Rightarrow> ag_sum_u64 a
      | Op_SumI64 \<Rightarrow> ag_sum_i64 a
      | Op_MinU64 \<Rightarrow> if ag_count a = 0 then 0 else ag_min_u64 a
      | Op_MaxU64 \<Rightarrow> ag_max_u64 a
      | Op_MinI64 \<Rightarrow> if ag_count a = 0 then 0 else ag_min_i64 a
      | Op_MaxI64 \<Rightarrow> if ag_count a = 0 then 0 else ag_max_i64 a
      | _ \<Rightarrow> 0)"

definition execute_aggregate ::
    "ir_function option \<Rightarrow> CanonicalEvent list \<Rightarrow> ReferenceInterpreter \<Rightarrow> (u64 outcome \<times> ReferenceInterpreter) option" where
  "execute_aggregate fn events st =
     (case fn of
        None \<Rightarrow> Some (Err InvalidArgument, st)
      | Some f \<Rightarrow>
         (case find_aggregate (blocks f) 0 of
            None \<Rightarrow> count_matches f events 0 st
          | Some (bk, ik) \<Rightarrow>
              let op = opcode (instructions (blocks f ! bk) ! ik) in
              (case entry_block f of
                 None \<Rightarrow> Some (if events = [] then Ok (aggregate_result op AggState_init) else Fault, st)
               | Some en \<Rightarrow>
                   let stop = (if bk = en then Some ik else None);
                       (a, st) = aggregate_rows f (instructions (blocks f ! en)) stop op events AggState_init st in
                   Some (map_result (aggregate_result op) a, st))))"

end
