(* ===== verification/IR_Semantics.thy ===== *)
theory IR_Semantics
  imports Interpreter
begin

text \<open>
  Correctness of lowering. The meaning of an expression is given over the integers: a value is a 64-bit
  pattern that an operator reads as signed when one of its operands is a signed expression and as unsigned
  otherwise, arithmetic is exact or an error, and every operand is evaluated. Building a function from a query
  and running it in the interpreter returns this meaning on every event, errors included.
\<close>

section \<open>Meaning of expressions\<close>

definition as_int :: "ir_type \<Rightarrow> u64 \<Rightarrow> int" where
  "as_int ty w = (if ty = Ty_I64 then sint w else uint w)"

definition in_type :: "ir_type \<Rightarrow> int \<Rightarrow> bool" where
  "in_type ty r \<longleftrightarrow> (if ty = Ty_I64 then - (2 ^ 63) \<le> r \<and> r < 2 ^ 63 else 0 \<le> r \<and> r < 2 ^ 64)"

definition exact :: "ir_type \<Rightarrow> int \<Rightarrow> u64 outcome" where
  "exact ty r = (if in_type ty r then Ok (word_of_int r) else Err InternalError)"

definition operand_type :: "ir_type \<Rightarrow> ir_type \<Rightarrow> ir_type" where
  "operand_type s t = (if s = Ty_I64 \<or> t = Ty_I64 then Ty_I64 else Ty_U64)"

text \<open>
  The quotient is truncated and the one quotient that does not fit is a fault; the signed remainder is
  not implemented.
\<close>

definition binary_meaning :: "TokenType \<Rightarrow> ir_type \<Rightarrow> u64 \<Rightarrow> u64 \<Rightarrow> u64 outcome" where
  "binary_meaning op ty v w =
     (let x = as_int ty v; y = as_int ty w in
      case op of
        Tok_Plus \<Rightarrow> exact ty (x + y)
      | Tok_Minus \<Rightarrow> exact ty (x - y)
      | Tok_Star \<Rightarrow> exact ty (x * y)
      | Tok_Slash \<Rightarrow> if y = 0 then Err InternalError else if in_type ty (x sdiv y) then Ok (word_of_int (x sdiv y)) else Fault
      | Tok_Percent \<Rightarrow> if ty = Ty_I64 then Err NotImplemented else if y = 0 then Err InternalError else Ok (word_of_int (x mod y))
      | Tok_Equal \<Rightarrow> truth (x = y)
      | Tok_NotEqual \<Rightarrow> truth (x \<noteq> y)
      | Tok_Less \<Rightarrow> truth (x < y)
      | Tok_LessEqual \<Rightarrow> truth (x \<le> y)
      | Tok_Greater \<Rightarrow> truth (x > y)
      | Tok_GreaterEqual \<Rightarrow> truth (x \<ge> y)
      | Tok_And \<Rightarrow> truth (v \<noteq> 0 \<and> w \<noteq> 0)
      | Tok_Or \<Rightarrow> truth (v \<noteq> 0 \<or> w \<noteq> 0)
      | Tok_Amp \<Rightarrow> Ok (v AND w)
      | Tok_Pipe \<Rightarrow> Ok (v OR w)
      | Tok_Caret \<Rightarrow> Ok (v XOR w)
      | _ \<Rightarrow> Fault)"

definition unary_meaning :: "TokenType \<Rightarrow> u64 \<Rightarrow> u64 outcome" where
  "unary_meaning op v =
     (if op = Tok_Minus then exact Ty_I64 (- sint v) else if op = Tok_Bang then truth (v = 0) else Fault)"

text \<open>The column of an event by its number in the schema.\<close>

definition column_of :: "nat \<Rightarrow> CanonicalEvent \<Rightarrow> int" where
  "column_of c e =
     [uint (exchange_ts_ns e), uint (receive_ts_ns e), uint (sequence e), uint (instrument_id e), uint (event_type e),
      uint (side e), uint (flags e), sint (price_ticks e), uint (quantity e), uint (venue_id e), uint (source_id e),
      uint (trade_or_order_id e)] ! c"

definition ir_type_of :: "u8 \<Rightarrow> ir_type" where
  "ir_type_of t = (if t = ColI64 then Ty_I64 else if t = ColBool then Ty_I1 else if t = ColU32 then Ty_U32
     else if t = ColU16 then Ty_U16 else if t = ColU8 then Ty_U8 else Ty_U64)"

text \<open>
  The number of the column that a name stands for, and the signed expressions: the price, every negation,
  and arithmetic and bitwise combinations with a signed operand.
\<close>

definition named_column :: "string \<Rightarrow> nat option" where
  "named_column nm = map_option snd (find (\<lambda>(n, c). map toupper nm = map toupper n) column_names)"

fun signed_expr :: "Expression \<Rightarrow> bool" where
  "signed_expr (LiteralExpr v ln col) = False"
| "signed_expr (ColumnRefExpr nm ln col) = (map toupper nm \<in> {''PRICE'', ''PRICE_TICKS''})"
| "signed_expr (BinaryOpExpr op a b ln col) = (op \<notin> comparison_tokens \<and> (signed_expr a \<or> signed_expr b))"
| "signed_expr (UnaryOpExpr op a ln col) = (op = Tok_Minus \<or> op \<noteq> Tok_Bang \<and> signed_expr a)"
| "signed_expr (FunctionCallExpr nm args ln col) = False"

fun meaning :: "Expression \<Rightarrow> CanonicalEvent \<Rightarrow> u64 outcome" where
  "meaning (LiteralExpr v ln col) e = Ok v"
| "meaning (ColumnRefExpr nm ln col) e =
     (case named_column nm of None \<Rightarrow> Fault | Some c \<Rightarrow> Ok (word_of_int (column_of c e)))"
| "meaning (BinaryOpExpr op a b ln col) e =
     obind (meaning a e) (\<lambda>v. obind (meaning b e) (\<lambda>w.
       binary_meaning op (if signed_expr a \<or> signed_expr b then Ty_I64 else Ty_U64) v w))"
| "meaning (UnaryOpExpr op a ln col) e = obind (meaning a e) (unary_meaning op)"
| "meaning (FunctionCallExpr nm args ln col) e = Fault"

text \<open>The expressions that the theorem covers: the operators that the parser builds, without calls.\<close>

definition binary_tokens :: "TokenType set" where
  "binary_tokens = {Tok_Plus, Tok_Minus, Tok_Star, Tok_Slash, Tok_Percent, Tok_Equal, Tok_NotEqual, Tok_Less,
     Tok_LessEqual, Tok_Greater, Tok_GreaterEqual, Tok_And, Tok_Or, Tok_Amp, Tok_Pipe, Tok_Caret}"

fun lowerable :: "Expression \<Rightarrow> bool" where
  "lowerable (LiteralExpr v ln col) = True"
| "lowerable (ColumnRefExpr nm ln col) = (resolve_column nm \<noteq> None)"
| "lowerable (BinaryOpExpr op a b ln col) = (op \<in> binary_tokens \<and> lowerable a \<and> lowerable b)"
| "lowerable (UnaryOpExpr op a ln col) = (op \<in> {Tok_Minus, Tok_Bang} \<and> lowerable a)"
| "lowerable (FunctionCallExpr nm args ln col) = False"

fun expr_nodes :: "Expression \<Rightarrow> nat" where
  "expr_nodes (LiteralExpr v ln col) = 1"
| "expr_nodes (ColumnRefExpr nm ln col) = 1"
| "expr_nodes (BinaryOpExpr op a b ln col) = Suc (expr_nodes a + expr_nodes b)"
| "expr_nodes (UnaryOpExpr op a ln col) = Suc (expr_nodes a)"
| "expr_nodes (FunctionCallExpr nm args ln col) = 1"

section \<open>Operators\<close>

lemma limits_64: "i64_max = 2 ^ 63 - 1" "i64_min = - (2 ^ 63)"
  by (simp_all add: smax_of_def smin_of_def)

lemma in_type_I64: "in_type Ty_I64 r \<longleftrightarrow> i64_min \<le> r \<and> r \<le> i64_max"
  by (auto simp: in_type_def limits_64)

lemma uint_64: "0 \<le> uint (v :: u64)" "uint (v :: u64) < 2 ^ 64"
  using uint_bounded [of v] by simp_all

lemma sint_inject: "sint v = sint (w :: i64) \<longleftrightarrow> v = w"
  by (auto dest: arg_cong [where f = "word_of_int :: int \<Rightarrow> i64"])

lemma exact_I64:
  assumes "\<And>r :: i64. c = Some r \<longleftrightarrow> sint r = x"
  shows "some_or InternalError c = exact Ty_I64 x"
proof (cases c)
  case None
  then show ?thesis
    using checked_None_range [of c x] assms by (auto simp: some_or_def exact_def in_type_I64)
next
  case (Some r)
  then show ?thesis
    using assms [of r] sint_bounds [of r] by (auto simp: some_or_def exact_def in_type_I64)
qed

lemma exact_U64:
  assumes "\<And>r :: u64. c = Some r \<longleftrightarrow> unat r = x" "ty \<noteq> Ty_I64"
  shows "some_or InternalError c = exact ty (int x)"
proof (cases c)
  case None
  have "\<not> x < 2 ^ 64"
  proof
    assume "x < 2 ^ 64"
    then have "unat (of_nat x :: u64) = x" by (simp add: unat_of_nat)
    with None assms show False by force
  qed
  then have "\<not> int x < 2 ^ 64"
    by (simp only: of_nat_less_numeral_power_cancel_iff not_False_eq_True)
  then show ?thesis using None assms(2) by (simp add: some_or_def exact_def in_type_def)
next
  case (Some r)
  have x: "x = unat r" using Some assms(1) by simp
  have "int (unat r) < 2 ^ 64" using uint_64 [of r] by simp
  then show ?thesis using assms(2) by (simp add: Some x some_or_def exact_def in_type_def)
qed

lemma ri_checked_signed:
  "some_or InternalError (ri_checked_add_i64 v w) = exact Ty_I64 (sint v + sint w)"
  "some_or InternalError (ri_checked_sub_i64 v w) = exact Ty_I64 (sint v - sint w)"
proof -
  have "ri_checked_add_i64 v w = checked_add_s v w" "ri_checked_sub_i64 v w = checked_sub_s v w"
    by (simp_all add: ri_checked_add_i64_def checked_add_s_def ri_checked_sub_i64_def checked_sub_s_def)
  then show "some_or InternalError (ri_checked_add_i64 v w) = exact Ty_I64 (sint v + sint w)"
    "some_or InternalError (ri_checked_sub_i64 v w) = exact Ty_I64 (sint v - sint w)"
    using exact_I64 [OF checked_add_s_eq] exact_I64 [OF checked_sub_s_eq] by simp_all
qed

lemma ri_checked_mul_signed: "some_or InternalError (ri_checked_mul_i64 v w) = exact Ty_I64 (sint v * sint w)"
proof (rule exact_I64)
  fix r
  show "ri_checked_mul_i64 v w = Some r \<longleftrightarrow> sint r = sint v * sint w"
  proof (cases "v = 0 \<or> w = 0 \<or> v = 1 \<or> w = 1")
    case True
    then consider "v = 0 \<or> w = 0" | "v \<noteq> 0" "w \<noteq> 0" "v = 1" | "v \<noteq> 0" "w \<noteq> 0" "v \<noteq> 1" "w = 1" by blast
    then show ?thesis
      by cases (auto simp: ri_checked_mul_i64_def simp: sint_inject)
  next
    case False
    have "sint v < 0 \<Longrightarrow> sint w < 0 \<Longrightarrow> sint v < i64_max sdiv sint w \<longleftrightarrow> sint w < i64_max sdiv sint v"
      using checked_mul_guards(4) [of i64_max "sint v" "sint w"] checked_mul_guards(4) [of i64_max "sint w" "sint v"]
      by (simp add: limits_64 mult.commute)
    then have "ri_checked_mul_i64 v w = checked_mul_s v w"
      using False by (auto simp: ri_checked_mul_i64_def checked_mul_s_def Let_def not_less le_less)
    then show ?thesis using checked_mul_s_eq [of v w r] by simp
  qed
qed

lemma umax_64: "(0xFFFFFFFFFFFFFFFF :: u64) = - 1"
  by simp

lemma ri_checked_unsigned:
  assumes "ty \<noteq> Ty_I64"
  shows "some_or InternalError (ri_checked_add_u64 v w) = exact ty (uint v + uint w)"
    and "some_or InternalError (ri_checked_sub_u64 v w) = exact ty (uint v - uint w)"
    and "some_or InternalError (ri_checked_mul_u64 v w) = exact ty (uint v * uint w)"
proof -
  have "ri_checked_add_u64 v w = checked_add_u v w"
    by (simp add: ri_checked_add_u64_def checked_add_u_def umax_64)
  then show "some_or InternalError (ri_checked_add_u64 v w) = exact ty (uint v + uint w)"
    using exact_U64 [OF checked_add_u_eq assms, of v w] by simp
  have "ri_checked_mul_u64 v w = checked_mul_u w v"
    by (auto simp: ri_checked_mul_u64_def checked_mul_u_def umax_64 mult.commute word_gt_0)
  then show "some_or InternalError (ri_checked_mul_u64 v w) = exact ty (uint v * uint w)"
    using exact_U64 [OF checked_mul_u_eq assms, of w v] by (simp add: mult.commute)
  show "some_or InternalError (ri_checked_sub_u64 v w) = exact ty (uint v - uint w)"
  proof (cases "v < w")
    case True
    then show ?thesis
      using assms by (simp add: ri_checked_sub_u64_def some_or_def exact_def in_type_def word_less_def)
  next
    case False
    then have "uint w \<le> uint v" by (simp add: word_less_def)
    moreover have "uint v - uint w < 2 ^ 64"
      using uint_64 [of v] uint_64 [of w] by linarith
    ultimately show ?thesis
      using assms False by (simp add: ri_checked_sub_u64_def some_or_def exact_def in_type_def word_of_int_minus)
  qed
qed

text \<open>The opcode that the builder chooses for an operator, and the meaning that the interpreter gives it.\<close>

definition lowered_opcode :: "TokenType \<Rightarrow> ir_type \<Rightarrow> Opcode" where
  "lowered_opcode op ty =
     (case op of
        Tok_And \<Rightarrow> Op_And | Tok_Or \<Rightarrow> Op_Or | Tok_Amp \<Rightarrow> Op_BitAnd | Tok_Pipe \<Rightarrow> Op_BitOr | Tok_Caret \<Rightarrow> Op_BitXor
      | _ \<Rightarrow> if op \<in> {Tok_Plus, Tok_Minus, Tok_Star, Tok_Slash, Tok_Percent}
             then get_arithmetic_opcode op ty else get_comparison_opcode op ty)"

definition opcode_value :: "Opcode \<Rightarrow> u64 \<Rightarrow> u64 \<Rightarrow> u64 outcome" where
  "opcode_value op v w = (case binary_value op of Some g \<Rightarrow> g v w | None \<Rightarrow> Err NotImplemented)"

lemma abs_sdiv: "\<bar>x sdiv y\<bar> = \<bar>x\<bar> div \<bar>y :: int\<bar>"
proof -
  have "0 \<le> \<bar>x\<bar> div \<bar>y\<bar>" by (simp add: div_int_pos_iff)
  then show ?thesis by (auto simp: signed_divide_int_def abs_mult abs_sgn_eq)
qed

lemma sdiv_fits:
  fixes x y :: int
  assumes "- (2 ^ 63) \<le> x" "x < 2 ^ 63" "y \<noteq> 0"
  shows "in_type Ty_I64 (x sdiv y) \<longleftrightarrow> \<not> (x = - (2 ^ 63) \<and> y = - 1)"
proof (cases "\<bar>y\<bar> = 1")
  case True
  then have "y = 1 \<or> y = - 1" by linarith
  then show ?thesis using assms by (auto simp: in_type_def signed_divide_int_def sgn_if)
next
  case False
  then have "2 \<le> \<bar>y\<bar>" using assms by linarith
  then have "\<bar>x\<bar> div \<bar>y\<bar> \<le> \<bar>x\<bar> div 2" by (intro zdiv_mono2) auto
  then have "\<bar>x sdiv y\<bar> < 2 ^ 63" using assms by (simp add: abs_sdiv)
  then show ?thesis using False by (auto simp: in_type_def)
qed

lemma div_i64_meaning:
  "div_i64 v w = (if sint w = 0 then Err InternalError
     else if in_type Ty_I64 (sint v sdiv sint w) then Ok (word_of_int (sint v sdiv sint w)) else Fault)"
proof (cases "w = 0")
  case False
  have "- (2 ^ 63) \<le> sint v" "sint v < 2 ^ 63"
    using sint_bounds [of v] by (simp_all add: limits_64)
  from sdiv_fits [OF this, of "sint w"] False show ?thesis
    by (auto simp: div_i64_def limits_64)
qed (simp add: div_i64_def)

lemma sdiv_nonneg: "0 \<le> x \<Longrightarrow> 0 \<le> y \<Longrightarrow> x sdiv y = x div (y :: int)"
  by (cases "x = 0"; cases "y = 0") (simp_all add: signed_divide_int_def)

lemma unsigned_division:
  "uint v sdiv uint w = uint (v div (w :: u64))" "uint v mod uint w = uint (v mod (w :: u64))"
  by (simp_all only: sdiv_nonneg uint_64 uint_div uint_mod)

lemma uint_in_type: "ty \<noteq> Ty_I64 \<Longrightarrow> in_type ty (uint (v :: u64))"
  using uint_64 [of v] by (simp add: in_type_def)

lemma opcode_meaning:
  assumes "op \<in> binary_tokens"
  shows "opcode_value (lowered_opcode op ty) v w = binary_meaning op ty v w"
proof -
  note defs = opcode_value_def lowered_opcode_def binary_meaning_def binary_value_cases get_arithmetic_opcode_def
    get_comparison_opcode_def as_int_def
  from assms show ?thesis
    by (cases op; cases "ty = Ty_I64")
      (simp_all add: defs ri_checked_signed ri_checked_mul_signed ri_checked_unsigned div_i64_meaning
        unsigned_division uint_in_type binary_tokens_def word_less_def word_le_def word_uint_eq_iff)
qed

section \<open>Code that the builder appends\<close>

text \<open>\<open>grows b code b'\<close>: the operations that lead from \<open>b\<close> to \<open>b'\<close> appended \<open>code\<close> to the current block, one new value each.\<close>

definition current_code :: "Builder \<Rightarrow> Instruction list" where
  "current_code b = instructions (blocks (bd_function b) ! current_block b)"

definition builder_ok :: "Builder \<Rightarrow> bool" where
  "builder_ok b \<longleftrightarrow> current_block b < length (blocks (bd_function b)) \<and> parameters (bd_function b) \<noteq> []"

definition grows :: "Builder \<Rightarrow> Instruction list \<Rightarrow> Builder \<Rightarrow> bool" where
  "grows b code b' \<longleftrightarrow> builder_ok b' \<and> current_code b' = current_code b @ code \<and>
     next_value_id (bd_function b') = next_value_id (bd_function b) + of_nat (length code) \<and>
     current_block b' = current_block b \<and> parameters (bd_function b') = parameters (bd_function b) \<and>
     entry_block (bd_function b') = entry_block (bd_function b) \<and>
     length (blocks (bd_function b')) = length (blocks (bd_function b))"

lemma grows_trans: "grows a c b \<Longrightarrow> grows b d e \<Longrightarrow> grows a (c @ d) e"
  by (simp add: grows_def add.assoc)

lemma emit_grows:
  assumes "builder_ok b"
  obtains b' j where "emit ty nm mk b = (next_value_id (bd_function b), b')"
    "grows b [mk (next_value_id (bd_function b))\<lparr>instr_id := j\<rparr>] b'"
  using assms
  by (auto simp: emit_def create_value_def append_instr_def grows_def builder_ok_def current_code_def block_append_def Let_def)

lemma row_index_ok: "builder_ok b \<Longrightarrow> \<exists>row. row_index b = Ok row"
  by (auto simp: builder_ok_def row_index_def split: list.splits)

text \<open>
  Running code either computes a value into \<open>v\<close> without touching the values below \<open>lo\<close> and goes on with the
  \<open>tail\<close>, or ends with an error.
\<close>

definition ends_in ::
    "block_exit \<times> ReferenceInterpreter \<Rightarrow> Instruction list \<Rightarrow> CanonicalEvent \<Rightarrow> ValueId \<Rightarrow> ValueId \<Rightarrow> ReferenceInterpreter \<Rightarrow>
     u64 outcome \<Rightarrow> bool" where
  "ends_in run tail e lo v st r \<longleftrightarrow> (\<exists>st'.
     case r of
       Ok x \<Rightarrow> run = run_instructions tail e st' \<and> ssa_values st' v = Some x \<and> (\<forall>i<lo. ssa_values st' i = ssa_values st i)
     | Err c \<Rightarrow> run = (Returns (Err c), st')
     | Fault \<Rightarrow> run = (Returns Fault, st'))"

definition computes :: "Instruction list \<Rightarrow> CanonicalEvent \<Rightarrow> ValueId \<Rightarrow> ValueId \<Rightarrow> u64 outcome \<Rightarrow> bool" where
  "computes code e lo v r \<longleftrightarrow> (\<forall>st tail. ends_in (run_instructions (code @ tail) e st) tail e lo v st r)"

text \<open>The effect of an instruction that sets \<open>v\<close> to the outcome \<open>r\<close>.\<close>

definition set_and_go ::
    "Instruction list \<Rightarrow> CanonicalEvent \<Rightarrow> ValueId \<Rightarrow> ReferenceInterpreter \<Rightarrow> u64 outcome \<Rightarrow> block_exit \<times> ReferenceInterpreter" where
  "set_and_go tail e v st r =
     (case r of
        Ok z \<Rightarrow> run_instructions tail e (count_instruction (st\<lparr>ssa_values := (ssa_values st)(v \<mapsto> z)\<rparr>))
      | Err c \<Rightarrow> (Returns (Err c), st) | Fault \<Rightarrow> (Returns Fault, st))"

lemma set_and_go_ends_in:
  assumes "\<forall>i<lo. ssa_values st' i = ssa_values st i" "lo \<le> v"
  shows "ends_in (set_and_go tail e v st' r) tail e lo v st r"
proof (cases r)
  case (Ok z)
  then show ?thesis
    using assms unfolding ends_in_def set_and_go_def
    by (intro exI [of _ "count_instruction (st'\<lparr>ssa_values := (ssa_values st')(v \<mapsto> z)\<rparr>)"])
      (auto simp: count_instruction_def)
qed (auto simp: ends_in_def set_and_go_def)

lemma instr_id_irrelevant:
  "get_val st (i\<lparr>instr_id := j\<rparr>) k = get_val st i k" "set_result (i\<lparr>instr_id := j\<rparr>) = set_result i"
  "execute_instruction (i\<lparr>instr_id := j\<rparr>) e st = execute_instruction i e st"
proof -
  show g: "get_val st (i\<lparr>instr_id := j\<rparr>) k = get_val st i k" for k by (simp add: get_val_def)
  show s: "set_result (i\<lparr>instr_id := j\<rparr>) = set_result i" by (intro ext) (simp add: set_result_def)
  show "execute_instruction (i\<lparr>instr_id := j\<rparr>) e st = execute_instruction i e st"
    by (simp add: execute_instruction_def g s Let_def split: option.split instr_extra.split)
qed

definition plain :: "Opcode \<Rightarrow> bool" where
  "plain op \<longleftrightarrow> op \<notin> {Op_Nop, Op_Return, Op_Jump, Op_Branch, Op_ConstI64, Op_ConstU64, Op_ConstU32, Op_ConstBool,
     Op_LoadColumn, Op_Select}"

lemma lowered_opcode_plain:
  assumes "op \<in> binary_tokens"
  shows "plain (lowered_opcode op ty)" "unary_value (lowered_opcode op ty) = None"
  using assms
  by (cases op; cases "ty = Ty_I64"; simp add: binary_tokens_def lowered_opcode_def get_arithmetic_opcode_def
      get_comparison_opcode_def plain_def unary_value_def)+

lemma run_binary:
  assumes "plain op" "unary_value op = None" "ssa_values st l = Some x" "ssa_values st r = Some y"
  shows "run_instructions ((Instruction_new op [l, r] v t NoExtra)\<lparr>instr_id := j\<rparr> # tail) e st =
    set_and_go tail e v st (opcode_value op x y)"
  using assms
  by (simp add: instr_id_irrelevant execute_instruction_def plain_def Instruction_new_def get_val_def opcode_value_def
      set_result_def set_and_go_def split: option.splits outcome.splits)

lemma run_unary:
  assumes "plain op" "binary_value op = None" "unary_value op = Some g" "ssa_values st l = Some x"
  shows "run_instructions ((Instruction_new op [l] v t NoExtra)\<lparr>instr_id := j\<rparr> # tail) e st =
    set_and_go tail e v st (g x)"
  using assms
  by (simp add: instr_id_irrelevant execute_instruction_def plain_def Instruction_new_def get_val_def
      set_result_def set_and_go_def split: outcome.splits)

text \<open>Instructions that combine what earlier code computed.\<close>

lemma computes_unary:
  assumes "computes c1 e lo v1 r1" "lo \<le> v" "plain op" "binary_value op = None" "unary_value op = Some g"
  shows "computes (c1 @ [(Instruction_new op [v1] v t NoExtra)\<lparr>instr_id := j\<rparr>]) e lo v (obind r1 g)"
  unfolding computes_def
proof (intro allI)
  fix st tail
  let ?i = "(Instruction_new op [v1] v t NoExtra)\<lparr>instr_id := j\<rparr>"
  have run: "ends_in (run_instructions (c1 @ ?i # tail) e st) (?i # tail) e lo v1 st r1"
    using assms(1) by (simp add: computes_def)
  show "ends_in (run_instructions ((c1 @ [?i]) @ tail) e st) tail e lo v st (obind r1 g)"
  proof (cases r1)
    case (Ok x)
    with run obtain st' where "run_instructions (c1 @ ?i # tail) e st = run_instructions (?i # tail) e st'"
      "ssa_values st' v1 = Some x" "\<forall>i<lo. ssa_values st' i = ssa_values st i"
      by (auto simp: ends_in_def simp del: run_instructions.simps)
    then show ?thesis
      using assms(2) Ok by (simp add: run_unary [OF assms(3-5)] set_and_go_ends_in del: run_instructions.simps)
  qed (use run in \<open>auto simp: ends_in_def simp del: run_instructions.simps\<close>)
qed

lemma computes_binary:
  assumes "computes c1 e lo v1 r1" "computes c2 e mid v2 r2" "lo \<le> mid" "v1 < mid" "mid \<le> v"
    and "plain op" "unary_value op = None"
  shows "computes (c1 @ c2 @ [(Instruction_new op [v1, v2] v t NoExtra)\<lparr>instr_id := k\<rparr>]) e lo v
    (obind r1 (\<lambda>x. obind r2 (opcode_value op x)))"
  unfolding computes_def
proof (intro allI)
  fix st tail
  let ?i = "(Instruction_new op [v1, v2] v t NoExtra)\<lparr>instr_id := k\<rparr>"
  have run1: "ends_in (run_instructions (c1 @ c2 @ ?i # tail) e st) (c2 @ ?i # tail) e lo v1 st r1"
    using assms(1) by (simp add: computes_def)
  have run2: "ends_in (run_instructions (c2 @ ?i # tail) e st1) (?i # tail) e mid v2 st1 r2" for st1
    using assms(2) by (simp add: computes_def)
  show "ends_in (run_instructions ((c1 @ c2 @ [?i]) @ tail) e st) tail e lo v st (obind r1 (\<lambda>x. obind r2 (opcode_value op x)))"
  proof (cases r1)
    case (Ok x)
    with run1 obtain st1 where st1: "run_instructions (c1 @ c2 @ ?i # tail) e st = run_instructions (c2 @ ?i # tail) e st1"
      "ssa_values st1 v1 = Some x" "\<forall>i<lo. ssa_values st1 i = ssa_values st i"
      by (auto simp: ends_in_def simp del: run_instructions.simps)
    show ?thesis
    proof (cases r2)
      case (Ok y)
      with run2 [of st1] obtain st2 where st2: "run_instructions (c2 @ ?i # tail) e st1 = run_instructions (?i # tail) e st2"
        "ssa_values st2 v2 = Some y" "\<forall>i<mid. ssa_values st2 i = ssa_values st1 i"
        by (auto simp: ends_in_def simp del: run_instructions.simps)
      have "ssa_values st2 v1 = Some x" "\<forall>i<lo. ssa_values st2 i = ssa_values st i" "lo \<le> v"
        using st1 st2 assms(3-5) by (auto dest: order.strict_trans2)
      then show ?thesis
        using st1 st2 Ok \<open>r1 = Ok x\<close>
        by (simp add: run_binary [OF assms(6,7)] set_and_go_ends_in del: run_instructions.simps)
    qed (use st1 run2 [of st1] \<open>r1 = Ok x\<close> in \<open>auto simp: ends_in_def simp del: run_instructions.simps\<close>)
  qed (use run1 in \<open>auto simp: ends_in_def simp del: run_instructions.simps\<close>)
qed

lemma run_set:
  assumes "execute_instruction i e st = set_result i st z" "\<not> is_terminator i"
  shows "run_instructions (i # tail) e st = set_and_go tail e (instr_result i) st (Ok z)"
  using assms by (simp add: set_result_def set_and_go_def is_terminator_def)

lemma computes_leaf:
  assumes "\<And>st. execute_instruction i e st = set_result i st z" "\<not> is_terminator i" "lo \<le> instr_result i"
  shows "computes [i\<lparr>instr_id := j\<rparr>] e lo (instr_result i) (Ok z)"
  unfolding computes_def
proof (intro allI)
  fix st tail
  have "run_instructions (i\<lparr>instr_id := j\<rparr> # tail) e st = set_and_go tail e (instr_result i) st (Ok z)"
    using run_set [of "i\<lparr>instr_id := j\<rparr>" e st z tail] assms by (simp add: instr_id_irrelevant is_terminator_def)
  then show "ends_in (run_instructions ([i\<lparr>instr_id := j\<rparr>] @ tail) e st) tail e lo (instr_result i) st (Ok z)"
    using assms(3) by (simp add: set_and_go_ends_in del: run_instructions.simps)
qed

lemma computes_const: "lo \<le> v \<Longrightarrow> computes [(ConstOp (u64_const w) v)\<lparr>instr_id := j\<rparr>] e lo v (Ok w)"
  using computes_leaf [of "ConstOp (u64_const w) v" e w lo j]
  by (simp add: ConstOp_def Instruction_new_def choose_opcode_def u64_const_def execute_instruction_def as_u64_def
      is_terminator_def)

lemma computes_load:
  "lo \<le> v \<Longrightarrow> computes [(LoadColumnOp c row v t)\<lparr>instr_id := j\<rparr>] e lo v (Ok (load_column_value c e))"
  using computes_leaf [of "LoadColumnOp c row v t" e "load_column_value c e" lo j]
  by (simp add: LoadColumnOp_def Instruction_new_def execute_instruction_def is_terminator_def)

section \<open>Lowering is correct\<close>

text \<open>The checker and the builder test the names in the same order.\<close>

lemma chain_step:
  assumes "r = Some c \<longrightarrow> r' = Some (g c)" "g k = z"
  shows "(if p then Some k else r) = Some c \<longrightarrow> (if p then Some z else r') = Some (g c)"
  using assms by auto

lemma column_info:
  assumes "resolve_column nm = Some c"
  shows "resolve_column_info nm = Some (of_nat c, ir_type_of (get_column_type c))"
proof -
  have "resolve_column nm = Some c \<longrightarrow>
      resolve_column_info nm = Some ((\<lambda>c. (of_nat c, ir_type_of (get_column_type c))) c)"
    unfolding resolve_column_def resolve_column_info_def
    by (intro chain_step [where g = "\<lambda>c. (of_nat c, ir_type_of (get_column_type c))"];
        simp add: get_column_type_def ir_type_of_def)
  then show ?thesis using assms by simp
qed

lemma chain_None:
  assumes "(if c then Some x else r) = None" "r = None \<Longrightarrow> r' = None"
  shows "(if c then Some y else r') = None"
  using assms by (simp split: if_splits)

lemma column_info_None: "resolve_column nm = None \<Longrightarrow> resolve_column_info nm = None"
  unfolding resolve_column_def resolve_column_info_def by (elim chain_None) simp

lemma named_column_iff: "named_column nm = resolve_column nm"
proof (cases "named_column nm")
  case None
  then have "\<not> names_column nm c" for c
    by (auto simp: named_column_def names_column_def find_None_iff)
  with None show ?thesis using resolve_column_Some by (metis not_None_eq)
next
  case (Some c)
  then have "names_column nm c"
    by (force simp: named_column_def names_column_def find_Some_iff in_set_conv_nth)
  then have "resolve_column nm = Some c" by (simp add: resolve_column_iff)
  with Some show ?thesis by simp
qed

lemma names_price: "names_column nm 7 \<longleftrightarrow> map toupper nm \<in> {''PRICE'', ''PRICE_TICKS''}"
proof -
  have "map toupper ''price'' = ''PRICE''" "map toupper ''price_ticks'' = ''PRICE_TICKS''" by code_simp+
  then show ?thesis by (auto simp: names_column_def column_names_def)
qed

lemma column_type_price: "c < 12 \<Longrightarrow> get_column_type c = ColI64 \<longleftrightarrow> c = 7"
  by (simp add: get_column_type_def)

lemma column_range: "resolve_column nm = Some c \<Longrightarrow> c < 12"
  unfolding resolve_column_iff names_column_def column_names_def by auto

text \<open>The type that the builder infers is the signed one exactly for the signed expressions.\<close>

lemma infer_type_signed: "infer_type ex = Ty_I64 \<longleftrightarrow> signed_expr ex"
proof (induction ex)
  case (ColumnRefExpr nm ln col)
  have "names_column nm 7 \<longleftrightarrow> resolve_column nm = Some 7" by (simp add: resolve_column_iff)
  then show ?case
    using column_range [of nm] column_type_price column_info [of nm] column_info_None [of nm]
    by (cases "resolve_column nm") (auto simp: names_price ir_type_of_def)
qed auto

lemma meaning_column [simp]:
  "meaning (ColumnRefExpr nm ln col) e =
     (case resolve_column nm of None \<Rightarrow> Fault | Some c \<Rightarrow> Ok (word_of_int (column_of c e)))"
  by (simp add: named_column_iff)

lemma meaning_binary [simp]:
  "meaning (BinaryOpExpr op a b ln col) e =
     obind (meaning a e) (\<lambda>v. obind (meaning b e) (\<lambda>w.
       binary_meaning op (operand_type (infer_type a) (infer_type b)) v w))"
  by (simp add: operand_type_def infer_type_signed)

declare meaning.simps(2,3) [simp del]

lemma column_value:
  assumes "c < 12"
  shows "load_column_value (of_nat c) e = word_of_int (column_of c e)"
proof -
  have "c = 0 \<or> c = 1 \<or> c = 2 \<or> c = 3 \<or> c = 4 \<or> c = 5 \<or> c = 6 \<or> c = 7 \<or> c = 8 \<or> c = 9 \<or> c = 10 \<or> c = 11"
    using assms by presburger
  then show ?thesis
    by (elim disjE) (simp_all add: load_column_value_def column_of_def)
qed

lemma lower_binary_emit:
  assumes "op \<in> binary_tokens"
  shows "\<exists>nm t. lower_binary op ty l r b =
    emit t nm (\<lambda>res. Instruction_new (lowered_opcode op ty) [l, r] res t NoExtra) b"
proof -
  note creates = create_add_def create_sub_def create_mul_def create_div_def create_mod_def create_eq_def create_ne_def
    create_lt_def create_le_def create_gt_def create_ge_def create_and_def create_or_def create_bitand_def
    create_bitor_def create_bitxor_def BinaryOp_def CompareOp_def
  have cmp: "CompareOp c l r = (\<lambda>res. Instruction_new c [l, r] res Ty_I1 NoExtra)" for c
    by (intro ext) (simp add: CompareOp_def)
  from assms show ?thesis
    by (cases op; simp add: binary_tokens_def lower_binary_def creates lowered_opcode_def get_arithmetic_opcode_def
        get_comparison_opcode_def cmp; blast)
qed

lemma new_id: "unat i + n < 2 ^ 32 \<Longrightarrow> unat (i + of_nat n :: u32) = unat i + n"
  by (simp add: unat_word_ariths unat_of_nat)

definition lowers_to :: "Expression \<Rightarrow> Builder \<Rightarrow> ValueId \<Rightarrow> Builder \<Rightarrow> Instruction list \<Rightarrow> bool" where
  "lowers_to ex b v b' code \<longleftrightarrow> lower ex b = Ok (v, b') \<and> grows b code b' \<and>
     unat (next_value_id (bd_function b')) = unat (next_value_id (bd_function b)) + expr_nodes ex \<and>
     next_value_id (bd_function b) \<le> v \<and> v < next_value_id (bd_function b') \<and>
     (\<forall>e. computes code e (next_value_id (bd_function b)) v (meaning ex e))"

abbreviation next_id :: "Builder \<Rightarrow> ValueId" where
  "next_id b \<equiv> next_value_id (bd_function b)"

text \<open>The last instruction of an expression: what it appends to the code of the operands.\<close>

lemma lowers_to_emit_code:
  assumes "lower ex b = Ok (emit ty nm mk b1)" "grows b code b1" "builder_ok b1"
    and "unat (next_id b1) + 1 = unat (next_id b) + expr_nodes ex" "unat (next_id b1) + 1 < 2 ^ 32"
    and "\<And>e j. next_id b \<le> next_id b1 \<Longrightarrow>
      computes (code @ [(mk (next_id b1))\<lparr>instr_id := j\<rparr>]) e (next_id b) (next_id b1) (meaning ex e)"
  shows "\<exists>b' j. lowers_to ex b (next_id b1) b' (code @ [(mk (next_id b1))\<lparr>instr_id := j\<rparr>])"
proof -
  obtain b' j where e: "emit ty nm mk b1 = (next_id b1, b')" and g: "grows b1 [(mk (next_id b1))\<lparr>instr_id := j\<rparr>] b'"
    using emit_grows [OF assms(3)] by blast
  have n: "unat (next_id b') = unat (next_id b1) + 1"
    using g new_id [of "next_id b1" 1] assms(5) by (simp add: grows_def)
  have "0 < expr_nodes ex" by (cases ex) simp_all
  then have "next_id b \<le> next_id b1" using assms(4) by (simp add: word_le_nat_alt)
  then have "lowers_to ex b (next_id b1) b' (code @ [(mk (next_id b1))\<lparr>instr_id := j\<rparr>])"
    using assms e n grows_trans [OF assms(2) g] by (simp add: lowers_to_def word_less_nat_alt)
  then show ?thesis by blast
qed

lemma lowers_to_emit:
  assumes "lower ex b = Ok (emit ty nm mk b1)" "grows b code b1" "builder_ok b1"
    and "unat (next_id b1) + 1 = unat (next_id b) + expr_nodes ex" "unat (next_id b1) + 1 < 2 ^ 32"
    and "\<And>e j. next_id b \<le> next_id b1 \<Longrightarrow>
      computes (code @ [(mk (next_id b1))\<lparr>instr_id := j\<rparr>]) e (next_id b) (next_id b1) (meaning ex e)"
  shows "\<exists>v b' code. lowers_to ex b v b' code"
  using lowers_to_emit_code [OF assms] by blast

lemma grows_refl: "builder_ok b \<Longrightarrow> grows b [] b"
  by (simp add: grows_def)

lemma lowers_binary_code:
  assumes "lowers_to l b v1 b1 c1" "lowers_to r b1 v2 b2 c2" "op \<in> binary_tokens"
    and "unat (next_id b) + expr_nodes (BinaryOpExpr op l r ln col) < 2 ^ 32"
  shows "\<exists>b' t j. lowers_to (BinaryOpExpr op l r ln col) b (next_id b2) b' ((c1 @ c2) @
    [(Instruction_new (lowered_opcode op (operand_type (infer_type l) (infer_type r))) [v1, v2] (next_id b2) t NoExtra)\<lparr>instr_id := j\<rparr>])"
proof -
  let ?ty = "operand_type (infer_type l) (infer_type r)"
  let ?i = "\<lambda>t res. Instruction_new (lowered_opcode op ?ty) [v1, v2] res t NoExtra"
  obtain nm t where e: "lower_binary op ?ty v1 v2 b2 = emit t nm (?i t) b2"
    using lower_binary_emit [OF assms(3)] by blast
  have v: "opcode_value (lowered_opcode op ?ty) = binary_meaning op ?ty"
    by (intro ext) (simp add: opcode_meaning [OF assms(3)])
  have "\<exists>b' j. lowers_to (BinaryOpExpr op l r ln col) b (next_id b2) b' ((c1 @ c2) @ [(?i t (next_id b2))\<lparr>instr_id := j\<rparr>])"
  proof (rule lowers_to_emit_code)
    show "lower (BinaryOpExpr op l r ln col) b = Ok (emit t nm (?i t) b2)"
      using assms(1,2) e by (simp add: lowers_to_def operand_type_def)
    show "grows b (c1 @ c2) b2" "builder_ok b2"
      using assms(1,2) by (auto simp: lowers_to_def intro: grows_trans) (simp add: grows_def)
    show "unat (next_id b2) + 1 = unat (next_id b) + expr_nodes (BinaryOpExpr op l r ln col)"
      "unat (next_id b2) + 1 < 2 ^ 32"
      using assms(1,2,4) by (simp_all add: lowers_to_def)
    fix e j
    have "next_id b \<le> next_id b1" "next_id b1 \<le> next_id b2"
      using assms(1,2) by (simp_all add: lowers_to_def word_le_nat_alt)
    with computes_binary [of c1 e "next_id b" v1 "meaning l e" c2 "next_id b1" v2 "meaning r e" "next_id b2"
        "lowered_opcode op ?ty" j t]
    show "computes ((c1 @ c2) @ [(?i t (next_id b2))\<lparr>instr_id := j\<rparr>]) e (next_id b) (next_id b2)
        (meaning (BinaryOpExpr op l r ln col) e)"
      using assms(1,2) lowered_opcode_plain [OF assms(3), of ?ty] by (simp add: lowers_to_def v)
  qed
  then show ?thesis by blast
qed

lemma lowers_binary:
  assumes "lowers_to l b v1 b1 c1" "lowers_to r b1 v2 b2 c2" "op \<in> binary_tokens"
    and "unat (next_id b) + expr_nodes (BinaryOpExpr op l r ln col) < 2 ^ 32"
  shows "\<exists>v b' code. lowers_to (BinaryOpExpr op l r ln col) b v b' code"
  using lowers_binary_code [OF assms] by blast

lemma unary_lowering:
  assumes "op \<in> {Tok_Minus, Tok_Bang}"
  obtains opc t nm where "(if op = Tok_Minus then create_neg x Ty_I64 b else if op = Tok_Bang then create_not x b else (0, b))
      = emit t nm (\<lambda>res. Instruction_new opc [x] res t NoExtra) b"
    "plain opc" "binary_value opc = None" "unary_value opc = Some (unary_meaning op)" "opc \<in> {Op_NegI64, Op_Not}"
proof -
  have "unary_value Op_NegI64 = Some (unary_meaning Tok_Minus)" "unary_value Op_Not = Some (unary_meaning Tok_Bang)"
  proof -
    have "exact Ty_I64 (- sint v) = (if sint v = i64_min then Err InternalError else Ok (- v))" for v
      using sint_bounds [of v] by (auto simp: exact_def in_type_I64 limits_64)
    then show "unary_value Op_NegI64 = Some (unary_meaning Tok_Minus)" "unary_value Op_Not = Some (unary_meaning Tok_Bang)"
      by (simp_all add: unary_value_def unary_meaning_def fun_eq_iff)
  qed
  then show ?thesis
    using assms that [of Ty_I64 "''neg''" Op_NegI64] that [of Ty_I1 "''not''" Op_Not]
    by (auto simp: create_neg_def create_not_def UnaryOp_def plain_def binary_value_cases)
qed

lemma lowers_unary_code:
  assumes "lowers_to x b v1 b1 c1" "op \<in> {Tok_Minus, Tok_Bang}"
    and "unat (next_id b) + expr_nodes (UnaryOpExpr op x ln col) < 2 ^ 32"
  shows "\<exists>b' opc t j. opc \<in> {Op_NegI64, Op_Not} \<and>
    lowers_to (UnaryOpExpr op x ln col) b (next_id b1) b' (c1 @ [(Instruction_new opc [v1] (next_id b1) t NoExtra)\<lparr>instr_id := j\<rparr>])"
proof -
  obtain opc t nm where e: "(if op = Tok_Minus then create_neg v1 Ty_I64 b1 else if op = Tok_Bang then create_not v1 b1 else (0, b1))
      = emit t nm (\<lambda>res. Instruction_new opc [v1] res t NoExtra) b1"
    and opc: "plain opc" "binary_value opc = None" "unary_value opc = Some (unary_meaning op)" "opc \<in> {Op_NegI64, Op_Not}"
    using unary_lowering [OF assms(2)] by blast
  have "\<exists>b' j. lowers_to (UnaryOpExpr op x ln col) b (next_id b1) b' (c1 @ [(Instruction_new opc [v1] (next_id b1) t NoExtra)\<lparr>instr_id := j\<rparr>])"
  proof (rule lowers_to_emit_code)
    show "lower (UnaryOpExpr op x ln col) b = Ok (emit t nm (\<lambda>res. Instruction_new opc [v1] res t NoExtra) b1)"
      using assms(1) by (simp add: lowers_to_def flip: e)
    show "grows b c1 b1" "builder_ok b1" using assms(1) by (simp_all add: lowers_to_def grows_def)
    show "unat (next_id b1) + 1 = unat (next_id b) + expr_nodes (UnaryOpExpr op x ln col)" "unat (next_id b1) + 1 < 2 ^ 32"
      using assms(1,3) by (simp_all add: lowers_to_def)
    show "computes (c1 @ [(Instruction_new opc [v1] (next_id b1) t NoExtra)\<lparr>instr_id := j\<rparr>]) e (next_id b) (next_id b1)
        (meaning (UnaryOpExpr op x ln col) e)" if "next_id b \<le> next_id b1" for e j
      using computes_unary [OF _ that opc(1-3)] assms(1) by (simp add: lowers_to_def)
  qed
  with opc(4) show ?thesis by blast
qed

lemma lowers_unary:
  assumes "lowers_to x b v1 b1 c1" "op \<in> {Tok_Minus, Tok_Bang}"
    and "unat (next_id b) + expr_nodes (UnaryOpExpr op x ln col) < 2 ^ 32"
  shows "\<exists>v b' code. lowers_to (UnaryOpExpr op x ln col) b v b' code"
  using lowers_unary_code [OF assms] by blast

lemma lower_correct:
  assumes "lowerable ex" "builder_ok b" "unat (next_id b) + expr_nodes ex < 2 ^ 32"
  shows "\<exists>v b' code. lowers_to ex b v b' code"
  using assms
proof (induction ex arbitrary: b)
  case (LiteralExpr v ln col)
  then show ?case
    by (intro lowers_to_emit [where mk = "ConstOp (u64_const v)" and code = "[]" and ?b1.0 = b])
      (simp_all add: create_const_u64_def computes_const grows_refl)
next
  case (ColumnRefExpr nm ln col)
  then obtain c where c: "resolve_column nm = Some c" by auto
  obtain row where "row_index b = Ok row" using row_index_ok ColumnRefExpr by blast
  then show ?case
    using ColumnRefExpr c
    by (intro lowers_to_emit [where mk = "\<lambda>res. LoadColumnOp (of_nat c) row res (ir_type_of (get_column_type c))"
          and code = "[]" and ?b1.0 = b])
      (simp_all add: column_info create_load_column_def computes_load column_value [OF column_range, symmetric] grows_refl)
next
  case (BinaryOpExpr op l r ln col)
  from BinaryOpExpr obtain v1 b1 c1 where l: "lowers_to l b v1 b1 c1" by fastforce
  have "builder_ok b1" using l by (simp add: lowers_to_def grows_def)
  moreover have "unat (next_id b1) + expr_nodes r < 2 ^ 32"
    using l BinaryOpExpr.prems by (simp add: lowers_to_def)
  ultimately obtain v2 b2 c2 where "lowers_to r b1 v2 b2 c2" using BinaryOpExpr by fastforce
  then show ?case using lowers_binary l BinaryOpExpr.prems by simp
next
  case (UnaryOpExpr op x ln col)
  then obtain v1 b1 c1 where "lowers_to x b v1 b1 c1" by fastforce
  then show ?case using lowers_unary UnaryOpExpr.prems by simp
next
  case (FunctionCallExpr nm args ln col)
  then show ?case by simp
qed

section \<open>Queries\<close>

definition query_builder :: Builder where
  "query_builder =
     (let (k, f) = fn_create_block ''entry'' (Function_new ''query'');
          (p, f) = create_value Ty_U64 ''row_idx'' f in
      \<lparr>bd_function = add_parameter p f, current_block = k, next_temp = 1\<rparr>)"

lemma query_builder_state:
  "builder_ok query_builder" "next_id query_builder = 2" "current_code query_builder = []"
  "current_block query_builder = 0" "entry_block (bd_function query_builder) = Some 0"
  by (simp_all add: query_builder_def fn_create_block_def Function_new_def create_value_def add_parameter_def builder_ok_def
      current_code_def BasicBlock_new_def)

lemma build_where:
  assumes "aggregate_call q = None" "where_expr q = Some ex" "lower ex query_builder = Ok (v, b)"
  shows "build_from_query (Some q) = Ok (Some (bd_function (create_return v b)))"
  using assms unfolding query_builder_def
  by (simp add: build_from_query_def lower_expression_def map_result_def split_beta Let_def)

lemma run_straight_line:
  assumes "entry_block f = Some 0" "blocks f \<noteq> []" "instructions (blocks f ! 0) = code @ [(ReturnOp v)\<lparr>instr_id := j\<rparr>]"
    "computes code e lo v r" "v \<noteq> 0"
  shows "\<exists>st'. ri_execute (Some f) (Some e) st = Some (r, st')"
proof -
  let ?st = "init_values f st" and ?ret = "(ReturnOp v)\<lparr>instr_id := j\<rparr>"
  have "ends_in (run_instructions (code @ [?ret]) e ?st) [?ret] e lo v ?st r"
    using assms(4) by (simp add: computes_def)
  moreover have "run_instructions [?ret] e st' = (Returns (Ok x), count_instruction st')" if "ssa_values st' v = Some x" for st' x
    using that assms(5) by (simp add: ReturnOp_def Instruction_new_def get_val_def count_instruction_def)
  ultimately obtain st' where "run_instructions (code @ [?ret]) e ?st = (Returns r, st')"
    by (cases r) (auto simp: ends_in_def simp del: run_instructions.simps)
  then show ?thesis
    using assms(1-3) by (simp add: ri_execute_def run_blocks.simps [of f e "Some 0"])
qed

text \<open>The function built for a filter: one block with the code of the filter and a return.\<close>

lemma built_query:
  assumes "where_expr q = Some ex" "aggregate_call q = None" "lowers_to ex query_builder v b code"
  obtains f j where "build_from_query (Some q) = Ok (Some f)" "entry_block f = Some 0" "length (blocks f) = 1"
    "instructions (blocks f ! 0) = code @ [(ReturnOp v)\<lparr>instr_id := j\<rparr>]" "v \<noteq> 0"
proof -
  have g: "grows query_builder code b" and "2 \<le> v" using assms(3) by (simp_all add: lowers_to_def query_builder_state)
  let ?f = "bd_function (create_return v b)"
  have "length (blocks (bd_function query_builder)) = 1"
    by (simp add: query_builder_def fn_create_block_def Function_new_def create_value_def add_parameter_def)
  then have f: "entry_block ?f = Some 0" "length (blocks ?f) = 1"
    "instructions (blocks ?f ! 0) = code @ [(ReturnOp v)\<lparr>instr_id := instruction_id_counter (blocks (bd_function b) ! 0)\<rparr>]"
    using g query_builder_state(3) by (auto simp: create_return_def append_instr_def grows_def builder_ok_def current_code_def query_builder_state
        block_append_def Let_def)
  moreover have "build_from_query (Some q) = Ok (Some ?f)" using build_where assms by (simp add: lowers_to_def)
  moreover have "v \<noteq> 0" using \<open>2 \<le> v\<close> by auto
  ultimately show ?thesis using that by blast
qed

lemma lowered_filter_runs:
  assumes "where_expr q = Some ex" "aggregate_call q = None" "lowerable ex" "expr_nodes ex < 2 ^ 32 - 2"
  shows "\<exists>f. build_from_query (Some q) = Ok (Some f) \<and>
    (\<forall>e st. \<exists>st'. ri_execute (Some f) (Some e) st = Some (meaning ex e, st'))"
proof -
  have "unat (next_id query_builder) + expr_nodes ex < 2 ^ 32"
    using assms(4) by (simp add: query_builder_state)
  then obtain v b code where l: "lowers_to ex query_builder v b code"
    using lower_correct [OF assms(3) query_builder_state(1)] by blast
  then obtain f j where f: "build_from_query (Some q) = Ok (Some f)" "entry_block f = Some 0" "length (blocks f) = 1"
    "instructions (blocks f ! 0) = code @ [(ReturnOp v)\<lparr>instr_id := j\<rparr>]" "v \<noteq> 0"
    using built_query [OF assms(1,2)] by blast
  have "\<exists>st'. ri_execute (Some f) (Some e) st = Some (meaning ex e, st')" for e st
    using run_straight_line [OF f(2) _ f(4) _ f(5)] l f(3) unfolding lowers_to_def by fastforce
  then show ?thesis using f(1) by blast
qed

text \<open>
  C3. Lowering a filter is correct. For every query without an aggregate call whose filter consists of
  the operators of the language, literals and names of columns, without function calls and with fewer than
  \<open>2 ^ 32 - 2\<close> nodes, \<open>build_from_query\<close> succeeds, and running the function that it builds in the reference
  interpreter returns on every event, from every earlier state, exactly the meaning of the filter: the exact
  integer value, \<open>InternalError\<close> for an overflow or a division by zero, \<open>NotImplemented\<close> for a signed
  remainder, and a fault only for the quotient of the least integer by -1. \<open>execute_filter\<close> tells
  whether the value differs from zero. (For an aggregation the builder leaves the filter out.)
\<close>

theorem lowering_correct:
  assumes "where_expr q = Some ex" "aggregate_call q = None" "lowerable ex" "expr_nodes ex < 2 ^ 32 - 2"
  shows "\<exists>f. build_from_query (Some q) = Ok (Some f) \<and>
    (\<forall>e st. \<exists>st'. ri_execute (Some f) (Some e) st = Some (meaning ex e, st')) \<and>
    (\<forall>e st. \<exists>st'. execute_filter (Some f) (Some e) st = Some (map_result (\<lambda>w. w \<noteq> 0) (meaning ex e), st'))"
proof -
  obtain f where "build_from_query (Some q) = Ok (Some f)" "\<And>e st. \<exists>st'. ri_execute (Some f) (Some e) st = Some (meaning ex e, st')"
    using lowered_filter_runs [OF assms] by blast
  then show ?thesis by (fastforce simp: execute_filter_def)
qed

definition sample_filter :: Expression where
  "sample_filter = BinaryOpExpr Tok_And
     (BinaryOpExpr Tok_Greater (ColumnRefExpr ''price'' 1 7) (UnaryOpExpr Tok_Minus (LiteralExpr 5 1 16) 1 15) 1 13)
     (BinaryOpExpr Tok_Equal (BinaryOpExpr Tok_Percent (ColumnRefExpr ''qty'' 1 22) (LiteralExpr 100 1 28) 1 26)
       (LiteralExpr 0 1 34) 1 32) 1 18"

theorem lowering_correct_witness:
  "\<exists>f. build_from_query (Some ((QueryStmt_init 1 1)\<lparr>where_expr := Some sample_filter\<rparr>)) = Ok (Some f) \<and>
    (\<forall>e st. \<exists>st'. ri_execute (Some f) (Some e) st = Some (meaning sample_filter e, st')) \<and>
    (\<forall>e st. \<exists>st'. execute_filter (Some f) (Some e) st = Some (map_result (\<lambda>w. w \<noteq> 0) (meaning sample_filter e), st'))"
proof (rule lowering_correct)
  have "resolve_column ''price'' = Some 7" "resolve_column ''qty'' = Some 8"
    unfolding resolve_column_iff names_column_def column_names_def by simp_all
  then show "lowerable sample_filter" by (simp add: sample_filter_def binary_tokens_def)
  show "expr_nodes sample_filter < 2 ^ 32 - 2" by (simp add: sample_filter_def)
qed (simp_all add: aggregate_call_def QueryStmt_init_def)

text \<open>A query text can reach the division that traps, and an aggregation is built without its filter.\<close>

lemma division_traps:
  "meaning (BinaryOpExpr Tok_Slash
     (BinaryOpExpr Tok_Minus (UnaryOpExpr Tok_Minus (LiteralExpr 9223372036854775807 1 1) 1 1) (LiteralExpr 1 1 1) 1 1)
     (UnaryOpExpr Tok_Minus (LiteralExpr 1 1 1) 1 1) 1 1) e = Fault"
  by (simp add: unary_meaning_def binary_meaning_def operand_type_def as_int_def exact_def in_type_def comparison_tokens_def)

lemma aggregation_ignores_filter:
  assumes "aggregate_call q \<noteq> None"
  shows "build_from_query (Some (q\<lparr>where_expr := w\<rparr>)) = build_from_query (Some q)"
proof -
  have "aggregate_call (q\<lparr>where_expr := w\<rparr>) = aggregate_call q"
    by (simp add: aggregate_call_def split: list.split)
  then show ?thesis using assms by (auto simp: build_from_query_def)
qed

end
