(* ===== verification/Query_Sound.thy ===== *)
theory Query_Sound
  imports IR_Semantics
begin

text \<open>
  What the type checker (\<^verbatim>\<open>query/type_checker.cpp\<close>) promises about a filter when it is built
  (\<^verbatim>\<open>query/ir/builder.cpp\<close>) and run (\<^verbatim>\<open>execution/reference_interpreter.cpp\<close>). The builder itself takes an
  unknown name for the first column, so acceptance by the checker is what makes lowering correct; the type
  that the checker gives bounds the values that the filter can have.
\<close>

section \<open>Filters in the language\<close>

fun language_expr :: "Expression \<Rightarrow> bool" where
  "language_expr (LiteralExpr v ln col) = True"
| "language_expr (ColumnRefExpr nm ln col) = True"
| "language_expr (BinaryOpExpr op a b ln col) = (op \<in> binary_tokens \<and> language_expr a \<and> language_expr b)"
| "language_expr (UnaryOpExpr op a ln col) = (op \<in> {Tok_Minus, Tok_Bang} \<and> language_expr a)"
| "language_expr (FunctionCallExpr nm args ln col) = False"

fun divides :: "Expression \<Rightarrow> bool" where
  "divides (LiteralExpr v ln col) = False"
| "divides (ColumnRefExpr nm ln col) = False"
| "divides (BinaryOpExpr op a b ln col) = (op = Tok_Slash \<or> divides a \<or> divides b)"
| "divides (UnaryOpExpr op a ln col) = divides a"
| "divides (FunctionCallExpr nm args ln col) = False"

lemma lowerable_iff: "lowerable ex \<longleftrightarrow> language_expr ex \<and> list_all known_column (column_refs ex)"
  by (induction ex) (auto simp: known_column_iff list_all_append)

section \<open>Types and values\<close>

text \<open>The 64-bit patterns of the values of a column type.\<close>

definition value_of_type :: "u8 \<Rightarrow> u64 \<Rightarrow> bool" where
  "value_of_type t w \<longleftrightarrow>
     (if t = ColBool then w = 0 \<or> w = 1 else if t = ColU8 then uint w < 2 ^ 8
      else if t = ColU16 then uint w < 2 ^ 16 else if t = ColU32 then uint w < 2 ^ 32 else True)"

lemma value_of_type_wide [simp]: "value_of_type ColI64 w" "value_of_type ColU64 w"
  by (simp_all add: value_of_type_def)

lemma truth_value: "truth b = Ok w \<Longrightarrow> value_of_type ColBool w"
  by (auto simp: truth_def value_of_type_def split: if_splits)

lemma narrow_value:
  fixes v :: "'a::len word"
  assumes "LENGTH('a) \<le> k" "k < 64"
  shows "uint (word_of_int (uint v) :: u64) < 2 ^ k"
proof -
  have "uint v < 2 ^ k"
    by (rule less_le_trans [OF uint_lt2p]) (simp add: assms(1))
  moreover have "uint (word_of_int (uint v) :: u64) \<le> uint v"
    by (simp add: unsigned_ucast_eq take_bit_int_less_eq_self_iff)
  ultimately show ?thesis by linarith
qed

lemma column_value_type:
  assumes "c < 12"
  shows "value_of_type (get_column_type c) (word_of_int (column_of c e))"
proof -
  have "c = 0 \<or> c = 1 \<or> c = 2 \<or> c = 3 \<or> c = 4 \<or> c = 5 \<or> c = 6 \<or> c = 7 \<or> c = 8 \<or> c = 9 \<or> c = 10 \<or> c = 11"
    using assms by presburger
  then show ?thesis
    using narrow_value [where k = 32, of "instrument_id e"] narrow_value [where k = 32, of "quantity e"]
      narrow_value [where k = 16, of "flags e"] narrow_value [where k = 16, of "venue_id e"] narrow_value [where k = 16, of "source_id e"]
      narrow_value [where k = 8, of "event_type e"] narrow_value [where k = 8, of "side e"]
    by (elim disjE) (simp_all add: get_column_type_def column_of_def value_of_type_def)
qed

lemma compared_value:
  assumes "op \<in> comparison_tokens" "binary_meaning op ty v w = r"
  shows "\<exists>b. r = truth b"
  using assms by (auto simp: comparison_tokens_def binary_meaning_def Let_def)

lemma checked_type_signed: "language_expr ex \<Longrightarrow> check_node ex = Ok t \<Longrightarrow> t = ColI64 \<longleftrightarrow> signed_expr ex"
proof (induction ex arbitrary: t)
  case (ColumnRefExpr nm ln col)
  have "names_column nm 7 \<longleftrightarrow> resolve_column nm = Some 7" by (simp add: resolve_column_iff)
  then show ?case
    using ColumnRefExpr column_range [of nm] column_type_price
    by (cases "resolve_column nm") (auto simp: names_price)
next
  case (BinaryOpExpr op a b ln col)
  then show ?case by (auto simp: obind_eq_Ok split: if_splits)
next
  case (UnaryOpExpr op a ln col)
  then show ?case by (auto simp: obind_eq_Ok split: if_splits)
qed auto

lemma checked_value:
  assumes "language_expr ex" "check_node ex = Ok t" "meaning ex e = Ok w"
  shows "value_of_type t w"
  using assms
proof (cases ex)
  case (ColumnRefExpr nm ln col)
  then show ?thesis
    using assms column_range [of nm] column_value_type by (auto split: option.splits)
next
  case (BinaryOpExpr op a b ln col)
  show ?thesis
  proof (cases "op \<in> comparison_tokens")
    case True
    obtain v1 v2 ty where "binary_meaning op ty v1 v2 = Ok w"
      using assms(3) BinaryOpExpr by (auto simp: obind_eq_Ok)
    from compared_value [OF True this] truth_value have "value_of_type ColBool w" by metis
    moreover have "t = ColBool" using assms(2) BinaryOpExpr True by (auto simp: obind_eq_Ok)
    ultimately show ?thesis by simp
  next
    case False
    then have "t = ColI64 \<or> t = ColU64" using assms(2) BinaryOpExpr by (auto simp: obind_eq_Ok split: if_splits)
    then show ?thesis by auto
  qed
next
  case (UnaryOpExpr op a ln col)
  then show ?thesis
    using assms truth_value by (auto simp: obind_eq_Ok unary_meaning_def split: if_splits)
qed auto

lemma exact_not_Fault: "exact ty r \<noteq> Fault"
  by (simp add: exact_def)

lemma binary_not_Fault: "op \<in> binary_tokens \<Longrightarrow> op \<noteq> Tok_Slash \<Longrightarrow> binary_meaning op ty v w \<noteq> Fault"
  by (auto simp: binary_tokens_def binary_meaning_def Let_def exact_not_Fault truth_def)

lemma meaning_not_Fault: "lowerable ex \<Longrightarrow> \<not> divides ex \<Longrightarrow> meaning ex e \<noteq> Fault"
proof (induction ex)
  case (UnaryOpExpr op a ln col)
  then show ?case by (intro notI) (auto simp: obind_def unary_meaning_def exact_not_Fault truth_def split: outcome.splits)
next
  case (BinaryOpExpr op a b ln col)
  then show ?case using binary_not_Fault [of op] unfolding meaning_binary by (intro obind_not_Fault) auto
qed auto

section \<open>Soundness\<close>

lemma accepted_filter:
  assumes "check_query (Some q) = Ok ()" "where_expr q = Some ex" "language_expr ex"
  obtains t where "check_expression (Some ex) = Ok t" "lowerable ex"
proof -
  have "list_all known_column (column_refs ex)"
    using assms(1,2) by (auto simp: check_query_result checked_names_def option_refs_def list_all_append split: if_splits)
  then show ?thesis
    using that check_node_accepts(1) [of ex] assms(3) by (auto simp: lowerable_iff check_expression_def)
qed

text \<open>
  C7. What acceptance by the type checker means. \<open>check_query\<close> answers \<open>Ok\<close> exactly when every name in the
  expressions of the projections (other than \<open>*\<close>) and of the \<^verbatim>\<open>WHERE\<close> clause, and every name that the query
  groups or orders by, is a name of a column, in any case, and \<open>InvalidArgument\<close> otherwise; names in
  \<^verbatim>\<open>LET\<close>, \<^verbatim>\<open>TUMBLE\<close> and \<^verbatim>\<open>AGG\<close> are not looked at. An accepted filter of the operators of the language,
  without calls, has a type, which is the signed one exactly for the signed expressions. If the query has no
  aggregate call, the filter is built, and running it on any event gives a value of that type (zero or one for
  the Boolean type, a value of the width for a narrow column) or an error, and leaves the defined behaviour
  only if the filter divides.
\<close>

theorem type_checker_sound:
  "(check_query (Some q) = (if list_all known_column (checked_names q) then Ok () else Err InvalidArgument))
   \<and> check_query (Some (q\<lparr>let_bindings := ls, tumble_window := tw, aggregations := ag\<rparr>)) = check_query (Some q)
   \<and> (check_query (Some q) = Ok () \<and> where_expr q = Some ex \<and> language_expr ex \<longrightarrow>
      (\<exists>t. check_expression (Some ex) = Ok t \<and> (t = ColI64 \<longleftrightarrow> signed_expr ex) \<and>
        (aggregate_call q = None \<and> expr_nodes ex < 2 ^ 32 - 2 \<longrightarrow>
          (\<exists>f. build_from_query (Some q) = Ok (Some f) \<and>
            (\<forall>e st. \<exists>r st'. ri_execute (Some f) (Some e) st = Some (r, st') \<and>
              (\<forall>w. r = Ok w \<longrightarrow> value_of_type t w) \<and> (r = Fault \<longrightarrow> divides ex))))))"
proof (intro conjI impI)
  show "check_query (Some q) = (if list_all known_column (checked_names q) then Ok () else Err InvalidArgument)"
    by (rule check_query_result)
  show "check_query (Some (q\<lparr>let_bindings := ls, tumble_window := tw, aggregations := ag\<rparr>)) = check_query (Some q)"
    by (simp add: check_query_def)
  assume a: "check_query (Some q) = Ok () \<and> where_expr q = Some ex \<and> language_expr ex"
  then obtain t where t: "check_expression (Some ex) = Ok t" and low: "lowerable ex" by (blast elim: accepted_filter)
  then have n: "check_node ex = Ok t" by (simp add: check_expression_def)
  have "\<exists>f. build_from_query (Some q) = Ok (Some f) \<and> (\<forall>e st. \<exists>r st'. ri_execute (Some f) (Some e) st = Some (r, st') \<and>
        (\<forall>w. r = Ok w \<longrightarrow> value_of_type t w) \<and> (r = Fault \<longrightarrow> divides ex))"
    if "aggregate_call q = None" "expr_nodes ex < 2 ^ 32 - 2"
    using lowered_filter_runs [OF _ that(1) low that(2)] a checked_value [OF _ n] meaning_not_Fault [OF low] by metis
  then show "\<exists>t. check_expression (Some ex) = Ok t \<and> (t = ColI64 \<longleftrightarrow> signed_expr ex) \<and>
        (aggregate_call q = None \<and> expr_nodes ex < 2 ^ 32 - 2 \<longrightarrow>
          (\<exists>f. build_from_query (Some q) = Ok (Some f) \<and>
            (\<forall>e st. \<exists>r st'. ri_execute (Some f) (Some e) st = Some (r, st') \<and>
              (\<forall>w. r = Ok w \<longrightarrow> value_of_type t w) \<and> (r = Fault \<longrightarrow> divides ex))))"
    using t checked_type_signed [OF _ n] a by (intro exI [of _ t]) simp
qed

theorem type_checker_sound_witness:
  "check_query (Some ((QueryStmt_init 1 1)\<lparr>where_expr := Some sample_filter\<rparr>)) = Ok ()
   \<and> (\<exists>f. build_from_query (Some ((QueryStmt_init 1 1)\<lparr>where_expr := Some sample_filter\<rparr>)) = Ok (Some f) \<and>
      (\<forall>e st. \<exists>r st'. ri_execute (Some f) (Some e) st = Some (r, st') \<and> (r = Ok 0 \<or> r = Ok 1 \<or> (\<exists>c. r = Err c))))"
proof -
  let ?q = "(QueryStmt_init 1 1)\<lparr>where_expr := Some sample_filter\<rparr>"
  have k: "known_column ''price''" "known_column ''qty''"
    by (simp_all add: known_column_def column_names_def)
  have ok: "check_query (Some ?q) = Ok ()"
    using k by (simp add: check_query_result checked_names_def option_refs_def QueryStmt_init_def sample_filter_def)
  have l: "language_expr sample_filter" "expr_nodes sample_filter < 2 ^ 32 - 2" "\<not> divides sample_filter"
    by (simp_all add: sample_filter_def binary_tokens_def)
  obtain c1 c2 where "resolve_column ''price'' = Some c1" "resolve_column ''qty'' = Some c2"
    using k by (auto simp: known_column_iff)
  then have t: "check_expression (Some sample_filter) = Ok ColBool"
    by (simp add: sample_filter_def check_expression_def comparison_tokens_def)
  have "aggregate_call ?q = None" by (simp add: aggregate_call_def QueryStmt_init_def)
  then obtain f where f: "build_from_query (Some ?q) = Ok (Some f)"
    "\<forall>e st. \<exists>r st'. ri_execute (Some f) (Some e) st = Some (r, st') \<and>
       (\<forall>w. r = Ok w \<longrightarrow> value_of_type ColBool w) \<and> (r = Fault \<longrightarrow> divides sample_filter)"
    using type_checker_sound [of ?q "[]" None "[]" sample_filter] ok l t by auto
  have cases: "r = Ok 0 \<or> r = Ok 1 \<or> (\<exists>c. r = Err c)"
    if "\<forall>w. r = Ok w \<longrightarrow> value_of_type ColBool w" "r = Fault \<longrightarrow> divides sample_filter" for r
    using that l(3) by (cases r) (auto simp: value_of_type_def)
  have "\<exists>r st'. ri_execute (Some f) (Some e) st = Some (r, st') \<and> (r = Ok 0 \<or> r = Ok 1 \<or> (\<exists>c. r = Err c))" for e st
    using f(2) [rule_format, of e st] cases by blast
  then show ?thesis using ok f(1) by blast
qed

end
