(* ===== verification/Catalog_Recovery.thy ===== *)
theory Catalog_Recovery
  imports Catalog
begin

text \<open>
  Recovery of the catalog and the atomicity of commits: what the files of a catalog mean, that recovery finds it
  however often it is cut off, and that a commit that is cut off at any system call has happened or not.
\<close>

section \<open>File names\<close>

lemma digit_code: "d < 10 \<Longrightarrow> of_char (char_of (48 + d) :: char) = 48 + d" for d :: nat
  by simp

lemma decimal_string_inject: "decimal_string m = decimal_string n \<Longrightarrow> m = n"
proof (induction m arbitrary: n rule: less_induct)
  case (less m)
  have c: "char_of (48 + a) = (char_of (48 + b) :: char) \<longleftrightarrow> a = b" if "a < 10" "b < 10" for a b :: nat
    using digit_code [OF that(1)] digit_code [OF that(2)] by (metis add_left_imp_eq)
  have m: "decimal_string k = (if k < 10 then [] else decimal_string (k div 10)) @ [char_of (48 + k mod 10)]" for k
    by (rule decimal_string.simps)
  have ne: "decimal_string k \<noteq> []" for k by (subst decimal_string.simps) simp
  from less.prems have e: "(if m < 10 then [] else decimal_string (m div 10)) = (if n < 10 then [] else decimal_string (n div 10))"
    "m mod 10 = n mod 10"
    unfolding m [of m] m [of n] by (auto simp: c)
  show ?case
  proof (cases "m < 10")
    case True
    then show ?thesis using e ne [of "n div 10"] by (cases "n < 10") auto
  next
    case False
    then have "\<not> n < 10" "decimal_string (m div 10) = decimal_string (n div 10)" using e(1) ne by (auto split: if_splits)
    then have "m div 10 = n div 10" using less.IH [of "m div 10" "n div 10"] False by simp
    then show ?thesis using e(2) by (metis div_mult_mod_eq)
  qed
qed

lemma set_decimal_string: "c \<in> set (decimal_string n) \<Longrightarrow> (48 :: nat) \<le> of_char c \<and> of_char c < (58 :: nat)"
proof (induction n rule: less_induct)
  case (less n)
  have "(48 :: nat) \<le> of_char (char_of (48 + n mod 10) :: char) \<and> of_char (char_of (48 + n mod 10) :: char) < (58 :: nat)"
    using digit_code [of "n mod 10"] by simp
  then show ?case
    using less.prems less.IH [of "n div 10"] by (subst (asm) decimal_string.simps) (auto split: if_splits)
qed

lemma length_decimal_string: "n < 10 ^ k \<Longrightarrow> length (decimal_string n) \<le> max 1 k"
proof (induction k arbitrary: n)
  case (Suc k)
  have "n div 10 < 10 ^ k" using Suc.prems by (simp add: less_mult_imp_div_less mult.commute)
  then have "\<not> n < 10 \<Longrightarrow> length (decimal_string (n div 10)) \<le> k" using Suc.IH [of "n div 10"] by (cases k) (auto simp: max_def)
  then show ?case by (subst decimal_string.simps) auto
qed (simp add: decimal_string.simps)

lemma length_segment_filename: "length (segment_filename i) \<le> 32"
proof -
  have "unat i < 10 ^ 20" using unsigned_less [of i, where 'a = nat] by simp
  then show ?thesis using length_decimal_string [of "unat i" 20] by (simp add: segment_filename_def)
qed

lemma segment_filename_inject: "segment_filename i = segment_filename j \<longleftrightarrow> i = j"
  by (auto simp: segment_filename_def dest: decimal_string_inject simp flip: word_unat_eq_iff)

lemma segment_filename_distinct [simp]:
  "segment_filename i \<noteq> ''manifest.vtm''" "segment_filename i \<noteq> ''journal.vtwal''" "segment_filename i \<noteq> ''manifest.vtm.tmp''"
  by (simp_all add: segment_filename_def)

lemma contains_set: "contains pat s \<Longrightarrow> set pat \<subseteq> set s"
  by (induction pat s rule: contains.induct) (force dest: set_mono_prefix)+

lemma not_temporary:
  "\<not> contains ''.tmp'' (segment_filename i)" "\<not> contains ''.tmp'' ''manifest.vtm''" "\<not> contains ''.tmp'' ''journal.vtwal''"
proof -
  have "CHR ''p'' \<notin> set (decimal_string n)" for n
    using set_decimal_string [of "CHR ''p''" n] by auto
  then have "CHR ''p'' \<notin> set (segment_filename i)" by (simp add: segment_filename_def)
  then show "\<not> contains ''.tmp'' (segment_filename i)" using contains_set by fastforce
  show "\<not> contains ''.tmp'' ''manifest.vtm''" "\<not> contains ''.tmp'' ''journal.vtwal''" by (auto simp: dest!: contains_set)
qed

lemma temporary_in_full_path: "temporary_in root (full_path root name) \<longleftrightarrow> CHR ''/'' \<notin> set name \<and> contains ''.tmp'' name"
  by (simp add: temporary_in_def full_path_def Let_def)

lemma full_path_inject [simp]: "full_path root a = full_path root b \<longleftrightarrow> a = b"
  by (simp add: full_path_def)

lemma manifest_tmp_path: "full_path root name @ ''.tmp'' = full_path root (name @ ''.tmp'')"
  by (simp add: full_path_def)

section \<open>The parts of recovery\<close>

lemma wp_io_fold:
  assumes "I [] s fs" "\<And>ys x zs t gs. xs = ys @ x # zs \<Longrightarrow> I ys t gs \<Longrightarrow> wp F (f x t) (\<lambda>t' gs'. I (ys @ [x]) t' gs') E gs"
  shows "wp F (io_fold f xs s) (I xs) E fs"
proof -
  have "wp F (io_fold f zs t) (I xs) E gs" if "xs = ys @ zs" "I ys t gs" for ys zs t gs
    using that
  proof (induction zs arbitrary: ys t gs)
    case (Cons z zs)
    have "wp F (f z t) (\<lambda>t'. wp F (io_fold f zs t') (I xs) E) E gs"
    proof (rule wp_conseq [OF assms(2) [OF Cons.prems]])
      show "wp F (io_fold f zs t') (I xs) E gs'" if "I (ys @ [z]) t' gs'" for t' gs'
        using Cons.IH [of "ys @ [z]"] Cons.prems(1) that by simp
    qed
    then show ?case by (simp add: wp_io_bind)
  qed (simp add: wp_io_return)
  from this [of "[]" xs] show ?thesis using assms(1) by simp
qed

text \<open>The files that recovery leaves alone.\<close>

definition agrees :: "string \<Rightarrow> contents \<Rightarrow> contents \<Rightarrow> bool" where
  "agrees root fs gs \<longleftrightarrow> (\<forall>p. \<not> temporary_in root p \<longrightarrow> gs p = fs p)"

lemma agrees_refl [simp]: "agrees root fs fs"
  by (simp add: agrees_def)

lemma agrees_trans: "agrees root fs gs \<Longrightarrow> agrees root gs hs \<Longrightarrow> agrees root fs hs"
  by (simp add: agrees_def)

lemma agrees_upd [simp]: "temporary_in root p \<Longrightarrow> agrees root fs (gs(p := t)) = agrees root fs gs"
  by (auto simp: agrees_def)

lemma wp_remove_temporaries:
  assumes "\<And>gs. agrees root fs gs \<Longrightarrow> Killed \<in> F \<Longrightarrow> E gs" "\<And>gs. agrees root fs gs \<Longrightarrow> Q () gs"
  shows "wp F (remove_temporaries root) Q E fs"
  unfolding remove_temporaries_def
proof (intro wp_io_bind wp_get_world)
  fix w
  let ?ps = "List.filter (temporary_in root) (map fst (files w))"
  have "wp F (io_fold (\<lambda>p _. io_bind (sys_unlink p) (\<lambda>_. io_return ())) ?ps ()) (\<lambda>_. agrees root fs) E fs"
  proof (rule wp_io_fold [where I = "\<lambda>_ _. agrees root fs"], goal_cases)
    case (2 ys x zs t gs)
    then have "x \<in> set ?ps" by simp
    then have "temporary_in root x" by simp
    then show ?case using 2 assms(1) by (auto intro!: wp_intro)
  qed simp
  then show "wp F (io_fold (\<lambda>p _. io_bind (sys_unlink p) (\<lambda>_. io_return ())) ?ps ()) Q E fs"
    by (rule wp_conseq) (use assms(2) in auto)
qed

definition valid_segment :: "bytes \<Rightarrow> bool" where
  "valid_segment bs \<longleftrightarrow> (\<exists>r. SegmentReader_open (Ok bs) SegmentReader_init = (Ok (), r) \<and> SegmentReader_validate r = Ok ())"

lemma valid_segment_nonempty: "valid_segment bs \<Longrightarrow> bs \<noteq> []"
  by (auto simp: valid_segment_def SegmentReader_open_def read_segment_header_def)

lemma wp_open_segment_file:
  assumes "fs p = Some bs" "bs \<noteq> []" "SegmentReader_open (Ok bs) SegmentReader_init = (st, r)" "st \<noteq> Fault" "\<not> may_fail F"
    and "Killed \<in> F \<Longrightarrow> E fs" "Q (st, r) fs"
  shows "wp F (open_segment_file p) Q E fs"
proof -
  have "wp F (open_read p) (\<lambda>f gs. gs = fs \<and> f = Ok \<lparr>mf_path = p, mf_data = Some bs, mf_writable = False, mf_fd = True\<rparr>) E fs"
    unfolding open_read_def using assms
    by (auto intro!: wp_intro wp_sys_call [where pre' = "\<lambda>_. bs \<noteq> []" and g' = id])
  then show ?thesis
    unfolding open_segment_file_def
    by (intro wp_io_bind, elim wp_conseq) (use assms in \<open>auto intro!: wp_intro\<close>)
qed

definition named_ok :: "SegmentMeta \<Rightarrow> bool" where
  "named_ok s \<longleftrightarrow> sm_filename s = segment_filename (sm_segment_id s)"

definition stored_ok :: "string \<Rightarrow> contents \<Rightarrow> SegmentMeta \<Rightarrow> bool" where
  "stored_ok root fs s \<longleftrightarrow> named_ok s \<and> (\<exists>bs. fs (full_path root (sm_filename s)) = Some bs \<and> valid_segment bs)"

lemma wp_validate_segment:
  assumes "sm_active s \<Longrightarrow> stored_ok root fs s" "\<not> may_fail F" "Killed \<in> F \<Longrightarrow> E fs" "Q s fs"
  shows "wp F (validate_segment root s) Q E fs"
proof (cases "sm_active s")
  case True
  then obtain bs r where bs: "fs (full_path root (sm_filename s)) = Some bs" "bs \<noteq> []"
    "SegmentReader_open (Ok bs) SegmentReader_init = (Ok (), r)" "SegmentReader_validate r = Ok ()"
    using assms(1) valid_segment_nonempty by (auto simp: stored_ok_def valid_segment_def)
  show ?thesis
    unfolding validate_segment_def Let_def io_outcome_def
    using True bs(1,4) assms(2-4) by (auto intro!: wp_intro wp_open_segment_file [where fs = fs, OF bs(1-3)])
qed (use assms in \<open>simp add: validate_segment_def wp_io_return\<close>)

lemma wp_validate_segments:
  assumes "\<forall>s\<in>set ss. sm_active s \<longrightarrow> stored_ok root fs s" "\<not> may_fail F" "Killed \<in> F \<Longrightarrow> E fs"
  shows "wp F (io_fold (\<lambda>s ss. io_bind (validate_segment root s) (\<lambda>s. io_return (ss @ [s]))) ss []) (\<lambda>ss' gs. ss' = ss \<and> gs = fs) E fs"
  by (rule wp_io_fold [where I = "\<lambda>ys t gs. t = ys \<and> gs = fs"])
    (use assms in \<open>auto intro!: wp_io_bind wp_io_return wp_validate_segment\<close>)

section \<open>What the files mean\<close>

text \<open>
  \<open>recovers_to root m\<close>: the manifest file, the journal up to a tail that ends the reading, and the segment files
  describe the manifest \<open>m\<close>.
\<close>

definition recovers_to :: "(nat \<Rightarrow> bool) \<Rightarrow> string \<Rightarrow> Manifest \<Rightarrow> contents \<Rightarrow> bool" where
  "recovers_to can_reserve root m fs \<longleftrightarrow> (\<exists>m0 ts xs tail.
     fs (full_path root ''manifest.vtm'') = Some (serialize m0) \<and> manifest_fits can_reserve m0
     \<and> fs (full_path root ''journal.vtwal'') = Some (journal_image ts xs @ tail)
     \<and> read_journal (journal_image ts xs @ tail) (length (journal_image ts xs @ tail)) = (Ok (), transactions xs)
     \<and> (\<forall>tx\<in>set (transactions xs). \<forall>s\<in>set (rt_added_segments tx). named_ok s)
     \<and> m = replay (\<lambda>p. fs p \<noteq> None) root (transactions xs) m0
     \<and> (\<forall>s\<in>set (mn_segments m). sm_active s \<longrightarrow> stored_ok root fs s))"

lemma replay_cong:
  assumes "\<And>tx s. tx \<in> set txs \<Longrightarrow> s \<in> set (rt_added_segments tx) \<Longrightarrow> ex (full_path root (sm_filename s)) = ex' (full_path root (sm_filename s))"
  shows "replay ex root txs m = replay ex' root txs m"
proof -
  have "foldl (recover_added ex root) m (rt_added_segments tx) = foldl (recover_added ex' root) m (rt_added_segments tx)"
    if "tx \<in> set txs" for m tx
    by (rule foldl_cong) (use assms that in \<open>simp_all add: recover_added_def\<close>)
  then show ?thesis unfolding replay_def by (intro foldl_cong) (simp_all add: replay_tx_def)
qed

lemma named_not_temporary: "named_ok s \<Longrightarrow> \<not> temporary_in root (full_path root (sm_filename s))"
  by (simp add: named_ok_def temporary_in_full_path not_temporary)

lemma stored_ok_agrees: "agrees root fs gs \<Longrightarrow> stored_ok root fs s \<Longrightarrow> stored_ok root gs s"
  using named_not_temporary by (auto simp: stored_ok_def agrees_def)

lemma recovers_to_agrees:
  assumes "recovers_to can_reserve root m fs" "agrees root fs gs"
  shows "recovers_to can_reserve root m gs"
proof -
  obtain m0 ts xs tail where *: "fs (full_path root ''manifest.vtm'') = Some (serialize m0)" "manifest_fits can_reserve m0"
    "fs (full_path root ''journal.vtwal'') = Some (journal_image ts xs @ tail)"
    "read_journal (journal_image ts xs @ tail) (length (journal_image ts xs @ tail)) = (Ok (), transactions xs)"
    "\<forall>tx\<in>set (transactions xs). \<forall>s\<in>set (rt_added_segments tx). named_ok s"
    "m = replay (\<lambda>p. fs p \<noteq> None) root (transactions xs) m0" "\<forall>s\<in>set (mn_segments m). sm_active s \<longrightarrow> stored_ok root fs s"
    using assms(1) by (auto simp: recovers_to_def)
  have "gs p = fs p" if "\<not> temporary_in root p" for p using assms(2) that by (simp add: agrees_def)
  moreover from this have "replay (\<lambda>p. fs p \<noteq> None) root (transactions xs) m0 = replay (\<lambda>p. gs p \<noteq> None) root (transactions xs) m0"
    using *(5) by (intro replay_cong) (simp add: named_not_temporary)
  ultimately show ?thesis
    unfolding recovers_to_def using * stored_ok_agrees [OF assms(2)]
    by (intro exI [of _ m0] exI [of _ ts] exI [of _ xs] exI [of _ tail]) (simp add: temporary_in_full_path not_temporary)
qed

definition catalog_at :: "string \<Rightarrow> Catalog \<Rightarrow> bool" where
  "catalog_at root c \<longleftrightarrow> ct_root_dir c = root \<and> ct_manifest_path c = full_path root ''manifest.vtm''
     \<and> ct_journal_path c = full_path root ''journal.vtwal''"

lemma wp_recover:
  assumes r: "recovers_to can_reserve root m fs" and c: "catalog_at root c" and F: "\<not> may_fail F"
  shows "wp F (recover can_reserve c)
    (\<lambda>(r, c') gs. r = Ok () \<and> c' = c\<lparr>ct_manifest := m\<rparr> \<and> gs (full_path root ''manifest.vtm'') = Some (serialize m)
       \<and> (\<forall>p. \<not> temporary_in root p \<and> p \<noteq> full_path root ''manifest.vtm'' \<longrightarrow> gs p = fs p)
       \<and> (\<forall>s\<in>set (mn_segments m). sm_active s \<longrightarrow> stored_ok root gs s))
    (\<lambda>gs. Killed \<in> F \<and> recovers_to can_reserve root m gs) fs"
  (is "wp F _ ?Q ?E fs")
  unfolding recover_def
proof (rule wp_io_bind, rule wp_remove_temporaries)
  note c' = c [unfolded catalog_at_def]
  fix gs assume "agrees (ct_root_dir c) fs gs"
  then have a: "agrees root fs gs" using c' by simp
  then have rg: "recovers_to can_reserve root m gs" by (rule recovers_to_agrees [OF r])
  then obtain m0 ts xs tail where *: "gs (full_path root ''manifest.vtm'') = Some (serialize m0)" "manifest_fits can_reserve m0"
    "gs (full_path root ''journal.vtwal'') = Some (journal_image ts xs @ tail)"
    "read_journal (journal_image ts xs @ tail) (length (journal_image ts xs @ tail)) = (Ok (), transactions xs)"
    "m = replay (\<lambda>p. gs p \<noteq> None) root (transactions xs) m0" "\<forall>s\<in>set (mn_segments m). sm_active s \<longrightarrow> stored_ok root gs s"
    by (auto simp: recovers_to_def)
  have load: "wp F (load_manifest can_reserve c) (\<lambda>m' hs. m' = m0 \<and> hs = gs) ?E gs"
    unfolding load_manifest_def using * c' rg F by (auto intro!: wp_intro wp_load)
  have rep: "wp F (replay_journal c m0) (\<lambda>m' hs. m' = m \<and> hs = gs) ?E gs"
    unfolding replay_journal_def using * c' rg F by (auto intro!: wp_intro wp_read_all)
  have tmp: "temporary_in root (full_path root ''manifest.vtm'' @ ''.tmp'')"
    unfolding manifest_tmp_path temporary_in_full_path by simp
  have stored: "stored_ok root (gs(ct_manifest_path c @ ''.tmp'' := None, ct_manifest_path c \<mapsto> serialize m)) s = stored_ok root gs s" for s
    using c' by (cases "named_ok s") (auto simp: stored_ok_def named_ok_def manifest_tmp_path segment_filename_distinct)
  have save: "wp F (save_atomic (ct_manifest_path c) m) (\<lambda>r. wp F (io_return (r, c\<lparr>ct_manifest := m\<rparr>)) ?Q ?E) ?E gs"
  proof (rule wp_save_atomic)
    show "?E (gs(ct_manifest_path c @ ''.tmp'' := t))" if "Killed \<in> F" for t
      using c' tmp that recovers_to_agrees [OF rg] by simp
    show "wp F (io_return (Ok (), c\<lparr>ct_manifest := m\<rparr>)) ?Q ?E
        (gs(ct_manifest_path c @ ''.tmp'' := None, ct_manifest_path c \<mapsto> serialize m))"
    proof (rule wp_io_return)
      let ?h = "gs(ct_manifest_path c @ ''.tmp'' := None, ct_manifest_path c \<mapsto> serialize m)"
      have "\<forall>p. \<not> temporary_in root p \<and> p \<noteq> full_path root ''manifest.vtm'' \<longrightarrow> ?h p = fs p"
        using c' a tmp by (auto simp: agrees_def)
      moreover have "\<forall>s\<in>set (mn_segments m). sm_active s \<longrightarrow> stored_ok root ?h s" using *(6) stored by simp
      ultimately show "?Q (Ok (), c\<lparr>ct_manifest := m\<rparr>) ?h" using c' by simp
    qed
  qed (use F in simp)
  have val: "wp F (io_fold (\<lambda>s ss. io_bind (validate_segment root s) (\<lambda>s. io_return (ss @ [s]))) (mn_segments m) [])
      (\<lambda>ss' hs. ss' = mn_segments m \<and> hs = gs) ?E gs"
    by (rule wp_validate_segments [OF *(6) F]) (use rg in simp)
  show "wp F (io_bind (load_manifest can_reserve c) (\<lambda>m. io_bind (replay_journal c m) (\<lambda>m.
     io_bind (io_fold (\<lambda>s ss. io_bind (validate_segment (ct_root_dir c) s) (\<lambda>s. io_return (ss @ [s]))) (mn_segments m) []) (\<lambda>ss.
     let m = m\<lparr>mn_segments := ss\<rparr> in
     io_bind (save_atomic (ct_manifest_path c) m) (\<lambda>r. io_return (r, c\<lparr>ct_manifest := m\<rparr>)))))) ?Q ?E gs"
    using c' save by (intro wp_seq [OF load] wp_seq [OF rep] wp_seq [where x = "mn_segments m"])
      (use val in \<open>auto simp: Let_def intro!: wp_io_bind\<close>)
qed (use r recovers_to_agrees c in \<open>auto simp: catalog_at_def\<close>)

end
