(* ===== verification/Catalog_Commit.thy ===== *)
theory Catalog_Commit
  imports Catalog_Recovery
begin

text \<open>
  Commits: the state of a catalog between operations, what recovery makes of the files when a commit is cut off, and
  that a commit leaves such a state behind.
\<close>

section \<open>Replaying onto an extended manifest\<close>

abbreviation segment_ids :: "Manifest \<Rightarrow> u64 set" where
  "segment_ids m \<equiv> sm_segment_id ` set (mn_segments m)"

text \<open>\<open>extend e a b m\<close> has further segments \<open>e\<close> and the next identifiers \<open>a\<close> and \<open>b\<close>.\<close>

definition extend :: "SegmentMeta list \<Rightarrow> u64 \<Rightarrow> u64 \<Rightarrow> Manifest \<Rightarrow> Manifest" where
  "extend e a b m = m\<lparr>mn_segments := mn_segments m @ e, mn_next_segment_id := a, mn_next_tx_id := b\<rparr>"

lemma put_segment_append: "sm_segment_id s \<in> sm_segment_id ` set ss \<Longrightarrow> put_segment s (ss @ e) = put_segment s ss @ e"
  by (induction ss) auto

lemma put_segment_new: "sm_segment_id s \<notin> sm_segment_id ` set ss \<Longrightarrow> put_segment s ss = ss @ [s]"
  by (induction ss) auto

lemma put_segment_ids: "sm_segment_id ` set (put_segment s ss) = insert (sm_segment_id s) (sm_segment_id ` set ss)"
  by (induction ss) auto

lemma deactivate_append: "i \<notin> sm_segment_id ` set e \<Longrightarrow> snd (deactivate i (ss @ e)) = snd (deactivate i ss) @ e"
proof (induction ss)
  case Nil
  then show ?case by (induction e) (auto simp: case_prod_unfold Let_def)
qed (auto simp: case_prod_unfold Let_def)

lemma deactivate_ids: "sm_segment_id ` set (snd (deactivate i ss)) = sm_segment_id ` set ss"
  by (induction ss) (auto simp: case_prod_unfold Let_def)

text \<open>The transactions recovery has already applied to a manifest.\<close>

definition covered :: "(string \<Rightarrow> bool) \<Rightarrow> string \<Rightarrow> Manifest \<Rightarrow> RecoveredTx \<Rightarrow> bool" where
  "covered ex root m tx \<longleftrightarrow> (rt_committed tx \<longrightarrow> rt_tx_id tx < mn_next_tx_id m
     \<and> (\<forall>s\<in>set (rt_added_segments tx). ex (full_path root (sm_filename s)) \<longrightarrow>
          sm_segment_id s \<in> segment_ids m \<and> sm_segment_id s < mn_next_segment_id m))"

definition same_ids :: "Manifest \<Rightarrow> Manifest \<Rightarrow> bool" where
  "same_ids m n \<longleftrightarrow> segment_ids n = segment_ids m \<and> mn_next_segment_id n = mn_next_segment_id m \<and> mn_next_tx_id n = mn_next_tx_id m"

lemma recover_added_extend:
  assumes "ex (full_path root (sm_filename s)) \<Longrightarrow> sm_segment_id s \<in> segment_ids m \<and> sm_segment_id s < mn_next_segment_id m"
    and "mn_next_segment_id m \<le> a"
  shows "recover_added ex root (extend e a b m) s = extend e a b (recover_added ex root m s)
    \<and> same_ids m (recover_added ex root m s)"
  using assms
  by (auto simp: recover_added_def extend_def add_segment_def put_segment_append put_segment_ids same_ids_def Let_def)

lemma remove_segment_extend:
  assumes "i \<notin> sm_segment_id ` set e"
  shows "snd (remove_segment i (extend e a b m)) = extend e a b (snd (remove_segment i m)) \<and> same_ids m (snd (remove_segment i m))"
  using assms deactivate_append [of i e "mn_segments m"]
  by (simp add: remove_segment_def extend_def same_ids_def deactivate_ids case_prod_unfold Let_def)

lemma same_ids_trans: "same_ids a b \<Longrightarrow> same_ids b c \<Longrightarrow> same_ids a c"
  by (simp add: same_ids_def)

lemma foldl_extend:
  assumes "\<And>x n. x \<in> set xs \<Longrightarrow> same_ids m n \<Longrightarrow> f (extend e a b n) x = extend e a b (f n x) \<and> same_ids n (f n x)"
  shows "foldl f (extend e a b m) xs = extend e a b (foldl f m xs) \<and> same_ids m (foldl f m xs)"
  using assms
proof (induction xs arbitrary: m)
  case (Cons x xs)
  have x: "f (extend e a b m) x = extend e a b (f m x)" "same_ids m (f m x)"
    using Cons.prems [of x m] by (simp_all add: same_ids_def)
  have "foldl f (extend e a b (f m x)) xs = extend e a b (foldl f (f m x) xs) \<and> same_ids (f m x) (foldl f (f m x) xs)"
    using Cons.prems same_ids_trans [OF x(2)] by (intro Cons.IH) auto
  then show ?case using x same_ids_trans by auto
qed (simp add: same_ids_def)

lemma replay_extend:
  assumes "\<forall>tx\<in>set txs. covered ex root m tx" "mn_next_segment_id m \<le> a" "mn_next_tx_id m \<le> b"
    and "\<forall>tx\<in>set txs. \<forall>i\<in>set (rt_removed_segments tx). i \<notin> sm_segment_id ` set e"
  shows "replay ex root txs (extend e a b m) = extend e a b (replay ex root txs m) \<and> same_ids m (replay ex root txs m)"
  unfolding replay_def
proof (rule foldl_extend)
  fix tx n assume tx: "tx \<in> set txs" "same_ids m n"
  then have c: "covered ex root n tx" "mn_next_segment_id n \<le> a" "mn_next_tx_id n \<le> b"
    using assms by (auto simp: covered_def same_ids_def)
  show "replay_tx ex root (extend e a b n) tx = extend e a b (replay_tx ex root n tx) \<and> same_ids n (replay_tx ex root n tx)"
  proof (cases "rt_committed tx")
    case True
    let ?n1 = "foldl (recover_added ex root) n (rt_added_segments tx)"
    let ?n2 = "foldl (\<lambda>m i. snd (remove_segment i m)) ?n1 (rt_removed_segments tx)"
    have 1: "foldl (recover_added ex root) (extend e a b n) (rt_added_segments tx) = extend e a b ?n1 \<and> same_ids n ?n1"
      using c True by (intro foldl_extend recover_added_extend) (auto simp: covered_def same_ids_def)
    have 2: "foldl (\<lambda>m i. snd (remove_segment i m)) (extend e a b ?n1) (rt_removed_segments tx) = extend e a b ?n2 \<and> same_ids ?n1 ?n2"
      using assms(4) tx(1) by (intro foldl_extend remove_segment_extend) auto
    have "rt_tx_id tx < mn_next_tx_id n" "mn_next_tx_id ?n2 = mn_next_tx_id n"
      using c(1) True 1 2 by (auto simp: covered_def same_ids_def)
    then show ?thesis
      using 1 2 True c(3) same_ids_trans [of n ?n1 ?n2] by (auto simp: replay_tx_def Let_def extend_def not_le)
  qed (simp add: replay_tx_def same_ids_def)
qed

section \<open>The transaction of a commit\<close>

lemma update_tx_new: "i \<notin> rt_tx_id ` set txs \<Longrightarrow> update_tx i f txs = txs @ [f (RecoveredTx_new i)]"
  by (induction txs) auto

lemma update_tx_last: "i \<notin> rt_tx_id ` set txs \<Longrightarrow> rt_tx_id tx = i \<Longrightarrow> update_tx i f (txs @ [tx]) = txs @ [f tx]"
  by (induction txs) auto

lemma op_effect_tx_id [simp]: "rt_tx_id (op_effect e tx) = rt_tx_id tx"
  by (cases e) (simp_all add: push_added_def push_removed_def)

lemma update_tx_ids: "rt_tx_id ` set (update_tx i (op_effect e) txs) = insert i (rt_tx_id ` set txs)"
  by (induction txs) (auto simp: RecoveredTx_new_def)

lemma transactions_ids: "rt_tx_id ` set (transactions xs) = fst ` set xs"
  by (induction xs rule: rev_induct) (auto simp: transactions_def apply_entry_def update_tx_ids)

definition commit_entries :: "u64 \<Rightarrow> SegmentMeta \<Rightarrow> entry list" where
  "commit_entries t meta = [(t, Begin), (t, Add meta), (t, Commit)]"

definition pending :: "u64 \<Rightarrow> bool \<Rightarrow> SegmentMeta list \<Rightarrow> RecoveredTx" where
  "pending t committed ss = \<lparr>rt_tx_id = t, rt_committed = committed, rt_added_segments = ss, rt_removed_segments = []\<rparr>"

lemma transactions_commit:
  assumes "t \<notin> fst ` set xs"
  shows "transactions (xs @ take 0 (commit_entries t meta)) = transactions xs"
    and "transactions (xs @ take 1 (commit_entries t meta)) = transactions xs @ [pending t False []]"
    and "transactions (xs @ take 2 (commit_entries t meta)) = transactions xs @ [pending t False [meta]]"
    and "transactions (xs @ take 3 (commit_entries t meta)) = transactions xs @ [pending t True [meta]]"
proof -
  have t: "t \<notin> rt_tx_id ` set (foldl apply_entry [] xs)"
    using assms transactions_ids [of xs] by (simp add: transactions_def)
  note s = update_tx_new [OF t] update_tx_last [OF t]
  show "transactions (xs @ take 0 (commit_entries t meta)) = transactions xs" by simp
  show "transactions (xs @ take 1 (commit_entries t meta)) = transactions xs @ [pending t False []]"
    "transactions (xs @ take 2 (commit_entries t meta)) = transactions xs @ [pending t False [meta]]"
    "transactions (xs @ take 3 (commit_entries t meta)) = transactions xs @ [pending t True [meta]]"
    by (simp_all add: transactions_def commit_entries_def apply_entry_def s pending_def RecoveredTx_new_def push_added_def
        numeral_2_eq_2 numeral_3_eq_3)
qed

lemma wp_journal_transaction:
  assumes "j_fd j" "fs (j_path j) = Some c" "\<not> may_fail F" "ys = [(t, Begin), (t, e), (t, Commit)]"
    and "\<And>n. Killed \<in> F \<Longrightarrow> E (fs(j_path j \<mapsto> c @ take n (concat (map entry_bytes ys))))"
    and "Q (Ok ()) (fs(j_path j \<mapsto> c @ concat (map entry_bytes ys)))"
  shows "wp F (journal_transaction t (write_record t (op_type e) (op_payload e)) j) Q E fs"
proof -
  let ?b = "record_bytes t TxBegin []" and ?e = "record_bytes t (op_type e) (op_payload e)" and ?c = "record_bytes t TxCommit []"
  have ys: "concat (map entry_bytes ys) = ?b @ ?e @ ?c" by (simp add: assms(4) entry_bytes_def)
  have E: "E (fs(j_path j \<mapsto> c @ take n ?b))" "E (fs(j_path j \<mapsto> c @ ?b @ take n ?e))" "E (fs(j_path j \<mapsto> c @ ?b @ ?e @ take n ?c))"
    if "Killed \<in> F" for n
  proof -
    show "E (fs(j_path j \<mapsto> c @ take n ?b))"
      using assms(5) [OF that, of "min n (length ?b)"] by (simp add: ys min_def split: if_splits)
    show "E (fs(j_path j \<mapsto> c @ ?b @ take n ?e))"
      using assms(5) [OF that, of "length ?b + min n (length ?e)"] by (simp add: ys min_def split: if_splits)
    show "E (fs(j_path j \<mapsto> c @ ?b @ ?e @ take n ?c))"
      using assms(5) [OF that, of "length ?b + length ?e + n"] by (simp add: ys)
  qed
  show ?thesis
    unfolding journal_transaction_def append_begin_def append_commit_def
    by (intro wp_io_bind wp_write_record [OF assms(1)])
      (use assms(1-3,6) E ys in \<open>auto intro!: wp_intro wp_write_record\<close>)
qed

section \<open>The state between operations\<close>

definition consistent :: "(nat \<Rightarrow> bool) \<Rightarrow> string \<Rightarrow> Catalog \<Rightarrow> u64 \<Rightarrow> entry list \<Rightarrow> contents \<Rightarrow> bool" where
  "consistent can_reserve root c ts xs fs \<longleftrightarrow> (let m = ct_manifest c; ex = (\<lambda>p. fs p \<noteq> None) in
     catalog_at root c \<and> ct_journal c = \<lparr>j_path = full_path root ''journal.vtwal'', j_fd = True\<rparr>
     \<and> fs (full_path root ''manifest.vtm'') = Some (serialize m) \<and> manifest_fits can_reserve m
     \<and> fs (full_path root ''journal.vtwal'') = Some (journal_image ts xs)
     \<and> (\<forall>x\<in>set xs. entry_fits x \<and> fst x < mn_next_tx_id m)
     \<and> (\<forall>tx\<in>set (transactions xs). covered ex root m tx
          \<and> (\<forall>s\<in>set (rt_added_segments tx). named_ok s \<and> sm_segment_id s < mn_next_segment_id m)
          \<and> (\<forall>i\<in>set (rt_removed_segments tx). i < mn_next_segment_id m))
     \<and> replay ex root (transactions xs) m = m
     \<and> (\<forall>s\<in>set (mn_segments m). sm_segment_id s < mn_next_segment_id m \<and> (sm_active s \<longrightarrow> stored_ok root fs s)))"

lemma consistent_recovers:
  assumes "consistent can_reserve root c ts xs fs"
  shows "recovers_to can_reserve root (ct_manifest c) fs"
  using assms read_journal_torn [of xs "[]" ts] unfolding consistent_def recovers_to_def Let_def
  by (intro exI [of _ "ct_manifest c"] exI [of _ ts] exI [of _ xs] exI [of _ "[]"]) auto

section \<open>Commits that are cut off\<close>

text \<open>The segment as it is stored, and the manifest after the commit.\<close>

definition stored_meta :: "SegmentMeta \<Rightarrow> Catalog \<Rightarrow> SegmentMeta" where
  "stored_meta meta c = meta\<lparr>sm_segment_id := mn_next_segment_id (ct_manifest c),
     sm_filename := segment_filename (mn_next_segment_id (ct_manifest c)), sm_active := True\<rparr>"

definition committed_manifest :: "SegmentMeta \<Rightarrow> Catalog \<Rightarrow> Manifest" where
  "committed_manifest meta c = (let m = ct_manifest c in
     extend [stored_meta meta c] (mn_next_segment_id m + 1) (mn_next_tx_id m + 1) m)"

lemma entry_fits_commit:
  "x \<in> set (commit_entries t (stored_meta meta c)) \<Longrightarrow> entry_fits x"
  using length_segment_filename [of "mn_next_segment_id (ct_manifest c)"]
  by (auto simp: commit_entries_def entry_fits_def length_meta_bytes stored_meta_def)

lemma stored_ok_cong:
  "gs (full_path root (sm_filename s)) = fs (full_path root (sm_filename s)) \<Longrightarrow> stored_ok root gs s = stored_ok root fs s"
  by (simp add: stored_ok_def)

lemma replay_snoc: "replay ex root (txs @ [tx]) m = replay_tx ex root (replay ex root txs m) tx"
  by (simp add: replay_def)

text \<open>Before the file is moved into place the catalog is as it was, up to the next transaction identifier.\<close>

lemma cut_before_rename:
  assumes c: "consistent can_reserve root c ts xs fs" and "fs (full_path root (segment_filename (mn_next_segment_id (ct_manifest c)))) = None"
    and gs: "gs = fs(full_path root ''journal.vtwal'' \<mapsto> journal_image ts xs @
      take n (concat (map entry_bytes (commit_entries (mn_next_tx_id (ct_manifest c)) (stored_meta meta c)))))"
  shows "\<exists>b. recovers_to can_reserve root (set_next_tx_id b (ct_manifest c)) gs"
proof -
  let ?m = "ct_manifest c" and ?t = "mn_next_tx_id (ct_manifest c)" and ?j = "full_path root ''journal.vtwal''"
  let ?ys = "commit_entries ?t (stored_meta meta c)" and ?ex = "\<lambda>p. fs p \<noteq> None"
  note c' = c [unfolded consistent_def Let_def]
  obtain k tail where k: "k \<le> length ?ys" "take n (concat (map entry_bytes ?ys)) = concat (map entry_bytes (take k ?ys)) @ tail"
    "tail = [] \<or> (\<exists>x\<in>set ?ys. \<exists>j<length (entry_bytes x). tail = take j (entry_bytes x))"
    using take_entries by blast
  have j: "gs ?j = Some (journal_image ts (xs @ take k ?ys) @ tail)" by (simp add: gs k(2) journal_image_def)
  have fits: "\<forall>y\<in>set (xs @ take k ?ys). entry_fits y" using c' entry_fits_commit by (auto dest: in_set_takeD)
  have tail': "tail = [] \<or> (\<exists>x n. entry_fits x \<and> n < length (entry_bytes x) \<and> tail = take n (entry_bytes x))"
    using k(3) entry_fits_commit by (elim disjE bexE exE conjE) (simp, metis)
  have read: "read_journal (journal_image ts (xs @ take k ?ys) @ tail) (length (journal_image ts (xs @ take k ?ys) @ tail))
      = (Ok (), transactions (xs @ take k ?ys))"
    by (rule read_journal_torn [OF fits tail'])
  have "k = 0 \<or> k = 1 \<or> k = 2 \<or> k = 3" using k(1) by (auto simp: commit_entries_def)
  moreover have t: "?t \<notin> fst ` set xs" using c' by auto
  ultimately have tx: "\<exists>rest. transactions (xs @ take k ?ys) = transactions xs @ rest \<and> set rest \<subseteq> {pending ?t False [],
      pending ?t False [stored_meta meta c], pending ?t True [stored_meta meta c]} \<and> length rest \<le> 1"
    using transactions_commit [OF t, of "stored_meta meta c"] by auto
  then obtain rest where rest: "transactions (xs @ take k ?ys) = transactions xs @ rest" "set rest \<subseteq> {pending ?t False [],
      pending ?t False [stored_meta meta c], pending ?t True [stored_meta meta c]}" "length rest \<le> 1" by blast
  have ex: "(\<lambda>p. gs p \<noteq> None) = ?ex" using c' by (auto simp: gs fun_eq_iff)
  have "\<exists>b. replay ?ex root (transactions (xs @ take k ?ys)) ?m = set_next_tx_id b ?m"
  proof (cases rest)
    case Nil
    then show ?thesis using rest(1) c' by (intro exI [of _ ?t]) (simp add: set_next_tx_id_def)
  next
    case (Cons tx rs)
    then have "rest = [tx]" using rest(3) by simp
    moreover have "replay_tx ?ex root ?m tx = ?m \<or> replay_tx ?ex root ?m tx = set_next_tx_id (?t + 1) ?m"
      using rest(2) Cons assms(2) by (auto simp: replay_tx_def pending_def recover_added_def stored_meta_def Let_def)
    moreover have "set_next_tx_id ?t ?m = ?m" by (simp add: set_next_tx_id_def)
    ultimately show ?thesis using rest(1) c' by (simp add: replay_snoc) metis
  qed
  then obtain b where b: "replay (\<lambda>p. gs p \<noteq> None) root (transactions (xs @ take k ?ys)) ?m = set_next_tx_id b ?m" using ex by metis
  have st: "stored_ok root gs s = stored_ok root fs s" for s
    by (cases "named_ok s") (simp_all add: gs stored_ok_def named_ok_def)
  have "gs (full_path root ''manifest.vtm'') = Some (serialize ?m)" using c' by (simp add: gs)
  moreover have "\<forall>tx\<in>set (transactions (xs @ take k ?ys)). \<forall>s\<in>set (rt_added_segments tx). named_ok s"
    unfolding rest(1) using c' rest(2) by (fastforce simp: pending_def stored_meta_def named_ok_def)
  moreover have "\<forall>s\<in>set (mn_segments (set_next_tx_id b ?m)). sm_active s \<longrightarrow> stored_ok root gs s"
    using c' st by (simp add: set_next_tx_id_def)
  ultimately show ?thesis
    unfolding recovers_to_def using j read b c' by (intro exI [of _ b] exI [of _ ?m] exI [of _ ts] exI [of _ "xs @ take k ?ys"] exI [of _ tail]) auto
qed

text \<open>Once the file is in place the commit has happened, whether the manifest is saved already or not.\<close>

lemma committed_simps [simp]:
  "mn_segments (committed_manifest meta c) = mn_segments (ct_manifest c) @ [stored_meta meta c]"
  "mn_next_segment_id (committed_manifest meta c) = mn_next_segment_id (ct_manifest c) + 1"
  "mn_next_tx_id (committed_manifest meta c) = mn_next_tx_id (ct_manifest c) + 1"
  "sm_segment_id (stored_meta meta c) = mn_next_segment_id (ct_manifest c)"
  "sm_filename (stored_meta meta c) = segment_filename (mn_next_segment_id (ct_manifest c))"
  "sm_active (stored_meta meta c)"
  by (simp_all add: committed_manifest_def extend_def stored_meta_def Let_def)

lemma less_succ:
  assumes "x + 1 \<noteq> 0"
  shows "x < x + (1 :: u64)" "y < x \<Longrightarrow> y < x + 1"
proof -
  have "unat (x + 1) = Suc (unat x)" using unatSuc [of x] assms by (simp add: add.commute)
  then show "x < x + 1" "y < x \<Longrightarrow> y < x + 1" by (simp_all add: word_less_nat_alt)
qed

lemma put_segment_last: "\<forall>s'\<in>set ss. sm_segment_id s' \<noteq> sm_segment_id s \<Longrightarrow> put_segment s (ss @ [s]) = ss @ [s]"
  by (induction ss) auto

lemma replay_committed:
  assumes c: "consistent can_reserve root c ts xs fs"
    and room: "mn_next_segment_id (ct_manifest c) + 1 \<noteq> 0" "mn_next_tx_id (ct_manifest c) + 1 \<noteq> 0"
    and ex: "ex (full_path root (segment_filename (mn_next_segment_id (ct_manifest c))))"
      "\<And>i. i \<noteq> mn_next_segment_id (ct_manifest c) \<Longrightarrow> ex (full_path root (segment_filename i)) = (fs (full_path root (segment_filename i)) \<noteq> None)"
    and m0: "m0 = ct_manifest c \<or> m0 = committed_manifest meta c"
  shows "replay ex root (transactions xs @ [pending (mn_next_tx_id (ct_manifest c)) True [stored_meta meta c]]) m0
    = committed_manifest meta c"
proof -
  let ?m = "ct_manifest c" and ?ex = "\<lambda>p. fs p \<noteq> None" and ?a = "mn_next_segment_id (ct_manifest c)"
  note c' = c [unfolded consistent_def Let_def]
  have new: "\<forall>s\<in>set (mn_segments ?m). sm_segment_id s \<noteq> ?a" using c' by auto
  have "replay ex root (transactions xs) m0 = replay ?ex root (transactions xs) m0"
  proof (rule replay_cong)
    fix tx s assume "tx \<in> set (transactions xs)" "s \<in> set (rt_added_segments tx)"
    then have "named_ok s" "sm_segment_id s < ?a" using c' by auto
    then show "ex (full_path root (sm_filename s)) = ?ex (full_path root (sm_filename s))"
      using ex(2) [of "sm_segment_id s"] by (auto simp: named_ok_def)
  qed
  moreover have "replay ?ex root (transactions xs) m0 = m0"
  proof (cases "m0 = ?m")
    case False
    have "replay ?ex root (transactions xs) (extend [stored_meta meta c] (?a + 1) (mn_next_tx_id ?m + 1) ?m)
        = extend [stored_meta meta c] (?a + 1) (mn_next_tx_id ?m + 1) (replay ?ex root (transactions xs) ?m)"
    proof (rule conjunct1 [OF replay_extend])
      show "\<forall>tx\<in>set (transactions xs). covered ?ex root ?m tx" using c' by blast
      show "?a \<le> ?a + 1" "mn_next_tx_id ?m \<le> mn_next_tx_id ?m + 1" using less_succ(1) room by (auto intro: less_imp_le)
      show "\<forall>tx\<in>set (transactions xs). \<forall>i\<in>set (rt_removed_segments tx). i \<notin> sm_segment_id ` set [stored_meta meta c]"
        using c' by auto
    qed
    then show ?thesis using False m0 c' by (simp add: committed_manifest_def Let_def)
  qed (use c' in simp)
  moreover have "replay_tx ex root m0 (pending (mn_next_tx_id ?m) True [stored_meta meta c]) = committed_manifest meta c"
    using m0
  proof
    assume "m0 = ?m"
    moreover have "put_segment (stored_meta meta c) (mn_segments ?m) = mn_segments ?m @ [stored_meta meta c]"
      using new by (intro put_segment_new) auto
    ultimately show ?thesis
      using ex(1)
      by (simp add: replay_tx_def pending_def recover_added_def add_segment_def committed_manifest_def extend_def Let_def
          set_next_segment_id_def set_next_tx_id_def)
  next
    assume "m0 = committed_manifest meta c"
    moreover have "\<not> ?a + 1 \<le> ?a" "\<not> mn_next_tx_id ?m + 1 \<le> mn_next_tx_id ?m" using less_succ(1) room by (simp_all add: not_le)
    ultimately show ?thesis
      using ex(1) new put_segment_last [of "mn_segments ?m" "stored_meta meta c"]
      by (simp add: replay_tx_def pending_def recover_added_def add_segment_def Let_def)
  qed
  ultimately show ?thesis by (simp add: replay_snoc)
qed

lemma committed_files:
  assumes c: "consistent can_reserve root c ts xs fs" and fits: "manifest_fits can_reserve (committed_manifest meta c)"
    and room: "mn_next_segment_id (ct_manifest c) + 1 \<noteq> 0" "mn_next_tx_id (ct_manifest c) + 1 \<noteq> 0"
    and gs: "gs (full_path root ''manifest.vtm'') = Some (serialize m0)" "m0 = ct_manifest c \<or> m0 = committed_manifest meta c"
      "gs (full_path root ''journal.vtwal'') = Some (journal_image ts (xs @ commit_entries (mn_next_tx_id (ct_manifest c)) (stored_meta meta c)))"
      "gs (full_path root (segment_filename (mn_next_segment_id (ct_manifest c)))) = Some bs" "valid_segment bs"
      "\<And>i. i \<noteq> mn_next_segment_id (ct_manifest c) \<Longrightarrow> gs (full_path root (segment_filename i)) = fs (full_path root (segment_filename i))"
  shows "recovers_to can_reserve root (committed_manifest meta c) gs"
    and "m0 = committed_manifest meta c \<Longrightarrow> consistent can_reserve root (c\<lparr>ct_manifest := committed_manifest meta c\<rparr>) ts
      (xs @ commit_entries (mn_next_tx_id (ct_manifest c)) (stored_meta meta c)) gs"
proof -
  let ?m = "ct_manifest c" and ?m' = "committed_manifest meta c" and ?t = "mn_next_tx_id (ct_manifest c)"
  let ?s = "stored_meta meta c" and ?a = "mn_next_segment_id (ct_manifest c)" and ?ex = "\<lambda>p. gs p \<noteq> None"
  let ?xs = "xs @ commit_entries ?t ?s"
  note c' = c [unfolded consistent_def Let_def]
  have "?t \<notin> fst ` set xs" using c' by auto
  from transactions_commit(4) [OF this, of ?s] have txs: "transactions ?xs = transactions xs @ [pending ?t True [?s]]"
    by (simp add: commit_entries_def)
  have ent: "\<forall>x\<in>set ?xs. entry_fits x" "\<forall>x\<in>set ?xs. fst x < ?t + 1"
    using c' entry_fits_commit less_succ room(2) by (auto simp: commit_entries_def intro: less_succ)
  have rep: "replay ?ex root (transactions ?xs) n = ?m'" if "n = ?m \<or> n = ?m'" for n
    unfolding txs by (rule replay_committed [OF c room]) (use gs(4,6) that in auto)
  have st: "stored_ok root gs s" if "s \<in> set (mn_segments ?m')" "sm_active s" for s
  proof (cases "s \<in> set (mn_segments ?m)")
    case True
    then have "stored_ok root fs s" "sm_segment_id s < ?a" using c' that(2) by auto
    then show ?thesis using gs(6) [of "sm_segment_id s"] by (auto simp: stored_ok_def named_ok_def)
  next
    case False
    then show ?thesis using that(1) gs(4,5) by (auto simp: stored_ok_def named_ok_def)
  qed
  have added: "named_ok s \<and> sm_segment_id s < ?a + 1" if "tx \<in> set (transactions ?xs)" "s \<in> set (rt_added_segments tx)" for tx s
    using that c' less_succ room(1) unfolding txs by (fastforce simp: pending_def named_ok_def)
  have removed: "i < ?a + 1" if "tx \<in> set (transactions ?xs)" "i \<in> set (rt_removed_segments tx)" for tx i
    using that c' less_succ(2) [OF room(1)] unfolding txs by (auto simp: pending_def)
  have "manifest_fits can_reserve m0" using gs(2) c' fits by auto
  then show "recovers_to can_reserve root ?m' gs"
    unfolding recovers_to_def using gs rep [of m0] st added read_journal_torn [OF ent(1), of "[]" ts]
    by (intro exI [of _ m0] exI [of _ ts] exI [of _ ?xs] exI [of _ "[]"]) auto
  have cov: "covered ?ex root ?m' tx" if "tx \<in> set (transactions ?xs)" for tx
  proof (cases "tx \<in> set (transactions xs)")
    case True
    have "gs (full_path root (sm_filename s)) = fs (full_path root (sm_filename s))" if "s \<in> set (rt_added_segments tx)" for s
    proof -
      have "named_ok s" "sm_segment_id s < ?a" using c' True that by auto
      then show ?thesis using gs(6) [of "sm_segment_id s"] by (auto simp: named_ok_def)
    qed
    then show ?thesis
      using True c' less_succ(2) [OF room(1)] less_succ(2) [OF room(2)] by (auto simp: covered_def)
  next
    case False
    then have "tx = pending ?t True [?s]" using that txs by simp
    then show ?thesis using less_succ(1) room by (simp add: covered_def pending_def)
  qed
  show "consistent can_reserve root (c\<lparr>ct_manifest := ?m'\<rparr>) ts ?xs gs" if "m0 = ?m'"
    unfolding consistent_def Let_def
    using that gs(1,3) fits c' ent added removed cov rep [of ?m'] st less_succ room
    by (auto simp: catalog_at_def intro: less_succ)
qed

text \<open>The file to commit is a valid segment outside the names the catalog uses.\<close>

definition committable :: "string \<Rightarrow> Catalog \<Rightarrow> string \<Rightarrow> contents \<Rightarrow> bool" where
  "committable root c temp fs \<longleftrightarrow> (\<exists>bs. fs temp = Some bs \<and> valid_segment bs)
     \<and> temp \<notin> full_path root ` {''manifest.vtm'', ''manifest.vtm.tmp'', ''journal.vtwal''}
     \<and> (\<forall>i. temp \<noteq> full_path root (segment_filename i))
     \<and> fs (full_path root (segment_filename (mn_next_segment_id (ct_manifest c)))) = None
     \<and> mn_next_segment_id (ct_manifest c) + 1 \<noteq> 0 \<and> mn_next_tx_id (ct_manifest c) + 1 \<noteq> 0"

lemma prepare_commit_eq:
  "prepare_commit meta c = (mn_next_tx_id (ct_manifest c), stored_meta meta c,
     c\<lparr>ct_manifest := extend [] (mn_next_segment_id (ct_manifest c) + 1) (mn_next_tx_id (ct_manifest c) + 1) (ct_manifest c)\<rparr>)"
  by (simp add: prepare_commit_def stored_meta_def extend_def set_next_tx_id_def set_next_segment_id_def Let_def)

lemma add_segment_committed:
  assumes "consistent can_reserve root c ts xs fs"
  shows "add_segment (stored_meta meta c)
      (extend [] (mn_next_segment_id (ct_manifest c) + 1) (mn_next_tx_id (ct_manifest c) + 1) (ct_manifest c)) = committed_manifest meta c"
proof -
  have "sm_segment_id (stored_meta meta c) \<notin> segment_ids (ct_manifest c)"
    using assms by (auto simp: consistent_def Let_def)
  from put_segment_new [OF this] show ?thesis by (simp add: add_segment_def extend_def committed_manifest_def Let_def)
qed

lemma wp_commit_segment:
  assumes c: "consistent can_reserve root c ts xs fs" and temp: "committable root c temp fs"
    and fits: "manifest_fits can_reserve (committed_manifest meta c)" and F: "\<not> may_fail F"
  shows "wp F (commit_segment temp meta c)
    (\<lambda>(r, c') gs. r = Ok (full_path root (sm_filename (stored_meta meta c))) \<and> c' = c\<lparr>ct_manifest := committed_manifest meta c\<rparr>
       \<and> consistent can_reserve root c' ts (xs @ commit_entries (mn_next_tx_id (ct_manifest c)) (stored_meta meta c)) gs)
    (\<lambda>gs. (\<exists>b. recovers_to can_reserve root (set_next_tx_id b (ct_manifest c)) gs)
       \<or> recovers_to can_reserve root (committed_manifest meta c) gs) fs"
  (is "wp F _ ?Q ?E fs")
proof -
  let ?m = "ct_manifest c" and ?m' = "committed_manifest meta c" and ?t = "mn_next_tx_id (ct_manifest c)"
  let ?s = "stored_meta meta c" and ?mp = "full_path root ''manifest.vtm''" and ?jp = "full_path root ''journal.vtwal''"
  let ?fp = "full_path root (segment_filename (mn_next_segment_id ?m))" and ?ys = "commit_entries ?t ?s"
  let ?c = "c\<lparr>ct_manifest := extend [] (mn_next_segment_id ?m + 1) (?t + 1) ?m\<rparr>"
  let ?J = "journal_image ts xs @ concat (map entry_bytes ?ys)"
  note c' = c [unfolded consistent_def Let_def]
  note temp' = temp [unfolded committable_def]
  obtain bs where bs: "fs temp = Some bs" "valid_segment bs" using temp' by blast
  have old: "?E (fs(?jp \<mapsto> journal_image ts xs @ take n (concat (map entry_bytes ?ys))))" for n
    using cut_before_rename [OF c _ refl] temp' by blast
  have init: "?E fs"
    using consistent_recovers [OF c] by (intro disjI1 exI [of _ ?t]) (simp add: set_next_tx_id_def)
  define gs where "gs = (fs(?jp \<mapsto> ?J))(temp := None, ?fp \<mapsto> bs)"
  have gs: "recovers_to can_reserve root ?m' (gs(?mp := Some (serialize m0), ?mp @ ''.tmp'' := u))"
    "m0 = ?m' \<Longrightarrow> consistent can_reserve root (c\<lparr>ct_manifest := ?m'\<rparr>) ts (xs @ ?ys) (gs(?mp := Some (serialize m0), ?mp @ ''.tmp'' := u))"
    if "m0 = ?m \<or> m0 = ?m'" for m0 u
  proof -
    let ?h = "gs(?mp := Some (serialize m0), ?mp @ ''.tmp'' := u)"
    have room: "mn_next_segment_id ?m + 1 \<noteq> 0" "?t + 1 \<noteq> 0" using temp' by simp_all
    have t: "temp \<noteq> ?jp" "temp \<noteq> full_path root (segment_filename i)" for i using temp' by auto
    have h: "?h ?mp = Some (serialize m0)" "?h ?jp = Some (journal_image ts (xs @ ?ys))" "?h ?fp = Some bs"
      "i \<noteq> mn_next_segment_id ?m \<Longrightarrow> ?h (full_path root (segment_filename i)) = fs (full_path root (segment_filename i))" for i
      using t(1) t(2) [symmetric] unfolding gs_def manifest_tmp_path by (simp_all add: journal_image_def segment_filename_inject segment_filename_distinct [symmetric])
    show "recovers_to can_reserve root ?m' ?h"
      by (rule committed_files(1) [OF c fits room h(1) that h(2,3) bs(2) h(4)])
    show "consistent can_reserve root (c\<lparr>ct_manifest := ?m'\<rparr>) ts (xs @ ?ys) ?h" if "m0 = ?m'"
      by (rule committed_files(2) [OF c fits room h(1) _ h(2,3) bs(2) h(4) that]) (use that in simp)
  qed
  have mp: "gs ?mp = Some (serialize ?m)" using c' temp' by (auto simp: gs_def)
  have save: "wp F (save_atomic ?mp ?m') (\<lambda>st. wp F (io_return (map_result (\<lambda>_. ?fp) st, c\<lparr>ct_manifest := ?m'\<rparr>)) ?Q ?E) ?E gs"
  proof (rule wp_save_atomic)
    show "?E (gs(?mp @ ''.tmp'' := u))" for u
      using gs(1) [of ?m u] mp by (simp add: fun_upd_idem)
    show "wp F (io_return (map_result (\<lambda>_. ?fp) (Ok ()), c\<lparr>ct_manifest := ?m'\<rparr>)) ?Q ?E (gs(?mp @ ''.tmp'' := None, ?mp \<mapsto> serialize ?m'))"
      using gs(2) [of ?m' None] by (intro wp_io_return) (simp add: map_result_def fun_upd_twist)
  qed (use F in simp)
  have rename: "wp F (sys_rename temp ?fp) (\<lambda>ok. wp F (if \<not> ok then io_return (Err FileRenameFailed, ?c)
      else let d = ?c\<lparr>ct_manifest := add_segment ?s (ct_manifest ?c)\<rparr> in
        io_bind (save_atomic (ct_manifest_path d) (ct_manifest d)) (\<lambda>st. io_return (map_result (\<lambda>_. ?fp) st, d))) ?Q ?E) ?E (fs(?jp \<mapsto> ?J))"
  proof (rule wp_rename)
    show "?E (fs(?jp \<mapsto> ?J))" using old [of "length (concat (map entry_bytes ?ys))"] by simp
    fix b assume "(fs(?jp \<mapsto> ?J)) temp = Some b"
    then have "b = bs" "temp \<noteq> ?fp" using bs(1) temp' by (auto split: if_splits)
    then show "wp F (if \<not> True then io_return (Err FileRenameFailed, ?c)
      else let d = ?c\<lparr>ct_manifest := add_segment ?s (ct_manifest ?c)\<rparr> in
        io_bind (save_atomic (ct_manifest_path d) (ct_manifest d)) (\<lambda>st. io_return (map_result (\<lambda>_. ?fp) st, d))) ?Q ?E
        ((if temp = ?fp then fs(?jp \<mapsto> ?J) else (fs(?jp \<mapsto> ?J))(temp := None))(?fp \<mapsto> b))"
      using save c' add_segment_committed [OF c, of meta]
      by (auto simp: Let_def catalog_at_def gs_def intro!: wp_io_bind)
  qed (use F bs temp' in auto)
  have tx: "wp F (journal_transaction ?t (append_add_segment ?t ?s) (ct_journal ?c)) (\<lambda>st. wp F (case st of
        Ok _ \<Rightarrow> io_bind (sys_rename temp ?fp) (\<lambda>ok. if \<not> ok then io_return (Err FileRenameFailed, ?c)
          else let d = ?c\<lparr>ct_manifest := add_segment ?s (ct_manifest ?c)\<rparr> in
            io_bind (save_atomic (ct_manifest_path d) (ct_manifest d)) (\<lambda>st. io_return (map_result (\<lambda>_. ?fp) st, d)))
      | Err e \<Rightarrow> io_return (Err e, ?c) | Fault \<Rightarrow> io_stop) ?Q ?E) ?E fs"
    unfolding append_add_segment_def
    using c' old rename F
    by (intro wp_journal_transaction [where e = "Add ?s" and ys = ?ys and c = "journal_image ts xs", simplified])
      (auto simp: commit_entries_def intro!: wp_io_bind)
  define rest where "rest = io_bind (journal_transaction ?t (append_add_segment ?t ?s) (ct_journal ?c)) (\<lambda>st. case st of
        Ok _ \<Rightarrow> io_bind (sys_rename temp ?fp) (\<lambda>ok. if \<not> ok then io_return (Err FileRenameFailed, ?c)
          else let d = ?c\<lparr>ct_manifest := add_segment ?s (ct_manifest ?c)\<rparr> in
            io_bind (save_atomic (ct_manifest_path d) (ct_manifest d)) (\<lambda>st. io_return (map_result (\<lambda>_. ?fp) st, d)))
      | Err e \<Rightarrow> io_return (Err e, ?c) | Fault \<Rightarrow> io_stop)"
  have rest: "wp F rest ?Q ?E fs" unfolding rest_def by (rule wp_io_bind [OF tx])
  have r: "ct_root_dir ?c = root" using c' by (simp add: catalog_at_def)
  have "commit_segment temp meta c = io_bind (sys_open_read temp) (\<lambda>ok. io_bind (if ok then sys_fsync else io_return False) (\<lambda>_. rest))"
    unfolding commit_segment_def prepare_commit_eq rest_def Let_def prod.case r committed_simps by (rule refl)
  moreover have "wp F (if ok then sys_fsync else io_return False) (\<lambda>_. wp F rest ?Q ?E) ?E fs" for ok
    using rest init F by (cases ok) (auto intro!: wp_fsync wp_io_return)
  ultimately show ?thesis
    using init F by (auto intro!: wp_io_bind wp_open_read)
qed

section \<open>Opening an empty directory\<close>

lemma wp_open_fresh:
  assumes "fs (full_path root ''manifest.vtm'') = None" "fs (full_path root ''journal.vtwal'') = None" "can_reserve 0"
  shows "wp {} (Catalog_open can_reserve now (Catalog_new root))
    (\<lambda>(r, c) gs. r = Ok () \<and> consistent can_reserve root c now [] gs \<and> ct_manifest c = Manifest_init
       \<and> (\<forall>p. \<not> temporary_in root p \<and> p \<notin> full_path root ` {''manifest.vtm'', ''journal.vtwal''} \<longrightarrow> gs p = fs p)) E fs"
  (is "wp _ _ ?Q E fs")
proof -
  let ?c = "Catalog_new root" and ?mp = "full_path root ''manifest.vtm''" and ?jp = "full_path root ''journal.vtwal''"
  have c: "ct_root_dir ?c = root" "ct_manifest_path ?c = ?mp" "ct_journal_path ?c = ?jp" "ct_journal ?c = Journal_init"
    "ct_manifest ?c = Manifest_init"
    by (simp_all add: Catalog_new_def full_path_def)
  have np: "\<not> temporary_in root ?mp" "\<not> temporary_in root ?jp" by (simp_all add: temporary_in_full_path not_temporary)
  have mi: "mn_segments Manifest_init = []" "Manifest_init\<lparr>mn_segments := []\<rparr> = Manifest_init" by (simp_all add: Manifest_init_def)
  define R where "R = (\<lambda>(r, c) gs. r = Ok () \<and> c = ?c \<and> gs ?mp = Some (serialize Manifest_init) \<and> gs ?jp = None
    \<and> (\<forall>p. \<not> temporary_in root p \<and> p \<noteq> ?mp \<longrightarrow> gs p = fs p))"
  have "wp {} (recover can_reserve ?c) R E fs"
    unfolding recover_def c
  proof (rule wp_io_bind, rule wp_remove_temporaries)
    fix gs assume a: "agrees root fs gs"
    then have g: "gs ?mp = None" "gs ?jp = None" using assms np by (simp_all add: agrees_def)
    have load: "wp {} (load_manifest can_reserve ?c) (\<lambda>m' hs. m' = Manifest_init \<and> hs = gs) E gs"
      unfolding load_manifest_def c using g by (auto intro!: wp_intro)
    have rep: "wp {} (replay_journal ?c Manifest_init) (\<lambda>m' hs. m' = Manifest_init \<and> hs = gs) E gs"
      unfolding replay_journal_def c using g by (auto intro!: wp_intro)
    have save: "wp {} (save_atomic ?mp Manifest_init) (\<lambda>r. wp {} (io_return (r, ?c\<lparr>ct_manifest := Manifest_init\<rparr>)) R E) E gs"
    proof -
      have "R (Ok (), ?c) (gs(?mp @ ''.tmp'' := None, ?mp \<mapsto> serialize Manifest_init))"
        using a g np by (auto simp: R_def agrees_def manifest_tmp_path temporary_in_full_path)
      moreover have "?c\<lparr>ct_manifest := Manifest_init\<rparr> = ?c" by (simp add: Catalog_new_def)
      ultimately show ?thesis by (intro wp_save_atomic) (auto intro!: wp_io_return)
    qed
    show "wp {} (io_bind (load_manifest can_reserve ?c) (\<lambda>m. io_bind (replay_journal ?c m) (\<lambda>m.
       io_bind (io_fold (\<lambda>s ss. io_bind (validate_segment root s) (\<lambda>s. io_return (ss @ [s]))) (mn_segments m) []) (\<lambda>ss.
       let m = m\<lparr>mn_segments := ss\<rparr> in io_bind (save_atomic ?mp m) (\<lambda>r. io_return (r, ?c\<lparr>ct_manifest := m\<rparr>)))))) R E gs"
      by (intro wp_seq [OF load] wp_seq [OF rep] wp_seq [where x = "[]"]) (use save in \<open>simp_all add: mi Let_def wp_io_return wp_io_bind\<close>)
  qed simp
  moreover have "wp {} (Journal_open now ?jp Journal_init) (\<lambda>a. wp {} (case a of (r, j) \<Rightarrow> io_return (r, ?c\<lparr>ct_journal := j\<rparr>)) ?Q E) E gs"
    if "R (Ok (), ?c) gs" for gs
  proof -
    define hs where "hs = gs(?jp \<mapsto> journal_header_bytes now)"
    have "hs ?mp = Some (serialize Manifest_init)" "hs ?jp = Some (journal_header_bytes now)"
      "\<forall>p. \<not> temporary_in root p \<and> p \<notin> full_path root ` {''manifest.vtm'', ''journal.vtwal''} \<longrightarrow> hs p = fs p"
      using that by (auto simp: R_def hs_def)
    then have "?Q (Ok (), ?c\<lparr>ct_journal := \<lparr>j_path = ?jp, j_fd = True\<rparr>\<rparr>) hs"
      using assms(3) by (auto simp: consistent_def Let_def catalog_at_def c journal_image_def transactions_def replay_def
          manifest_fits_def mi)
    then show ?thesis
      using that unfolding Journal_open_def Journal_close_def Journal_init_def Let_def
      by (auto simp: R_def hs_def intro!: wp_intro wp_write_quiet [where c = "[]"])
  qed
  ultimately show ?thesis
    unfolding Catalog_open_def
    by (intro wp_io_bind wp_sys_call [where pre' = "\<lambda>_. True" and g' = id])
      (auto simp: c R_def intro!: wp_io_bind elim!: wp_conseq)
qed

section \<open>Sessions\<close>

text \<open>
  A catalog as a program finds it: opened on an empty directory, any number of commits that were not cut off, and
  files outside the catalog's own names changed in between.
\<close>

definition catalog_path :: "string \<Rightarrow> string \<Rightarrow> bool" where
  "catalog_path root p \<longleftrightarrow> p \<in> full_path root ` {''manifest.vtm'', ''journal.vtwal''} \<or> (\<exists>i. p = full_path root (segment_filename i))"

inductive session :: "(nat \<Rightarrow> bool) \<Rightarrow> string \<Rightarrow> Catalog \<Rightarrow> World \<Rightarrow> bool" for can_reserve root where
  opened: "file_at w (full_path root ''manifest.vtm'') = None \<Longrightarrow> file_at w (full_path root ''journal.vtwal'') = None \<Longrightarrow> quiet w
    \<Longrightarrow> Catalog_open can_reserve now (Catalog_new root) w = (Returned (Ok (), c), w') \<Longrightarrow> session can_reserve root c w'"
| elsewhere: "session can_reserve root c w \<Longrightarrow> \<forall>p. catalog_path root p \<longrightarrow> file_at w' p = file_at w p
    \<Longrightarrow> session can_reserve root c w'"
| committed: "session can_reserve root c w \<Longrightarrow> committable root c temp (file_at w)
    \<Longrightarrow> manifest_fits can_reserve (committed_manifest meta c) \<Longrightarrow> set (fates w) \<subseteq> crashes
    \<Longrightarrow> commit_segment temp meta c w = (Returned (r, c'), w') \<Longrightarrow> session can_reserve root c' w'"

lemma consistent_cong:
  assumes c: "consistent can_reserve root c ts xs fs" and p: "\<And>p. catalog_path root p \<Longrightarrow> gs p = fs p"
  shows "consistent can_reserve root c ts xs gs"
proof -
  note c' = c [unfolded consistent_def Let_def]
  have seg: "gs (full_path root (sm_filename s)) = fs (full_path root (sm_filename s))" if "named_ok s" for s
    using that p by (auto simp: catalog_path_def named_ok_def)
  then have "stored_ok root gs s = stored_ok root fs s" for s by (auto simp: stored_ok_def)
  moreover have "covered (\<lambda>p. gs p \<noteq> None) root (ct_manifest c) tx" if "tx \<in> set (transactions xs)" for tx
    using c' that seg unfolding covered_def by (metis (no_types, lifting))
  moreover have "replay (\<lambda>p. gs p \<noteq> None) root (transactions xs) (ct_manifest c)
      = replay (\<lambda>p. fs p \<noteq> None) root (transactions xs) (ct_manifest c)"
    using c' seg by (intro replay_cong) simp
  ultimately show ?thesis
    unfolding consistent_def Let_def using c' p by (auto simp: catalog_path_def)
qed

lemma session_consistent: "session can_reserve root c w \<Longrightarrow> can_reserve 0 \<Longrightarrow> \<exists>ts xs. consistent can_reserve root c ts xs (file_at w)"
proof (induction rule: session.induct)
  case (opened w now c w')
  have "wp {} (Catalog_open can_reserve now (Catalog_new root))
      (\<lambda>(r, c) gs. r = Ok () \<longrightarrow> consistent can_reserve root c now [] gs) (\<lambda>_. False) (file_at w)"
    using opened by (intro wp_conseq [OF wp_open_fresh]) auto
  from wp_quiet [OF this opened(3)] show ?case using opened(4) by auto
next
  case (elsewhere c w w')
  then show ?case using consistent_cong by blast
next
  case (committed c w temp meta r c' w')
  then obtain ts xs where c: "consistent can_reserve root c ts xs (file_at w)" by blast
  from wp_run [OF wp_commit_segment [OF c committed(2,3)] refl committed(4,5)] show ?case by auto
qed

text \<open>Recovery is started again with every new process until it is not cut off.\<close>

inductive restarts :: "(nat \<Rightarrow> bool) \<Rightarrow> string \<Rightarrow> World \<Rightarrow> World \<Rightarrow> bool" for can_reserve root w where
  first: "files v = files w \<Longrightarrow> restarts can_reserve root w v"
| again: "restarts can_reserve root w v \<Longrightarrow> set (fates v) \<subseteq> crashes
    \<Longrightarrow> recover can_reserve (Catalog_new root) v = (Stopped, v') \<Longrightarrow> files u = files v' \<Longrightarrow> restarts can_reserve root w u"

lemma catalog_at_new: "catalog_at root (Catalog_new root)"
  by (simp add: catalog_at_def Catalog_new_def full_path_def)

lemma restarts_recovers:
  assumes "restarts can_reserve root w v" "recovers_to can_reserve root m (file_at w)"
  shows "recovers_to can_reserve root m (file_at v)"
  using assms
proof (induction rule: restarts.induct)
  case (again v v' u)
  have "wp crashes (recover can_reserve (Catalog_new root)) (\<lambda>_ _. True) (recovers_to can_reserve root m) (file_at v)"
    by (rule wp_conseq [OF wp_recover [OF again.IH [OF again.prems] catalog_at_new]]) auto
  from wp_run [OF this refl again(2,3)] show ?case using again(4) by simp
qed simp

lemma recovered_catalog:
  assumes "restarts can_reserve root w v" "recovers_to can_reserve root m (file_at w)" "quiet v"
  obtains c v' where "recover can_reserve (Catalog_new root) v = (Returned (Ok (), c), v')"
    "ct_manifest c = m" "\<forall>s\<in>set (active_segments c). stored_ok root (file_at v') s"
proof -
  have "wp {} (recover can_reserve (Catalog_new root))
      (\<lambda>(r, c) gs. r = Ok () \<and> ct_manifest c = m \<and> (\<forall>s\<in>set (active_segments c). stored_ok root gs s)) (\<lambda>_. False) (file_at v)"
    by (rule wp_conseq [OF wp_recover [OF restarts_recovers [OF assms(1,2)] catalog_at_new]]) (auto simp: active_segments_def)
  then obtain a v' where "recover can_reserve (Catalog_new root) v = (Returned a, v')"
    "case a of (r, c) \<Rightarrow> r = Ok () \<and> ct_manifest c = m \<and> (\<forall>s\<in>set (active_segments c). stored_ok root (file_at v') s)"
    by (rule wp_quiet [OF _ assms(3)]) auto
  then show ?thesis using that by (cases a) auto
qed

section \<open>Properties\<close>

text \<open>
  C1. A commit is atomic when the process is killed. Take a catalog that this process opened in a directory without a
  manifest and a journal, with any number of commits since, all of which returned, and that was not opened again; commit a
  further valid segment file whose name clashes with no file of the catalog, with identifiers left and a manifest that fits
  the allocator. The process may be killed before any system call and transfers may be short, but no call fails or is
  interrupted, and what was written stays in the files: a failure of the machine is not considered. Then, however often
  recovery is itself killed and started again, the recovery that is not killed succeeds, and the active segments are those
  from before the commit, or those followed by the new segment; the latter whenever the commit returned, and then it returned
  success. Every active segment is in its file and passes validation. The statement does not extend to a catalog that is
  opened again after a crash: a torn record stays in the journal and transaction numbers are used again.
\<close>

theorem commit_crash_atomic:
  assumes "session can_reserve root c w" "can_reserve 0" "set (fates w) \<subseteq> crashes"
    and "committable root c temp (file_at w)" "manifest_fits can_reserve (committed_manifest meta c)"
    and "commit_segment temp meta c w = (r, w')" "restarts can_reserve root w' v" "quiet v"
  shows "\<exists>c' v'. recover can_reserve (Catalog_new root) v = (Returned (Ok (), c'), v')
    \<and> (active_segments c' = active_segments c \<or> active_segments c' = active_segments c @ [stored_meta meta c])
    \<and> (\<forall>res d. r = Returned (res, d) \<longrightarrow> is_ok res \<and> active_segments c' = active_segments c @ [stored_meta meta c])
    \<and> (\<forall>s\<in>set (active_segments c'). stored_ok root (file_at v') s)"
proof -
  let ?m' = "committed_manifest meta c"
  obtain ts xs where c: "consistent can_reserve root c ts xs (file_at w)"
    using session_consistent [OF assms(1,2)] by blast
  have new: "List.filter sm_active (mn_segments ?m') = active_segments c @ [stored_meta meta c]"
    by (simp add: active_segments_def)
  have "(\<exists>b. recovers_to can_reserve root (set_next_tx_id b (ct_manifest c)) (file_at w')) \<and> r = Stopped
      \<or> recovers_to can_reserve root ?m' (file_at w') \<and> (\<forall>res d. r = Returned (res, d) \<longrightarrow> is_ok res)"
    using wp_run [OF wp_commit_segment [OF c assms(4,5)] refl assms(3,6)]
    by (auto split: run.splits dest!: consistent_recovers)
  then show ?thesis
  proof
    assume *: "(\<exists>b. recovers_to can_reserve root (set_next_tx_id b (ct_manifest c)) (file_at w')) \<and> r = Stopped"
    then obtain b where "recovers_to can_reserve root (set_next_tx_id b (ct_manifest c)) (file_at w')" by blast
    from recovered_catalog [OF assms(7) this assms(8)] obtain d v' where
      "recover can_reserve (Catalog_new root) v = (Returned (Ok (), d), v')" "ct_manifest d = set_next_tx_id b (ct_manifest c)"
      "\<forall>s\<in>set (active_segments d). stored_ok root (file_at v') s" .
    then show ?thesis using * by (auto simp: active_segments_def set_next_tx_id_def)
  next
    assume *: "recovers_to can_reserve root ?m' (file_at w') \<and> (\<forall>res d. r = Returned (res, d) \<longrightarrow> is_ok res)"
    from recovered_catalog [OF assms(7) conjunct1 [OF *] assms(8)] obtain d v' where
      "recover can_reserve (Catalog_new root) v = (Returned (Ok (), d), v')" "ct_manifest d = ?m'"
      "\<forall>s\<in>set (active_segments d). stored_ok root (file_at v') s" .
    then show ?thesis using * new by (auto simp: active_segments_def)
  qed
qed

definition sample_file :: bytes where
  "sample_file = (case write_to_file (\<lambda>n. Some (replicate n 0)) (add_events [sample_event] (SegmentWriter_new 1 4)) of Ok m \<Rightarrow> m | _ \<Rightarrow> [])"

definition sample_world :: World where
  "sample_world = \<lparr>files = [(''t'', sample_file)], fates = []\<rparr>"

lemma sample_file_valid: "valid_segment sample_file"
proof -
  let ?w = "add_events [sample_event] (SegmentWriter_new 1 4)"
  obtain m where m: "write_to_file (\<lambda>n. Some (replicate n 0)) ?w = Ok m" "segment_file ?w m" "footer_at ?w + 128 < 2 ^ 32"
    "SegmentReader_open (Ok m) SegmentReader_init = (Ok (), opened ?w m)"
    using segment_written [OF sample_writer(1) _ _ sample_writer(3), of "\<lambda>n. Some (replicate n 0)"] by auto
  then show ?thesis using validate_opened [OF m(2,3)] by (simp add: sample_file_def valid_segment_def)
qed

lemma sample_opened:
  obtains c w where "Catalog_open (\<lambda>_. True) 0 (Catalog_new ''d'') sample_world = (Returned (Ok (), c), w)"
    "session (\<lambda>_. True) ''d'' c (w\<lparr>fates := fs\<rparr>)" "committable ''d'' c ''t'' (file_at w)" "ct_manifest c = Manifest_init"
proof -
  have q: "quiet sample_world" by (simp add: quiet_def sample_world_def)
  have n: "file_at sample_world (full_path ''d'' p) = None" for p by (simp add: sample_world_def full_path_def)
  have "wp {} (Catalog_open (\<lambda>_. True) 0 (Catalog_new ''d''))
    (\<lambda>(r, c) gs. r = Ok () \<and> consistent (\<lambda>_. True) ''d'' c 0 [] gs \<and> ct_manifest c = Manifest_init
       \<and> (\<forall>p. \<not> temporary_in ''d'' p \<and> p \<notin> full_path ''d'' ` {''manifest.vtm'', ''journal.vtwal''} \<longrightarrow> gs p = file_at sample_world p))
    (\<lambda>_. False) (file_at sample_world)"
    by (rule wp_open_fresh) (use n in simp_all)
  then obtain a w where a: "Catalog_open (\<lambda>_. True) 0 (Catalog_new ''d'') sample_world = (Returned a, w)"
    "case a of (r, c) \<Rightarrow> r = Ok () \<and> ct_manifest c = Manifest_init
       \<and> (\<forall>p. \<not> temporary_in ''d'' p \<and> p \<notin> full_path ''d'' ` {''manifest.vtm'', ''journal.vtwal''} \<longrightarrow> file_at w p = file_at sample_world p)"
    by (rule wp_quiet [OF _ q]) auto
  obtain c where c: "a = (Ok (), c)" "ct_manifest c = Manifest_init"
    "\<And>p. \<not> temporary_in ''d'' p \<Longrightarrow> p \<notin> full_path ''d'' ` {''manifest.vtm'', ''journal.vtwal''} \<Longrightarrow> file_at w p = file_at sample_world p"
    using a(2) by (cases a) auto
  have "session (\<lambda>_. True) ''d'' c w" using a(1) c(1) n q by (intro session.opened [where w = sample_world and now = 0]) auto
  then have s: "session (\<lambda>_. True) ''d'' c (w\<lparr>fates := fs\<rparr>)" by (rule session.elsewhere) simp
  have "file_at w ''t'' = Some sample_file"
    using c(3) [of "''t''"] by (auto simp: sample_world_def temporary_in_def full_path_def)
  moreover have "file_at w (full_path ''d'' (segment_filename 1)) = None"
    using c(3) [of "full_path ''d'' (segment_filename 1)"] n by (simp add: temporary_in_full_path not_temporary)
  ultimately have "committable ''d'' c ''t'' (file_at w)"
    using sample_file_valid c(2) by (auto simp: committable_def Manifest_init_def full_path_def)
  then show ?thesis using that a(1) c s by simp
qed

theorem commit_crash_atomic_witness:
  "\<exists>c w r w'. Catalog_open (\<lambda>_. True) 0 (Catalog_new ''d'') sample_world = (Returned (Ok (), c), w)
    \<and> commit_segment ''t'' sample_meta c (w\<lparr>fates := [Done, Short 3, Killed]\<rparr>) = (r, w')
    \<and> (\<exists>c' v'. recover (\<lambda>_. True) (Catalog_new ''d'') (w'\<lparr>fates := []\<rparr>) = (Returned (Ok (), c'), v') \<and> length (active_segments c') \<le> 1)"
proof -
  let ?fs = "[Done, Short 3, Killed]"
  obtain c w where c: "Catalog_open (\<lambda>_. True) 0 (Catalog_new ''d'') sample_world = (Returned (Ok (), c), w)"
    "session (\<lambda>_. True) ''d'' c (w\<lparr>fates := ?fs\<rparr>)" "committable ''d'' c ''t'' (file_at w)" "ct_manifest c = Manifest_init"
    by (rule sample_opened)
  have fits: "manifest_fits (\<lambda>_. True) (committed_manifest sample_meta c)"
    using length_segment_filename [of 1] c(4) by (simp add: manifest_fits_def Manifest_init_def)
  have act: "active_segments c = []" using c(4) by (simp add: active_segments_def Manifest_init_def)
  obtain r w' where r: "commit_segment ''t'' sample_meta c (w\<lparr>fates := ?fs\<rparr>) = (r, w')" by fastforce
  have "restarts (\<lambda>_. True) ''d'' w' (w'\<lparr>fates := []\<rparr>)" by (rule restarts.first) simp
  from commit_crash_atomic [OF c(2) _ _ _ fits r this] have "\<exists>c' v'. recover (\<lambda>_. True) (Catalog_new ''d'') (w'\<lparr>fates := []\<rparr>) = (Returned (Ok (), c'), v')
      \<and> length (active_segments c') \<le> 1"
    using c(3) act by (fastforce simp: crashes_def quiet_def)
  then show ?thesis using c(1) r by blast
qed

end
