(* ===== verification/Worker_Pool.thy ===== *)
theory Worker_Pool
  imports Spsc_Ring "HOL-Library.Sublist"
begin

text \<open>
  Model of \<^verbatim>\<open>include/vectortick/concurrency/worker_pool.hpp\<close>: worker threads with a command queue and a result queue
  each, and the thread that owns the pool. The threads run in turns that a schedule chooses; a turn is one
  operation on the shared state (a queue operation, whose own atomic accesses \<^verbatim>\<open>Spsc_Ring\<close> interleaves, or a load of
  \<^verbatim>\<open>running_\<close>). The work function is a parameter and returns. \<^verbatim>\<open>hardware_concurrency()\<close> is a parameter. The fields
  \<open>sent\<close> and \<open>received\<close> are histories that no operation reads. Shown: what the owner receives from a worker is what
  the work function answers to the commands it sent, in their order, and \<^verbatim>\<open>stop\<close> returns under every fair schedule when
  no command queue is full; also the two ways in which the owner can wait for ever.
\<close>

section \<open>State\<close>

record WorkerCommand =
  cmd_type :: u32
  cmd_segment_id :: u32
  cmd_arg1 :: u64
  cmd_arg2 :: u64

abbreviation Stop :: u32 where "Stop \<equiv> 0"

record WorkerResult =
  res_status :: u32
  res_worker_id :: u32
  res_rows_processed :: u64
  res_result_hash :: u64

abbreviation Success :: u32 where "Success \<equiv> 0"

definition stop_cmd :: WorkerCommand where
  "stop_cmd = \<lparr>cmd_type = Stop, cmd_segment_id = 0, cmd_arg1 = 0, cmd_arg2 = 0\<rparr>"

definition empty_command :: WorkerCommand where
  "empty_command = stop_cmd"

definition empty_result :: WorkerResult where
  "empty_result = \<lparr>res_status = Success, res_worker_id = 0, res_rows_processed = 0, res_result_hash = 0\<rparr>"

text \<open>Where a worker is in \<^verbatim>\<open>worker_loop\<close>, and where the owner is in the operations that wait.\<close>

datatype worker_pc = AtCheck | AtPop | AtPush WorkerResult | AtRecheck WorkerResult | Exited

datatype main_pc = Idle | Sending nat WorkerCommand | Broadcasting nat WorkerCommand | Receiving nat
  | WaitCommands nat | WaitResults nat | StopPush nat | Joining nat

record Pool =
  num_workers :: nat
  running :: bool
  command_queues :: "WorkerCommand SpscRing list"
  result_queues :: "WorkerResult SpscRing list"
  workers :: "worker_pc list"
  main :: main_pc
  sent :: "(nat \<times> WorkerCommand) list"
  received :: "(nat \<times> WorkerResult) list"

definition WorkerPool_new :: "nat \<Rightarrow> nat \<Rightarrow> nat \<Rightarrow> Pool" where
  "WorkerPool_new hardware n queue_capacity =
     (let n = (if n = 0 then if hardware = 0 then 1 else hardware else n) in
      \<lparr>num_workers = n, running = False, command_queues = replicate n (SpscRing_new empty_command queue_capacity),
       result_queues = replicate n (SpscRing_new empty_result queue_capacity), workers = [], main = Idle, sent = [], received = []\<rparr>)"

definition start :: "Pool \<Rightarrow> Pool" where
  "start p = (if running p then p else p\<lparr>running := True, workers := workers p @ replicate (num_workers p) AtCheck\<rparr>)"

section \<open>The worker loop\<close>

definition fresh_result :: "nat \<Rightarrow> WorkerResult" where
  "fresh_result i = \<lparr>res_status = Success, res_worker_id = of_nat i, res_rows_processed = 0, res_result_hash = 0\<rparr>"

definition worker_step ::
    "(nat \<Rightarrow> WorkerCommand \<Rightarrow> WorkerResult \<Rightarrow> WorkerResult) \<Rightarrow> nat \<Rightarrow> Pool \<Rightarrow> Pool" where
  "worker_step work i p =
     (case workers p ! i of
        AtCheck \<Rightarrow> p\<lparr>workers := (workers p)[i := if running p then AtPop else Exited]\<rparr>
      | AtPop \<Rightarrow>
          (case try_pop (command_queues p ! i) of
             (None, _) \<Rightarrow> p\<lparr>workers := (workers p)[i := AtCheck]\<rparr>
           | (Some cmd, q) \<Rightarrow>
               let p = p\<lparr>command_queues := (command_queues p)[i := q]\<rparr> in
               if cmd_type cmd = Stop then p\<lparr>workers := (workers p)[i := Exited]\<rparr>
               else p\<lparr>workers := (workers p)[i := AtPush (work i cmd (fresh_result i))]\<rparr>)
      | AtPush r \<Rightarrow>
          (case try_push r (result_queues p ! i) of
             (True, q) \<Rightarrow> p\<lparr>result_queues := (result_queues p)[i := q], workers := (workers p)[i := AtCheck]\<rparr>
           | (False, _) \<Rightarrow> p\<lparr>workers := (workers p)[i := AtRecheck r]\<rparr>)
      | AtRecheck r \<Rightarrow> p\<lparr>workers := (workers p)[i := if running p then AtPush r else Exited]\<rparr>
      | Exited \<Rightarrow> p)"

section \<open>The owner\<close>

definition send_command :: "nat \<Rightarrow> WorkerCommand \<Rightarrow> Pool \<Rightarrow> bool \<times> Pool" where
  "send_command i cmd p =
     (if num_workers p \<le> i then (False, p)
      else let (ok, q) = try_push cmd (command_queues p ! i) in
        (ok, p\<lparr>command_queues := (command_queues p)[i := q], sent := sent p @ (if ok then [(i, cmd)] else [])\<rparr>))"

definition try_receive :: "nat \<Rightarrow> Pool \<Rightarrow> WorkerResult option \<times> Pool" where
  "try_receive i p =
     (if num_workers p \<le> i then (None, p)
      else let (r, q) = try_pop (result_queues p ! i) in
        (r, p\<lparr>result_queues := (result_queues p)[i := q],
             received := received p @ (case r of None \<Rightarrow> [] | Some r \<Rightarrow> [(i, r)])\<rparr>))"

text \<open>Beginning an operation that waits.\<close>

definition send_command_blocking :: "nat \<Rightarrow> WorkerCommand \<Rightarrow> Pool \<Rightarrow> Pool" where
  "send_command_blocking i cmd p = (if num_workers p \<le> i then p else p\<lparr>main := Sending i cmd\<rparr>)"

definition receive_blocking :: "nat \<Rightarrow> Pool \<Rightarrow> Pool" where
  "receive_blocking i p = (if num_workers p \<le> i then p else p\<lparr>main := Receiving i\<rparr>)"

definition broadcast :: "WorkerCommand \<Rightarrow> Pool \<Rightarrow> Pool" where
  "broadcast cmd p = p\<lparr>main := Broadcasting 0 cmd\<rparr>"

definition wait_all :: "Pool \<Rightarrow> Pool" where
  "wait_all p = p\<lparr>main := WaitCommands 0\<rparr>"

definition stop :: "Pool \<Rightarrow> Pool" where
  "stop p = (if \<not> running p then p else p\<lparr>running := False, main := StopPush 0\<rparr>)"

text \<open>One turn of the owner inside such an operation; \<open>Idle\<close> is outside.\<close>

definition main_step :: "Pool \<Rightarrow> Pool" where
  "main_step p =
     (case main p of
        Idle \<Rightarrow> p
      | Sending i cmd \<Rightarrow> (let (ok, p) = send_command i cmd p in if ok then p\<lparr>main := Idle\<rparr> else p)
      | Broadcasting i cmd \<Rightarrow>
          if i < num_workers p
          then let (ok, p) = send_command i cmd p in if ok then p\<lparr>main := Broadcasting (i + 1) cmd\<rparr> else p
          else p\<lparr>main := Idle\<rparr>
      | Receiving i \<Rightarrow>
          (case try_receive i p of (None, p) \<Rightarrow> p | (Some r, p) \<Rightarrow> p\<lparr>main := Idle\<rparr>)
      | WaitCommands i \<Rightarrow>
          if i < num_workers p
          then if ring_empty (command_queues p ! i) then p\<lparr>main := WaitCommands (i + 1)\<rparr> else p
          else p\<lparr>main := WaitResults 0\<rparr>
      | WaitResults i \<Rightarrow>
          if i < num_workers p
          then if ring_empty (result_queues p ! i) then p\<lparr>main := WaitResults (i + 1)\<rparr> else p
          else p\<lparr>main := Idle\<rparr>
      | StopPush i \<Rightarrow>
          if i < num_workers p
          then let (ok, p) = send_command i stop_cmd p in if ok then p\<lparr>main := StopPush (i + 1)\<rparr> else p
          else p\<lparr>main := Joining 0\<rparr>
      | Joining i \<Rightarrow>
          if i < length (workers p)
          then if workers p ! i = Exited then p\<lparr>main := Joining (i + 1)\<rparr> else p
          else p\<lparr>workers := [], main := Idle\<rparr>)"

section \<open>Schedules\<close>

datatype thread = Main | Worker nat

definition turn :: "(nat \<Rightarrow> WorkerCommand \<Rightarrow> WorkerResult \<Rightarrow> WorkerResult) \<Rightarrow> thread \<Rightarrow> Pool \<Rightarrow> Pool" where
  "turn work t p = (case t of Main \<Rightarrow> main_step p | Worker i \<Rightarrow> if i < length (workers p) then worker_step work i p else p)"

fun run_schedule :: "('t \<Rightarrow> 's \<Rightarrow> 's) \<Rightarrow> (nat \<Rightarrow> 't) \<Rightarrow> nat \<Rightarrow> 's \<Rightarrow> 's" where
  "run_schedule step sched 0 s = s"
| "run_schedule step sched (Suc n) s = step (sched n) (run_schedule step sched n s)"

text \<open>Every thread of the set gets a turn again and again.\<close>

definition fair :: "'t set \<Rightarrow> (nat \<Rightarrow> 't) \<Rightarrow> bool" where
  "fair T sched \<longleftrightarrow> (\<forall>t\<in>T. \<forall>k. \<exists>m\<ge>k. sched m = t)"

definition threads :: "nat \<Rightarrow> thread set" where
  "threads n = insert Main (Worker ` {..<n})"

text \<open>
  Progress under fairness: in every state short of the goal some thread is helpful, its turn brings the goal or a smaller
  rank, and the turns of the others bring a smaller rank or leave both the rank and the helpful thread as they are.
\<close>

locale just_response =
  fixes step :: "'t \<Rightarrow> 's \<Rightarrow> 's" and T :: "'t set" and inv goal :: "'s \<Rightarrow> bool" and rank :: "'s \<Rightarrow> nat"
    and helpful :: "'s \<Rightarrow> 't"
  assumes inv_step: "inv s \<Longrightarrow> inv (step t s)"
    and helpful_in: "inv s \<Longrightarrow> \<not> goal s \<Longrightarrow> helpful s \<in> T"
    and helpful_step: "inv s \<Longrightarrow> \<not> goal s \<Longrightarrow> goal (step (helpful s) s) \<or> rank (step (helpful s) s) < rank s"
    and other_step: "inv s \<Longrightarrow> \<not> goal s \<Longrightarrow>
      goal (step t s) \<or> rank (step t s) < rank s \<or> rank (step t s) = rank s \<and> helpful (step t s) = helpful s"
begin

lemma inv_run: "inv s \<Longrightarrow> inv (run_schedule step sched n s)"
  by (induction n) (auto intro: inv_step)

lemma waits_or_progresses:
  assumes "inv s" "k \<le> m"
  shows "(\<exists>j. k \<le> j \<and> (goal (run_schedule step sched j s) \<or> rank (run_schedule step sched j s) < rank (run_schedule step sched k s)))
    \<or> rank (run_schedule step sched m s) = rank (run_schedule step sched k s)
      \<and> helpful (run_schedule step sched m s) = helpful (run_schedule step sched k s)"
  using assms(2)
proof (induction rule: dec_induct)
  case base
  then show ?case by simp
next
  case (step m)
  show ?case
  proof (cases "goal (run_schedule step sched m s)")
    case True
    then show ?thesis using step.hyps by blast
  next
    case False
    from other_step [OF inv_run [OF assms(1)] this, of "sched m"] step.IH step.hyps show ?thesis
      by (metis le_Suc_eq run_schedule.simps(2))
  qed
qed

lemma reaches_goal_from:
  assumes "inv s" "fair T sched"
  shows "\<exists>j. k \<le> j \<and> goal (run_schedule step sched j s)"
proof (induction "rank (run_schedule step sched k s)" arbitrary: k rule: less_induct)
  case less
  let ?r = "\<lambda>j. run_schedule step sched j s"
  show ?case
  proof (cases "goal (?r k)")
    case False
    from helpful_in [OF inv_run [OF assms(1)] this] assms(2) obtain m where m: "k \<le> m" "sched m = helpful (?r k)"
      unfolding fair_def by blast
    have "\<exists>j. k \<le> j \<and> (goal (?r j) \<or> rank (?r j) < rank (?r k))"
      using waits_or_progresses [OF assms(1) m(1), of sched] helpful_step [OF inv_run [OF assms(1)], of sched m] m
      by (metis le_Suc_eq run_schedule.simps(2))
    then show ?thesis using less by (meson order.trans)
  qed blast
qed

lemma reaches_goal: "inv s \<Longrightarrow> fair T sched \<Longrightarrow> \<exists>n. goal (run_schedule step sched n s)"
  using reaches_goal_from by blast

end

section \<open>Well-formed pools\<close>

definition pool_ok :: "Pool \<Rightarrow> bool" where
  "pool_ok p \<longleftrightarrow> length (command_queues p) = num_workers p \<and> length (result_queues p) = num_workers p
     \<and> (\<forall>i<num_workers p. ring_ok (command_queues p ! i) \<and> ring_ok (result_queues p ! i))
     \<and> (workers p = [] \<or> length (workers p) = num_workers p)"

abbreviation queue_full :: "'a SpscRing \<Rightarrow> bool" where
  "queue_full r \<equiv> length (contents r) = ring_usable r"

lemma ring_full_iff: "ring_ok r \<Longrightarrow> ring_full r \<longleftrightarrow> queue_full r"
  using ring_full_dist [OF ring_ok_bounds(1,2), of r] and_mask_ring [of r "Suc (ring_tail r)"]
  by (simp add: ring_full_def contents_def ring_usable_def)

lemma ring_cases:
  assumes "ring_ok r"
  shows push_cases: "(queue_full r \<and> try_push v r = (False, r)) \<or>
      (\<exists>q. \<not> queue_full r \<and> try_push v r = (True, q) \<and> ring_ok q \<and> contents q = contents r @ [v] \<and> ring_usable q = ring_usable r)"
    and pop_cases: "(contents r = [] \<and> try_pop r = (None, r)) \<or>
      (\<exists>x q. try_pop r = (Some x, q) \<and> ring_ok q \<and> contents r = x # contents q \<and> ring_usable q = ring_usable r)"
  using ring.push_full [OF assms, of v] ring.push_ok [OF assms, of v] apply blast
  using ring.pop_empty [OF assms] ring.pop_ok [OF assms] by (metis list.exhaust)

text \<open>A turn of a worker changes its own place in the loop and its own queues, from which it only takes commands.\<close>

definition worker_effect :: "nat \<Rightarrow> Pool \<Rightarrow> Pool \<Rightarrow> bool" where
  "worker_effect i p p' \<longleftrightarrow> num_workers p' = num_workers p \<and> running p' = running p \<and> main p' = main p
     \<and> sent p' = sent p \<and> received p' = received p
     \<and> (\<exists>pc. workers p' = (workers p)[i := pc])
     \<and> (\<exists>q. command_queues p' = (command_queues p)[i := q] \<and> ring_ok q \<and> ring_usable q = ring_usable (command_queues p ! i)
          \<and> suffix (contents q) (contents (command_queues p ! i)))
     \<and> (\<exists>q. result_queues p' = (result_queues p)[i := q] \<and> ring_ok q \<and> ring_usable q = ring_usable (result_queues p ! i)
          \<and> prefix (contents (result_queues p ! i)) (contents q))"

lemma worker_step_effect:
  assumes "ring_ok (command_queues p ! i)" "ring_ok (result_queues p ! i)"
  shows "worker_effect i p (worker_step work i p)"
proof -
  note e = worker_effect_def worker_step_def Let_def
  have same: "\<exists>pc. xs = xs[i := pc]" for xs :: "worker_pc list" by (metis list_update_id)
  have rings: "\<exists>q. command_queues p = (command_queues p)[i := q] \<and> ring_ok q \<and> ring_usable q = ring_usable (command_queues p ! i)
          \<and> suffix (contents q) (contents (command_queues p ! i))"
    "\<exists>q. result_queues p = (result_queues p)[i := q] \<and> ring_ok q \<and> ring_usable q = ring_usable (result_queues p ! i)
          \<and> prefix (contents (result_queues p ! i)) (contents q)"
    using assms by (metis list_update_id suffix_order.refl, metis list_update_id prefix_order.refl)
  show ?thesis
  proof (cases "workers p ! i")
    case AtPop
    from pop_cases [OF assms(1)] show ?thesis
    proof (elim disjE exE conjE)
      fix x q
      assume q: "try_pop (command_queues p ! i) = (Some x, q)" "ring_ok q" "contents (command_queues p ! i) = x # contents q"
        "ring_usable q = ring_usable (command_queues p ! i)"
      then have "\<exists>q'. (command_queues p)[i := q] = (command_queues p)[i := q'] \<and> ring_ok q'
          \<and> ring_usable q' = ring_usable (command_queues p ! i) \<and> suffix (contents q') (contents (command_queues p ! i))"
        by (intro exI [of _ q]) (simp add: suffix_ConsI)
      then show ?thesis using q(1) AtPop rings(2) by (auto simp: e)
    qed (use AtPop rings in \<open>auto simp: e\<close>)
  next
    case (AtPush r)
    from push_cases [OF assms(2), of r] show ?thesis
    proof (elim disjE exE conjE)
      fix q
      assume q: "try_push r (result_queues p ! i) = (True, q)" "ring_ok q" "contents q = contents (result_queues p ! i) @ [r]"
        "ring_usable q = ring_usable (result_queues p ! i)"
      then have "\<exists>q'. (result_queues p)[i := q] = (result_queues p)[i := q'] \<and> ring_ok q'
          \<and> ring_usable q' = ring_usable (result_queues p ! i) \<and> prefix (contents (result_queues p ! i)) (contents q')"
        by (intro exI [of _ q]) simp
      then show ?thesis using q(1) AtPush rings(1) by (auto simp: e)
    qed (use AtPush rings in \<open>auto simp: e\<close>)
  qed (use rings same in \<open>auto simp: e\<close>)
qed

lemma all_nth_update: "Q x \<Longrightarrow> Q (xs ! j) \<Longrightarrow> Q (xs[i := x] ! j)"
  by (cases "i < length xs"; cases "i = j") (simp_all add: list_update_beyond)

lemma pool_ok_effect: "pool_ok p \<Longrightarrow> worker_effect i p p' \<Longrightarrow> pool_ok p'"
  by (auto simp: pool_ok_def worker_effect_def intro!: all_nth_update [of ring_ok])

lemma pool_ok_worker_step: "pool_ok p \<Longrightarrow> i < num_workers p \<Longrightarrow> pool_ok (worker_step work i p)"
  by (rule pool_ok_effect [OF _ worker_step_effect]) (auto simp: pool_ok_def)

section \<open>Stopping\<close>

text \<open>The states between the call of \<^verbatim>\<open>stop\<close> and its return, when the queues still to be filled have room.\<close>

definition stopping :: "nat \<Rightarrow> Pool \<Rightarrow> bool" where
  "stopping n p \<longleftrightarrow> pool_ok p \<and> num_workers p = n \<and> \<not> running p \<and>
     (case main p of
        StopPush i \<Rightarrow> length (workers p) = n \<and> (\<forall>j<n. i \<le> j \<longrightarrow> \<not> queue_full (command_queues p ! j))
      | Joining i \<Rightarrow> length (workers p) = n
      | Idle \<Rightarrow> workers p = []
      | _ \<Rightarrow> False)"

definition stop_returned :: "Pool \<Rightarrow> bool" where
  "stop_returned p \<longleftrightarrow> main p = Idle \<and> workers p = []"

text \<open>How many turns a worker can still take once \<^verbatim>\<open>running_\<close> is false, and the owner inside \<^verbatim>\<open>stop\<close>.\<close>

primrec worker_rank :: "worker_pc \<Rightarrow> nat" where
  "worker_rank AtCheck = 1"
| "worker_rank AtPop = 3"
| "worker_rank (AtPush r) = 2"
| "worker_rank (AtRecheck r) = 1"
| "worker_rank Exited = 0"

definition stop_rank :: "nat \<Rightarrow> Pool \<Rightarrow> nat" where
  "stop_rank n p = sum_list (map worker_rank (workers p)) +
     (case main p of StopPush i \<Rightarrow> (n - i) + n + 2 | Joining i \<Rightarrow> (n - i) + 1 | _ \<Rightarrow> 0)"

definition stop_helpful :: "Pool \<Rightarrow> thread" where
  "stop_helpful p = (case main p of
     Joining i \<Rightarrow> if i < length (workers p) \<and> workers p ! i \<noteq> Exited then Worker i else Main | _ \<Rightarrow> Main)"

lemma rank_update:
  assumes "i < length ws" "worker_rank pc < worker_rank (ws ! i)"
  shows "sum_list (map worker_rank (ws[i := pc])) < sum_list (map worker_rank ws)"
  using assms elem_le_sum_list [of i "map worker_rank ws"] by (simp add: map_update sum_list_update)

lemma worker_rank_step:
  assumes "\<not> running p" "workers p ! i \<noteq> Exited"
  shows "\<exists>pc. workers (worker_step work i p) = (workers p)[i := pc] \<and> worker_rank pc < worker_rank (workers p ! i)"
  using assms
  by (cases "workers p ! i")
    (auto simp: worker_step_def Let_def split: prod.split option.split bool.split if_splits intro: exI [where x = Exited]
       exI [where x = AtCheck] exI [where x = "AtRecheck r" for r] exI [where x = "AtPush r" for r])

lemma worker_exited: "workers p ! i = Exited \<Longrightarrow> worker_step work i p = p"
  by (simp add: worker_step_def)

lemma stop_rank_worker:
  assumes "stopping n p" "i < length (workers p)" "workers p ! i \<noteq> Exited"
  shows "stop_rank n (worker_step work i p) < stop_rank n p"
proof -
  have i: "i < num_workers p" using assms(1,2) by (auto simp: stopping_def pool_ok_def)
  then have ok: "ring_ok (command_queues p ! i)" "ring_ok (result_queues p ! i)"
    using assms(1) by (auto simp: stopping_def pool_ok_def)
  have "main (worker_step work i p) = main p" using worker_step_effect [OF ok, of work] by (simp add: worker_effect_def)
  then show ?thesis
    using worker_rank_step [OF _ assms(3), of work] assms(1) rank_update [OF assms(2)]
    by (auto simp: stop_rank_def stopping_def)
qed

lemma stopping_worker:
  assumes "stopping n p" "i < length (workers p)"
  shows "stopping n (worker_step work i p)"
proof -
  have i: "i < num_workers p" using assms by (auto simp: stopping_def pool_ok_def)
  then have ok: "pool_ok p" "ring_ok (command_queues p ! i)" "ring_ok (result_queues p ! i)"
    using assms(1) by (auto simp: stopping_def pool_ok_def)
  note e = worker_step_effect [OF ok(2,3), of work]
  have room: "\<not> queue_full (command_queues (worker_step work i p) ! j)" if "\<not> queue_full (command_queues p ! j)" "j < n" for j
  proof (cases "j = i")
    case True
    then show ?thesis using e that i ok contents_bound [OF ok(2)] suffix_length_le
      by (fastforce simp: worker_effect_def pool_ok_def)
  qed (use e that in \<open>auto simp: worker_effect_def\<close>)
  from e have "length (workers (worker_step work i p)) = length (workers p)" by (auto simp: worker_effect_def)
  with e room pool_ok_worker_step [OF ok(1) i] assms show ?thesis
    by (auto simp: stopping_def worker_effect_def split: main_pc.splits)
qed

lemma stopping_main:
  assumes "stopping n p" "\<not> stop_returned p"
  shows "stopping n (main_step p)" "stop_rank n (main_step p) \<le> stop_rank n p"
    "stop_helpful p = Main \<Longrightarrow> stop_rank n (main_step p) < stop_rank n p" "stop_helpful p \<noteq> Main \<Longrightarrow> main_step p = p"
    "stop_helpful p \<in> threads n"
proof -
  have "stopping n (main_step p) \<and> stop_rank n (main_step p) \<le> stop_rank n p
    \<and> (stop_helpful p = Main \<longrightarrow> stop_rank n (main_step p) < stop_rank n p) \<and> (stop_helpful p \<noteq> Main \<longrightarrow> main_step p = p)
    \<and> stop_helpful p \<in> threads n"
  proof (cases "main p")
    case (StopPush i)
    show ?thesis
    proof (cases "i < n")
      case True
      from assms StopPush True have i: "i < num_workers p" "ring_ok (command_queues p ! i)" "\<not> queue_full (command_queues p ! i)"
        by (auto simp: stopping_def pool_ok_def)
      from push_cases [OF i(2), of stop_cmd] i(3) obtain q where q: "try_push stop_cmd (command_queues p ! i) = (True, q)" "ring_ok q"
        by blast
      have "pool_ok (main_step p)" using assms(1) i q StopPush
        by (auto simp: stopping_def main_step_def send_command_def pool_ok_def intro!: all_nth_update [of ring_ok])
      then show ?thesis using assms i q StopPush
        by (auto simp: stopping_def main_step_def send_command_def stop_rank_def stop_helpful_def threads_def)
    qed (use assms StopPush in \<open>auto simp: stopping_def main_step_def stop_rank_def stop_helpful_def threads_def pool_ok_def\<close>)
  next
    case (Joining i)
    then show ?thesis using assms
      by (auto simp: stopping_def main_step_def stop_rank_def stop_helpful_def threads_def pool_ok_def)
  qed (use assms in \<open>auto simp: stopping_def stop_returned_def\<close>)
  then show "stopping n (main_step p)" "stop_rank n (main_step p) \<le> stop_rank n p"
    "stop_helpful p = Main \<Longrightarrow> stop_rank n (main_step p) < stop_rank n p" "stop_helpful p \<noteq> Main \<Longrightarrow> main_step p = p"
    "stop_helpful p \<in> threads n" by blast+
qed

interpretation stop: just_response "turn work" "threads n" "stopping n" stop_returned "stop_rank n" stop_helpful for work n
proof
  fix p t
  assume inv: "stopping n p"
  show "stopping n (turn work t p)"
  proof (cases "stop_returned p")
    case True
    then show ?thesis using inv by (auto simp: turn_def stop_returned_def main_step_def split: thread.split)
  qed (use inv stopping_main(1) stopping_worker in \<open>auto simp: turn_def split: thread.split\<close>)
  assume "\<not> stop_returned p"
  note main = stopping_main [OF inv this]
  show "stop_helpful p \<in> threads n" by (rule main(5))
  have "stop_rank n (turn work (stop_helpful p) p) < stop_rank n p"
  proof (cases "stop_helpful p")
    case (Worker i)
    then have "i < length (workers p)" "workers p ! i \<noteq> Exited" by (auto simp: stop_helpful_def split: main_pc.splits if_splits)
    then show ?thesis using stop_rank_worker [OF inv] Worker by (simp add: turn_def)
  qed (use main(3) in \<open>simp add: turn_def\<close>)
  then show "stop_returned (turn work (stop_helpful p) p) \<or> stop_rank n (turn work (stop_helpful p) p) < stop_rank n p" ..
  show "stop_returned (turn work t p) \<or> stop_rank n (turn work t p) < stop_rank n p
    \<or> stop_rank n (turn work t p) = stop_rank n p \<and> stop_helpful (turn work t p) = stop_helpful p"
  proof (cases t)
    case Main
    then show ?thesis using main(3,4) by (cases "stop_helpful p = Main") (auto simp: turn_def)
  next
    case (Worker i)
    then show ?thesis using stop_rank_worker [OF inv, of i work] worker_exited [of p i work]
      by (cases "i < length (workers p)"; cases "workers p ! i = Exited") (auto simp: turn_def)
  qed
qed

section \<open>Commands and results in order\<close>

text \<open>
  What can happen to a pool: the owner calls an operation when it is outside of one, and the threads take turns. The flag
  says that \<^verbatim>\<open>stop\<close> has been called.
\<close>

inductive pool_reachable :: "(nat \<Rightarrow> WorkerCommand \<Rightarrow> WorkerResult \<Rightarrow> WorkerResult) \<Rightarrow> bool \<Rightarrow> Pool \<Rightarrow> bool"
  for work where
  reach_new: "pool_reachable work False (WorkerPool_new hardware n queue_capacity)"
| reach_start: "pool_reachable work b p \<Longrightarrow> main p = Idle \<Longrightarrow> pool_reachable work b (start p)"
| reach_stop: "pool_reachable work b p \<Longrightarrow> main p = Idle \<Longrightarrow> pool_reachable work True (stop p)"
| reach_send: "pool_reachable work b p \<Longrightarrow> main p = Idle \<Longrightarrow> pool_reachable work b (snd (send_command i cmd p))"
| reach_receive: "pool_reachable work b p \<Longrightarrow> main p = Idle \<Longrightarrow> pool_reachable work b (snd (try_receive i p))"
| reach_send_blocking: "pool_reachable work b p \<Longrightarrow> main p = Idle \<Longrightarrow> pool_reachable work b (send_command_blocking i cmd p)"
| reach_receive_blocking: "pool_reachable work b p \<Longrightarrow> main p = Idle \<Longrightarrow> pool_reachable work b (receive_blocking i p)"
| reach_broadcast: "pool_reachable work b p \<Longrightarrow> main p = Idle \<Longrightarrow> pool_reachable work b (broadcast cmd p)"
| reach_wait_all: "pool_reachable work b p \<Longrightarrow> main p = Idle \<Longrightarrow> pool_reachable work b (wait_all p)"
| reach_turn: "pool_reachable work b p \<Longrightarrow> pool_reachable work b (turn work t p)"

definition of_worker :: "nat \<Rightarrow> (nat \<times> 'a) list \<Rightarrow> 'a list" where
  "of_worker i xs = map snd (filter (\<lambda>x. fst x = i) xs)"

lemma of_worker_simps [simp]:
  "of_worker i [] = []" "of_worker i (xs @ ys) = of_worker i xs @ of_worker i ys"
  "of_worker i [(j, x)] = (if i = j then [x] else [])"
  by (simp_all add: of_worker_def)

text \<open>What a worker answers to commands, and the answers that are still on their way from a worker to the owner.\<close>

definition answers :: "(nat \<Rightarrow> WorkerCommand \<Rightarrow> WorkerResult \<Rightarrow> WorkerResult) \<Rightarrow> nat \<Rightarrow> WorkerCommand list \<Rightarrow> WorkerResult list" where
  "answers work i cmds = map (\<lambda>cmd. work i cmd (fresh_result i)) (filter (\<lambda>cmd. cmd_type cmd \<noteq> Stop) cmds)"

lemma answers_append [simp]: "answers work i [] = []" "answers work i (xs @ ys) = answers work i xs @ answers work i ys"
  by (simp_all add: answers_def)

fun in_flight :: "worker_pc \<Rightarrow> WorkerResult list" where
  "in_flight (AtPush r) = [r]"
| "in_flight (AtRecheck r) = [r]"
| "in_flight _ = []"

definition on_the_way :: "(nat \<Rightarrow> WorkerCommand \<Rightarrow> WorkerResult \<Rightarrow> WorkerResult) \<Rightarrow> nat \<Rightarrow> Pool \<Rightarrow> WorkerResult list" where
  "on_the_way work i p = contents (result_queues p ! i) @ (if i < length (workers p) then in_flight (workers p ! i) else [])
     @ answers work i (contents (command_queues p ! i))"

text \<open>In which phases the pool has workers.\<close>

definition phase_ok :: "Pool \<Rightarrow> bool" where
  "phase_ok p \<longleftrightarrow>
     (case main p of
        StopPush i \<Rightarrow> \<not> running p \<and> length (workers p) = num_workers p
      | Joining i \<Rightarrow> \<not> running p \<and> length (workers p) = num_workers p \<and> (\<forall>k<i. k < num_workers p \<longrightarrow> workers p ! k = Exited)
      | _ \<Rightarrow> if running p then length (workers p) = num_workers p else workers p = [])"

definition flow_ok :: "bool \<Rightarrow> 'a list \<Rightarrow> 'a list \<Rightarrow> bool" where
  "flow_ok stopped now all \<longleftrightarrow> subseq now all \<and> (\<not> stopped \<longrightarrow> now = all)"

definition pool_inv :: "(nat \<Rightarrow> WorkerCommand \<Rightarrow> WorkerResult \<Rightarrow> WorkerResult) \<Rightarrow> bool \<Rightarrow> Pool \<Rightarrow> bool" where
  "pool_inv work stopped p \<longleftrightarrow> pool_ok p \<and> phase_ok p \<and> (\<not> stopped \<longrightarrow> running p \<or> workers p = []) \<and>
     (\<forall>i<num_workers p. flow_ok stopped (of_worker i (received p) @ on_the_way work i p) (answers work i (of_worker i (sent p))))"

lemma on_the_way_worker:
  assumes "pool_ok p" "i < length (workers p)" "k < num_workers p"
  shows "subseq (on_the_way work k (worker_step work i p)) (on_the_way work k p)"
    and "running p \<Longrightarrow> on_the_way work k (worker_step work i p) = on_the_way work k p"
proof -
  have i: "i < num_workers p" using assms(1,2) by (auto simp: pool_ok_def)
  then have ok: "ring_ok (command_queues p ! i)" "ring_ok (result_queues p ! i)"
    and len: "i < length (command_queues p)" "i < length (result_queues p)"
    using assms(1) by (auto simp: pool_ok_def)
  have "subseq (on_the_way work k (worker_step work i p)) (on_the_way work k p)
    \<and> (running p \<longrightarrow> on_the_way work k (worker_step work i p) = on_the_way work k p)"
  proof (cases "k = i")
    case False
    with worker_step_effect [OF ok, of work] have "on_the_way work k (worker_step work i p) = on_the_way work k p"
      by (auto simp: worker_effect_def on_the_way_def)
    then show ?thesis by simp
  next
    case True
    have pop: "on_the_way work i (worker_step work i p) = on_the_way work i p" if "workers p ! i = AtPop"
      using pop_cases [OF ok(1)] that assms(2) len
      by (auto simp: worker_step_def on_the_way_def Let_def answers_def split: if_splits)
    have push: "on_the_way work i (worker_step work i p) = on_the_way work i p" if "workers p ! i = AtPush r" for r
      using push_cases [OF ok(2), of r] that assms(2) len
      by (auto simp: worker_step_def on_the_way_def Let_def answers_def)
    show ?thesis
      using True pop push assms(2)
      by (cases "workers p ! i") (auto simp: worker_step_def on_the_way_def subseq_append' list_emb_Cons)
  qed
  then show "subseq (on_the_way work k (worker_step work i p)) (on_the_way work k p)"
    "running p \<Longrightarrow> on_the_way work k (worker_step work i p) = on_the_way work k p" by auto
qed

lemma phase_ok_worker:
  assumes "pool_ok p" "phase_ok p" "i < length (workers p)"
  shows "phase_ok (worker_step work i p)"
proof -
  have i: "i < num_workers p" using assms(1,3) by (auto simp: pool_ok_def)
  then have "ring_ok (command_queues p ! i)" "ring_ok (result_queues p ! i)" using assms(1) by (auto simp: pool_ok_def)
  from worker_step_effect [OF this, of work] have e: "worker_effect i p (worker_step work i p)" .
  then obtain pc where "workers (worker_step work i p) = (workers p)[i := pc]" by (auto simp: worker_effect_def)
  moreover have "workers (worker_step work i p) ! i = Exited" if "workers p ! i = Exited"
    using that by (simp add: worker_exited)
  ultimately show ?thesis using e assms(2,3)
    by (auto simp: phase_ok_def worker_effect_def nth_list_update split: main_pc.splits if_splits)
qed

lemma pool_inv_worker:
  assumes "pool_inv work b p" "i < length (workers p)"
  shows "pool_inv work b (worker_step work i p)"
proof -
  have ok: "pool_ok p" "phase_ok p" and i: "i < num_workers p" using assms by (auto simp: pool_inv_def pool_ok_def)
  have "ring_ok (command_queues p ! i)" "ring_ok (result_queues p ! i)" using ok i by (auto simp: pool_ok_def)
  from worker_step_effect [OF this, of work]
  have e: "num_workers (worker_step work i p) = num_workers p" "sent (worker_step work i p) = sent p"
    "received (worker_step work i p) = received p" "running (worker_step work i p) = running p"
    by (auto simp: worker_effect_def)
  have run: "\<not> b \<Longrightarrow> running p" using assms by (auto simp: pool_inv_def)
  then have "flow_ok b (r @ on_the_way work k (worker_step work i p)) all"
    if "flow_ok b (r @ on_the_way work k p) all" "k < num_workers p" for r k all
    using on_the_way_worker [OF ok(1) assms(2) that(2), of work] that(1)
    by (auto simp: flow_ok_def intro: subseq_order.trans [OF list_emb_append_mono [OF subseq_order.refl]])
  with assms(1) run show ?thesis
    unfolding pool_inv_def e by (auto simp: pool_ok_worker_step [OF ok(1) i] phase_ok_worker [OF ok assms(2)])
qed

lemma pool_inv_main:
  "pool_inv work b p \<Longrightarrow> phase_ok (p\<lparr>main := m\<rparr>) \<Longrightarrow> pool_inv work b (p\<lparr>main := m\<rparr>)"
  by (auto simp: pool_inv_def pool_ok_def on_the_way_def)

lemma pool_inv_send:
  assumes "pool_inv work b p"
  shows "pool_inv work b (snd (send_command i cmd p))"
proof (cases "i < num_workers p")
  case True
  then have ok: "ring_ok (command_queues p ! i)" and len: "i < length (command_queues p)"
    using assms by (auto simp: pool_inv_def pool_ok_def)
  from push_cases [OF ok, of cmd] show ?thesis
  proof (elim disjE exE conjE)
    fix q
    assume q: "try_push cmd (command_queues p ! i) = (True, q)" "ring_ok q" "contents q = contents (command_queues p ! i) @ [cmd]"
    let ?p = "snd (send_command i cmd p)"
    have p: "?p = p\<lparr>command_queues := (command_queues p)[i := q], sent := sent p @ [(i, cmd)]\<rparr>"
      using True q(1) by (simp add: send_command_def)
    have "on_the_way work k ?p = on_the_way work k p @ (if k = i then answers work i [cmd] else [])" for k
      using len q(3) by (simp add: p on_the_way_def)
    moreover have "pool_ok ?p" using assms q(2) by (auto simp: p pool_inv_def pool_ok_def intro!: all_nth_update [of ring_ok])
    moreover have "phase_ok ?p" using assms by (simp add: p pool_inv_def phase_ok_def split: main_pc.splits)
    moreover have "flow_ok b (now @ xs) (all @ xs)" if "flow_ok b now all" for now all xs :: "WorkerResult list"
      using that by (simp add: flow_ok_def)
    ultimately show ?thesis using assms
      by (auto simp: pool_inv_def p simp flip: append_assoc)
  qed (use True assms in \<open>simp add: send_command_def\<close>)
qed (use assms in \<open>simp add: send_command_def\<close>)

lemma pool_inv_receive:
  assumes "pool_inv work b p"
  shows "pool_inv work b (snd (try_receive i p))"
proof (cases "i < num_workers p")
  case True
  then have ok: "ring_ok (result_queues p ! i)" and len: "i < length (result_queues p)"
    using assms by (auto simp: pool_inv_def pool_ok_def)
  from pop_cases [OF ok] show ?thesis
  proof (elim disjE exE conjE)
    fix r q
    assume q: "try_pop (result_queues p ! i) = (Some r, q)" "ring_ok q" "contents (result_queues p ! i) = r # contents q"
    let ?p = "snd (try_receive i p)"
    have p: "?p = p\<lparr>result_queues := (result_queues p)[i := q], received := received p @ [(i, r)]\<rparr>"
      using True q(1) by (simp add: try_receive_def)
    have "(if k = i then [r] else []) @ on_the_way work k ?p = on_the_way work k p" for k
      using len q(3) by (simp add: p on_the_way_def)
    then have "of_worker k (received ?p) @ on_the_way work k ?p = of_worker k (received p) @ on_the_way work k p" for k
      by (simp add: p)
    moreover have "pool_ok ?p" using assms q(2) by (auto simp: p pool_inv_def pool_ok_def intro!: all_nth_update [of ring_ok])
    moreover have "phase_ok ?p" using assms by (simp add: p pool_inv_def phase_ok_def split: main_pc.splits)
    ultimately show ?thesis using assms by (simp add: pool_inv_def) (simp add: p)
  qed (use True assms in \<open>simp add: try_receive_def\<close>)
qed (use assms in \<open>simp add: try_receive_def\<close>)

lemma send_command_frame:
  "num_workers (snd (send_command i cmd p)) = num_workers p" "running (snd (send_command i cmd p)) = running p"
  "workers (snd (send_command i cmd p)) = workers p" "main (snd (send_command i cmd p)) = main p"
  by (simp_all add: send_command_def split: prod.split)

lemma try_receive_frame:
  "num_workers (snd (try_receive i p)) = num_workers p" "running (snd (try_receive i p)) = running p"
  "workers (snd (try_receive i p)) = workers p" "main (snd (try_receive i p)) = main p"
  by (simp_all add: try_receive_def split: prod.split)

lemmas call_frame = send_command_frame try_receive_frame

lemma pool_inv_joined:
  assumes "pool_inv work b p" "main p = Joining i" "length (workers p) \<le> i"
  shows "pool_inv work b (p\<lparr>workers := [], main := Idle\<rparr>)"
proof -
  have "on_the_way work k (p\<lparr>workers := [], main := Idle\<rparr>) = on_the_way work k p" if "k < num_workers p" for k
    using assms that by (auto simp: on_the_way_def pool_inv_def phase_ok_def)
  with assms show ?thesis by (auto simp: pool_inv_def pool_ok_def phase_ok_def)
qed

lemma pool_inv_main_step:
  assumes "pool_inv work b p"
  shows "pool_inv work b (main_step p)"
proof -
  have ph: "phase_ok p" using assms by (simp add: pool_inv_def)
  have send: "pool_inv work b (case send_command i cmd p of (ok, p) \<Rightarrow> if ok then p\<lparr>main := m\<rparr> else p)"
    if "phase_ok (p\<lparr>main := m\<rparr>)" for i cmd m
  proof -
    obtain ok q where q: "send_command i cmd p = (ok, q)" by fastforce
    then have "phase_ok (q\<lparr>main := m\<rparr>) = phase_ok (p\<lparr>main := m\<rparr>)"
      using call_frame(1-3) [of i cmd p] by (simp add: phase_ok_def split: main_pc.split)
    then show ?thesis using pool_inv_send [OF assms, of i cmd] pool_inv_main [of work b q m] that q by simp
  qed
  have set: "pool_inv work b (p\<lparr>main := m\<rparr>)" if "phase_ok (p\<lparr>main := m\<rparr>)" for m
    by (rule pool_inv_main [OF assms that])
  show ?thesis
  proof (cases "main p")
    case (Receiving i)
    have "phase_ok ((snd (try_receive i p))\<lparr>main := Idle\<rparr>)" using ph Receiving by (auto simp: phase_ok_def call_frame)
    from pool_inv_main [OF pool_inv_receive [OF assms] this] pool_inv_receive [OF assms, of i] Receiving show ?thesis
      by (auto simp: main_step_def split: prod.splits option.splits)
  next
    case (Joining i)
    then show ?thesis using pool_inv_joined [OF assms Joining] assms ph set
      by (auto simp: main_step_def phase_ok_def less_Suc_eq)
  qed (use ph in \<open>auto simp: main_step_def phase_ok_def assms intro!: send set split: main_pc.splits if_splits\<close>)
qed

lemma pool_inv_new: "pool_inv work False (WorkerPool_new hardware n c)"
  using SpscRing_new_ok [of empty_command c] SpscRing_new_ok [of empty_result c]
  by (simp add: pool_inv_def WorkerPool_new_def Let_def pool_ok_def phase_ok_def on_the_way_def flow_ok_def)

lemma pool_inv_start:
  assumes "pool_inv work b p" "main p = Idle"
  shows "pool_inv work b (start p)"
proof (cases "running p")
  case False
  then have "workers p = []" using assms by (simp add: pool_inv_def phase_ok_def)
  then have "on_the_way work k (start p) = on_the_way work k p" if "k < num_workers p" for k
    using that by (simp add: on_the_way_def start_def)
  then show ?thesis using assms \<open>workers p = []\<close> by (auto simp: pool_inv_def pool_ok_def phase_ok_def start_def)
qed (use assms in \<open>simp add: start_def\<close>)

lemma pool_inv_stop:
  assumes "pool_inv work b p" "main p = Idle"
  shows "pool_inv work True (stop p)"
proof -
  have "on_the_way work k (stop p) = on_the_way work k p" for k by (simp add: on_the_way_def stop_def)
  then show ?thesis using assms by (auto simp: pool_inv_def pool_ok_def phase_ok_def stop_def flow_ok_def)
qed

lemma pool_inv_call:
  "pool_inv work b p \<Longrightarrow> main p = Idle \<Longrightarrow> \<forall>i. m \<noteq> StopPush i \<and> m \<noteq> Joining i \<Longrightarrow> pool_inv work b (p\<lparr>main := m\<rparr>)"
  by (rule pool_inv_main) (auto simp: pool_inv_def phase_ok_def split: main_pc.split)

lemma pool_reachable_inv: "pool_reachable work b p \<Longrightarrow> pool_inv work b p"
proof (induction rule: pool_reachable.induct)
  case (reach_turn b p t)
  then show ?case by (auto simp: turn_def pool_inv_main_step pool_inv_worker split: thread.split)
qed (auto simp: pool_inv_new pool_inv_start pool_inv_stop pool_inv_send pool_inv_receive
    send_command_blocking_def receive_blocking_def broadcast_def wait_all_def pool_inv_call)

section \<open>Calls that never return\<close>

lemma stays_stuck:
  assumes "\<And>p t. stuck p \<Longrightarrow> stuck (turn work t p)" "stuck p"
  shows "stuck (run_schedule (turn work) sched n p)"
  using assms by (induction n) auto

text \<open>
  A command queue that is full when \<^verbatim>\<open>stop\<close> is called, of a worker that is not about to pop: \<^verbatim>\<open>running_\<close> is false, so the worker
  leaves its loop without taking another command, and the owner waits for room in the queue for ever.
\<close>

definition stop_stuck :: "nat \<Rightarrow> Pool \<Rightarrow> bool" where
  "stop_stuck i p \<longleftrightarrow> pool_ok p \<and> \<not> running p \<and> i < num_workers p \<and> i < length (workers p) \<and> queue_full (command_queues p ! i)
     \<and> workers p ! i \<noteq> AtPop \<and> (\<exists>j\<le>i. main p = StopPush j)"

lemma stop_stuck_worker:
  assumes "stop_stuck i p" "k < length (workers p)"
  shows "stop_stuck i (worker_step work k p)"
proof -
  have k: "k < num_workers p" and ok: "pool_ok p" using assms by (auto simp: stop_stuck_def pool_ok_def)
  then have "ring_ok (command_queues p ! k)" "ring_ok (result_queues p ! k)" by (auto simp: pool_ok_def)
  note e = worker_step_effect [OF this, of work]
  have len: "length (workers (worker_step work k p)) = length (workers p)" using e by (auto simp: worker_effect_def)
  have "command_queues (worker_step work k p) ! i = command_queues p ! i \<and> workers (worker_step work k p) ! i \<noteq> AtPop"
  proof (cases "k = i")
    case True
    then show ?thesis using assms
      by (cases "workers p ! i") (auto simp: stop_stuck_def worker_step_def split: prod.split bool.split)
  qed (use e assms in \<open>auto simp: stop_stuck_def worker_effect_def\<close>)
  then show ?thesis using assms e len pool_ok_worker_step [OF ok k] by (auto simp: stop_stuck_def worker_effect_def)
qed

lemma stop_stuck_main:
  assumes "stop_stuck i p"
  shows "stop_stuck i (main_step p)"
proof -
  obtain j where j: "main p = StopPush j" "j \<le> i" and i: "i < num_workers p" and ok: "pool_ok p"
    using assms by (auto simp: stop_stuck_def)
  then have "ring_ok (command_queues p ! j)" by (simp add: pool_ok_def)
  from push_cases [OF this, of stop_cmd] show ?thesis
  proof (elim disjE exE conjE)
    fix q
    assume q: "\<not> queue_full (command_queues p ! j)" "try_push stop_cmd (command_queues p ! j) = (True, q)" "ring_ok q"
    have "j < i" using q(1) j(2) assms by (cases "j = i") (auto simp: stop_stuck_def)
    then show ?thesis using assms q j i
      by (auto simp: stop_stuck_def main_step_def send_command_def pool_ok_def intro!: all_nth_update [of ring_ok])
  qed (use j i assms in \<open>simp add: main_step_def send_command_def stop_stuck_def pool_ok_def\<close>)
qed

lemma stop_hangs:
  assumes "pool_reachable work stopped p" "running p" "main p = Idle"
    and "i < num_workers p" "ring_full (command_queues p ! i)" "workers p ! i \<noteq> AtPop"
  shows "main (run_schedule (turn work) sched n (stop p)) \<noteq> Idle"
proof -
  have "pool_ok p" "phase_ok p" using pool_reachable_inv [OF assms(1)] by (simp_all add: pool_inv_def)
  then have "stop_stuck i (stop p)"
    using assms by (auto simp: stop_stuck_def stop_def pool_ok_def phase_ok_def ring_full_iff)
  then have "stop_stuck i (run_schedule (turn work) sched n (stop p))"
    by (rule stays_stuck [rotated]) (auto simp: turn_def stop_stuck_worker stop_stuck_main split: thread.split)
  then show ?thesis by (auto simp: stop_stuck_def)
qed

text \<open>
  \<^verbatim>\<open>wait_all\<close> waits for the result queues to become empty, but their only consumer is the thread that waits: it never returns
  when a result is unread.
\<close>

definition wait_stuck :: "nat \<Rightarrow> Pool \<Rightarrow> bool" where
  "wait_stuck i p \<longleftrightarrow> pool_ok p \<and> i < num_workers p \<and> contents (result_queues p ! i) \<noteq> []
     \<and> ((\<exists>j. main p = WaitCommands j) \<or> (\<exists>j\<le>i. main p = WaitResults j))"

lemma wait_stuck_turn:
  assumes "wait_stuck i p"
  shows "wait_stuck i (turn work t p)"
proof (cases t)
  case Main
  have "ring_ok (result_queues p ! i)" using assms by (simp add: wait_stuck_def pool_ok_def)
  then have "\<not> ring_empty (result_queues p ! i)"
    using assms by (auto simp: wait_stuck_def ring_empty_def contents_def slots_def ring_dist_def)
  moreover have "\<exists>j. main (main_step p) = WaitCommands j \<or> main (main_step p) = WaitResults j \<and> j \<le> i"
    if "main p = WaitCommands j \<or> main p = WaitResults j \<and> j \<le> i" for j
    using that assms calculation by (cases "j = i") (auto simp: main_step_def wait_stuck_def)
  moreover have "pool_ok (main_step p) \<and> num_workers (main_step p) = num_workers p \<and> result_queues (main_step p) = result_queues p"
    using assms by (auto simp: wait_stuck_def main_step_def pool_ok_def split: if_splits)
  ultimately show ?thesis using assms Main by (auto simp: wait_stuck_def turn_def)
next
  case (Worker k)
  show ?thesis
  proof (cases "k < length (workers p)")
    case True
    then have k: "k < num_workers p" using assms by (auto simp: wait_stuck_def pool_ok_def)
    then have "ring_ok (command_queues p ! k)" "ring_ok (result_queues p ! k)"
      using assms by (auto simp: wait_stuck_def pool_ok_def)
    note e = worker_step_effect [OF this, of work]
    have "contents (result_queues (worker_step work k p) ! i) \<noteq> []"
      using e assms k by (cases "k = i") (auto simp: wait_stuck_def worker_effect_def pool_ok_def)
    then show ?thesis using assms e True k Worker pool_ok_worker_step [OF _ k, of work]
      by (auto simp: wait_stuck_def turn_def worker_effect_def)
  qed (use assms Worker in \<open>simp add: turn_def\<close>)
qed

lemma wait_all_hangs:
  assumes "pool_reachable work stopped p" "main p = Idle" "i < num_workers p" "contents (result_queues p ! i) \<noteq> []"
  shows "main (run_schedule (turn work) sched n (wait_all p)) \<noteq> Idle"
proof -
  have "wait_stuck i (wait_all p)"
    using pool_reachable_inv [OF assms(1)] assms(2-4) by (auto simp: wait_stuck_def wait_all_def pool_inv_def pool_ok_def)
  from stays_stuck [of "wait_stuck i", OF wait_stuck_turn this, of work sched n] show ?thesis by (auto simp: wait_stuck_def)
qed

section \<open>Example\<close>

text \<open>A pool of one worker that has answered one command.\<close>

definition echo_work :: "nat \<Rightarrow> WorkerCommand \<Rightarrow> WorkerResult \<Rightarrow> WorkerResult" where
  "echo_work i cmd r = r\<lparr>res_rows_processed := cmd_arg1 cmd\<rparr>"

definition sample_command :: WorkerCommand where
  "sample_command = \<lparr>cmd_type = 1, cmd_segment_id = 7, cmd_arg1 = 42, cmd_arg2 = 0\<rparr>"

definition sample_pool :: Pool where
  "sample_pool = snd (try_receive 0 (turn echo_work (Worker 0) (turn echo_work (Worker 0) (turn echo_work (Worker 0)
     (snd (send_command 0 sample_command (start (WorkerPool_new 0 1 1))))))))"

lemma sample_pool_eq:
  "num_workers sample_pool = 1" "running sample_pool" "main sample_pool = Idle"
  "received sample_pool = [(0, \<lparr>res_status = 0, res_worker_id = 0, res_rows_processed = 42, res_result_hash = 0\<rparr>)]"
  "ring_full (command_queues sample_pool ! 0) = False"
  by code_simp+

lemma sample_pool_reachable: "pool_reachable echo_work False sample_pool"
  unfolding sample_pool_def
  by (intro reach_receive reach_turn reach_send reach_start reach_new; code_simp)

definition alternate :: "nat \<Rightarrow> thread" where
  "alternate n = (if even n then Main else Worker 0)"

lemma alternate_fair: "fair (threads 1) alternate"
proof -
  have "\<exists>m\<ge>k. alternate m = Main" "\<exists>m\<ge>k. alternate m = Worker 0" for k
    by (rule exI [of _ "2 * k"], simp add: alternate_def, rule exI [of _ "2 * k + 1"], simp add: alternate_def)
  then show ?thesis by (auto simp: fair_def threads_def)
qed

section \<open>Theorems\<close>

text \<open>
  C14. Whatever the owner does with a pool and however the threads are scheduled, the results it has received from a
  worker are a subsequence of what the work function answers, called with a reset result, to the commands that worker
  accepted, in their order; and as long as \<^verbatim>\<open>stop\<close> has not been called nothing is lost: the results received and the ones on
  the way are exactly these answers.
\<close>

theorem worker_results_in_order:
  assumes "pool_reachable work stopped p" "i < num_workers p"
  shows "subseq (of_worker i (received p)) (answers work i (of_worker i (sent p)))
    \<and> (\<not> stopped \<longrightarrow> of_worker i (received p) @ on_the_way work i p = answers work i (of_worker i (sent p)))"
proof -
  have "flow_ok stopped (of_worker i (received p) @ on_the_way work i p) (answers work i (of_worker i (sent p)))"
    using pool_reachable_inv [OF assms(1)] assms(2) by (simp add: pool_inv_def)
  then show ?thesis unfolding flow_ok_def by (meson subseq_order.trans subseq_rev_drop_many subseq_order.refl)
qed

theorem worker_results_in_order_witness:
  "subseq (of_worker 0 (received sample_pool)) (answers echo_work 0 (of_worker 0 (sent sample_pool))) \<and> received sample_pool \<noteq> []
    \<and> of_worker 0 (received sample_pool) @ on_the_way echo_work 0 sample_pool = answers echo_work 0 (of_worker 0 (sent sample_pool))"
  using worker_results_in_order [OF sample_pool_reachable, of 0] by (simp add: sample_pool_eq)

text \<open>
  C15. Under every schedule that gives each thread a turn again and again, a call of \<^verbatim>\<open>stop\<close> on a running pool none of
  whose command queues is full returns, with every worker joined.
\<close>

theorem stop_returns:
  assumes "pool_reachable work stopped p" "running p" "main p = Idle"
    and "\<forall>i<num_workers p. \<not> ring_full (command_queues p ! i)" "fair (threads (num_workers p)) sched"
  shows "\<exists>n. let q = run_schedule (turn work) sched n (stop p) in main q = Idle \<and> workers q = [] \<and> \<not> running q"
proof -
  have inv: "pool_ok p" "phase_ok p" using pool_reachable_inv [OF assms(1)] by (simp_all add: pool_inv_def)
  have "stopping (num_workers p) (stop p)"
    using inv assms(2-4) by (auto simp: stopping_def stop_def pool_ok_def phase_ok_def ring_full_iff)
  from stop.reaches_goal [OF this assms(5), of work] stop.inv_run [OF this, of work sched] show ?thesis
    by (auto simp: stop_returned_def stopping_def Let_def)
qed

theorem stop_returns_witness:
  "\<exists>n. let q = run_schedule (turn echo_work) alternate n (stop sample_pool) in main q = Idle \<and> workers q = [] \<and> \<not> running q"
  by (rule stop_returns [OF sample_pool_reachable]) (use alternate_fair in \<open>simp_all add: sample_pool_eq\<close>)

end
