(* ===== verification/A64_Assembler.thy ===== *)
theory A64_Assembler
  imports VT_Prelude "HOL-Library.Signed_Division"
begin

text \<open>
  The AArch64 assembler of \<^verbatim>\<open>include/vectortick/jit/a64_assembler.hpp\<close>: every emitting operation and the patching of
  branches. A register or condition is its number (the enumerations have several names for one number); an
  instruction offset is an \<^verbatim>\<open>i32\<close> read with \<open>sint\<close>. The second half of the theory is a specification of the instruction
  set, not code of the repository: how the fields of a 32-bit word give an instruction, for the instructions that the
  assembler can emit. The theorem on encodings says that every operation emits the instruction it is named after.
\<close>

unbundle bit_operations_syntax

section \<open>Registers and conditions\<close>

type_synonym A64Reg = u8
type_synonym A64Condition = u8

abbreviation X :: "nat \<Rightarrow> A64Reg" where "X n \<equiv> of_nat n"

definition SP :: A64Reg where "SP = 31"
definition XZR :: A64Reg where "XZR = 31"

abbreviation Cond_EQ :: A64Condition where "Cond_EQ \<equiv> 0"
abbreviation Cond_NE :: A64Condition where "Cond_NE \<equiv> 1"
abbreviation Cond_HS :: A64Condition where "Cond_HS \<equiv> 2"
abbreviation Cond_LO :: A64Condition where "Cond_LO \<equiv> 3"
abbreviation Cond_HI :: A64Condition where "Cond_HI \<equiv> 8"
abbreviation Cond_LS :: A64Condition where "Cond_LS \<equiv> 9"
abbreviation Cond_GE :: A64Condition where "Cond_GE \<equiv> 10"
abbreviation Cond_LT :: A64Condition where "Cond_LT \<equiv> 11"
abbreviation Cond_GT :: A64Condition where "Cond_GT \<equiv> 12"
abbreviation Cond_LE :: A64Condition where "Cond_LE \<equiv> 13"

section \<open>The assembler\<close>

type_synonym A64Assembler = "u32 list"

definition a64_emit :: "u32 \<Rightarrow> A64Assembler \<Rightarrow> A64Assembler" where
  "a64_emit instr code = code @ [instr]"

definition size_bytes :: "A64Assembler \<Rightarrow> nat" where
  "size_bytes code = length code * 4"

definition r_idx :: "A64Reg \<Rightarrow> u32" where
  "r_idx reg = ucast reg AND 0x1F"

text \<open>The three-register shape that most operations share.\<close>

definition rrr :: "u32 \<Rightarrow> A64Reg \<Rightarrow> A64Reg \<Rightarrow> A64Reg \<Rightarrow> u32" where
  "rrr base dst src1 src2 = base OR push_bit 16 (r_idx src2) OR push_bit 5 (r_idx src1) OR r_idx dst"

subsection \<open>Moves\<close>

definition mov_x64_x64 :: "A64Reg \<Rightarrow> A64Reg \<Rightarrow> A64Assembler \<Rightarrow> A64Assembler" where
  "mov_x64_x64 dst src = a64_emit (0xAA0003E0 OR push_bit 16 (r_idx src) OR r_idx dst)"

definition mov_w32_w32 :: "A64Reg \<Rightarrow> A64Reg \<Rightarrow> A64Assembler \<Rightarrow> A64Assembler" where
  "mov_w32_w32 dst src = a64_emit (0x2A0003E0 OR push_bit 16 (r_idx src) OR r_idx dst)"

definition movz_x64 :: "A64Reg \<Rightarrow> u16 \<Rightarrow> u8 \<Rightarrow> A64Assembler \<Rightarrow> A64Assembler" where
  "movz_x64 dst imm shift =
     (let hw = ucast (shift div 16) AND 3 in
      a64_emit (0xD2800000 OR push_bit 21 hw OR push_bit 5 (ucast imm) OR r_idx dst))"

definition movk_x64 :: "A64Reg \<Rightarrow> u16 \<Rightarrow> u8 \<Rightarrow> A64Assembler \<Rightarrow> A64Assembler" where
  "movk_x64 dst imm shift =
     (let hw = ucast (shift div 16) AND 3 in
      a64_emit (0xF2800000 OR push_bit 21 hw OR push_bit 5 (ucast imm) OR r_idx dst))"

definition mov_x64_imm64 :: "A64Reg \<Rightarrow> u64 \<Rightarrow> A64Assembler \<Rightarrow> A64Assembler" where
  "mov_x64_imm64 dst imm code =
     (let code = movz_x64 dst (ucast (imm AND 0xFFFF)) 0 code;
          code = (if imm AND 0xFFFF0000 \<noteq> 0 then movk_x64 dst (ucast (drop_bit 16 imm AND 0xFFFF)) 16 code else code);
          code = (if imm AND 0xFFFF00000000 \<noteq> 0 then movk_x64 dst (ucast (drop_bit 32 imm AND 0xFFFF)) 32 code else code)
      in if imm AND 0xFFFF000000000000 \<noteq> 0 then movk_x64 dst (ucast (drop_bit 48 imm AND 0xFFFF)) 48 code else code)"

subsection \<open>Arithmetic and logic\<close>

definition add_x64_x64_x64 :: "A64Reg \<Rightarrow> A64Reg \<Rightarrow> A64Reg \<Rightarrow> A64Assembler \<Rightarrow> A64Assembler" where
  "add_x64_x64_x64 dst src1 src2 = a64_emit (rrr 0x8B000000 dst src1 src2)"

definition add_w32_w32_w32 :: "A64Reg \<Rightarrow> A64Reg \<Rightarrow> A64Reg \<Rightarrow> A64Assembler \<Rightarrow> A64Assembler" where
  "add_w32_w32_w32 dst src1 src2 = a64_emit (rrr 0x0B000000 dst src1 src2)"

definition add_x64_imm12 :: "A64Reg \<Rightarrow> A64Reg \<Rightarrow> u16 \<Rightarrow> A64Assembler \<Rightarrow> A64Assembler" where
  "add_x64_imm12 dst src imm = a64_emit (0x91000000 OR push_bit 10 (ucast imm AND 0xFFF) OR push_bit 5 (r_idx src) OR r_idx dst)"

definition sub_x64_x64_x64 :: "A64Reg \<Rightarrow> A64Reg \<Rightarrow> A64Reg \<Rightarrow> A64Assembler \<Rightarrow> A64Assembler" where
  "sub_x64_x64_x64 dst src1 src2 = a64_emit (rrr 0xCB000000 dst src1 src2)"

definition sub_x64_imm12 :: "A64Reg \<Rightarrow> A64Reg \<Rightarrow> u16 \<Rightarrow> A64Assembler \<Rightarrow> A64Assembler" where
  "sub_x64_imm12 dst src imm = a64_emit (0xD1000000 OR push_bit 10 (ucast imm AND 0xFFF) OR push_bit 5 (r_idx src) OR r_idx dst)"

definition mul_x64_x64_x64 :: "A64Reg \<Rightarrow> A64Reg \<Rightarrow> A64Reg \<Rightarrow> A64Assembler \<Rightarrow> A64Assembler" where
  "mul_x64_x64_x64 dst src1 src2 = a64_emit (rrr 0x9B007C00 dst src1 src2)"

definition udiv_x64_x64_x64 :: "A64Reg \<Rightarrow> A64Reg \<Rightarrow> A64Reg \<Rightarrow> A64Assembler \<Rightarrow> A64Assembler" where
  "udiv_x64_x64_x64 dst src1 src2 = a64_emit (rrr 0x9AC00800 dst src1 src2)"

definition sdiv_x64_x64_x64 :: "A64Reg \<Rightarrow> A64Reg \<Rightarrow> A64Reg \<Rightarrow> A64Assembler \<Rightarrow> A64Assembler" where
  "sdiv_x64_x64_x64 dst src1 src2 = a64_emit (rrr 0x9AC00C00 dst src1 src2)"

definition and_x64_x64_x64 :: "A64Reg \<Rightarrow> A64Reg \<Rightarrow> A64Reg \<Rightarrow> A64Assembler \<Rightarrow> A64Assembler" where
  "and_x64_x64_x64 dst src1 src2 = a64_emit (rrr 0x8A000000 dst src1 src2)"

definition orr_x64_x64_x64 :: "A64Reg \<Rightarrow> A64Reg \<Rightarrow> A64Reg \<Rightarrow> A64Assembler \<Rightarrow> A64Assembler" where
  "orr_x64_x64_x64 dst src1 src2 = a64_emit (rrr 0xAA000000 dst src1 src2)"

definition eor_x64_x64_x64 :: "A64Reg \<Rightarrow> A64Reg \<Rightarrow> A64Reg \<Rightarrow> A64Assembler \<Rightarrow> A64Assembler" where
  "eor_x64_x64_x64 dst src1 src2 = a64_emit (rrr 0xCA000000 dst src1 src2)"

definition mvn_x64 :: "A64Reg \<Rightarrow> A64Reg \<Rightarrow> A64Assembler \<Rightarrow> A64Assembler" where
  "mvn_x64 dst src = a64_emit (0xAA2003E0 OR push_bit 16 (r_idx src) OR r_idx dst)"

definition cmp_x64_x64 :: "A64Reg \<Rightarrow> A64Reg \<Rightarrow> A64Assembler \<Rightarrow> A64Assembler" where
  "cmp_x64_x64 src1 src2 = a64_emit (0xEB00001F OR push_bit 16 (r_idx src2) OR push_bit 5 (r_idx src1))"

definition tst_x64_x64 :: "A64Reg \<Rightarrow> A64Reg \<Rightarrow> A64Assembler \<Rightarrow> A64Assembler" where
  "tst_x64_x64 src1 src2 = a64_emit (0xEA00001F OR push_bit 16 (r_idx src2) OR push_bit 5 (r_idx src1))"

subsection \<open>Branches\<close>

definition a64_b :: "i32 \<Rightarrow> A64Assembler \<Rightarrow> A64Assembler" where
  "a64_b offset = a64_emit (0x14000000 OR (offset AND 0x03FFFFFF))"

definition a64_bl :: "i32 \<Rightarrow> A64Assembler \<Rightarrow> A64Assembler" where
  "a64_bl offset = a64_emit (0x94000000 OR (offset AND 0x03FFFFFF))"

definition a64_br :: "A64Reg \<Rightarrow> A64Assembler \<Rightarrow> A64Assembler" where
  "a64_br target = a64_emit (0xD61F0000 OR push_bit 5 (r_idx target))"

definition a64_blr :: "A64Reg \<Rightarrow> A64Assembler \<Rightarrow> A64Assembler" where
  "a64_blr target = a64_emit (0xD63F0000 OR push_bit 5 (r_idx target))"

definition a64_ret :: "A64Reg \<Rightarrow> A64Assembler \<Rightarrow> A64Assembler" where
  "a64_ret target = a64_emit (0xD65F0000 OR push_bit 5 (r_idx target))"

definition b_cond :: "A64Condition \<Rightarrow> i32 \<Rightarrow> A64Assembler \<Rightarrow> A64Assembler" where
  "b_cond cond offset = a64_emit (0x54000000 OR push_bit 5 (offset AND 0x7FFFF) OR (ucast cond AND 0xF))"

subsection \<open>Loads and stores\<close>

text \<open>
  Each of them has a scaled form for offsets that are non-negative, in range and a multiple of the size, and an unscaled
  form for the others. The signed division of a non-negative offset is the unsigned one.
\<close>

definition scaled_or_not :: "i32 \<Rightarrow> u32 \<Rightarrow> i32 \<Rightarrow> u32 \<Rightarrow> u32 \<Rightarrow> A64Reg \<Rightarrow> A64Reg \<Rightarrow> i32 \<Rightarrow> u32" where
  "scaled_or_not low n max_off scaled unscaled rt rn offset =
     (if 0 \<le> sint offset \<and> offset AND low = 0 \<and> sint offset \<le> sint max_off
      then scaled OR push_bit 10 ((offset div n) AND 0xFFF) OR push_bit 5 (r_idx rn) OR r_idx rt
      else unscaled OR push_bit 12 (offset AND 0x1FF) OR push_bit 5 (r_idx rn) OR r_idx rt)"

definition ldr_x64 :: "A64Reg \<Rightarrow> A64Reg \<Rightarrow> i32 \<Rightarrow> A64Assembler \<Rightarrow> A64Assembler" where
  "ldr_x64 dst base offset = a64_emit (scaled_or_not 7 8 32760 0xF9400000 0xF8400000 dst base offset)"

definition ldr_w32 :: "A64Reg \<Rightarrow> A64Reg \<Rightarrow> i32 \<Rightarrow> A64Assembler \<Rightarrow> A64Assembler" where
  "ldr_w32 dst base offset = a64_emit (scaled_or_not 3 4 16380 0xB9400000 0xB8400000 dst base offset)"

definition ldrh :: "A64Reg \<Rightarrow> A64Reg \<Rightarrow> i32 \<Rightarrow> A64Assembler \<Rightarrow> A64Assembler" where
  "ldrh dst base offset = a64_emit (scaled_or_not 1 2 8190 0x79400000 0x78400000 dst base offset)"

definition ldrb :: "A64Reg \<Rightarrow> A64Reg \<Rightarrow> i32 \<Rightarrow> A64Assembler \<Rightarrow> A64Assembler" where
  "ldrb dst base offset = a64_emit (scaled_or_not 0 1 4095 0x39400000 0x38400000 dst base offset)"

definition str_x64 :: "A64Reg \<Rightarrow> A64Reg \<Rightarrow> i32 \<Rightarrow> A64Assembler \<Rightarrow> A64Assembler" where
  "str_x64 src base offset = a64_emit (scaled_or_not 7 8 32760 0xF9000000 0xF8000000 src base offset)"

definition pair_imm7 :: "i32 \<Rightarrow> u32" where
  "pair_imm7 offset = push_bit 15 (word_of_int (sint offset sdiv 8) AND 0x7F)"

definition stp_pre :: "A64Reg \<Rightarrow> A64Reg \<Rightarrow> A64Reg \<Rightarrow> i32 \<Rightarrow> A64Assembler \<Rightarrow> A64Assembler" where
  "stp_pre src1 src2 base offset = a64_emit (0xA9800000 OR push_bit 23 0b11 OR pair_imm7 offset
     OR push_bit 10 (r_idx src2) OR push_bit 5 (r_idx base) OR r_idx src1)"

definition ldp_post :: "A64Reg \<Rightarrow> A64Reg \<Rightarrow> A64Reg \<Rightarrow> i32 \<Rightarrow> A64Assembler \<Rightarrow> A64Assembler" where
  "ldp_post dst1 dst2 base offset = a64_emit (0xA8C00000 OR push_bit 23 0b01 OR pair_imm7 offset
     OR push_bit 10 (r_idx dst2) OR push_bit 5 (r_idx base) OR r_idx dst1)"

subsection \<open>Conditional select\<close>

definition csel_x64 :: "A64Reg \<Rightarrow> A64Reg \<Rightarrow> A64Reg \<Rightarrow> A64Condition \<Rightarrow> A64Assembler \<Rightarrow> A64Assembler" where
  "csel_x64 dst src1 src2 cond = a64_emit (0x9A800000 OR push_bit 16 (r_idx src2) OR push_bit 12 (ucast cond)
     OR push_bit 5 (r_idx src1) OR r_idx dst)"

definition cset_x64 :: "A64Reg \<Rightarrow> A64Condition \<Rightarrow> A64Assembler \<Rightarrow> A64Assembler" where
  "cset_x64 dst cond = (let inv_cond = ucast cond XOR 1 in a64_emit (0x9A9F07E0 OR push_bit 12 inv_cond OR r_idx dst))"

definition a64_nop :: "A64Assembler \<Rightarrow> A64Assembler" where
  "a64_nop = a64_emit 0xD503201F"

subsection \<open>Patching\<close>

definition patch_branch :: "nat \<Rightarrow> i32 \<Rightarrow> A64Assembler \<Rightarrow> A64Assembler" where
  "patch_branch instr_idx target_instr_offset code =
     (if length code \<le> instr_idx then code
      else let instr = code ! instr_idx in
        if instr AND 0x7C000000 = 0x14000000
        then code[instr_idx := (instr AND 0xFC000000) OR (target_instr_offset AND 0x03FFFFFF)]
        else if instr AND 0xFF000000 = 0x54000000
        then code[instr_idx := (instr AND 0xFF00001F) OR push_bit 5 (target_instr_offset AND 0x7FFFF)]
        else code)"

section \<open>The instruction set\<close>

text \<open>A field of an instruction word: bits \<open>lo\<close> up to \<open>lo + n - 1\<close>.\<close>

definition bits :: "nat \<Rightarrow> nat \<Rightarrow> u32 \<Rightarrow> u32" where
  "bits lo n w = take_bit n (drop_bit lo w)"

datatype a64_alu = ADDR | SUBR | SUBS | ANDR | ORR | ORN | EOR | ANDS | UDIV | SDIV

datatype a64_instr =
    Alu a64_alu u32 u32 u32  \<comment> \<open>64-bit operation on registers: destination, first, second\<close>
  | AluW a64_alu u32 u32 u32
  | Madd u32 u32 u32 u32
  | AddImm u32 u32 u32
  | SubImm u32 u32 u32
  | Movz u32 u32 u32  \<comment> \<open>destination, 16 bits, which quarter\<close>
  | Movk u32 u32 u32
  | Ldr nat u32 u32 u32  \<comment> \<open>size as a power of two, target, base, scaled offset\<close>
  | Str nat u32 u32 u32
  | Ldur nat u32 u32 u32  \<comment> \<open>with an unscaled signed offset of 9 bits\<close>
  | Stur nat u32 u32 u32
  | StpPre u32 u32 u32 u32  \<comment> \<open>two registers, base, signed offset of 7 bits in units of 8\<close>
  | LdpPost u32 u32 u32 u32
  | Csel u32 u32 u32 u32
  | Csinc u32 u32 u32 u32
  | Branch u32
  | BranchLink u32
  | BranchCond u32 u32
  | BranchReg u32
  | BranchLinkReg u32
  | Return u32
  | Nop

definition decode_alu :: "u32 \<Rightarrow> (bool \<times> a64_alu) option" where
  "decode_alu op =
     (if op = 0x458 then Some (True, ADDR) else if op = 0x058 then Some (False, ADDR)
      else if op = 0x658 then Some (True, SUBR) else if op = 0x758 then Some (True, SUBS)
      else if op = 0x450 then Some (True, ANDR) else if op = 0x550 then Some (True, ORR)
      else if op = 0x150 then Some (False, ORR) else if op = 0x551 then Some (True, ORN)
      else if op = 0x650 then Some (True, EOR) else if op = 0x750 then Some (True, ANDS) else None)"

text \<open>Data processing: the opcode in bits 21 to 31, the registers in bits 16, 5 and 0.\<close>

definition decode_register :: "u32 \<Rightarrow> a64_instr option" where
  "decode_register w =
     (let op = bits 21 11 w; d = bits 0 5 w; n = bits 5 5 w; m = bits 16 5 w; low = bits 10 6 w in
      case decode_alu op of
        Some (x64, f) \<Rightarrow> if low = 0 then Some (if x64 then Alu f d n m else AluW f d n m) else None
      | None \<Rightarrow>
          if op = 0x4D8 \<and> bits 15 1 w = 0 then Some (Madd d n m (bits 10 5 w))
          else if op = 0x4D6 \<and> low = 2 then Some (Alu UDIV d n m)
          else if op = 0x4D6 \<and> low = 3 then Some (Alu SDIV d n m)
          else if op = 0x4D4 \<and> bits 10 2 w = 0 then Some (Csel d n m (bits 12 4 w))
          else if op = 0x4D4 \<and> bits 10 2 w = 1 then Some (Csinc d n m (bits 12 4 w))
          else None)"

definition decode_immediate :: "u32 \<Rightarrow> a64_instr option" where
  "decode_immediate w =
     (let d = bits 0 5 w; n = bits 5 5 w in
      if bits 23 9 w = 0x1A5 then Some (Movz d (bits 5 16 w) (bits 21 2 w))
      else if bits 23 9 w = 0x1E5 then Some (Movk d (bits 5 16 w) (bits 21 2 w))
      else if bits 22 10 w = 0x244 then Some (AddImm d n (bits 10 12 w))
      else if bits 22 10 w = 0x344 then Some (SubImm d n (bits 10 12 w))
      else None)"

definition decode_memory :: "u32 \<Rightarrow> a64_instr option" where
  "decode_memory w =
     (let t = bits 0 5 w; n = bits 5 5 w; k = unat (bits 30 2 w) in
      if bits 22 10 w = 0x2A6 then Some (StpPre t (bits 10 5 w) n (bits 15 7 w))
      else if bits 22 10 w = 0x2A3 then Some (LdpPost t (bits 10 5 w) n (bits 15 7 w))
      else if bits 22 8 w = 0xE5 then Some (Ldr k t n (bits 10 12 w))
      else if bits 22 10 w = 0x3E4 then Some (Str k t n (bits 10 12 w))
      else if bits 21 9 w = 0x1C2 \<and> bits 10 2 w = 0 then Some (Ldur k t n (bits 12 9 w))
      else if bits 21 11 w = 0x7C0 \<and> bits 10 2 w = 0 then Some (Stur k t n (bits 12 9 w))
      else None)"

definition decode_branch :: "u32 \<Rightarrow> a64_instr option" where
  "decode_branch w =
     (if bits 26 6 w = 0x05 then Some (Branch (bits 0 26 w))
      else if bits 26 6 w = 0x25 then Some (BranchLink (bits 0 26 w))
      else if bits 24 8 w = 0x54 \<and> bits 4 1 w = 0 then Some (BranchCond (bits 0 4 w) (bits 5 19 w))
      else if bits 10 22 w = 0x3587C0 \<and> bits 0 5 w = 0 then Some (BranchReg (bits 5 5 w))
      else if bits 10 22 w = 0x358FC0 \<and> bits 0 5 w = 0 then Some (BranchLinkReg (bits 5 5 w))
      else if bits 10 22 w = 0x3597C0 \<and> bits 0 5 w = 0 then Some (Return (bits 5 5 w))
      else if w = 0xD503201F then Some Nop
      else None)"

text \<open>The classes of instructions are told apart by bits 25 to 28.\<close>

definition decode :: "u32 \<Rightarrow> a64_instr option" where
  "decode w =
     (let op0 = bits 25 4 w in
      if bits 26 3 w = 5 then decode_branch w
      else if op0 \<in> {5, 13} then decode_register w
      else if op0 \<in> {8, 9} then decode_immediate w
      else if op0 \<in> {4, 6, 12, 14} then decode_memory w
      else None)"

section \<open>Fields of the emitted words\<close>

text \<open>A field of a word that is put together with \<open>OR\<close> and \<open>push_bit\<close> is computed from the parts.\<close>

lemma masks_32: "(0x1F :: u32) = mask 5" "(0xFFF :: u32) = mask 12" "(0x1FF :: u32) = mask 9" "(0x7F :: u32) = mask 7"
  "(0x03FFFFFF :: u32) = mask 26" "(0x7FFFF :: u32) = mask 19" "(0xF :: u32) = mask 4" "(3 :: u32) = mask 2"
  by (simp_all add: mask_eq_exp_minus_1)

lemma r_idx_field: "r_idx r = take_bit 5 (ucast r)"
  by (simp add: r_idx_def masks_32 take_bit_eq_mask)

lemma bits_or: "bits lo n (v OR w) = bits lo n v OR bits lo n w"
  by (simp add: bits_def take_bit_eq_mask drop_bit_or bit.conj_disj_distrib2)

lemma bits_push:
  assumes "lo + n \<le> 32"
  shows "bits lo n (push_bit k w) = (if lo \<le> k then push_bit (k - lo) (take_bit (n - (k - lo)) w) else bits (lo - k) n w)"
  by (rule bit_word_eqI) (use assms in \<open>auto simp: bits_def bit_simps add.commute intro: arg_cong [where f = "bit w"]\<close>)

lemma bits_take: "bits lo n (take_bit k w) = (if k \<le> lo then 0 else if lo = 0 then take_bit (min n k) w else bits lo (min n (k - lo)) w)"
  by (simp add: bits_def drop_bit_take_bit)

lemma bits_numeral: "bits lo n (numeral v) = take_bit n (drop_bit lo (numeral v))" "bits lo n 0 = 0"
  by (simp_all add: bits_def)

lemma take_bit_ucast: "LENGTH('a) \<le> n \<Longrightarrow> take_bit n (ucast (v :: 'a::len word) :: 'b::len word) = ucast v"
  by (rule bit_word_eqI) (auto simp: bit_simps dest: bit_imp_le_length)

lemmas field_simps_a64 = bits_or bits_push bits_take bits_numeral r_idx_field

lemmas decode_defs = decode_def decode_register_def decode_alu_def decode_immediate_def decode_memory_def decode_branch_def Let_def

named_theorems encodings \<open>what the emitted words decode to\<close>

lemma decode_rrr [encodings]:
  "decode (rrr 0x8B000000 d n m) = Some (Alu ADDR (r_idx d) (r_idx n) (r_idx m))"
  "decode (rrr 0x0B000000 d n m) = Some (AluW ADDR (r_idx d) (r_idx n) (r_idx m))"
  "decode (rrr 0xCB000000 d n m) = Some (Alu SUBR (r_idx d) (r_idx n) (r_idx m))"
  "decode (rrr 0x9B007C00 d n m) = Some (Madd (r_idx d) (r_idx n) (r_idx m) 31)"
  "decode (rrr 0x9AC00800 d n m) = Some (Alu UDIV (r_idx d) (r_idx n) (r_idx m))"
  "decode (rrr 0x9AC00C00 d n m) = Some (Alu SDIV (r_idx d) (r_idx n) (r_idx m))"
  "decode (rrr 0x8A000000 d n m) = Some (Alu ANDR (r_idx d) (r_idx n) (r_idx m))"
  "decode (rrr 0xAA000000 d n m) = Some (Alu ORR (r_idx d) (r_idx n) (r_idx m))"
  "decode (rrr 0xCA000000 d n m) = Some (Alu EOR (r_idx d) (r_idx n) (r_idx m))"
  by (simp_all add: decode_defs rrr_def field_simps_a64)

lemma decode_moves [encodings]:
  "decode (0xAA0003E0 OR push_bit 16 (r_idx m) OR r_idx d) = Some (Alu ORR (r_idx d) 31 (r_idx m))"
  "decode (0x2A0003E0 OR push_bit 16 (r_idx m) OR r_idx d) = Some (AluW ORR (r_idx d) 31 (r_idx m))"
  "decode (0xAA2003E0 OR push_bit 16 (r_idx m) OR r_idx d) = Some (Alu ORN (r_idx d) 31 (r_idx m))"
  "decode (0xEB00001F OR push_bit 16 (r_idx m) OR push_bit 5 (r_idx n)) = Some (Alu SUBS 31 (r_idx n) (r_idx m))"
  "decode (0xEA00001F OR push_bit 16 (r_idx m) OR push_bit 5 (r_idx n)) = Some (Alu ANDS 31 (r_idx n) (r_idx m))"
  by (simp_all add: decode_defs field_simps_a64)

lemma decode_immediates [encodings]:
  "decode (0xD2800000 OR push_bit 21 (take_bit 2 h) OR push_bit 5 (take_bit 16 v) OR r_idx d) = Some (Movz (r_idx d) (take_bit 16 v) (take_bit 2 h))"
  "decode (0xF2800000 OR push_bit 21 (take_bit 2 h) OR push_bit 5 (take_bit 16 v) OR r_idx d) = Some (Movk (r_idx d) (take_bit 16 v) (take_bit 2 h))"
  "decode (0x91000000 OR push_bit 10 (take_bit 12 v) OR push_bit 5 (r_idx n) OR r_idx d) = Some (AddImm (r_idx d) (r_idx n) (take_bit 12 v))"
  "decode (0xD1000000 OR push_bit 10 (take_bit 12 v) OR push_bit 5 (r_idx n) OR r_idx d) = Some (SubImm (r_idx d) (r_idx n) (take_bit 12 v))"
  by (simp_all add: decode_defs field_simps_a64)

lemma decode_loads [encodings]:
  "decode (0xF9400000 OR push_bit 10 (take_bit 12 v) OR push_bit 5 (r_idx n) OR r_idx t) = Some (Ldr 3 (r_idx t) (r_idx n) (take_bit 12 v))"
  "decode (0xB9400000 OR push_bit 10 (take_bit 12 v) OR push_bit 5 (r_idx n) OR r_idx t) = Some (Ldr 2 (r_idx t) (r_idx n) (take_bit 12 v))"
  "decode (0x79400000 OR push_bit 10 (take_bit 12 v) OR push_bit 5 (r_idx n) OR r_idx t) = Some (Ldr 1 (r_idx t) (r_idx n) (take_bit 12 v))"
  "decode (0x39400000 OR push_bit 10 (take_bit 12 v) OR push_bit 5 (r_idx n) OR r_idx t) = Some (Ldr 0 (r_idx t) (r_idx n) (take_bit 12 v))"
  "decode (0xF9000000 OR push_bit 10 (take_bit 12 v) OR push_bit 5 (r_idx n) OR r_idx t) = Some (Str 3 (r_idx t) (r_idx n) (take_bit 12 v))"
  by (simp_all add: decode_defs field_simps_a64)

lemma decode_unscaled [encodings]:
  "decode (0xF8400000 OR push_bit 12 (take_bit 9 v) OR push_bit 5 (r_idx n) OR r_idx t) = Some (Ldur 3 (r_idx t) (r_idx n) (take_bit 9 v))"
  "decode (0xB8400000 OR push_bit 12 (take_bit 9 v) OR push_bit 5 (r_idx n) OR r_idx t) = Some (Ldur 2 (r_idx t) (r_idx n) (take_bit 9 v))"
  "decode (0x78400000 OR push_bit 12 (take_bit 9 v) OR push_bit 5 (r_idx n) OR r_idx t) = Some (Ldur 1 (r_idx t) (r_idx n) (take_bit 9 v))"
  "decode (0x38400000 OR push_bit 12 (take_bit 9 v) OR push_bit 5 (r_idx n) OR r_idx t) = Some (Ldur 0 (r_idx t) (r_idx n) (take_bit 9 v))"
  "decode (0xF8000000 OR push_bit 12 (take_bit 9 v) OR push_bit 5 (r_idx n) OR r_idx t) = Some (Stur 3 (r_idx t) (r_idx n) (take_bit 9 v))"
  by (simp_all add: decode_defs field_simps_a64)

lemma decode_pairs [encodings]:
  "decode (0xA9800000 OR push_bit 23 3 OR push_bit 15 (take_bit 7 v) OR push_bit 10 (r_idx t2) OR push_bit 5 (r_idx n) OR r_idx t) =
     Some (StpPre (r_idx t) (r_idx t2) (r_idx n) (take_bit 7 v))"
  "decode (0xA8C00000 OR push_bit 23 1 OR push_bit 15 (take_bit 7 v) OR push_bit 10 (r_idx t2) OR push_bit 5 (r_idx n) OR r_idx t) =
     Some (LdpPost (r_idx t) (r_idx t2) (r_idx n) (take_bit 7 v))"
  by (simp_all add: decode_defs field_simps_a64)

lemma decode_selects [encodings]:
  "decode (0x9A800000 OR push_bit 16 (r_idx m) OR push_bit 12 (take_bit 4 c) OR push_bit 5 (r_idx n) OR r_idx d) =
     Some (Csel (r_idx d) (r_idx n) (r_idx m) (take_bit 4 c))"
  "decode (0x9A9F07E0 OR push_bit 12 (take_bit 4 c) OR r_idx d) = Some (Csinc (r_idx d) 31 31 (take_bit 4 c))"
  by (simp_all add: decode_defs field_simps_a64)

lemma decode_branches [encodings]:
  "decode (0x14000000 OR take_bit 26 v) = Some (Branch (take_bit 26 v))"
  "decode (0x94000000 OR take_bit 26 v) = Some (BranchLink (take_bit 26 v))"
  "decode (0xD61F0000 OR push_bit 5 (r_idx n)) = Some (BranchReg (r_idx n))"
  "decode (0xD63F0000 OR push_bit 5 (r_idx n)) = Some (BranchLinkReg (r_idx n))"
  "decode (0xD65F0000 OR push_bit 5 (r_idx n)) = Some (Return (r_idx n))"
  "decode (0x54000000 OR push_bit 5 (take_bit 19 v) OR take_bit 4 c) = Some (BranchCond (take_bit 4 c) (take_bit 19 v))"
  "decode 0xD503201F = Some Nop"
  by (simp_all add: decode_defs field_simps_a64)

section \<open>Operations\<close>

lemma field_args:
  "ucast (v :: u8) AND 3 = take_bit 2 (ucast v :: u32)" "(ucast (imm :: u16) :: u32) = take_bit 16 (ucast imm)"
  "(w :: u32) AND 0xFFF = take_bit 12 w" "w AND 0x1FF = take_bit 9 w" "w AND 0x7F = take_bit 7 w" "w AND 0x03FFFFFF = take_bit 26 w"
  "w AND 0x7FFFF = take_bit 19 w" "w AND 0xF = take_bit 4 w"
  by (simp_all add: masks_32 take_bit_eq_mask [symmetric] take_bit_ucast)

lemma cond_field: "c < 16 \<Longrightarrow> (ucast (c :: u8) :: u32) = take_bit 4 (ucast c)"
  by (simp add: word_unat_eq_iff unsigned_take_bit_eq unsigned_ucast_eq word_less_nat_alt take_bit_nat_eq_self)

lemma inverted_cond:
  assumes "c < 16"
  shows "(ucast (c :: u8) :: u32) XOR 1 = take_bit 4 (ucast c XOR 1)"
  using arg_cong [OF cond_field [OF assms], of "\<lambda>w. w XOR take_bit 4 1"] by (simp add: take_bit_xor)

lemma moves_decode [encodings]:
  "map decode (mov_x64_x64 d m code) = map decode code @ [Some (Alu ORR (r_idx d) 31 (r_idx m))]"
  "map decode (mov_w32_w32 d m code) = map decode code @ [Some (AluW ORR (r_idx d) 31 (r_idx m))]"
  "map decode (mvn_x64 d m code) = map decode code @ [Some (Alu ORN (r_idx d) 31 (r_idx m))]"
  "map decode (movz_x64 d imm sh code) = map decode code @ [Some (Movz (r_idx d) (ucast imm) (take_bit 2 (ucast (sh div 16))))]"
  "map decode (movk_x64 d imm sh code) = map decode code @ [Some (Movk (r_idx d) (ucast imm) (take_bit 2 (ucast (sh div 16))))]"
  using decode_immediates(1,2) [of "ucast (sh div 16)" "ucast imm" d]
  by (simp_all add: mov_x64_x64_def mov_w32_w32_def mvn_x64_def movz_x64_def movk_x64_def a64_emit_def encodings field_args(1)
      take_bit_ucast)

lemma alu_decode [encodings]:
  "map decode (add_x64_x64_x64 d n m code) = map decode code @ [Some (Alu ADDR (r_idx d) (r_idx n) (r_idx m))]"
  "map decode (add_w32_w32_w32 d n m code) = map decode code @ [Some (AluW ADDR (r_idx d) (r_idx n) (r_idx m))]"
  "map decode (sub_x64_x64_x64 d n m code) = map decode code @ [Some (Alu SUBR (r_idx d) (r_idx n) (r_idx m))]"
  "map decode (mul_x64_x64_x64 d n m code) = map decode code @ [Some (Madd (r_idx d) (r_idx n) (r_idx m) 31)]"
  "map decode (udiv_x64_x64_x64 d n m code) = map decode code @ [Some (Alu UDIV (r_idx d) (r_idx n) (r_idx m))]"
  "map decode (sdiv_x64_x64_x64 d n m code) = map decode code @ [Some (Alu SDIV (r_idx d) (r_idx n) (r_idx m))]"
  "map decode (and_x64_x64_x64 d n m code) = map decode code @ [Some (Alu ANDR (r_idx d) (r_idx n) (r_idx m))]"
  "map decode (orr_x64_x64_x64 d n m code) = map decode code @ [Some (Alu ORR (r_idx d) (r_idx n) (r_idx m))]"
  "map decode (eor_x64_x64_x64 d n m code) = map decode code @ [Some (Alu EOR (r_idx d) (r_idx n) (r_idx m))]"
  "map decode (cmp_x64_x64 n m code) = map decode code @ [Some (Alu SUBS 31 (r_idx n) (r_idx m))]"
  "map decode (tst_x64_x64 n m code) = map decode code @ [Some (Alu ANDS 31 (r_idx n) (r_idx m))]"
  "map decode (add_x64_imm12 d n imm code) = map decode code @ [Some (AddImm (r_idx d) (r_idx n) (take_bit 12 (ucast imm)))]"
  "map decode (sub_x64_imm12 d n imm code) = map decode code @ [Some (SubImm (r_idx d) (r_idx n) (take_bit 12 (ucast imm)))]"
  by (simp_all add: add_x64_x64_x64_def add_w32_w32_w32_def sub_x64_x64_x64_def mul_x64_x64_x64_def udiv_x64_x64_x64_def
      sdiv_x64_x64_x64_def and_x64_x64_x64_def orr_x64_x64_x64_def eor_x64_x64_x64_def cmp_x64_x64_def tst_x64_x64_def
      add_x64_imm12_def sub_x64_imm12_def a64_emit_def encodings field_args(3))

lemma select_decode [encodings]:
  assumes "c < 16"
  shows "map decode (csel_x64 d n m c code) = map decode code @ [Some (Csel (r_idx d) (r_idx n) (r_idx m) (ucast c))]"
    "map decode (cset_x64 d c code) = map decode code @ [Some (Csinc (r_idx d) 31 31 (ucast c XOR 1))]"
  using decode_selects(1) [of m "ucast c" n d] decode_selects(2) [of "ucast c XOR 1" d] cond_field [OF assms] inverted_cond [OF assms]
  by (simp_all add: csel_x64_def cset_x64_def a64_emit_def)

lemma branch_decode [encodings]:
  "map decode (a64_b off code) = map decode code @ [Some (Branch (take_bit 26 off))]"
  "map decode (a64_bl off code) = map decode code @ [Some (BranchLink (take_bit 26 off))]"
  "map decode (a64_br n code) = map decode code @ [Some (BranchReg (r_idx n))]"
  "map decode (a64_blr n code) = map decode code @ [Some (BranchLinkReg (r_idx n))]"
  "map decode (a64_ret n code) = map decode code @ [Some (Return (r_idx n))]"
  "map decode (b_cond c off code) = map decode code @ [Some (BranchCond (take_bit 4 (ucast c)) (take_bit 19 off))]"
  "map decode (a64_nop code) = map decode code @ [Some Nop]"
  by (simp_all add: a64_b_def a64_bl_def a64_br_def a64_blr_def a64_ret_def b_cond_def a64_nop_def a64_emit_def encodings
      field_args(6,7,8))

lemma pair_decode [encodings]:
  "map decode (stp_pre s t n off code) =
     map decode code @ [Some (StpPre (r_idx s) (r_idx t) (r_idx n) (take_bit 7 (word_of_int (sint off sdiv 8))))]"
  "map decode (ldp_post s t n off code) =
     map decode code @ [Some (LdpPost (r_idx s) (r_idx t) (r_idx n) (take_bit 7 (word_of_int (sint off sdiv 8))))]"
  using decode_pairs [of "word_of_int (sint off sdiv 8)" t n s]
  by (simp_all add: stp_pre_def ldp_post_def pair_imm7_def a64_emit_def field_args(5))

text \<open>The byte offset of a load or store, and the offsets that the scaled or the unscaled form can express.\<close>

fun byte_offset :: "a64_instr \<Rightarrow> int" where
  "byte_offset (Ldr k t n v) = 2 ^ k * uint v"
| "byte_offset (Str k t n v) = 2 ^ k * uint v"
| "byte_offset (Ldur k t n v) = signed_take_bit 8 (uint v)"
| "byte_offset (Stur k t n v) = signed_take_bit 8 (uint v)"
| "byte_offset (StpPre t u n v) = 8 * signed_take_bit 6 (uint v)"
| "byte_offset (LdpPost t u n v) = 8 * signed_take_bit 6 (uint v)"
| "byte_offset _ = 0"

definition expressible :: "nat \<Rightarrow> i32 \<Rightarrow> bool" where
  "expressible k offset \<longleftrightarrow> -256 \<le> sint offset \<and> sint offset \<le> 255
     \<or> 0 \<le> sint offset \<and> sint offset \<le> 4095 * 2 ^ k \<and> 2 ^ k dvd sint offset"

lemma unscaled_offset:
  assumes "-256 \<le> sint (offset :: i32)" "sint offset \<le> 255"
  shows "signed_take_bit 8 (uint (take_bit 9 offset)) = sint offset"
proof -
  have "signed_take_bit 8 (uint (take_bit 9 offset)) = signed_take_bit 8 (sint offset)"
    by (rule bit_eqI) (auto simp: bit_simps min_def)
  also have "\<dots> = sint offset" using assms by (simp add: signed_take_bit_int_eq_self)
  finally show ?thesis .
qed

lemma uint_of_sint: "0 \<le> sint (w :: i32) \<Longrightarrow> uint w = sint w"
proof -
  assume "0 \<le> sint w"
  have "uint w = uint (word_of_int (sint w) :: i32)" by simp
  also have "\<dots> = sint w mod 2 ^ 32" by (subst uint_word_of_int) simp
  also have "\<dots> = sint w" using \<open>0 \<le> sint w\<close> sint_lt [of w] by simp
  finally show ?thesis .
qed

lemma scaled_offset:
  fixes offset :: i32
  assumes "0 \<le> sint offset" "sint offset \<le> 4095 * 2 ^ k" "offset AND mask k = 0" "k \<le> 3"
  shows "2 ^ k * uint (take_bit 12 (offset div 2 ^ k)) = sint offset"
proof -
  have p: "uint (2 ^ k :: i32) = 2 ^ k" using assms(4) by (auto simp: le_Suc_eq numeral_3_eq_3)
  have "uint (offset div 2 ^ k) = sint offset div 2 ^ k" by (simp add: uint_div uint_of_sint assms(1) p)
  moreover have "sint offset div 2 ^ k \<le> 4095" using assms(2) by (metis mult.commute nonzero_mult_div_cancel_right zdiv_mono1 zero_less_numeral zero_less_power power_not_zero zero_neq_numeral)
  moreover have "0 \<le> sint offset div 2 ^ k" using assms(1) by (simp add: pos_imp_zdiv_nonneg_iff)
  ultimately have "uint (take_bit 12 (offset div 2 ^ k)) = sint offset div 2 ^ k"
    by (simp add: unsigned_take_bit_eq take_bit_int_eq_self)
  moreover have "2 ^ k dvd sint offset"
  proof -
    have "take_bit k offset = 0" using assms(3) by (simp add: take_bit_eq_mask)
    then have "take_bit k (uint offset) = 0" by (metis unsigned_0 unsigned_take_bit_eq)
    then show ?thesis using uint_of_sint [OF assms(1)] by (simp add: take_bit_eq_0_iff)
  qed
  ultimately show ?thesis by simp
qed

lemma low_bits_iff:
  assumes "0 \<le> sint (offset :: i32)"
  shows "offset AND mask k = 0 \<longleftrightarrow> 2 ^ k dvd sint offset"
  by (metis assms take_bit_eq_0_iff take_bit_eq_mask uint_of_sint unsigned_0 unsigned_take_bit_eq unsigned_eq_0_iff)

text \<open>The words of a load or store whose offset can be expressed.\<close>

lemma scaled_or_not_decode:
  assumes "expressible k offset" "k \<le> 3"
    and "\<And>v. decode (scaled OR push_bit 10 (take_bit 12 v) OR push_bit 5 (r_idx n) OR r_idx t) = Some (S (take_bit 12 v))"
    and "\<And>v. decode (unscaled OR push_bit 12 (take_bit 9 v) OR push_bit 5 (r_idx n) OR r_idx t) = Some (U (take_bit 9 v))"
    and "\<And>v. byte_offset (S v) = 2 ^ k * uint v" "\<And>v. byte_offset (U v) = signed_take_bit 8 (uint v)"
  shows "\<exists>i. decode (scaled_or_not (mask k) (2 ^ k) (4095 * 2 ^ k) scaled unscaled t n offset) = Some i \<and> byte_offset i = sint offset
    \<and> (i \<in> range S \<or> i \<in> range U)"
proof (cases "0 \<le> sint offset \<and> offset AND mask k = 0 \<and> sint offset \<le> 4095 * 2 ^ k")
  case True
  have "sint (4095 * 2 ^ k :: i32) = 4095 * 2 ^ k" using assms(2) by (auto simp: le_Suc_eq numeral_3_eq_3)
  then show ?thesis using True assms(2,3,5) scaled_offset [of offset k]
    by (auto simp: scaled_or_not_def field_args(3))
next
  case False
  have "sint (4095 * 2 ^ k :: i32) = 4095 * 2 ^ k" using assms(2) by (auto simp: le_Suc_eq numeral_3_eq_3)
  moreover have "-256 \<le> sint offset" "sint offset \<le> 255" using False assms(1) low_bits_iff [of offset k] by (auto simp: expressible_def)
  ultimately show ?thesis using False assms(4,6) unscaled_offset [of offset]
    by (auto simp: scaled_or_not_def field_args(4))
qed

section \<open>Patching\<close>

text \<open>The target of a branch, in instructions.\<close>

fun branch_offset :: "a64_instr \<Rightarrow> int" where
  "branch_offset (Branch v) = signed_take_bit 25 (uint v)"
| "branch_offset (BranchLink v) = signed_take_bit 25 (uint v)"
| "branch_offset (BranchCond c v) = signed_take_bit 18 (uint v)"
| "branch_offset _ = 0"

lemma signed_field:
  assumes "- (2 ^ n) \<le> sint (off :: i32)" "sint off < 2 ^ n" "n < 31"
  shows "signed_take_bit n (uint (take_bit (Suc n) off)) = sint off"
proof -
  have "signed_take_bit n (uint (take_bit (Suc n) off)) = signed_take_bit n (sint off)"
    by (rule bit_eqI) (use assms(3) in \<open>auto simp: bit_simps min_def\<close>)
  also have "\<dots> = sint off" using assms by (simp add: signed_take_bit_int_eq_self)
  finally show ?thesis .
qed

lemma and_field: "k + n \<le> 32 \<Longrightarrow> (w :: u32) AND push_bit k (mask n) = push_bit k (bits k n w)"
  by (rule bit_word_eqI) (auto simp: bits_def bit_simps)

lemma and_low_field: "(w :: u32) AND mask n = bits 0 n w"
  by (simp add: bits_def take_bit_eq_mask)

lemma high_masks: "(0x7C000000 :: u32) = push_bit 26 (mask 5)" "(0xFC000000 :: u32) = push_bit 26 (mask 6)"
  "(0xFF000000 :: u32) = push_bit 24 (mask 8)" "(0xFF00001F :: u32) = push_bit 24 (mask 8) OR push_bit 0 (mask 5)"
  by (simp_all add: mask_eq_exp_minus_1)

lemma branch_words:
  "(0x14000000 OR take_bit 26 v) AND (0x7C000000 :: u32) = 0x14000000" "(0x94000000 OR take_bit 26 v) AND (0x7C000000 :: u32) = 0x14000000"
  "(0x14000000 OR take_bit 26 v) AND (0xFC000000 :: u32) = 0x14000000" "(0x94000000 OR take_bit 26 v) AND (0xFC000000 :: u32) = 0x94000000"
  "(0x54000000 OR push_bit 5 (take_bit 19 v) OR take_bit 4 c) AND (0x7C000000 :: u32) = 0x54000000"
  "(0x54000000 OR push_bit 5 (take_bit 19 v) OR take_bit 4 c) AND (0xFF000000 :: u32) = 0x54000000"
  "(0x54000000 OR push_bit 5 (take_bit 19 v) OR take_bit 4 c) AND (0xFF00001F :: u32) = 0x54000000 OR take_bit 4 c"
  unfolding high_masks bit.conj_disj_distrib
  by (simp_all add: and_field and_low_field field_simps_a64)

lemma patch_emitted:
  "patch_branch (length code) off (a64_b x code @ tail) = a64_b off code @ tail"
  "patch_branch (length code) off (a64_bl x code @ tail) = a64_bl off code @ tail"
  "patch_branch (length code) off (b_cond c x code @ tail) = b_cond c off code @ tail"
  by (simp_all add: patch_branch_def a64_b_def a64_bl_def b_cond_def a64_emit_def field_args branch_words nth_append or.assoc
      or.commute [of "take_bit 4 _"] list_update_append)

section \<open>Theorems\<close>

lemma loads_decode:
  assumes "expressible 3 o3" "expressible 2 o2" "expressible 1 o1" "expressible 0 o0"
  shows "\<exists>i. map decode (ldr_x64 t n o3 code) = map decode code @ [Some i] \<and> byte_offset i = sint o3
      \<and> (i \<in> range (Ldr 3 (r_idx t) (r_idx n)) \<or> i \<in> range (Ldur 3 (r_idx t) (r_idx n)))"
    "\<exists>i. map decode (ldr_w32 t n o2 code) = map decode code @ [Some i] \<and> byte_offset i = sint o2
      \<and> (i \<in> range (Ldr 2 (r_idx t) (r_idx n)) \<or> i \<in> range (Ldur 2 (r_idx t) (r_idx n)))"
    "\<exists>i. map decode (ldrh t n o1 code) = map decode code @ [Some i] \<and> byte_offset i = sint o1
      \<and> (i \<in> range (Ldr 1 (r_idx t) (r_idx n)) \<or> i \<in> range (Ldur 1 (r_idx t) (r_idx n)))"
    "\<exists>i. map decode (ldrb t n o0 code) = map decode code @ [Some i] \<and> byte_offset i = sint o0
      \<and> (i \<in> range (Ldr 0 (r_idx t) (r_idx n)) \<or> i \<in> range (Ldur 0 (r_idx t) (r_idx n)))"
    "\<exists>i. map decode (str_x64 t n o3 code) = map decode code @ [Some i] \<and> byte_offset i = sint o3
      \<and> (i \<in> range (Str 3 (r_idx t) (r_idx n)) \<or> i \<in> range (Stur 3 (r_idx t) (r_idx n)))"
proof -
  note s = scaled_or_not_decode
  show "\<exists>i. map decode (ldr_x64 t n o3 code) = map decode code @ [Some i] \<and> byte_offset i = sint o3
      \<and> (i \<in> range (Ldr 3 (r_idx t) (r_idx n)) \<or> i \<in> range (Ldur 3 (r_idx t) (r_idx n)))"
    using s [OF assms(1) _ decode_loads(1) decode_unscaled(1)] by (simp add: ldr_x64_def a64_emit_def mask_eq_exp_minus_1)
  show "\<exists>i. map decode (ldr_w32 t n o2 code) = map decode code @ [Some i] \<and> byte_offset i = sint o2
      \<and> (i \<in> range (Ldr 2 (r_idx t) (r_idx n)) \<or> i \<in> range (Ldur 2 (r_idx t) (r_idx n)))"
    using s [OF assms(2) _ decode_loads(2) decode_unscaled(2)] by (simp add: ldr_w32_def a64_emit_def mask_eq_exp_minus_1)
  show "\<exists>i. map decode (ldrh t n o1 code) = map decode code @ [Some i] \<and> byte_offset i = sint o1
      \<and> (i \<in> range (Ldr 1 (r_idx t) (r_idx n)) \<or> i \<in> range (Ldur 1 (r_idx t) (r_idx n)))"
    using s [OF assms(3) _ decode_loads(3) decode_unscaled(3)] by (simp add: ldrh_def a64_emit_def mask_eq_exp_minus_1)
  show "\<exists>i. map decode (ldrb t n o0 code) = map decode code @ [Some i] \<and> byte_offset i = sint o0
      \<and> (i \<in> range (Ldr 0 (r_idx t) (r_idx n)) \<or> i \<in> range (Ldur 0 (r_idx t) (r_idx n)))"
    using s [OF assms(4) _ decode_loads(4) decode_unscaled(4)] by (simp add: ldrb_def a64_emit_def mask_eq_exp_minus_1)
  show "\<exists>i. map decode (str_x64 t n o3 code) = map decode code @ [Some i] \<and> byte_offset i = sint o3
      \<and> (i \<in> range (Str 3 (r_idx t) (r_idx n)) \<or> i \<in> range (Stur 3 (r_idx t) (r_idx n)))"
    using s [OF assms(1) _ decode_loads(5) decode_unscaled(5)] by (simp add: str_x64_def a64_emit_def mask_eq_exp_minus_1)
qed

text \<open>
  A forward branch of the AArch64 assembler can be emitted before its target is known: patching the word at its position,
  whatever was emitted after it, makes it a branch of the same kind (and of the same condition) to the given distance, for every
  distance that fits in 26 bits (19 bits for a conditional branch), and changes no other instruction.
\<close>

theorem branch_patched:
  assumes "- (2 ^ 25) \<le> sint off" "sint off < 2 ^ 25"
  shows "(\<exists>v. map decode (patch_branch (length code) off (a64_b x code @ tail)) = map decode code @ Some (Branch v) # map decode tail
      \<and> branch_offset (Branch v) = sint off)
    \<and> (\<exists>v. map decode (patch_branch (length code) off (a64_bl x code @ tail)) = map decode code @ Some (BranchLink v) # map decode tail
      \<and> branch_offset (BranchLink v) = sint off)
    \<and> (- (2 ^ 18) \<le> sint off \<and> sint off < 2 ^ 18 \<longrightarrow>
      (\<exists>v. map decode (patch_branch (length code) off (b_cond c x code @ tail)) = map decode code @ Some (BranchCond (take_bit 4 (ucast c)) v) # map decode tail
        \<and> branch_offset (BranchCond (take_bit 4 (ucast c)) v) = sint off))"
proof -
  have 1: "signed_take_bit 25 (uint (take_bit 26 off)) = sint off" using signed_field [of 25 off] assms by simp
  have 2: "signed_take_bit 18 (uint (take_bit 19 off)) = sint off" if "- (2 ^ 18) \<le> sint off" "sint off < 2 ^ 18"
    using signed_field [of 18 off] that by simp
  show ?thesis using 1 2 by (auto simp: patch_emitted encodings)
qed

text \<open>A placeholder at position 1 becomes a branch over two instructions.\<close>

theorem branch_patched_witness:
  "\<exists>v. map decode (patch_branch 1 3 [0xD503201F, 0x14000000, 0xD503201F, 0xD503201F]) =
     [Some Nop, Some (Branch v), Some Nop, Some Nop] \<and> branch_offset (Branch v) = 3"
proof -
  have "decode 0xD503201F = Some Nop" by (simp add: decode_branches)
  then show ?thesis
    using branch_patched [of 3 "[0xD503201F]" 0 "[0xD503201F, 0xD503201F]"] by (simp add: a64_b_def a64_emit_def)
qed

end
