(* ===== verification/A64_Machine.thy ===== *)
theory A64_Machine
  imports A64_Assembler
begin

text \<open>
  What the AArch64 instructions do, as far as the code generator emits them: a specification taken from the architecture,
  not code of the repository. Register 31 is the zero register in data processing and the stack pointer as the base of a load or
  store; a store through a stack pointer that is not 16-byte aligned traps. A program runs from its first word to the
  first return instruction; a word that is not an instruction, or the end of the words, has no result. Branches have none either.
\<close>

section \<open>State\<close>

record a64_machine =
  gpr :: "u32 \<Rightarrow> u64"
  sp :: u64
  flag_n :: bool
  flag_z :: bool
  flag_c :: bool
  flag_v :: bool
  memory :: "u64 \<Rightarrow> u8"

definition reg :: "a64_machine \<Rightarrow> u32 \<Rightarrow> u64" where
  "reg m r = (if r = 31 then 0 else gpr m r)"

definition set_gpr :: "u32 \<Rightarrow> u64 \<Rightarrow> a64_machine \<Rightarrow> a64_machine" where
  "set_gpr r v m = (if r = 31 then m else m\<lparr>gpr := (gpr m)(r := v)\<rparr>)"

definition base_address :: "a64_machine \<Rightarrow> u32 \<Rightarrow> u64" where
  "base_address m r = (if r = 31 then sp m else gpr m r)"

definition set_base :: "u32 \<Rightarrow> u64 \<Rightarrow> a64_machine \<Rightarrow> a64_machine" where
  "set_base r v m = (if r = 31 then m\<lparr>sp := v\<rparr> else m\<lparr>gpr := (gpr m)(r := v)\<rparr>)"

definition read_mem :: "nat \<Rightarrow> u64 \<Rightarrow> a64_machine \<Rightarrow> u64" where
  "read_mem n a m = le_word (map (\<lambda>i. memory m (a + of_nat i)) [0..<n])"

definition write_mem :: "nat \<Rightarrow> u64 \<Rightarrow> u64 \<Rightarrow> a64_machine \<Rightarrow> a64_machine" where
  "write_mem n a v m = m\<lparr>memory := (\<lambda>x. if unat (x - a) < n then le_bytes n v ! unat (x - a) else memory m x)\<rparr>"

definition aligned :: "a64_machine \<Rightarrow> u32 \<Rightarrow> bool" where
  "aligned m r \<longleftrightarrow> r = 31 \<longrightarrow> sp m AND 15 = 0"

section \<open>Instructions\<close>

definition alu_value :: "a64_alu \<Rightarrow> 'a::len word \<Rightarrow> 'a word \<Rightarrow> 'a word" where
  "alu_value f a b =
     (case f of ADDR \<Rightarrow> a + b | SUBR \<Rightarrow> a - b | SUBS \<Rightarrow> a - b | ANDR \<Rightarrow> a AND b | ORR \<Rightarrow> a OR b | ORN \<Rightarrow> a OR NOT b
      | EOR \<Rightarrow> a XOR b | ANDS \<Rightarrow> a AND b | UDIV \<Rightarrow> if b = 0 then 0 else a div b
      | SDIV \<Rightarrow> if b = 0 then 0 else word_of_int (sint a sdiv sint b))"

definition set_flags :: "a64_alu \<Rightarrow> u64 \<Rightarrow> u64 \<Rightarrow> a64_machine \<Rightarrow> a64_machine" where
  "set_flags f a b m =
     (case f of
        SUBS \<Rightarrow> m\<lparr>flag_n := sint (a - b) < 0, flag_z := (a - b = 0), flag_c := b \<le> a, flag_v := (sint (a - b) \<noteq> sint a - sint b)\<rparr>
      | ANDS \<Rightarrow> m\<lparr>flag_n := sint (a AND b) < 0, flag_z := (a AND b = 0), flag_c := False, flag_v := False\<rparr>
      | _ \<Rightarrow> m)"

definition cond_holds :: "u32 \<Rightarrow> a64_machine \<Rightarrow> bool" where
  "cond_holds c m =
     (let p = (if c div 2 = 0 then flag_z m
               else if c div 2 = 1 then flag_c m
               else if c div 2 = 2 then flag_n m
               else if c div 2 = 3 then flag_v m
               else if c div 2 = 4 then flag_c m \<and> \<not> flag_z m
               else if c div 2 = 5 then flag_n m = flag_v m
               else if c div 2 = 6 then flag_n m = flag_v m \<and> \<not> flag_z m
               else True)
      in if bit c 0 \<and> c \<noteq> 15 then \<not> p else p)"

fun exec :: "a64_instr \<Rightarrow> a64_machine \<Rightarrow> a64_machine option" where
  "exec (Alu f d n m) st = Some (set_gpr d (alu_value f (reg st n) (reg st m)) (set_flags f (reg st n) (reg st m) st))"
| "exec (AluW f d n m) st = Some (set_gpr d (ucast (alu_value f (ucast (reg st n) :: u32) (ucast (reg st m)))) st)"
| "exec (Madd d n m a) st = Some (set_gpr d (reg st a + reg st n * reg st m) st)"
| "exec (AddImm d n v) st = Some (set_base d (base_address st n + ucast v) st)"
| "exec (SubImm d n v) st = Some (set_base d (base_address st n - ucast v) st)"
| "exec (Movz d v h) st = Some (set_gpr d (push_bit (16 * unat h) (ucast v)) st)"
| "exec (Movk d v h) st =
     Some (set_gpr d ((reg st d AND NOT (push_bit (16 * unat h) 0xFFFF)) OR push_bit (16 * unat h) (ucast v)) st)"
| "exec (Ldr k t n v) st = (if aligned st n then Some (set_gpr t (read_mem (2 ^ k) (base_address st n + 2 ^ k * ucast v) st) st) else None)"
| "exec (Str k t n v) st = (if aligned st n then Some (write_mem (2 ^ k) (base_address st n + 2 ^ k * ucast v) (reg st t) st) else None)"
| "exec (Ldur k t n v) st =
     (if aligned st n then Some (set_gpr t (read_mem (2 ^ k) (base_address st n + word_of_int (signed_take_bit 8 (uint v))) st) st) else None)"
| "exec (Stur k t n v) st =
     (if aligned st n then Some (write_mem (2 ^ k) (base_address st n + word_of_int (signed_take_bit 8 (uint v))) (reg st t) st) else None)"
| "exec (StpPre t u n v) st =
     (if aligned st n
      then let a = base_address st n + word_of_int (8 * signed_take_bit 6 (uint v)) in
        Some (set_base n a (write_mem 8 (a + 8) (reg st u) (write_mem 8 a (reg st t) st)))
      else None)"
| "exec (LdpPost t u n v) st =
     (if aligned st n
      then let a = base_address st n in
        Some (set_base n (a + word_of_int (8 * signed_take_bit 6 (uint v))) (set_gpr u (read_mem 8 (a + 8) st) (set_gpr t (read_mem 8 a st) st)))
      else None)"
| "exec (Csel d n m c) st = Some (set_gpr d (if cond_holds c st then reg st n else reg st m) st)"
| "exec (Csinc d n m c) st = Some (set_gpr d (if cond_holds c st then reg st n else reg st m + 1) st)"
| "exec Nop st = Some st"
| "exec _ st = None"

section \<open>Programs\<close>

text \<open>The address returned to, and the state there.\<close>

fun run :: "a64_instr option list \<Rightarrow> a64_machine \<Rightarrow> (u64 \<times> a64_machine) option" where
  "run [] st = None"
| "run (i # is) st =
     (case i of
        None \<Rightarrow> None
      | Some (Return n) \<Rightarrow> Some (reg st n, st)
      | Some j \<Rightarrow> (case exec j st of None \<Rightarrow> None | Some st' \<Rightarrow> run is st'))"

text \<open>Instructions are fetched as four bytes in little-endian order.\<close>

fun fetch :: "bytes \<Rightarrow> u32 list" where
  "fetch (a # b # c # d # bs) = le_word [a, b, c, d] # fetch bs"
| "fetch _ = []"

definition call :: "bytes \<Rightarrow> a64_machine \<Rightarrow> (u64 \<times> a64_machine) option" where
  "call code st = run (map decode (fetch code)) st"

section \<open>Straight-line code\<close>

fun steps :: "a64_instr list \<Rightarrow> a64_machine \<Rightarrow> a64_machine option" where
  "steps [] st = Some st"
| "steps (i # is) st = (case exec i st of None \<Rightarrow> None | Some st' \<Rightarrow> steps is st')"

lemma steps_append: "steps (is @ js) st = (case steps is st of None \<Rightarrow> None | Some st' \<Rightarrow> steps js st')"
  by (induction "is" arbitrary: st) (auto split: option.split)

lemma run_steps: "steps is st = Some st' \<Longrightarrow> run (map Some is @ js) st = run js st'"
proof (induction "is" arbitrary: st)
  case (Cons i "is")
  then obtain st1 where e: "exec i st = Some st1" "steps is st1 = Some st'" by (auto split: option.splits)
  then have "run (Some i # map Some is @ js) st = run (map Some is @ js) st1"
    by (auto split: a64_instr.split)
  then show ?case using Cons.IH [OF e(2)] by simp
qed simp

lemma run_more: "run is st = Some r \<Longrightarrow> run (is @ js) st = Some r"
proof (induction "is" arbitrary: st)
  case (Cons i "is")
  show ?case
  proof (cases i)
    case (Some j)
    then show ?thesis using Cons by (cases j) (auto simp del: exec.simps split: option.splits)
  qed (use Cons.prems in simp)
qed simp

section \<open>Memory\<close>

definition apart :: "nat \<Rightarrow> u64 \<Rightarrow> nat \<Rightarrow> u64 \<Rightarrow> bool" where
  "apart n a k b \<longleftrightarrow> (\<forall>i<n. \<not> unat (a + of_nat i - b) < k)"

lemma read_write_same: "read_mem 8 a (write_mem 8 a v m) = v"
proof -
  have "unat (of_nat i :: u64) = i" if "i < 8" for i using that by (simp add: unat_of_nat)
  then have "map (\<lambda>i. memory (write_mem 8 a v m) (a + of_nat i)) [0..<8] = map (\<lambda>i. le_bytes 8 v ! i) [0..<8]"
    by (simp add: write_mem_def)
  also have "\<dots> = le_bytes 8 v" by (metis length_le_bytes map_nth)
  finally show ?thesis by (simp add: read_mem_def)
qed

lemma read_write_apart: "apart n a k b \<Longrightarrow> read_mem n a (write_mem k b v m) = read_mem n a m"
  by (auto simp: read_mem_def write_mem_def apart_def intro!: arg_cong [where f = le_word])

lemma frame_write [simp]: "gpr (write_mem n a v m) = gpr m" "sp (write_mem n a v m) = sp m" "reg (write_mem n a v m) = reg m"
  by (simp_all add: write_mem_def reg_def fun_eq_iff)

lemma memory_set [simp]: "memory (set_gpr r v m) = memory m" "sp (set_gpr r v m) = sp m" "memory (set_base r v m) = memory m"
  "memory (set_flags f a b m) = memory m" "sp (set_flags f a b m) = sp m" "gpr (set_flags f a b m) = gpr m"
  by (simp_all add: set_gpr_def set_base_def set_flags_def split: a64_alu.split)

lemma read_mem_set [simp]: "read_mem n a (set_gpr r v m) = read_mem n a m" "read_mem n a (set_base r v m) = read_mem n a m"
  "read_mem n a (set_flags f x y m) = read_mem n a m"
  by (simp_all add: read_mem_def)

section \<open>Conditions after a comparison\<close>

lemma signed_difference: "(sint (a - b :: u64) < 0) = (sint (a - b) \<noteq> sint a - sint b) \<longleftrightarrow> sint b \<le> sint a"
proof -
  have "(word_of_int (sint (a - b)) :: u64) = word_of_int (sint a - sint b)" by (simp add: word_of_int_minus)
  then have "sint (a - b) mod 2 ^ 64 = (sint a - sint b) mod 2 ^ 64"
    by (simp only: word_of_int_eq_iff take_bit_eq_mod len_num1 len_bit0) simp
  then obtain k where k: "sint (a - b) = sint a - sint b + 2 ^ 64 * k"
    by (metis add.commute mod_eqE mult.commute)
  have "- (2 ^ 63) \<le> sint (a - b)" "sint (a - b) < 2 ^ 63" "- (2 ^ 63) \<le> sint a" "sint a < 2 ^ 63" "- (2 ^ 63) \<le> sint b" "sint b < 2 ^ 63"
    using sint_ge [of a] sint_lt [of a] sint_ge [of b] sint_lt [of b] sint_ge [of "a - b"] sint_lt [of "a - b"] by simp_all
  with k show ?thesis by (auto simp: linorder_not_less)
qed

lemma compare_conditions:
  fixes a b :: u64 and st :: a64_machine
  defines "m \<equiv> set_flags SUBS a b st"
  shows "cond_holds 0 m \<longleftrightarrow> a = b" "cond_holds 1 m \<longleftrightarrow> a \<noteq> b" "cond_holds 2 m \<longleftrightarrow> b \<le> a" "cond_holds 3 m \<longleftrightarrow> a < b"
    "cond_holds 8 m \<longleftrightarrow> b < a" "cond_holds 9 m \<longleftrightarrow> a \<le> b" "cond_holds 10 m \<longleftrightarrow> sint b \<le> sint a"
    "cond_holds 11 m \<longleftrightarrow> sint a < sint b" "cond_holds 12 m \<longleftrightarrow> sint b < sint a" "cond_holds 13 m \<longleftrightarrow> sint a \<le> sint b"
proof -
  have z: "flag_z m \<longleftrightarrow> a = b" and c: "flag_c m \<longleftrightarrow> b \<le> a" by (simp_all add: m_def set_flags_def)
  have nv: "flag_n m = flag_v m \<longleftrightarrow> sint b \<le> sint a"
    using signed_difference [of a b] by (simp add: m_def set_flags_def)
  have ab: "sint a = sint b \<longleftrightarrow> a = b" by (metis signed_word_eqI)
  show "cond_holds 0 m \<longleftrightarrow> a = b" "cond_holds 1 m \<longleftrightarrow> a \<noteq> b" "cond_holds 2 m \<longleftrightarrow> b \<le> a" "cond_holds 3 m \<longleftrightarrow> a < b"
    "cond_holds 8 m \<longleftrightarrow> b < a" "cond_holds 9 m \<longleftrightarrow> a \<le> b" "cond_holds 10 m \<longleftrightarrow> sint b \<le> sint a"
    "cond_holds 11 m \<longleftrightarrow> sint a < sint b" "cond_holds 12 m \<longleftrightarrow> sint b < sint a" "cond_holds 13 m \<longleftrightarrow> sint a \<le> sint b"
    using ab by (auto simp: cond_holds_def z c nv not_le)
qed

end
