(* ===== verification/Jit_Codegen.thy ===== *)
theory Jit_Codegen
  imports IR_Builder
begin

text \<open>
  What the code generators share (\<^verbatim>\<open>jit/code_generator.hpp\<close> and \<^verbatim>\<open>jit/code_generator.cpp\<close>): the choice of the target and
  the analysis of a function before its code is emitted. The analysis counts operands and results; nothing reads the counts.
\<close>

section \<open>Targets\<close>

datatype TargetArch = X86_64 | AArch64 | UnknownArch

text \<open>
  The architecture of the build is an argument. \<open>create_generator\<close> is compiled for one architecture and has a generator for that
  one only; a generator is named by its target here.
\<close>

definition create_generator :: "TargetArch \<Rightarrow> TargetArch \<Rightarrow> TargetArch option" where
  "create_generator build arch =
     (if build = X86_64 then (if arch = X86_64 then Some X86_64 else None)
      else if build = AArch64 then (if arch = AArch64 then Some AArch64 else None)
      else None)"

definition create_host_generator :: "TargetArch \<Rightarrow> TargetArch option" where
  "create_host_generator build = create_generator build build"

lemma host_generator: "create_host_generator build = (if build = UnknownArch then None else Some build)"
  by (cases build) (simp_all add: create_host_generator_def create_generator_def)

section \<open>Analysis\<close>

record RegInfo =
  value_id :: u32
  is_allocated :: bool
  use_count :: u32
  def_count :: u32
  spill_slot :: i32

definition RegInfo_init :: RegInfo where
  "RegInfo_init = \<lparr>value_id = 0, is_allocated = False, use_count = 0, def_count = 0, spill_slot = - 1\<rparr>"

type_synonym reg_info_map = "ValueId \<Rightarrow> RegInfo option"

definition info_of :: "reg_info_map \<Rightarrow> ValueId \<Rightarrow> RegInfo" where
  "info_of m v = (case m v of None \<Rightarrow> RegInfo_init | Some r \<Rightarrow> r)"

definition count_use :: "reg_info_map \<Rightarrow> ValueId \<Rightarrow> reg_info_map" where
  "count_use m v = (let r = info_of m v in m(v \<mapsto> r\<lparr>use_count := use_count r + 1\<rparr>))"

definition count_instr :: "reg_info_map \<Rightarrow> Instruction \<Rightarrow> reg_info_map" where
  "count_instr m i =
     (let m = foldl count_use m (operands i); v = instr_result i in
      if v \<noteq> 0 then let r = info_of m v in m(v \<mapsto> r\<lparr>def_count := def_count r + 1\<rparr>) else m)"

definition count_uses :: "ir_function \<Rightarrow> reg_info_map" where
  "count_uses f = foldl (\<lambda>m b. foldl count_instr m (instructions b)) Map.empty (blocks f)"

definition analyze_function :: "ir_function \<Rightarrow> reg_info_map" where
  "analyze_function f = count_uses f"

section \<open>Operands\<close>

text \<open>An operand is read without a check of its index.\<close>

definition operand :: "Instruction \<Rightarrow> nat \<Rightarrow> ValueId outcome" where
  "operand i k = (if k < length (operands i) then Ok (operands i ! k) else Fault)"

end
