(* ===== verification/A64_Codegen.thy ===== *)
theory A64_Codegen
  imports A64_Machine Jit_Codegen
begin

text \<open>
  The AArch64 code generator (\<^verbatim>\<open>jit/a64/a64_codegen.cpp\<close>).
  An operand is read without a check of its index and a cast to the class of the instruction is unchecked: both are faults here.
\<close>

section \<open>State\<close>

record A64CodeGenerator =
  assembler :: A64Assembler
  value_to_reg :: "ValueId \<Rightarrow> A64Reg option"
  free_regs :: "A64Reg list"
  reg_info :: reg_info_map

section \<open>Registers\<close>

definition allocate_reg :: "A64CodeGenerator \<Rightarrow> A64Reg \<times> A64CodeGenerator" where
  "allocate_reg g = (if free_regs g = [] then (X 0, g) else (last (free_regs g), g\<lparr>free_regs := butlast (free_regs g)\<rparr>))"

definition free_reg :: "A64Reg \<Rightarrow> A64CodeGenerator \<Rightarrow> A64CodeGenerator" where
  "free_reg r g = g\<lparr>free_regs := free_regs g @ [r]\<rparr>"

definition get_reg :: "A64CodeGenerator \<Rightarrow> ValueId \<Rightarrow> A64Reg" where
  "get_reg g v = (case value_to_reg g v of None \<Rightarrow> X 0 | Some r \<Rightarrow> r)"

definition set_reg :: "ValueId \<Rightarrow> A64Reg \<Rightarrow> A64CodeGenerator \<Rightarrow> A64CodeGenerator" where
  "set_reg v r g = g\<lparr>value_to_reg := (value_to_reg g)(v \<mapsto> r)\<rparr>"

section \<open>Emitting\<close>

definition asm :: "(A64Assembler \<Rightarrow> A64Assembler) \<Rightarrow> A64CodeGenerator \<Rightarrow> A64CodeGenerator" where
  "asm f g = g\<lparr>assembler := f (assembler g)\<rparr>"

definition emit_prologue :: "A64CodeGenerator \<Rightarrow> A64CodeGenerator" where
  "emit_prologue g =
     asm (\<lambda>c. mov_x64_x64 (X 19) (X 0)
       (stp_pre (X 27) (X 28) SP (-16) (stp_pre (X 25) (X 26) SP (-16) (stp_pre (X 23) (X 24) SP (-16)
       (stp_pre (X 21) (X 22) SP (-16) (stp_pre (X 19) (X 20) SP (-16)
       (mov_x64_x64 (X 29) SP (stp_pre (X 29) (X 30) SP (-16) c)))))))) g"

definition emit_epilogue :: "A64CodeGenerator \<Rightarrow> A64CodeGenerator" where
  "emit_epilogue g =
     asm (\<lambda>c. a64_ret (X 30) (ldp_post (X 29) (X 30) SP 16
       (ldp_post (X 19) (X 20) SP 16 (ldp_post (X 21) (X 22) SP 16 (ldp_post (X 23) (X 24) SP 16
       (ldp_post (X 25) (X 26) SP 16 (ldp_post (X 27) (X 28) SP 16 c))))))) g"

text \<open>Allocate the destination, emit, record where the result is: the end of every case with a result.\<close>

definition emit_result :: "Instruction \<Rightarrow> (A64Reg \<Rightarrow> A64Assembler \<Rightarrow> A64Assembler) \<Rightarrow> A64CodeGenerator \<Rightarrow> A64CodeGenerator" where
  "emit_result i f g = (let (dst, g) = allocate_reg g in set_reg (instr_result i) dst (asm (f dst) g))"

definition emit_binary ::
    "Instruction \<Rightarrow> (A64Reg \<Rightarrow> A64Reg \<Rightarrow> A64Reg \<Rightarrow> A64Assembler \<Rightarrow> A64Assembler) \<Rightarrow> A64CodeGenerator \<Rightarrow> A64CodeGenerator outcome" where
  "emit_binary i f g =
     obind (operand i 0) (\<lambda>a. obind (operand i 1) (\<lambda>b.
       let lhs = get_reg g a; rhs = get_reg g b in Ok (emit_result i (\<lambda>dst. f dst lhs rhs) g)))"

definition compare_set :: "A64Condition \<Rightarrow> A64Reg \<Rightarrow> A64Reg \<Rightarrow> A64Reg \<Rightarrow> A64Assembler \<Rightarrow> A64Assembler" where
  "compare_set cond dst lhs rhs c = cset_x64 dst cond (cmp_x64_x64 lhs rhs c)"

definition load_field :: "u32 \<Rightarrow> A64Reg \<Rightarrow> A64Assembler \<Rightarrow> A64Assembler" where
  "load_field cid dst =
     (if cid = 0 then ldr_x64 dst (X 19) 0
      else if cid = 1 then ldr_x64 dst (X 19) 8
      else if cid = 2 then ldr_x64 dst (X 19) 16
      else if cid = 3 then ldr_w32 dst (X 19) 24
      else if cid = 4 then ldrb dst (X 19) 28
      else if cid = 5 then ldrb dst (X 19) 29
      else if cid = 6 then ldrh dst (X 19) 30
      else if cid = 7 then ldr_x64 dst (X 19) 32
      else if cid = 8 then ldr_w32 dst (X 19) 40
      else if cid = 9 then ldrh dst (X 19) 44
      else if cid = 10 then ldrh dst (X 19) 46
      else if cid = 11 then ldr_x64 dst (X 19) 48
      else mov_x64_imm64 dst 0)"

definition mov_u32 :: "A64Reg \<Rightarrow> u32 \<Rightarrow> A64Assembler \<Rightarrow> A64Assembler" where
  "mov_u32 dst v c =
     (let c = movz_x64 dst (ucast (v AND 0xFFFF)) 0 c in
      if 0xFFFF < v then movk_x64 dst (ucast (drop_bit 16 v)) 16 c else c)"

definition emit_constant :: "Instruction \<Rightarrow> (A64Reg \<Rightarrow> Constant \<Rightarrow> A64Assembler \<Rightarrow> A64Assembler) \<Rightarrow> A64CodeGenerator \<Rightarrow> A64CodeGenerator outcome" where
  "emit_constant i f g =
     (case extra i of ConstExtra c \<Rightarrow> Ok (emit_result i (\<lambda>dst. f dst c) g) | _ \<Rightarrow> Fault)"

definition emit_select :: "Instruction \<Rightarrow> A64CodeGenerator \<Rightarrow> A64CodeGenerator outcome" where
  "emit_select i g =
     obind (operand i 0) (\<lambda>a. obind (operand i 1) (\<lambda>b. obind (operand i 2) (\<lambda>c.
       let cond = get_reg g a; true_val = get_reg g b; false_val = get_reg g c in
       Ok (emit_result i (\<lambda>dst code. csel_x64 dst true_val false_val Cond_NE (cmp_x64_x64 cond XZR code)) g))))"

definition emit_return :: "Instruction \<Rightarrow> A64CodeGenerator \<Rightarrow> A64CodeGenerator" where
  "emit_return i g =
     emit_epilogue
       (case operands i of
          [] \<Rightarrow> asm (mov_x64_imm64 (X 0) 0) g
        | v # _ \<Rightarrow> let ret_val = get_reg g v in if ret_val \<noteq> X 0 then asm (mov_x64_x64 (X 0) ret_val) g else g)"

definition emit_instruction :: "Instruction \<Rightarrow> A64CodeGenerator \<Rightarrow> A64CodeGenerator outcome" where
  "emit_instruction i g =
     (case opcode i of
        Op_Nop \<Rightarrow> Ok (asm a64_nop g)
      | Op_ConstU64 \<Rightarrow> emit_constant i (\<lambda>dst c. mov_x64_imm64 dst (as_u64 c)) g
      | Op_ConstI64 \<Rightarrow> emit_constant i (\<lambda>dst c. mov_x64_imm64 dst (as_u64 c)) g
      | Op_ConstU32 \<Rightarrow> emit_constant i (\<lambda>dst c. mov_u32 dst (get_u32 c)) g
      | Op_LoadColumn \<Rightarrow> (case extra i of ColumnExtra cid \<Rightarrow> Ok (emit_result i (load_field cid) g) | _ \<Rightarrow> Fault)
      | Op_AddU64 \<Rightarrow> emit_binary i add_x64_x64_x64 g
      | Op_AddI64 \<Rightarrow> emit_binary i add_x64_x64_x64 g
      | Op_SubU64 \<Rightarrow> emit_binary i sub_x64_x64_x64 g
      | Op_SubI64 \<Rightarrow> emit_binary i sub_x64_x64_x64 g
      | Op_MulU64 \<Rightarrow> emit_binary i mul_x64_x64_x64 g
      | Op_MulI64 \<Rightarrow> emit_binary i mul_x64_x64_x64 g
      | Op_DivU64 \<Rightarrow> emit_binary i udiv_x64_x64_x64 g
      | Op_DivI64 \<Rightarrow> emit_binary i sdiv_x64_x64_x64 g
      | Op_And \<Rightarrow> emit_binary i and_x64_x64_x64 g
      | Op_BitAnd \<Rightarrow> emit_binary i and_x64_x64_x64 g
      | Op_Or \<Rightarrow> emit_binary i orr_x64_x64_x64 g
      | Op_BitOr \<Rightarrow> emit_binary i orr_x64_x64_x64 g
      | Op_BitXor \<Rightarrow> emit_binary i eor_x64_x64_x64 g
      | Op_EqU64 \<Rightarrow> emit_binary i (compare_set Cond_EQ) g
      | Op_EqI64 \<Rightarrow> emit_binary i (compare_set Cond_EQ) g
      | Op_NeU64 \<Rightarrow> emit_binary i (compare_set Cond_NE) g
      | Op_NeI64 \<Rightarrow> emit_binary i (compare_set Cond_NE) g
      | Op_LtU64 \<Rightarrow> emit_binary i (compare_set Cond_LO) g
      | Op_LtI64 \<Rightarrow> emit_binary i (compare_set Cond_LT) g
      | Op_LeU64 \<Rightarrow> emit_binary i (compare_set Cond_LS) g
      | Op_LeI64 \<Rightarrow> emit_binary i (compare_set Cond_LE) g
      | Op_GtU64 \<Rightarrow> emit_binary i (compare_set Cond_HI) g
      | Op_GtI64 \<Rightarrow> emit_binary i (compare_set Cond_GT) g
      | Op_GeU64 \<Rightarrow> emit_binary i (compare_set Cond_HS) g
      | Op_GeI64 \<Rightarrow> emit_binary i (compare_set Cond_GE) g
      | Op_Select \<Rightarrow> emit_select i g
      | Op_Return \<Rightarrow> Ok (emit_return i g)
      | _ \<Rightarrow> Err NotImplemented)"

fun emit_instructions :: "Instruction list \<Rightarrow> A64CodeGenerator \<Rightarrow> A64CodeGenerator outcome" where
  "emit_instructions [] g = Ok g"
| "emit_instructions (i # is) g = obind (emit_instruction i g) (emit_instructions is)"

fun emit_blocks :: "BasicBlock list \<Rightarrow> A64CodeGenerator \<Rightarrow> A64CodeGenerator outcome" where
  "emit_blocks [] g = Ok g"
| "emit_blocks (b # bs) g = obind (emit_instructions (instructions b) g) (emit_blocks bs)"

section \<open>Functions\<close>

text \<open>The words are copied as they are in memory, on a little-endian machine.\<close>

definition code_bytes :: "A64Assembler \<Rightarrow> bytes" where
  "code_bytes code = concat (map (le_bytes 4) code)"

definition generate :: "ir_function option \<Rightarrow> A64CodeGenerator \<Rightarrow> (bytes \<times> A64CodeGenerator) outcome" where
  "generate fn g =
     (case fn of
        None \<Rightarrow> Err InvalidArgument
      | Some f \<Rightarrow>
          let g = g\<lparr>assembler := [], value_to_reg := Map.empty, free_regs := map X [1..<16], reg_info := analyze_function f\<rparr>;
              g = emit_prologue g in
          obind (emit_blocks (blocks f) g) (\<lambda>g.
            let g = emit_epilogue g in Ok (code_bytes (assembler g), g)))"

end
