(* ===== verification/A64_Correct.thy ===== *)
theory A64_Correct
  imports A64_Codegen IR_Semantics
begin

text \<open>
  The code generator is correct: the machine code of a lowered filter computes the meaning of the filter.
  The proof follows the lowering: \<open>compiles\<close> says what the code generated for the instructions of an expression does, in the
  way in which \<open>computes\<close> of \<^verbatim>\<open>IR_Semantics\<close> says what the interpreter does with them.
\<close>

section \<open>Constants\<close>

lemma set_gpr_twice [simp]: "set_gpr r v (set_gpr r w st) = set_gpr r v st"
  by (simp add: set_gpr_def)

lemma reg_set_gpr: "r \<noteq> 31 \<Longrightarrow> reg (set_gpr r v st) q = (if q = r then v else reg st q)"
  by (simp add: reg_def set_gpr_def)

lemma quarter_masks: "(0xFFFF0000 :: u64) = push_bit 16 (mask 16)" "(0xFFFF00000000 :: u64) = push_bit 32 (mask 16)"
  "(0xFFFF000000000000 :: u64) = push_bit 48 (mask 16)" "(0xFFFF :: u64) = mask 16"
  by (simp_all add: mask_eq_exp_minus_1)

lemma quarter_set:
  "k + 16 \<le> 64 \<Longrightarrow> (take_bit k imm AND NOT (push_bit k (mask 16))) OR push_bit k (take_bit 16 (drop_bit k imm)) = take_bit (k + 16) (imm :: u64)"
  by (rule bit_word_eqI) (auto simp: bit_simps)

lemma quarter_zero: "(imm :: u64) AND push_bit k (mask 16) = 0 \<Longrightarrow> k + 16 \<le> 64 \<Longrightarrow> take_bit k imm = take_bit (k + 16) imm"
proof (rule bit_word_eqI)
  fix j
  assume z: "imm AND push_bit k (mask 16) = 0" and k: "k + 16 \<le> 64" and "j < LENGTH(64)"
  from z have "\<not> bit (imm AND push_bit k (mask 16)) j" by simp
  then show "bit (take_bit k imm) j = bit (take_bit (k + 16) imm) j" using \<open>j < LENGTH(64)\<close> by (auto simp: bit_simps)
qed

lemma quarter_value: "ucast (ucast (ucast (w AND mask 16 :: u64) :: u16) :: u32) = take_bit 16 (w :: u64)"
  by (rule bit_word_eqI) (auto simp: bit_simps)

definition sets :: "a64_instr list \<Rightarrow> u32 \<Rightarrow> a64_machine \<Rightarrow> u64 \<Rightarrow> bool" where
  "sets is r st v \<longleftrightarrow> (\<exists>st'. steps is st = Some st' \<and> gpr st' = (gpr st)(r := v) \<and> sp st' = sp st \<and> memory st' = memory st)"

lemma movk_steps:
  assumes "gpr st d = take_bit (16 * unat h) imm" "d \<noteq> 31" "16 * unat h + 16 \<le> 64" "ucast v = take_bit 16 (drop_bit (16 * unat h) imm)"
  shows "steps [Movk d v h] st = Some (set_gpr d (take_bit (16 * unat h + 16) imm) st)"
  using assms quarter_set [of "16 * unat h" imm] by (simp add: reg_def mask_eq_exp_minus_1)

definition movk_quarter :: "u32 \<Rightarrow> u64 \<Rightarrow> nat \<Rightarrow> a64_instr list" where
  "movk_quarter d imm q = (if imm AND push_bit (16 * q) (mask 16) \<noteq> 0
     then [Movk d (ucast (ucast (drop_bit (16 * q) imm AND mask 16) :: u16)) (of_nat q)] else [])"

lemma movk_quarter_steps:
  assumes "gpr st d = take_bit (16 * q) imm" "d \<noteq> 31" "q < 4"
  shows "steps (movk_quarter d imm q) st = Some (set_gpr d (take_bit (16 * q + 16) imm) st)"
proof (cases "imm AND push_bit (16 * q) (mask 16) = 0")
  case True
  have "take_bit (16 * q + 16) imm = gpr st d" using quarter_zero [OF True] assms by simp
  then show ?thesis using True assms(2) by (simp add: movk_quarter_def set_gpr_def)
next
  case False
  have "unat (of_nat q :: u32) = q" using assms(3) by (simp add: unat_of_nat)
  then show ?thesis
    using False movk_steps [of st d "of_nat q" imm "ucast (ucast (drop_bit (16 * q) imm AND mask 16) :: u16)"] assms
    by (simp add: movk_quarter_def quarter_value)
qed

lemma mov_imm64:
  assumes "r_idx d \<noteq> 31"
  shows "\<exists>is. length is \<le> 4 \<and> (\<forall>code. map decode (mov_x64_imm64 d imm code) = map decode code @ map Some is) \<and>
    (\<forall>st. sets is (r_idx d) st imm)"
proof -
  let ?q = "movk_quarter (r_idx d) imm"
  let ?is = "Movz (r_idx d) (ucast (ucast (imm AND mask 16) :: u16)) 0 # ?q 1 @ ?q 2 @ ?q 3"
  have hw: "take_bit 2 (ucast (16 div 16 :: u8)) = (of_nat 1 :: u32)" "take_bit 2 (ucast (32 div 16 :: u8)) = (of_nat 2 :: u32)"
    "take_bit 2 (ucast (48 div 16 :: u8)) = (of_nat 3 :: u32)" by simp_all
  have "length ?is \<le> 4" by (simp add: movk_quarter_def)
  moreover have "map decode (mov_x64_imm64 d imm code) = map decode code @ map Some ?is" for code
    unfolding mov_x64_imm64_def Let_def quarter_masks
    by (simp add: encodings hw movk_quarter_def del: mask_numeral)
  moreover have "sets ?is (r_idx d) st imm" for st
  proof -
    define st1 where "st1 = set_gpr (r_idx d) (take_bit 16 imm) st"
    have st1: "gpr st1 (r_idx d) = take_bit 16 imm" using assms by (simp add: st1_def set_gpr_def)
    have "exec (Movz (r_idx d) (ucast (ucast (imm AND mask 16) :: u16)) 0) st = Some st1"
      by (simp add: st1_def quarter_value del: mask_numeral)
    moreover have "steps (?q 1 @ ?q 2 @ ?q 3) st1 = Some (set_gpr (r_idx d) imm st1)"
      using movk_quarter_steps [of st1 "r_idx d" 1 imm] movk_quarter_steps [of _ "r_idx d" 2 imm]
        movk_quarter_steps [of _ "r_idx d" 3 imm] st1 assms
        take_bit_word_eq_self [of 64 imm]
      by (simp add: steps_append set_gpr_def)
    ultimately show ?thesis using assms by (simp add: sets_def st1_def set_gpr_def)
  qed
  ultimately show ?thesis by blast
qed

section \<open>Columns\<close>

text \<open>An event as it lies in memory.\<close>

definition event_image :: "CanonicalEvent \<Rightarrow> bytes" where
  "event_image e = le_bytes 8 (exchange_ts_ns e) @ le_bytes 8 (receive_ts_ns e) @ le_bytes 8 (sequence e) @
     le_bytes 4 (instrument_id e) @ [event_type e, side e] @ le_bytes 2 (flags e) @ le_bytes 8 (price_ticks e) @
     le_bytes 4 (quantity e) @ le_bytes 2 (venue_id e) @ le_bytes 2 (source_id e) @ le_bytes 8 (trade_or_order_id e)"

definition event_at :: "u64 \<Rightarrow> CanonicalEvent \<Rightarrow> (u64 \<Rightarrow> u8) \<Rightarrow> bool" where
  "event_at a e mem \<longleftrightarrow> (\<forall>i<length (event_image e). mem (a + of_nat i) = event_image e ! i)"

lemma read_event:
  assumes "event_at a e (memory st)" "k + n \<le> length (event_image e)"
  shows "read_mem n (a + of_nat k) st = le_word (take n (drop k (event_image e)))"
proof -
  have "map (\<lambda>i. memory st (a + of_nat k + of_nat i)) [0..<n] = take n (drop k (event_image e))"
    using assms by (intro nth_equalityI) (auto simp: event_at_def add.assoc simp flip: of_nat_add)
  then show ?thesis by (simp add: read_mem_def)
qed

lemma le_bytes_ucast: "8 * n \<le> LENGTH('a) \<Longrightarrow> LENGTH('a) \<le> LENGTH('b) \<Longrightarrow> le_bytes n (w :: 'a::len word) = le_bytes n (ucast w :: 'b::len word)"
  by (rule nth_equalityI) (auto simp: nth_le_bytes bit_simps intro!: bit_word_eqI)

lemma le_word_narrow: "le_word (le_bytes 8 (w8 :: u64)) = w8" "le_word (le_bytes 4 (w4 :: u32)) = (ucast w4 :: u64)"
  "le_word (le_bytes 2 (w2 :: u16)) = (ucast w2 :: u64)" "le_word [w1] = (ucast w1 :: u64)"
proof -
  show "le_word (le_bytes 4 (w4 :: u32)) = (ucast w4 :: u64)"
    using le_bytes_ucast [of 4, where 'a = 32 and 'b = 64, of w4] by (simp add: le_word_le_bytes take_bit_ucast)
  show "le_word (le_bytes 2 (w2 :: u16)) = (ucast w2 :: u64)"
    using le_bytes_ucast [of 2, where 'a = 16 and 'b = 64, of w2] by (simp add: le_word_le_bytes take_bit_ucast)
qed simp_all

lemma length_event_image [simp]: "length (event_image e) = 56"
  by (simp add: event_image_def)

lemma load_field_decode:
  "map decode (load_field 0 d code) = map decode code @ [Some (Ldr 3 (r_idx d) 19 0)]"
  "map decode (load_field 1 d code) = map decode code @ [Some (Ldr 3 (r_idx d) 19 1)]"
  "map decode (load_field 2 d code) = map decode code @ [Some (Ldr 3 (r_idx d) 19 2)]"
  "map decode (load_field 3 d code) = map decode code @ [Some (Ldr 2 (r_idx d) 19 6)]"
  "map decode (load_field 4 d code) = map decode code @ [Some (Ldr 0 (r_idx d) 19 28)]"
  "map decode (load_field 5 d code) = map decode code @ [Some (Ldr 0 (r_idx d) 19 29)]"
  "map decode (load_field 6 d code) = map decode code @ [Some (Ldr 1 (r_idx d) 19 15)]"
  "map decode (load_field 7 d code) = map decode code @ [Some (Ldr 3 (r_idx d) 19 4)]"
  "map decode (load_field 8 d code) = map decode code @ [Some (Ldr 2 (r_idx d) 19 10)]"
  "map decode (load_field 9 d code) = map decode code @ [Some (Ldr 1 (r_idx d) 19 22)]"
  "map decode (load_field 10 d code) = map decode code @ [Some (Ldr 1 (r_idx d) 19 23)]"
  "map decode (load_field 11 d code) = map decode code @ [Some (Ldr 3 (r_idx d) 19 6)]"
  by (simp_all add: load_field_def ldr_x64_def ldr_w32_def ldrh_def ldrb_def scaled_or_not_def a64_emit_def decode_defs field_simps_a64)

lemma load_sets:
  assumes "event_at (gpr st 19) e (memory st)" "t \<noteq> 31" "2 ^ k * ucast v = (of_nat off :: u64)" "off + 2 ^ k \<le> 56"
    "le_word (take (2 ^ k) (drop off (event_image e))) = x"
  shows "sets [Ldr k t 19 v] t st x"
  using assms read_event [of "gpr st 19" e st off "2 ^ k"]
  by (simp add: sets_def aligned_def base_address_def set_gpr_def)

lemma load_field_sets:
  assumes "c < 12" "r_idx d \<noteq> 31"
  shows "\<exists>is. length is \<le> 4 \<and> (\<forall>code. map decode (load_field (of_nat c) d code) = map decode code @ map Some is) \<and>
    (\<forall>st e. event_at (gpr st 19) e (memory st) \<longrightarrow> sets is (r_idx d) st (load_column_value (of_nat c) e))"
proof -
  note ld = load_sets [OF _ assms(2)]
  have c: "c = 0 \<or> c = 1 \<or> c = 2 \<or> c = 3 \<or> c = 4 \<or> c = 5 \<or> c = 6 \<or> c = 7 \<or> c = 8 \<or> c = 9 \<or> c = 10 \<or> c = 11"
    using assms(1) by presburger
  have fields: "le_word (take 8 (drop 0 (event_image e))) = exchange_ts_ns e" "le_word (take 8 (drop 8 (event_image e))) = receive_ts_ns e"
    "le_word (take 8 (drop 16 (event_image e))) = sequence e" "le_word (take 4 (drop 24 (event_image e))) = (ucast (instrument_id e) :: u64)"
    "le_word (take 1 (drop 28 (event_image e))) = (ucast (event_type e) :: u64)" "le_word (take 1 (drop 29 (event_image e))) = (ucast (side e) :: u64)"
    "le_word (take 2 (drop 30 (event_image e))) = (ucast (flags e) :: u64)" "le_word (take 8 (drop 32 (event_image e))) = price_ticks e"
    "le_word (take 4 (drop 40 (event_image e))) = (ucast (quantity e) :: u64)" "le_word (take 2 (drop 44 (event_image e))) = (ucast (venue_id e) :: u64)"
    "le_word (take 2 (drop 46 (event_image e))) = (ucast (source_id e) :: u64)" "le_word (take 8 (drop 48 (event_image e))) = trade_or_order_id e"
    for e by (simp_all add: event_image_def le_word_narrow)
  have loads: "event_at (gpr st 19) e (memory st) \<Longrightarrow> sets [Ldr 3 (r_idx d) 19 0] (r_idx d) st (exchange_ts_ns e)"
    "event_at (gpr st 19) e (memory st) \<Longrightarrow> sets [Ldr 3 (r_idx d) 19 1] (r_idx d) st (receive_ts_ns e)"
    "event_at (gpr st 19) e (memory st) \<Longrightarrow> sets [Ldr 3 (r_idx d) 19 2] (r_idx d) st (sequence e)"
    "event_at (gpr st 19) e (memory st) \<Longrightarrow> sets [Ldr 2 (r_idx d) 19 6] (r_idx d) st (ucast (instrument_id e))"
    "event_at (gpr st 19) e (memory st) \<Longrightarrow> sets [Ldr 0 (r_idx d) 19 28] (r_idx d) st (ucast (event_type e))"
    "event_at (gpr st 19) e (memory st) \<Longrightarrow> sets [Ldr 0 (r_idx d) 19 29] (r_idx d) st (ucast (side e))"
    "event_at (gpr st 19) e (memory st) \<Longrightarrow> sets [Ldr 1 (r_idx d) 19 15] (r_idx d) st (ucast (flags e))"
    "event_at (gpr st 19) e (memory st) \<Longrightarrow> sets [Ldr 3 (r_idx d) 19 4] (r_idx d) st (price_ticks e)"
    "event_at (gpr st 19) e (memory st) \<Longrightarrow> sets [Ldr 2 (r_idx d) 19 10] (r_idx d) st (ucast (quantity e))"
    "event_at (gpr st 19) e (memory st) \<Longrightarrow> sets [Ldr 1 (r_idx d) 19 22] (r_idx d) st (ucast (venue_id e))"
    "event_at (gpr st 19) e (memory st) \<Longrightarrow> sets [Ldr 1 (r_idx d) 19 23] (r_idx d) st (ucast (source_id e))"
    "event_at (gpr st 19) e (memory st) \<Longrightarrow> sets [Ldr 3 (r_idx d) 19 6] (r_idx d) st (trade_or_order_id e)" for st e
    using ld [of st e 3 0 0] ld [of st e 3 1 8] ld [of st e 3 2 16] ld [of st e 2 6 24] ld [of st e 0 28 28] ld [of st e 0 29 29]
      ld [of st e 1 15 30] ld [of st e 3 4 32] ld [of st e 2 10 40] ld [of st e 1 22 44] ld [of st e 1 23 46] ld [of st e 3 6 48] fields [of e]
    by simp_all
  let ?t = "r_idx d"
  let ?i = "[Ldr 3 ?t 19 0, Ldr 3 ?t 19 1, Ldr 3 ?t 19 2, Ldr 2 ?t 19 6, Ldr 0 ?t 19 28, Ldr 0 ?t 19 29, Ldr 1 ?t 19 15,
    Ldr 3 ?t 19 4, Ldr 2 ?t 19 10, Ldr 1 ?t 19 22, Ldr 1 ?t 19 23, Ldr 3 ?t 19 6] ! c"
  show ?thesis
    by (rule exI [of _ "[?i]"], insert c, elim disjE) (simp_all add: load_field_decode load_column_value_def loads [simplified])
qed

section \<open>Operators\<close>

text \<open>The code for the opcodes with two operands.\<close>

definition emitter :: "Opcode \<Rightarrow> (A64Reg \<Rightarrow> A64Reg \<Rightarrow> A64Reg \<Rightarrow> A64Assembler \<Rightarrow> A64Assembler) option" where
  "emitter op =
     (case op of
        Op_AddU64 \<Rightarrow> Some add_x64_x64_x64 | Op_AddI64 \<Rightarrow> Some add_x64_x64_x64
      | Op_SubU64 \<Rightarrow> Some sub_x64_x64_x64 | Op_SubI64 \<Rightarrow> Some sub_x64_x64_x64
      | Op_MulU64 \<Rightarrow> Some mul_x64_x64_x64 | Op_MulI64 \<Rightarrow> Some mul_x64_x64_x64
      | Op_DivU64 \<Rightarrow> Some udiv_x64_x64_x64 | Op_DivI64 \<Rightarrow> Some sdiv_x64_x64_x64
      | Op_And \<Rightarrow> Some and_x64_x64_x64 | Op_BitAnd \<Rightarrow> Some and_x64_x64_x64
      | Op_Or \<Rightarrow> Some orr_x64_x64_x64 | Op_BitOr \<Rightarrow> Some orr_x64_x64_x64 | Op_BitXor \<Rightarrow> Some eor_x64_x64_x64
      | Op_EqU64 \<Rightarrow> Some (compare_set Cond_EQ) | Op_EqI64 \<Rightarrow> Some (compare_set Cond_EQ)
      | Op_NeU64 \<Rightarrow> Some (compare_set Cond_NE) | Op_NeI64 \<Rightarrow> Some (compare_set Cond_NE)
      | Op_LtU64 \<Rightarrow> Some (compare_set Cond_LO) | Op_LtI64 \<Rightarrow> Some (compare_set Cond_LT)
      | Op_LeU64 \<Rightarrow> Some (compare_set Cond_LS) | Op_LeI64 \<Rightarrow> Some (compare_set Cond_LE)
      | Op_GtU64 \<Rightarrow> Some (compare_set Cond_HI) | Op_GtI64 \<Rightarrow> Some (compare_set Cond_GT)
      | Op_GeU64 \<Rightarrow> Some (compare_set Cond_HS) | Op_GeI64 \<Rightarrow> Some (compare_set Cond_GE)
      | _ \<Rightarrow> None)"

lemma emit_binary_instruction: "emitter (opcode i) = Some f \<Longrightarrow> emit_instruction i g = emit_binary i f g"
  by (cases "opcode i") (simp_all add: emitter_def emit_instruction_def)

text \<open>On truth values the bitwise operations are the logical ones.\<close>

definition truth_values :: "Opcode \<Rightarrow> u64 \<Rightarrow> u64 \<Rightarrow> bool" where
  "truth_values op v w \<longleftrightarrow> (op = Op_And \<or> op = Op_Or \<longrightarrow> v \<in> {0, 1} \<and> w \<in> {0, 1})"

definition alu_correct :: "Opcode \<Rightarrow> a64_instr list \<Rightarrow> u32 \<Rightarrow> u32 \<Rightarrow> u32 \<Rightarrow> bool" where
  "alu_correct op is d l r \<longleftrightarrow> (\<forall>st z. truth_values op (gpr st l) (gpr st r) \<and> opcode_value op (gpr st l) (gpr st r) = Ok z \<longrightarrow> sets is d st z)"

lemma alu_sets:
  assumes "d \<noteq> 31" "l \<noteq> 31" "r \<noteq> 31" "f \<noteq> SUBS" "f \<noteq> ANDS"
    and "\<And>v w z. truth_values op v w \<Longrightarrow> opcode_value op v w = Ok z \<Longrightarrow> alu_value f v w = z"
  shows "alu_correct op [Alu f d l r] d l r"
  unfolding alu_correct_def
proof (intro allI impI, elim conjE)
  fix st :: a64_machine and z
  assume "truth_values op (gpr st l) (gpr st r)" "opcode_value op (gpr st l) (gpr st r) = Ok z"
  from assms(6) [OF this] show "sets [Alu f d l r] d st z"
    using assms(1-5) by (cases f) (simp_all add: sets_def set_gpr_def reg_def set_flags_def)
qed

abbreviation test_conditions :: "u8 set" where
  "test_conditions \<equiv> {Cond_EQ, Cond_NE, Cond_HS, Cond_LO, Cond_HI, Cond_LS, Cond_GE, Cond_LT, Cond_GT, Cond_LE}"

lemma inverted_condition:
  assumes "c \<in> test_conditions"
  shows "cond_holds (ucast c XOR 1) m \<longleftrightarrow> \<not> cond_holds (ucast c) m"
  using assms by (elim insertE emptyE) (simp_all add: cond_holds_def)

lemma cset_sets:
  assumes "d \<noteq> 31" "l \<noteq> 31" "r \<noteq> 31" "c \<in> test_conditions"
    and "\<And>v w (st :: a64_machine). opcode_value op v w = truth (cond_holds (ucast c) (set_flags SUBS v w st))"
  shows "alu_correct op [Alu SUBS 31 l r, Csinc d 31 31 (ucast c XOR 1)] d l r"
  unfolding alu_correct_def
proof (intro allI impI, elim conjE)
  fix st :: a64_machine and z
  let ?m = "set_flags SUBS (gpr st l) (gpr st r) st"
  assume "opcode_value op (gpr st l) (gpr st r) = Ok z"
  then have "z = (if cond_holds (ucast c) ?m then 1 else 0)" using assms(5) [of _ _ st] by (simp add: truth_def split: if_splits)
  moreover have "exec (Alu SUBS 31 l r) st = Some ?m" using assms(2,3) by (simp add: set_gpr_def reg_def)
  moreover have "exec (Csinc d 31 31 (ucast c XOR 1)) ?m = Some (?m\<lparr>gpr := (gpr ?m)(d := if cond_holds (ucast c) ?m then 1 else 0)\<rparr>)"
    using assms(1) inverted_condition [OF assms(4)] by (simp add: set_gpr_def reg_def)
  ultimately show "sets [Alu SUBS 31 l r, Csinc d 31 31 (ucast c XOR 1)] d st z" by (simp add: sets_def)
qed

lemma truth_value_ops: "v \<in> {0, 1 :: u64} \<Longrightarrow> w \<in> {0, 1} \<Longrightarrow> v AND w = (if v \<noteq> 0 \<and> w \<noteq> 0 then 1 else 0)"
  "v \<in> {0, 1 :: u64} \<Longrightarrow> w \<in> {0, 1} \<Longrightarrow> v OR w = (if v \<noteq> 0 \<or> w \<noteq> 0 then 1 else 0)"
  by auto

lemma some_or_Ok: "some_or c x = Ok z \<longleftrightarrow> x = Some z"
  by (simp add: some_or_def split: option.split)

lemma alu_opcodes:
  "truth_values op v w \<Longrightarrow> opcode_value op v w = Ok z \<Longrightarrow>
     (op \<in> {Op_AddU64, Op_AddI64} \<longrightarrow> alu_value ADDR v w = z) \<and> (op \<in> {Op_SubU64, Op_SubI64} \<longrightarrow> alu_value SUBR v w = z)
     \<and> (op \<in> {Op_MulU64, Op_MulI64} \<longrightarrow> v * w = z)
     \<and> (op = Op_DivU64 \<longrightarrow> alu_value UDIV v w = z) \<and> (op = Op_DivI64 \<longrightarrow> alu_value SDIV v w = z)
     \<and> (op \<in> {Op_And, Op_BitAnd} \<longrightarrow> alu_value ANDR v w = z) \<and> (op \<in> {Op_Or, Op_BitOr} \<longrightarrow> alu_value ORR v w = z)
     \<and> (op = Op_BitXor \<longrightarrow> alu_value EOR v w = z)"
  by (cases op)
    (auto simp: opcode_value_def binary_value_cases some_or_Ok ri_checked_add_u64_def ri_checked_sub_u64_def ri_checked_mul_u64_def
      ri_checked_add_i64_def ri_checked_sub_i64_def ri_checked_mul_i64_def div_i64_def alu_value_def truth_values_def truth_def
      split: if_splits)

definition alu_of :: "Opcode \<Rightarrow> a64_alu option" where
  "alu_of op =
     (if op \<in> {Op_AddU64, Op_AddI64} then Some ADDR else if op \<in> {Op_SubU64, Op_SubI64} then Some SUBR
      else if op = Op_DivU64 then Some UDIV else if op = Op_DivI64 then Some SDIV
      else if op \<in> {Op_And, Op_BitAnd} then Some ANDR else if op \<in> {Op_Or, Op_BitOr} then Some ORR
      else if op = Op_BitXor then Some EOR else None)"

definition cond_of :: "Opcode \<Rightarrow> A64Condition option" where
  "cond_of op =
     (if op \<in> {Op_EqU64, Op_EqI64} then Some Cond_EQ else if op \<in> {Op_NeU64, Op_NeI64} then Some Cond_NE
      else if op = Op_LtU64 then Some Cond_LO else if op = Op_LtI64 then Some Cond_LT
      else if op = Op_LeU64 then Some Cond_LS else if op = Op_LeI64 then Some Cond_LE
      else if op = Op_GtU64 then Some Cond_HI else if op = Op_GtI64 then Some Cond_GT
      else if op = Op_GeU64 then Some Cond_HS else if op = Op_GeI64 then Some Cond_GE else None)"

lemma emitter_kinds:
  assumes "emitter op = Some f"
  shows "(\<exists>a. alu_of op = Some a \<and> (\<forall>d l r code. map decode (f d l r code) = map decode code @ [Some (Alu a (r_idx d) (r_idx l) (r_idx r))]))
    \<or> (\<exists>c. cond_of op = Some c \<and> f = compare_set c) \<or> op \<in> {Op_MulU64, Op_MulI64} \<and> f = mul_x64_x64_x64"
  using assms by (cases op) (auto simp: emitter_def alu_of_def cond_of_def encodings)

lemma cond_of_test:
  assumes "cond_of op = Some c"
  shows "c \<in> test_conditions" "c < 16"
proof -
  show "c \<in> test_conditions" using assms by (auto simp: cond_of_def split: if_splits)
  then show "c < 16" by auto
qed

lemma cond_of_value:
  assumes "cond_of op = Some c"
  shows "opcode_value op v w = truth (cond_holds (ucast c) (set_flags SUBS v w (st :: a64_machine)))"
proof -
  note cs = compare_conditions [of v w st]
  show ?thesis using assms
    by (cases op) (simp_all add: cond_of_def opcode_value_def binary_value_cases sint_inject cs)
qed

lemma alu_of_value:
  assumes "alu_of op = Some a" "truth_values op v w" "opcode_value op v w = Ok z"
  shows "alu_value a v w = z" "a \<noteq> SUBS" "a \<noteq> ANDS"
  using assms(1) alu_opcodes [OF assms(2,3)] by (auto simp: alu_of_def split: if_splits)

lemma emitter_correct:
  assumes "emitter op = Some f" "r_idx d \<noteq> 31" "r_idx l \<noteq> 31" "r_idx r \<noteq> 31"
  shows "\<exists>is. length is \<le> 4 \<and> (\<forall>code. map decode (f d l r code) = map decode code @ map Some is) \<and>
    alu_correct op is (r_idx d) (r_idx l) (r_idx r)"
  using emitter_kinds [OF assms(1)]
proof (elim disjE exE conjE)
  fix a
  assume a: "alu_of op = Some a" "\<forall>d l r code. map decode (f d l r code) = map decode code @ [Some (Alu a (r_idx d) (r_idx l) (r_idx r))]"
  have "a \<noteq> SUBS" "a \<noteq> ANDS" using a(1) by (auto simp: alu_of_def split: if_splits)
  with alu_sets [OF assms(2-4)] alu_of_value(1) [OF a(1)] have "alu_correct op [Alu a (r_idx d) (r_idx l) (r_idx r)] (r_idx d) (r_idx l) (r_idx r)"
    by blast
  with a(2) show ?thesis by (intro exI [of _ "[Alu a (r_idx d) (r_idx l) (r_idx r)]"]) simp
next
  fix c
  assume c: "cond_of op = Some c" "f = compare_set c"
  let ?is = "[Alu SUBS 31 (r_idx l) (r_idx r), Csinc (r_idx d) 31 31 (ucast c XOR 1)]"
  have "map decode (f d l r code) = map decode code @ map Some ?is" for code
    using c cond_of_test(2) [OF c(1)] by (simp add: compare_set_def encodings)
  moreover have "alu_correct op ?is (r_idx d) (r_idx l) (r_idx r)"
    using cset_sets [OF assms(2-4) cond_of_test(1) [OF c(1)]] cond_of_value [OF c(1)] by blast
  moreover have "length ?is \<le> 4" by simp
  ultimately show ?thesis by blast
next
  assume m: "op \<in> {Op_MulU64, Op_MulI64}" "f = mul_x64_x64_x64"
  have "alu_correct op [Madd (r_idx d) (r_idx l) (r_idx r) 31] (r_idx d) (r_idx l) (r_idx r)"
    using m alu_opcodes assms(2-4) by (fastforce simp: alu_correct_def sets_def set_gpr_def reg_def)
  with m show ?thesis by (intro exI [of _ "[Madd (r_idx d) (r_idx l) (r_idx r) 31]"]) (simp add: encodings)
qed

section \<open>Registers of an expression\<close>

text \<open>The destinations in the order in which they are allocated: X15 down to X1, then X0.\<close>

definition reg_at :: "nat \<Rightarrow> A64Reg" where
  "reg_at n = (if n < 15 then X (15 - n) else X 0)"

abbreviation idx_at :: "nat \<Rightarrow> u32" where
  "idx_at n \<equiv> r_idx (reg_at n)"

definition gen_at :: "nat \<Rightarrow> A64CodeGenerator \<Rightarrow> bool" where
  "gen_at n g \<longleftrightarrow> free_regs g = map X [1..<16 - n]"

lemma idx_at_eq: "idx_at n = of_nat (15 - n)"
proof -
  have "take_bit 5 (ucast (of_nat k :: u8) :: u32) = of_nat k" if "k < 16" for k
    using that by (simp add: word_unat_eq_iff unsigned_take_bit_eq unsigned_ucast_eq unat_of_nat take_bit_nat_eq_self)
  from this [of "15 - n"] this [of 0] show ?thesis by (simp add: reg_at_def r_idx_field del: of_nat_diff)
qed

lemma unat_idx_at: "unat (idx_at n) = 15 - n"
  unfolding idx_at_eq by (subst unat_of_nat) simp

lemma idx_at_inj: "n \<le> 15 \<Longrightarrow> k \<le> 15 \<Longrightarrow> idx_at n = idx_at k \<longleftrightarrow> n = k"
  by (metis diff_diff_cancel unat_idx_at)

lemma idx_at_small: "idx_at n < 16"
  using unat_idx_at [of n] by (simp add: word_less_nat_alt)

lemma idx_at_neq: "idx_at n \<noteq> 31" "idx_at n \<noteq> 19"
  using idx_at_small [of n] by auto

lemma allocate_at:
  assumes "gen_at n g" "n \<le> 15"
  obtains g' where "allocate_reg g = (reg_at n, g')" "gen_at (Suc n) g'" "assembler g' = assembler g" "value_to_reg g' = value_to_reg g"
proof (cases "n = 15")
  case True
  then show ?thesis using that [of g] assms by (simp add: allocate_reg_def gen_at_def reg_at_def)
next
  case False
  then have "[1..<16 - n] = [1..<15 - n] @ [15 - n]" using assms(2) upt_Suc_append [of 1 "15 - n"] Suc_diff_le [of n 15] by simp
  then show ?thesis using that [of "g\<lparr>free_regs := map X [1..<15 - n]\<rparr>"] assms False
    by (simp add: allocate_reg_def gen_at_def reg_at_def butlast_append map_butlast [symmetric])
qed

section \<open>Code for expressions\<close>

text \<open>
  What the code for the instructions \<open>code\<close> does when \<open>n\<close> registers are taken: it takes \<open>k\<close> more, changes no other register, no memory
  and no mapping of a value below \<open>lo\<close>, and leaves the value \<open>r e\<close> of \<open>v\<close> in the last register it took.
\<close>

definition emits :: "Instruction list \<Rightarrow> ValueId \<Rightarrow> ValueId \<Rightarrow> nat \<Rightarrow> nat \<Rightarrow> A64CodeGenerator \<Rightarrow> A64CodeGenerator \<Rightarrow> a64_instr list \<Rightarrow> bool" where
  "emits code lo v k n g g' is \<longleftrightarrow>
     emit_instructions code g = Ok g' \<and> gen_at (n + k) g' \<and> map decode (assembler g') = map decode (assembler g) @ map Some is
     \<and> length is \<le> 4 * k \<and> value_to_reg g' v = Some (reg_at (n + k - 1)) \<and> (\<forall>i<lo. value_to_reg g' i = value_to_reg g i)"

definition leaves :: "a64_instr list \<Rightarrow> nat \<Rightarrow> nat \<Rightarrow> a64_machine \<Rightarrow> u64 \<Rightarrow> bool" where
  "leaves is k n st x \<longleftrightarrow> (\<exists>st'. steps is st = Some st' \<and> gpr st' (idx_at (n + k - 1)) = x
     \<and> (\<forall>q. q \<notin> idx_at ` {n..<n + k} \<longrightarrow> gpr st' q = gpr st q) \<and> sp st' = sp st \<and> memory st' = memory st)"

definition compiles :: "Instruction list \<Rightarrow> ValueId \<Rightarrow> ValueId \<Rightarrow> nat \<Rightarrow> (CanonicalEvent \<Rightarrow> u64 outcome) \<Rightarrow> bool" where
  "compiles code lo v k r \<longleftrightarrow> 0 < k \<and> (\<forall>n g. n + k \<le> 16 \<and> gen_at n g \<longrightarrow>
     (\<exists>g' is. emits code lo v k n g g' is \<and>
        (\<forall>e st x. r e = Ok x \<and> event_at (gpr st 19) e (memory st) \<longrightarrow> leaves is k n st x)))"

lemma sets_leaves: "sets is (idx_at n) st x \<Longrightarrow> leaves is 1 n st x"
  by (auto simp: sets_def leaves_def)

lemma emit_result_at:
  assumes "gen_at n g" "n \<le> 15" "\<And>c. map decode (f (reg_at n) c) = map decode c @ map Some is"
  obtains g' where "emit_result i f g = g'" "gen_at (Suc n) g'" "map decode (assembler g') = map decode (assembler g) @ map Some is"
    "value_to_reg g' = (value_to_reg g)(instr_result i \<mapsto> reg_at n)"
proof -
  obtain g1 where "allocate_reg g = (reg_at n, g1)" "gen_at (Suc n) g1" "assembler g1 = assembler g" "value_to_reg g1 = value_to_reg g"
    using allocate_at [OF assms(1,2)] by blast
  then show ?thesis using that [OF refl] assms(3) by (simp add: emit_result_def set_reg_def asm_def gen_at_def)
qed

lemma compiles_single:
  assumes "lo \<le> v" "instr_result i = v"
    and "\<And>g. emit_instruction i g = Ok (emit_result i f g)"
    and "\<And>d. r_idx d \<noteq> 31 \<Longrightarrow> \<exists>is. length is \<le> 4 \<and> (\<forall>c. map decode (f d c) = map decode c @ map Some is) \<and>
      (\<forall>st e x. r e = Ok x \<and> event_at (gpr st 19) e (memory st) \<longrightarrow> sets is (r_idx d) st x)"
  shows "compiles [i] lo v 1 r"
  unfolding compiles_def
proof (intro conjI allI impI, simp, elim conjE)
  fix n g
  assume n: "n + 1 \<le> 16" and g: "gen_at n g"
  obtain "is" where ls: "\<And>c. map decode (f (reg_at n) c) = map decode c @ map Some is"
    "\<And>st e x. r e = Ok x \<Longrightarrow> event_at (gpr st 19) e (memory st) \<Longrightarrow> sets is (idx_at n) st x" and four: "length is \<le> 4"
    using assms(4) [OF idx_at_neq(1)] by blast
  obtain g' where g': "emit_result i f g = g'" "gen_at (Suc n) g'" "map decode (assembler g') = map decode (assembler g) @ map Some is"
    "value_to_reg g' = (value_to_reg g)(instr_result i \<mapsto> reg_at n)"
    using emit_result_at [OF g, of f "is" i] n ls(1) by auto
  have "emits [i] lo v 1 n g g' is" using g' four assms(1-3) by (auto simp: emits_def)
  then show "\<exists>g' is. emits [i] lo v 1 n g g' is \<and>
      (\<forall>e st x. r e = Ok x \<and> event_at (gpr st 19) e (memory st) \<longrightarrow> leaves is 1 n st x)"
    using ls(2) sets_leaves by blast
qed

lemma emit_instructions_append:
  "emit_instructions (c1 @ c2) g = obind (emit_instructions c1 g) (emit_instructions c2)"
  by (induction c1 arbitrary: g) (auto simp: obind_def split: outcome.split)

lemma leaves_seq:
  assumes "leaves is1 k1 n st x" "\<And>st1. event_at (gpr st1 19) e (memory st1) \<Longrightarrow> leaves is2 k2 (n + k1) st1 y"
    and "event_at (gpr st 19) e (memory st)" "0 < k1" "0 < k2" "n + k1 + k2 \<le> 16"
  obtains st' where "steps (is1 @ is2) st = Some st'" "gpr st' (idx_at (n + k1 - 1)) = x" "gpr st' (idx_at (n + k1 + k2 - 1)) = y"
    "\<forall>q. q \<notin> idx_at ` {n..<n + k1 + k2} \<longrightarrow> gpr st' q = gpr st q" "sp st' = sp st" "memory st' = memory st"
proof -
  from assms(1) obtain st1 where s1: "steps is1 st = Some st1" "gpr st1 (idx_at (n + k1 - 1)) = x"
    "\<forall>q. q \<notin> idx_at ` {n..<n + k1} \<longrightarrow> gpr st1 q = gpr st q" "sp st1 = sp st" "memory st1 = memory st"
    by (auto simp: leaves_def)
  have "gpr st1 19 = gpr st 19" using s1(3) idx_at_neq(2) by (metis imageE)
  then obtain st2 where s2: "steps is2 st1 = Some st2" "gpr st2 (idx_at (n + k1 + k2 - 1)) = y"
    "\<forall>q. q \<notin> idx_at ` {n + k1..<n + k1 + k2} \<longrightarrow> gpr st2 q = gpr st1 q" "sp st2 = sp st1" "memory st2 = memory st1"
    using assms(2) [of st1] assms(3) s1(5) by (auto simp: leaves_def)
  have "idx_at (n + k1 - 1) \<notin> idx_at ` {n + k1..<n + k1 + k2}" using assms(4,6) idx_at_inj by auto
  then have "gpr st2 (idx_at (n + k1 - 1)) = x" using s2(3) s1(2) by metis
  moreover have "\<forall>q. q \<notin> idx_at ` {n..<n + k1 + k2} \<longrightarrow> gpr st2 q = gpr st q"
    using s1(3) s2(3) by (auto simp: image_iff)
  ultimately show ?thesis using that [of st2] s1 s2 by (simp add: steps_append)
qed

lemma compilesE:
  assumes "compiles code lo v k r" "n + k \<le> 16" "gen_at n g"
  obtains g' "is" where "emits code lo v k n g g' is"
    "\<And>e st x. r e = Ok x \<Longrightarrow> event_at (gpr st 19) e (memory st) \<Longrightarrow> leaves is k n st x"
  using assms unfolding compiles_def by blast

lemma leaves_binary:
  assumes "\<And>st x. r1 = Ok x \<Longrightarrow> event_at (gpr st 19) e (memory st) \<Longrightarrow> leaves is1 k1 n st x"
    and "\<And>st y. r2 = Ok y \<Longrightarrow> event_at (gpr st 19) e (memory st) \<Longrightarrow> leaves is2 k2 (n + k1) st y"
    and "alu_correct op is3 (idx_at (n + k1 + k2)) (idx_at (n + k1 - 1)) (idx_at (n + k1 + k2 - 1))"
    and "0 < k1" "0 < k2" "n + k1 + k2 \<le> 16" "\<And>x y. r1 = Ok x \<Longrightarrow> r2 = Ok y \<Longrightarrow> truth_values op x y"
    and z: "obind r1 (\<lambda>x. obind r2 (opcode_value op x)) = Ok z" and ev: "event_at (gpr st 19) e (memory st)"
  shows "leaves (is1 @ is2 @ is3) (Suc (k1 + k2)) n st z"
proof -
  let ?n = "n + k1 + k2"
  obtain x y where xy: "r1 = Ok x" "r2 = Ok y" "opcode_value op x y = Ok z" using z by (auto simp: obind_eq_Ok)
  obtain st2 where s2: "steps (is1 @ is2) st = Some st2" "gpr st2 (idx_at (n + k1 - 1)) = x" "gpr st2 (idx_at (n + k1 + k2 - 1)) = y"
    "\<forall>q. q \<notin> idx_at ` {n..<n + k1 + k2} \<longrightarrow> gpr st2 q = gpr st q" "sp st2 = sp st" "memory st2 = memory st"
    using leaves_seq [OF assms(1) [OF xy(1) ev] assms(2) [OF xy(2)] ev assms(4-6)] by blast
  have "sets is3 (idx_at ?n) st2 z"
    using assms(3) s2(2,3) xy assms(7) [OF xy(1,2)] unfolding alu_correct_def by blast
  then obtain st3 where s3: "steps is3 st2 = Some st3" "gpr st3 = (gpr st2)(idx_at ?n := z)" "sp st3 = sp st2" "memory st3 = memory st2"
    by (auto simp: sets_def)
  have "gpr st3 q = gpr st q" if "q \<notin> idx_at ` {n..<n + Suc (k1 + k2)}" for q
    using that s2(4) s3(2) by (auto simp: image_iff)
  moreover have "steps (is1 @ is2 @ is3) st = Some st3"
    using steps_append [of "is1 @ is2" is3 st] s2(1) s3(1) by simp
  ultimately show ?thesis using s2(5,6) s3 unfolding leaves_def by (intro exI [of _ st3]) (simp add: add.assoc)
qed

lemma compiles_binary:
  assumes "compiles c1 lo v1 k1 r1" "compiles c2 mid v2 k2 r2" "lo \<le> mid" "v1 < mid" "mid \<le> v" "emitter op = Some f"
    and tv: "\<And>e x y. r1 e = Ok x \<Longrightarrow> r2 e = Ok y \<Longrightarrow> truth_values op x y"
  shows "compiles ((c1 @ c2) @ [(Instruction_new op [v1, v2] v t NoExtra)\<lparr>instr_id := j\<rparr>]) lo v (Suc (k1 + k2))
    (\<lambda>e. obind (r1 e) (\<lambda>x. obind (r2 e) (opcode_value op x)))"
  unfolding compiles_def
proof (intro conjI allI impI, simp, elim conjE)
  fix n g
  assume n: "n + Suc (k1 + k2) \<le> 16" and g: "gen_at n g"
  let ?i = "(Instruction_new op [v1, v2] v t NoExtra)\<lparr>instr_id := j\<rparr>"
  let ?n = "n + k1 + k2" and ?l = "reg_at (n + k1 - 1)" and ?r = "reg_at (n + k1 + k2 - 1)"
  have k: "0 < k1" "0 < k2" using assms(1,2) by (simp_all add: compiles_def)
  obtain g1 is1 where e1: "emits c1 lo v1 k1 n g g1 is1"
    and l1: "\<And>e st x. r1 e = Ok x \<Longrightarrow> event_at (gpr st 19) e (memory st) \<Longrightarrow> leaves is1 k1 n st x"
    using compilesE [OF assms(1) _ g] n by auto
  obtain g2 is2 where e2: "emits c2 mid v2 k2 (n + k1) g1 g2 is2"
    and l2: "\<And>e st x. r2 e = Ok x \<Longrightarrow> event_at (gpr st 19) e (memory st) \<Longrightarrow> leaves is2 k2 (n + k1) st x"
    using compilesE [OF assms(2), of "n + k1" g1] n e1 by (auto simp: emits_def)
  have regs: "get_reg g2 v1 = ?l" "get_reg g2 v2 = ?r" using e1 e2 assms(4) by (auto simp: emits_def get_reg_def)
  obtain is3 where d3: "\<And>code. map decode (f (reg_at ?n) ?l ?r code) = map decode code @ map Some is3"
    and a3: "alu_correct op is3 (idx_at ?n) (r_idx ?l) (r_idx ?r)" and four: "length is3 \<le> 4"
    using emitter_correct [OF assms(6) idx_at_neq(1) idx_at_neq(1) idx_at_neq(1)] by blast
  obtain g3 where g3: "emit_result ?i (\<lambda>dst. f dst ?l ?r) g2 = g3" "gen_at (Suc ?n) g3"
    "map decode (assembler g3) = map decode (assembler g2) @ map Some is3"
    "value_to_reg g3 = (value_to_reg g2)(instr_result ?i \<mapsto> reg_at ?n)"
    using emit_result_at [of ?n g2 "\<lambda>dst. f dst ?l ?r" is3 ?i] e2 d3 n by (auto simp: emits_def)
  have i: "opcode ?i = op" "operands ?i = [v1, v2]" "instr_result ?i = v" by (simp_all add: Instruction_new_def)
  have "emit_instruction ?i g2 = Ok g3"
    using g3(1) regs i emit_binary_instruction [of ?i f g2] assms(6) by (simp add: emit_binary_def operand_def)
  then have "emits ((c1 @ c2) @ [?i]) lo v (Suc (k1 + k2)) n g g3 (is1 @ is2 @ is3)"
    using e1 e2 g3 i four assms(3,5) by (auto simp: emits_def emit_instructions_append add.assoc)
  moreover have "leaves (is1 @ is2 @ is3) (Suc (k1 + k2)) n st z"
    if "obind (r1 e) (\<lambda>x. obind (r2 e) (opcode_value op x)) = Ok z" "event_at (gpr st 19) e (memory st)" for e st z
    by (rule leaves_binary [OF l1 l2 a3 k _ tv that]) (use n in simp_all)
  ultimately show "\<exists>g' is. emits ((c1 @ c2) @ [?i]) lo v (Suc (k1 + k2)) n g g' is \<and>
      (\<forall>e st x. obind (r1 e) (\<lambda>x. obind (r2 e) (opcode_value op x)) = Ok x \<and> event_at (gpr st 19) e (memory st)
        \<longrightarrow> leaves is (Suc (k1 + k2)) n st x)" by blast
qed

section \<open>Filters\<close>

text \<open>
  What the generator supports: no unary operator and no remainder. The operands of AND and OR have to be truth values, since
  the code combines them bitwise.
\<close>

fun jit_supported :: "Expression \<Rightarrow> bool" where
  "jit_supported (LiteralExpr v ln col) = True"
| "jit_supported (ColumnRefExpr nm ln col) = True"
| "jit_supported (BinaryOpExpr op a b ln col) =
     (op \<noteq> Tok_Percent \<and> (op \<in> {Tok_And, Tok_Or} \<longrightarrow> infer_type a = Ty_I1 \<and> infer_type b = Ty_I1) \<and> jit_supported a \<and> jit_supported b)"
| "jit_supported (UnaryOpExpr op a ln col) = False"
| "jit_supported (FunctionCallExpr nm args ln col) = False"

lemma lowered_emitter: "op \<in> binary_tokens \<Longrightarrow> op \<noteq> Tok_Percent \<Longrightarrow> \<exists>f. emitter (lowered_opcode op ty) = Some f"
  by (cases op) (simp_all add: binary_tokens_def lowered_opcode_def get_arithmetic_opcode_def get_comparison_opcode_def emitter_def)

lemma truth_Ok: "truth p = Ok x \<Longrightarrow> x \<in> {0, 1}"
  by (auto simp: truth_def split: if_splits)

lemma column_type_I1: "resolve_column_info nm = Some (c, t) \<Longrightarrow> t \<noteq> Ty_I1"
  by (auto simp: resolve_column_info_def split: if_splits)

lemma truth_meaning:
  assumes "infer_type ex = Ty_I1" "jit_supported ex" "meaning ex e = Ok x"
  shows "x \<in> {0, 1}"
proof (cases ex)
  case (BinaryOpExpr op a b ln col)
  then have "op \<in> comparison_tokens" using assms(1) by (simp split: if_splits)
  then show ?thesis using assms(3) BinaryOpExpr
    by (auto simp: obind_eq_Ok comparison_tokens_def binary_meaning_def dest!: truth_Ok)
next
  case (ColumnRefExpr nm ln col)
  then show ?thesis using assms(1) column_type_I1 [of nm] by (auto split: option.splits)
qed (use assms in auto)

lemma lowered_truth_values:
  assumes "op \<in> binary_tokens" "op \<in> {Tok_And, Tok_Or} \<longrightarrow> infer_type a = Ty_I1 \<and> infer_type b = Ty_I1" "jit_supported a" "jit_supported b"
    "meaning a e = Ok x" "meaning b e = Ok y"
  shows "truth_values (lowered_opcode op ty) x y"
proof (cases "op \<in> {Tok_And, Tok_Or}")
  case True
  then show ?thesis using assms truth_meaning by (auto simp: truth_values_def)
next
  case False
  then have "lowered_opcode op ty \<notin> {Op_And, Op_Or}"
    using assms(1) by (cases op) (simp_all add: binary_tokens_def lowered_opcode_def get_arithmetic_opcode_def get_comparison_opcode_def)
  then show ?thesis by (simp add: truth_values_def)
qed

lemma compiles_const: "compiles [(ConstOp (u64_const w) v)\<lparr>instr_id := j\<rparr>] v v 1 (\<lambda>e. Ok w)"
proof (rule compiles_single [where f = "\<lambda>dst. mov_x64_imm64 dst w"])
  show "\<exists>is. length is \<le> 4 \<and> (\<forall>c. map decode (mov_x64_imm64 d w c) = map decode c @ map Some is) \<and>
      (\<forall>st e x. Ok w = Ok x \<and> event_at (gpr st 19) e (memory st) \<longrightarrow> sets is (r_idx d) st x)" if "r_idx d \<noteq> 31" for d
    using mov_imm64 [OF that, of w] by blast
qed (simp_all add: ConstOp_def Instruction_new_def u64_const_def choose_opcode_def emit_instruction_def emit_constant_def as_u64_def)

lemma compiles_column:
  assumes "c < 12"
  shows "compiles [(LoadColumnOp (of_nat c) row v t)\<lparr>instr_id := j\<rparr>] v v 1 (\<lambda>e. Ok (load_column_value (of_nat c) e))"
proof (rule compiles_single [where f = "load_field (of_nat c)"])
  show "\<exists>is. length is \<le> 4 \<and> (\<forall>code. map decode (load_field (of_nat c) d code) = map decode code @ map Some is) \<and>
      (\<forall>st e x. Ok (load_column_value (of_nat c) e) = Ok x \<and> event_at (gpr st 19) e (memory st) \<longrightarrow> sets is (r_idx d) st x)"
    if "r_idx d \<noteq> 31" for d
    using load_field_sets [OF assms that] by blast
qed (simp_all add: LoadColumnOp_def Instruction_new_def emit_instruction_def)

lemma meaning_leaf:
  "meaning (LiteralExpr w ln col) = (\<lambda>e. Ok w)"
  "resolve_column nm = Some c \<Longrightarrow> meaning (ColumnRefExpr nm ln col) = (\<lambda>e. Ok (load_column_value (of_nat c) e))"
  by (simp_all add: fun_eq_iff column_value [OF column_range])

lemma filter_compiles_binary:
  assumes l: "lowers_to l b v1 b1 c1" "compiles c1 (next_id b) v1 (expr_nodes l) (meaning l)"
    and r: "lowers_to r b1 v2 b2 c2" "compiles c2 (next_id b1) v2 (expr_nodes r) (meaning r)"
    and ex: "lowerable (BinaryOpExpr op l r ln col)" "jit_supported (BinaryOpExpr op l r ln col)"
      "unat (next_id b) + expr_nodes (BinaryOpExpr op l r ln col) < 2 ^ 32"
  shows "\<exists>v b' code. lowers_to (BinaryOpExpr op l r ln col) b v b' code
    \<and> compiles code (next_id b) v (expr_nodes (BinaryOpExpr op l r ln col)) (meaning (BinaryOpExpr op l r ln col))"
proof -
  let ?op = "lowered_opcode op (operand_type (infer_type l) (infer_type r))"
  have op: "op \<in> binary_tokens" "op \<noteq> Tok_Percent" "op \<in> {Tok_And, Tok_Or} \<longrightarrow> infer_type l = Ty_I1 \<and> infer_type r = Ty_I1"
    "jit_supported l" "jit_supported r" using ex by simp_all
  obtain b' t j where low: "lowers_to (BinaryOpExpr op l r ln col) b (next_id b2) b'
      ((c1 @ c2) @ [(Instruction_new ?op [v1, v2] (next_id b2) t NoExtra)\<lparr>instr_id := j\<rparr>])"
    using lowers_binary_code [OF l(1) r(1) op(1) ex(3)] by blast
  obtain f where f: "emitter ?op = Some f" using lowered_emitter [OF op(1,2)] by blast
  have ids: "next_id b \<le> next_id b1" "v1 < next_id b1" "next_id b1 \<le> next_id b2"
    using l(1) r(1) by (auto simp: lowers_to_def word_le_nat_alt)
  have "compiles ((c1 @ c2) @ [(Instruction_new ?op [v1, v2] (next_id b2) t NoExtra)\<lparr>instr_id := j\<rparr>]) (next_id b) (next_id b2)
      (Suc (expr_nodes l + expr_nodes r)) (\<lambda>e. obind (meaning l e) (\<lambda>x. obind (meaning r e) (opcode_value ?op x)))"
    by (rule compiles_binary [OF l(2) r(2) ids f lowered_truth_values [OF op(1,3-5)]])
  moreover have "(\<lambda>e. obind (meaning l e) (\<lambda>x. obind (meaning r e) (opcode_value ?op x))) = meaning (BinaryOpExpr op l r ln col)"
    by (intro ext) (simp only: meaning_binary opcode_meaning [OF op(1), abs_def])
  ultimately show ?thesis using low unfolding expr_nodes.simps by (intro exI conjI) simp_all
qed

lemma filter_compiles:
  assumes "lowerable ex" "jit_supported ex" "builder_ok b" "unat (next_id b) + expr_nodes ex < 2 ^ 32"
  shows "\<exists>v b' code. lowers_to ex b v b' code \<and> compiles code (next_id b) v (expr_nodes ex) (meaning ex)"
  using assms
proof (induction ex arbitrary: b)
  case (LiteralExpr w ln col)
  have "\<exists>b' j. lowers_to (LiteralExpr w ln col) b (next_id b) b' ([] @ [(ConstOp (u64_const w) (next_id b))\<lparr>instr_id := j\<rparr>])"
    using LiteralExpr
    by (intro lowers_to_emit_code [where mk = "ConstOp (u64_const w)" and code = "[]" and ?b1.0 = b])
      (simp_all add: create_const_u64_def computes_const grows_refl)
  moreover have "compiles [(ConstOp (u64_const w) (next_id b))\<lparr>instr_id := j\<rparr>] (next_id b) (next_id b) 1 (meaning (LiteralExpr w ln col))" for j
    using compiles_const [where w = w and v = "next_id b" and j = j] by (simp only: meaning_leaf)
  ultimately show ?case unfolding expr_nodes.simps append_Nil by blast
next
  case (ColumnRefExpr nm ln col)
  then obtain c where c: "resolve_column nm = Some c" by auto
  obtain row where row: "row_index b = Ok row" using row_index_ok ColumnRefExpr by blast
  let ?t = "ir_type_of (get_column_type c)"
  have "\<exists>b' j. lowers_to (ColumnRefExpr nm ln col) b (next_id b) b' ([] @ [(LoadColumnOp (of_nat c) row (next_id b) ?t)\<lparr>instr_id := j\<rparr>])"
    using ColumnRefExpr c row
    by (intro lowers_to_emit_code [where mk = "\<lambda>res. LoadColumnOp (of_nat c) row res ?t" and code = "[]" and ?b1.0 = b])
      (simp_all add: column_info create_load_column_def computes_load column_value [OF column_range, symmetric] grows_refl)
  moreover have "compiles [(LoadColumnOp (of_nat c) row (next_id b) ?t)\<lparr>instr_id := j\<rparr>] (next_id b) (next_id b) 1 (meaning (ColumnRefExpr nm ln col))" for j
    using compiles_column [OF column_range [OF c]] by (simp only: meaning_leaf(2) [OF c])
  ultimately show ?case unfolding expr_nodes.simps append_Nil by blast
next
  case (BinaryOpExpr op l r ln col)
  have "lowerable l" "jit_supported l" "lowerable r" "jit_supported r" "unat (next_id b) + expr_nodes l < 2 ^ 32"
    using BinaryOpExpr.prems by simp_all
  with BinaryOpExpr.IH(1) BinaryOpExpr.prems(3)
  obtain v1 b1 c1 where l: "lowers_to l b v1 b1 c1" "compiles c1 (next_id b) v1 (expr_nodes l) (meaning l)" by blast
  then have "builder_ok b1" "unat (next_id b1) = unat (next_id b) + expr_nodes l"
    unfolding lowers_to_def grows_def by blast+
  moreover from this have "unat (next_id b1) + expr_nodes r < 2 ^ 32" using BinaryOpExpr.prems(4) by simp
  ultimately
  obtain v2 b2 c2 where r: "lowers_to r b1 v2 b2 c2" "compiles c2 (next_id b1) v2 (expr_nodes r) (meaning r)"
    using BinaryOpExpr.IH(2) \<open>lowerable r\<close> \<open>jit_supported r\<close> by blast
  show ?case by (rule filter_compiles_binary [OF l r]) (use BinaryOpExpr.prems in simp_all)
qed simp_all

section \<open>The frame\<close>

text \<open>
  The saved registers: slot \<open>i\<close> lies \<open>8 * (i + 1)\<close> bytes below the stack pointer \<open>s\<close> at the call.
\<close>

definition below :: "u64 \<Rightarrow> nat \<Rightarrow> u64" where
  "below s k = s - of_nat (8 * k)"

abbreviation slot :: "u64 \<Rightarrow> nat \<Rightarrow> u64" where
  "slot s i \<equiv> below s (Suc i)"

definition saved :: "u64 \<Rightarrow> u64 list \<Rightarrow> a64_machine \<Rightarrow> bool" where
  "saved s vs st \<longleftrightarrow> sp st = below s (length vs) \<and> (\<forall>i<length vs. read_mem 8 (slot s i) st = vs ! i)"

definition frame_byte :: "u64 \<Rightarrow> u64 \<Rightarrow> bool" where
  "frame_byte s x \<longleftrightarrow> unat (s - 1 - x) < 96"

lemma unat_minus_of_nat: "0 < k \<Longrightarrow> k \<le> 96 \<Longrightarrow> unat (- of_nat k :: u64) = 2 ^ 64 - k"
proof -
  assume k: "0 < k" "k \<le> 96"
  have "(- of_nat k :: u64) = of_nat (2 ^ 64 - k)" using k by (simp add: of_nat_diff)
  then show ?thesis using k by (simp only: unat_of_nat) simp
qed

lemma unat_of_nat_small: "k \<le> 4096 \<Longrightarrow> unat (of_nat k :: u64) = k"
  by (subst unat_of_nat) simp

lemma slots_apart:
  assumes "i \<noteq> j" "i < 12" "j < 12"
  shows "apart 8 (slot s i) 8 (slot s j)"
proof -
  have "8 \<le> unat (slot s i + of_nat m - slot s j)" if "m < 8" for m
  proof (cases "i < j")
    case True
    then have "slot s i + of_nat m - slot s j = of_nat (8 * (j - i) + m)" by (simp add: below_def of_nat_diff algebra_simps)
    then have "unat (slot s i + of_nat m - slot s j) = 8 * (j - i) + m"
      using unat_of_nat_small [of "8 * (j - i) + m"] that assms(3) by (simp only:)
    then show ?thesis using True by simp
  next
    case False
    then have "slot s i + of_nat m - slot s j = - of_nat (8 * (i - j) - m)"
      using that assms(1) by (simp add: below_def of_nat_diff algebra_simps)
    then have "unat (slot s i + of_nat m - slot s j) = 2 ^ 64 - (8 * (i - j) - m)"
      using unat_minus_of_nat [of "8 * (i - j) - m"] False that assms(1,2) by (simp only:)
    then show ?thesis using assms(2) by simp
  qed
  then show ?thesis by (simp add: apart_def not_less)
qed

lemma aligned_iff: "(w :: u64) AND 15 = 0 \<longleftrightarrow> 16 dvd uint w"
proof -
  have "w AND 15 = take_bit 4 w" by (simp add: take_bit_eq_mask mask_eq_exp_minus_1)
  moreover have "take_bit 4 w = 0 \<longleftrightarrow> take_bit 4 (uint w) = 0" by (metis unsigned_0 unsigned_take_bit_eq word_uint_eq_iff)
  ultimately show ?thesis by (simp add: take_bit_eq_0_iff)
qed

lemma aligned_slot:
  assumes "s AND 15 = 0" "even k" "k \<le> 12"
  shows "below s k AND 15 = 0"
proof -
  obtain j where j: "k = 2 * j" using assms(2) by blast
  have "unat (of_nat (8 * k) :: u64) = 16 * j" using unat_of_nat_small [of "8 * k"] assms(3) j by simp
  then have "uint (of_nat (8 * k) :: u64) = 16 * int j" by (metis int_ops(3) int_ops(7) of_nat_numeral uint_nat)
  then have "16 dvd (uint s - uint (of_nat (8 * k) :: u64)) mod 2 ^ 64"
    using assms(1) by (simp add: aligned_iff dvd_mod)
  then show ?thesis by (simp add: below_def aligned_iff uint_word_ariths)
qed

lemma frame_slot:
  assumes "\<not> frame_byte s x" "i < 12"
  shows "\<not> unat (x - slot s i) < 8"
proof
  assume "unat (x - slot s i) < 8"
  then obtain m where m: "m < 8" "x - slot s i = of_nat m" by (metis of_nat_unat ucast_id)
  then have "s - 1 - x = of_nat (8 * (i + 1) - 1 - m)" by (simp add: below_def of_nat_diff algebra_simps)
  then have "unat (s - 1 - x) = 8 * (i + 1) - 1 - m" using unat_of_nat_small [of "8 * (i + 1) - 1 - m"] assms(2) by (simp only:) simp
  then show False using assms by (simp add: frame_byte_def)
qed

text \<open>One pair is pushed or popped.\<close>

abbreviation minus_16 :: u32 where "minus_16 \<equiv> take_bit 7 (word_of_int (sint (-16 :: i32) sdiv 8))"
abbreviation plus_16 :: u32 where "plus_16 \<equiv> take_bit 7 (word_of_int (sint (16 :: i32) sdiv 8))"

lemma pair_offsets: "8 * signed_take_bit 6 (uint minus_16) = -16" "8 * signed_take_bit 6 (uint plus_16) = 16"
  by simp_all

lemma below_steps: "below s k + word_of_int (-16) = below s (Suc (Suc k))" "below s (Suc (Suc k)) + 8 = below s (Suc k)"
  "below s (Suc (Suc k)) + 16 = below s k"
  by (simp_all add: below_def algebra_simps)

lemma aligned_saved: "saved s vs st \<Longrightarrow> s AND 15 = 0 \<Longrightarrow> even (length vs) \<Longrightarrow> length vs \<le> 12 \<Longrightarrow> aligned st 31"
  using aligned_slot by (simp add: saved_def aligned_def)

lemma push_pair:
  assumes "saved s vs st" "even (length vs)" "length vs < 12" "s AND 15 = 0" "t \<noteq> 31" "u \<noteq> 31"
  obtains st' where "exec (StpPre t u 31 minus_16) st = Some st'" "saved s (vs @ [gpr st u, gpr st t]) st'" "gpr st' = gpr st"
    "\<forall>x. \<not> frame_byte s x \<longrightarrow> memory st' x = memory st x"
proof -
  let ?k = "length vs"
  define st1 where "st1 = write_mem 8 (slot s (Suc ?k)) (gpr st t) st"
  define st2 where "st2 = write_mem 8 (slot s ?k) (gpr st u) st1"
  have len: "Suc ?k < 12" using assms(2,3) by presburger
  have sp: "sp st = below s ?k" using assms(1) by (simp add: saved_def)
  have "exec (StpPre t u 31 minus_16) st = Some (st2\<lparr>sp := slot s (Suc ?k)\<rparr>)"
    using aligned_saved [OF assms(1,4,2)] assms(3,5,6) unfolding exec.simps pair_offsets
    by (simp add: base_address_def set_base_def reg_def Let_def sp below_steps st1_def st2_def del: of_int_minus of_int_numeral)
  moreover have "read_mem 8 (slot s i) (st2\<lparr>sp := slot s (Suc ?k)\<rparr>) = (vs @ [gpr st u, gpr st t]) ! i" if i: "i < ?k + 2" for i
  proof -
    consider "i < ?k" | "i = ?k" | "i = Suc ?k" using i by linarith
    then have "read_mem 8 (slot s i) st2 = (vs @ [gpr st u, gpr st t]) ! i"
    proof cases
      case 1
      then show ?thesis using slots_apart [of i ?k s] slots_apart [of i "Suc ?k" s] len assms(1)
        by (simp add: st2_def st1_def read_write_apart saved_def nth_append)
    next
      case 2
      then show ?thesis by (simp add: st2_def read_write_same)
    next
      case 3
      then show ?thesis using slots_apart [of "Suc ?k" ?k s] len
        by (simp add: st2_def st1_def read_write_apart read_write_same nth_append)
    qed
    then show ?thesis by (simp add: read_mem_def)
  qed
  moreover have "\<forall>x. \<not> frame_byte s x \<longrightarrow> memory st2 x = memory st x"
    using frame_slot len by (auto simp: write_mem_def st1_def st2_def)
  ultimately show ?thesis using that [of "st2\<lparr>sp := slot s (Suc ?k)\<rparr>"] by (simp add: saved_def st1_def st2_def)
qed

lemma pop_pair:
  assumes "saved s (vs @ [vu, vt]) st" "even (length vs)" "length vs < 12" "s AND 15 = 0" "t \<noteq> 31" "u \<noteq> 31" "t \<noteq> u"
  obtains st' where "exec (LdpPost t u 31 plus_16) st = Some st'" "saved s vs st'" "gpr st' = (gpr st)(t := vt, u := vu)"
    "memory st' = memory st"
proof -
  let ?k = "length vs"
  have len: "Suc (Suc ?k) \<le> 12" using assms(2,3) by presburger
  have sp: "sp st = below s (Suc (Suc ?k))" using assms(1) by (simp add: saved_def)
  have rd: "read_mem 8 (slot s ?k) st = vu" "read_mem 8 (slot s (Suc ?k)) st = vt"
    using assms(1) by (auto simp: saved_def nth_append dest: spec [of _ ?k] spec [of _ "Suc ?k"])
  have "exec (LdpPost t u 31 plus_16) st = Some (st\<lparr>gpr := (gpr st)(t := vt, u := vu), sp := below s ?k\<rparr>)"
    using aligned_saved [OF assms(1,4)] assms(2,5,6) len rd unfolding exec.simps pair_offsets
    by (simp add: base_address_def set_base_def set_gpr_def Let_def sp below_steps del: of_int_minus of_int_numeral)
  moreover have "saved s vs (st\<lparr>gpr := (gpr st)(t := vt, u := vu), sp := below s ?k\<rparr>)"
    using assms(1) by (auto simp: saved_def read_mem_def nth_append)
  ultimately show ?thesis using that by simp
qed

subsection \<open>Prologue and epilogue\<close>

definition prologue :: "a64_instr list" where
  "prologue = [StpPre 29 30 31 minus_16, Alu ORR 29 31 31, StpPre 19 20 31 minus_16, StpPre 21 22 31 minus_16,
     StpPre 23 24 31 minus_16, StpPre 25 26 31 minus_16, StpPre 27 28 31 minus_16, Alu ORR 19 31 0]"

definition epilogue :: "a64_instr list" where
  "epilogue = [LdpPost 27 28 31 plus_16, LdpPost 25 26 31 plus_16, LdpPost 23 24 31 plus_16, LdpPost 21 22 31 plus_16,
     LdpPost 19 20 31 plus_16, LdpPost 29 30 31 plus_16]"

lemma frame_decode:
  "map decode (assembler (emit_prologue g)) = map decode (assembler g) @ map Some prologue"
  "map decode (assembler (emit_epilogue g)) = map decode (assembler g) @ map Some (epilogue @ [Return 30])"
proof -
  show "map decode (assembler (emit_prologue g)) = map decode (assembler g) @ map Some prologue"
    "map decode (assembler (emit_epilogue g)) = map decode (assembler g) @ map Some (epilogue @ [Return 30])"
    by (simp_all add: emit_prologue_def emit_epilogue_def asm_def prologue_def epilogue_def encodings r_idx_field SP_def)
qed

definition saved_regs :: "a64_machine \<Rightarrow> u64 list" where
  "saved_regs st = map (gpr st) [30, 29, 20, 19, 22, 21, 24, 23, 26, 25, 28, 27]"

lemma saved_gpr: "saved s vs (st\<lparr>gpr := f\<rparr>) = saved s vs st"
  by (simp add: saved_def read_mem_def)

lemma saved_cong: "sp st' = sp st \<Longrightarrow> memory st' = memory st \<Longrightarrow> saved s vs st' = saved s vs st"
  by (simp add: saved_def read_mem_def)

lemma prologue_steps:
  assumes "sp st AND 15 = 0"
  obtains st' where "steps prologue st = Some st'" "saved (sp st) (saved_regs st) st'" "gpr st' = (gpr st)(29 := 0, 19 := gpr st 0)"
    "\<forall>x. \<not> frame_byte (sp st) x \<longrightarrow> memory st' x = memory st x"
proof -
  let ?s = "sp st" and ?f = "(gpr st)(29 := 0)"
  have "saved ?s [] st" by (simp add: saved_def below_def)
  from push_pair [OF this _ _ assms, of 29 30]
  obtain a where a: "exec (StpPre 29 30 31 minus_16) st = Some a" "saved ?s [gpr st 30, gpr st 29] a" "gpr a = gpr st"
    "\<forall>x. \<not> frame_byte ?s x \<longrightarrow> memory a x = memory st x" by auto
  define b where "b = a\<lparr>gpr := ?f\<rparr>"
  have b: "exec (Alu ORR 29 31 31) a = Some b" by (simp add: b_def a(3) reg_def set_gpr_def set_flags_def alu_value_def)
  have "saved ?s [gpr st 30, gpr st 29] b" using a(2) by (simp add: b_def saved_gpr)
  from push_pair [OF this _ _ assms, of 19 20]
  obtain c where c: "exec (StpPre 19 20 31 minus_16) b = Some c" "saved ?s [gpr st 30, gpr st 29, gpr st 20, gpr st 19] c" "gpr c = ?f"
    "\<forall>x. \<not> frame_byte ?s x \<longrightarrow> memory c x = memory b x" by (auto simp: b_def)
  from push_pair [OF c(2) _ _ assms, of 21 22]
  obtain d where d: "exec (StpPre 21 22 31 minus_16) c = Some d"
    "saved ?s [gpr st 30, gpr st 29, gpr st 20, gpr st 19, gpr st 22, gpr st 21] d" "gpr d = ?f"
    "\<forall>x. \<not> frame_byte ?s x \<longrightarrow> memory d x = memory c x" by (auto simp: c(3))
  from push_pair [OF d(2) _ _ assms, of 23 24]
  obtain e where e: "exec (StpPre 23 24 31 minus_16) d = Some e"
    "saved ?s [gpr st 30, gpr st 29, gpr st 20, gpr st 19, gpr st 22, gpr st 21, gpr st 24, gpr st 23] e" "gpr e = ?f"
    "\<forall>x. \<not> frame_byte ?s x \<longrightarrow> memory e x = memory d x" by (auto simp: d(3))
  from push_pair [OF e(2) _ _ assms, of 25 26]
  obtain f where f: "exec (StpPre 25 26 31 minus_16) e = Some f"
    "saved ?s [gpr st 30, gpr st 29, gpr st 20, gpr st 19, gpr st 22, gpr st 21, gpr st 24, gpr st 23, gpr st 26, gpr st 25] f" "gpr f = ?f"
    "\<forall>x. \<not> frame_byte ?s x \<longrightarrow> memory f x = memory e x" by (auto simp: e(3))
  from push_pair [OF f(2) _ _ assms, of 27 28]
  obtain h where h: "exec (StpPre 27 28 31 minus_16) f = Some h" "saved ?s (saved_regs st) h" "gpr h = ?f"
    "\<forall>x. \<not> frame_byte ?s x \<longrightarrow> memory h x = memory f x" by (auto simp: f(3) saved_regs_def)
  have "exec (Alu ORR 19 31 0) h = Some (h\<lparr>gpr := ?f(19 := gpr st 0)\<rparr>)"
    by (simp add: h(3) reg_def set_gpr_def set_flags_def alu_value_def)
  then have "steps prologue st = Some (h\<lparr>gpr := ?f(19 := gpr st 0)\<rparr>)"
    by (simp only: prologue_def steps.simps option.case a(1) b c(1) d(1) e(1) f(1) h(1))
  then show ?thesis using that h(2) a(4) c(4) d(4) e(4) f(4) h(4) by (simp add: saved_gpr b_def)
qed

text \<open>The registers that a function has to preserve.\<close>

definition callee_saved :: "u32 set" where
  "callee_saved = {19, 20, 21, 22, 23, 24, 25, 26, 27, 28, 29, 30}"

lemma epilogue_steps:
  assumes "saved s (saved_regs st0) st" "s AND 15 = 0"
  obtains st' where "steps epilogue st = Some st'" "sp st' = s" "memory st' = memory st"
    "\<forall>r. gpr st' r = (if r \<in> callee_saved then gpr st0 r else gpr st r)"
proof -
  let ?g = "gpr st0"
  from assms(1) have "saved s ([?g 30, ?g 29, ?g 20, ?g 19, ?g 22, ?g 21, ?g 24, ?g 23, ?g 26, ?g 25] @ [?g 28, ?g 27]) st"
    by (simp add: saved_regs_def)
  from pop_pair [OF this _ _ assms(2), of 27 28]
  obtain a where a: "exec (LdpPost 27 28 31 plus_16) st = Some a" "gpr a = (gpr st)(27 := ?g 27, 28 := ?g 28)" "memory a = memory st"
    "saved s ([?g 30, ?g 29, ?g 20, ?g 19, ?g 22, ?g 21, ?g 24, ?g 23] @ [?g 26, ?g 25]) a" by auto
  from pop_pair [OF a(4) _ _ assms(2), of 25 26]
  obtain b where b: "exec (LdpPost 25 26 31 plus_16) a = Some b" "gpr b = (gpr a)(25 := ?g 25, 26 := ?g 26)" "memory b = memory st"
    "saved s ([?g 30, ?g 29, ?g 20, ?g 19, ?g 22, ?g 21] @ [?g 24, ?g 23]) b" by (auto simp: a(3))
  from pop_pair [OF b(4) _ _ assms(2), of 23 24]
  obtain c where c: "exec (LdpPost 23 24 31 plus_16) b = Some c" "gpr c = (gpr b)(23 := ?g 23, 24 := ?g 24)" "memory c = memory st"
    "saved s ([?g 30, ?g 29, ?g 20, ?g 19] @ [?g 22, ?g 21]) c" by (auto simp: b(3))
  from pop_pair [OF c(4) _ _ assms(2), of 21 22]
  obtain d where d: "exec (LdpPost 21 22 31 plus_16) c = Some d" "gpr d = (gpr c)(21 := ?g 21, 22 := ?g 22)" "memory d = memory st"
    "saved s ([?g 30, ?g 29] @ [?g 20, ?g 19]) d" by (auto simp: c(3))
  from pop_pair [OF d(4) _ _ assms(2), of 19 20]
  obtain e where e: "exec (LdpPost 19 20 31 plus_16) d = Some e" "gpr e = (gpr d)(19 := ?g 19, 20 := ?g 20)" "memory e = memory st"
    "saved s ([] @ [?g 30, ?g 29]) e" by (auto simp: d(3))
  from pop_pair [OF e(4) _ _ assms(2), of 29 30]
  obtain f where f: "exec (LdpPost 29 30 31 plus_16) e = Some f" "gpr f = (gpr e)(29 := ?g 29, 30 := ?g 30)" "memory f = memory st"
    "saved s [] f" by (auto simp: e(3))
  have "steps epilogue st = Some f"
    by (simp only: epilogue_def steps.simps option.case a(1) b(1) c(1) d(1) e(1) f(1))
  then show ?thesis using that [of f] f by (simp add: saved_def below_def callee_saved_def f(2) e(2) d(2) c(2) b(2) a(2))
qed

section \<open>Whole functions\<close>

lemma fetch_words: "fetch (code_bytes code @ pad) = code @ fetch pad"
proof (induction code)
  case (Cons w code)
  obtain a b c d where w: "le_bytes 4 w = [a, b, c, d]"
    by (auto simp: le_bytes_Suc numeral_eq_Suc)
  then have "le_word [a, b, c, d] = w" using le_word_le_bytes_full [of 4 w] by simp
  then show ?case using Cons w by (simp add: code_bytes_def)
qed (simp add: code_bytes_def)

lemma length_code_bytes: "length (code_bytes code) = 4 * length code"
  by (induction code) (simp_all add: code_bytes_def)

text \<open>The code of the last instruction: the value moves to X0 and the frame is removed.\<close>

lemma emit_return_decode:
  assumes "value_to_reg g v = Some (reg_at k)" "v \<noteq> 0"
  shows "\<exists>mv. map decode (assembler (emit_return ((ReturnOp v)\<lparr>instr_id := j\<rparr>) g)) =
      map decode (assembler g) @ map Some (mv @ epilogue @ [Return 30]) \<and> length mv \<le> 1 \<and>
    (\<forall>st. \<exists>st'. steps mv st = Some st' \<and> gpr st' 0 = gpr st (idx_at k) \<and> sp st' = sp st \<and> memory st' = memory st)"
proof -
  have ret: "emit_return ((ReturnOp v)\<lparr>instr_id := j\<rparr>) g =
      emit_epilogue (if reg_at k \<noteq> X 0 then asm (mov_x64_x64 (X 0) (reg_at k)) g else g)"
    using assms by (simp add: emit_return_def ReturnOp_def Instruction_new_def get_reg_def Let_def)
  show ?thesis
  proof (cases "reg_at k = X 0")
    case True
    then show ?thesis
      by (intro exI [of _ "[]"]) (simp add: ret frame_decode r_idx_field)
  next
    case False
    have "r_idx (X 0) = 0" by (simp add: r_idx_field)
    then show ?thesis using False idx_at_neq(1) [of k]
      by (intro exI [of _ "[Alu ORR 0 31 (idx_at k)]"])
        (simp add: ret frame_decode asm_def encodings set_gpr_def reg_def set_flags_def alu_value_def)
  qed
qed

text \<open>What the caller has to provide: an aligned stack whose next 96 bytes do not hold the event.\<close>

definition call_ready :: "CanonicalEvent \<Rightarrow> a64_machine \<Rightarrow> bool" where
  "call_ready e st \<longleftrightarrow> sp st AND 15 = 0 \<and> event_at (gpr st 0) e (memory st)
     \<and> (\<forall>i<56. \<not> frame_byte (sp st) (gpr st 0 + of_nat i))"

text \<open>What it can rely on: the value in X0, and everything else that the calling convention protects.\<close>

definition returns_value :: "u64 \<Rightarrow> a64_machine \<Rightarrow> (u64 \<times> a64_machine) option \<Rightarrow> bool" where
  "returns_value v st r \<longleftrightarrow> (\<exists>st'. r = Some (gpr st 30, st') \<and> gpr st' 0 = v \<and> sp st' = sp st
     \<and> (\<forall>q\<in>callee_saved. gpr st' q = gpr st q) \<and> (\<forall>x. \<not> frame_byte (sp st) x \<longrightarrow> memory st' x = memory st x))"

lemma run_function:
  assumes "call_ready e st" "\<And>st1. event_at (gpr st1 19) e (memory st1) \<Longrightarrow> leaves is k 0 st1 v"
    and "\<forall>st. \<exists>st'. steps mv st = Some st' \<and> gpr st' 0 = gpr st (idx_at (k - 1)) \<and> sp st' = sp st \<and> memory st' = memory st"
  shows "returns_value v st (run (map Some (prologue @ is @ mv @ epilogue @ [Return 30]) @ tail) st)"
proof -
  have al: "sp st AND 15 = 0" and ev: "event_at (gpr st 0) e (memory st)" using assms(1) by (simp_all add: call_ready_def)
  obtain st1 where s1: "steps prologue st = Some st1" "saved (sp st) (saved_regs st) st1" "gpr st1 = (gpr st)(29 := 0, 19 := gpr st 0)"
    "\<forall>x. \<not> frame_byte (sp st) x \<longrightarrow> memory st1 x = memory st x" using prologue_steps [OF al] by blast
  have "event_at (gpr st1 19) e (memory st1)"
    using assms(1) s1(3,4) by (auto simp: call_ready_def event_at_def)
  then obtain st2 where s2: "steps is st1 = Some st2" "gpr st2 (idx_at (k - 1)) = v" "sp st2 = sp st1" "memory st2 = memory st1"
    using assms(2) by (auto simp: leaves_def)
  obtain st3 where s3: "steps mv st2 = Some st3" "gpr st3 0 = v" "sp st3 = sp st1" "memory st3 = memory st1"
    using assms(3) s2 by metis
  have "saved (sp st) (saved_regs st) st3" using s1(2) saved_cong [OF s3(3,4)] by simp
  from epilogue_steps [OF this al] obtain st4 where s4: "steps epilogue st3 = Some st4" "sp st4 = sp st" "memory st4 = memory st3"
    "\<forall>r. gpr st4 r = (if r \<in> callee_saved then gpr st r else gpr st3 r)" by blast
  have "steps (prologue @ is @ mv @ epilogue) st = Some st4" by (simp add: steps_append s1(1) s2(1) s3(1) s4(1))
  from run_steps [OF this, of "Some (Return 30) # tail"]
  have "run (map Some (prologue @ is @ mv @ epilogue @ [Return 30]) @ tail) st = Some (reg st4 30, st4)" by simp
  then show ?thesis using s1(4) s3 s4 by (simp add: returns_value_def reg_def callee_saved_def)
qed

lemma generate_function:
  assumes "length (blocks f) = 1" "instructions (blocks f ! 0) = code @ [(ReturnOp v)\<lparr>instr_id := j\<rparr>]" "v \<noteq> 0"
    and "compiles code lo v k r" "k \<le> 16"
  shows "\<exists>bs g'. generate (Some f) g = Ok (bs, g') \<and> bs \<noteq> [] \<and> length bs \<le> 16 * k + 92 \<and>
    (\<forall>pad e st x. r e = Ok x \<and> call_ready e st \<longrightarrow> returns_value x st (call (bs @ pad) st))"
proof -
  define g0 where "g0 = emit_prologue (g\<lparr>assembler := [], value_to_reg := Map.empty, free_regs := map X [1..<16], reg_info := analyze_function f\<rparr>)"
  let ?ret = "(ReturnOp v)\<lparr>instr_id := j\<rparr>"
  have a0: "map decode (assembler g0) = map Some prologue"
    unfolding g0_def frame_decode by simp
  have "gen_at 0 g0" by (simp add: g0_def emit_prologue_def asm_def gen_at_def)
  from compilesE [OF assms(4) _ this] assms(5) obtain g1 "is" where e1: "emits code lo v k 0 g0 g1 is"
    and l1: "\<And>e st x. r e = Ok x \<Longrightarrow> event_at (gpr st 19) e (memory st) \<Longrightarrow> leaves is k 0 st x" by auto
  obtain mv where mv: "map decode (assembler (emit_return ?ret g1)) = map decode (assembler g1) @ map Some (mv @ epilogue @ [Return 30])"
    "\<forall>st. \<exists>st'. steps mv st = Some st' \<and> gpr st' 0 = gpr st (idx_at (k - 1)) \<and> sp st' = sp st \<and> memory st' = memory st"
    and one: "length mv \<le> 1" using emit_return_decode [of g1 v "k - 1" j] e1 assms(3) by (auto simp: emits_def)
  have "emit_instruction ?ret g1 = Ok (emit_return ?ret g1)"
    by (simp add: emit_instruction_def ReturnOp_def Instruction_new_def)
  moreover have "blocks f = [blocks f ! 0]" using assms(1) by (metis length_0_conv length_Suc_conv nth_Cons_0 One_nat_def)
  ultimately have "emit_blocks (blocks f) g0 = Ok (emit_return ?ret g1)"
    using e1 assms(2) emit_instructions_append [of code "[?ret]" g0] by (metis (no_types) emit_blocks.simps emit_instructions.simps obind_simps(1) emits_def)
  then have gen: "generate (Some f) g = Ok (code_bytes (assembler (emit_epilogue (emit_return ?ret g1))), emit_epilogue (emit_return ?ret g1))"
    by (simp add: generate_def g0_def Let_def)
  have words: "map decode (assembler (emit_epilogue (emit_return ?ret g1))) =
      map Some (prologue @ is @ mv @ epilogue @ [Return 30]) @ map Some (epilogue @ [Return 30])"
    using e1 a0 by (simp add: frame_decode mv(1) emits_def)
  have "length (assembler (emit_epilogue (emit_return ?ret g1))) = 22 + length is + length mv"
    using arg_cong [OF words, of length] by (simp add: prologue_def epilogue_def)
  with one e1 have "length (code_bytes (assembler (emit_epilogue (emit_return ?ret g1)))) \<le> 16 * k + 92"
    "code_bytes (assembler (emit_epilogue (emit_return ?ret g1))) \<noteq> []"
    by (auto simp: length_code_bytes emits_def simp flip: length_0_conv)
  moreover from words have "returns_value x st (call (code_bytes (assembler (emit_epilogue (emit_return ?ret g1))) @ pad) st)"
    if "r e = Ok x" "call_ready e st" for pad e st x
    using run_function [OF that(2) l1 [OF that(1)] mv(2)] by (simp add: call_def fetch_words)
  ultimately show ?thesis using gen by blast
qed

text \<open>
  The code of a filter: the query is built, the function is compiled, the reference interpreter returns the meaning of the filter on
  every event, and so does a call of the generated bytes, whatever follows them in memory.
\<close>

lemma filter_code_correct:
  assumes "where_expr q = Some ex" "aggregate_call q = None" "lowerable ex" "jit_supported ex" "expr_nodes ex \<le> 16"
  obtains f where "build_from_query (Some q) = Ok (Some f)" "length (blocks f) = 1"
    "\<And>e ist. \<exists>ist'. ri_execute (Some f) (Some e) ist = Some (meaning ex e, ist')"
    "\<And>g. \<exists>code g'. generate (Some f) g = Ok (code, g') \<and> code \<noteq> [] \<and> length code \<le> 348 \<and>
      (\<forall>pad e st v. meaning ex e = Ok v \<and> call_ready e st \<longrightarrow> returns_value v st (call (code @ pad) st))"
proof -
  have "unat (next_id query_builder) + expr_nodes ex < 2 ^ 32" using assms(5) by (simp add: query_builder_state)
  with filter_compiles [OF assms(3,4) query_builder_state(1)] obtain v b code where l: "lowers_to ex query_builder v b code"
    and c: "compiles code (next_id query_builder) v (expr_nodes ex) (meaning ex)" by blast
  obtain f j where f: "build_from_query (Some q) = Ok (Some f)" "entry_block f = Some 0" "length (blocks f) = 1"
    "instructions (blocks f ! 0) = code @ [(ReturnOp v)\<lparr>instr_id := j\<rparr>]" "v \<noteq> 0"
    using built_query [OF assms(1,2) l] by blast
  have "\<exists>ist'. ri_execute (Some f) (Some e) ist = Some (meaning ex e, ist')" for e ist
    using run_straight_line [OF f(2) _ f(4) _ f(5)] l f(3) unfolding lowers_to_def by fastforce
  moreover have "\<exists>code g'. generate (Some f) g = Ok (code, g') \<and> code \<noteq> [] \<and> length code \<le> 348 \<and>
      (\<forall>pad e st v. meaning ex e = Ok v \<and> call_ready e st \<longrightarrow> returns_value v st (call (code @ pad) st))" for g
    using generate_function [OF f(3-5) c assms(5), of g] assms(5) by fastforce
  ultimately show ?thesis using that f(1,3) by blast
qed

text \<open>A filter and an event that passes it, for concrete calls: price 200000 and quantity 40.\<close>

definition jit_sample :: Expression where
  "jit_sample = BinaryOpExpr Tok_And
     (BinaryOpExpr Tok_Greater (ColumnRefExpr ''price'' 1 7) (LiteralExpr 100000 1 15) 1 13)
     (BinaryOpExpr Tok_LessEqual (BinaryOpExpr Tok_Star (ColumnRefExpr ''qty'' 1 22) (LiteralExpr 100 1 28) 1 26)
       (LiteralExpr 5000 1 34) 1 32) 1 18"

definition jit_event :: CanonicalEvent where
  "jit_event = make_trade 1 2 3 4 Bid 200000 40 5 6 7"

definition jit_state :: a64_machine where
  "jit_state = \<lparr>gpr = (\<lambda>r. if r = 0 then 0x1000 else 0x4000), sp = 0x8000, flag_n = False, flag_z = False, flag_c = False, flag_v = False,
     memory = (\<lambda>x. if x < 0x1038 then event_image jit_event ! unat (x - 0x1000) else 0)\<rparr>"

lemma jit_state_ready: "call_ready jit_event jit_state"
proof -
  have n: "(0x1000 :: u64) + of_nat i = of_nat (0x1000 + i)" for i by simp
  have lt: "(of_nat (0x1000 + i) :: u64) < 0x1038" if "i < 56" for i
    using that unat_of_nat_small [of i] by (simp add: word_less_nat_alt unat_word_ariths)
  have "\<not> frame_byte 0x8000 (0x1000 + of_nat i)" if "i < 56" for i
  proof -
    have "(0x8000 :: u64) - 1 - (0x1000 + of_nat i) = of_nat (0x6FFF - i)" using that by (simp add: of_nat_diff)
    moreover have "unat (of_nat (0x6FFF - i) :: u64) = 0x6FFF - i" by (subst unat_of_nat) simp
    ultimately show ?thesis using that by (simp only: frame_byte_def)
  qed
  moreover have "event_at 0x1000 jit_event (memory jit_state)"
    unfolding event_at_def
  proof (intro allI impI)
    fix i :: nat
    assume "i < length (event_image jit_event)"
    then have i: "i < 56" by simp
    have "unat (of_nat i :: u64) = i" using i by (subst unat_of_nat) simp
    then show "memory jit_state (0x1000 + of_nat i) = event_image jit_event ! i"
      using lt [OF i] by (simp add: jit_state_def n [symmetric])
  qed
  ultimately show ?thesis by (simp add: call_ready_def jit_state_def)
qed

lemma jit_sample_facts:
  "lowerable jit_sample" "jit_supported jit_sample" "expr_nodes jit_sample \<le> 16" "meaning jit_sample jit_event = Ok 1"
proof -
  have c: "resolve_column ''price'' = Some 7" "resolve_column ''qty'' = Some 8"
    unfolding resolve_column_iff names_column_def column_names_def by simp_all
  then show "lowerable jit_sample" by (simp add: jit_sample_def binary_tokens_def)
  show "jit_supported jit_sample" "expr_nodes jit_sample \<le> 16" by (simp_all add: jit_sample_def comparison_tokens_def)
  show "meaning jit_sample jit_event = Ok 1"
    using c by (simp add: jit_sample_def jit_event_def make_trade_def binary_meaning_def column_of_def operand_type_def column_info
        get_column_type_def ir_type_of_def as_int_def exact_def in_type_def comparison_tokens_def truth_def)
qed

end
