(* ===== verification/X86_Assembler.thy ===== *)
theory X86_Assembler
  imports VT_Prelude
begin

unbundle bit_operations_syntax

text \<open>
  The x86-64 assembler (\<^verbatim>\<open>jit/x86_assembler.hpp\<close>): every operation appends the bytes of one instruction to the code.
  \<open>x86_decode\<close> is the decoder of the architecture manual for these instructions (prefixes, opcode, ModRM, SIB, displacement and
  immediate); it is a specification and models no code of the repository. The theorems say that decoding what an operation
  emitted gives the instruction it is named after on the given registers, and nothing of what follows it.
\<close>

section \<open>The assembler\<close>

type_synonym X86Reg = u8
type_synonym x86_condition = u8

abbreviation (input) RAX :: X86Reg where "RAX \<equiv> 0"
abbreviation (input) RCX :: X86Reg where "RCX \<equiv> 1"
abbreviation (input) RDX :: X86Reg where "RDX \<equiv> 2"
abbreviation (input) RBX :: X86Reg where "RBX \<equiv> 3"
abbreviation (input) RSP :: X86Reg where "RSP \<equiv> 4"
abbreviation (input) RBP :: X86Reg where "RBP \<equiv> 5"
abbreviation (input) RSI :: X86Reg where "RSI \<equiv> 6"
abbreviation (input) RDI :: X86Reg where "RDI \<equiv> 7"

abbreviation (input) Cond_B :: x86_condition where "Cond_B \<equiv> 2"
abbreviation (input) Cond_AE :: x86_condition where "Cond_AE \<equiv> 3"
abbreviation (input) Cond_E :: x86_condition where "Cond_E \<equiv> 4"
abbreviation (input) Cond_NE :: x86_condition where "Cond_NE \<equiv> 5"
abbreviation (input) Cond_BE :: x86_condition where "Cond_BE \<equiv> 6"
abbreviation (input) Cond_A :: x86_condition where "Cond_A \<equiv> 7"

type_synonym X86Assembler = bytes

definition x86_emit :: "u8 \<Rightarrow> X86Assembler \<Rightarrow> X86Assembler" where
  "x86_emit b code = code @ [b]"

text \<open>The \<open>count\<close> bytes behind a pointer.\<close>

definition emit_bytes :: "bytes \<Rightarrow> nat \<Rightarrow> X86Assembler \<Rightarrow> X86Assembler outcome" where
  "emit_bytes bs count code = (if count \<le> length bs then Ok (code @ take count bs) else Fault)"

definition emit16 :: "u16 \<Rightarrow> X86Assembler \<Rightarrow> X86Assembler" where
  "emit16 v code = code @ [ucast v, ucast (drop_bit 8 v)]"

definition emit32 :: "u32 \<Rightarrow> X86Assembler \<Rightarrow> X86Assembler" where
  "emit32 v code = code @ [ucast v, ucast (drop_bit 8 v), ucast (drop_bit 16 v), ucast (drop_bit 24 v)]"

definition emit64 :: "u64 \<Rightarrow> X86Assembler \<Rightarrow> X86Assembler" where
  "emit64 v code = emit32 (ucast (drop_bit 32 v)) (emit32 (ucast v) code)"

definition reg_index :: "X86Reg \<Rightarrow> u8" where
  "reg_index r = r AND 7"

definition is_extended :: "X86Reg \<Rightarrow> bool" where
  "is_extended r \<longleftrightarrow> 8 \<le> r"

definition modrm :: "u8 \<Rightarrow> u8 \<Rightarrow> u8 \<Rightarrow> u8" where
  "modrm md rg rm = push_bit 6 (md AND 3) OR push_bit 3 (rg AND 7) OR (rm AND 7)"

definition sib :: "u8 \<Rightarrow> u8 \<Rightarrow> u8 \<Rightarrow> u8" where
  "sib scale index base = push_bit 6 (scale AND 3) OR push_bit 3 (index AND 7) OR (base AND 7)"

text \<open>Fixed prefixes.\<close>

definition x86_rex :: "X86Assembler \<Rightarrow> X86Assembler" where "x86_rex = x86_emit 0x40"

definition rex_w :: "X86Assembler \<Rightarrow> X86Assembler" where "rex_w = x86_emit 0x48"

definition rex_r :: "X86Assembler \<Rightarrow> X86Assembler" where "rex_r = x86_emit 0x44"

definition rex_x :: "X86Assembler \<Rightarrow> X86Assembler" where "rex_x = x86_emit 0x42"

definition rex_b :: "X86Assembler \<Rightarrow> X86Assembler" where "rex_b = x86_emit 0x41"

definition rex_wr :: "X86Assembler \<Rightarrow> X86Assembler" where "rex_wr = x86_emit 0x4C"

definition rex_wb :: "X86Assembler \<Rightarrow> X86Assembler" where "rex_wb = x86_emit 0x49"

definition rex_wrb :: "X86Assembler \<Rightarrow> X86Assembler" where "rex_wrb = x86_emit 0x4D"

text \<open>The prefix with its R and B bits.\<close>

definition rex_prefix :: "u8 \<Rightarrow> X86Reg \<Rightarrow> X86Reg \<Rightarrow> u8" where
  "rex_prefix p rg rm = p OR (if is_extended rg then 4 else 0) OR (if is_extended rm then 1 else 0)"

definition emit_rex64 :: "X86Reg \<Rightarrow> X86Reg \<Rightarrow> X86Assembler \<Rightarrow> X86Assembler" where
  "emit_rex64 rg rm = x86_emit (rex_prefix 0x48 rg rm)"

definition emit_rex64_b :: "X86Reg \<Rightarrow> X86Assembler \<Rightarrow> X86Assembler" where
  "emit_rex64_b b = x86_emit (0x48 OR (if is_extended b then 1 else 0))"

definition emit_rex64_r :: "X86Reg \<Rightarrow> X86Assembler \<Rightarrow> X86Assembler" where
  "emit_rex64_r r = x86_emit (0x48 OR (if is_extended r then 4 else 0))"

definition emit_rex32 :: "X86Reg \<Rightarrow> X86Reg \<Rightarrow> X86Assembler \<Rightarrow> X86Assembler" where
  "emit_rex32 rg rm code = (let p = rex_prefix 0x40 rg rm in if p \<noteq> 0x40 then x86_emit p code else code)"

subsection \<open>Memory operands\<close>

text \<open>ModRM, a SIB byte for RSP and R12, and the displacement in the shortest form that holds it.\<close>

definition emit_mem_operand :: "X86Reg \<Rightarrow> X86Reg \<Rightarrow> i32 \<Rightarrow> X86Assembler \<Rightarrow> X86Assembler" where
  "emit_mem_operand reg_op base offset code =
     (let r = reg_index reg_op; b = reg_index base; needs_sib = (b = 4); is_bp = (b = 5);
          with_sib = (\<lambda>code. if needs_sib then x86_emit (sib 0 4 b) code else code) in
      if offset = 0 \<and> \<not> is_bp then with_sib (x86_emit (modrm 0 r b) code)
      else if - 128 \<le> sint offset \<and> sint offset \<le> 127
      then x86_emit (ucast offset) (with_sib (x86_emit (modrm 1 r b) code))
      else emit32 offset (with_sib (x86_emit (modrm 2 r b) code)))"

subsection \<open>Moves\<close>

definition mov_r64_imm64 :: "X86Reg \<Rightarrow> u64 \<Rightarrow> X86Assembler \<Rightarrow> X86Assembler" where
  "mov_r64_imm64 r imm code =
     emit64 imm (x86_emit (0xB8 OR reg_index r) (x86_emit (0x48 OR (if is_extended r then 1 else 0)) code))"

definition mov_r32_imm32 :: "X86Reg \<Rightarrow> u32 \<Rightarrow> X86Assembler \<Rightarrow> X86Assembler" where
  "mov_r32_imm32 r imm code =
     emit32 imm (x86_emit (0xB8 OR reg_index r) (if is_extended r then x86_emit 0x41 code else code))"

text \<open>The operations on two registers with the destination in the r/m field.\<close>

definition rr64 :: "u8 \<Rightarrow> X86Reg \<Rightarrow> X86Reg \<Rightarrow> X86Assembler \<Rightarrow> X86Assembler" where
  "rr64 opc dst src code = x86_emit (modrm 3 (reg_index src) (reg_index dst)) (x86_emit opc (emit_rex64 src dst code))"

definition mov_r64_r64 :: "X86Reg \<Rightarrow> X86Reg \<Rightarrow> X86Assembler \<Rightarrow> X86Assembler" where
  "mov_r64_r64 dst src = rr64 0x89 dst src"

definition mov_r32_r32 :: "X86Reg \<Rightarrow> X86Reg \<Rightarrow> X86Assembler \<Rightarrow> X86Assembler" where
  "mov_r32_r32 dst src code = x86_emit (modrm 3 (reg_index src) (reg_index dst)) (x86_emit 0x89 (emit_rex32 src dst code))"

definition mov_r64_mem :: "X86Reg \<Rightarrow> X86Reg \<Rightarrow> i32 \<Rightarrow> X86Assembler \<Rightarrow> X86Assembler" where
  "mov_r64_mem dst base offset code = emit_mem_operand dst base offset (x86_emit 0x8B (emit_rex64 dst base code))"

definition mov_mem_r64 :: "X86Reg \<Rightarrow> X86Reg \<Rightarrow> i32 \<Rightarrow> X86Assembler \<Rightarrow> X86Assembler" where
  "mov_mem_r64 base src offset code = emit_mem_operand src base offset (x86_emit 0x89 (emit_rex64 src base code))"

subsection \<open>Arithmetic\<close>

definition add_r64_imm32 :: "X86Reg \<Rightarrow> i32 \<Rightarrow> X86Assembler \<Rightarrow> X86Assembler" where
  "add_r64_imm32 dst imm code = emit32 imm (x86_emit (modrm 3 0 (reg_index dst)) (x86_emit 0x81 (emit_rex64_b dst code)))"

definition add_r64_r64 :: "X86Reg \<Rightarrow> X86Reg \<Rightarrow> X86Assembler \<Rightarrow> X86Assembler" where
  "add_r64_r64 dst src = rr64 0x01 dst src"

definition sub_r64_r64 :: "X86Reg \<Rightarrow> X86Reg \<Rightarrow> X86Assembler \<Rightarrow> X86Assembler" where
  "sub_r64_r64 dst src = rr64 0x29 dst src"

definition imul_r64_r64 :: "X86Reg \<Rightarrow> X86Reg \<Rightarrow> X86Assembler \<Rightarrow> X86Assembler" where
  "imul_r64_r64 dst src code =
     x86_emit (modrm 3 (reg_index dst) (reg_index src)) (x86_emit 0xAF (x86_emit 0x0F (emit_rex64 dst src code)))"

definition xor_r64_r64 :: "X86Reg \<Rightarrow> X86Reg \<Rightarrow> X86Assembler \<Rightarrow> X86Assembler" where
  "xor_r64_r64 dst src = rr64 0x31 dst src"

definition and_r64_r64 :: "X86Reg \<Rightarrow> X86Reg \<Rightarrow> X86Assembler \<Rightarrow> X86Assembler" where
  "and_r64_r64 dst src = rr64 0x21 dst src"

definition or_r64_r64 :: "X86Reg \<Rightarrow> X86Reg \<Rightarrow> X86Assembler \<Rightarrow> X86Assembler" where
  "or_r64_r64 dst src = rr64 0x09 dst src"

definition cmp_r64_r64 :: "X86Reg \<Rightarrow> X86Reg \<Rightarrow> X86Assembler \<Rightarrow> X86Assembler" where
  "cmp_r64_r64 a b = rr64 0x39 a b"

definition test_r64_r64 :: "X86Reg \<Rightarrow> X86Reg \<Rightarrow> X86Assembler \<Rightarrow> X86Assembler" where
  "test_r64_r64 a b = rr64 0x85 a b"

subsection \<open>Control flow and stack\<close>

definition jmp_rel32 :: "i32 \<Rightarrow> X86Assembler \<Rightarrow> X86Assembler" where
  "jmp_rel32 offset code = emit32 offset (x86_emit 0xE9 code)"

definition jcc_rel32 :: "x86_condition \<Rightarrow> i32 \<Rightarrow> X86Assembler \<Rightarrow> X86Assembler" where
  "jcc_rel32 cond offset code = emit32 offset (x86_emit (0x80 OR cond) (x86_emit 0x0F code))"

definition jmp_r64 :: "X86Reg \<Rightarrow> X86Assembler \<Rightarrow> X86Assembler" where
  "jmp_r64 target code =
     x86_emit (modrm 3 4 (reg_index target)) (x86_emit 0xFF (if is_extended target then x86_emit 0x41 code else code))"

definition call_r64 :: "X86Reg \<Rightarrow> X86Assembler \<Rightarrow> X86Assembler" where
  "call_r64 target code =
     x86_emit (modrm 3 2 (reg_index target)) (x86_emit 0xFF (if is_extended target then x86_emit 0x41 code else code))"

definition x86_ret :: "X86Assembler \<Rightarrow> X86Assembler" where
  "x86_ret = x86_emit 0xC3"

definition x86_nop :: "X86Assembler \<Rightarrow> X86Assembler" where
  "x86_nop = x86_emit 0x90"

definition push_r64 :: "X86Reg \<Rightarrow> X86Assembler \<Rightarrow> X86Assembler" where
  "push_r64 r code = x86_emit (0x50 OR reg_index r) (if is_extended r then x86_emit 0x41 code else code)"

definition pop_r64 :: "X86Reg \<Rightarrow> X86Assembler \<Rightarrow> X86Assembler" where
  "pop_r64 r code = x86_emit (0x58 OR reg_index r) (if is_extended r then x86_emit 0x41 code else code)"

subsection \<open>Conditions and vectors\<close>

definition setcc :: "x86_condition \<Rightarrow> X86Reg \<Rightarrow> X86Assembler \<Rightarrow> X86Assembler" where
  "setcc cond dst code =
     (let code = (if is_extended dst \<or> 4 \<le> dst then x86_emit (0x40 OR (if is_extended dst then 1 else 0)) code else code) in
      x86_emit (modrm 3 0 (reg_index dst)) (x86_emit (0x90 OR cond) (x86_emit 0x0F code)))"

definition cmovcc_r64_r64 :: "x86_condition \<Rightarrow> X86Reg \<Rightarrow> X86Reg \<Rightarrow> X86Assembler \<Rightarrow> X86Assembler" where
  "cmovcc_r64_r64 cond dst src code =
     x86_emit (modrm 3 (reg_index dst) (reg_index src)) (x86_emit (0x40 OR cond) (x86_emit 0x0F (emit_rex64 dst src code)))"

definition simd_rex :: "X86Reg \<Rightarrow> X86Reg \<Rightarrow> X86Assembler \<Rightarrow> X86Assembler" where
  "simd_rex rg rm code = (if is_extended rg \<or> is_extended rm then x86_emit (rex_prefix 0x40 rg rm) code else code)"

definition pxor_xmm_xmm :: "X86Reg \<Rightarrow> X86Reg \<Rightarrow> X86Assembler \<Rightarrow> X86Assembler" where
  "pxor_xmm_xmm dst src code =
     x86_emit (modrm 3 (reg_index dst) (reg_index src)) (x86_emit 0xEF (x86_emit 0x0F (simd_rex dst src (x86_emit 0x66 code))))"

definition movdqu_xmm_mem :: "X86Reg \<Rightarrow> X86Reg \<Rightarrow> i32 \<Rightarrow> X86Assembler \<Rightarrow> X86Assembler" where
  "movdqu_xmm_mem dst base offset code =
     emit_mem_operand dst base offset (x86_emit 0x6F (x86_emit 0x0F (simd_rex dst base (x86_emit 0xF3 code))))"

definition movdqu_mem_xmm :: "X86Reg \<Rightarrow> X86Reg \<Rightarrow> i32 \<Rightarrow> X86Assembler \<Rightarrow> X86Assembler" where
  "movdqu_mem_xmm base src offset code =
     emit_mem_operand src base offset (x86_emit 0x7F (x86_emit 0x0F (simd_rex src base (x86_emit 0xF3 code))))"

subsection \<open>Patching\<close>

text \<open>The index is not checked.\<close>

definition patch32 :: "nat \<Rightarrow> u32 \<Rightarrow> X86Assembler \<Rightarrow> X86Assembler outcome" where
  "patch32 offset v code =
     (if offset + 3 < length code
      then Ok (code[offset := ucast v, offset + 1 := ucast (drop_bit 8 v),
                    offset + 2 := ucast (drop_bit 16 v), offset + 3 := ucast (drop_bit 24 v)])
      else Fault)"

section \<open>The instruction set\<close>

datatype x86_alu = XAdd | XOr | XAnd | XSub | XXor | XCmp | XTest | XMov

datatype x86_instr =
    MovImm64 u8 u64
  | MovImm32 u8 u32  \<comment> \<open>clears the upper half of the register\<close>
  | Alu64 x86_alu u8 u8  \<comment> \<open>destination, source\<close>
  | Mov32 u8 u8
  | Load64 u8 u8 i32  \<comment> \<open>destination, base, displacement\<close>
  | Store64 u8 i32 u8  \<comment> \<open>base, displacement, source\<close>
  | AddImm32 u8 i32
  | Imul64 u8 u8
  | Jmp i32
  | Jcc u8 i32
  | JmpReg u8
  | CallReg u8
  | Push u8
  | Pop u8
  | Setcc u8 u8
  | Cmov u8 u8 u8
  | Pxor u8 u8
  | LoadXmm u8 u8 i32
  | StoreXmm u8 i32 u8
  | XRet
  | XNop

text \<open>Fields of the ModRM byte; a register number is three bits of it and one bit of the prefix.\<close>

definition mod_of :: "u8 \<Rightarrow> u8" where "mod_of m = drop_bit 6 m"
definition reg_of :: "u8 \<Rightarrow> u8" where "reg_of m = take_bit 3 (drop_bit 3 m)"
definition rm_of :: "u8 \<Rightarrow> u8" where "rm_of m = take_bit 3 m"

definition ext :: "bool \<Rightarrow> u8 \<Rightarrow> u8" where
  "ext b r = (if b then 8 OR r else r)"

fun imm32 :: "bytes \<Rightarrow> (u32 \<times> bytes) option" where
  "imm32 (a # b # c # d # bs) = Some (le_word [a, b, c, d], bs)"
| "imm32 _ = None"

fun imm64 :: "bytes \<Rightarrow> (u64 \<times> bytes) option" where
  "imm64 (a # b # c # d # e # f # g # h # bs) = Some (le_word [a, b, c, d, e, f, g, h], bs)"
| "imm64 _ = None"

text \<open>A memory operand with a base register: base, displacement and what follows; no index register, no RIP-relative form.\<close>

definition mem_base :: "bool \<Rightarrow> u8 \<Rightarrow> bytes \<Rightarrow> (u8 \<times> bytes) option" where
  "mem_base b m bs =
     (if rm_of m = 4
      then (case bs of [] \<Rightarrow> None | s # bs \<Rightarrow> if reg_of s = 4 \<and> \<not> (mod_of m = 0 \<and> rm_of s = 5) then Some (ext b (rm_of s), bs) else None)
      else if mod_of m = 0 \<and> rm_of m = 5 then None
      else Some (ext b (rm_of m), bs))"

definition mem_operand :: "bool \<Rightarrow> u8 \<Rightarrow> bytes \<Rightarrow> (u8 \<times> i32 \<times> bytes) option" where
  "mem_operand b m bs =
     (case mem_base b m bs of
        None \<Rightarrow> None
      | Some (base, bs) \<Rightarrow>
          if mod_of m = 0 then Some (base, 0, bs)
          else if mod_of m = 1 then (case bs of [] \<Rightarrow> None | d # bs \<Rightarrow> Some (base, scast d, bs))
          else if mod_of m = 2 then map_option (\<lambda>(d, bs). (base, d, bs)) (imm32 bs)
          else None)"

definition alu_of :: "u8 \<Rightarrow> x86_alu option" where
  "alu_of opc =
     (if opc = 0x01 then Some XAdd else if opc = 0x09 then Some XOr else if opc = 0x21 then Some XAnd
      else if opc = 0x29 then Some XSub else if opc = 0x31 then Some XXor else if opc = 0x39 then Some XCmp
      else if opc = 0x85 then Some XTest else if opc = 0x89 then Some XMov else None)"

text \<open>Two-byte opcodes; \<open>leg\<close> is the mandatory prefix, \<open>rex\<close> the REX prefix, if any.\<close>

definition decode_0f :: "u8 option \<Rightarrow> u8 option \<Rightarrow> bytes \<Rightarrow> (x86_instr \<times> bytes) option" where
  "decode_0f leg rex bs =
     (let p = case_option 0 id rex; w = bit p 3; r = bit p 2; b = bit p 0 in
      case bs of
        opc # m # bs \<Rightarrow>
          if leg = None \<and> opc = 0xAF \<and> w \<and> mod_of m = 3 then Some (Imul64 (ext r (reg_of m)) (ext b (rm_of m)), bs)
          else if leg = None \<and> opc AND 0xF0 = 0x40 \<and> w \<and> mod_of m = 3
          then Some (Cmov (opc AND 15) (ext r (reg_of m)) (ext b (rm_of m)), bs)
          else if leg = None \<and> opc AND 0xF0 = 0x80 \<and> rex = None
          then map_option (\<lambda>(d, bs). (Jcc (opc AND 15) d, bs)) (imm32 (m # bs))
          else if leg = None \<and> opc AND 0xF0 = 0x90 \<and> mod_of m = 3 \<and> (rex = None \<longrightarrow> rm_of m < 4)
          then Some (Setcc (opc AND 15) (ext b (rm_of m)), bs)
          else if leg = Some 0x66 \<and> opc = 0xEF \<and> mod_of m = 3 then Some (Pxor (ext r (reg_of m)) (ext b (rm_of m)), bs)
          else if leg = Some 0xF3 \<and> opc = 0x6F
          then map_option (\<lambda>(base, d, bs). (LoadXmm (ext r (reg_of m)) base d, bs)) (mem_operand b m bs)
          else if leg = Some 0xF3 \<and> opc = 0x7F
          then map_option (\<lambda>(base, d, bs). (StoreXmm base d (ext r (reg_of m)), bs)) (mem_operand b m bs)
          else None
      | _ \<Rightarrow> None)"

text \<open>One-byte opcodes with a ModRM byte.\<close>

definition decode_modrm :: "u8 option \<Rightarrow> u8 \<Rightarrow> u8 \<Rightarrow> bytes \<Rightarrow> (x86_instr \<times> bytes) option" where
  "decode_modrm rex opc m bs =
     (let p = case_option 0 id rex; w = bit p 3; r = bit p 2; b = bit p 0 in
      if opc = 0x81 \<and> w \<and> mod_of m = 3 \<and> reg_of m = 0 then map_option (\<lambda>(d, bs). (AddImm32 (ext b (rm_of m)) d, bs)) (imm32 bs)
      else if opc = 0x8B \<and> w then map_option (\<lambda>(base, d, bs). (Load64 (ext r (reg_of m)) base d, bs)) (mem_operand b m bs)
      else if opc = 0x89 \<and> w \<and> mod_of m \<noteq> 3
      then map_option (\<lambda>(base, d, bs). (Store64 base d (ext r (reg_of m)), bs)) (mem_operand b m bs)
      else if opc = 0x89 \<and> \<not> w \<and> mod_of m = 3 then Some (Mov32 (ext b (rm_of m)) (ext r (reg_of m)), bs)
      else if opc = 0xFF \<and> mod_of m = 3 \<and> reg_of m = 4 then Some (JmpReg (ext b (rm_of m)), bs)
      else if opc = 0xFF \<and> mod_of m = 3 \<and> reg_of m = 2 then Some (CallReg (ext b (rm_of m)), bs)
      else if w \<and> mod_of m = 3 then map_option (\<lambda>a. (Alu64 a (ext b (rm_of m)) (ext r (reg_of m)), bs)) (alu_of opc)
      else None)"

definition decode_opcode :: "u8 option \<Rightarrow> u8 option \<Rightarrow> bytes \<Rightarrow> (x86_instr \<times> bytes) option" where
  "decode_opcode leg rex bs =
     (let p = case_option 0 id rex; w = bit p 3; b = bit p 0 in
      case bs of
        [] \<Rightarrow> None
      | opc # bs \<Rightarrow>
          if opc = 0x0F then decode_0f leg rex bs
          else if leg \<noteq> None then None
          else if opc AND 0xF8 = 0xB8 \<and> w then map_option (\<lambda>(v, bs). (MovImm64 (ext b (opc AND 7)) v, bs)) (imm64 bs)
          else if opc AND 0xF8 = 0xB8 then map_option (\<lambda>(v, bs). (MovImm32 (ext b (opc AND 7)) v, bs)) (imm32 bs)
          else if opc AND 0xF8 = 0x50 then Some (Push (ext b (opc AND 7)), bs)
          else if opc AND 0xF8 = 0x58 then Some (Pop (ext b (opc AND 7)), bs)
          else if opc = 0xE9 then map_option (\<lambda>(d, bs). (Jmp d, bs)) (imm32 bs)
          else if opc = 0xC3 then Some (XRet, bs)
          else if opc = 0x90 \<and> \<not> b then Some (XNop, bs)
          else (case bs of [] \<Rightarrow> None | m # bs \<Rightarrow> decode_modrm rex opc m bs))"

text \<open>A REX prefix whose X bit is clear.\<close>

definition decode_rex :: "u8 option \<Rightarrow> bytes \<Rightarrow> (x86_instr \<times> bytes) option" where
  "decode_rex leg bs =
     (case bs of
        [] \<Rightarrow> None
      | p # bs' \<Rightarrow> if p AND 0xF2 = 0x40 then decode_opcode leg (Some p) bs' else decode_opcode leg None bs)"

definition x86_decode :: "bytes \<Rightarrow> (x86_instr \<times> bytes) option" where
  "x86_decode bs =
     (case bs of
        [] \<Rightarrow> None
      | p # bs' \<Rightarrow> if p = 0x66 \<or> p = 0xF3 then decode_rex (Some p) bs' else decode_rex None bs)"

section \<open>Fields\<close>

named_theorems x86_fields \<open>what the decoder reads from the bytes the assembler writes\<close>

lemma and_low: "(w :: u8) AND 3 = take_bit 2 w" "w AND 7 = take_bit 3 w"
  by (simp_all add: take_bit_eq_mask mask_eq_exp_minus_1)

lemma modrm_fields [x86_fields]: "mod_of (modrm md r m) = md AND 3" "reg_of (modrm md r m) = r AND 7" "rm_of (modrm md r m) = m AND 7"
  "reg_of (sib md r m) = r AND 7" "rm_of (sib md r m) = m AND 7"
  unfolding mod_of_def reg_of_def rm_of_def modrm_def sib_def and_low
  by (rule bit_word_eqI, auto simp: bit_simps)+

lemma sixteen:
  "r < (16 :: u8) \<Longrightarrow> r = 0 \<or> r = 1 \<or> r = 2 \<or> r = 3 \<or> r = 4 \<or> r = 5 \<or> r = 6 \<or> r = 7 \<or> r = 8 \<or> r = 9 \<or> r = 10 \<or> r = 11 \<or> r = 12 \<or> r = 13 \<or> r = 14 \<or> r = 15"
  unfolding word_unat_eq_iff word_less_nat_alt by simp presburger

lemma index_fields [x86_fields]:
  "r < 16 \<Longrightarrow> ext (is_extended r) (reg_index r) = r" "r < 16 \<Longrightarrow> reg_index r AND 7 = reg_index r"
  "r < 16 \<Longrightarrow> (0xB8 OR reg_index r) AND 0xF8 = 0xB8" "r < 16 \<Longrightarrow> (0xB8 OR reg_index r) AND 7 = reg_index r"
  "r < 16 \<Longrightarrow> (0x50 OR reg_index r) AND 0xF8 = 0x50" "r < 16 \<Longrightarrow> (0x50 OR reg_index r) AND 7 = reg_index r"
  "r < 16 \<Longrightarrow> (0x58 OR reg_index r) AND 0xF8 = 0x58" "r < 16 \<Longrightarrow> (0x58 OR reg_index r) AND 7 = reg_index r"
  "r < 16 \<Longrightarrow> \<not> is_extended r \<Longrightarrow> reg_index r < 4 \<longleftrightarrow> \<not> 4 \<le> r"
  unfolding ext_def reg_index_def is_extended_def
  by (drule sixteen; elim disjE; simp add: word_le_nat_alt word_less_nat_alt)+

lemma not_extended: "r < 16 \<Longrightarrow> \<not> is_extended r \<Longrightarrow> reg_index r = r"
  unfolding reg_index_def is_extended_def by (drule sixteen; elim disjE; simp add: word_le_nat_alt)

lemma condition_fields [x86_fields]:
  "c < 16 \<Longrightarrow> (0x80 OR c) AND 0xF0 = (0x80 :: u8)" "c < 16 \<Longrightarrow> (0x80 OR c) AND 15 = (c :: u8)"
  "c < 16 \<Longrightarrow> (0x90 OR c) AND 0xF0 = (0x90 :: u8)" "c < 16 \<Longrightarrow> (0x90 OR c) AND 15 = (c :: u8)"
  "c < 16 \<Longrightarrow> (0x40 OR c) AND 0xF0 = (0x40 :: u8)" "c < 16 \<Longrightarrow> (0x40 OR c) AND 15 = (c :: u8)"
  "c < 16 \<Longrightarrow> 0x80 OR c \<noteq> (0xAF :: u8)" "c < 16 \<Longrightarrow> 0x90 OR c \<noteq> (0xAF :: u8)" "c < 16 \<Longrightarrow> 0x40 OR c \<noteq> (0xAF :: u8)"
  by (drule sixteen; elim disjE; simp)+

lemma rex_prefix_cases:
  "rex_prefix 0x48 a b = (if is_extended a then (if is_extended b then 0x4D else 0x4C) else if is_extended b then 0x49 else 0x48)"
  "rex_prefix 0x40 a b = (if is_extended a then (if is_extended b then 0x45 else 0x44) else if is_extended b then 0x41 else 0x40)"
  by (simp_all add: rex_prefix_def)

lemma le_word_split [x86_fields]:
  "le_word [ucast (v :: u32), ucast (drop_bit 8 v), ucast (drop_bit 16 v), ucast (drop_bit 24 v)] = v"
proof -
  have "le_bytes 4 v = [ucast v, ucast (drop_bit 8 v), ucast (drop_bit 16 v), ucast (drop_bit 24 v)]"
    by (simp add: le_bytes_def upt_rec [of _ 4])
  then have "le_word [ucast v, ucast (drop_bit 8 v), ucast (drop_bit 16 v), ucast (drop_bit 24 v)] = take_bit 32 v"
    using le_word_le_bytes [of 4 v] by (simp del: le_word.simps)
  then show ?thesis by (simp add: take_bit_word_eq_self)
qed

lemma le_word_split_64 [x86_fields]:
  "le_word [ucast (ucast (v :: u64) :: u32), ucast (drop_bit 8 (ucast v :: u32)), ucast (drop_bit 16 (ucast v :: u32)),
     ucast (drop_bit 24 (ucast v :: u32)), ucast (ucast (drop_bit 32 v) :: u32), ucast (drop_bit 8 (ucast (drop_bit 32 v) :: u32)),
     ucast (drop_bit 16 (ucast (drop_bit 32 v) :: u32)), ucast (drop_bit 24 (ucast (drop_bit 32 v) :: u32))] = v" (is "le_word ?bs = _")
proof -
  have "le_bytes 8 v = ?bs"
    by (simp add: le_bytes_def upt_rec [of _ 8]) (auto intro!: bit_word_eqI simp: bit_simps)
  then have "le_word ?bs = take_bit 64 v" using le_word_le_bytes [of 8 v] by (simp del: le_word.simps)
  then show ?thesis by (simp add: take_bit_word_eq_self)
qed

section \<open>What is emitted\<close>

named_theorems x86_emits \<open>the instruction that each operation emits\<close>

text \<open>The operation appends bytes that decode to the instruction, whatever follows them.\<close>

definition emits :: "(X86Assembler \<Rightarrow> X86Assembler) \<Rightarrow> x86_instr \<Rightarrow> bool" where
  "emits f i \<longleftrightarrow> (\<forall>code. f code = code @ f []) \<and> (\<forall>tail. x86_decode (f [] @ tail) = Some (i, tail))"

lemmas x86_decoding = x86_decode_def decode_rex_def decode_opcode_def decode_modrm_def decode_0f_def Let_def

lemma emits_rr64:
  assumes "alu_of opc = Some a" "d < 16" "s < 16"
  shows "emits (rr64 opc d s) (Alu64 a d s)"
  using assms index_fields(1) [of d] index_fields(1) [of s]
  by (cases "is_extended d"; cases "is_extended s")
     (auto simp: emits_def rr64_def emit_rex64_def x86_emit_def x86_decoding rex_prefix_cases alu_of_def x86_fields bit_simps split: if_splits)

lemma emits_alu [x86_emits]:
  assumes "d < 16" "s < 16"
  shows "emits (mov_r64_r64 d s) (Alu64 XMov d s)" "emits (add_r64_r64 d s) (Alu64 XAdd d s)" "emits (sub_r64_r64 d s) (Alu64 XSub d s)"
    "emits (xor_r64_r64 d s) (Alu64 XXor d s)" "emits (and_r64_r64 d s) (Alu64 XAnd d s)" "emits (or_r64_r64 d s) (Alu64 XOr d s)"
    "emits (cmp_r64_r64 d s) (Alu64 XCmp d s)" "emits (test_r64_r64 d s) (Alu64 XTest d s)"
  unfolding mov_r64_r64_def add_r64_r64_def sub_r64_r64_def xor_r64_r64_def and_r64_r64_def or_r64_r64_def cmp_r64_r64_def test_r64_r64_def
  using assms by (auto intro!: emits_rr64 simp: alu_of_def)

lemma first_bytes [x86_fields]:
  "r < 16 \<Longrightarrow> 0xB8 OR reg_index r \<noteq> 0x0F" "r < 16 \<Longrightarrow> 0xB8 OR reg_index r \<noteq> 0x66" "r < 16 \<Longrightarrow> 0xB8 OR reg_index r \<noteq> 0xF3"
  "r < 16 \<Longrightarrow> (0xB8 OR reg_index r) AND 0xF2 \<noteq> 0x40"
  "r < 16 \<Longrightarrow> 0x50 OR reg_index r \<noteq> 0x0F" "r < 16 \<Longrightarrow> 0x50 OR reg_index r \<noteq> 0x66" "r < 16 \<Longrightarrow> 0x50 OR reg_index r \<noteq> 0xF3"
  "r < 16 \<Longrightarrow> (0x50 OR reg_index r) AND 0xF2 \<noteq> 0x40"
  "r < 16 \<Longrightarrow> 0x58 OR reg_index r \<noteq> 0x0F" "r < 16 \<Longrightarrow> 0x58 OR reg_index r \<noteq> 0x66" "r < 16 \<Longrightarrow> 0x58 OR reg_index r \<noteq> 0xF3"
  "r < 16 \<Longrightarrow> (0x58 OR reg_index r) AND 0xF2 \<noteq> 0x40"
  unfolding reg_index_def by (drule sixteen; elim disjE; simp)+

lemmas x86_appends = x86_emit_def emit32_def emit64_def emit_rex64_def emit_rex64_b_def emit_rex32_def simd_rex_def

lemma emits_imm [x86_emits]:
  assumes "r < 16"
  shows "emits (mov_r64_imm64 r v) (MovImm64 r v)" "emits (mov_r32_imm32 r w) (MovImm32 r w)" "emits (add_r64_imm32 r w) (AddImm32 r w)"
  using assms index_fields(1) [OF assms]
  by (cases "is_extended r"; simp add: emits_def mov_r64_imm64_def mov_r32_imm32_def add_r64_imm32_def x86_appends x86_decoding x86_fields bit_simps
      del: le_word.simps)+

lemma emits_stack [x86_emits]:
  assumes "r < 16"
  shows "emits (push_r64 r) (Push r)" "emits (pop_r64 r) (Pop r)"
  using assms index_fields(1) [OF assms]
  by (cases "is_extended r"; simp add: emits_def push_r64_def pop_r64_def x86_emit_def x86_decode_def decode_rex_def decode_opcode_def x86_fields)+

lemma decode_indirect:
  "x86_decode (0xFF # m # tail) = decode_modrm None 0xFF m tail" "x86_decode (0x41 # 0xFF # m # tail) = decode_modrm (Some 0x41) 0xFF m tail"
  by (simp_all add: x86_decode_def decode_rex_def decode_opcode_def)

lemma decode_modrm_indirect:
  assumes "r < 16"
  shows "is_extended r \<Longrightarrow> decode_modrm (Some 0x41) 0xFF (modrm 3 4 (reg_index r)) tail = Some (JmpReg r, tail)"
    "is_extended r \<Longrightarrow> decode_modrm (Some 0x41) 0xFF (modrm 3 2 (reg_index r)) tail = Some (CallReg r, tail)"
    "\<not> is_extended r \<Longrightarrow> decode_modrm None 0xFF (modrm 3 4 (reg_index r)) tail = Some (JmpReg r, tail)"
    "\<not> is_extended r \<Longrightarrow> decode_modrm None 0xFF (modrm 3 2 (reg_index r)) tail = Some (CallReg r, tail)"
  using assms index_fields(1) [of r] by (simp_all add: decode_modrm_def modrm_fields index_fields(2))

lemma indirect_bytes:
  "jmp_r64 r code = code @ (if is_extended r then [0x41] else []) @ [0xFF, modrm 3 4 (reg_index r)]"
  "call_r64 r code = code @ (if is_extended r then [0x41] else []) @ [0xFF, modrm 3 2 (reg_index r)]"
  by (simp_all add: jmp_r64_def call_r64_def x86_emit_def)

lemma emits_indirect [x86_emits]:
  assumes "r < 16"
  shows "emits (jmp_r64 r) (JmpReg r)" "emits (call_r64 r) (CallReg r)"
  unfolding emits_def indirect_bytes using assms
  by (cases "is_extended r"; simp add: decode_indirect decode_modrm_indirect)+

lemma emits_jumps [x86_emits]:
  "emits (jmp_rel32 off) (Jmp off)" "c < 16 \<Longrightarrow> emits (jcc_rel32 c off) (Jcc c off)" "emits x86_ret XRet" "emits x86_nop XNop"
  by (simp_all add: emits_def jmp_rel32_def jcc_rel32_def x86_ret_def x86_nop_def x86_appends x86_decoding x86_fields bit_simps
      del: le_word.simps)

lemma decode_two_byte:
  "x86_decode (0x0F # bs) = decode_0f None None bs"
  "p \<in> {0x40, 0x41, 0x44, 0x45, 0x48, 0x49, 0x4C, 0x4D} \<Longrightarrow> x86_decode (p # 0x0F # bs) = decode_0f None (Some p) bs"
  by (auto simp: x86_decode_def decode_rex_def decode_opcode_def)

lemma decode_conditional:
  assumes "c < 16" "mod_of m = 3"
  shows "(rex = None \<longrightarrow> rm_of m < 4) \<Longrightarrow> decode_0f None rex ((0x90 OR c) # m # bs) = Some (Setcc c (ext (bit (case_option 0 id rex) 0) (rm_of m)), bs)"
    "bit p 3 \<Longrightarrow> decode_0f None (Some p) ((0x40 OR c) # m # bs) = Some (Cmov c (ext (bit p 2) (reg_of m)) (ext (bit p 0) (rm_of m)), bs)"
  using assms condition_fields [OF assms(1)] by (simp_all add: decode_0f_def)

lemma emits_setcc [x86_emits]:
  assumes "c < 16" "d < 16"
  shows "emits (setcc c d) (Setcc c d)"
proof -
  note i = index_fields(1) [OF assms(2)] index_fields(2) [OF assms(2)]
  have four: "is_extended d \<or> 4 \<le> d \<longleftrightarrow> \<not> (reg_index d < 4 \<and> \<not> is_extended d)"
    using index_fields(9) [OF assms(2)] by blast
  show ?thesis
    unfolding emits_def setcc_def four using assms(1) i
    by (cases "is_extended d"; cases "reg_index d < 4")
       (simp_all add: x86_emit_def decode_two_byte decode_conditional modrm_fields)
qed

lemma emits_cmov [x86_emits]:
  assumes "c < 16" "d < 16" "s < 16"
  shows "emits (cmovcc_r64_r64 c d s) (Cmov c d s)"
  using assms(1) index_fields(1,2) [OF assms(2)] index_fields(1,2) [OF assms(3)]
  by (cases "is_extended d"; cases "is_extended s")
     (simp_all add: emits_def cmovcc_r64_r64_def x86_emit_def emit_rex64_def rex_prefix_cases decode_two_byte decode_conditional modrm_fields bit_simps)

lemma emits_two_registers [x86_emits]:
  assumes "d < 16" "s < 16"
  shows "emits (imul_r64_r64 d s) (Imul64 d s)" "emits (mov_r32_r32 d s) (Mov32 d s)" "emits (pxor_xmm_xmm d s) (Pxor d s)"
  using index_fields(1,2) [OF assms(1)] index_fields(1,2) [OF assms(2)]
  by (cases "is_extended d"; cases "is_extended s";
      simp add: emits_def imul_r64_r64_def mov_r32_r32_def pxor_xmm_xmm_def x86_appends rex_prefix_cases x86_decoding modrm_fields bit_simps)+

subsection \<open>Memory operands\<close>

lemma scast_disp8:
  assumes "- 128 \<le> sint (off :: i32)" "sint off \<le> 127"
  shows "scast (ucast off :: u8) = off"
proof -
  have "sint (ucast off :: u8) = signed_take_bit 7 (sint off)" by (rule bit_eqI) (auto simp: bit_simps min_def)
  also have "\<dots> = sint off" using assms by (simp add: signed_take_bit_int_eq_self)
  finally show ?thesis by (simp add: scast_eq)
qed

text \<open>ModRM byte, SIB byte and displacement of a memory operand.\<close>

definition mem_bytes :: "X86Reg \<Rightarrow> X86Reg \<Rightarrow> i32 \<Rightarrow> u8 \<times> bytes" where
  "mem_bytes r b off =
     (let sb = if reg_index b = 4 then [sib 0 4 (reg_index b)] else [] in
      if off = 0 \<and> reg_index b \<noteq> 5 then (modrm 0 (reg_index r) (reg_index b), sb)
      else if - 128 \<le> sint off \<and> sint off \<le> 127 then (modrm 1 (reg_index r) (reg_index b), sb @ [ucast off])
      else (modrm 2 (reg_index r) (reg_index b), sb @ [ucast off, ucast (drop_bit 8 off), ucast (drop_bit 16 off), ucast (drop_bit 24 off)]))"

lemma emit_mem_operand_bytes: "emit_mem_operand r b off code = code @ (case mem_bytes r b off of (m, bs) \<Rightarrow> m # bs)"
  by (simp add: emit_mem_operand_def mem_bytes_def x86_emit_def emit32_def Let_def)

lemma mem_bytes_fields:
  assumes "r < 16" "b < 16" "mem_bytes r b off = (m, bs)"
  shows "reg_of m = reg_index r" "mod_of m \<noteq> 3" "mem_operand (is_extended b) m (bs @ tail) = Some (b, off, tail)"
proof -
  note i = index_fields(1,2) [OF assms(2)] index_fields(2) [OF assms(1)]
  show "reg_of m = reg_index r" "mod_of m \<noteq> 3"
    using assms(3) i by (auto simp: mem_bytes_def Let_def modrm_fields split: if_splits)
  show "mem_operand (is_extended b) m (bs @ tail) = Some (b, off, tail)"
    using assms(3) i scast_disp8 [of off]
    by (auto simp: mem_bytes_def Let_def mem_operand_def mem_base_def modrm_fields le_word_split simp del: le_word.simps split: if_splits)
qed

lemma decode_memory_moves:
  "p \<in> {0x48, 0x49, 0x4C, 0x4D} \<Longrightarrow> x86_decode (p # 0x8B # m # bs) =
     map_option (\<lambda>(base, d, bs). (Load64 (ext (bit p 2) (reg_of m)) base d, bs)) (mem_operand (bit p 0) m bs)"
  "p \<in> {0x48, 0x49, 0x4C, 0x4D} \<Longrightarrow> mod_of m \<noteq> 3 \<Longrightarrow> x86_decode (p # 0x89 # m # bs) =
     map_option (\<lambda>(base, d, bs). (Store64 base d (ext (bit p 2) (reg_of m)), bs)) (mem_operand (bit p 0) m bs)"
  by (elim insertE emptyE; simp add: x86_decode_def decode_rex_def decode_opcode_def decode_modrm_def bit_simps)+

lemma emits_memory [x86_emits]:
  assumes "r < 16" "b < 16"
  shows "emits (mov_r64_mem r b off) (Load64 r b off)" "emits (mov_mem_r64 b r off) (Store64 b off r)"
proof -
  obtain m bs where mb: "mem_bytes r b off = (m, bs)" by (cases "mem_bytes r b off") blast
  note f = mem_bytes_fields [OF assms mb] index_fields(1) [OF assms(1)]
  show "emits (mov_r64_mem r b off) (Load64 r b off)" "emits (mov_mem_r64 b r off) (Store64 b off r)"
    using f by (cases "is_extended r"; cases "is_extended b";
      simp add: emits_def mov_r64_mem_def mov_mem_r64_def emit_mem_operand_bytes mb x86_emit_def emit_rex64_def rex_prefix_cases
        decode_memory_moves bit_simps)+
qed

lemma decode_vector_moves:
  "x86_decode (0xF3 # 0x0F # 0x6F # m # bs) = map_option (\<lambda>(base, d, bs). (LoadXmm (ext False (reg_of m)) base d, bs)) (mem_operand False m bs)"
  "x86_decode (0xF3 # 0x0F # 0x7F # m # bs) = map_option (\<lambda>(base, d, bs). (StoreXmm base d (ext False (reg_of m)), bs)) (mem_operand False m bs)"
  "p \<in> {0x41, 0x44, 0x45} \<Longrightarrow> x86_decode (0xF3 # p # 0x0F # 0x6F # m # bs) =
     map_option (\<lambda>(base, d, bs). (LoadXmm (ext (bit p 2) (reg_of m)) base d, bs)) (mem_operand (bit p 0) m bs)"
  "p \<in> {0x41, 0x44, 0x45} \<Longrightarrow> x86_decode (0xF3 # p # 0x0F # 0x7F # m # bs) =
     map_option (\<lambda>(base, d, bs). (StoreXmm base d (ext (bit p 2) (reg_of m)), bs)) (mem_operand (bit p 0) m bs)"
  by ((elim insertE emptyE)?; simp add: x86_decode_def decode_rex_def decode_opcode_def decode_0f_def bit_simps)+

lemma emits_vector_memory [x86_emits]:
  assumes "r < 16" "b < 16"
  shows "emits (movdqu_xmm_mem r b off) (LoadXmm r b off)" "emits (movdqu_mem_xmm b r off) (StoreXmm b off r)"
proof -
  obtain m bs where mb: "mem_bytes r b off = (m, bs)" by (cases "mem_bytes r b off") blast
  note f = mem_bytes_fields [OF assms mb] index_fields(1) [OF assms(1)]
  show "emits (movdqu_xmm_mem r b off) (LoadXmm r b off)" "emits (movdqu_mem_xmm b r off) (StoreXmm b off r)"
    using f by (cases "is_extended r"; cases "is_extended b";
      simp add: emits_def movdqu_xmm_mem_def movdqu_mem_xmm_def simd_rex_def emit_mem_operand_bytes mb x86_emit_def rex_prefix_cases
        decode_vector_moves bit_simps)+
qed

section \<open>Theorems\<close>

lemma patched_jumps:
  "patch32 (length code + 1) off (jmp_rel32 x code @ tail) = Ok (jmp_rel32 off code @ tail)"
  "patch32 (length code + 2) off (jcc_rel32 c x code @ tail) = Ok (jcc_rel32 c off code @ tail)"
  by (simp_all add: patch32_def jmp_rel32_def jcc_rel32_def emit32_def x86_emit_def list_update_append)

text \<open>
  C21. Every operation of the x86-64 assembler, on every register and condition it can name, appends the bytes of exactly the
  instruction it is named after: decoding them, whatever follows, gives that instruction with these operands and the rest of the
  bytes. A jump that was emitted before its target was known and is patched later is the jump to that target.
\<close>

theorem x86_encodings:
  assumes "d < 16" "s < 16" "c < 16"
  shows "emits (mov_r64_imm64 d v) (MovImm64 d v) \<and> emits (mov_r32_imm32 d w) (MovImm32 d w)
    \<and> emits (mov_r64_r64 d s) (Alu64 XMov d s) \<and> emits (mov_r32_r32 d s) (Mov32 d s)
    \<and> emits (mov_r64_mem d s off) (Load64 d s off) \<and> emits (mov_mem_r64 d s off) (Store64 d off s)
    \<and> emits (add_r64_imm32 d off) (AddImm32 d off) \<and> emits (add_r64_r64 d s) (Alu64 XAdd d s)
    \<and> emits (sub_r64_r64 d s) (Alu64 XSub d s) \<and> emits (imul_r64_r64 d s) (Imul64 d s)
    \<and> emits (xor_r64_r64 d s) (Alu64 XXor d s) \<and> emits (and_r64_r64 d s) (Alu64 XAnd d s)
    \<and> emits (or_r64_r64 d s) (Alu64 XOr d s) \<and> emits (cmp_r64_r64 d s) (Alu64 XCmp d s)
    \<and> emits (test_r64_r64 d s) (Alu64 XTest d s) \<and> emits (jmp_rel32 off) (Jmp off)
    \<and> emits (jcc_rel32 c off) (Jcc c off) \<and> emits (jmp_r64 d) (JmpReg d) \<and> emits (call_r64 d) (CallReg d)
    \<and> emits x86_ret XRet \<and> emits x86_nop XNop \<and> emits (push_r64 d) (Push d) \<and> emits (pop_r64 d) (Pop d)
    \<and> emits (setcc c d) (Setcc c d) \<and> emits (cmovcc_r64_r64 c d s) (Cmov c d s) \<and> emits (pxor_xmm_xmm d s) (Pxor d s)
    \<and> emits (movdqu_xmm_mem d s off) (LoadXmm d s off) \<and> emits (movdqu_mem_xmm d s off) (StoreXmm d off s)
    \<and> patch32 (length code + 1) off (jmp_rel32 x code @ tail) = Ok (jmp_rel32 off code @ tail)
    \<and> patch32 (length code + 2) off (jcc_rel32 c x code @ tail) = Ok (jcc_rel32 c off code @ tail)"
  using assms by (intro conjI x86_emits patched_jumps)

text \<open>\<^verbatim>\<open>add r9, r8\<close> followed by \<^verbatim>\<open>ret\<close>, and a load through RSP, which needs a SIB byte.\<close>

theorem x86_encodings_witness:
  "x86_decode [0x4D, 0x01, 0xC1, 0xC3] = Some (Alu64 XAdd 9 8, [0xC3]) \<and> x86_decode [0x48, 0x8B, 0x44, 0x24, 0xF8] = Some (Load64 0 4 (- 8), [])"
proof
  have r: "(8 :: u8) < 16" "(9 :: u8) < 16" "(0 :: u8) < 16" "(4 :: u8) < 16" by simp_all
  have "emits (add_r64_r64 9 8) (Alu64 XAdd 9 8)" using x86_encodings [OF r(2,1,3)] by blast
  moreover have "add_r64_r64 9 8 [] = [0x4D, 0x01, 0xC1]"
    by (simp add: add_r64_r64_def rr64_def emit_rex64_def x86_emit_def rex_prefix_cases is_extended_def reg_index_def modrm_def)
  ultimately show "x86_decode [0x4D, 0x01, 0xC1, 0xC3] = Some (Alu64 XAdd 9 8, [0xC3])"
    unfolding emits_def by (metis append_Cons append_Nil)
  have "emits (mov_r64_mem 0 4 (- 8)) (Load64 0 4 (- 8))" using x86_encodings [OF r(3,4,3)] by blast
  moreover have "mov_r64_mem 0 4 (- 8) [] = [0x48, 0x8B, 0x44, 0x24, 0xF8]"
    by (simp add: mov_r64_mem_def emit_mem_operand_bytes mem_bytes_def emit_rex64_def x86_emit_def rex_prefix_cases is_extended_def reg_index_def modrm_def sib_def)
  ultimately show "x86_decode [0x48, 0x8B, 0x44, 0x24, 0xF8] = Some (Load64 0 4 (- 8), [])"
    unfolding emits_def by (metis append_Nil2)
qed

end
