(* ===== verification/X86_Codegen.thy ===== *)
theory X86_Codegen
  imports X86_Assembler Jit_Codegen
begin

text \<open>
  The x86-64 code generator (\<^verbatim>\<open>jit/x64/x86_codegen.cpp\<close>). It has no case for columns, so that the only filters it
  compiles are on literals, and it puts the result of every comparison into RAX.
\<close>

section \<open>State and registers\<close>

record X86CodeGenerator =
  x_assembler :: X86Assembler
  x_value_to_reg :: "ValueId \<Rightarrow> X86Reg option"
  x_free_regs :: "X86Reg list"
  x_reg_info :: reg_info_map

definition x_allocate_reg :: "X86CodeGenerator \<Rightarrow> X86Reg \<times> X86CodeGenerator" where
  "x_allocate_reg g =
     (if x_free_regs g = [] then (RAX, g) else (last (x_free_regs g), g\<lparr>x_free_regs := butlast (x_free_regs g)\<rparr>))"

definition x_free_reg :: "X86Reg \<Rightarrow> X86CodeGenerator \<Rightarrow> X86CodeGenerator" where
  "x_free_reg r g = g\<lparr>x_free_regs := x_free_regs g @ [r]\<rparr>"

definition x_get_reg :: "X86CodeGenerator \<Rightarrow> ValueId \<Rightarrow> X86Reg" where
  "x_get_reg g v = (case x_value_to_reg g v of None \<Rightarrow> RAX | Some r \<Rightarrow> r)"

definition x_set_reg :: "ValueId \<Rightarrow> X86Reg \<Rightarrow> X86CodeGenerator \<Rightarrow> X86CodeGenerator" where
  "x_set_reg v r g = g\<lparr>x_value_to_reg := (x_value_to_reg g)(v \<mapsto> r)\<rparr>"

section \<open>Emitting\<close>

definition x_asm :: "(X86Assembler \<Rightarrow> X86Assembler) \<Rightarrow> X86CodeGenerator \<Rightarrow> X86CodeGenerator" where
  "x_asm f g = g\<lparr>x_assembler := f (x_assembler g)\<rparr>"

definition x_emit_prologue :: "X86CodeGenerator \<Rightarrow> X86CodeGenerator" where
  "x_emit_prologue g =
     x_asm (\<lambda>c. add_r64_imm32 RSP (- 64) (push_r64 15 (push_r64 14 (push_r64 13 (push_r64 12 (push_r64 RBX
       (mov_r64_r64 RBP RSP (push_r64 RBP c)))))))) g"

definition x_emit_epilogue :: "X86CodeGenerator \<Rightarrow> X86CodeGenerator" where
  "x_emit_epilogue g =
     x_asm (\<lambda>c. x86_ret (pop_r64 RBP (pop_r64 RBX (pop_r64 12 (pop_r64 13 (pop_r64 14 (pop_r64 15
       (add_r64_imm32 RSP 64 c)))))))) g"

definition x_emit_constant :: "Instruction \<Rightarrow> (X86Reg \<Rightarrow> Constant \<Rightarrow> X86Assembler \<Rightarrow> X86Assembler) \<Rightarrow> X86CodeGenerator \<Rightarrow> X86CodeGenerator outcome" where
  "x_emit_constant i f g =
     (case extra i of
        ConstExtra c \<Rightarrow> let (dst, g) = x_allocate_reg g in Ok (x_set_reg (instr_result i) dst (x_asm (f dst c) g))
      | _ \<Rightarrow> Fault)"

text \<open>A binary operation: the left operand is copied to a new register, on which the operation works.\<close>

definition x_emit_binary :: "Instruction \<Rightarrow> (X86Reg \<Rightarrow> X86Reg \<Rightarrow> X86Assembler \<Rightarrow> X86Assembler) \<Rightarrow> X86CodeGenerator \<Rightarrow> X86CodeGenerator outcome" where
  "x_emit_binary i f g =
     obind (operand i 0) (\<lambda>a. obind (operand i 1) (\<lambda>b.
       let lhs = x_get_reg g a; rhs = x_get_reg g b; (dst, g) = x_allocate_reg g in
       Ok (x_set_reg (instr_result i) dst (x_asm (\<lambda>c. f dst rhs (mov_r64_r64 dst lhs c)) g))))"

text \<open>A comparison: RAX is cleared first, and its low byte is set by the condition.\<close>

definition x_emit_compare :: "Instruction \<Rightarrow> x86_condition \<Rightarrow> X86CodeGenerator \<Rightarrow> X86CodeGenerator outcome" where
  "x_emit_compare i cond g =
     obind (operand i 0) (\<lambda>a. obind (operand i 1) (\<lambda>b.
       let lhs = x_get_reg g a; rhs = x_get_reg g b in
       Ok (x_set_reg (instr_result i) RAX (x_asm (\<lambda>c. setcc cond RAX (cmp_r64_r64 lhs rhs (xor_r64_r64 RAX RAX c))) g))))"

definition x_emit_return :: "Instruction \<Rightarrow> X86CodeGenerator \<Rightarrow> X86CodeGenerator" where
  "x_emit_return i g =
     x_emit_epilogue
       (case operands i of
          [] \<Rightarrow> x_asm (xor_r64_r64 RAX RAX) g
        | v # _ \<Rightarrow> let ret_val = x_get_reg g v in if ret_val \<noteq> RAX then x_asm (mov_r64_r64 RAX ret_val) g else g)"

definition x_emit_instruction :: "Instruction \<Rightarrow> X86CodeGenerator \<Rightarrow> X86CodeGenerator outcome" where
  "x_emit_instruction i g =
     (case opcode i of
        Op_Nop \<Rightarrow> Ok (x_asm x86_nop g)
      | Op_ConstU64 \<Rightarrow> x_emit_constant i (\<lambda>dst c. mov_r64_imm64 dst (as_u64 c)) g
      | Op_ConstI64 \<Rightarrow> x_emit_constant i (\<lambda>dst c. mov_r64_imm64 dst (as_u64 c)) g
      | Op_ConstU32 \<Rightarrow> x_emit_constant i (\<lambda>dst c. mov_r32_imm32 dst (get_u32 c)) g
      | Op_AddU64 \<Rightarrow> x_emit_binary i add_r64_r64 g
      | Op_AddI64 \<Rightarrow> x_emit_binary i add_r64_r64 g
      | Op_SubU64 \<Rightarrow> x_emit_binary i sub_r64_r64 g
      | Op_SubI64 \<Rightarrow> x_emit_binary i sub_r64_r64 g
      | Op_MulU64 \<Rightarrow> x_emit_binary i imul_r64_r64 g
      | Op_MulI64 \<Rightarrow> x_emit_binary i imul_r64_r64 g
      | Op_And \<Rightarrow> x_emit_binary i and_r64_r64 g
      | Op_Or \<Rightarrow> x_emit_binary i or_r64_r64 g
      | Op_BitXor \<Rightarrow> x_emit_binary i xor_r64_r64 g
      | Op_EqU64 \<Rightarrow> x_emit_compare i Cond_E g
      | Op_NeU64 \<Rightarrow> x_emit_compare i Cond_NE g
      | Op_LtU64 \<Rightarrow> x_emit_compare i Cond_B g
      | Op_LeU64 \<Rightarrow> x_emit_compare i Cond_BE g
      | Op_GtU64 \<Rightarrow> x_emit_compare i Cond_A g
      | Op_GeU64 \<Rightarrow> x_emit_compare i Cond_AE g
      | Op_Return \<Rightarrow> Ok (x_emit_return i g)
      | _ \<Rightarrow> Err NotImplemented)"

fun x_emit_instructions :: "Instruction list \<Rightarrow> X86CodeGenerator \<Rightarrow> X86CodeGenerator outcome" where
  "x_emit_instructions [] g = Ok g"
| "x_emit_instructions (i # is) g = obind (x_emit_instruction i g) (x_emit_instructions is)"

fun x_emit_blocks :: "BasicBlock list \<Rightarrow> X86CodeGenerator \<Rightarrow> X86CodeGenerator outcome" where
  "x_emit_blocks [] g = Ok g"
| "x_emit_blocks (b # bs) g = obind (x_emit_instructions (instructions b) g) (x_emit_blocks bs)"

definition x86_generate :: "ir_function option \<Rightarrow> X86CodeGenerator \<Rightarrow> (bytes \<times> X86CodeGenerator) outcome" where
  "x86_generate fn g =
     (case fn of
        None \<Rightarrow> Err InvalidArgument
      | Some f \<Rightarrow>
          let g = g\<lparr>x_assembler := [], x_value_to_reg := Map.empty,
                    x_free_regs := [RAX, RCX, RDX, RSI, RDI, 8, 9, 10, 11], x_reg_info := analyze_function f\<rparr>;
              g = x_emit_prologue g in
          obind (x_emit_blocks (blocks f) g) (\<lambda>g.
            let g = x_emit_epilogue g in Ok (x_assembler g, g)))"

end
