(* ===== verification/X86_Filters.thy ===== *)
theory X86_Filters
  imports X86_Codegen IR_Semantics
begin

text \<open>
  Which filters the x86-64 generator compiles: those on literals with the operators it has a case for. Every other filter is
  refused, never miscompiled into a fault of the generator.
\<close>

fun x86_accepts :: "Expression \<Rightarrow> bool" where
  "x86_accepts (LiteralExpr v ln col) = True"
| "x86_accepts (ColumnRefExpr nm ln col) = False"
| "x86_accepts (BinaryOpExpr op a b ln col) = (op \<notin> {Tok_Slash, Tok_Percent, Tok_Amp, Tok_Pipe} \<and> x86_accepts a \<and> x86_accepts b)"
| "x86_accepts (UnaryOpExpr op a ln col) = False"
| "x86_accepts (FunctionCallExpr nm args ln col) = False"

section \<open>Instructions\<close>

definition compiles_if :: "bool \<Rightarrow> Instruction list \<Rightarrow> bool" where
  "compiles_if ok code \<longleftrightarrow> (\<forall>g. if ok then \<exists>g'. x_emit_instructions code g = Ok g' else x_emit_instructions code g = Err NotImplemented)"

lemma x_emit_instructions_append:
  "x_emit_instructions (c1 @ c2) g = obind (x_emit_instructions c1 g) (x_emit_instructions c2)"
  by (induction c1 arbitrary: g) (auto simp: obind_def split: outcome.split)

lemma compiles_if_cases:
  "compiles_if True code \<longleftrightarrow> (\<forall>g. \<exists>g'. x_emit_instructions code g = Ok g')"
  "compiles_if False code \<longleftrightarrow> (\<forall>g. x_emit_instructions code g = Err NotImplemented)"
  by (simp_all add: compiles_if_def)

lemma compiles_if_append:
  assumes "compiles_if a c1" "a \<Longrightarrow> compiles_if b c2"
  shows "compiles_if (a \<and> b) (c1 @ c2)"
proof (cases a)
  case True
  have "\<exists>g1. x_emit_instructions (c1 @ c2) g = x_emit_instructions c2 g1" for g
  proof -
    obtain g1 where "x_emit_instructions c1 g = Ok g1" using assms(1) True by (auto simp: compiles_if_cases)
    then show ?thesis by (auto simp: x_emit_instructions_append)
  qed
  then show ?thesis using assms(2) True by (cases b) (metis compiles_if_cases(1), metis compiles_if_cases(2))
next
  case False
  then show ?thesis using assms(1) by (simp add: compiles_if_cases x_emit_instructions_append)
qed

lemma compiles_if_const: "compiles_if True [(ConstOp (u64_const w) v)\<lparr>instr_id := j\<rparr>]"
  by (simp add: compiles_if_def ConstOp_def Instruction_new_def u64_const_def choose_opcode_def x_emit_instruction_def x_emit_constant_def
      split_beta obind_def)

lemma compiles_if_column: "compiles_if False [(LoadColumnOp c row v t)\<lparr>instr_id := j\<rparr>]"
  by (simp add: compiles_if_def LoadColumnOp_def Instruction_new_def x_emit_instruction_def obind_def)

lemma compiles_if_unary: "opc \<in> {Op_NegI64, Op_Not} \<Longrightarrow> compiles_if False [(Instruction_new opc [a] v t NoExtra)\<lparr>instr_id := j\<rparr>]"
  by (auto simp: compiles_if_def Instruction_new_def x_emit_instruction_def obind_def)

lemma compiles_if_binary:
  assumes "op \<in> binary_tokens" "ty \<noteq> Ty_I64"
  shows "compiles_if (op \<notin> {Tok_Slash, Tok_Percent, Tok_Amp, Tok_Pipe}) [(Instruction_new (lowered_opcode op ty) [a, b] v t NoExtra)\<lparr>instr_id := j\<rparr>]"
  using assms by (cases op)
    (simp_all add: binary_tokens_def compiles_if_def Instruction_new_def lowered_opcode_def get_arithmetic_opcode_def get_comparison_opcode_def
      x_emit_instruction_def x_emit_binary_def x_emit_compare_def operand_def obind_def split_beta)

section \<open>Filters\<close>

lemma accepted_type: "x86_accepts ex \<Longrightarrow> infer_type ex \<noteq> Ty_I64"
  by (induction ex) auto

lemma filter_compiles_if:
  assumes "lowerable ex" "builder_ok b" "unat (next_id b) + expr_nodes ex < 2 ^ 32"
  shows "\<exists>v b' code. lowers_to ex b v b' code \<and> compiles_if (x86_accepts ex) code"
  using assms
proof (induction ex arbitrary: b)
  case (LiteralExpr w ln col)
  have "\<exists>b' j. lowers_to (LiteralExpr w ln col) b (next_id b) b' ([] @ [(ConstOp (u64_const w) (next_id b))\<lparr>instr_id := j\<rparr>])"
    using LiteralExpr
    by (intro lowers_to_emit_code [where mk = "ConstOp (u64_const w)" and code = "[]" and ?b1.0 = b])
      (simp_all add: create_const_u64_def computes_const grows_refl)
  then show ?case using compiles_if_const unfolding x86_accepts.simps append_Nil by blast
next
  case (ColumnRefExpr nm ln col)
  then obtain c where c: "resolve_column nm = Some c" by auto
  obtain row where row: "row_index b = Ok row" using row_index_ok ColumnRefExpr by blast
  let ?t = "ir_type_of (get_column_type c)"
  have "\<exists>b' j. lowers_to (ColumnRefExpr nm ln col) b (next_id b) b' ([] @ [(LoadColumnOp (of_nat c) row (next_id b) ?t)\<lparr>instr_id := j\<rparr>])"
    using ColumnRefExpr c row
    by (intro lowers_to_emit_code [where mk = "\<lambda>res. LoadColumnOp (of_nat c) row res ?t" and code = "[]" and ?b1.0 = b])
      (simp_all add: column_info create_load_column_def computes_load column_value [OF column_range, symmetric] grows_refl)
  then show ?case using compiles_if_column unfolding x86_accepts.simps append_Nil by blast
next
  case (BinaryOpExpr op l r ln col)
  from BinaryOpExpr obtain v1 b1 c1 where l: "lowers_to l b v1 b1 c1" "compiles_if (x86_accepts l) c1" by fastforce
  have "builder_ok b1" using l(1) by (simp add: lowers_to_def grows_def)
  moreover have "unat (next_id b1) + expr_nodes r < 2 ^ 32" using l(1) BinaryOpExpr.prems by (simp add: lowers_to_def)
  ultimately obtain v2 b2 c2 where r: "lowers_to r b1 v2 b2 c2" "compiles_if (x86_accepts r) c2" using BinaryOpExpr by fastforce
  let ?ty = "operand_type (infer_type l) (infer_type r)"
  obtain b' t j where low: "lowers_to (BinaryOpExpr op l r ln col) b (next_id b2) b'
      ((c1 @ c2) @ [(Instruction_new (lowered_opcode op ?ty) [v1, v2] (next_id b2) t NoExtra)\<lparr>instr_id := j\<rparr>])"
    using lowers_binary_code [OF l(1) r(1) _ BinaryOpExpr.prems(3)] BinaryOpExpr.prems(1) by auto
  have "compiles_if ((x86_accepts l \<and> x86_accepts r) \<and> op \<notin> {Tok_Slash, Tok_Percent, Tok_Amp, Tok_Pipe})
      ((c1 @ c2) @ [(Instruction_new (lowered_opcode op ?ty) [v1, v2] (next_id b2) t NoExtra)\<lparr>instr_id := j\<rparr>])"
    using l(2) r(2) BinaryOpExpr.prems(1) accepted_type [of l] accepted_type [of r]
    by (intro compiles_if_append compiles_if_binary) (auto simp: operand_type_def)
  then have "compiles_if (x86_accepts (BinaryOpExpr op l r ln col))
      ((c1 @ c2) @ [(Instruction_new (lowered_opcode op ?ty) [v1, v2] (next_id b2) t NoExtra)\<lparr>instr_id := j\<rparr>])"
    by (simp add: conj_ac)
  with low show ?case by blast
next
  case (UnaryOpExpr op x ln col)
  then obtain v1 b1 c1 where x: "lowers_to x b v1 b1 c1" "compiles_if (x86_accepts x) c1" by fastforce
  obtain b' opc t j where u: "opc \<in> {Op_NegI64, Op_Not}"
    "lowers_to (UnaryOpExpr op x ln col) b (next_id b1) b' (c1 @ [(Instruction_new opc [v1] (next_id b1) t NoExtra)\<lparr>instr_id := j\<rparr>])"
    using lowers_unary_code [OF x(1) _ UnaryOpExpr.prems(3)] UnaryOpExpr.prems(1) by auto
  have "compiles_if (x86_accepts x \<and> False) (c1 @ [(Instruction_new opc [v1] (next_id b1) t NoExtra)\<lparr>instr_id := j\<rparr>])"
    by (rule compiles_if_append [OF x(2) compiles_if_unary [OF u(1)]])
  with u(2) show ?case by (intro exI conjI) simp_all
next
  case (FunctionCallExpr nm args ln col)
  then show ?case by simp
qed

text \<open>
  The result of every comparison is in RAX, and computing a comparison overwrites it: a second comparison destroys the result of the
  first one before the two can be combined.
\<close>

lemma comparisons_share_rax:
  assumes "x_emit_compare i c g = Ok g1" "x_emit_compare i' c' g1 = Ok g2"
  shows "x_get_reg g2 (instr_result i) = RAX" "x_get_reg g2 (instr_result i') = RAX"
  using assms by (auto simp: x_emit_compare_def obind_eq_Ok x_get_reg_def x_set_reg_def x_asm_def Let_def)

section \<open>Theorems\<close>

text \<open>
  C23. For every query without an aggregate call whose filter is built from the language's operators on names of columns and
  literals, without function calls and with fewer than \<open>2 ^ 31\<close> nodes, the function is built, and the x86-64 generator compiles it
  exactly when the filter uses no column, no sign, no NOT, no division or remainder and no bitwise AND or OR; every other such
  filter gives the error NotImplemented, and none makes the generator fault.
\<close>

theorem x86_accepts_exactly:
  assumes "where_expr q = Some ex" "aggregate_call q = None" "lowerable ex" "expr_nodes ex < 2 ^ 31"
  shows "\<exists>f. build_from_query (Some q) = Ok (Some f) \<and>
    (if x86_accepts ex then \<exists>code g'. x86_generate (Some f) g = Ok (code, g') else x86_generate (Some f) g = Err NotImplemented)"
proof -
  have "unat (next_id query_builder) + expr_nodes ex < 2 ^ 32" using assms(4) by (simp add: query_builder_state)
  with filter_compiles_if [OF assms(3) query_builder_state(1)] obtain v b code where l: "lowers_to ex query_builder v b code"
    and c: "compiles_if (x86_accepts ex) code" by blast
  obtain f j where f: "build_from_query (Some q) = Ok (Some f)" "length (blocks f) = 1"
    "instructions (blocks f ! 0) = code @ [(ReturnOp v)\<lparr>instr_id := j\<rparr>]"
    using built_query [OF assms(1,2) l] by blast
  have "compiles_if True [(ReturnOp v)\<lparr>instr_id := j\<rparr>]"
    by (simp add: compiles_if_def x_emit_instruction_def ReturnOp_def Instruction_new_def obind_def)
  from compiles_if_append [OF c this] have "compiles_if (x86_accepts ex) (instructions (blocks f ! 0))" by (simp add: f(3))
  moreover obtain blk where "blocks f = [blk]" using f(2) by (auto simp: length_Suc_conv)
  then have "x_emit_blocks (blocks f) h = x_emit_instructions (instructions (blocks f ! 0)) h" for h
    by (cases "x_emit_instructions (instructions blk) h") simp_all
  moreover obtain h where "x86_generate (Some f) g = obind (x_emit_blocks (blocks f) h) (\<lambda>g. Ok (x_assembler (x_emit_epilogue g), x_emit_epilogue g))"
    by (simp add: x86_generate_def Let_def)
  ultimately have "if x86_accepts ex then \<exists>code g'. x86_generate (Some f) g = Ok (code, g') else x86_generate (Some f) g = Err NotImplemented"
    by (cases "x86_accepts ex") (auto simp: compiles_if_cases dest: spec [of _ h])
  with f(1) show ?thesis by blast
qed

text \<open>\<^verbatim>\<open>price > 100000\<close> is refused and \<^verbatim>\<open>3 > 2\<close> is compiled.\<close>

definition x86_refused_sample :: Expression where
  "x86_refused_sample = BinaryOpExpr Tok_Greater (ColumnRefExpr ''price'' 1 7) (LiteralExpr 100000 1 15) 1 13"

definition x86_accepted_sample :: Expression where
  "x86_accepted_sample = BinaryOpExpr Tok_Greater (LiteralExpr 3 1 7) (LiteralExpr 2 1 11) 1 9"

definition x86_fresh :: X86CodeGenerator where
  "x86_fresh = \<lparr>x_assembler = [], x_value_to_reg = Map.empty, x_free_regs = [], x_reg_info = Map.empty\<rparr>"

theorem x86_accepts_exactly_witness:
  "(\<exists>f. build_from_query (Some ((QueryStmt_init 1 1)\<lparr>where_expr := Some x86_refused_sample\<rparr>)) = Ok (Some f) \<and>
     x86_generate (Some f) x86_fresh = Err NotImplemented) \<and>
   (\<exists>f code g'. build_from_query (Some ((QueryStmt_init 1 1)\<lparr>where_expr := Some x86_accepted_sample\<rparr>)) = Ok (Some f) \<and>
     x86_generate (Some f) x86_fresh = Ok (code, g'))"
proof -
  have q: "where_expr ((QueryStmt_init 1 1)\<lparr>where_expr := Some ex\<rparr>) = Some ex" "aggregate_call ((QueryStmt_init 1 1)\<lparr>where_expr := Some ex\<rparr>) = None"
    for ex by (simp_all add: aggregate_call_def QueryStmt_init_def)
  have "resolve_column ''price'' = Some 7" unfolding resolve_column_iff names_column_def column_names_def by simp
  then have "lowerable x86_refused_sample" "expr_nodes x86_refused_sample < 2 ^ 31" "\<not> x86_accepts x86_refused_sample"
    "lowerable x86_accepted_sample" "expr_nodes x86_accepted_sample < 2 ^ 31" "x86_accepts x86_accepted_sample"
    by (simp_all add: x86_refused_sample_def x86_accepted_sample_def binary_tokens_def)
  then show ?thesis
    using x86_accepts_exactly [OF q, of x86_refused_sample x86_fresh] x86_accepts_exactly [OF q, of x86_accepted_sample x86_fresh] by simp
qed

end
