(* ===== verification/Jit_Compiler.thy ===== *)
theory Jit_Compiler
  imports A64_Correct X86_Codegen
begin

text \<open>
  The pages that hold compiled code and the driver of the compiler (\<^verbatim>\<open>jit/jit_compiler.hpp\<close> and \<^verbatim>\<open>jit/jit_compiler.cpp\<close>), as
  they are built for POSIX systems other than macOS. Whether \<^verbatim>\<open>mmap\<close> and \<^verbatim>\<open>mprotect\<close> succeed on a number of bytes, and the architecture
  of the build, are arguments. A mapping is never writable and executable at once: a write to an executable mapping and a call into
  a writable one are faults.
\<close>

section \<open>Pages\<close>

record os =
  mmap_ok :: "u64 \<Rightarrow> bool"
  mprotect_ok :: "u64 \<Rightarrow> bool"

record mapping =
  contents :: bytes
  writable :: bool
  runnable :: bool

record JitMemory =
  jm_memory :: "mapping option"
  jm_size :: u64
  jm_executable :: bool

definition JitMemory_new :: JitMemory where
  "JitMemory_new = \<lparr>jm_memory = None, jm_size = 0, jm_executable = False\<rparr>"

text \<open>An anonymous mapping is filled with zeros; the previous one is unmapped.\<close>

definition jm_allocate :: "os \<Rightarrow> u64 \<Rightarrow> JitMemory \<Rightarrow> unit outcome \<times> JitMemory" where
  "jm_allocate os n m =
     (if n = 0 then (Err InvalidArgument, m)
      else let page_size = 4096; alloc_size = ((n + page_size - 1) div page_size) * page_size in
        if \<not> mmap_ok os alloc_size then (Err AllocationFailed, m)
        else (Ok (), \<lparr>jm_memory = Some \<lparr>contents = replicate (unat alloc_size) 0, writable = True, runnable = False\<rparr>,
                      jm_size = alloc_size, jm_executable = False\<rparr>))"

definition jm_write :: "bytes \<Rightarrow> u64 \<Rightarrow> JitMemory \<Rightarrow> unit outcome \<times> JitMemory" where
  "jm_write code n m =
     (case jm_memory m of
        None \<Rightarrow> (Err InvalidArgument, m)
      | Some p \<Rightarrow>
          if jm_size m < n then (Err InvalidArgument, m)
          else if \<not> writable p \<or> length code < unat n \<or> length (contents p) < unat n then (Fault, m)
          else (Ok (), m\<lparr>jm_memory := Some (p\<lparr>contents := take (unat n) code @ drop (unat n) (contents p)\<rparr>)\<rparr>))"

text \<open>\<open>protect\<close> is only called with \<^verbatim>\<open>PROT_READ | PROT_EXEC\<close>.\<close>

definition jm_protect :: "os \<Rightarrow> mapping \<Rightarrow> JitMemory \<Rightarrow> unit outcome \<times> JitMemory" where
  "jm_protect os p m =
     (if \<not> mprotect_ok os (jm_size m) then (Err MprotectFailed, m)
      else (Ok (), m\<lparr>jm_memory := Some (p\<lparr>writable := False, runnable := True\<rparr>), jm_executable := True\<rparr>))"

definition jm_make_executable :: "os \<Rightarrow> JitMemory \<Rightarrow> unit outcome \<times> JitMemory" where
  "jm_make_executable os m =
     (case jm_memory m of
        None \<Rightarrow> (Err InvalidArgument, m)
      | Some p \<Rightarrow>
          if jm_size m = 0 then (Err InvalidArgument, m)
          else if jm_executable m then (Ok (), m)
          else jm_protect os p m)"

section \<open>The compiler\<close>

text \<open>A generator is created for each compilation; the host decides which.\<close>

definition host_generate :: "TargetArch \<Rightarrow> ir_function \<Rightarrow> bytes outcome" where
  "host_generate build f =
     (case create_host_generator build of
        Some AArch64 \<Rightarrow> map_result fst (generate (Some f) \<lparr>assembler = [], value_to_reg = Map.empty, free_regs = [], reg_info = Map.empty\<rparr>)
      | Some X86_64 \<Rightarrow> map_result fst (x86_generate (Some f)
          \<lparr>x_assembler = [], x_value_to_reg = Map.empty, x_free_regs = [], x_reg_info = Map.empty\<rparr>)
      | _ \<Rightarrow> Err NotImplemented)"

definition then_do :: "unit outcome \<times> JitMemory \<Rightarrow> (JitMemory \<Rightarrow> 'a outcome \<times> JitMemory) \<Rightarrow> 'a outcome \<times> JitMemory" where
  "then_do r k = (case r of (Ok u, m) \<Rightarrow> k m | (Err c, m) \<Rightarrow> (Err c, m) | (Fault, m) \<Rightarrow> (Fault, m))"

text \<open>The result is a pointer to the mapping.\<close>

definition jit_compile :: "TargetArch \<Rightarrow> os \<Rightarrow> ir_function option \<Rightarrow> JitMemory \<Rightarrow> mapping option outcome \<times> JitMemory" where
  "jit_compile build os fn m =
     (case fn of
        None \<Rightarrow> (Err InvalidArgument, m)
      | Some f \<Rightarrow>
          if blocks f = [] then (Err InvalidArgument, m)
          else case host_generate build f of
            Err c \<Rightarrow> (Err c, m)
          | Fault \<Rightarrow> (Fault, m)
          | Ok code \<Rightarrow>
              then_do (jm_allocate os (of_nat (length code)) m)
                (\<lambda>m. then_do (jm_write code (of_nat (length code)) m)
                  (\<lambda>m. then_do (jm_make_executable os m) (\<lambda>m. (Ok (jm_memory m), m)))))"

text \<open>
  \<open>jit_execute\<close> on AArch64: the compiled function is called on the machine with the context in X0. The value is what the call
  leaves in X0.
\<close>

definition jit_execute :: "os \<Rightarrow> ir_function option \<Rightarrow> a64_machine \<Rightarrow> (u64 \<times> a64_machine) outcome" where
  "jit_execute os fn st =
     (case fst (jit_compile AArch64 os fn JitMemory_new) of
        Err c \<Rightarrow> Err c
      | Fault \<Rightarrow> Fault
      | Ok None \<Rightarrow> Fault
      | Ok (Some p) \<Rightarrow>
          if \<not> runnable p then Fault
          else case call (contents p) st of None \<Rightarrow> Fault | Some (ret, st') \<Rightarrow> Ok (gpr st' 0, st'))"

section \<open>Pages are writable or executable\<close>

definition jm_ok :: "JitMemory \<Rightarrow> bool" where
  "jm_ok m \<longleftrightarrow> (case jm_memory m of None \<Rightarrow> True
     | Some p \<Rightarrow> length (contents p) = unat (jm_size m) \<and> runnable p = jm_executable m \<and> writable p = (\<not> jm_executable m))"

lemma jm_ok_new: "jm_ok JitMemory_new"
  by (simp add: jm_ok_def JitMemory_new_def)

lemma then_do_cases:
  "fst r = Ok () \<Longrightarrow> then_do r k = k (snd r)" "fst r = Err c \<Longrightarrow> then_do r k = (Err c, snd r)" "fst r = Fault \<Longrightarrow> then_do r k = (Fault, snd r)"
  by (cases r; simp add: then_do_def)+

text \<open>What each operation does to a consistent object, whatever the system answers.\<close>

lemma allocate_spec:
  assumes "jm_ok m"
  shows "jm_ok (snd (jm_allocate os n m))" "fst (jm_allocate os n m) \<noteq> Fault"
    "fst (jm_allocate os n m) = Ok () \<Longrightarrow> \<not> jm_executable (snd (jm_allocate os n m)) \<and> jm_memory (snd (jm_allocate os n m)) \<noteq> None"
  using assms unfolding jm_allocate_def Let_def by (auto simp: jm_ok_def split: if_splits option.splits)

lemma write_spec:
  assumes "jm_ok m" "\<not> jm_executable m" "unat n \<le> length code"
  shows "jm_ok (snd (jm_write code n m))" "fst (jm_write code n m) \<noteq> Fault"
    "fst (jm_write code n m) = Ok () \<Longrightarrow> \<exists>p. jm_memory (snd (jm_write code n m)) = Some p \<and> take (unat n) (contents p) = take (unat n) code
      \<and> \<not> jm_executable (snd (jm_write code n m))"
  using assms by (auto simp: jm_write_def jm_ok_def word_less_nat_alt split: option.splits)

lemma make_executable_spec:
  assumes "jm_ok m"
  shows "jm_ok (snd (jm_make_executable os m))" "fst (jm_make_executable os m) \<noteq> Fault"
    "fst (jm_make_executable os m) = Ok () \<Longrightarrow> jm_memory m = Some p \<Longrightarrow> \<exists>p'. jm_memory (snd (jm_make_executable os m)) = Some p'
      \<and> runnable p' \<and> \<not> writable p' \<and> contents p' = contents p"
  using assms unfolding jm_make_executable_def jm_protect_def by (auto simp: jm_ok_def split: option.splits if_splits)

lemma compile_steps:
  assumes "jm_ok m" "blocks f \<noteq> []" "host_generate build f = Ok code"
  shows "jm_ok (snd (jit_compile build os (Some f) m))" "fst (jit_compile build os (Some f) m) \<noteq> Fault"
    "fst (jit_compile build os (Some f) m) = Ok r \<Longrightarrow>
      \<exists>p. r = Some p \<and> runnable p \<and> \<not> writable p \<and> (length code < 2 ^ 64 \<longrightarrow> take (length code) (contents p) = code)"
proof -
  let ?n = "of_nat (length code) :: u64"
  have n: "unat ?n \<le> length code" by (simp add: unat_of_nat take_bit_nat_less_eq_self)
  define a where "a = jm_allocate os ?n m"
  define w where "w = jm_write code ?n (snd a)"
  define x where "x = jm_make_executable os (snd w)"
  have c: "jit_compile build os (Some f) m = then_do a (\<lambda>m1. then_do (jm_write code ?n m1) (\<lambda>m2. then_do (jm_make_executable os m2) (\<lambda>m. (Ok (jm_memory m), m))))"
    using assms(2,3) by (simp add: jit_compile_def a_def)
  note A = allocate_spec [OF assms(1), of os ?n, folded a_def]
  note W = write_spec [OF A(1) _ n, folded w_def]
  note X = make_executable_spec [of "snd w" os, folded x_def]
  have "jm_ok (snd (jit_compile build os (Some f) m)) \<and> fst (jit_compile build os (Some f) m) \<noteq> Fault \<and>
    (fst (jit_compile build os (Some f) m) = Ok r \<longrightarrow>
      (\<exists>p. r = Some p \<and> runnable p \<and> \<not> writable p \<and> (length code < 2 ^ 64 \<longrightarrow> take (length code) (contents p) = code)))"
  proof (cases "fst a")
    case (Err e)
    then show ?thesis using A(1) by (simp add: c then_do_cases)
  next
    case (Ok u)
    then have a: "fst a = Ok ()" by simp
    show ?thesis
    proof (cases "fst w")
      case (Err e)
      then show ?thesis using a W(1) A(3) by (simp add: c then_do_cases flip: w_def)
    next
      case (Ok u)
      then have w: "fst w = Ok ()" by simp
      from W A(3) a w obtain p where p: "jm_ok (snd w)" "jm_memory (snd w) = Some p" "take (unat ?n) (contents p) = take (unat ?n) code" by blast
      show ?thesis
      proof (cases "fst x")
        case (Ok u)
        then obtain p' where "jm_memory (snd x) = Some p'" "runnable p'" "\<not> writable p'" "contents p' = contents p" "jm_ok (snd x)"
          using X p by auto
        moreover have "unat ?n = length code" if "length code < 2 ^ 64" using that by (simp add: unat_of_nat take_bit_nat_eq_self)
        ultimately show ?thesis using a w p(3) Ok by (auto simp: c then_do_cases simp flip: w_def x_def)
      qed (use a w X p in \<open>simp_all add: c then_do_cases flip: w_def x_def\<close>)
    qed (use W A(3) a in blast)
  qed (use A(2) in blast)
  then show "jm_ok (snd (jit_compile build os (Some f) m))" "fst (jit_compile build os (Some f) m) \<noteq> Fault"
    "fst (jit_compile build os (Some f) m) = Ok r \<Longrightarrow>
      \<exists>p. r = Some p \<and> runnable p \<and> \<not> writable p \<and> (length code < 2 ^ 64 \<longrightarrow> take (length code) (contents p) = code)" by blast+
qed

text \<open>Pages for at most a few hundred bytes.\<close>

lemma one_page:
  assumes "0 < n" "n \<le> 4096"
  shows "(4095 + of_nat n :: u64) div 4096 * 4096 = 4096"
proof -
  have "unat (of_nat (4095 + n) :: u64) = 4095 + n" using assms(2) by (subst unat_of_nat) simp
  moreover have "(4095 + n) div 4096 = 1" using assms by simp
  ultimately have "unat (of_nat (4095 + n) div 4096 :: u64) = 1" by (simp only: unat_div unat_numeral) simp
  then have "of_nat (4095 + n) div 4096 = (1 :: u64)" by (simp only: word_unat_eq_iff unat_1)
  then show ?thesis by simp
qed

lemma compile_succeeds:
  assumes "blocks f \<noteq> []" "host_generate build f = Ok code" "code \<noteq> []" "length code \<le> 4096" "mmap_ok os 4096" "mprotect_ok os 4096"
  shows "fst (jit_compile build os (Some f) m) =
    Ok (Some \<lparr>contents = code @ replicate (4096 - length code) 0, writable = False, runnable = True\<rparr>)"
proof -
  have l: "0 < length code" using assms(3) by simp
  have n: "unat (of_nat (length code) :: u64) = length code" using assms(4) by (subst unat_of_nat) simp
  then have "(of_nat (length code) :: u64) \<noteq> 0" using l by (metis less_irrefl unat_0)
  then have "jm_allocate os (of_nat (length code)) m =
      (Ok (), \<lparr>jm_memory = Some \<lparr>contents = replicate 4096 0, writable = True, runnable = False\<rparr>, jm_size = 4096, jm_executable = False\<rparr>)"
    using assms(5) one_page [OF l assms(4)] by (simp add: jm_allocate_def)
  moreover have "\<not> (4096 :: u64) < of_nat (length code)" using n assms(4) by (simp add: word_less_nat_alt)
  ultimately show ?thesis
    using assms n by (simp add: jit_compile_def then_do_def jm_write_def jm_make_executable_def jm_protect_def drop_replicate)
qed

section \<open>Theorems\<close>

text \<open>
  C22. Compilation keeps the pages of the code consistent: whatever mmap and mprotect answer, the pages are writable or
  executable and never both, compiling faults only if the generation of the code does, and a function that is returned lies in
  executable pages that begin with the generated code (any code of less than two to the 64 bytes), so that neither writing
  nor calling it faults.
\<close>

theorem jit_write_xor_execute:
  assumes "jm_ok m"
  shows "jm_ok (snd (jit_compile build os fn m))
    \<and> (fst (jit_compile build os fn m) = Fault \<longleftrightarrow> (\<exists>f. fn = Some f \<and> blocks f \<noteq> [] \<and> host_generate build f = Fault))
    \<and> (\<forall>r. fst (jit_compile build os fn m) = Ok r \<longrightarrow> (\<exists>f code p. fn = Some f \<and> host_generate build f = Ok code \<and> r = Some p
        \<and> runnable p \<and> \<not> writable p \<and> (length code < 2 ^ 64 \<longrightarrow> take (length code) (contents p) = code)))"
proof (cases fn)
  case None
  then show ?thesis using assms(1) by (simp add: jit_compile_def)
next
  case (Some f)
  show ?thesis
  proof (cases "blocks f = []")
    case True
    then show ?thesis using Some assms(1) by (simp add: jit_compile_def)
  next
    case False
    show ?thesis
    proof (cases "host_generate build f")
      case (Ok code)
      then show ?thesis using Some False compile_steps [OF assms(1) False Ok, of os] by auto
    qed (use Some False assms(1) in \<open>simp_all add: jit_compile_def\<close>)
  qed
qed

text \<open>
  C4. Compiling and calling a filter on AArch64. For every query without an aggregate call whose filter has at most 16
  operators, columns and literals, no function calls, uses the operators that the generator supports and combines truth values
  with AND and OR, the query is built and the reference interpreter returns the meaning of the filter on every event, errors
  included. When one page can be mapped and protected, \<open>jit_execute\<close> returns the same value on every event on which that meaning
  is a value; nothing is said about events on which it is an error, where the compiled code wraps around or divides to zero.
  Called with the event behind X0, a 16-byte aligned stack and the event outside the 96 bytes below the stack pointer, it returns
  to the address in X30, keeps the stack pointer and X19 to X30 and changes no memory outside of these 96 bytes.
\<close>

theorem jit_execute_correct:
  assumes "where_expr q = Some ex" "aggregate_call q = None" "lowerable ex" "jit_supported ex" "expr_nodes ex \<le> 16"
    and "mmap_ok os 4096" "mprotect_ok os 4096"
  shows "\<exists>f. build_from_query (Some q) = Ok (Some f) \<and>
    (\<forall>e ist. \<exists>ist'. ri_execute (Some f) (Some e) ist = Some (meaning ex e, ist')) \<and>
    (\<forall>e st v. meaning ex e = Ok v \<and> call_ready e st \<longrightarrow>
      (\<exists>st'. jit_execute os (Some f) st = Ok (v, st') \<and> returns_value v st (Some (gpr st 30, st'))))"
proof -
  let ?g = "\<lparr>assembler = [], value_to_reg = Map.empty, free_regs = [], reg_info = Map.empty\<rparr> :: A64CodeGenerator"
  obtain f where f: "build_from_query (Some q) = Ok (Some f)" "length (blocks f) = 1"
    "\<And>e ist. \<exists>ist'. ri_execute (Some f) (Some e) ist = Some (meaning ex e, ist')"
    "\<And>g. \<exists>code g'. generate (Some f) g = Ok (code, g') \<and> code \<noteq> [] \<and> length code \<le> 348 \<and>
      (\<forall>pad e st v. meaning ex e = Ok v \<and> call_ready e st \<longrightarrow> returns_value v st (call (code @ pad) st))"
    using filter_code_correct [OF assms(1-5)] by blast
  from f(4) [of ?g] obtain code g' where c: "generate (Some f) ?g = Ok (code, g')" "code \<noteq> []" "length code \<le> 348"
    "\<And>pad e st v. meaning ex e = Ok v \<Longrightarrow> call_ready e st \<Longrightarrow> returns_value v st (call (code @ pad) st)" by blast
  have "host_generate AArch64 f = Ok code" by (simp add: host_generate_def host_generator map_result_def c(1))
  moreover have "blocks f \<noteq> []" using f(2) by auto
  ultimately have r: "fst (jit_compile AArch64 os (Some f) JitMemory_new) =
      Ok (Some \<lparr>contents = code @ replicate (4096 - length code) 0, writable = False, runnable = True\<rparr>)"
    using compile_succeeds [of f AArch64 code os] c(2,3) assms(6,7) by simp
  have "\<exists>st'. jit_execute os (Some f) st = Ok (v, st') \<and> returns_value v st (Some (gpr st 30, st'))"
    if "meaning ex e = Ok v" "call_ready e st" for e st v
    using c(4) [OF that, of "replicate (4096 - length code) 0"] by (auto simp: jit_execute_def r returns_value_def)
  with f(1,3) show ?thesis by blast
qed

definition jit_os :: os where
  "jit_os = \<lparr>mmap_ok = (\<lambda>n. 0 < n), mprotect_ok = (\<lambda>n. True)\<rparr>"

text \<open>A filter with two comparisons on an event that passes it.\<close>

theorem jit_execute_correct_witness:
  "\<exists>f st'. build_from_query (Some ((QueryStmt_init 1 1)\<lparr>where_expr := Some jit_sample\<rparr>)) = Ok (Some f) \<and>
    jit_execute jit_os (Some f) jit_state = Ok (1, st')"
  using jit_execute_correct [of "(QueryStmt_init 1 1)\<lparr>where_expr := Some jit_sample\<rparr>" jit_sample jit_os] jit_state_ready jit_sample_facts
  by (fastforce simp: aggregate_call_def QueryStmt_init_def jit_os_def)

text \<open>The same filter, compiled into new pages.\<close>

theorem jit_write_xor_execute_witness:
  "\<exists>f p. build_from_query (Some ((QueryStmt_init 1 1)\<lparr>where_expr := Some jit_sample\<rparr>)) = Ok (Some f) \<and>
    fst (jit_compile AArch64 jit_os (Some f) JitMemory_new) = Ok (Some p) \<and> runnable p \<and> \<not> writable p"
proof -
  let ?q = "(QueryStmt_init 1 1)\<lparr>where_expr := Some jit_sample\<rparr>"
  let ?g = "\<lparr>assembler = [], value_to_reg = Map.empty, free_regs = [], reg_info = Map.empty\<rparr> :: A64CodeGenerator"
  have q: "where_expr ?q = Some jit_sample" "aggregate_call ?q = None" by (simp_all add: aggregate_call_def QueryStmt_init_def)
  obtain f where f: "build_from_query (Some ?q) = Ok (Some f)" "length (blocks f) = 1"
    "\<exists>code g'. generate (Some f) ?g = Ok (code, g') \<and> code \<noteq> [] \<and> length code \<le> 348"
    using filter_code_correct [OF q jit_sample_facts(1-3)] by metis
  then obtain code where c: "host_generate AArch64 f = Ok code" "code \<noteq> []" "length code \<le> 4096"
    by (auto simp: host_generate_def host_generator map_result_def)
  have "blocks f \<noteq> []" "mmap_ok jit_os 4096" "mprotect_ok jit_os 4096" using f(2) by (auto simp: jit_os_def)
  then have "\<exists>r. fst (jit_compile AArch64 jit_os (Some f) JitMemory_new) = Ok r" using compile_succeeds c by blast
  with f(1) show ?thesis using jit_write_xor_execute [OF jm_ok_new, of AArch64 jit_os "Some f"] by blast
qed

end
