(* ===== verification/Spec2Isabelle.thy ===== *)
theory Spec2Isabelle
  imports VT_Prelude Endian Checked_Math Varint Bitpack Rle Dictionary Crc32c Event_Model Frame Decoder Pcap Spsc_Ring
    Virtual_Clock Replay Replay_Catalog Hashing Segment_Format Segment_Writer Segment_Reader Segment_Store
    Query_Lexer Query_Parser Query_Printer Query_Types Vector_Exec
    IR_Builder Interpreter IR_Semantics Query_Sound File_System Crash_Logic Manifest Journal Catalog Catalog_Recovery Catalog_Commit Worker_Pool
    A64_Assembler A64_Machine Jit_Codegen A64_Codegen A64_Correct X86_Assembler X86_Codegen X86_Filters Jit_Compiler
begin

text \<open>
  Verification of VectorTick, a market-data engine in C++. Packets from a capture or a stream are decoded into canonical events;
  events are written to column segments, which a catalog keeps consistent across crashes; a query language filters and
  aggregates events, through a vectorised executor or through an intermediate representation that is interpreted or compiled
  to machine code. The paths below are relative to \<^verbatim>\<open>src/include/vectortick\<close> and \<^verbatim>\<open>src/src\<close>.

  \<^bold>\<open>Conventions.\<close> Machine integers are words of their width (signed ones are read with \<open>sint\<close>), structures are records,
  enumerations are datatypes, methods are functions on the state they change. An operation that can fail returns an \<open>outcome\<close>:
  \<open>Ok\<close>, \<open>Err\<close> with the status code of the source, or \<open>Fault\<close> for undefined behaviour (an access outside a buffer, a trapping
  division, an unchecked cast that is wrong). A theorem that a result is \<open>Ok\<close> or \<open>Err\<close> therefore also says that nothing undefined
  happens. Loops are structural recursions or have a measure; a loop that may not end is a partial function into \<open>option\<close>.

  \<^bold>\<open>Basics.\<close> \<open>VT_Prelude\<close> (types, outcomes, bytes of words, bounds-checked reads and writes), \<open>Endian\<close> (\<^verbatim>\<open>common/endian.hpp\<close>),
  \<open>Checked_Math\<close> (\<^verbatim>\<open>common/checked_math.hpp\<close>), \<open>Crc32c\<close> (\<^verbatim>\<open>common/crc32c\<close>), \<open>Hashing\<close> (\<^verbatim>\<open>common/hash\<close>). Checked arithmetic is exact or
  refuses; the CRC32C checksum, by a table of bytes or by the processor's instructions, equals the polynomial division and finds
  every burst of up to 32 bits; SHA-256 does not depend on how its input is cut into pieces.

  \<^bold>\<open>Codecs.\<close> \<open>Varint\<close>, \<open>Bitpack\<close>, \<open>Rle\<close>, \<open>Dictionary\<close> (\<^verbatim>\<open>codec/\<close>): decoding inverts encoding whenever encoding succeeds. The
  size that the run-length codec announces as its worst case is not enough (\<open>rle_size_bound\<close>).

  \<^bold>\<open>Events and wire formats.\<close> \<open>Event_Model\<close> (\<^verbatim>\<open>model/\<close>), \<open>Frame\<close>, \<open>Decoder\<close>, \<open>Pcap\<close> (\<^verbatim>\<open>protocol/\<close>). Decoding arbitrary bytes stays
  inside the buffer; an encoded event decodes to the fields that the wire carries; a frame with up to four neighbouring bytes of its
  payload changed is refused; the sequence numbers of delivered data frames increase; a capture file is read to its end and the
  payload of a well-formed UDP packet, with any VLAN tags and IPv4 options, is extracted.

  \<^bold>\<open>Time and concurrency.\<close> \<open>Virtual_Clock\<close>, \<open>Replay\<close> and \<open>Replay_Catalog\<close> (\<^verbatim>\<open>replay/\<close>), \<open>Spsc_Ring\<close>, \<open>Worker_Pool\<close>
  (\<^verbatim>\<open>concurrency/\<close>). Replay delivers events and the segments of a catalog in order and counts exactly. The ring is a bounded
  queue that accepts a push exactly while it has room and answers a pop exactly while it is not empty, and it keeps the order also under every interleaving of one producer and one consumer; its contract is a locale that the model interprets.
  The pool is a transition system in which threads take turns: results of a worker come in the order of its commands, and
  \<open>stop\<close> returns under fair turns when the command queues have room. The lemmas \<open>stop_hangs\<close> and \<open>wait_all_hangs\<close> show when the
  source waits forever.

  \<^bold>\<open>Segments.\<close> \<open>Segment_Format\<close>, \<open>Segment_Writer\<close>, \<open>Segment_Reader\<close>, \<open>Segment_Store\<close> (\<^verbatim>\<open>storage/segment_*\<close>). A segment that is
  written is read back event for event, its statistics are those of the events for the columns that carry them, a change of up to
  four neighbouring bytes of a column is noticed, and the buffer
  that the writer allocates is large enough under the condition the theorem states.

  \<^bold>\<open>Catalog.\<close> \<open>File_System\<close> models the system calls that \<^verbatim>\<open>memory/mapped_file.cpp\<close> makes: each may fail, be interrupted, be short, or
  find the process killed. What a process wrote before it is killed stays in the file: a failure of the machine, which could lose
  writes that were not synchronised, is not modelled, so \<^verbatim>\<open>fsync\<close> has no effect on the model and no theorem depends on it. \<open>Crash_Logic\<close> has weakest preconditions
  for such programs. \<open>Manifest\<close>, \<open>Journal\<close> and \<open>Catalog\<close> model \<^verbatim>\<open>storage/catalog.cpp\<close>; \<open>Catalog_Recovery\<close> and \<open>Catalog_Commit\<close>
  prove that a commit that is killed at any call has happened completely or not at all once recovery, itself killed and
  restarted any number of times, ends; this is for a catalog that was opened in an empty directory, saw only commits that returned, and was
  not opened again, and for calls that do not fail. The clock, the allocator and \<^verbatim>\<open>std::sort\<close> are parameters.

  \<^bold>\<open>Queries.\<close> \<open>Query_Lexer\<close>, \<open>Query_Parser\<close>, \<open>Query_Types\<close> (\<^verbatim>\<open>query/\<close>) and \<open>Query_Printer\<close>, the inverse of the parser. Literals are exact
  or rejected; the parser ends on every text (its fuel is the number of characters plus two, and the theorem shows that it is never
  used up); printing a query with the fewest parentheses and parsing it gives the query; the type checker accepts a query
  exactly when the names in the parts that it looks at are columns (it does not look at \<^verbatim>\<open>LET\<close>, \<^verbatim>\<open>TUMBLE\<close> and \<^verbatim>\<open>AGG\<close>), and \<open>Query_Sound\<close> shows
  that an accepted filter is built and gives values of the type that the checker found. \<open>Vector_Exec\<close>
  (\<^verbatim>\<open>execution/vector_executor\<close>): batches with selection vectors compute what a loop over rows does over the integers, for the filters that
  the executor supports (one comparison of four of the columns with a literal). A signed sum that overflows is a \<open>Fault\<close>, and the theorem assumes that
  the matching prices cannot overflow it.

  \<^bold>\<open>Intermediate representation and machine code.\<close> \<open>IR_Builder\<close> (\<^verbatim>\<open>ir/\<close>), \<open>Interpreter\<close> (\<^verbatim>\<open>execution/reference_interpreter\<close>) and
  \<open>IR_Semantics\<close>: a filter without calls that is lowered and interpreted has the meaning of the expression over the integers, with
  the errors of the source; for an aggregation the builder ignores the filter, which the theorem therefore excludes. \<open>Jit_Codegen\<close> (\<^verbatim>\<open>jit/code_generator\<close>), \<open>A64_Assembler\<close> and \<open>A64_Codegen\<close> (\<^verbatim>\<open>jit/a64\<close>), \<open>X86_Assembler\<close> and
  \<open>X86_Codegen\<close> (\<^verbatim>\<open>jit/x64\<close>) model the code generators down to the emitted bytes. The instruction decoders and the semantics of
  \<open>A64_Machine\<close> are specifications taken from the architecture, not models of code. \<open>A64_Correct\<close> proves that calling the
  generated bytes returns the meaning of the filter wherever that is a value (the machine has no overflow errors) and respects the calling convention, for filters of at most 16 operators,
  columns and literals: the allocator has 16 registers and gives X0 to everything after that. The frame has 96 bytes.
  \<open>Jit_Compiler\<close> (\<^verbatim>\<open>jit/jit_compiler\<close>) puts the code into pages that are never writable and executable at once and composes the
  steps into a theorem about \<open>jit_execute\<close>; the answers of mmap and mprotect are parameters, and the code of such a filter fits one page. For
  x86-64 every encoding is proved, and \<open>X86_Filters\<close> says exactly which filters without calls are compiled: none that reads a column. All
  comparisons share RAX there, so there is no theorem that its programs compute filters.

  \<^bold>\<open>Not modelled.\<close> Aligned buffers, arena and buffer pool (\<^verbatim>\<open>memory/\<close>: allocation helpers), the macOS variant of the code pages, writable mappings and directories, argument parsing and printing in \<^verbatim>\<open>apps/\<close>, tests, benchmarks and tools.
\<close>

end
